(* ===== verification/Prelude.thy ===== *)
theory Prelude
  imports Main "HOL-Library.Word"
begin

text \<open>
  What every component theory shares: the machine integer types of the i686 target, the
  outcome type of kernel operations, the constants of \<^verbatim>\<open>src/mmdef.h\<close>, little-endian reads from
  a byte store, and generic lemmas on words and lists.

  On the target \<^verbatim>\<open>unsigned int\<close>, \<^verbatim>\<open>unsigned long\<close>, \<^verbatim>\<open>size_t\<close>, \<^verbatim>\<open>uintptr_t\<close> and every pointer
  have 32 bits; \<^verbatim>\<open>unsigned long long\<close> has 64. They are words of that width, so additions wrap as
  they do in the code.
\<close>

unbundle bit_operations_syntax

type_synonym u8 = "8 word"
type_synonym u16 = "16 word"
type_synonym u32 = "32 word"
type_synonym u64 = "64 word"

subsection \<open>Outcomes\<close>

text \<open>
  A kernel operation returns, stops in a fault the model makes visible, or never returns.
  A fault is what the machine or the code does instead of going on: a division trap, an access
  outside the object the code means to access, an operation the language leaves undefined, or \<^verbatim>\<open>PANIC\<close>/\<^verbatim>\<open>panic\<close>, which loop forever after
  printing.
\<close>

datatype fault =
    DivideError
  | OutOfBounds
  | UndefinedBehaviour
  | Panic string

datatype 'a outcome = Done 'a | Fault fault | Diverges

primrec outcome_bind :: "'a outcome \<Rightarrow> ('a \<Rightarrow> 'b outcome) \<Rightarrow> 'b outcome" where
  "outcome_bind (Done x) f = f x"
| "outcome_bind (Fault e) f = Fault e"
| "outcome_bind Diverges f = Diverges"

primrec outcome_of_loop :: "'a outcome option \<Rightarrow> 'a outcome" where
  "outcome_of_loop None = Diverges"
| "outcome_of_loop (Some r) = r"

lemma outcome_bind_Done_iff [simp]:
  "outcome_bind m f = Done y \<longleftrightarrow> (\<exists>x. m = Done x \<and> f x = Done y)"
  by (cases m) auto

lemma outcome_bind_assoc:
  "outcome_bind (outcome_bind m f) g = outcome_bind m (\<lambda>x. outcome_bind (f x) g)"
  by (cases m) auto

subsection \<open>Memory layout constants (\<^verbatim>\<open>src/mmdef.h\<close>)\<close>

definition KERNEL_PHYSICAL_START :: u32 where "KERNEL_PHYSICAL_START = 0x00100000"
definition KERNEL_VIRTUAL_BASE :: u32 where "KERNEL_VIRTUAL_BASE = 0xC0000000"
definition KERNEL_VIRTUAL_SIZE_MAX :: u32 where "KERNEL_VIRTUAL_SIZE_MAX = 0x04000000"
definition DMA_MEMORY_LIMIT :: u32 where "DMA_MEMORY_LIMIT = 0x01000000"
definition PAGE_SIZE :: u32 where "PAGE_SIZE = 0x1000"
definition PAGE_MASK :: u32 where "PAGE_MASK = 0x0FFF"
definition PAGE_SHIFT :: nat where "PAGE_SHIFT = 12"
definition LARGE_PAGE_SIZE :: u32 where "LARGE_PAGE_SIZE = 0x400000"
definition LARGE_PAGE_MASK :: u32 where "LARGE_PAGE_MASK = 0x3FFFFF"
definition LARGE_PAGE_SHIFT :: nat where "LARGE_PAGE_SHIFT = 22"

lemmas mmdef_defs = KERNEL_PHYSICAL_START_def KERNEL_VIRTUAL_BASE_def
  KERNEL_VIRTUAL_SIZE_MAX_def DMA_MEMORY_LIMIT_def PAGE_SIZE_def PAGE_MASK_def PAGE_SHIFT_def
  LARGE_PAGE_SIZE_def LARGE_PAGE_MASK_def LARGE_PAGE_SHIFT_def

subsection \<open>Words\<close>

lemma unat_u32_less [simp]: "unat (x :: u32) < 4294967296"
  using unsigned_less [of x] by simp

lemma unat_u32_minus_one [simp]: "unat (- 1 :: u32) = 4294967295"
  by (simp add: unsigned_minus_1_eq_mask mask_eq_exp_minus_1)

lemma unat_u32_add: "unat x + unat y < 4294967296 \<Longrightarrow> unat (x + y :: u32) = unat x + unat y"
  by (simp add: unat_word_ariths)

lemma unat_u32_mult: "unat x * unat y < 4294967296 \<Longrightarrow> unat (x * y :: u32) = unat x * unat y"
  by (simp add: unat_word_ariths)

lemma unat_u32_of_nat: "n < 4294967296 \<Longrightarrow> unat (word_of_nat n :: u32) = n"
  by (simp add: unat_of_nat)

lemma sint_u32_small: "unat (x :: u32) < 2147483648 \<Longrightarrow> sint x = int (unat x)"
proof -
  assume "unat x < 2147483648"
  then have "int (unat x) < 2147483648" by linarith
  then have u: "uint x < 2147483648" by simp
  have "signed_take_bit 31 (uint x) = uint x"
  proof (rule signed_take_bit_int_eq_self)
    show "- (2 ^ 31) \<le> uint x" by (rule order_trans [of _ 0]) simp_all
    show "uint x < 2 ^ 31" using u by simp
  qed
  then show ?thesis by (simp add: sint_uint)
qed

lemma u32_Suc_cases: "(r :: u32) + 1 = 0 \<or> unat (r + 1) = Suc (unat r)"
proof (cases "r + 1 = 0")
  case False
  then have "unat (r + 1 - 1) = unat (r + 1) - 1" by (rule unat_minus_one)
  then show ?thesis using False by (simp add: unat_gt_0 [symmetric])
qed simp

lemma two_bytes: "(x :: nat) < 65536 \<Longrightarrow> x div 256 mod 256 * 256 + x mod 256 = x"
proof -
  assume "x < 65536"
  then have "x div 256 < 256" by simp
  then show ?thesis by simp
qed

end
