(* ===== verification/Block_Device.thy ===== *)
theory Block_Device
  imports Prelude
begin

text \<open>
  The block device interface of \<^verbatim>\<open>src/blockdevice.h\<close>: a record of its four methods over a device
  state \<^typ>\<open>'d\<close>. \<open>bd_read first count buffer d\<close> gives the result, the bytes of the caller's buffer
  afterwards and the new device state; a driver may panic or hang in it. Also the little-endian
  fields of a byte list, which is how the on-disk structures are read.
\<close>

record 'd IBlockDevice =
  bd_block_size :: "'d \<Rightarrow> u32"
  bd_block_count :: "'d \<Rightarrow> u32"
  bd_read :: "u32 \<Rightarrow> u32 \<Rightarrow> u8 list \<Rightarrow> 'd \<Rightarrow> (bool \<times> u8 list \<times> 'd) outcome"
  bd_write :: "u32 \<Rightarrow> u32 \<Rightarrow> u8 list \<Rightarrow> 'd \<Rightarrow> (bool \<times> 'd) outcome"

definition le16 :: "u8 list \<Rightarrow> nat \<Rightarrow> u16" where
  "le16 bs i = ucast (bs ! i) OR push_bit 8 (ucast (bs ! (i + 1)))"

definition le32 :: "u8 list \<Rightarrow> nat \<Rightarrow> u32" where
  "le32 bs i = ucast (le16 bs i) OR push_bit 16 (ucast (le16 bs (i + 2)))"

definition bytes_between :: "u8 list \<Rightarrow> nat \<Rightarrow> nat \<Rightarrow> u8 list" where
  "bytes_between bs i n = take n (drop i bs)"

lemma unat_u32_Suc_below: "i < (n :: u32) \<Longrightarrow> unat (i + 1) = Suc (unat i)"
  using unat_u32_less [of n] unat_u32_add [of i 1] by (simp add: word_less_nat_alt del: unat_u32_less)

lemma unat_ucast_u16 [simp]: "unat (ucast (x :: u16) :: u32) = unat x"
  by (simp add: unsigned_ucast_eq unsigned_take_bit_eq take_bit_nat_eq_self order_less_trans [OF unsigned_less])

text \<open>
  A disk image gives the bytes of every sector. A device serves the first \<open>n\<close> sectors of an image, in
  the states where \<open>I\<close> holds, when reading a range of them into a buffer of that many sectors returns
  true with the image's bytes in the buffer, and keeps \<open>I\<close>.
\<close>

type_synonym image = "u32 \<Rightarrow> u8 list"

fun image_range :: "image \<Rightarrow> u32 \<Rightarrow> nat \<Rightarrow> u8 list" where
  "image_range img first 0 = []"
| "image_range img first (Suc n) = img first @ image_range img (first + 1) n"

definition serves_image :: "'d IBlockDevice \<Rightarrow> nat \<Rightarrow> image \<Rightarrow> ('d \<Rightarrow> bool) \<Rightarrow> bool" where
  "serves_image dev n img I \<longleftrightarrow>
     (\<forall>s. length (img s) = 512) \<and>
     (\<forall>first count buf d. I d \<longrightarrow> length buf = 512 * unat count \<longrightarrow> unat first + unat count \<le> n \<longrightarrow>
        (\<exists>d'. bd_read dev first count buf d = Done (True, image_range img first (unat count), d') \<and> I d'))"

lemma length_image_range: "(\<And>s. length (img s) = 512) \<Longrightarrow> length (image_range img first n) = 512 * n"
  by (induction img first n rule: image_range.induct) auto

lemma serves_image_length: "serves_image dev n img I \<Longrightarrow> length (img s) = 512"
  by (simp add: serves_image_def)

text \<open>What the users of a block device rely on, and what follows for them.\<close>

locale block_device =
  fixes dev :: "'d IBlockDevice" and n :: nat and img :: image and I :: "'d \<Rightarrow> bool"
  assumes serves: "serves_image dev n img I"
begin

lemma sector_length: "length (img s) = 512"
  using serves by (rule serves_image_length)

lemma read_range:
  assumes "I d" and "length buf = 512 * unat count"
    and "unat first + unat count \<le> n"
  obtains d' where "bd_read dev first count buf d = Done (True, image_range img first (unat count), d')" "I d'"
  using serves assms unfolding serves_image_def by blast

lemma read_one:
  assumes "I d" and "length buf = 512" and "unat s < n"
  obtains d' where "bd_read dev s 1 buf d = Done (True, img s, d')" "I d'"
proof -
  have u: "unat (1 :: u32) = Suc 0" by simp
  obtain d' where "bd_read dev s 1 buf d = Done (True, image_range img s (unat (1 :: u32)), d')" "I d'"
    using read_range [OF assms(1), of buf 1 s] assms(2,3) by auto
  then show thesis unfolding u using that by simp
qed

end

text \<open>The device that is just an image, without state.\<close>

definition image_device :: "image \<Rightarrow> unit IBlockDevice" where
  "image_device img = \<lparr>
     bd_block_size = (\<lambda>_. 512), bd_block_count = (\<lambda>_. 2880),
     bd_read = (\<lambda>first count buf d. Done (True, image_range img first (unat count), d)),
     bd_write = (\<lambda>first count buf d. Done (False, d))\<rparr>"

lemma image_device_serves: "(\<And>s. length (img s) = 512) \<Longrightarrow> serves_image (image_device img) n img (\<lambda>_. True)"
  by (simp add: serves_image_def image_device_def)

text \<open>Any byte lists as sectors of 512 bytes, and the interface met by the device of the image.\<close>

definition sector_image :: "image \<Rightarrow> image" where
  "sector_image img s = take 512 (img s @ replicate 512 0)"

lemma length_sector_image [simp]: "length (sector_image img s) = 512"
  by (simp add: sector_image_def)

interpretation image_disk: block_device "image_device (sector_image img)" n "sector_image img" "\<lambda>_. True" for img n
  by unfold_locales (rule image_device_serves, simp)

text \<open>A blank disk, for the examples.\<close>

definition zero_image :: image where "zero_image = (\<lambda>s. replicate 512 0)"

end
