(* ===== verification/Klibc.thy ===== *)
theory Klibc
  imports Prelude "HOL-Library.Signed_Division"
begin

text \<open>
  Models \<^verbatim>\<open>src/lib/klibc/string.cpp\<close> and the arithmetic of \<^verbatim>\<open>src/lib/klibc/stdlib.cpp\<close> over an
  explicit byte store: an address is a 32-bit word and address arithmetic wraps. A loop that counts
  down a \<^verbatim>\<open>size_t\<close> is structural recursion on that count; a loop that waits for a NUL byte may run
  forever and is a \<^theory_text>\<open>partial_function\<close>, with \<open>None\<close> for a call that never returns.

  The lemmas give the exact effect of each routine, including the places where it differs from the
  C standard's routine of that name: \<^verbatim>\<open>memmove\<close> is a forward copy, \<^verbatim>\<open>strcat\<close> starts at the destination's
  first byte, and neither \<^verbatim>\<open>strcmp\<close> nor \<^verbatim>\<open>strncmp\<close> advances its pointers.
\<close>

type_synonym memory = "u32 \<Rightarrow> u8"

subsection \<open>Block operations\<close>

fun memcpy_loop :: "nat \<Rightarrow> u32 \<Rightarrow> u32 \<Rightarrow> memory \<Rightarrow> memory" where
  "memcpy_loop 0 dest src m = m"
| "memcpy_loop (Suc count) dest src m = memcpy_loop count (dest + 1) (src + 1) (m(dest := m src))"

definition memcpy :: "u32 \<Rightarrow> u32 \<Rightarrow> u32 \<Rightarrow> memory \<Rightarrow> u32 \<times> memory" where
  "memcpy destination source count m = (destination, memcpy_loop (unat count) destination source m)"

definition memmove :: "u32 \<Rightarrow> u32 \<Rightarrow> u32 \<Rightarrow> memory \<Rightarrow> u32 \<times> memory" where
  "memmove destination source count m = memcpy destination source count m"

fun memset_loop :: "nat \<Rightarrow> u32 \<Rightarrow> u8 \<Rightarrow> memory \<Rightarrow> memory" where
  "memset_loop 0 dest v m = m"
| "memset_loop (Suc count) dest v m = memset_loop count (dest + 1) v (m(dest := v))"

definition memset :: "u32 \<Rightarrow> u8 \<Rightarrow> u32 \<Rightarrow> memory \<Rightarrow> u32 \<times> memory" where
  "memset destination v count m = (destination, memset_loop (unat count) destination v m)"

text \<open>What a block copy is meant to do: the bytes of the source as they were before the call.\<close>

definition block_copied :: "memory \<Rightarrow> u32 \<Rightarrow> u32 \<Rightarrow> nat \<Rightarrow> memory" where
  "block_copied m dest src n = (\<lambda>a. if unat (a - dest) < n then m (src + (a - dest)) else m a)"

lemma unat_diff_Suc: "a \<noteq> (d :: u32) \<Longrightarrow> unat (a - d) = Suc (unat (a - (d + 1)))"
  using unat_minus_one [of "a - d"] unat_gt_0 [of "a - d"] by (simp add: diff_diff_eq)

lemma memcpy_loop_block:
  assumes "n < 4294967296" and "dest = src \<or> n \<le> unat (dest - src)"
  shows "memcpy_loop n dest src m = block_copied m dest src n"
  using assms
proof (induction n dest src m rule: memcpy_loop.induct)
  case (1 dest src m)
  show ?case by (simp add: block_copied_def)
next
  case (2 n dest src m)
  let ?m = "m(dest := m src)"
  have IH: "memcpy_loop n (dest + 1) (src + 1) ?m = block_copied ?m (dest + 1) (src + 1) n"
    using "2.prems" by (intro "2.IH") auto
  have "block_copied ?m (dest + 1) (src + 1) n a = block_copied m dest src (Suc n) a" for a
  proof (cases "a = dest")
    case True
    then show ?thesis using "2.prems"(1) by (simp add: block_copied_def)
  next
    case False
    have ne: "src + (a - dest) \<noteq> dest" if "unat (a - dest) < Suc n" "dest \<noteq> src"
    proof
      assume "src + (a - dest) = dest"
      then have "a - dest = dest - src" by (simp add: algebra_simps)
      then show False using that "2.prems"(2) by simp
    qed
    show ?thesis
      using False ne unat_diff_Suc [OF False] by (auto simp: block_copied_def algebra_simps)
  qed
  then show ?case by (simp add: IH fun_eq_iff)
qed

lemma memset_loop_block:
  "n < 4294967296 \<Longrightarrow> memset_loop n dest v m = (\<lambda>a. if unat (a - dest) < n then v else m a)"
proof (induction n dest v m rule: memset_loop.induct)
  case (2 n dest v m)
  have IH: "memset_loop n (dest + 1) v (m(dest := v)) =
      (\<lambda>a. if unat (a - (dest + 1)) < n then v else (m(dest := v)) a)"
    by (rule "2.IH") (use "2.prems" in simp)
  show ?case
    unfolding memset_loop.simps IH using "2.prems" by (auto simp: fun_eq_iff unat_diff_Suc)
qed simp

text \<open>A forward copy to the next address smears the first byte over the whole block.\<close>

lemma memcpy_loop_smear:
  "n < 4294967295 \<Longrightarrow> memcpy_loop n (src + 1) src m =
     (\<lambda>a. if unat (a - src) < Suc n then m src else m a)"
proof (induction n arbitrary: src m)
  case 0
  then show ?case by (auto simp: unat_eq_0)
next
  case (Suc n)
  let ?m = "m(src + 1 := m src)"
  have "memcpy_loop n (src + 1 + 1) (src + 1) ?m =
      (\<lambda>a. if unat (a - (src + 1)) < Suc n then ?m (src + 1) else ?m a)"
    by (rule Suc.IH) (use Suc.prems in simp)
  moreover have "(if unat (a - (src + 1)) < Suc n then ?m (src + 1) else ?m a) =
      (if unat (a - src) < Suc (Suc n) then m src else m a)" for a
  proof (cases "a = src")
    case True
    with Suc.prems show ?thesis by simp
  next
    case False
    then show ?thesis by (auto simp: unat_diff_Suc)
  qed
  ultimately show ?case by (simp add: fun_eq_iff)
qed

subsection \<open>NUL-terminated strings\<close>

definition c_char :: "u8 \<Rightarrow> int" where
  \<comment> \<open>\<^verbatim>\<open>char\<close> is signed on this target; in arithmetic it is promoted to \<^verbatim>\<open>int\<close>.\<close>
  "c_char b = sint b"

partial_function (option) strcat_loop :: "u32 \<Rightarrow> u32 \<Rightarrow> memory \<Rightarrow> memory option" where
  "strcat_loop dest src m =
     (if m src \<noteq> 0 then strcat_loop (dest + 1) (src + 1) (m(dest := m src))
      else Some (m(dest := 0)))"

definition strcat :: "u32 \<Rightarrow> u32 \<Rightarrow> memory \<Rightarrow> (u32 \<times> memory) option" where
  "strcat destination source m = map_option (Pair destination) (strcat_loop destination source m)"

partial_function (option) strcmp :: "memory \<Rightarrow> u32 \<Rightarrow> u32 \<Rightarrow> int option" where
  "strcmp m s1 s2 =
     (if m s1 \<noteq> m s2 then Some (c_char (m s1) - c_char (m s2))
      else if m s1 = 0 \<and> m s2 = 0 then Some 0
      else if m s1 = 0 then Some (- 1)
      else if m s2 = 0 then Some 1
      else strcmp m s1 s2)"

fun strncmp_loop :: "nat \<Rightarrow> memory \<Rightarrow> u32 \<Rightarrow> u32 \<Rightarrow> int" where
  "strncmp_loop 0 m s1 s2 = 0"
| "strncmp_loop (Suc count) m s1 s2 =
     (if m s1 \<noteq> m s2 then c_char (m s1) - c_char (m s2)
      else if m s1 = 0 then - 1
      else if m s2 = 0 then 1
      else strncmp_loop count m s1 s2)"

definition strncmp :: "memory \<Rightarrow> u32 \<Rightarrow> u32 \<Rightarrow> u32 \<Rightarrow> int" where
  "strncmp m s1 s2 count = strncmp_loop (unat count) m s1 s2"

partial_function (option) strlen_loop :: "memory \<Rightarrow> u32 \<Rightarrow> u32 \<Rightarrow> u32 option" where
  "strlen_loop m s result = (if m s \<noteq> 0 then strlen_loop m (s + 1) (result + 1) else Some result)"

definition strlen :: "memory \<Rightarrow> u32 \<Rightarrow> u32 option" where
  "strlen m s = strlen_loop m s 0"

text \<open>The string \<open>cs\<close> (no NUL in it) stored at \<open>s\<close> with its terminator.\<close>

fun cstring_at :: "memory \<Rightarrow> u32 \<Rightarrow> u8 list \<Rightarrow> bool" where
  "cstring_at m s [] \<longleftrightarrow> m s = 0"
| "cstring_at m s (c # cs) \<longleftrightarrow> c \<noteq> 0 \<and> m s = c \<and> cstring_at m (s + 1) cs"

lemma strlen_loop_cstring:
  "cstring_at m s cs \<Longrightarrow> strlen_loop m s r = Some (r + word_of_nat (length cs))"
  by (induction cs arbitrary: s r) (simp_all add: strlen_loop.simps algebra_simps)

lemma strcmp_stuck: "m s1 = m s2 \<Longrightarrow> m s1 \<noteq> 0 \<Longrightarrow> strcmp m s1 s2 = None"
proof -
  assume eq: "m s1 = m s2" "m s1 \<noteq> 0"
  have "False" if ret: "strcmp m s1 s2 = Some r" for r
  proof -
    have "\<not> (m s1 = m s2 \<and> m s1 \<noteq> 0)"
      by (rule strcmp.raw_induct [where P = "\<lambda>m s1 s2 r. \<not> (m s1 = m s2 \<and> m s1 \<noteq> 0)", OF _ ret])
        (auto split: if_splits)
    with eq show False by simp
  qed
  then show ?thesis by (cases "strcmp m s1 s2") auto
qed

lemma strcmp_returns: "m s1 \<noteq> m s2 \<or> m s1 = 0 \<Longrightarrow> strcmp m s1 s2 = Some (c_char (m s1) - c_char (m s2))"
  by (auto simp: strcmp.simps c_char_def)

lemma c_char_inject [simp]: "c_char a = c_char b \<longleftrightarrow> a = b"
  by (auto simp: c_char_def intro: signed_word_eqI)

lemma strncmp_loop_eq:
  "strncmp_loop n m s1 s2 =
     (if n = 0 then 0
      else if m s1 \<noteq> m s2 then c_char (m s1) - c_char (m s2)
      else if m s1 = 0 then - 1 else 0)"
  by (induction n) auto

lemma strncmp_loop_zero:
  "strncmp_loop n m s1 s2 = 0 \<longleftrightarrow> n = 0 \<or> (m s1 = m s2 \<and> m s1 \<noteq> 0)"
  by (induction n) auto

subsection \<open>Integer division\<close>

record div_t =
  quot :: "32 word"
  rem :: "32 word"

text \<open>
  C division truncates towards zero; the \<^verbatim>\<open>idiv\<close> instruction traps on a zero divisor and when the
  quotient does not fit (\<^verbatim>\<open>INT_MIN / -1\<close>).
\<close>

definition c_div :: "32 word \<Rightarrow> 32 word \<Rightarrow> div_t outcome" where
  "c_div numerator denominator =
     (if denominator = 0 then Fault DivideError
      else if sint numerator sdiv sint denominator = 2147483648 then Fault DivideError
      else Done \<lparr>quot = word_of_int (sint numerator sdiv sint denominator),
                 rem = word_of_int (sint numerator smod sint denominator)\<rparr>)"

definition labs :: "32 word \<Rightarrow> 32 word" where
  "labs x = (if sint x < 0 then - x else x)"

definition c_ldiv :: "32 word \<Rightarrow> 32 word \<Rightarrow> div_t outcome" where
  "c_ldiv numerator denominator = c_div numerator denominator"

text \<open>\<^verbatim>\<open>abort\<close> loops forever, and the number parsers ignore their arguments.\<close>

definition abort :: "'a outcome" where "abort = Diverges"

definition strtol :: "u32 \<Rightarrow> u32 \<Rightarrow> u32 \<Rightarrow> u32" where "strtol nptr endptr b = 0"
definition strtoll :: "u32 \<Rightarrow> u32 \<Rightarrow> u32 \<Rightarrow> u64" where "strtoll nptr endptr b = 0"
definition strtoul :: "u32 \<Rightarrow> u32 \<Rightarrow> u32 \<Rightarrow> u32" where "strtoul nptr endptr b = 0"
definition strtoull :: "u32 \<Rightarrow> u32 \<Rightarrow> u32 \<Rightarrow> u64" where "strtoull nptr endptr b = 0"

subsection \<open>Properties\<close>

text \<open>\<^verbatim>\<open>memcpy\<close> returns the destination and copies exactly the \<open>count\<close> source bytes, and
  nothing else changes, whenever the destination does not start inside the source block.\<close>

theorem memcpy_copies_block:
  assumes "dest = src \<or> unat count \<le> unat (dest - src)"
  shows "memcpy dest src count m = (dest, block_copied m dest src (unat count))"
  using assms by (simp add: memcpy_def memcpy_loop_block)

theorem memcpy_copies_block_witness:
  "memcpy 0x2000 0x1000 4 (\<lambda>a. if a = 0x1003 then 7 else 0) =
     (0x2000, block_copied (\<lambda>a. if a = 0x1003 then 7 else 0) 0x2000 0x1000 (unat (4 :: u32)))"
  by (rule memcpy_copies_block) simp

text \<open>\<^verbatim>\<open>memmove\<close> is not safe for overlapping blocks: moving a block up by one byte overwrites
  the whole destination with the block's first byte.\<close>

theorem memmove_overlap_smears:
  assumes "count < 0xFFFFFFFF"
  shows "snd (memmove (src + 1) src count m) =
     (\<lambda>a. if unat (a - src) < Suc (unat count) then m src else m a)"
proof -
  have "unat count < unat (0xFFFFFFFF :: u32)"
    using assms by (simp only: word_less_nat_alt)
  then show ?thesis by (simp add: memmove_def memcpy_def memcpy_loop_smear)
qed

theorem memmove_overlap_smears_witness:
  "snd (memmove (0x1000 + 1) 0x1000 2 (\<lambda>a. if a = 0x1000 then 1 else 2)) =
     (\<lambda>a. if unat (a - 0x1000) < Suc (unat (2 :: u32)) then 1 else 2)"
  by (subst memmove_overlap_smears) (auto simp: fun_eq_iff)

text \<open>\<^verbatim>\<open>strncmp\<close> compares the first byte only: on a positive count it reports equality exactly
  when the two strings start with the same byte and that byte is not NUL, and two empty strings
  compare as different (\<open>-1\<close>).\<close>

theorem strncmp_first_byte_only:
  "strncmp m s1 s2 count =
     (if count = 0 then 0
      else if m s1 \<noteq> m s2 then c_char (m s1) - c_char (m s2)
      else if m s1 = 0 then - 1 else 0)"
  by (simp add: strncmp_def strncmp_loop_eq unat_eq_0)

text \<open>\<^verbatim>\<open>strcmp\<close> returns only when the first bytes differ or are both NUL; on two strings that start
  with the same character it never returns, because it does not advance its pointers.\<close>

theorem strcmp_decides_on_first_byte:
  "strcmp m s1 s2 =
     (if m s1 = m s2 \<and> m s1 \<noteq> 0 then None else Some (c_char (m s1) - c_char (m s2)))"
  using strcmp_returns strcmp_stuck by auto

text \<open>\<^verbatim>\<open>strlen\<close> of a stored NUL-terminated string returns, and returns its length.\<close>

theorem strlen_of_cstring:
  "cstring_at m s cs \<Longrightarrow> strlen m s = Some (word_of_nat (length cs))"
  by (simp add: strlen_def strlen_loop_cstring)

theorem strlen_of_cstring_witness:
  "strlen (\<lambda>a. if a = 0x10 then 0x41 else if a = 0x11 then 0x42 else 0) 0x10 =
     Some (word_of_nat (length [0x41, 0x42 :: u8]))"
  by (rule strlen_of_cstring) simp

end
