(* ===== verification/Format.thy ===== *)
theory Format
  imports Klibc
begin

text \<open>
  Models \<^verbatim>\<open>src/format.cpp\<close> and the argument macros of \<^verbatim>\<open>src/format.h\<close>. The output callback
  (\<^verbatim>\<open>output_func_t\<close> with its \<^verbatim>\<open>ptr\<close>) is a parameter \<open>out\<close> that threads a state, so the same
  definitions serve the console and the debug port. Characters are HOL's 8-bit \<open>char\<close>; a format string
  is the list of its characters before the NUL. The variable arguments are the 32-bit stack
  words \<^verbatim>\<open>va_arg\<close> steps through; reading past them, or past the NUL of the format, is an
  \<open>OutOfBounds\<close> fault.

  The lemmas show that the output is the same sequence of characters for every callback, that
  decimal output is the positional numeral of the number, and that hexadecimal output is the
  fixed-width numeral of its low digits.
\<close>

type_synonym 's output_func = "char \<Rightarrow> 's \<Rightarrow> 's outcome"

subsection \<open>Strings and numbers\<close>

definition char_at :: "memory \<Rightarrow> u32 \<Rightarrow> char" where
  "char_at m a = char_of (unat (m a))"

partial_function (option) format_chars_loop ::
    "'s output_func \<Rightarrow> memory \<Rightarrow> u32 \<Rightarrow> 's \<Rightarrow> 's outcome option" where
  "format_chars_loop out m str s =
     (if m str \<noteq> 0
      then (case out (char_at m str) s of
              Done s' \<Rightarrow> format_chars_loop out m (str + 1) s'
            | Fault e \<Rightarrow> Some (Fault e)
            | Diverges \<Rightarrow> None)
      else Some (Done s))"

definition format_chars :: "'s output_func \<Rightarrow> memory \<Rightarrow> u32 \<Rightarrow> 's \<Rightarrow> 's outcome" where
  "format_chars out m str s = outcome_of_loop (format_chars_loop out m str s)"

definition digit_chars :: "char list" where
  "digit_chars = ''0123456789''"

definition digit_chars_lower :: "char list" where
  "digit_chars_lower = ''0123456789abcdef''"

definition digit_chars_upper :: "char list" where
  "digit_chars_upper = ''0123456789ABCDEF''"

lemma div10_decreases: "(n :: u32) div 10 \<noteq> 0 \<Longrightarrow> unat (n div 10) < unat n"
proof -
  assume "n div 10 \<noteq> 0"
  then have "unat n div 10 \<noteq> 0" by (simp add: unat_div flip: unat_0_iff)
  then show ?thesis by (simp add: unat_div)
qed

text \<open>\<^verbatim>\<open>int remainder = number / 10\<close> is compared as a signed value.\<close>

function format_number :: "'s output_func \<Rightarrow> u32 \<Rightarrow> 's \<Rightarrow> 's outcome" where
  "format_number out number s =
     outcome_bind
       (if 0 < sint (number div 10) then format_number out (number div 10) s else Done s)
       (out (digit_chars ! unat (number mod 10)))"
  by pat_completeness auto
termination
proof (relation "measure (\<lambda>(out, number, s). unat number)")
  fix out :: "'s output_func" and number :: u32 and s :: 's
  assume "0 < sint (number div 10)"
  then have "number div 10 \<noteq> 0" by auto
  then show "((out, number div 10, s), out, number, s) \<in> measure (\<lambda>(out, number, s). unat number)"
    by (simp add: div10_decreases)
qed simp

declare format_number.simps [simp del]

text \<open>
  The hexadecimal loop over the bit position \<^verbatim>\<open>shift\<close>, which drops by 4 per digit. Shifting a value
  by its width or more is undefined. The 64-bit variant writes a separator after the digit
  at bit 32.
\<close>

fun format_number_hex_loop :: "'s output_func \<Rightarrow> char list \<Rightarrow> u32 \<Rightarrow> nat \<Rightarrow> 's \<Rightarrow> 's outcome" where
  "format_number_hex_loop out digs number k s =
     (case k of 0 \<Rightarrow> Done s
      | Suc j \<Rightarrow>
        (if 32 \<le> 4 * j then Fault UndefinedBehaviour
         else outcome_bind (out (digs ! unat (drop_bit (4 * j) number AND 0xF)) s)
                (format_number_hex_loop out digs number j)))"

definition format_number_hex :: "'s output_func \<Rightarrow> u32 \<Rightarrow> nat \<Rightarrow> bool \<Rightarrow> 's \<Rightarrow> 's outcome" where
  "format_number_hex out number width upper s =
     format_number_hex_loop out (if upper then digit_chars_upper else digit_chars_lower) number
       (if width > 0 then width else 8) s"

fun format_number_hex64_loop :: "'s output_func \<Rightarrow> char list \<Rightarrow> u64 \<Rightarrow> nat \<Rightarrow> 's \<Rightarrow> 's outcome" where
  "format_number_hex64_loop out digs number k s =
     (case k of 0 \<Rightarrow> Done s
      | Suc j \<Rightarrow>
        (if 64 \<le> 4 * j then Fault UndefinedBehaviour
         else outcome_bind (out (digs ! unat (drop_bit (4 * j) number AND 0xF)) s)
                (\<lambda>s'. outcome_bind (if 4 * j = 32 then out (CHR 0x60) s' else Done s')
                   (format_number_hex64_loop out digs number j))))"

definition format_number_hex64 :: "'s output_func \<Rightarrow> u64 \<Rightarrow> nat \<Rightarrow> bool \<Rightarrow> 's \<Rightarrow> 's outcome" where
  "format_number_hex64 out number width upper s =
     format_number_hex64_loop out (if upper then digit_chars_upper else digit_chars_lower) number
       (if width > 0 then width else 16) s"

declare format_number_hex_loop.simps [simp del] format_number_hex64_loop.simps [simp del]

subsection \<open>Format directives\<close>

definition char_code :: "char \<Rightarrow> int" where
  "char_code ch = sint (of_char ch :: u8)"

definition isdigit :: "char \<Rightarrow> bool" where
  "isdigit ch \<longleftrightarrow> char_code CHR ''0'' \<le> char_code ch \<and> char_code ch \<le> char_code CHR ''9''"

definition isupper :: "char \<Rightarrow> bool" where
  "isupper ch \<longleftrightarrow> char_code CHR ''A'' \<le> char_code ch \<and> char_code ch \<le> char_code CHR ''Z''"

text \<open>
  The optional parts after a percent sign: one \<open>0\<close> (skipped, its flag is never used), one width
  digit, one \<open>l\<close>. The rest starts at the conversion character.
\<close>

definition skip_zero :: "char list \<Rightarrow> char list" where
  "skip_zero fmt = (case fmt of [] \<Rightarrow> [] | c # r \<Rightarrow> if c = CHR ''0'' then r else fmt)"

definition parse_width :: "char list \<Rightarrow> nat \<times> char list" where
  "parse_width fmt = (case fmt of [] \<Rightarrow> (0, [])
     | c # r \<Rightarrow> if isdigit c then (nat (char_code c - char_code CHR ''0''), r) else (0, fmt))"

definition parse_long :: "char list \<Rightarrow> bool \<times> char list" where
  "parse_long fmt = (case fmt of [] \<Rightarrow> (False, []) | c # r \<Rightarrow> if c = CHR ''l'' then (True, r) else (False, fmt))"

definition parse_spec :: "char list \<Rightarrow> nat \<times> bool \<times> char list" where
  "parse_spec fmt =
     (let (width, fmt1) = parse_width (skip_zero fmt); (long_mode, fmt2) = parse_long fmt1
      in (width, long_mode, fmt2))"

lemma parse_spec_length: "length (snd (snd (parse_spec fmt))) \<le> length fmt"
  by (auto simp: parse_spec_def parse_width_def parse_long_def skip_zero_def split: list.splits prod.splits if_splits)

text \<open>\<^verbatim>\<open>va_arg\<close>: one stack word per \<^verbatim>\<open>int\<close>, pointer or \<^verbatim>\<open>char\<close>, two for an \<^verbatim>\<open>unsigned long long\<close>.\<close>

definition va_arg_u32 :: "u32 list \<Rightarrow> (u32 \<times> u32 list) outcome" where
  "va_arg_u32 ap = (case ap of [] \<Rightarrow> Fault OutOfBounds | w # ap' \<Rightarrow> Done (w, ap'))"

definition va_arg_u64 :: "u32 list \<Rightarrow> (u64 \<times> u32 list) outcome" where
  "va_arg_u64 ap = outcome_bind (va_arg_u32 ap) (\<lambda>(lo, ap1). outcome_bind (va_arg_u32 ap1)
     (\<lambda>(hi, ap2). Done (push_bit 32 (ucast hi) OR ucast lo, ap2)))"

definition keep_args :: "u32 list \<Rightarrow> 's outcome \<Rightarrow> ('s \<times> u32 list) outcome" where
  "keep_args ap r = outcome_bind r (\<lambda>s. Done (s, ap))"

definition format_directive ::
    "'s output_func \<Rightarrow> memory \<Rightarrow> nat \<Rightarrow> bool \<Rightarrow> char \<Rightarrow> u32 list \<Rightarrow> 's \<Rightarrow> ('s \<times> u32 list) outcome" where
  "format_directive out m width long_mode ch ap s =
     (if ch = CHR ''d'' then
        outcome_bind (va_arg_u32 ap) (\<lambda>(n, ap'). keep_args ap' (format_number out n s))
      else if ch = CHR ''s'' then
        outcome_bind (va_arg_u32 ap) (\<lambda>(p, ap'). keep_args ap' (format_chars out m p s))
      else if ch = CHR ''X'' \<or> ch = CHR ''x'' \<or> ch = CHR ''p'' \<or> ch = CHR ''P'' then
        (if long_mode then
           outcome_bind (va_arg_u64 ap) (\<lambda>(n, ap'). keep_args ap' (format_number_hex64 out n width (isupper ch) s))
         else
           outcome_bind (va_arg_u32 ap) (\<lambda>(n, ap'). keep_args ap' (format_number_hex out n width (isupper ch) s)))
      else if ch = CHR ''c'' then
        outcome_bind (va_arg_u32 ap) (\<lambda>(n, ap'). keep_args ap' (out (char_of (unat n)) s))
      else keep_args ap (outcome_bind (out (CHR 0x25) s) (out ch)))"

text \<open>
  The main loop. When the format ends inside a directive, the conversion character is the NUL: the
  default branch writes it and steps past the end of the string.
\<close>

function format_string_varg :: "'s output_func \<Rightarrow> memory \<Rightarrow> char list \<Rightarrow> u32 list \<Rightarrow> 's \<Rightarrow> 's outcome" where
  "format_string_varg out m fmt ap s =
     (case fmt of [] \<Rightarrow> Done s
      | c # fmt' \<Rightarrow>
        (if c = CHR 0x25 then
           (let (width, long_mode, fmt1) = parse_spec fmt' in
            case fmt1 of
              [] \<Rightarrow> outcome_bind (format_directive out m width long_mode (CHR 0x00) ap s) (\<lambda>_. Fault OutOfBounds)
            | ch # fmt2 \<Rightarrow> outcome_bind (format_directive out m width long_mode ch ap s)
                              (\<lambda>(s', ap'). format_string_varg out m fmt2 ap' s'))
         else outcome_bind (out c s) (format_string_varg out m fmt' ap)))"
  by pat_completeness auto
termination
proof (relation "measure (\<lambda>(out, m, fmt, ap, s). length fmt)", goal_cases)
  case (2 out m fmt ap s c fmt' r width q long_mode fmt1 ch fmt2)
  have "snd (snd (parse_spec fmt')) = fmt1" using 2 by (metis snd_conv)
  with 2 parse_spec_length [of fmt'] show ?case by auto
qed auto

declare format_string_varg.simps [simp del]

definition format_string :: "'s output_func \<Rightarrow> memory \<Rightarrow> char list \<Rightarrow> u32 list \<Rightarrow> 's \<Rightarrow> 's outcome" where
  "format_string out m fmt args s = format_string_varg out m fmt args s"

subsection \<open>Sequences of output calls\<close>

fun out_all :: "'s output_func \<Rightarrow> char list \<Rightarrow> 's \<Rightarrow> 's outcome" where
  "out_all out [] s = Done s"
| "out_all out (c # cs) s = outcome_bind (out c s) (out_all out cs)"

lemma outcome_bind_Done_right [simp]: "outcome_bind r Done = r"
  by (cases r) auto

lemma out_all_Nil [simp]: "out_all out [] = Done"
  by (simp add: fun_eq_iff)

lemma out_all_single [simp]: "out_all out [c] = out c"
  by (simp add: fun_eq_iff)

lemma out_all_Cons: "out_all out (c # cs) = (\<lambda>s. outcome_bind (out c s) (out_all out cs))"
  by (simp add: fun_eq_iff)

lemma out_all_append: "out_all out (cs @ ds) s = outcome_bind (out_all out cs s) (out_all out ds)"
proof (induction cs arbitrary: s)
  case (Cons c cs)
  show ?case by (cases "out c s") (simp_all add: Cons.IH)
qed simp

text \<open>The callback that only collects the characters.\<close>

definition collect :: "char list output_func" where
  "collect c acc = Done (acc @ [c])"

lemma collect_apply: "collect c acc = Done (acc @ [c])"
  by (simp add: collect_def)

lemma out_all_collect [simp]: "out_all collect cs acc = Done (acc @ cs)"
  by (induction cs arbitrary: acc) (simp_all add: collect_def)

subsection \<open>Decimal numbers\<close>

function dec_digits :: "nat \<Rightarrow> char list" where
  "dec_digits n = (if n div 10 = 0 then [] else dec_digits (n div 10)) @ [digit_chars ! (n mod 10)]"
  by pat_completeness auto
termination by (relation "measure id") auto

declare dec_digits.simps [simp del]

lemma sint_div10: "0 < sint ((n :: u32) div 10) \<longleftrightarrow> unat n div 10 \<noteq> 0"
proof -
  have "unat (n div 10) < 2147483648"
    using unat_u32_less [of n] by (simp add: unat_div del: unat_u32_less)
  then show ?thesis by (simp add: sint_u32_small unat_div)
qed

lemma format_number_digits: "format_number out n s = out_all out (dec_digits (unat n)) s"
proof (induction out n s rule: format_number.induct)
  case (1 out n s)
  have m: "unat (n mod 10) = unat n mod 10" by (simp add: unat_mod)
  show ?case
  proof (cases "unat n div 10 = 0")
    case True
    then have "\<not> 0 < sint (n div 10)" using sint_div10 by blast
    with True show ?thesis
      by (simp add: format_number.simps [of out n] dec_digits.simps [of "unat n"] m)
  next
    case False
    then have "0 < sint (n div 10)" using sint_div10 by blast
    with False "1.IH" show ?thesis
      by (simp add: format_number.simps [of out n] dec_digits.simps [of "unat n"] m
        out_all_append unat_div)
  qed
qed

text \<open>The value of a decimal numeral, and its shape: only digits, no leading zero.\<close>

definition digit_value :: "char \<Rightarrow> nat" where
  "digit_value c =
     (if 48 \<le> (of_char c :: nat) \<and> (of_char c :: nat) \<le> 57 then of_char c - 48
      else if 97 \<le> (of_char c :: nat) then of_char c - 87 else of_char c - 55)"

definition numeral_value :: "nat \<Rightarrow> char list \<Rightarrow> nat" where
  "numeral_value b cs = foldl (\<lambda>v c. b * v + digit_value c) 0 cs"

lemma less_10_cases: "(k :: nat) < 10 \<longleftrightarrow> k \<in> {0, 1, 2, 3, 4, 5, 6, 7, 8, 9}"
  by auto

lemma less_16_cases: "(k :: nat) < 16 \<longleftrightarrow> k \<in> {0, 1, 2, 3, 4, 5, 6, 7, 8, 9, 10, 11, 12, 13, 14, 15}"
  by (simp only: insert_iff empty_iff) arith

lemma digit_value_digit_chars: "k < 10 \<Longrightarrow> digit_value (digit_chars ! k) = k"
  by (auto simp: less_10_cases digit_chars_def digit_value_def of_char_Char)

lemma digit_value_hex:
  "k < 16 \<Longrightarrow> digit_value (digit_chars_lower ! k) = k"
  "k < 16 \<Longrightarrow> digit_value (digit_chars_upper ! k) = k"
  by (auto simp: less_16_cases digit_chars_lower_def digit_chars_upper_def digit_value_def of_char_Char)

lemma numeral_value_append:
  "numeral_value b (cs @ [c]) = b * numeral_value b cs + digit_value c"
  by (simp add: numeral_value_def)

lemma dec_digits_value: "numeral_value 10 (dec_digits n) = n"
proof (induction n rule: dec_digits.induct)
  case (1 n)
  have d: "digit_value (digit_chars ! (n mod 10)) = n mod 10"
    by (rule digit_value_digit_chars) simp
  show ?case
  proof (cases "n div 10 = 0")
    case True
    then show ?thesis using d by (simp add: dec_digits.simps [of n] numeral_value_def)
  next
    case False
    then show ?thesis using d "1.IH"
      by (simp add: dec_digits.simps [of n] numeral_value_append)
  qed
qed

lemma dec_digits_nonempty: "dec_digits n \<noteq> []"
  by (subst dec_digits.simps) simp

lemma dec_digits_hd: "0 < n \<Longrightarrow> hd (dec_digits n) \<noteq> CHR ''0''"
proof (induction n rule: dec_digits.induct)
  case (1 n)
  show ?case
  proof (cases "n div 10 = 0")
    case True
    then have "n < 10" by auto
    with True "1.prems" show ?thesis
      by (auto simp: dec_digits.simps [of n] less_10_cases digit_chars_def)
  next
    case False
    with "1.IH" show ?thesis
      by (simp add: dec_digits.simps [of n] dec_digits_nonempty)
  qed
qed

lemma dec_digits_set: "set (dec_digits n) \<subseteq> set digit_chars"
proof (induction n rule: dec_digits.induct)
  case (1 n)
  have "digit_chars ! (n mod 10) \<in> set digit_chars"
    by (rule nth_mem) (simp add: digit_chars_def)
  with 1 show ?case by (auto simp: dec_digits.simps [of n])
qed

subsection \<open>Hexadecimal numbers\<close>

definition hex_digits :: "char list \<Rightarrow> 'a::len word \<Rightarrow> nat \<Rightarrow> char list" where
  "hex_digits digs n k = map (\<lambda>j. digs ! unat (drop_bit (4 * j) n AND 0xF)) (rev [0..<k])"

lemma hex_digits_Suc:
  "hex_digits digs n (Suc k) = digs ! unat (drop_bit (4 * k) n AND 0xF) # hex_digits digs n k"
  by (simp add: hex_digits_def)

lemma format_number_hex_loop_digits:
  "k \<le> 8 \<Longrightarrow> format_number_hex_loop out digs n k s = out_all out (hex_digits digs n k) s"
proof (induction k arbitrary: s)
  case 0
  show ?case by (simp add: format_number_hex_loop.simps hex_digits_def)
next
  case (Suc k)
  then have "format_number_hex_loop out digs n k = out_all out (hex_digits digs n k)"
    by (simp add: fun_eq_iff)
  with Suc.prems show ?case
    by (simp add: format_number_hex_loop.simps [of out digs n "Suc k"] hex_digits_Suc)
qed

lemma length_hex_digits [simp]: "length (hex_digits digs n k) = k"
  by (simp add: hex_digits_def)

lemma nibble_value: "unat (drop_bit (4 * j) (n :: u32) AND 0xF) = unat n div 16 ^ j mod 16"
proof -
  have "drop_bit (4 * j) n AND 0xF = take_bit 4 (drop_bit (4 * j) n)"
    by (simp add: take_bit_eq_mask mask_eq_exp_minus_1)
  then have "unat (drop_bit (4 * j) n AND 0xF) = take_bit 4 (drop_bit (4 * j) (unat n))"
    by (simp add: unsigned_take_bit_eq unat_drop_bit_eq)
  also have "\<dots> = unat n div 16 ^ j mod 16"
    by (simp add: take_bit_eq_mod drop_bit_eq_div power_mult)
  finally show ?thesis .
qed

text \<open>
  A table that maps \<open>k < 16\<close> to the digit of value \<open>k\<close> prints the low \<open>k\<close> hexadecimal places.
\<close>

lemma hex_digits_value:
  assumes "\<And>j. j < 16 \<Longrightarrow> digit_value (digs ! j) = j"
  shows "numeral_value 16 (hex_digits digs (n :: u32) k) = unat n mod 16 ^ k"
proof -
  have gen: "foldl (\<lambda>v c. 16 * v + digit_value c) a (hex_digits digs n k) = a * 16 ^ k + unat n mod 16 ^ k" for a
  proof (induction k arbitrary: a)
    case 0
    show ?case by (simp add: hex_digits_def)
  next
    case (Suc k)
    have d: "digit_value (digs ! unat (drop_bit (4 * k) n AND 0xF)) = unat n div 16 ^ k mod 16"
      by (subst assms) (simp_all add: nibble_value)
    have m: "unat n mod 16 ^ Suc k = 16 ^ k * (unat n div 16 ^ k mod 16) + unat n mod 16 ^ k"
      by (simp add: mod_mult2_eq mult.commute [of 16])
    show ?case
      unfolding hex_digits_Suc m by (simp only: foldl_Cons Suc.IH d) (simp add: algebra_simps)
  qed
  show ?thesis unfolding numeral_value_def by (simp add: gen)
qed

lemma format_number_hex_digits:
  "format_number_hex out n width upper s =
     (if width \<le> 8
      then out_all out (hex_digits (if upper then digit_chars_upper else digit_chars_lower) n
             (if width > 0 then width else 8)) s
      else Fault UndefinedBehaviour)"
proof (cases "width \<le> 8")
  case True
  then show ?thesis by (simp add: format_number_hex_def format_number_hex_loop_digits)
next
  case False
  then obtain j where "width = Suc j" "8 \<le> j" by (cases width) auto
  then show ?thesis by (simp add: format_number_hex_def format_number_hex_loop.simps)
qed

text \<open>The 64-bit numeral: sixteen places with a back quote between the two halves.\<close>

fun hex64_chars :: "char list \<Rightarrow> u64 \<Rightarrow> nat \<Rightarrow> char list" where
  "hex64_chars digs n 0 = []"
| "hex64_chars digs n (Suc j) =
     digs ! unat (drop_bit (4 * j) n AND 0xF) # (if j = 8 then [CHR 0x60] else []) @ hex64_chars digs n j"

lemma format_number_hex64_loop_chars:
  "k \<le> 16 \<Longrightarrow> format_number_hex64_loop out digs n k s = out_all out (hex64_chars digs n k) s"
proof (induction k arbitrary: s)
  case 0
  show ?case by (simp add: format_number_hex64_loop.simps)
next
  case (Suc k)
  then have "format_number_hex64_loop out digs n k = out_all out (hex64_chars digs n k)"
    by (simp add: fun_eq_iff)
  with Suc.prems show ?case
    by (simp add: format_number_hex64_loop.simps [of out digs n "Suc k"] out_all_Cons)
qed

lemma format_number_hex64_chars:
  "format_number_hex64 out n width upper s =
     (if width \<le> 16
      then out_all out (hex64_chars (if upper then digit_chars_upper else digit_chars_lower) n
             (if width > 0 then width else 16)) s
      else Fault UndefinedBehaviour)"
proof (cases "width \<le> 16")
  case True
  then show ?thesis by (simp add: format_number_hex64_def format_number_hex64_loop_chars)
next
  case False
  then obtain j where "width = Suc j" "16 \<le> j" by (cases width) auto
  then show ?thesis by (simp add: format_number_hex64_def format_number_hex64_loop.simps)
qed

subsection \<open>The output does not depend on the callback\<close>

lemma format_chars_unfold:
  "format_chars out m str s =
     (if m str \<noteq> 0 then outcome_bind (out (char_at m str) s) (format_chars out m (str + 1)) else Done s)"
  unfolding format_chars_def
  by (subst format_chars_loop.simps) (auto split: outcome.split)

text \<open>
  Whenever a routine returns through one callback \<open>snk\<close>, there is one character sequence that it sends
  through \<open>snk\<close> and that it sends through every other callback as well.
\<close>

lemma format_chars_emits:
  fixes snk :: "'t output_func" and out :: "'s output_func"
  assumes "format_chars snk m str acc = Done acc'"
  shows "\<exists>cs. out_all snk cs acc = Done acc' \<and> (\<forall>s. format_chars out m str s = out_all out cs s)"
proof -
  let ?E = "\<lambda>m str acc acc'. \<exists>cs. out_all snk cs acc = Done acc' \<and>
    (\<forall>s. format_chars out m str s = out_all out cs s)"
  let ?P = "\<lambda>o' m str acc r. o' = snk \<longrightarrow> (\<forall>acc'. r = Done acc' \<longrightarrow> ?E m str acc acc')"
  from assms have ret: "format_chars_loop snk m str acc = Some (Done acc')"
    by (cases "format_chars_loop snk m str acc") (auto simp: format_chars_def)
  have "?P snk m str acc (Done acc')"
  proof (rule format_chars_loop.raw_induct [where P = ?P, OF _ ret], intro impI allI)
    fix f :: "'t output_func \<Rightarrow> memory \<Rightarrow> u32 \<Rightarrow> 't \<Rightarrow> 't outcome option"
      and o' m str acc r acc'
    assume IH: "\<And>o' m str acc r. f o' m str acc = Some r \<Longrightarrow> ?P o' m str acc r"
      and eq: "(if m str \<noteq> 0 then case o' (char_at m str) acc of Done s' \<Rightarrow> f o' m (str + 1) s'
                  | Fault e \<Rightarrow> Some (Fault e) | Diverges \<Rightarrow> None else Some (Done acc)) = Some r"
      and o: "o' = snk" and r: "r = Done acc'"
    show "?E m str acc acc'"
    proof (cases "m str = 0")
      case True
      with eq r have "acc' = acc" by simp
      with True show ?thesis by (intro exI [of _ "[]"]) (simp add: format_chars_unfold [of out m str])
    next
      case False
      with eq o r obtain acc1 where step: "snk (char_at m str) acc = Done acc1"
        and "f snk m (str + 1) acc1 = Some (Done acc')"
        by (auto split: outcome.splits)
      from IH [OF this(2)] obtain cs where cs: "out_all snk cs acc1 = Done acc'"
        "\<And>s. format_chars out m (str + 1) s = out_all out cs s" by blast
      have "format_chars out m (str + 1) = out_all out cs" using cs(2) by (simp add: fun_eq_iff)
      then have "\<forall>s. format_chars out m str s = out_all out (char_at m str # cs) s"
        using False by (simp add: format_chars_unfold [of out m str])
      with step cs(1) show ?thesis by (intro exI [of _ "char_at m str # cs"]) simp
    qed
  qed
  then show ?thesis by simp
qed

lemma keep_args_Done [simp]: "keep_args ap r = Done (s, ap') \<longleftrightarrow> r = Done s \<and> ap' = ap"
  by (auto simp: keep_args_def)

lemma format_directive_emits:
  fixes snk :: "'t output_func" and out :: "'s output_func"
  assumes "format_directive snk m width long_mode ch ap acc = Done (acc', ap')"
  shows "\<exists>cs. out_all snk cs acc = Done acc' \<and>
    (\<forall>s. format_directive out m width long_mode ch ap s = keep_args ap' (out_all out cs s))"
proof -
  have chars: ?thesis
    if "ch = CHR ''s''"
    using assms that format_chars_emits [where snk = snk and out = out]
    by (fastforce simp: format_directive_def va_arg_u32_def split: list.splits prod.splits)
  have other: ?thesis if "ch \<noteq> CHR ''s''"
  proof -
    consider (d) "ch = CHR ''d''"
      | (x) "ch = CHR ''X'' \<or> ch = CHR ''x'' \<or> ch = CHR ''p'' \<or> ch = CHR ''P''"
      | (c) "ch = CHR ''c''"
      | (o) "ch \<noteq> CHR ''d''" "ch \<noteq> CHR ''X''" "ch \<noteq> CHR ''x''" "ch \<noteq> CHR ''p''" "ch \<noteq> CHR ''P''" "ch \<noteq> CHR ''c''"
      by blast
    then show ?thesis
    proof cases
      case d
      with assms show ?thesis
        by (auto simp: format_directive_def va_arg_u32_def format_number_digits split: list.splits)
    next
      case x
      then have "ch \<noteq> CHR ''d''" "ch \<noteq> CHR ''s''" by auto
      with x assms show ?thesis
        by (auto simp: format_directive_def va_arg_u32_def va_arg_u64_def format_number_hex_digits
            format_number_hex64_chars split: list.splits if_splits)
    next
      case c
      with assms show ?thesis
        by (auto simp: format_directive_def va_arg_u32_def
            intro: exI [of _ "[char_of (unat (hd ap))]"] split: list.splits)
    next
      case o
      with assms that show ?thesis
        by (auto simp: format_directive_def intro: exI [of _ "[CHR 0x25, ch]"])
    qed
  qed
  from chars other show ?thesis by blast
qed

lemma format_string_varg_emits:
  fixes snk :: "'t output_func" and out :: "'s output_func"
  assumes "format_string_varg snk m fmt ap acc = Done acc'"
  shows "\<exists>cs. out_all snk cs acc = Done acc' \<and> (\<forall>s. format_string_varg out m fmt ap s = out_all out cs s)"
  using assms
proof (induction fmt arbitrary: ap acc rule: length_induct)
  case (1 fmt)
  show ?case
  proof (cases fmt)
    case Nil
    with "1.prems" show ?thesis
      by (intro exI [of _ "[]"]) (simp add: format_string_varg.simps [of _ _ "[]"])
  next
    case (Cons c fmt')
    show ?thesis
    proof (cases "c = CHR 0x25")
      case False
      note run = format_string_varg.simps [of _ m "c # fmt'" ap]
      from "1.prems" Cons False obtain acc1 where step: "snk c acc = Done acc1"
        and rest: "format_string_varg snk m fmt' ap acc1 = Done acc'"
        by (auto simp: run)
      have "length fmt' < length fmt" using Cons by simp
      with "1.IH" rest obtain cs where cs: "out_all snk cs acc1 = Done acc'"
        "\<And>s. format_string_varg out m fmt' ap s = out_all out cs s" by blast
      then have "format_string_varg out m fmt' ap = out_all out cs"
        by (simp add: fun_eq_iff)
      with cs(1) step show ?thesis
        using Cons False by (intro exI [of _ "c # cs"]) (simp add: run)
    next
      case True
      note run = format_string_varg.simps [of _ m "CHR 0x25 # fmt'" ap]
      obtain width long_mode fmt1 where spec: "parse_spec fmt' = (width, long_mode, fmt1)"
        by (cases "parse_spec fmt'") auto
      from "1.prems" Cons True spec obtain ch fmt2 where fmt1: "fmt1 = ch # fmt2"
        by (cases fmt1) (auto simp: run)
      from "1.prems" Cons True spec fmt1 obtain acc1 ap1
        where dir: "format_directive snk m width long_mode ch ap acc = Done (acc1, ap1)"
          and rest: "format_string_varg snk m fmt2 ap1 acc1 = Done acc'"
        by (auto simp: run)
      from format_directive_emits [OF dir, where out = out] obtain cs1 where
        cs1: "out_all snk cs1 acc = Done acc1"
        "\<And>s. format_directive out m width long_mode ch ap s = keep_args ap1 (out_all out cs1 s)"
        by blast
      have "length fmt2 < length fmt"
        using parse_spec_length [of fmt'] spec fmt1 Cons by simp
      with "1.IH" rest obtain cs2 where cs2: "out_all snk cs2 acc1 = Done acc'"
        "\<And>s. format_string_varg out m fmt2 ap1 s = out_all out cs2 s"
        by blast
      have "format_string_varg out m fmt ap s = out_all out (cs1 @ cs2) s" for s
        using Cons True spec fmt1 cs1(2) cs2(2)
        by (simp add: run out_all_append keep_args_def) (cases "out_all out cs1 s"; simp)
      with cs1(1) cs2(1) show ?thesis
        by (intro exI [of _ "cs1 @ cs2"]) (simp add: out_all_append)
    qed
  qed
qed

subsection \<open>Callback contracts\<close>

text \<open>A callback that appends each character to a log, whenever it returns.\<close>

locale char_sink =
  fixes out :: "'s output_func"
    and log :: "'s \<Rightarrow> char list"
  assumes out_logs: "out c s = Done s' \<Longrightarrow> log s' = log s @ [c]"
begin

lemma out_all_logs: "out_all out cs s = Done s' \<Longrightarrow> log s' = log s @ cs"
  by (induction cs arbitrary: s) (auto dest: out_logs)

lemma format_logs:
  assumes "format_string_varg collect m fmt ap [] = Done cs"
    and "format_string_varg out m fmt ap s = Done s'"
  shows "log s' = log s @ cs"
proof -
  from format_string_varg_emits [OF assms(1), where out = out]
  have "format_string_varg out m fmt ap s = out_all out cs s" by auto
  with assms(2) show ?thesis by (simp add: out_all_logs)
qed

end

text \<open>A callback that keeps an invariant, whenever it returns.\<close>

locale invariant_sink =
  fixes out :: "'s output_func"
    and inv :: "'s \<Rightarrow> bool"
  assumes out_inv: "inv s \<Longrightarrow> out c s = Done s' \<Longrightarrow> inv s'"
begin

lemma out_all_inv: "inv s \<Longrightarrow> out_all out cs s = Done s' \<Longrightarrow> inv s'"
  by (induction cs arbitrary: s) (auto dest: out_inv)

lemma format_inv:
  assumes "inv s" and "format_string_varg out m fmt ap s = Done s'"
  shows "inv s'"
  using format_string_varg_emits [OF assms(2), where out = out] assms(1)
  by (auto intro: out_all_inv)

end

subsection \<open>Properties\<close>

text \<open>\<^verbatim>\<open>format_number\<close> prints the decimal numeral of every 32-bit number: through any callback it
  outputs one fixed character sequence, of decimal digits only, whose positional value is
  the number, with a leading zero exactly for 0.\<close>

theorem format_number_prints_decimal:
  "\<exists>cs. (\<forall>s. format_number out n s = out_all out cs s) \<and> numeral_value 10 cs = unat n \<and>
     cs \<noteq> [] \<and> set cs \<subseteq> set digit_chars \<and> (hd cs = CHR ''0'' \<longleftrightarrow> n = 0)"
proof -
  have "hd (dec_digits (unat n)) = CHR ''0'' \<longleftrightarrow> n = 0"
  proof (cases "n = 0")
    case True
    then show ?thesis by (simp add: dec_digits.simps [of 0] digit_chars_def)
  next
    case False
    then have "0 < unat n" by (simp add: unat_gt_0)
    then show ?thesis using False dec_digits_hd by blast
  qed
  then show ?thesis
    using dec_digits_value dec_digits_nonempty dec_digits_set
    by (intro exI [of _ "dec_digits (unat n)"]) (simp add: format_number_digits)
qed

text \<open>\<^verbatim>\<open>%x\<close> with a width of at most 8 outputs exactly that many hexadecimal digits (8 without a
  width), whose value is the number modulo that power of 16; width 9, the only larger width a
  format can hold, shifts a 32-bit value by 32, which is undefined.\<close>

theorem format_number_hex_fixed_width:
  "\<exists>cs. (\<forall>s. format_number_hex out n width upper s =
            (if width \<le> 8 then out_all out cs s else Fault UndefinedBehaviour)) \<and>
     length cs = (if width = 0 then 8 else width) \<and> numeral_value 16 cs = unat n mod 16 ^ length cs"
  by (intro exI [of _ "hex_digits (if upper then digit_chars_upper else digit_chars_lower) n
         (if width > 0 then width else 8)"])
    (simp add: format_number_hex_digits hex_digits_value digit_value_hex)

text \<open>Formatted output does not depend on the device: whenever a format and its arguments
  render to a string, every callback is called with exactly the characters of that string, in
  order, and nothing else happens.\<close>

theorem format_output_independent_of_sink:
  assumes "format_string_varg collect m fmt ap [] = Done cs"
  shows "format_string_varg out m fmt ap s = out_all out cs s"
  using format_string_varg_emits [OF assms, where out = out] by auto

theorem format_output_independent_of_sink_witness:
  "format_string_varg (\<lambda>c n. Done (Suc n)) (\<lambda>_. 0) ''a%c'' [0x62] (0 :: nat) = Done 2"
proof -
  have "format_string_varg collect (\<lambda>_. 0) ''a%c'' [0x62] [] = Done ''ab''"
    by (simp add: format_string_varg.simps parse_spec_def skip_zero_def parse_width_def parse_long_def
        isdigit_def char_code_def format_directive_def va_arg_u32_def keep_args_def collect_def
        of_char_Char char_of_def bit_0)
  from format_output_independent_of_sink [OF this, of "\<lambda>c n. Done (Suc n)" "0 :: nat"]
  show ?thesis by simp
qed

end
