(* ===== verification/Ports.thy ===== *)
theory Ports
  imports Prelude
begin

text \<open>
  The interface of \<^verbatim>\<open>src/io.h\<close>. What a port does is hardware and stays a parameter: a \<open>hardware\<close>
  record gives the effect of one read and one write on a device state. Code that only writes ports
  is modelled by the list of its writes, in order.
\<close>

type_synonym port_write = "u16 \<times> u8"

record 'd hardware =
  inportb :: "u16 \<Rightarrow> 'd \<Rightarrow> u8 \<times> 'd"
  outportb :: "u16 \<Rightarrow> u8 \<Rightarrow> 'd \<Rightarrow> 'd"

fun outportbs :: "('d, 'z) hardware_scheme \<Rightarrow> port_write list \<Rightarrow> 'd \<Rightarrow> 'd" where
  "outportbs hw [] d = d"
| "outportbs hw ((p, v) # ws) d = outportbs hw ws (outportb hw p v d)"

lemma outportbs_append: "outportbs hw (ws @ ws') d = outportbs hw ws' (outportbs hw ws d)"
  by (induction hw ws d rule: outportbs.induct) auto

end
