(* ===== verification/Console.thy ===== *)
theory Console
  imports Format Ports
begin

text \<open>
  Models \<^verbatim>\<open>src/video.cpp\<close>, \<^verbatim>\<open>src/console.cpp\<close> and \<^verbatim>\<open>src/debug.cpp\<close>. A character cell is the pair of
  character and colour. The console's back buffer and the video memory are maps from a cell index
  to a cell, with the size of the object they stand for kept beside them: a write past it is an
  \<open>OutOfBounds\<close> fault. Port writes (the hardware cursor, the debug port) are logged in order.

  The lemmas show the cursor and window invariant of the console, that the screen always shows the
  window of the buffer that holds the cursor, and exactly when a character is written past the end of
  the buffer.
\<close>

subsection \<open>Video (\<^verbatim>\<open>video.cpp\<close>)\<close>

record VIDEO_CHAR =
  vc_ch :: char
  vc_color :: u8

type_synonym cells = "nat \<Rightarrow> VIDEO_CHAR"

definition SCREEN_WIDTH :: nat where "SCREEN_WIDTH = 80"
definition SCREEN_HEIGHT :: nat where "SCREEN_HEIGHT = 25"
definition SCREEN_SIZE :: nat where "SCREEN_SIZE = SCREEN_WIDTH * SCREEN_HEIGHT"

fun video_print :: "nat \<Rightarrow> char list \<Rightarrow> u8 \<Rightarrow> cells \<Rightarrow> cells" where
  "video_print destination [] color v = v"
| "video_print destination (c # string) color v =
     video_print (destination + 1) string color (v(destination := \<lparr>vc_ch = c, vc_color = color\<rparr>))"

fun video_clear_loop :: "nat \<Rightarrow> nat \<Rightarrow> cells \<Rightarrow> cells" where
  "video_clear_loop 0 destination v = v"
| "video_clear_loop (Suc count) destination v =
     video_clear_loop count (destination + 1) (v(destination := \<lparr>vc_ch = CHR 0x00, vc_color = 0\<rparr>))"

definition video_clear :: "nat \<Rightarrow> cells \<Rightarrow> cells" where
  "video_clear destination v = video_clear_loop SCREEN_SIZE destination v"

text \<open>\<^verbatim>\<open>memcpy\<close> of one screen of cells from the buffer position to the video memory.\<close>

definition video_display :: "cells \<Rightarrow> nat \<Rightarrow> cells \<Rightarrow> cells" where
  "video_display buffer screen vram = (\<lambda>k. if k < SCREEN_SIZE then buffer (screen + k) else vram k)"

text \<open>
  \<^verbatim>\<open>memcpy\<close> of the lower rows to the top (a forward copy to a lower address), then \<^verbatim>\<open>memset\<close> of the
  last rows with the byte \<open>0x20\<close>, which fills both the character and the colour. Scrolling by more rows
  than the screen has makes the unsigned byte counts wrap and the copy run away.
\<close>

definition video_scroll :: "nat \<Rightarrow> cells \<Rightarrow> cells outcome" where
  "video_scroll count vram =
     (if SCREEN_SIZE < count * SCREEN_WIDTH then Fault OutOfBounds
      else Done (\<lambda>k. if k < SCREEN_SIZE - count * SCREEN_WIDTH then vram (k + SCREEN_WIDTH * count)
                else if k < SCREEN_SIZE then \<lparr>vc_ch = CHR 0x20, vc_color = 0x20\<rparr> else vram k))"

definition video_move_cursor :: "u32 \<Rightarrow> u32 \<Rightarrow> port_write list" where
  "video_move_cursor col row =
     (let p = row * 80 + col in
      [(0x3D4, 15), (0x3D5, ucast (p AND 0xff)), (0x3D4, 14), (0x3D5, ucast (drop_bit 8 p AND 0xff))])"

definition video_config_cursor :: "bool \<Rightarrow> u32 \<Rightarrow> u32 \<Rightarrow> port_write list" where
  "video_config_cursor blink start_row end_row =
     [(0x3D4, 10), (0x3D5, (if blink then 0x40 else 0x00) OR ucast (start_row AND 0x1f)),
      (0x3D4, 11), (0x3D5, 0x00 OR ucast (end_row AND 0x1f))]"

subsection \<open>Console (\<^verbatim>\<open>console.cpp\<close>)\<close>

record CONSOLE =
  buffer_width :: u32
  buffer_height :: u32
  buffer :: cells
  cursor_column :: u32
  cursor_row :: u32
  visible :: "32 word"
  top_row :: u32
  video_ram :: cells
  crt_writes :: "port_write list"

definition buffer_cells :: nat where
  \<comment> \<open>the size of the static array \<^verbatim>\<open>s_buffer[80 * 25 * 100]\<close>\<close>
  "buffer_cells = 80 * 25 * 100"

definition CONSOLE_init :: "cells \<Rightarrow> CONSOLE" where
  "CONSOLE_init vram =
     \<lparr>buffer_width = 80, buffer_height = 100 * 25,
      buffer = (\<lambda>_. \<lparr>vc_ch = CHR '' '', vc_color = 0x07\<rparr>),
      cursor_column = 0, cursor_row = 0, visible = 1, top_row = 0,
      video_ram = vram, crt_writes = video_config_cursor True 0x0d 0x0f\<rparr>"

definition put_cell :: "char \<Rightarrow> CONSOLE \<Rightarrow> CONSOLE outcome" where
  "put_cell ch s =
     (let dest = unat (buffer_width s * cursor_row s + cursor_column s) in
      if dest < buffer_cells
      then Done (s\<lparr>buffer := (buffer s)(dest := \<lparr>vc_ch = ch, vc_color = 0x07\<rparr>)\<rparr>)
      else Fault OutOfBounds)"

definition advance_cursor :: "CONSOLE \<Rightarrow> CONSOLE" where
  "advance_cursor s =
     (let s1 = s\<lparr>cursor_column := cursor_column s + 1\<rparr> in
      if cursor_column s1 \<ge> buffer_width s1
      then s1\<lparr>cursor_row := cursor_row s1 + 1, cursor_column := 0\<rparr> else s1)"

definition scroll_window :: "CONSOLE \<Rightarrow> CONSOLE" where
  "scroll_window s =
     (if cursor_row s < top_row s then s\<lparr>top_row := cursor_row s\<rparr>
      else if cursor_row s - top_row s \<ge> 25 then s\<lparr>top_row := cursor_row s - 24\<rparr>
      else s)"

definition write_char_to_console :: "char \<Rightarrow> CONSOLE \<Rightarrow> CONSOLE outcome" where
  "write_char_to_console ch s =
     (if ch = CHR ''\<newline>''
      then Done (scroll_window (s\<lparr>cursor_column := 0, cursor_row := cursor_row s + 1\<rparr>))
      else outcome_bind (put_cell ch s) (\<lambda>s1. Done (scroll_window (advance_cursor s1))))"

definition refresh :: "CONSOLE \<Rightarrow> CONSOLE" where
  "refresh s =
     (if visible s \<noteq> 0
      then s\<lparr>video_ram := video_display (buffer s) (unat (top_row s * buffer_width s)) (video_ram s),
             crt_writes := crt_writes s @ video_move_cursor (cursor_column s) (cursor_row s - top_row s)\<rparr>
      else s)"

definition console_printf :: "memory \<Rightarrow> char list \<Rightarrow> u32 list \<Rightarrow> CONSOLE \<Rightarrow> CONSOLE outcome" where
  "console_printf m fmt ap s =
     outcome_bind (format_string_varg write_char_to_console m fmt ap s) (\<lambda>s'. Done (refresh s'))"

fun printn_loop :: "nat \<Rightarrow> char \<Rightarrow> CONSOLE \<Rightarrow> CONSOLE outcome" where
  "printn_loop 0 ch s = Done s"
| "printn_loop (Suc count) ch s = outcome_bind (write_char_to_console ch s) (printn_loop count ch)"

definition console_printn :: "char \<Rightarrow> u32 \<Rightarrow> CONSOLE \<Rightarrow> CONSOLE outcome" where
  "console_printn ch count s = outcome_bind (printn_loop (unat count) ch s) (\<lambda>s'. Done (refresh s'))"

subsection \<open>The console invariant\<close>

definition console_inv :: "CONSOLE \<Rightarrow> bool" where
  "console_inv s \<longleftrightarrow> buffer_width s = 80 \<and> cursor_column s < 80 \<and> top_row s \<le> cursor_row s \<and>
     cursor_row s - top_row s \<le> 24 \<and> (top_row s = 0 \<or> cursor_row s - top_row s = 24)"

lemma console_inv_init: "console_inv (CONSOLE_init vram)"
  by (simp add: console_inv_def CONSOLE_init_def)

text \<open>How far the window may lag behind the cursor, on the row and window positions alone.\<close>

definition window_ok :: "u32 \<Rightarrow> u32 \<Rightarrow> bool" where
  "window_ok row tp \<longleftrightarrow> tp \<le> row \<and> row - tp \<le> 24 \<and> (tp = 0 \<or> row - tp = 24)"

lemma window_ok_nat:
  "window_ok row tp \<longleftrightarrow> unat tp \<le> unat row \<and> unat row - unat tp \<le> 24 \<and>
     (unat tp = 0 \<or> unat row - unat tp = 24)"
proof (cases "tp \<le> row")
  case True
  have "row - tp = 24 \<longleftrightarrow> unat (row - tp) = unat (24 :: u32)" by (metis unsigned_word_eqI)
  then show ?thesis
    using True by (simp add: window_ok_def word_le_nat_alt unat_sub unat_eq_0)
next
  case False
  then show ?thesis by (simp add: window_ok_def word_le_nat_alt)
qed

lemma scroll_window_ok:
  assumes "window_ok row (top_row s)" "cursor_row s = row \<or> cursor_row s = row + 1"
  shows "window_ok (cursor_row s) (top_row (scroll_window s))"
proof -
  consider "cursor_row s = 0" | "unat (cursor_row s) = unat row" | "unat (cursor_row s) = Suc (unat row)"
    using assms(2) u32_Suc_cases [of row] by auto
  then show ?thesis
  proof cases
    case 1
    then show ?thesis
      by (cases "top_row s = 0") (auto simp: scroll_window_def window_ok_def word_gt_0)
  next
    case 2
    then have "cursor_row s = row" by (simp add: word_unat_eq_iff)
    then show ?thesis
      using assms(1) by (auto simp: scroll_window_def window_ok_def word_le_nat_alt word_less_nat_alt)
  next
    case 3
    with assms(1) have le: "top_row s \<le> cursor_row s"
      by (simp add: window_ok_nat word_le_nat_alt)
    show ?thesis
    proof (cases "25 \<le> cursor_row s - top_row s")
      case True
      with le have "25 \<le> unat (cursor_row s) - unat (top_row s)" by (simp add: word_le_nat_alt unat_sub)
      then have "unat (cursor_row s - 24) = unat (cursor_row s) - 24"
        by (subst unat_sub) (simp_all add: word_le_nat_alt)
      then show ?thesis using True le \<open>25 \<le> unat (cursor_row s) - unat (top_row s)\<close>
        by (auto simp: scroll_window_def window_ok_nat word_le_nat_alt word_less_nat_alt)
    next
      case False
      with le have "unat (cursor_row s) - unat (top_row s) < 25"
        by (simp add: word_le_nat_alt unat_sub)
      then show ?thesis using 3 False le assms(1)
        by (auto simp: scroll_window_def window_ok_nat word_le_nat_alt word_less_nat_alt)
    qed
  qed
qed

lemma console_inv_window:
  "console_inv s \<longleftrightarrow> buffer_width s = 80 \<and> cursor_column s < 80 \<and> window_ok (cursor_row s) (top_row s)"
  by (auto simp: console_inv_def window_ok_def)

lemma scroll_window_frame [simp]:
  "buffer_width (scroll_window s) = buffer_width s" "cursor_column (scroll_window s) = cursor_column s"
  "cursor_row (scroll_window s) = cursor_row s" "buffer (scroll_window s) = buffer s"
  "visible (scroll_window s) = visible s" "video_ram (scroll_window s) = video_ram s"
  "crt_writes (scroll_window s) = crt_writes s" "buffer_height (scroll_window s) = buffer_height s"
  by (simp_all add: scroll_window_def)

lemma scroll_window_inv:
  assumes "console_inv s" "cursor_row s1 = cursor_row s \<or> cursor_row s1 = cursor_row s + 1"
    "top_row s1 = top_row s" "buffer_width s1 = 80" "cursor_column s1 < 80"
  shows "console_inv (scroll_window s1)"
  using assms scroll_window_ok [of "cursor_row s" s1] by (simp add: console_inv_window)

lemma write_char_inv:
  assumes "console_inv s" and "write_char_to_console ch s = Done s'"
  shows "console_inv s'"
proof -
  from assms(2) obtain s1 where s1: "s' = scroll_window s1"
    "cursor_row s1 = cursor_row s \<or> cursor_row s1 = cursor_row s + 1" "top_row s1 = top_row s"
    "buffer_width s1 = buffer_width s"
    "cursor_column s1 = 0 \<or> (cursor_column s1 < buffer_width s1)"
    by (auto simp: write_char_to_console_def put_cell_def advance_cursor_def Let_def not_le
        split: if_splits)
  have w: "buffer_width s = 80" using assms(1) by (simp add: console_inv_window)
  have "console_inv (scroll_window s1)"
    by (rule scroll_window_inv [OF assms(1) s1(2,3)]) (use s1(4,5) w in auto)
  then show ?thesis by (simp add: s1(1))
qed

interpretation console_sink: invariant_sink write_char_to_console console_inv
  by unfold_locales (rule write_char_inv)

lemma refresh_frame [simp]:
  "buffer_width (refresh s) = buffer_width s" "cursor_column (refresh s) = cursor_column s"
  "cursor_row (refresh s) = cursor_row s" "buffer (refresh s) = buffer s" "top_row (refresh s) = top_row s"
  "visible (refresh s) = visible s"
  by (simp_all add: refresh_def)

lemma refresh_inv: "console_inv s \<Longrightarrow> console_inv (refresh s)"
  by (simp add: console_inv_def)

lemma write_char_visible: "write_char_to_console ch s = Done s' \<Longrightarrow> visible s' = visible s"
  by (auto simp: write_char_to_console_def put_cell_def advance_cursor_def Let_def split: if_splits)

lemma printn_loop_inv: "console_inv s \<Longrightarrow> printn_loop n ch s = Done s' \<Longrightarrow> console_inv s'"
  by (induction n ch s rule: printn_loop.induct) (auto dest: write_char_inv)

lemma console_printf_inv:
  "console_inv s \<Longrightarrow> console_printf m fmt ap s = Done s' \<Longrightarrow> console_inv s'"
  by (auto simp: console_printf_def intro!: refresh_inv intro: console_sink.format_inv)

lemma console_printn_inv:
  "console_inv s \<Longrightarrow> console_printn ch count s = Done s' \<Longrightarrow> console_inv s'"
  by (auto simp: console_printn_def intro!: refresh_inv intro: printn_loop_inv)

interpretation visible_sink: invariant_sink write_char_to_console "\<lambda>s. visible s = v" for v
  by unfold_locales (auto dest: write_char_visible)

subsection \<open>Where a character goes\<close>

lemma cell_index:
  assumes "console_inv s" and "unat (cursor_row s) < 50000000"
  shows "unat (buffer_width s * cursor_row s + cursor_column s) =
    80 * unat (cursor_row s) + unat (cursor_column s)"
proof -
  have "unat (cursor_column s) < unat (80 :: u32)"
    using assms(1) by (simp only: console_inv_def word_less_nat_alt)
  then have c: "unat (cursor_column s) < 80" by simp
  have w: "unat (80 * cursor_row s) = 80 * unat (cursor_row s)"
    using assms(2) by (subst unat_u32_mult) auto
  show ?thesis
    using assms c w by (subst unat_u32_add) (auto simp: console_inv_def)
qed

lemma write_char_fault:
  assumes "console_inv s" and "unat (cursor_row s) < 50000000"
  shows "write_char_to_console ch s = Fault OutOfBounds \<longleftrightarrow> ch \<noteq> CHR ''\<newline>'' \<and> 2500 \<le> unat (cursor_row s)"
    and "write_char_to_console ch s = Fault e \<Longrightarrow> e = OutOfBounds"
    and "write_char_to_console ch s \<noteq> Diverges"
proof -
  have "unat (cursor_column s) < unat (80 :: u32)"
    using assms(1) by (simp only: console_inv_def word_less_nat_alt)
  then have c: "unat (cursor_column s) < 80" by simp
  have "80 * unat (cursor_row s) + unat (cursor_column s) < buffer_cells \<longleftrightarrow> unat (cursor_row s) < 2500"
    using c by (simp add: buffer_cells_def) linarith
  then show "write_char_to_console ch s = Fault OutOfBounds \<longleftrightarrow> ch \<noteq> CHR ''\<newline>'' \<and> 2500 \<le> unat (cursor_row s)"
    and "write_char_to_console ch s = Fault e \<Longrightarrow> e = OutOfBounds"
    and "write_char_to_console ch s \<noteq> Diverges"
    by (auto simp: write_char_to_console_def put_cell_def cell_index [OF assms] split: if_splits)
qed

subsection \<open>Memory dumps (\<^verbatim>\<open>CONSOLE::dump\<close>, \<^verbatim>\<open>debug_bochs_memdump\<close>)\<close>

text \<open>
  Both dumps have the same body and differ in the print function, which is a parameter here. An
  address runs through the 16-byte lines that touch the block.
\<close>

type_synonym 's printer = "char list \<Rightarrow> u32 list \<Rightarrow> 's \<Rightarrow> 's outcome"

definition isprintable :: "char \<Rightarrow> bool" where
  "isprintable ch \<longleftrightarrow> 0x20 \<le> char_code ch \<and> char_code ch \<le> 0x7E"

fun dump_hex :: "'s printer \<Rightarrow> memory \<Rightarrow> u32 \<Rightarrow> u32 \<Rightarrow> nat \<Rightarrow> u32 \<Rightarrow> 's \<Rightarrow> 's outcome" where
  "dump_hex pr m begin_addr end_addr 0 ptr s = Done s"
| "dump_hex pr m begin_addr end_addr (Suc k) ptr s =
     outcome_bind
       (if begin_addr \<le> ptr \<and> ptr \<le> end_addr then pr ''%2x '' [ucast (m ptr)] s
        else pr ''?? '' [ucast (m ptr)] s)
       (dump_hex pr m begin_addr end_addr k (ptr + 1))"

fun dump_text :: "'s printer \<Rightarrow> memory \<Rightarrow> u32 \<Rightarrow> u32 \<Rightarrow> nat \<Rightarrow> u32 \<Rightarrow> 's \<Rightarrow> 's outcome" where
  "dump_text pr m begin_addr end_addr 0 ptr s = Done s"
| "dump_text pr m begin_addr end_addr (Suc k) ptr s =
     outcome_bind
       (if begin_addr \<le> ptr \<and> ptr \<le> end_addr then
          (if isprintable (char_at m ptr) then pr ''%c'' [ucast (m ptr)] s else pr ''.'' [ucast (m ptr)] s)
        else pr '' '' [ucast (m ptr)] s)
       (dump_text pr m begin_addr end_addr k (ptr + 1))"

definition dump_line :: "'s printer \<Rightarrow> memory \<Rightarrow> u32 \<Rightarrow> u32 \<Rightarrow> u32 \<Rightarrow> 's \<Rightarrow> 's outcome" where
  "dump_line pr m begin_addr end_addr line_addr s =
     outcome_bind (pr ''%p '' [line_addr] s) (\<lambda>s. outcome_bind (dump_hex pr m begin_addr end_addr 16 line_addr s)
       (\<lambda>s. outcome_bind (pr ''  '' [] s) (\<lambda>s. outcome_bind (dump_text pr m begin_addr end_addr 16 line_addr s)
         (pr ''\<newline>'' []))))"

partial_function (option) dump_lines ::
    "'s printer \<Rightarrow> memory \<Rightarrow> u32 \<Rightarrow> u32 \<Rightarrow> u32 \<Rightarrow> u32 \<Rightarrow> 's \<Rightarrow> 's outcome option" where
  "dump_lines pr m begin_addr end_addr last_addr line_addr s =
     (if line_addr \<le> last_addr
      then (case dump_line pr m begin_addr end_addr line_addr s of
              Done s' \<Rightarrow> dump_lines pr m begin_addr end_addr last_addr (line_addr + 16) s'
            | Fault e \<Rightarrow> Some (Fault e)
            | Diverges \<Rightarrow> None)
      else Some (Done s))"

definition memdump :: "'s printer \<Rightarrow> memory \<Rightarrow> u32 \<Rightarrow> u32 \<Rightarrow> 's \<Rightarrow> 's outcome" where
  "memdump pr m address len s =
     (let begin_addr = address; end_addr = begin_addr + len - 1;
          first_addr = begin_addr AND NOT 0xF; last_addr = end_addr AND NOT 0xF
      in outcome_of_loop (dump_lines pr m begin_addr end_addr last_addr first_addr s))"

definition console_dump :: "memory \<Rightarrow> u32 \<Rightarrow> u32 \<Rightarrow> CONSOLE \<Rightarrow> CONSOLE outcome" where
  "console_dump m address len s = memdump (console_printf m) m address len s"

subsection \<open>The debug port (\<^verbatim>\<open>debug.cpp\<close>)\<close>

definition output_bochs_char :: "char \<Rightarrow> port_write list \<Rightarrow> port_write list outcome" where
  "output_bochs_char ch ws = Done (ws @ [(0xe9, of_char ch)])"

definition debug_bochs_printf :: "memory \<Rightarrow> char list \<Rightarrow> u32 list \<Rightarrow> port_write list \<Rightarrow> port_write list outcome" where
  "debug_bochs_printf m fmt ap ws = format_string output_bochs_char m fmt ap ws"

definition debug_bochs_memdump :: "memory \<Rightarrow> u32 \<Rightarrow> u32 \<Rightarrow> port_write list \<Rightarrow> port_write list outcome" where
  "debug_bochs_memdump m address len ws = memdump (debug_bochs_printf m) m address len ws"

text \<open>\<^verbatim>\<open>panic\<close>: interrupts off, the message to the debug port, then a loop without end.\<close>

definition panic :: "memory \<Rightarrow> char list \<Rightarrow> u32 list \<Rightarrow> port_write list \<Rightarrow> 'a outcome" where
  "panic m txt ap ws =
     outcome_bind (format_string_varg output_bochs_char m txt ap ws) (\<lambda>_. Fault (Panic txt))"

definition debug_text :: "port_write list \<Rightarrow> char list" where
  "debug_text ws = map (\<lambda>(p, v). char_of (unat v)) (filter (\<lambda>(p, v). p = 0xe9) ws)"

lemma char_of_unat_of_char: "char_of (unat (of_char c :: u8)) = c"
proof -
  have "unat (of_char c :: u8) = unat (of_nat (of_char c) :: u8)"
    by (simp only: of_nat_of_char)
  also have "\<dots> = (of_char c :: nat)" by (simp add: unat_of_nat)
  finally show ?thesis by simp
qed

interpretation bochs_sink: char_sink output_bochs_char debug_text
  by unfold_locales (auto simp: output_bochs_char_def debug_text_def char_of_unat_of_char)

subsection \<open>Termination of a dump\<close>

definition printer_returns :: "'s printer \<Rightarrow> bool" where
  "printer_returns pr \<longleftrightarrow> (\<forall>fmt ap s. \<exists>s'. pr fmt ap s = Done s')"

lemma dump_hex_returns: "printer_returns pr \<Longrightarrow> \<exists>s'. dump_hex pr m b e k ptr s = Done s'"
proof (induction k arbitrary: ptr s)
  case (Suc k)
  from Suc.prems obtain s1 where "(if b \<le> ptr \<and> ptr \<le> e then pr ''%2x '' [ucast (m ptr)] s
      else pr ''?? '' [ucast (m ptr)] s) = Done s1"
    unfolding printer_returns_def by metis
  with Suc show ?case by simp
qed simp

lemma dump_text_returns: "printer_returns pr \<Longrightarrow> \<exists>s'. dump_text pr m b e k ptr s = Done s'"
proof (induction k arbitrary: ptr s)
  case (Suc k)
  from Suc.prems obtain s1 where "(if b \<le> ptr \<and> ptr \<le> e then
        (if isprintable (char_at m ptr) then pr ''%c'' [ucast (m ptr)] s else pr ''.'' [ucast (m ptr)] s)
      else pr '' '' [ucast (m ptr)] s) = Done s1"
    unfolding printer_returns_def by metis
  with Suc show ?case by simp
qed simp

lemma dump_line_returns:
  assumes "printer_returns pr"
  shows "\<exists>s'. dump_line pr m b e line s = Done s'"
proof -
  from assms obtain s1 where 1: "pr ''%p '' [line] s = Done s1" unfolding printer_returns_def by metis
  from dump_hex_returns [OF assms] obtain s2 where 2: "dump_hex pr m b e 16 line s1 = Done s2" by blast
  from assms obtain s3 where 3: "pr ''  '' [] s2 = Done s3" unfolding printer_returns_def by metis
  from dump_text_returns [OF assms] obtain s4 where 4: "dump_text pr m b e 16 line s3 = Done s4" by blast
  from assms show ?thesis unfolding printer_returns_def dump_line_def by (simp add: 1 2 3 4)
qed

text \<open>The line addresses are the multiples of 16 below the top of the address space.\<close>

lemma line_aligned: "(a :: u32) AND NOT 0xF = word_of_nat (16 * (unat a div 16))"
proof -
  have "a AND NOT 0xF = push_bit 4 (drop_bit 4 a)"
    by (simp add: bit_eq_iff bit_simps) (auto simp: bit_numeral_rec less_Suc_eq numeral_eq_Suc)
  also have "\<dots> = word_of_nat (16 * (unat a div 16))"
    by (simp add: push_bit_eq_mult drop_bit_eq_div word_unat_eq_iff unat_word_ariths unat_div unat_of_nat mult.commute)
  finally show ?thesis .
qed

lemma dump_lines_returns:
  assumes "printer_returns pr" and "n < 268435455" and "k \<le> Suc n"
  shows "\<exists>s'. dump_lines pr m b e (word_of_nat (16 * n)) (word_of_nat (16 * k)) s = Some (Done s')"
  using assms(3)
proof (induction "Suc n - k" arbitrary: k s)
  case 0
  with assms(2) have "\<not> (word_of_nat (16 * k) :: u32) \<le> word_of_nat (16 * n)"
    by (auto simp: word_le_nat_alt unat_u32_of_nat simp del: of_nat_mult of_nat_Suc)
  then show ?case
    by (subst dump_lines.simps) (simp del: of_nat_mult)
next
  case (Suc j)
  then have le: "(word_of_nat (16 * k) :: u32) \<le> word_of_nat (16 * n)"
    using assms(2) by (auto simp: word_le_nat_alt unat_of_nat simp del: of_nat_mult)
  obtain s1 where l: "dump_line pr m b e (word_of_nat (16 * k)) s = Done s1"
    using dump_line_returns [OF assms(1)] by blast
  have next_line: "(word_of_nat (16 * k) :: u32) + 16 = word_of_nat (16 * Suc k)" by simp
  have "j = Suc n - Suc k" "Suc k \<le> Suc n" using Suc.hyps(2) by auto
  with Suc.hyps(1) [of "Suc k" s1] le l show ?case
    by (simp add: dump_lines.simps [of _ _ _ _ _ "word_of_nat (16 * k)"] next_line del: of_nat_mult of_nat_Suc mult_Suc_right)
qed

lemma dump_lines_diverges:
  fixes pr :: "'a printer"
  assumes "printer_returns pr"
  shows "dump_lines pr m b e 0xFFFFFFF0 (word_of_nat (16 * k)) s = None"
proof -
  have le: "(word_of_nat (16 * k) :: u32) \<le> 0xFFFFFFF0" for k :: nat
  proof -
    have "16 * k mod 4294967296 = 16 * (k mod 268435456)" by (simp add: mult_mod_right)
    then show ?thesis by (simp add: word_le_nat_alt unat_of_nat del: of_nat_mult)
  qed
  let ?P = "\<lambda>pr' (m :: memory) (b :: u32) (e :: u32) l (line :: u32) (s :: 'a) (r :: 'a outcome). pr' = pr \<longrightarrow> l = (0xFFFFFFF0 :: u32) \<longrightarrow> (\<exists>k. line = word_of_nat (16 * k)) \<longrightarrow> False"
  have False if ret: "dump_lines pr m b e 0xFFFFFFF0 (word_of_nat (16 * k)) s = Some r" for r
  proof -
    have "?P pr m b e 0xFFFFFFF0 (word_of_nat (16 * k)) s r"
    proof (rule dump_lines.raw_induct [where P = ?P, OF _ ret], intro impI)
      fix f pr' m b e l line s r
      assume IH: "\<And>pr' m b e l line s r. f pr' m b e l line s = Some r \<Longrightarrow> ?P pr' m b e l line s r"
        and eq: "(if line \<le> l then case dump_line pr' m b e line s of
              Done s' \<Rightarrow> f pr' m b e l (line + 16) s' | Fault e \<Rightarrow> Some (Fault e) | Diverges \<Rightarrow> None
            else Some (Done s)) = Some r"
        and p: "pr' = pr" "l = 0xFFFFFFF0" "\<exists>k. line = word_of_nat (16 * k)"
      from p(3) obtain k where k: "line = word_of_nat (16 * k)" ..
      obtain s1 where "dump_line pr m b e line s = Done s1" using dump_line_returns [OF assms] by blast
      with eq p le [of k] k have "f pr m b e l (line + 16) s1 = Some r" by simp
      moreover have "line + 16 = word_of_nat (16 * Suc k)" by (simp add: k)
      ultimately show False using IH p by blast
    qed
    then show False by blast
  qed
  then show ?thesis by (cases "dump_lines pr m b e 0xFFFFFFF0 (word_of_nat (16 * k)) s") auto
qed

subsection \<open>Properties\<close>

text \<open>The hardware cursor position the last four CRT controller writes leave behind.\<close>

definition crt_cursor :: "port_write list \<Rightarrow> nat" where
  "crt_cursor ws = (case rev ws of (p1, hi) # (p2, i2) # (p3, lo) # (p4, i1) # _ \<Rightarrow> unat hi * 256 + unat lo | _ \<Rightarrow> 0)"

lemma crt_cursor_move:
  assumes "unat row * 80 + unat col < 65536"
  shows "crt_cursor (ws @ video_move_cursor col row) = unat row * 80 + unat col"
proof -
  let ?p = "row * 80 + col"
  have "unat (row * 80) = unat row * 80" using assms by (subst unat_u32_mult) auto
  then have p: "unat ?p = unat row * 80 + unat col" using assms by (subst unat_u32_add) auto
  have lo: "unat (ucast (?p AND 0xff) :: u8) = unat ?p mod 256"
  proof -
    have "?p AND 0xff = take_bit 8 ?p" by (simp add: take_bit_eq_mask mask_eq_exp_minus_1)
    then show ?thesis
      by (simp add: unsigned_ucast_eq unsigned_take_bit_eq) (simp add: take_bit_eq_mod)
  qed
  have hi: "unat (ucast (drop_bit 8 ?p AND 0xff) :: u8) = unat ?p div 256 mod 256"
  proof -
    have "drop_bit 8 ?p AND 0xff = take_bit 8 (drop_bit 8 ?p)" by (simp add: take_bit_eq_mask mask_eq_exp_minus_1)
    then show ?thesis
      by (simp add: unsigned_ucast_eq unsigned_take_bit_eq unat_drop_bit_eq)
        (simp add: take_bit_eq_mod drop_bit_eq_div)
  qed
  have "unat ?p div 256 mod 256 * 256 + unat ?p mod 256 = unat ?p"
    using assms p by (intro two_bytes) simp
  then show ?thesis by (simp add: crt_cursor_def video_move_cursor_def Let_def lo hi p)
qed

text \<open>After a visible console has printed, its invariant holds, the video memory shows the
  25 rows of the buffer from the window's top row on, and the CRT cursor stands inside the screen, on
  the cell of the console cursor.\<close>

theorem console_printf_shows_cursor:
  assumes "console_inv s" and "visible s \<noteq> 0" and "console_printf m fmt ap s = Done s'"
    and "k < SCREEN_SIZE"
  shows "console_inv s' \<and> video_ram s' k = buffer s' (unat (top_row s' * 80) + k) \<and>
    crt_cursor (crt_writes s') = unat (cursor_row s' - top_row s') * 80 + unat (cursor_column s') \<and>
    crt_cursor (crt_writes s') < SCREEN_SIZE"
proof -
  have inv: "console_inv s'" using console_printf_inv assms by blast
  from assms(3) obtain s1 where s1: "format_string_varg write_char_to_console m fmt ap s = Done s1"
    "s' = refresh s1" by (auto simp: console_printf_def)
  from visible_sink.format_inv [of s "visible s", OF _ s1(1)] assms(2) have v: "visible s1 \<noteq> 0" by simp
  have w: "buffer_width s1 = 80" using inv by (simp add: s1(2) console_inv_def)
  have screen: "video_ram s' k = buffer s' (unat (top_row s' * 80) + k)"
    using assms(4) v w by (simp add: s1(2) refresh_def video_display_def)
  have r: "unat (cursor_row s' - top_row s') \<le> 24"
    using inv by (simp add: console_inv_def word_le_nat_alt)
  have "unat (cursor_column s') < unat (80 :: u32)"
    using inv by (simp only: console_inv_def word_less_nat_alt)
  then have c: "unat (cursor_column s') < 80" by simp
  have p: "crt_cursor (crt_writes s') = unat (cursor_row s' - top_row s') * 80 + unat (cursor_column s')"
    using v r c by (simp add: s1(2) refresh_def crt_cursor_move)
  then show ?thesis
    using inv screen r c by (simp add: SCREEN_SIZE_def SCREEN_WIDTH_def SCREEN_HEIGHT_def)
qed

text \<open>The console never looks at \<^verbatim>\<open>buffer_height\<close>: writing a character other than a newline goes
  past the end of the buffer exactly when the cursor is on row 2500 or below, and this is the only way
  the write can fail.\<close>

theorem console_write_past_buffer_end:
  assumes "console_inv s" and "unat (cursor_row s) < 50000000"
  shows "write_char_to_console ch s = Fault OutOfBounds \<and> ch \<noteq> CHR ''\<newline>'' \<and> 2500 \<le> unat (cursor_row s) \<or>
    (\<exists>s'. write_char_to_console ch s = Done s') \<and> (ch = CHR ''\<newline>'' \<or> unat (cursor_row s) < 2500)"
  using write_char_fault [OF assms, of ch] by (cases "write_char_to_console ch s") auto

text \<open>A memory dump of a block that does not wrap returns, unless the block reaches into the last 16
  bytes of the address space; there the line address wraps to 0 and the dump never ends.\<close>

theorem memdump_terminates_iff:
  assumes "printer_returns pr" and "address \<le> address + len - 1"
  shows "(\<exists>s'. memdump pr m address len s = Done s') \<and> address + len - 1 < 0xFFFFFFF0 \<or>
    memdump pr m address len s = Diverges \<and> 0xFFFFFFF0 \<le> address + len - 1"
proof -
  let ?e = "address + len - 1"
  let ?k = "unat address div 16" and ?n = "unat ?e div 16"
  have le: "?k \<le> Suc ?n" using assms(2) by (simp add: word_le_nat_alt div_le_mono le_SucI)
  show ?thesis
  proof (cases "?e < 0xFFFFFFF0")
    case True
    then have "unat ?e < unat (0xFFFFFFF0 :: u32)" by (simp only: word_less_nat_alt)
    then have "?n < 268435455" by simp
    from dump_lines_returns [OF assms(1) this le, of m address ?e s] True
    show ?thesis unfolding memdump_def Let_def line_aligned by (auto simp del: of_nat_mult)
  next
    case False
    then have ge: "0xFFFFFFF0 \<le> ?e" by simp
    then have "unat (0xFFFFFFF0 :: u32) \<le> unat ?e" by (simp only: word_le_nat_alt)
    then have "?n = 268435455" using unat_u32_less [of ?e] by (simp del: unat_u32_less)
    then have last: "word_of_nat (16 * ?n) = (0xFFFFFFF0 :: u32)" by simp
    from dump_lines_diverges [OF assms(1), of m address ?e ?k s] ge
    show ?thesis unfolding memdump_def Let_def line_aligned last by (simp del: of_nat_mult)
  qed
qed

text \<open>Witnesses.\<close>

lemma CONSOLE_init_visible: "visible (CONSOLE_init vram) \<noteq> 0"
  by (simp add: CONSOLE_init_def)

theorem console_printf_shows_cursor_witness:
  "\<exists>s'. console_printf (\<lambda>_. 0) ''A'' [] (CONSOLE_init (\<lambda>_. \<lparr>vc_ch = CHR 0x00, vc_color = 0\<rparr>)) = Done s' \<and> console_inv s' \<and>
     crt_cursor (crt_writes s') < SCREEN_SIZE"
proof -
  obtain s' where run: "console_printf (\<lambda>_. 0) ''A'' [] (CONSOLE_init (\<lambda>_. \<lparr>vc_ch = CHR 0x00, vc_color = 0\<rparr>)) = Done s'"
    by (simp add: console_printf_def format_string_varg.simps write_char_to_console_def put_cell_def
        CONSOLE_init_def buffer_cells_def)
  from console_printf_shows_cursor [OF console_inv_init CONSOLE_init_visible run, of 0] run
  show ?thesis by (simp add: SCREEN_SIZE_def SCREEN_WIDTH_def SCREEN_HEIGHT_def)
qed

theorem console_write_past_buffer_end_witness:
  "write_char_to_console CHR ''A'' (CONSOLE_init (\<lambda>_. \<lparr>vc_ch = CHR 0x00, vc_color = 0\<rparr>)\<lparr>cursor_row := 2500, top_row := 2476\<rparr>)
     = Fault OutOfBounds"
proof -
  let ?s = "CONSOLE_init (\<lambda>_. \<lparr>vc_ch = CHR 0x00, vc_color = 0\<rparr>)\<lparr>cursor_row := 2500, top_row := 2476\<rparr>"
  have "console_inv ?s" by (simp add: console_inv_def CONSOLE_init_def)
  from console_write_past_buffer_end [OF this, of "CHR ''A''"] show ?thesis
    by simp
qed

theorem memdump_terminates_iff_witness:
  "memdump (\<lambda>fmt ap n. Done (Suc n)) (\<lambda>_. 0) 0xFFFFFFF8 8 0 = Diverges"
proof -
  have "printer_returns (\<lambda>fmt ap n. Done (Suc n))" by (simp add: printer_returns_def)
  from memdump_terminates_iff [OF this, where address = "0xFFFFFFF8" and len = 8 and m = "\<lambda>_. 0" and s = 0]
  show ?thesis by simp
qed

end
