(* ===== verification/Log.thy ===== *)
theory Log
  imports Console
begin

text \<open>
  The diagnostic output of the kernel components. A component's operation appends the messages it
  prints to a log, in order: \<open>Debug\<close> for \<^verbatim>\<open>debug_bochs_printf\<close>, \<open>Print\<close> for \<^verbatim>\<open>console.printf\<close>, each with
  its format string and argument words. \<open>deliver\<close> gives a message its effect on the debug port and
  the console through the definitions of the theory \<open>Console\<close>.
\<close>

datatype message = Debug string "u32 list" | Print string "u32 list"

type_synonym log = "message list"

fun deliver_message :: "memory \<Rightarrow> message \<Rightarrow> port_write list \<times> CONSOLE \<Rightarrow> (port_write list \<times> CONSOLE) outcome" where
  "deliver_message m (Debug fmt args) (ws, con) =
     outcome_bind (debug_bochs_printf m fmt args ws) (\<lambda>ws'. Done (ws', con))"
| "deliver_message m (Print fmt args) (ws, con) =
     outcome_bind (console_printf m fmt args con) (\<lambda>con'. Done (ws, con'))"

fun deliver :: "memory \<Rightarrow> log \<Rightarrow> port_write list \<times> CONSOLE \<Rightarrow> (port_write list \<times> CONSOLE) outcome" where
  "deliver m [] out = Done out"
| "deliver m (msg # msgs) out = outcome_bind (deliver_message m msg out) (deliver m msgs)"

lemma deliver_append:
  "deliver m (ms @ ms') out = outcome_bind (deliver m ms out) (deliver m ms')"
proof (induction ms arbitrary: out)
  case (Cons msg ms)
  show ?case by (cases "deliver_message m msg out") (simp_all add: Cons.IH)
qed simp

lemma deliver_keeps_console_inv:
  "deliver m ms (ws, con) = Done (ws', con') \<Longrightarrow> console_inv con \<Longrightarrow> console_inv con'"
proof (induction ms arbitrary: ws con)
  case (Cons msg ms)
  then show ?case
    by (cases msg) (auto dest: console_printf_inv)
qed simp

end
