(* ===== verification/Multiboot.thy ===== *)
theory Multiboot
  imports Log
begin

text \<open>
  Models the boot information structures (\<^verbatim>\<open>src/multiboot.h\<close>, \<^verbatim>\<open>src/elf.h\<close>), the two iteration
  templates of \<^verbatim>\<open>src/mbtutil.h\<close>, and \<^verbatim>\<open>find_memory_end\<close> and \<^verbatim>\<open>find_kernel_static_end\<close> of
  \<^verbatim>\<open>src/mm.cpp\<close>. The structures are read from the byte store the boot loader left, little-endian and
  at the offsets of their C layout. A callback gets the entry, read at the moment of the call, and the
  state it captured. The memory map is walked by the entries' own size field, so the walk is a
  \<^theory_text>\<open>partial_function\<close>: a bad size field can make it run forever.

  The lemmas reduce the walk over stored entries to a fold over the entry list.
\<close>

subsection \<open>Little-endian reads\<close>

definition read_u16 :: "memory \<Rightarrow> u32 \<Rightarrow> u16" where
  "read_u16 m a = ucast (m a) OR push_bit 8 (ucast (m (a + 1)))"

definition read_u32 :: "memory \<Rightarrow> u32 \<Rightarrow> u32" where
  "read_u32 m a = ucast (m a) OR push_bit 8 (ucast (m (a + 1)))
     OR push_bit 16 (ucast (m (a + 2))) OR push_bit 24 (ucast (m (a + 3)))"

definition read_u64 :: "memory \<Rightarrow> u32 \<Rightarrow> u64" where
  "read_u64 m a = ucast (read_u32 m a) OR push_bit 32 (ucast (read_u32 m (a + 4)))"

subsection \<open>Flags and structures\<close>

definition MULTIBOOT_MEMORY_INFO :: u32 where "MULTIBOOT_MEMORY_INFO = 0x00000002"
definition MULTIBOOT_INFO_MEMORY :: u32 where "MULTIBOOT_INFO_MEMORY = 0x00000001"
definition MULTIBOOT_INFO_BOOTDEV :: u32 where "MULTIBOOT_INFO_BOOTDEV = 0x00000002"
definition MULTIBOOT_INFO_CMDLINE :: u32 where "MULTIBOOT_INFO_CMDLINE = 0x00000004"
definition MULTIBOOT_INFO_ELF_SHDR :: u32 where "MULTIBOOT_INFO_ELF_SHDR = 0x00000020"
definition MULTIBOOT_INFO_MEM_MAP :: u32 where "MULTIBOOT_INFO_MEM_MAP = 0x00000040"
definition MULTIBOOT_INFO_BOOT_LOADER_NAME :: u32 where "MULTIBOOT_INFO_BOOT_LOADER_NAME = 0x00000200"
definition MULTIBOOT_MEMORY_AVAILABLE :: u32 where "MULTIBOOT_MEMORY_AVAILABLE = 1"
definition SHF_ALLOC :: u32 where "SHF_ALLOC = push_bit 1 1"

lemmas multiboot_flag_defs = MULTIBOOT_MEMORY_INFO_def MULTIBOOT_INFO_MEMORY_def
  MULTIBOOT_INFO_BOOTDEV_def MULTIBOOT_INFO_CMDLINE_def MULTIBOOT_INFO_ELF_SHDR_def
  MULTIBOOT_INFO_MEM_MAP_def MULTIBOOT_INFO_BOOT_LOADER_NAME_def MULTIBOOT_MEMORY_AVAILABLE_def
  SHF_ALLOC_def

record multiboot_elf_section_header_table =
  esht_num :: u32
  esht_size :: u32
  esht_addr :: u32
  esht_shndx :: u32

record multiboot_info =
  mbi_flags :: u32
  mem_lower :: u32
  mem_upper :: u32
  boot_device :: u32
  cmdline :: u32
  mods_count :: u32
  mods_addr :: u32
  elf_sec :: multiboot_elf_section_header_table
  mmap_length :: u32
  mmap_addr :: u32
  drives_length :: u32
  drives_addr :: u32
  config_table :: u32
  boot_loader_name :: u32
  apm_table :: u32
  vbe_control_info :: u32
  vbe_mode_info :: u32
  vbe_mode :: u16
  vbe_interface_seg :: u16
  vbe_interface_off :: u16
  vbe_interface_len :: u16

definition read_esht :: "memory \<Rightarrow> u32 \<Rightarrow> multiboot_elf_section_header_table" where
  "read_esht m a = \<lparr>esht_num = read_u32 m a, esht_size = read_u32 m (a + 4),
     esht_addr = read_u32 m (a + 8), esht_shndx = read_u32 m (a + 12)\<rparr>"

definition read_multiboot_info :: "memory \<Rightarrow> u32 \<Rightarrow> multiboot_info" where
  "read_multiboot_info m a = \<lparr>
     mbi_flags = read_u32 m a, mem_lower = read_u32 m (a + 4), mem_upper = read_u32 m (a + 8),
     boot_device = read_u32 m (a + 12), cmdline = read_u32 m (a + 16),
     mods_count = read_u32 m (a + 20), mods_addr = read_u32 m (a + 24),
     elf_sec = read_esht m (a + 28),
     mmap_length = read_u32 m (a + 44), mmap_addr = read_u32 m (a + 48),
     drives_length = read_u32 m (a + 52), drives_addr = read_u32 m (a + 56),
     config_table = read_u32 m (a + 60), boot_loader_name = read_u32 m (a + 64),
     apm_table = read_u32 m (a + 68), vbe_control_info = read_u32 m (a + 72),
     vbe_mode_info = read_u32 m (a + 76), vbe_mode = read_u16 m (a + 80),
     vbe_interface_seg = read_u16 m (a + 82), vbe_interface_off = read_u16 m (a + 84),
     vbe_interface_len = read_u16 m (a + 86)\<rparr>"

text \<open>The packed memory map entry: \<^verbatim>\<open>size\<close> at 0, \<^verbatim>\<open>addr\<close> at 4, \<^verbatim>\<open>len\<close> at 12, \<^verbatim>\<open>type\<close> at 20.\<close>

record multiboot_mmap_entry =
  entry_size :: u32
  entry_addr :: u64
  entry_len :: u64
  entry_type :: u32

definition read_mmap_entry :: "memory \<Rightarrow> u32 \<Rightarrow> multiboot_mmap_entry" where
  "read_mmap_entry m a = \<lparr>entry_size = read_u32 m a, entry_addr = read_u64 m (a + 4),
     entry_len = read_u64 m (a + 12), entry_type = read_u32 m (a + 20)\<rparr>"

record Elf32_Shdr =
  sh_name :: u32
  sh_type :: u32
  sh_flags :: u32
  sh_addr :: u32
  sh_offset :: u32
  sh_size :: u32
  sh_link :: u32
  sh_info :: u32
  sh_addralign :: u32
  sh_entsize :: u32

definition read_shdr :: "memory \<Rightarrow> u32 \<Rightarrow> Elf32_Shdr" where
  "read_shdr m a = \<lparr>sh_name = read_u32 m a, sh_type = read_u32 m (a + 4),
     sh_flags = read_u32 m (a + 8), sh_addr = read_u32 m (a + 12), sh_offset = read_u32 m (a + 16),
     sh_size = read_u32 m (a + 20), sh_link = read_u32 m (a + 24), sh_info = read_u32 m (a + 28),
     sh_addralign = read_u32 m (a + 32), sh_entsize = read_u32 m (a + 36)\<rparr>"

subsection \<open>Iteration\<close>

partial_function (option) iterate_mmap_loop ::
    "memory \<Rightarrow> (multiboot_mmap_entry \<Rightarrow> 's \<Rightarrow> 's outcome) \<Rightarrow> u32 \<Rightarrow> u32 \<Rightarrow> 's \<Rightarrow> 's outcome option" where
  "iterate_mmap_loop m cb mmap_end mmap s =
     (if mmap < mmap_end then
        (case cb (read_mmap_entry m mmap) s of
           Done s' \<Rightarrow> iterate_mmap_loop m cb mmap_end (mmap + 4 + entry_size (read_mmap_entry m mmap)) s'
         | Fault e \<Rightarrow> Some (Fault e)
         | Diverges \<Rightarrow> None)
      else Some (Done s))"

definition iterate_mmap ::
    "memory \<Rightarrow> multiboot_info \<Rightarrow> (multiboot_mmap_entry \<Rightarrow> 's \<Rightarrow> 's outcome) \<Rightarrow> 's \<Rightarrow> 's outcome" where
  "iterate_mmap m mbt cb s =
     (if mbi_flags mbt AND MULTIBOOT_INFO_MEM_MAP \<noteq> 0 then
        outcome_of_loop (iterate_mmap_loop m cb (mmap_addr mbt + mmap_length mbt) (mmap_addr mbt) s)
      else Done s)"

fun iterate_shdr_loop ::
    "memory \<Rightarrow> u32 \<Rightarrow> (Elf32_Shdr \<Rightarrow> 's \<Rightarrow> 's) \<Rightarrow> nat \<Rightarrow> u32 \<Rightarrow> 's \<Rightarrow> 's" where
  "iterate_shdr_loop m flag_mask cb 0 esh s = s"
| "iterate_shdr_loop m flag_mask cb (Suc k) esh s =
     iterate_shdr_loop m flag_mask cb k (esh + 40)
       (if sh_flags (read_shdr m esh) AND flag_mask \<noteq> 0 then cb (read_shdr m esh) s else s)"

definition iterate_elf_section_headers ::
    "memory \<Rightarrow> multiboot_info \<Rightarrow> u32 \<Rightarrow> (Elf32_Shdr \<Rightarrow> 's \<Rightarrow> 's) \<Rightarrow> 's \<Rightarrow> 's" where
  "iterate_elf_section_headers m mbt flag_mask cb s =
     (if mbi_flags mbt AND MULTIBOOT_INFO_ELF_SHDR \<noteq> 0 then
        iterate_shdr_loop m flag_mask cb (unat (esht_num (elf_sec mbt))) (esht_addr (elf_sec mbt)) s
      else s)"

subsection \<open>Where memory and the kernel image end (\<^verbatim>\<open>src/mm.cpp\<close>)\<close>

text \<open>\<^verbatim>\<open>uintptr_t block_end = mmap->addr + mmap->len\<close> truncates the 64-bit sum to 32 bits.\<close>

definition block_end :: "multiboot_mmap_entry \<Rightarrow> u32" where
  "block_end e = ucast (entry_addr e + entry_len e)"

definition memory_end_step :: "multiboot_mmap_entry \<Rightarrow> u32 \<Rightarrow> u32" where
  "memory_end_step e memory_end =
     (if entry_type e = MULTIBOOT_MEMORY_AVAILABLE \<and> memory_end < block_end e then block_end e
      else memory_end)"

definition find_memory_end :: "memory \<Rightarrow> multiboot_info \<Rightarrow> u32 outcome" where
  "find_memory_end m mbt = iterate_mmap m mbt (\<lambda>e memory_end. Done (memory_end_step e memory_end)) 0"

definition section_end_step :: "Elf32_Shdr \<Rightarrow> u32 \<Rightarrow> u32" where
  "section_end_step esh kernel_end =
     (let section_end = sh_addr esh + sh_size esh
      in if kernel_end < section_end then section_end else kernel_end)"

definition find_kernel_static_end :: "memory \<Rightarrow> multiboot_info \<Rightarrow> u32" where
  "find_kernel_static_end m mbt =
     iterate_elf_section_headers m mbt SHF_ALLOC section_end_step 0 - KERNEL_VIRTUAL_BASE"

subsection \<open>Entries stored one after another\<close>

fun mmap_stored :: "memory \<Rightarrow> u32 \<Rightarrow> u32 \<Rightarrow> multiboot_mmap_entry list \<Rightarrow> bool" where
  "mmap_stored m a e [] \<longleftrightarrow> a = e"
| "mmap_stored m a e (x # xs) \<longleftrightarrow>
     a < e \<and> read_mmap_entry m a = x \<and> mmap_stored m (a + 4 + entry_size x) e xs"

fun outcome_fold :: "('a \<Rightarrow> 's \<Rightarrow> 's outcome) \<Rightarrow> 'a list \<Rightarrow> 's \<Rightarrow> 's outcome" where
  "outcome_fold f [] s = Done s"
| "outcome_fold f (x # xs) s = outcome_bind (f x s) (outcome_fold f xs)"

lemma outcome_fold_pure [simp]: "outcome_fold (\<lambda>x s. Done (f x s)) xs s = Done (fold f xs s)"
  by (induction xs arbitrary: s) simp_all

lemma iterate_mmap_loop_fold:
  "mmap_stored m a e es \<Longrightarrow> outcome_of_loop (iterate_mmap_loop m cb e a s) = outcome_fold cb es s"
proof (induction es arbitrary: a s)
  case Nil
  then show ?case by (subst iterate_mmap_loop.simps) simp
next
  case (Cons x xs)
  then show ?case
    by (subst iterate_mmap_loop.simps) (cases "cb x s"; simp)
qed

lemma iterate_mmap_fold:
  "mbi_flags mbt AND MULTIBOOT_INFO_MEM_MAP \<noteq> 0 \<Longrightarrow>
   mmap_stored m (mmap_addr mbt) (mmap_addr mbt + mmap_length mbt) es \<Longrightarrow>
   iterate_mmap m mbt cb s = outcome_fold cb es s"
  by (simp add: iterate_mmap_def iterate_mmap_loop_fold)

text \<open>An entry whose size field is \<open>-4\<close> is visited forever.\<close>

lemma iterate_mmap_loop_stuck:
  assumes "a < e" and "entry_size (read_mmap_entry m a) = - 4"
    and "\<And>s. \<exists>s'. cb (read_mmap_entry m a) s = Done s'"
  shows "iterate_mmap_loop m cb e a s = None"
proof -
  have "False" if ret: "iterate_mmap_loop m cb e a s = Some r" for r
  proof -
    let ?P = "\<lambda>m' cb' e' a' s r. \<not> (m' = m \<and> cb' = cb \<and> e' = e \<and> a' = a)"
    have "?P m cb e a s r"
    proof (rule iterate_mmap_loop.raw_induct [where P = ?P, OF _ ret], goal_cases)
      case (1 f m' cb' e' a' s1 r1)
      obtain s' where "cb (read_mmap_entry m a) s1 = Done s'" using assms(3) by blast
      with 1 show ?case using assms(1,2) by (auto split: if_splits) blast
    qed
    then show False by simp
  qed
  then show ?thesis by (cases "iterate_mmap_loop m cb e a s") auto
qed

definition memory_ends :: "multiboot_mmap_entry list \<Rightarrow> u32 set" where
  "memory_ends es = block_end ` {e \<in> set es. entry_type e = MULTIBOOT_MEMORY_AVAILABLE}"

lemma fold_memory_end_step:
  "fold memory_end_step es s = Max (insert s (memory_ends es))"
proof (induction es arbitrary: s)
  case (Cons e es)
  have fin: "finite (memory_ends es)" by (simp add: memory_ends_def)
  show ?case
  proof (cases "entry_type e = MULTIBOOT_MEMORY_AVAILABLE")
    case True
    then have "memory_ends (e # es) = insert (block_end e) (memory_ends es)"
      by (auto simp: memory_ends_def)
    moreover have "memory_end_step e s = max s (block_end e)"
      using True by (auto simp: memory_end_step_def max_def)
    ultimately show ?thesis
      using fin by (cases "memory_ends es = {}") (simp_all add: Cons.IH ac_simps)
  next
    case False
    then have "memory_ends (e # es) = memory_ends es" by (auto simp: memory_ends_def)
    moreover have "memory_end_step e s = s" using False by (simp add: memory_end_step_def)
    ultimately show ?thesis by (simp add: Cons.IH)
  qed
qed (simp add: memory_ends_def)

fun shdrs_stored :: "memory \<Rightarrow> u32 \<Rightarrow> Elf32_Shdr list \<Rightarrow> bool" where
  "shdrs_stored m a [] \<longleftrightarrow> True"
| "shdrs_stored m a (h # hs) \<longleftrightarrow> read_shdr m a = h \<and> shdrs_stored m (a + 40) hs"

lemma iterate_shdr_loop_fold:
  "shdrs_stored m a hs \<Longrightarrow>
   iterate_shdr_loop m flag_mask cb (length hs) a s = fold cb (filter (\<lambda>h. sh_flags h AND flag_mask \<noteq> 0) hs) s"
  by (induction hs arbitrary: a s) simp_all

lemma fold_section_end_step:
  "fold section_end_step hs s = Max (insert s ((\<lambda>h. sh_addr h + sh_size h) ` set hs))"
proof (induction hs arbitrary: s)
  case (Cons h hs)
  have "section_end_step h s = max s (sh_addr h + sh_size h)"
    by (auto simp: section_end_step_def Let_def max_def)
  then show ?case
    by (cases "hs = []") (simp_all add: Cons.IH ac_simps)
qed simp

subsection \<open>Properties\<close>

text \<open>When the boot loader's memory map is a sequence of stored entries, \<^verbatim>\<open>find_memory_end\<close> returns
  the largest 32-bit end of the available blocks. The ends are truncated, so a block that ends at
  4 GiB counts as ending at 0.\<close>

theorem find_memory_end_is_max:
  assumes "mbi_flags mbt AND MULTIBOOT_INFO_MEM_MAP \<noteq> 0"
    and "mmap_stored m (mmap_addr mbt) (mmap_addr mbt + mmap_length mbt) es"
  shows "find_memory_end m mbt = Done (Max (insert 0 (memory_ends es)))"
  by (simp add: find_memory_end_def iterate_mmap_fold [OF assms] fold_memory_end_step)

definition sample_mmap :: memory where
  "sample_mmap a = (if a = 0x1000 \<or> a = 0x1018 then 20 else if a = 0x1014 \<or> a = 0x102C then 1
     else if a = 0x100E then 0x10 else if a = 0x1020 \<or> a = 0x1028 then 1 else 0)"

definition sample_mbi :: multiboot_info where
  "sample_mbi = (read_multiboot_info (\<lambda>_. 0) 0)
     \<lparr>mbi_flags := MULTIBOOT_INFO_MEM_MAP, mmap_addr := 0x1000, mmap_length := 48\<rparr>"

lemma sample_mmap_entries:
  "read_mmap_entry sample_mmap 0x1000 = \<lparr>entry_size = 20, entry_addr = 0, entry_len = 0x100000, entry_type = 1\<rparr>"
  "read_mmap_entry sample_mmap 0x1018 =
     \<lparr>entry_size = 20, entry_addr = 0x100000000, entry_len = 0x100000000, entry_type = 1\<rparr>"
  by (simp_all add: read_mmap_entry_def read_u32_def read_u64_def sample_mmap_def)

definition sample_entries :: "multiboot_mmap_entry list" where
  "sample_entries = [\<lparr>entry_size = 20, entry_addr = 0, entry_len = 0x100000, entry_type = 1\<rparr>,
     \<lparr>entry_size = 20, entry_addr = 0x100000000, entry_len = 0x100000000, entry_type = 1\<rparr>]"

lemma sample_entries_stored: "mmap_stored sample_mmap 0x1000 0x1030 sample_entries"
  by (simp add: sample_entries_def sample_mmap_entries)

theorem find_memory_end_is_max_witness:
  "find_memory_end sample_mmap sample_mbi = Done (Max (insert 0 (memory_ends sample_entries)))"
  by (rule find_memory_end_is_max)
    (simp_all add: sample_mbi_def multiboot_flag_defs sample_entries_stored)

end
