(* ===== verification/Physical.thy ===== *)
theory Physical
  imports Multiboot
begin

text \<open>
  Models \<^verbatim>\<open>src/physical.cpp\<close>: three pools of page frames (DMA, default, high memory), each with a
  status word per frame. A pool records where its bitmap lies (\<open>bitmap_addr\<close>) and the status words
  themselves (\<open>bitmap\<close>). Reading or writing a status word outside the bitmap is the fault
  \<open>OutOfBounds\<close>; \<^verbatim>\<open>%\<close> by zero is \<open>DivideError\<close>.

  The lemmas first reduce the loops of \<^verbatim>\<open>PhysicalPool::alloc\<close> to statements on naturals
  (\<open>scan_result\<close>), then lift them to the three pools under \<open>phys_inv\<close> and to the abstract view of the
  allocator, the set of addresses of the frames in use (\<open>used_frames\<close>).
\<close>

subsection \<open>Pools\<close>

datatype pool_id = DMAPool | DefaultPool | HiMemPool

fun pool_rank :: "pool_id \<Rightarrow> nat" where
  "pool_rank DMAPool = 0"
| "pool_rank DefaultPool = 1"
| "pool_rank HiMemPool = 2"

instantiation pool_id :: linorder
begin

definition less_eq_pool_id :: "pool_id \<Rightarrow> pool_id \<Rightarrow> bool" where
  "less_eq_pool_id a b \<longleftrightarrow> pool_rank a \<le> pool_rank b"

definition less_pool_id :: "pool_id \<Rightarrow> pool_id \<Rightarrow> bool" where
  "less_pool_id a b \<longleftrightarrow> pool_rank a < pool_rank b"

instance
proof
  fix x y z :: pool_id
  show "(x < y) = (x \<le> y \<and> \<not> y \<le> x)" by (auto simp: less_eq_pool_id_def less_pool_id_def)
  show "x \<le> x" by (simp add: less_eq_pool_id_def)
  show "x \<le> y \<Longrightarrow> y \<le> z \<Longrightarrow> x \<le> z" by (simp add: less_eq_pool_id_def)
  show "x \<le> y \<Longrightarrow> y \<le> x \<Longrightarrow> x = y"
    by (cases x; cases y) (simp_all add: less_eq_pool_id_def)
  show "x \<le> y \<or> y \<le> x" by (auto simp: less_eq_pool_id_def)
qed

end

record PhysicalPool =
  base :: u32
  num_pageframes :: u32
  prev_idx :: u32
  bitmap_addr :: u32
  bitmap :: "u32 list"

definition status :: "PhysicalPool \<Rightarrow> u32 \<Rightarrow> u32 outcome" where
  "status p idx = (if unat idx < length (bitmap p) then Done (bitmap p ! unat idx) else Fault OutOfBounds)"

definition set_status :: "u32 \<Rightarrow> u32 \<Rightarrow> PhysicalPool \<Rightarrow> PhysicalPool outcome" where
  "set_status idx v p =
     (if unat idx < length (bitmap p) then Done (p\<lparr>bitmap := (bitmap p)[unat idx := v]\<rparr>)
      else Fault OutOfBounds)"

definition address_of :: "PhysicalPool \<Rightarrow> u32 \<Rightarrow> u32" where
  "address_of p idx = base p + idx * PAGE_SIZE"

definition index_of :: "PhysicalPool \<Rightarrow> u32 \<Rightarrow> u32" where
  "index_of p addr = (addr - base p) div PAGE_SIZE"

text \<open>\<^verbatim>\<open>PhysicalPool::init\<close> clears every status word of the bitmap it is given.\<close>

definition pool_init :: "u32 \<Rightarrow> u32 \<Rightarrow> u32 \<Rightarrow> PhysicalPool" where
  "pool_init physical_base n bitmap_ptr =
     \<lparr>base = physical_base, num_pageframes = n, prev_idx = 0, bitmap_addr = bitmap_ptr,
      bitmap = replicate (unat n) 0\<rparr>"

subsection \<open>\<^verbatim>\<open>PhysicalPool::alloc\<close>\<close>

text \<open>The first loop: \<^verbatim>\<open>while( (i + _prev_idx) % alignment ) ++i;\<close>. It ends at the latest when the sum
  wraps to 0.\<close>

function align_index :: "u32 \<Rightarrow> u32 \<Rightarrow> u32 \<Rightarrow> u32" where
  "align_index alignment prev i =
     (if (i + prev) mod alignment \<noteq> 0 then align_index alignment prev (i + 1) else i)"
  by pat_completeness auto
termination
proof (relation "measure (\<lambda>(a, prev, i). unat (- (i + prev)))", goal_cases)
  case (2 alignment prev i)
  then have "i + prev \<noteq> 0" by auto
  then have "- (i + prev) \<noteq> 0" by (metis neg_equal_0_iff_equal)
  then have "unat (- (i + prev) - 1) < unat (- (i + prev))"
    using unat_minus_one [of "- (i + prev)"] unat_gt_0 [of "- (i + prev)"] by linarith
  moreover have "- (i + 1 + prev) = - (i + prev) - 1" by simp
  ultimately show ?case by (simp only: in_measure prod.case)
qed simp

declare align_index.simps [simp del]

fun run_free :: "PhysicalPool \<Rightarrow> u32 \<Rightarrow> nat \<Rightarrow> u32 \<Rightarrow> bool outcome" where
  "run_free p i 0 j = Done True"
| "run_free p i (Suc k) j =
     outcome_bind (status p ((prev_idx p + i + j) mod num_pageframes p))
       (\<lambda>st. if st \<noteq> 0 then Done False else run_free p i k (j + 1))"

fun mark_run :: "u32 \<Rightarrow> nat \<Rightarrow> u32 \<Rightarrow> PhysicalPool \<Rightarrow> PhysicalPool outcome" where
  "mark_run idx 0 j p = Done p"
| "mark_run idx (Suc k) j p = outcome_bind (set_status (idx + j) 1 p) (mark_run idx k (j + 1))"

definition take_run :: "u32 \<Rightarrow> u32 \<Rightarrow> PhysicalPool \<Rightarrow> (u32 \<times> PhysicalPool) option outcome" where
  "take_run pages i p =
     (let idx = (prev_idx p + i) mod num_pageframes p
      in outcome_bind (mark_run idx (unat pages) 0 p)
           (\<lambda>p'. Done (Some (address_of p idx, p'\<lparr>prev_idx := (idx + pages) mod num_pageframes p\<rparr>))))"

partial_function (option) scan ::
    "u32 \<Rightarrow> u32 \<Rightarrow> PhysicalPool \<Rightarrow> u32 \<Rightarrow> (u32 \<times> PhysicalPool) option outcome option" where
  "scan pages alignment p i =
     (if i < num_pageframes p then
        (case run_free p i (unat pages) 0 of
           Done ok \<Rightarrow> if ok then Some (take_run pages i p) else scan pages alignment p (i + alignment)
         | Fault e \<Rightarrow> Some (Fault e)
         | Diverges \<Rightarrow> None)
      else Some (Done None))"

definition pool_try :: "u32 \<Rightarrow> u32 \<Rightarrow> PhysicalPool \<Rightarrow> (u32 \<times> PhysicalPool) option outcome" where
  "pool_try pages alignment p =
     (if alignment = 0 then Fault DivideError
      else outcome_of_loop (scan pages alignment p (align_index alignment (prev_idx p) 0)))"

text \<open>The three static pools and their fallback pointers.\<close>

record physical =
  pools :: "pool_id \<Rightarrow> PhysicalPool"
  plog :: log

fun fallback :: "pool_id \<Rightarrow> pool_id option" where
  "fallback DMAPool = None"
| "fallback DefaultPool = Some DMAPool"
| "fallback HiMemPool = Some DefaultPool"

lemma fallback_less: "fallback i = Some j \<Longrightarrow> j < i"
  by (cases i) (auto simp: less_pool_id_def)

definition set_pool :: "pool_id \<Rightarrow> PhysicalPool \<Rightarrow> physical \<Rightarrow> physical" where
  "set_pool pid p s = s\<lparr>pools := (pools s)(pid := p)\<rparr>"

function pool_alloc :: "u32 \<Rightarrow> u32 \<Rightarrow> pool_id \<Rightarrow> physical \<Rightarrow> (u32 \<times> physical) outcome" where
  "pool_alloc pages alignment pid s =
     outcome_bind (pool_try pages alignment (pools s pid))
       (\<lambda>r. case r of
          Some (addr, p') \<Rightarrow> Done (addr, set_pool pid p' s)
        | None \<Rightarrow> (case fallback pid of Some pid' \<Rightarrow> pool_alloc pages alignment pid' s | None \<Rightarrow> Done (0, s)))"
  by pat_completeness auto
termination
  by (relation "measure (\<lambda>(n, a, pid, s). pool_rank pid)") (auto dest: fallback_less simp: less_pool_id_def)

declare pool_alloc.simps [simp del]

definition log_if_zero :: "string \<Rightarrow> u32 \<times> physical \<Rightarrow> u32 \<times> physical" where
  "log_if_zero txt r = (if fst r = 0 then (fst r, (snd r)\<lparr>plog := plog (snd r) @ [Debug txt []]\<rparr>) else r)"

definition physical_alloc_dma :: "u32 \<Rightarrow> u32 \<Rightarrow> physical \<Rightarrow> (u32 \<times> physical) outcome" where
  "physical_alloc_dma pages align s = outcome_bind (pool_alloc pages align DMAPool s)
     (\<lambda>r. Done (log_if_zero (''mm::physical::alloc_dma: OUT OF MEMORY'' @ [CHR ''\<newline>'']) r))"

definition physical_alloc :: "u32 \<Rightarrow> u32 \<Rightarrow> physical \<Rightarrow> (u32 \<times> physical) outcome" where
  "physical_alloc pages align s = outcome_bind (pool_alloc pages align DefaultPool s)
     (\<lambda>r. Done (log_if_zero (''mm::physical::alloc: OUT OF MEMORY'' @ [CHR ''\<newline>'']) r))"

definition physical_alloc_himem :: "u32 \<Rightarrow> u32 \<Rightarrow> physical \<Rightarrow> (u32 \<times> physical) outcome" where
  "physical_alloc_himem pages align s = outcome_bind (pool_alloc pages align HiMemPool s)
     (\<lambda>r. Done (log_if_zero (''mm::physical::alloc_himem: OUT OF MEMORY'' @ [CHR ''\<newline>'']) r))"

subsection \<open>Releasing and reserving frames\<close>

definition pool_size :: "PhysicalPool \<Rightarrow> u32" where
  "pool_size p = num_pageframes p * PAGE_SIZE"

definition limit :: "PhysicalPool \<Rightarrow> u32" where
  "limit p = base p + pool_size p"

definition find_pool :: "physical \<Rightarrow> u32 \<Rightarrow> pool_id option" where
  "find_pool s physical_addr =
     (if physical_addr < limit (pools s DMAPool) then Some DMAPool
      else if physical_addr < limit (pools s DefaultPool) then Some DefaultPool
      else if physical_addr < limit (pools s HiMemPool) then Some HiMemPool
      else None)"

text \<open>\<^verbatim>\<open>PhysicalPool::free\<close> (and \<^verbatim>\<open>mark_free\<close>, the same body) and \<^verbatim>\<open>reserve\<close>.\<close>

definition pool_free :: "u32 \<Rightarrow> PhysicalPool \<Rightarrow> PhysicalPool outcome" where
  "pool_free addr p = set_status (index_of p addr) 0 p"

definition pool_reserve :: "u32 \<Rightarrow> PhysicalPool \<Rightarrow> PhysicalPool outcome" where
  "pool_reserve addr p = set_status (index_of p addr) 1 p"

definition in_pool :: "(u32 \<Rightarrow> PhysicalPool \<Rightarrow> PhysicalPool outcome) \<Rightarrow> u32 \<Rightarrow> physical \<Rightarrow> physical outcome" where
  "in_pool f addr s =
     (case find_pool s addr of
        None \<Rightarrow> Done s
      | Some pid \<Rightarrow> outcome_bind (f addr (pools s pid)) (\<lambda>p'. Done (set_pool pid p' s)))"

fun free_loop :: "u32 \<Rightarrow> nat \<Rightarrow> u32 \<Rightarrow> physical \<Rightarrow> physical outcome" where
  "free_loop physical_addr 0 i s = Done s"
| "free_loop physical_addr (Suc k) i s =
     outcome_bind (in_pool pool_free (physical_addr + i * PAGE_SIZE) s) (free_loop physical_addr k (i + 1))"

definition physical_free :: "u32 \<Rightarrow> u32 \<Rightarrow> physical \<Rightarrow> physical outcome" where
  "physical_free physical_addr pages s = free_loop physical_addr (unat pages) 0 s"

definition reserve :: "u32 \<Rightarrow> physical \<Rightarrow> physical outcome" where
  "reserve physical_addr s = in_pool pool_reserve physical_addr s"

partial_function (option) reserve_range_loop :: "u32 \<Rightarrow> u32 \<Rightarrow> u32 \<Rightarrow> physical \<Rightarrow> physical outcome option" where
  "reserve_range_loop physical_addr sz i s =
     (if i < sz then
        (case reserve (physical_addr + i) s of
           Done s' \<Rightarrow> reserve_range_loop physical_addr sz (i + PAGE_SIZE) s'
         | Fault e \<Rightarrow> Some (Fault e)
         | Diverges \<Rightarrow> None)
      else Some (Done s))"

definition reserve_range :: "u32 \<Rightarrow> u32 \<Rightarrow> physical \<Rightarrow> physical outcome" where
  "reserve_range physical_addr sz s = outcome_of_loop (reserve_range_loop physical_addr sz 0 s)"

subsection \<open>\<^verbatim>\<open>mm::physical::init\<close>\<close>

function align_pos :: "u32 \<Rightarrow> u32 \<Rightarrow> u32" where
  "align_pos align pos = (if pos AND align \<noteq> 0 then align_pos align (pos + 1) else pos)"
  by pat_completeness auto
termination
proof (relation "measure (\<lambda>(a, pos). unat (- pos))", goal_cases)
  case (2 align pos)
  then have "pos \<noteq> 0" by auto
  then have "- pos \<noteq> 0" by simp
  then have "unat (- pos - 1) < unat (- pos)"
    using unat_minus_one [of "- pos"] unat_gt_0 [of "- pos"] by linarith
  moreover have "- (pos + 1) = - pos - 1" by simp
  ultimately show ?case by simp
qed simp

declare align_pos.simps [simp del]

text \<open>\<^verbatim>\<open>mm::kernel_physical_to_virtual\<close> adds the kernel's virtual base.\<close>

definition kernel_physical_to_virtual :: "u32 \<Rightarrow> u32" where
  "kernel_physical_to_virtual p = p + KERNEL_VIRTUAL_BASE"

definition linear_alloc :: "u32 \<Rightarrow> u32 \<Rightarrow> u32 \<Rightarrow> u32 \<times> u32" where
  "linear_alloc sz align pos =
     (let obj_physical = align_pos align pos
      in (kernel_physical_to_virtual obj_physical, obj_physical + sz))"

definition init_pools :: "u32 \<Rightarrow> u32 \<Rightarrow> u32 \<Rightarrow> physical \<Rightarrow> physical \<times> u32" where
  "init_pools kernel_static_end kernel_dynamic_end himem_end s =
     (let dma_pool_size = (if DMA_MEMORY_LIMIT < kernel_dynamic_end then DMA_MEMORY_LIMIT else kernel_dynamic_end);
          default_pool_size = kernel_dynamic_end - dma_pool_size;
          himem_pool_size = himem_end - kernel_dynamic_end;
          dma_pool_pages = dma_pool_size div PAGE_SIZE;
          default_pool_pages = default_pool_size div PAGE_SIZE;
          himem_pool_pages = himem_pool_size div PAGE_SIZE;
          (dma_pool_bitmap, pos1) = linear_alloc (dma_pool_pages * 4) 16 kernel_static_end;
          (default_pool_bitmap, pos2) = linear_alloc (default_pool_pages * 4) 16 pos1;
          (himem_pool_bitmap, pos3) = linear_alloc (himem_pool_pages * 4) 16 pos2;
          dma_pool_start = 0;
          default_pool_start = dma_pool_start + dma_pool_size;
          himem_pool_start = default_pool_start + default_pool_size
      in (s\<lparr>pools := (\<lambda>pid. case pid of
             DMAPool \<Rightarrow> pool_init dma_pool_start dma_pool_pages dma_pool_bitmap
           | DefaultPool \<Rightarrow> pool_init default_pool_start default_pool_pages default_pool_bitmap
           | HiMemPool \<Rightarrow> pool_init himem_pool_start himem_pool_pages himem_pool_bitmap)\<rparr>, pos3))"

definition layout_messages :: "physical \<Rightarrow> log" where
  "layout_messages s =
     [Debug (''Physical memory layout:'' @ [CHR ''\<newline>'']) [],
      Debug (''  DMA memory     %x-%x'' @ [CHR ''\<newline>'']) [base (pools s DMAPool), limit (pools s DMAPool)],
      Debug (''  Default memory %x-%x'' @ [CHR ''\<newline>'']) [base (pools s DefaultPool), limit (pools s DefaultPool)],
      Debug (''  High memory    %x-%x'' @ [CHR ''\<newline>'']) [base (pools s HiMemPool), limit (pools s HiMemPool)]]"

definition reserve_entry :: "multiboot_mmap_entry \<Rightarrow> physical \<Rightarrow> physical outcome" where
  "reserve_entry e s =
     (if entry_type e AND MULTIBOOT_MEMORY_AVAILABLE = 0
      then reserve_range (ucast (entry_addr e)) (ucast (entry_len e)) s else Done s)"

definition physical_init ::
    "memory \<Rightarrow> multiboot_info \<Rightarrow> u32 \<Rightarrow> u32 \<Rightarrow> u32 \<Rightarrow> physical \<Rightarrow> physical outcome" where
  "physical_init m mbt kernel_static_end kernel_dynamic_end himem_end s =
     (if himem_end = 0 then Fault (Panic (''NO MEMORY FOUND!'' @ [CHR ''\<newline>'']))
      else
        (let (s1, static_end) = init_pools kernel_static_end kernel_dynamic_end himem_end s;
             s2 = s1\<lparr>plog := plog s1 @ layout_messages s1\<rparr>
         in outcome_bind (iterate_mmap m mbt reserve_entry s2) (reserve_range 0 static_end)))"

subsection \<open>The allocation loops on naturals\<close>

definition frames :: "PhysicalPool \<Rightarrow> nat" where
  "frames p = unat (num_pageframes p)"

definition pool_wf :: "PhysicalPool \<Rightarrow> bool" where
  "pool_wf p \<longleftrightarrow> length (bitmap p) = frames p \<and> frames p \<le> 0x100000 \<and>
     (frames p \<noteq> 0 \<longrightarrow> unat (prev_idx p) < frames p)"

text \<open>The \<open>n\<close> frames from index \<open>x\<close> on are free, counting round the end of the pool.\<close>

definition run_is_free :: "PhysicalPool \<Rightarrow> nat \<Rightarrow> nat \<Rightarrow> bool" where
  "run_is_free p x n \<longleftrightarrow> (\<forall>t<n. bitmap p ! ((x + t) mod frames p) = 0)"

definition mark_frames :: "u32 list \<Rightarrow> nat \<Rightarrow> nat \<Rightarrow> u32 list" where
  "mark_frames bm lo n = map (\<lambda>i. if lo \<le> i \<and> i < lo + n then 1 else bm ! i) [0..<length bm]"

lemma length_mark_frames [simp]: "length (mark_frames bm lo n) = length bm"
  by (simp add: mark_frames_def)

lemma nth_mark_frames [simp]:
  "i < length bm \<Longrightarrow> mark_frames bm lo n ! i = (if lo \<le> i \<and> i < lo + n then 1 else bm ! i)"
  by (simp add: mark_frames_def)

lemma mark_frames_0 [simp]: "mark_frames bm lo 0 = bm"
  by (rule nth_equalityI) auto

lemma mark_frames_Suc: "mark_frames (bm[lo := 1]) (Suc lo) n = mark_frames bm lo (Suc n)"
  by (rule nth_equalityI) (auto simp: nth_list_update)

lemma unat_ring_index:
  "unat a + unat b + unat c < 4294967296 \<Longrightarrow>
   unat ((a + b + c) mod n :: u32) = (unat a + unat b + unat c) mod unat n"
  by (simp add: unat_mod unat_u32_add)

lemma run_free_eq:
  "pool_wf p \<Longrightarrow> frames p \<noteq> 0 \<Longrightarrow> unat (prev_idx p) + unat i + unat j + k < 4294967296 \<Longrightarrow>
   run_free p i k j = Done (run_is_free p (unat (prev_idx p) + unat i + unat j) k)"
proof (induction k arbitrary: j)
  case 0
  then show ?case by (simp add: run_is_free_def)
next
  case (Suc k)
  let ?x = "unat (prev_idx p) + unat i + unat j"
  have idx: "unat ((prev_idx p + i + j) mod num_pageframes p) = ?x mod frames p"
    using Suc.prems(3) unfolding frames_def by (intro unat_ring_index) linarith
  have lt: "?x mod frames p < length (bitmap p)"
    using Suc.prems(1,2) by (simp add: pool_wf_def)
  have j1: "unat (j + 1) = Suc (unat j)"
    using Suc.prems(3) by (subst unat_u32_add) auto
  have split: "run_is_free p ?x (Suc k) \<longleftrightarrow> bitmap p ! (?x mod frames p) = 0 \<and> run_is_free p (Suc ?x) k"
    by (simp add: run_is_free_def All_less_Suc2)
  have "run_free p i k (j + 1) = Done (run_is_free p (Suc ?x) k)"
    using Suc.prems by (subst Suc.IH) (simp_all add: j1)
  then show ?case
    using lt by (simp add: status_def idx split)
qed

lemma mark_run_eq:
  "unat idx + unat j + k < 4294967296 \<Longrightarrow> length (bitmap p) \<le> 0x100000 \<Longrightarrow>
   mark_run idx k j p =
     (if k = 0 \<or> unat idx + unat j + k \<le> length (bitmap p)
      then Done (p\<lparr>bitmap := mark_frames (bitmap p) (unat idx + unat j) k\<rparr>) else Fault OutOfBounds)"
proof (induction k arbitrary: j p)
  case (Suc k)
  have ij: "unat (idx + j) = unat idx + unat j"
    using Suc.prems(1) by (intro unat_u32_add) linarith
  have j1: "unat (j + 1) = Suc (unat j)"
    using Suc.prems(1) by (subst unat_u32_add) auto
  show ?case
  proof (cases "unat idx + unat j < length (bitmap p)")
    case True
    let ?q = "p\<lparr>bitmap := (bitmap p)[unat idx + unat j := 1]\<rparr>"
    have "mark_run idx (Suc k) j p = mark_run idx k (j + 1) ?q"
      using True by (simp add: set_status_def ij)
    also have "\<dots> = (if k = 0 \<or> unat idx + unat j + Suc k \<le> length (bitmap p)
        then Done (?q\<lparr>bitmap := mark_frames (bitmap ?q) (Suc (unat idx + unat j)) k\<rparr>) else Fault OutOfBounds)"
      using Suc.prems by (subst Suc.IH) (simp_all add: j1)
    finally show ?thesis using True by (simp add: mark_frames_Suc)
  next
    case False
    then show ?thesis by (simp add: set_status_def ij)
  qed
qed simp

text \<open>What the search may answer for \<open>n\<close> pages with a stride of \<open>a\<close> from offset \<open>i\<close> on: no candidate
  run is free; the frames of a free run that does not pass the end of the pool; or a fault, because
  the free run it found passes the end.\<close>

definition taken_pool :: "PhysicalPool \<Rightarrow> nat \<Rightarrow> u32 \<Rightarrow> PhysicalPool" where
  "taken_pool p x pages = p\<lparr>bitmap := mark_frames (bitmap p) x (unat pages),
     prev_idx := (word_of_nat x + pages) mod num_pageframes p\<rparr>"

definition candidate :: "PhysicalPool \<Rightarrow> nat \<Rightarrow> nat \<Rightarrow> nat \<Rightarrow> bool" where
  "candidate p a i c \<longleftrightarrow> c < frames p \<and> (\<exists>k. c = i + k * a)"

definition scan_result ::
    "PhysicalPool \<Rightarrow> u32 \<Rightarrow> nat \<Rightarrow> nat \<Rightarrow> (u32 \<times> PhysicalPool) option outcome \<Rightarrow> bool" where
  "scan_result p pages a i r \<longleftrightarrow>
     (r = Done None \<and> (\<forall>c. candidate p a i c \<longrightarrow> \<not> run_is_free p (unat (prev_idx p) + c) (unat pages))) \<or>
     (\<exists>c x. candidate p a i c \<and> x = (unat (prev_idx p) + c) mod frames p \<and>
        run_is_free p x (unat pages) \<and>
        (if x + unat pages \<le> frames p
         then r = Done (Some (address_of p (word_of_nat x), taken_pool p x pages))
         else r = Fault OutOfBounds))"

lemma run_is_free_mod: "run_is_free p (x mod frames p) n = run_is_free p x n"
  by (simp add: run_is_free_def mod_simps)

lemma take_run_eq:
  assumes "pool_wf p" and "frames p \<noteq> 0" and "unat i < frames p" and "unat pages < 0x80000000"
  defines "x \<equiv> (unat (prev_idx p) + unat i) mod frames p"
  shows "take_run pages i p =
    (if x + unat pages \<le> frames p then Done (Some (address_of p (word_of_nat x), taken_pool p x pages))
     else Fault OutOfBounds)"
proof -
  have b: "frames p \<le> 0x100000" "unat (prev_idx p) < frames p" "length (bitmap p) = frames p"
    using assms(1,2) by (simp_all add: pool_wf_def)
  have x: "x < frames p" using assms(2) by (simp add: x_def)
  have idx: "unat ((prev_idx p + i) mod num_pageframes p) = x"
    using b assms(3) unat_ring_index [of "prev_idx p" i 0] by (simp add: x_def frames_def)
  have w: "(prev_idx p + i) mod num_pageframes p = word_of_nat x"
    unfolding idx [symmetric] by simp
  have bound: "x + unat pages < 4294967296" using b x assms(4) by linarith
  have ux: "unat (word_of_nat x :: u32) = x" using idx w by simp
  have "mark_run (word_of_nat x) (unat pages) 0 p =
      (if unat pages = 0 \<or> x + unat pages \<le> frames p
       then Done (p\<lparr>bitmap := mark_frames (bitmap p) x (unat pages)\<rparr>) else Fault OutOfBounds)"
    using b bound by (subst mark_run_eq) (simp_all add: ux)
  then show ?thesis
    using x by (auto simp: take_run_def Let_def w taken_pool_def address_of_def)
qed

lemma candidate_step:
  "i < frames p \<Longrightarrow> candidate p a i c \<longleftrightarrow> c = i \<or> candidate p a (i + a) c"
proof
  assume "i < frames p" "candidate p a i c"
  then obtain k where "c = i + k * a" "c < frames p" by (auto simp: candidate_def)
  then show "c = i \<or> candidate p a (i + a) c"
    by (cases k) (auto simp: candidate_def)
next
  assume i: "i < frames p" and c: "c = i \<or> candidate p a (i + a) c"
  from c obtain k where "c = i + k * a" "c < frames p"
  proof
    assume "c = i"
    then show ?thesis using that [of 0] i by simp
  next
    assume "candidate p a (i + a) c"
    then obtain k where "c = i + a + k * a" "c < frames p" by (auto simp: candidate_def)
    then show ?thesis using that [of "Suc k"] by simp
  qed
  then show "candidate p a i c" by (auto simp: candidate_def)
qed

lemma scan_result_step:
  assumes "i < frames p" and "\<not> run_is_free p (unat (prev_idx p) + i) (unat pages)"
    and "scan_result p pages a (i + a) r"
  shows "scan_result p pages a i r"
  using assms(3) unfolding scan_result_def candidate_step [OF assms(1)]
proof (elim disjE conjE exE, goal_cases)
  case 1
  then show ?case using assms(2) by (intro disjI1) auto
next
  case (2 c x)
  then show ?case by (intro disjI2 exI [of _ c] exI [of _ x] conjI) auto
qed

lemma scan_eq:
  assumes "pool_wf p" and "unat pages < 0x80000000" and "0 < unat a" and "unat a \<le> 0x80000000"
  shows "\<exists>r. scan pages a p i = Some r \<and> scan_result p pages (unat a) (unat i) r"
proof (induction "frames p - unat i" arbitrary: i rule: less_induct)
  case less
  have lt: "i < num_pageframes p \<longleftrightarrow> unat i < frames p" by (simp add: frames_def word_less_nat_alt)
  show ?case
  proof (cases "unat i < frames p")
    case False
    then have "scan pages a p i = Some (Done None)" by (subst scan.simps) (simp add: lt)
    moreover have "\<not> candidate p (unat a) (unat i) c" for c
      using False by (auto simp: candidate_def)
    ultimately show ?thesis by (simp add: scan_result_def)
  next
    case True
    let ?s = "unat (prev_idx p) + unat i"
    have ne: "frames p \<noteq> 0" using True by simp
    have b: "frames p \<le> 0x100000" "unat (prev_idx p) < frames p"
      using assms(1) ne by (simp_all add: pool_wf_def)
    have run: "run_free p i (unat pages) 0 = Done (run_is_free p ?s (unat pages))"
      using b True assms by (subst run_free_eq) (auto simp: ne)
    show ?thesis
    proof (cases "run_is_free p ?s (unat pages)")
      case free: True
      have "scan pages a p i = Some (take_run pages i p)"
        by (subst scan.simps) (simp add: lt True run free)
      moreover have "candidate p (unat a) (unat i) (unat i)"
        using True by (auto simp: candidate_def intro: exI [of _ 0])
      ultimately show ?thesis
        unfolding scan_result_def take_run_eq [OF assms(1) ne True assms(2)]
        using free by (auto simp: run_is_free_mod)
    next
      case busy: False
      have ia: "unat (i + a) = unat i + unat a"
        using b True assms(4) by (intro unat_u32_add) linarith
      have "frames p - unat (i + a) < frames p - unat i"
        using True assms(3) by (simp add: ia)
      from less [OF this] obtain r where r: "scan pages a p (i + a) = Some r"
        "scan_result p pages (unat a) (unat i + unat a) r" by (auto simp: ia)
      have "scan pages a p i = Some r"
        by (subst scan.simps) (simp add: lt True run busy r)
      then show ?thesis using scan_result_step [OF True busy] r(2) by blast
    qed
  qed
qed

lemma align_index_aligned: "(align_index a prev i + prev) mod a = 0"
  by (induction a prev i rule: align_index.induct) (subst align_index.simps, simp)

lemma align_index_1 [simp]: "align_index 1 prev i = i"
  by (subst align_index.simps) simp

lemma pool_try_result:
  assumes "pool_wf p" and "unat pages < 0x80000000" and "0 < unat a" and "unat a \<le> 0x80000000"
  shows "scan_result p pages (unat a) (unat (align_index a (prev_idx p) 0)) (pool_try pages a p)"
proof -
  obtain r where "scan pages a p (align_index a (prev_idx p) 0) = Some r"
    "scan_result p pages (unat a) (unat (align_index a (prev_idx p) 0)) r"
    using scan_eq [OF assms] by blast
  then show ?thesis using assms(3) by (simp add: pool_try_def unat_gt_0)
qed

lemma taken_pool_wf:
  "pool_wf p \<Longrightarrow> x < frames p \<Longrightarrow> pool_wf (taken_pool p x pages)"
proof -
  assume "pool_wf p" "x < frames p"
  moreover have "frames (taken_pool p x pages) = frames p" by (simp add: taken_pool_def frames_def)
  ultimately show ?thesis
    by (auto simp: pool_wf_def taken_pool_def unat_mod frames_def)
qed

text \<open>A successful search took a run of frames that lie in the pool and were free.\<close>

lemma pool_try_sound:
  assumes "pool_wf p" and "unat pages < 0x80000000" and "0 < unat a" and "unat a \<le> 0x80000000"
    and "pool_try pages a p = Done (Some (addr, p'))"
  obtains x where "x < frames p" and "x + unat pages \<le> frames p"
    and "\<And>i. x \<le> i \<Longrightarrow> i < x + unat pages \<Longrightarrow> bitmap p ! i = 0"
    and "addr = address_of p (word_of_nat x)" and "p' = taken_pool p x pages"
proof -
  from pool_try_result [OF assms(1-4)] assms(5) obtain c x where
    c: "candidate p (unat a) (unat (align_index a (prev_idx p) 0)) c"
    and x: "x = (unat (prev_idx p) + c) mod frames p" and free: "run_is_free p x (unat pages)"
    and r: "x + unat pages \<le> frames p" "addr = address_of p (word_of_nat x)" "p' = taken_pool p x pages"
    unfolding scan_result_def by (auto split: if_splits)
  have "x < frames p" using c by (auto simp: x candidate_def)
  moreover have "bitmap p ! i = 0" if "x \<le> i" "i < x + unat pages" for i
  proof -
    have "bitmap p ! ((x + (i - x)) mod frames p) = 0"
      using free that unfolding run_is_free_def by (metis add.commute less_diff_conv2)
    then show ?thesis using that r(1) by simp
  qed
  ultimately show ?thesis using that r by blast
qed

text \<open>With one page and no alignment every frame is a candidate.\<close>

lemma single_page_candidates:
  assumes "pool_wf p" and "f < frames p"
  obtains c where "candidate p 1 0 c" and "(unat (prev_idx p) + c) mod frames p = f"
proof -
  let ?c = "(f + frames p - unat (prev_idx p)) mod frames p"
  have "unat (prev_idx p) < frames p" using assms by (auto simp: pool_wf_def)
  then have "(unat (prev_idx p) + ?c) mod frames p = f"
    using assms(2) by (simp add: mod_simps)
  moreover have "candidate p 1 0 ?c" using assms(2) by (auto simp: candidate_def)
  ultimately show ?thesis using that by blast
qed

lemma pool_try_single:
  assumes "pool_wf p"
  shows "(pool_try 1 1 p = Done None \<and> (\<forall>f < frames p. bitmap p ! f \<noteq> 0)) \<or>
    (\<exists>x < frames p. bitmap p ! x = 0 \<and>
       pool_try 1 1 p = Done (Some (address_of p (word_of_nat x), taken_pool p x 1)))"
proof -
  have one: "run_is_free p x (Suc 0) \<longleftrightarrow> bitmap p ! (x mod frames p) = 0" for x
    by (simp add: run_is_free_def)
  have "scan_result p 1 1 0 (pool_try 1 1 p)"
    using pool_try_result [of p 1 1] assms by simp
  then show ?thesis
    unfolding scan_result_def
  proof (elim disjE exE conjE)
    assume none: "pool_try 1 1 p = Done None"
      "\<forall>c. candidate p 1 0 c \<longrightarrow> \<not> run_is_free p (unat (prev_idx p) + c) (unat (1 :: u32))"
    have "bitmap p ! f \<noteq> 0" if "f < frames p" for f
      using single_page_candidates [OF assms that] none(2) one by (metis unat_1 One_nat_def)
    then show ?thesis using none(1) by blast
  next
    fix c x
    assume "candidate p 1 0 c" "x = (unat (prev_idx p) + c) mod frames p"
      and free: "run_is_free p x (unat (1 :: u32))"
      and r: "if x + unat (1 :: u32) \<le> frames p
         then pool_try 1 1 p = Done (Some (address_of p (word_of_nat x), taken_pool p x 1))
         else pool_try 1 1 p = Fault OutOfBounds"
    then have "x < frames p" by (auto simp: candidate_def)
    then show ?thesis using free r one [of x] by (auto intro!: exI [of _ x])
  qed
qed

subsection \<open>The three pools as one range of pages\<close>

definition total_pages :: "physical \<Rightarrow> nat" where
  "total_pages s = frames (pools s DMAPool) + frames (pools s DefaultPool) + frames (pools s HiMemPool)"

fun first_page :: "physical \<Rightarrow> pool_id \<Rightarrow> nat" where
  "first_page s DMAPool = 0"
| "first_page s DefaultPool = frames (pools s DMAPool)"
| "first_page s HiMemPool = frames (pools s DMAPool) + frames (pools s DefaultPool)"

definition phys_inv :: "physical \<Rightarrow> bool" where
  "phys_inv s \<longleftrightarrow> (\<forall>pid. pool_wf (pools s pid) \<and> unat (base (pools s pid)) = 4096 * first_page s pid) \<and>
     4096 * total_pages s < 4294967296"

definition used_pages :: "physical \<Rightarrow> nat set" where
  "used_pages s = {first_page s pid + i | pid i. i < frames (pools s pid) \<and> bitmap (pools s pid) ! i \<noteq> 0}"

definition page_of :: "u32 \<Rightarrow> nat" where
  "page_of a = unat a div 4096"

lemma phys_inv_pool:
  assumes "phys_inv s"
  shows "pool_wf (pools s pid)" and "unat (base (pools s pid)) = 4096 * first_page s pid"
    and "4096 * total_pages s < 4294967296"
  using assms by (auto simp: phys_inv_def)

lemma first_page_total: "first_page s pid + frames (pools s pid) \<le> total_pages s"
  by (cases pid) (auto simp: total_pages_def)

lemma page_split:
  assumes "k < total_pages s"
  obtains pid i where "i < frames (pools s pid)" and "k = first_page s pid + i"
proof -
  consider "k < frames (pools s DMAPool)"
    | "frames (pools s DMAPool) \<le> k" "k < frames (pools s DMAPool) + frames (pools s DefaultPool)"
    | "frames (pools s DMAPool) + frames (pools s DefaultPool) \<le> k" by linarith
  then show ?thesis
  proof cases
    case 1
    then show ?thesis using that [of k DMAPool] by simp
  next
    case 2
    then show ?thesis using that [of "k - frames (pools s DMAPool)" DefaultPool] by simp
  next
    case 3
    then show ?thesis
      using that [of "k - (frames (pools s DMAPool) + frames (pools s DefaultPool))" HiMemPool] assms
      by (simp add: total_pages_def)
  qed
qed

lemma page_inj:
  "first_page s pid + i = first_page s pid' + i' \<Longrightarrow> i < frames (pools s pid) \<Longrightarrow>
   i' < frames (pools s pid') \<Longrightarrow> pid = pid' \<and> i = i'"
  by (cases pid; cases pid'; simp)

lemma mem_used_pages:
  "i < frames (pools s pid) \<Longrightarrow> first_page s pid + i \<in> used_pages s \<longleftrightarrow> bitmap (pools s pid) ! i \<noteq> 0"
  unfolding used_pages_def using page_inj by blast

lemma used_pages_less: "used_pages s \<subseteq> {..<total_pages s}"
proof
  fix k assume "k \<in> used_pages s"
  then obtain pid i where "k = first_page s pid + i" "i < frames (pools s pid)"
    by (auto simp: used_pages_def)
  then show "k \<in> {..<total_pages s}" using first_page_total [of s pid] by simp
qed

lemma used_pages_eqI:
  assumes "A \<subseteq> {..<total_pages s}"
    and "\<And>pid i. i < frames (pools s pid) \<Longrightarrow>
      first_page s pid + i \<in> A \<longleftrightarrow> bitmap (pools s pid) ! i \<noteq> 0"
  shows "used_pages s = A"
proof (intro set_eqI iffI)
  fix k assume "k \<in> used_pages s"
  then show "k \<in> A" using assms(2) by (auto simp: used_pages_def)
next
  fix k assume k: "k \<in> A"
  with assms(1) have "k < total_pages s" by auto
  then obtain pid i where "i < frames (pools s pid)" "k = first_page s pid + i"
    by (rule page_split)
  then show "k \<in> used_pages s" using assms(2) k by (auto simp: used_pages_def)
qed

text \<open>Replacing one pool by one of the same place and size keeps the layout.\<close>

lemma pools_set_pool [simp]: "pools (set_pool pid p s) pid' = (if pid' = pid then p else pools s pid')"
  by (simp add: set_pool_def)

lemma set_pool_layout:
  assumes "frames p = frames (pools s pid)"
  shows "first_page (set_pool pid p s) pid' = first_page s pid'"
    and "total_pages (set_pool pid p s) = total_pages s"
proof -
  show "first_page (set_pool pid p s) pid' = first_page s pid'"
    using assms by (cases pid'; cases pid; simp)
  show "total_pages (set_pool pid p s) = total_pages s"
    using assms by (cases pid; simp add: total_pages_def)
qed

lemma set_pool_inv:
  assumes "phys_inv s" and "frames p = frames (pools s pid)" and "base p = base (pools s pid)"
    and "pool_wf p"
  shows "phys_inv (set_pool pid p s)"
  using assms by (auto simp: phys_inv_def set_pool_layout)

lemma set_pool_used:
  assumes "frames p = frames (pools s pid)"
    and "\<And>i. i < frames p \<Longrightarrow> bitmap p ! i \<noteq> 0 \<longleftrightarrow> first_page s pid + i \<in> A"
    and "\<And>pid' i. pid' \<noteq> pid \<Longrightarrow> i < frames (pools s pid') \<Longrightarrow>
      first_page s pid' + i \<in> A \<longleftrightarrow> first_page s pid' + i \<in> used_pages s"
    and "A \<subseteq> {..<total_pages s}"
  shows "used_pages (set_pool pid p s) = A"
proof (rule used_pages_eqI)
  show "A \<subseteq> {..<total_pages (set_pool pid p s)}"
    using assms(1,4) by (simp add: set_pool_layout)
next
  fix pid' i
  assume "i < frames (pools (set_pool pid p s) pid')"
  then show "first_page (set_pool pid p s) pid' + i \<in> A \<longleftrightarrow>
      bitmap (pools (set_pool pid p s) pid') ! i \<noteq> 0"
    using assms by (cases "pid' = pid") (auto simp: set_pool_layout mem_used_pages)
qed

subsection \<open>Finding the pool of an address\<close>

lemma pool_bounds:
  assumes "phys_inv s"
  shows "unat (limit (pools s pid)) = 4096 * (first_page s pid + frames (pools s pid))"
proof -
  have b: "unat (base (pools s pid)) = 4096 * first_page s pid" "4096 * total_pages s < 4294967296"
    using assms by (auto simp: phys_inv_def)
  have le: "first_page s pid + frames (pools s pid) \<le> total_pages s" by (rule first_page_total)
  have "unat (pool_size (pools s pid)) = frames (pools s pid) * 4096"
    using b le unfolding pool_size_def PAGE_SIZE_def frames_def
    by (subst unat_u32_mult) (auto simp: frames_def)
  then show ?thesis
    using b le unfolding limit_def by (subst unat_u32_add) (auto simp: algebra_simps)
qed

lemma less_limit:
  assumes "phys_inv s"
  shows "a < limit (pools s pid) \<longleftrightarrow> page_of a < first_page s pid + frames (pools s pid)"
proof -
  have "a < limit (pools s pid) \<longleftrightarrow> unat a < (first_page s pid + frames (pools s pid)) * 4096"
    by (simp add: word_less_nat_alt pool_bounds [OF assms] mult.commute)
  also have "\<dots> \<longleftrightarrow> page_of a < first_page s pid + frames (pools s pid)"
    unfolding page_of_def by (simp add: div_less_iff_less_mult)
  finally show ?thesis .
qed

lemma find_pool_page:
  assumes "phys_inv s" and "i < frames (pools s pid)" and "page_of a = first_page s pid + i"
  shows "find_pool s a = Some pid" and "unat (index_of (pools s pid) a) = i"
proof -
  show "find_pool s a = Some pid"
    using assms(2,3) unfolding find_pool_def less_limit [OF assms(1)]
    by (cases pid) auto
  have b: "unat (base (pools s pid)) = 4096 * first_page s pid"
    using assms(1) by (simp add: phys_inv_def)
  have "base (pools s pid) \<le> a"
    using assms(3) unfolding word_le_nat_alt b page_of_def by linarith
  then have "unat (a - base (pools s pid)) = unat a - 4096 * first_page s pid"
    by (simp add: unat_sub b)
  then show "unat (index_of (pools s pid) a) = i"
    using assms(3) by (simp add: index_of_def PAGE_SIZE_def unat_div page_of_def)
qed

lemma find_pool_outside:
  "phys_inv s \<Longrightarrow> total_pages s \<le> page_of a \<Longrightarrow> find_pool s a = None"
  by (simp add: find_pool_def less_limit total_pages_def)

lemma set_status_in_pool:
  assumes "phys_inv s" and "i < frames (pools s pid)" and "page_of a = first_page s pid + i"
    and "\<And>p. f a p = set_status (index_of p a) v p"
  shows "in_pool f a s =
    Done (set_pool pid ((pools s pid)\<lparr>bitmap := (bitmap (pools s pid))[i := v]\<rparr>) s)"
  using assms(2) phys_inv_pool(1) [OF assms(1), of pid] find_pool_page [OF assms(1-3)]
  by (simp add: in_pool_def assms(4) set_status_def pool_wf_def)

text \<open>\<open>marks s A s'\<close>: the pages of \<open>A\<close> that the pools have are in use in \<open>s'\<close>, nothing else changed.\<close>

definition marks :: "physical \<Rightarrow> nat set \<Rightarrow> physical \<Rightarrow> bool" where
  "marks s A s' \<longleftrightarrow> phys_inv s' \<and> (\<forall>q. frames (pools s' q) = frames (pools s q)) \<and>
     total_pages s' = total_pages s \<and>
     used_pages s' = used_pages s \<union> (A \<inter> {..<total_pages s})"

lemma marks_trans: "marks s A s' \<Longrightarrow> marks s' B s'' \<Longrightarrow> marks s (A \<union> B) s''"
  by (auto simp: marks_def)

lemma marks_empty: "phys_inv s \<Longrightarrow> marks s {} s"
  by (simp add: marks_def)

lemma frames_bitmap_update [simp]: "frames (p\<lparr>bitmap := bm\<rparr>) = frames p"
  by (simp add: frames_def)

lemma set_bitmap_inv:
  assumes "phys_inv s" and "length bm = frames (pools s pid)"
  shows "phys_inv (set_pool pid ((pools s pid)\<lparr>bitmap := bm\<rparr>) s)"
  using assms phys_inv_pool(1) [OF assms(1), of pid]
  by (intro set_pool_inv) (auto simp: pool_wf_def)

lemma length_bitmap: "phys_inv s \<Longrightarrow> length (bitmap (pools s pid)) = frames (pools s pid)"
  by (simp add: phys_inv_def pool_wf_def)

lemma reserve_marks:
  assumes "phys_inv s"
  shows "\<exists>s'. reserve a s = Done s' \<and> marks s {page_of a} s'"
proof (cases "page_of a < total_pages s")
  case False
  then show ?thesis using assms
    by (simp add: reserve_def in_pool_def find_pool_outside marks_def)
next
  case True
  then obtain pid i where i: "i < frames (pools s pid)" "page_of a = first_page s pid + i"
    by (rule page_split)
  let ?p = "(pools s pid)\<lparr>bitmap := (bitmap (pools s pid))[i := 1]\<rparr>"
  have "reserve a s = Done (set_pool pid ?p s)"
    unfolding reserve_def by (rule set_status_in_pool [OF assms i]) (simp add: pool_reserve_def)
  moreover have "used_pages (set_pool pid ?p s) = insert (page_of a) (used_pages s)"
    using i True used_pages_less [of s] length_bitmap [OF assms, of pid]
    by (intro set_pool_used) (auto simp: nth_list_update mem_used_pages dest: page_inj split: if_splits)
  moreover have "phys_inv (set_pool pid ?p s)" "total_pages (set_pool pid ?p s) = total_pages s"
    using assms by (simp_all add: set_bitmap_inv length_bitmap set_pool_layout)
  ultimately show ?thesis using True by (auto simp: marks_def)
qed

lemma free_page:
  assumes "phys_inv s"
  shows "\<exists>s'. in_pool pool_free a s = Done s' \<and> phys_inv s' \<and> total_pages s' = total_pages s \<and>
     used_pages s' = used_pages s - {page_of a}"
proof (cases "page_of a < total_pages s")
  case False
  then have "page_of a \<notin> used_pages s" using used_pages_less [of s] by auto
  then show ?thesis using assms False by (simp add: in_pool_def find_pool_outside)
next
  case True
  then obtain pid i where i: "i < frames (pools s pid)" "page_of a = first_page s pid + i"
    by (rule page_split)
  let ?p = "(pools s pid)\<lparr>bitmap := (bitmap (pools s pid))[i := 0]\<rparr>"
  have "in_pool pool_free a s = Done (set_pool pid ?p s)"
    by (rule set_status_in_pool [OF assms i]) (simp add: pool_free_def)
  moreover have "used_pages (set_pool pid ?p s) = used_pages s - {page_of a}"
    using i True used_pages_less [of s] length_bitmap [OF assms, of pid]
    by (intro set_pool_used) (auto simp: nth_list_update mem_used_pages dest: page_inj split: if_splits)
  moreover have "phys_inv (set_pool pid ?p s)" "total_pages (set_pool pid ?p s) = total_pages s"
    using assms by (simp_all add: set_bitmap_inv length_bitmap set_pool_layout)
  ultimately show ?thesis by auto
qed

subsection \<open>Allocating and releasing runs of pages\<close>

text \<open>The pages a block of \<open>n\<close> pages from address \<open>a\<close> on has.\<close>

definition block_pages :: "u32 \<Rightarrow> nat \<Rightarrow> nat set" where
  "block_pages a n = {page_of a ..< page_of a + n}"

lemma page_of_address:
  assumes "phys_inv s" and "x < frames (pools s pid)"
  shows "page_of (address_of (pools s pid) (word_of_nat x)) = first_page s pid + x"
    and "unat (address_of (pools s pid) (word_of_nat x)) = 4096 * (first_page s pid + x)"
proof -
  have b: "unat (base (pools s pid)) = 4096 * first_page s pid" "4096 * total_pages s < 4294967296"
    using assms(1) by (auto simp: phys_inv_def)
  have le: "first_page s pid + x < total_pages s"
    using first_page_total [of s pid] assms(2) by linarith
  have x: "unat (word_of_nat x :: u32) = x"
    using b le by (intro unat_u32_of_nat) linarith
  have m: "unat (word_of_nat x * PAGE_SIZE :: u32) = x * 4096"
    using b le unfolding PAGE_SIZE_def by (subst unat_u32_mult) (auto simp: x)
  show "unat (address_of (pools s pid) (word_of_nat x)) = 4096 * (first_page s pid + x)"
    using b le unfolding address_of_def by (subst unat_u32_add) (auto simp: m)
  then show "page_of (address_of (pools s pid) (word_of_nat x)) = first_page s pid + x"
    by (simp add: page_of_def)
qed

lemma frames_taken_pool [simp]: "frames (taken_pool p x pages) = frames p"
  by (simp add: taken_pool_def frames_def)

lemma base_taken_pool [simp]: "base (taken_pool p x pages) = base p"
  by (simp add: taken_pool_def)

lemma take_pages:
  assumes "phys_inv s" and "x < frames (pools s pid)" and "x + unat pages \<le> frames (pools s pid)"
    and "\<And>i. x \<le> i \<Longrightarrow> i < x + unat pages \<Longrightarrow> bitmap (pools s pid) ! i = 0"
  defines "B \<equiv> {first_page s pid + x ..< first_page s pid + x + unat pages}"
  shows "B \<inter> used_pages s = {}"
    and "marks s B (set_pool pid (taken_pool (pools s pid) x pages) s)"
proof -
  show "B \<inter> used_pages s = {}"
  proof (rule ccontr)
    assume "B \<inter> used_pages s \<noteq> {}"
    then obtain k where k: "k \<in> B" "k \<in> used_pages s" by blast
    let ?i = "k - first_page s pid"
    have i: "x \<le> ?i" "?i < x + unat pages" "k = first_page s pid + ?i"
      using k(1) by (auto simp: B_def)
    then have "?i < frames (pools s pid)" using assms(3) by linarith
    then show False using mem_used_pages i assms(4) k(2) by metis
  qed
  let ?p = "taken_pool (pools s pid) x pages"
  have sub: "B \<subseteq> {..<total_pages s}"
    using first_page_total [of s pid] assms(3) by (auto simp: B_def)
  have nth: "bitmap ?p ! i = (if x \<le> i \<and> i < x + unat pages then 1 else bitmap (pools s pid) ! i)"
    if "i < frames (pools s pid)" for i
    using that length_bitmap [OF assms(1)] by (simp add: taken_pool_def)
  have other: "first_page s pid' + i \<notin> B" if "pid' \<noteq> pid" "i < frames (pools s pid')" for pid' i
  proof
    assume "first_page s pid' + i \<in> B"
    then have "first_page s pid' + i = first_page s pid + (first_page s pid' + i - first_page s pid)"
      "first_page s pid' + i - first_page s pid < frames (pools s pid)"
      using assms(3) by (auto simp: B_def)
    then show False using page_inj that by metis
  qed
  have "used_pages (set_pool pid ?p s) = used_pages s \<union> B"
  proof (rule set_pool_used)
    show "used_pages s \<union> B \<subseteq> {..<total_pages s}" using sub used_pages_less [of s] by simp
  next
    fix i assume "i < frames ?p"
    then show "(bitmap ?p ! i \<noteq> 0) = (first_page s pid + i \<in> used_pages s \<union> B)"
      by (auto simp: nth mem_used_pages B_def)
  qed (use other in auto)
  moreover have "phys_inv (set_pool pid ?p s)"
    using assms(1,2) phys_inv_pool(1) [OF assms(1), of pid]
    by (intro set_pool_inv) (auto intro: taken_pool_wf)
  ultimately show "marks s B (set_pool pid ?p s)"
    using sub by (auto simp: marks_def set_pool_layout)
qed

text \<open>What a call may do: report failure and leave the pools as they are, or hand out a page-aligned
  block of pages that were free, and mark exactly those.\<close>

definition allocates :: "physical \<Rightarrow> u32 \<Rightarrow> u32 \<Rightarrow> physical \<Rightarrow> bool" where
  "allocates s pages addr s' \<longleftrightarrow> unat addr = 4096 * page_of addr \<and>
     page_of addr + unat pages \<le> total_pages s \<and>
     block_pages addr (unat pages) \<inter> used_pages s = {} \<and> marks s (block_pages addr (unat pages)) s'"

lemma pool_try_allocates:
  assumes "phys_inv s" and "unat pages < 0x80000000" and "0 < unat a" and "unat a \<le> 0x80000000"
    and "pool_try pages a (pools s pid) = Done (Some (addr, p'))"
  shows "allocates s pages addr (set_pool pid p' s)"
proof -
  from assms obtain x where x: "x < frames (pools s pid)" "x + unat pages \<le> frames (pools s pid)"
    "\<And>i. x \<le> i \<Longrightarrow> i < x + unat pages \<Longrightarrow> bitmap (pools s pid) ! i = 0"
    and r: "addr = address_of (pools s pid) (word_of_nat x)" "p' = taken_pool (pools s pid) x pages"
    by (auto intro: pool_try_sound [OF phys_inv_pool(1)])
  then show ?thesis
    using page_of_address [OF assms(1) x(1)] take_pages [OF assms(1) x] first_page_total [of s pid]
    by (auto simp: allocates_def block_pages_def)
qed

lemma pool_alloc_cases:
  assumes "phys_inv s" and "unat pages < 0x80000000" and "0 < unat a" and "unat a \<le> 0x80000000"
    and "pool_alloc pages a pid s = Done (addr, s')"
  shows "addr = 0 \<and> s' = s \<or> allocates s pages addr s'"
  using assms
proof (induction pages a pid s rule: pool_alloc.induct)
  case (1 pages a pid s)
  from "1.prems"(5) obtain r where r: "pool_try pages a (pools s pid) = Done r"
    by (subst (asm) pool_alloc.simps) auto
  show ?case
  proof (cases r)
    case (Some q)
    then obtain b p' where q: "r = Some (b, p')" by (cases q) auto
    with r "1.prems"(5) have "addr = b" "s' = set_pool pid p' s"
      by (subst (asm) pool_alloc.simps; simp)+
    then show ?thesis using pool_try_allocates "1.prems" r q by blast
  next
    case None
    show ?thesis
    proof (cases "fallback pid")
      case fb: None
      then show ?thesis using "1.prems"(5) r None by (subst (asm) pool_alloc.simps) simp
    next
      case fb: (Some pid')
      have "pool_alloc pages a pid' s = Done (addr, s')"
        using "1.prems"(5) r None fb by (subst (asm) pool_alloc.simps) simp
      then show ?thesis using "1.IH" r None fb "1.prems" by blast
    qed
  qed
qed

lemma le_fallback:
  "q \<le> pid \<longleftrightarrow> q = pid \<or> (\<exists>pid'. fallback pid = Some pid' \<and> q \<le> pid')"
  by (cases pid; cases q) (simp_all add: less_eq_pool_id_def)

text \<open>A request for one page with no alignment never faults, and fails only when every frame of the
  pool and of its fallbacks is in use.\<close>

definition pool_full :: "physical \<Rightarrow> pool_id \<Rightarrow> bool" where
  "pool_full s pid \<longleftrightarrow> (\<forall>i < frames (pools s pid). first_page s pid + i \<in> used_pages s)"

definition single_result :: "physical \<Rightarrow> pool_id \<Rightarrow> (u32 \<times> physical) outcome \<Rightarrow> bool" where
  "single_result s pid r \<longleftrightarrow> (\<exists>addr s'. r = Done (addr, s') \<and>
     (if \<forall>q \<le> pid. pool_full s q then addr = 0 \<and> s' = s else allocates s 1 addr s'))"

lemma pool_alloc_some:
  "pool_try pages a (pools s pid) = Done (Some (b, p')) \<Longrightarrow>
   pool_alloc pages a pid s = Done (b, set_pool pid p' s)"
  by (subst pool_alloc.simps) simp

lemma pool_alloc_none:
  "pool_try pages a (pools s pid) = Done None \<Longrightarrow> pool_alloc pages a pid s =
     (case fallback pid of Some pid' \<Rightarrow> pool_alloc pages a pid' s | None \<Rightarrow> Done (0, s))"
  by (subst pool_alloc.simps) simp

lemma pool_alloc_single:
  assumes "phys_inv s"
  shows "single_result s pid (pool_alloc 1 1 pid s)"
proof (induction pid rule: measure_induct_rule [of pool_rank])
  case (less pid)
  from pool_try_single [OF phys_inv_pool(1) [OF assms], of pid] show ?case
  proof (elim disjE conjE exE)
    assume none: "pool_try 1 1 (pools s pid) = Done None"
      and "\<forall>f<frames (pools s pid). bitmap (pools s pid) ! f \<noteq> 0"
    then have full: "pool_full s pid" by (simp add: pool_full_def mem_used_pages)
    show ?thesis
    proof (cases "fallback pid")
      case None
      then have "q \<le> pid \<longleftrightarrow> q = pid" for q using le_fallback [of q pid] by simp
      then have "\<forall>q \<le> pid. pool_full s q" using full by simp
      then show ?thesis using None by (simp add: pool_alloc_none [OF none] single_result_def)
    next
      case (Some pid')
      have rec: "single_result s pid' (pool_alloc 1 1 pid' s)"
        using less fallback_less [OF Some] by (simp add: less_pool_id_def)
      have "q \<le> pid \<longleftrightarrow> q = pid \<or> q \<le> pid'" for q
        using le_fallback [of q pid] Some by simp
      then have "(\<forall>q \<le> pid'. pool_full s q) \<longleftrightarrow> (\<forall>q \<le> pid. pool_full s q)"
        using full by auto
      with rec show ?thesis using Some by (simp add: pool_alloc_none [OF none] single_result_def)
    qed
  next
    fix x
    assume x: "x < frames (pools s pid)" "bitmap (pools s pid) ! x = 0"
      and t: "pool_try 1 1 (pools s pid) =
      Done (Some (address_of (pools s pid) (word_of_nat x), taken_pool (pools s pid) x 1))"
    have "\<not> pool_full s pid" using x mem_used_pages by (auto simp: pool_full_def)
    then have "\<not> (\<forall>q \<le> pid. pool_full s q)" by blast
    moreover
    have "allocates s 1 (address_of (pools s pid) (word_of_nat x)) (set_pool pid (taken_pool (pools s pid) x 1) s)"
      by (rule pool_try_allocates [OF assms _ _ _ t]) simp_all
    ultimately show ?thesis by (auto simp: pool_alloc_some [OF t] single_result_def)
  qed
qed

text \<open>Freeing the pages of a block.\<close>

lemma page_of_offset:
  assumes "page_of a + k < 0x100000"
  shows "page_of (a + word_of_nat k * PAGE_SIZE) = page_of a + k"
proof -
  have k: "unat (word_of_nat k :: u32) = k"
    using assms by (intro unat_u32_of_nat) linarith
  have le: "unat a + k * 4096 < 4294967296"
    using assms unfolding page_of_def by linarith
  have "unat (word_of_nat k * PAGE_SIZE :: u32) = k * 4096"
    using le unfolding PAGE_SIZE_def by (subst unat_u32_mult) (auto simp: k)
  then have "unat (a + word_of_nat k * PAGE_SIZE) = unat a + k * 4096"
    using le by (subst unat_u32_add) auto
  then show ?thesis by (simp add: page_of_def)
qed

lemma free_loop_pages:
  assumes "phys_inv s" and "page_of a + i + k \<le> total_pages s"
  shows "\<exists>s'. free_loop a k (word_of_nat i) s = Done s' \<and> phys_inv s' \<and>
    total_pages s' = total_pages s \<and> used_pages s' = used_pages s - {page_of a + i ..< page_of a + i + k}"
  using assms
proof (induction k arbitrary: i s)
  case (Suc k)
  have "page_of a + i < 0x100000"
    using Suc.prems phys_inv_pool(3) [OF Suc.prems(1)] by linarith
  then have p: "page_of (a + word_of_nat i * PAGE_SIZE) = page_of a + i" by (rule page_of_offset)
  obtain s1 where s1: "in_pool pool_free (a + word_of_nat i * PAGE_SIZE) s = Done s1" "phys_inv s1"
    "total_pages s1 = total_pages s" "used_pages s1 = used_pages s - {page_of a + i}"
    using free_page [OF Suc.prems(1), of "a + word_of_nat i * PAGE_SIZE"] p by auto
  have "\<exists>s'. free_loop a k (word_of_nat (Suc i)) s1 = Done s' \<and> phys_inv s' \<and>
      total_pages s' = total_pages s1 \<and>
      used_pages s' = used_pages s1 - {page_of a + Suc i ..< page_of a + Suc i + k}"
    using Suc.prems(2) s1(3) by (intro Suc.IH s1(2)) simp
  then obtain s2 where s2: "free_loop a k (word_of_nat (Suc i)) s1 = Done s2" "phys_inv s2"
    "total_pages s2 = total_pages s" "used_pages s2 = used_pages s1 - {page_of a + Suc i ..< page_of a + Suc i + k}"
    using s1(3) by auto
  have "used_pages s2 = used_pages s - {page_of a + i ..< page_of a + i + Suc k}"
    unfolding s2(4) s1(4) by auto
  moreover have "free_loop a (Suc k) (word_of_nat i) s = Done s2"
    using s1(1) s2(1) by (simp add: add.commute)
  ultimately show ?case using s2 by blast
qed simp

lemma physical_free_pages:
  assumes "phys_inv s" and "page_of a + unat pages \<le> total_pages s"
  shows "\<exists>s'. physical_free a pages s = Done s' \<and> phys_inv s' \<and> total_pages s' = total_pages s \<and>
    used_pages s' = used_pages s - block_pages a (unat pages)"
  using free_loop_pages [of s a 0 "unat pages"] assms
  by (simp add: physical_free_def block_pages_def)

subsection \<open>Reserving a range\<close>

text \<open>The pages \<^verbatim>\<open>reserve_range\<close> touches: those of the addresses \<open>addr\<close>, \<open>addr + 4096\<close>, \<dots> that
  lie less than \<open>sz\<close> bytes after \<open>addr\<close>.\<close>

definition range_pages :: "u32 \<Rightarrow> nat \<Rightarrow> u32 \<Rightarrow> nat set" where
  "range_pages addr i sz = {page_of (addr + word_of_nat (4096 * k)) | k. i \<le> k \<and> 4096 * k < unat sz}"

lemma range_pages_step:
  "4096 * i < unat sz \<Longrightarrow>
   range_pages addr i sz = insert (page_of (addr + word_of_nat (4096 * i))) (range_pages addr (Suc i) sz)"
  unfolding range_pages_def by (auto simp: Suc_le_eq order_le_less)

lemma range_pages_empty: "\<not> 4096 * i < unat sz \<Longrightarrow> range_pages addr i sz = {}"
  by (auto simp: range_pages_def)

lemma reserve_range_loop_marks:
  assumes "unat sz \<le> 0xFFFFF000" and "phys_inv s" and "4096 * i < 4294967296"
  shows "\<exists>s'. reserve_range_loop addr sz (word_of_nat (4096 * i)) s = Some (Done s') \<and>
    marks s (range_pages addr i sz) s'"
  using assms
proof (induction "unat sz - 4096 * i" arbitrary: i s rule: less_induct)
  case less
  have i: "unat (word_of_nat (4096 * i) :: u32) = 4096 * i"
    using less.prems(3) by (rule unat_u32_of_nat)
  show ?case
  proof (cases "4096 * i < unat sz")
    case False
    then have "reserve_range_loop addr sz (word_of_nat (4096 * i)) s = Some (Done s)"
      by (subst reserve_range_loop.simps) (simp add: word_less_nat_alt i del: of_nat_mult)
    then show ?thesis
      using marks_empty [OF less.prems(2)] by (simp add: range_pages_empty [OF False] del: of_nat_mult)
  next
    case True
    obtain s1 where s1: "reserve (addr + word_of_nat (4096 * i)) s = Done s1"
      "marks s {page_of (addr + word_of_nat (4096 * i))} s1"
      using reserve_marks [OF less.prems(2)] by blast
    have next_i: "(word_of_nat (4096 * i) :: u32) + PAGE_SIZE = word_of_nat (4096 * Suc i)"
      by (simp add: PAGE_SIZE_def)
    have "i < 1048575" using True less.prems(1) by linarith
    then have "4096 * Suc i < 4294967296" by simp
    moreover have "unat sz - 4096 * Suc i < unat sz - 4096 * i"
      using True by (intro diff_less_mono2) simp_all
    moreover have "phys_inv s1" using s1(2) by (simp add: marks_def)
    ultimately obtain s2 where s2:
      "reserve_range_loop addr sz (word_of_nat (4096 * Suc i)) s1 = Some (Done s2)"
      "marks s1 (range_pages addr (Suc i) sz) s2"
      using less.hyps less.prems(1) by blast
    have "reserve_range_loop addr sz (word_of_nat (4096 * i)) s = Some (Done s2)"
      using True s1(1) s2(1) unfolding next_i [symmetric]
      by (subst reserve_range_loop.simps) (simp add: word_less_nat_alt i del: of_nat_mult)
    then show ?thesis
      using marks_trans [OF s1(2) s2(2)] by (simp add: range_pages_step [OF True] del: of_nat_mult)
  qed
qed

lemma reserve_range_marks:
  "unat sz \<le> 0xFFFFF000 \<Longrightarrow> phys_inv s \<Longrightarrow>
   \<exists>s'. reserve_range addr sz s = Done s' \<and> marks s (range_pages addr 0 sz) s'"
  using reserve_range_loop_marks [of sz s 0 addr] by (auto simp: reserve_range_def)

lemma reserve_range_loop_diverges:
  assumes "phys_inv s" and "0xFFFFF000 < unat sz"
  shows "reserve_range_loop addr sz 0 s = None"
proof -
  let ?P = "\<lambda>(a :: u32) (n :: u32) (i :: u32) (s :: physical) (r :: physical outcome).
     n = sz \<longrightarrow> phys_inv s \<longrightarrow> (\<exists>k. i = word_of_nat (4096 * k)) \<longrightarrow> False"
  have less: "(word_of_nat (4096 * k) :: u32) < sz" for k
  proof -
    have "4096 * k mod 4294967296 = 4096 * (k mod 1048576)" by (simp add: mult_mod_right)
    moreover have "k mod 1048576 \<le> 1048575" by (simp add: less_Suc_eq_le [symmetric])
    ultimately have "4096 * k mod 4294967296 \<le> 0xFFFFF000" by linarith
    then show ?thesis using assms(2)
      by (simp add: word_less_nat_alt unat_of_nat del: of_nat_mult)
  qed
  have "False" if ret: "reserve_range_loop addr sz 0 s = Some r" for r
  proof -
    have "?P addr sz 0 s r"
    proof (rule reserve_range_loop.raw_induct [where P = ?P, OF _ ret], intro impI, goal_cases)
      case (1 f a n i s1 r1)
      then obtain k where k: "i = word_of_nat (4096 * k)" by blast
      obtain s2 where s2: "reserve (a + i) s1 = Done s2" "phys_inv s2"
        using reserve_marks [OF 1(4), of "a + i"] by (auto simp: marks_def)
      have "i + PAGE_SIZE = word_of_nat (4096 * Suc k)" by (simp add: k PAGE_SIZE_def)
      then have "\<exists>k. i + PAGE_SIZE = word_of_nat (4096 * k)" by blast
      moreover have "f a n (i + PAGE_SIZE) s2 = Some r1"
        using 1(2,3) less [of k] s2(1) by (simp add: k del: of_nat_mult)
      ultimately show False using 1(1) s2(2) 1(3) by blast
    qed
    moreover have "\<exists>k. (0 :: u32) = word_of_nat (4096 * k)" by (intro exI [of _ 0]) simp
    ultimately show False using assms(1) by blast
  qed
  then show ?thesis by (cases "reserve_range_loop addr sz 0 s") auto
qed

subsection \<open>Initialisation\<close>

lemma phys_inv_plog [simp]: "phys_inv (s\<lparr>plog := l\<rparr>) = phys_inv s"
proof -
  have "first_page (s\<lparr>plog := l\<rparr>) pid = first_page s pid" for pid by (cases pid) auto
  then show ?thesis by (simp add: phys_inv_def total_pages_def)
qed

lemma used_pages_plog [simp]: "used_pages (s\<lparr>plog := l\<rparr>) = used_pages s"
proof -
  have "first_page (s\<lparr>plog := l\<rparr>) pid = first_page s pid" for pid by (cases pid) auto
  then show ?thesis by (simp add: used_pages_def)
qed

lemma total_pages_plog [simp]: "total_pages (s\<lparr>plog := l\<rparr>) = total_pages s"
  by (simp add: total_pages_def)

lemma marks_plog [simp]: "marks s A (s'\<lparr>plog := l\<rparr>) = marks s A s'"
  by (simp add: marks_def)

lemma pool_init_facts [simp]:
  "frames (pool_init b n p) = unat n" "base (pool_init b n p) = b"
  "bitmap (pool_init b n p) = replicate (unat n) 0" "bitmap_addr (pool_init b n p) = p"
  by (simp_all add: pool_init_def frames_def)

lemma pool_init_wf: "unat n \<le> 0x100000 \<Longrightarrow> pool_wf (pool_init b n p)"
  by (simp add: pool_wf_def) (simp add: pool_init_def)

lemma div_page_le: "unat (x div PAGE_SIZE) \<le> 0x100000"
proof -
  have "unat x div 4096 \<le> 0x100000" using unat_u32_less [of x] by linarith
  then show ?thesis by (simp add: unat_div PAGE_SIZE_def)
qed

lemma range_pages_from_0: "range_pages 0 0 sz = {k. 4096 * k < unat sz}"
proof -
  have "page_of (word_of_nat (4096 * k)) = k" if "4096 * k < unat sz" for k
  proof -
    have "4096 * k < 4294967296" using that unat_u32_less [of sz] by linarith
    then show ?thesis unfolding page_of_def by (simp add: unat_u32_of_nat del: of_nat_mult)
  qed
  then show ?thesis unfolding range_pages_def by (auto simp del: of_nat_mult) metis+
qed

text \<open>The pages the loops over the entries mark.\<close>

definition marked_pages :: "multiboot_mmap_entry list \<Rightarrow> nat set" where
  "marked_pages es = (\<Union>e \<in> {e \<in> set es. entry_type e AND MULTIBOOT_MEMORY_AVAILABLE = 0}.
     range_pages (ucast (entry_addr e)) 0 (ucast (entry_len e)))"

definition short_reserved :: "multiboot_mmap_entry list \<Rightarrow> bool" where
  "short_reserved es \<longleftrightarrow> list_all (\<lambda>e. entry_type e AND MULTIBOOT_MEMORY_AVAILABLE = 0 \<longrightarrow>
     unat (ucast (entry_len e) :: u32) \<le> 0xFFFFF000) es"

lemma reserve_entries_marks:
  "phys_inv s \<Longrightarrow> short_reserved es \<Longrightarrow>
   \<exists>s'. outcome_fold reserve_entry es s = Done s' \<and> marks s (marked_pages es) s'"
proof (induction es arbitrary: s)
  case Nil
  then show ?case by (simp add: marked_pages_def marks_def)
next
  case (Cons e es)
  let ?A = "if entry_type e AND MULTIBOOT_MEMORY_AVAILABLE = 0
     then range_pages (ucast (entry_addr e)) 0 (ucast (entry_len e)) else {}"
  have "\<exists>s1. reserve_entry e s = Done s1 \<and> marks s ?A s1"
  proof (cases "entry_type e AND MULTIBOOT_MEMORY_AVAILABLE = 0")
    case True
    then have "unat (ucast (entry_len e) :: u32) \<le> 0xFFFFF000"
      using Cons.prems(2) by (simp add: short_reserved_def)
    from reserve_range_marks [OF this Cons.prems(1)] show ?thesis
      using True by (simp add: reserve_entry_def)
  next
    case False
    then show ?thesis using marks_empty [OF Cons.prems(1)] by (simp add: reserve_entry_def)
  qed
  then obtain s1 where s1: "reserve_entry e s = Done s1" "marks s ?A s1" by blast
  then have "phys_inv s1" "short_reserved es"
    using Cons.prems(2) by (simp_all add: marks_def short_reserved_def)
  then obtain s2 where "outcome_fold reserve_entry es s1 = Done s2" "marks s1 (marked_pages es) s2"
    using Cons.IH by blast
  moreover have "marked_pages (e # es) = ?A \<union> marked_pages es"
    by (auto simp: marked_pages_def)
  ultimately show ?case using s1 marks_trans by auto
qed

text \<open>
  The pages they should mark: those of all bytes of the blocks that the memory map does not call available (type 1),
  with the 64-bit addresses and lengths of the map. An entry is \<open>regular\<close> if the code treats it so: its
  type is 1 or has bit 0 clear, it lies below 4 GiB, is not longer than the loop can count, and its last page is
  one the loop comes to, which is so if it starts at a page boundary or keeps inside the pages of
  its length.
\<close>

definition entry_pages :: "multiboot_mmap_entry \<Rightarrow> nat set" where
  "entry_pages e = {(unat (entry_addr e) + i) div 4096 | i. i < unat (entry_len e)}"

definition reserved_pages :: "multiboot_mmap_entry list \<Rightarrow> nat set" where
  "reserved_pages es = (\<Union>e \<in> {e \<in> set es. entry_type e \<noteq> MULTIBOOT_MEMORY_AVAILABLE}. entry_pages e)"

definition below_4g :: "multiboot_mmap_entry \<Rightarrow> bool" where
  "below_4g e \<longleftrightarrow> unat (entry_addr e) + unat (entry_len e) \<le> 0x100000000"

definition last_page_stepped :: "multiboot_mmap_entry \<Rightarrow> bool" where
  "last_page_stepped e \<longleftrightarrow> entry_len e = 0 \<or>
     unat (entry_addr e) mod 4096 + (unat (entry_len e) - 1) mod 4096 < 4096"

definition regular_entry :: "multiboot_mmap_entry \<Rightarrow> bool" where
  "regular_entry e \<longleftrightarrow> entry_type e = MULTIBOOT_MEMORY_AVAILABLE \<or>
     entry_type e AND MULTIBOOT_MEMORY_AVAILABLE = 0 \<and> below_4g e \<and> unat (entry_len e) \<le> 0xFFFFF000 \<and>
     last_page_stepped e"

text \<open>Pages \<open>A div 4096 + k\<close> for all \<open>4096 k\<close> below \<open>L\<close>, against the pages of the \<open>L\<close> bytes from \<open>A\<close> on.\<close>

lemma page_steps:
  fixes A L :: nat
  assumes "0 < L"
  shows "{A div 4096 + k | k. 4096 * k < L} = {(A + i) div 4096 | i. i < L} \<longleftrightarrow> A mod 4096 + (L - 1) mod 4096 < 4096"
    (is "?S = ?P \<longleftrightarrow> ?c")
proof -
  define m where "m = (L - 1) div 4096"
  define last where "last = (A mod 4096 + (L - 1) mod 4096) div 4096"
  have end_page: "(A + (L - 1)) div 4096 = A div 4096 + m + last" unfolding m_def last_def by (rule div_add1_eq)
  have S: "?S = {A div 4096 + k | k. k \<le> m}" using assms by (auto simp: m_def less_eq_div_iff_mult_less_eq)
  have P: "?P = {A div 4096 .. A div 4096 + m + last}"
  proof (intro set_eqI iffI)
    fix p assume "p \<in> ?P"
    then obtain i where i: "p = (A + i) div 4096" "i < L" by blast
    then have "A + i \<le> A + (L - 1)" by simp
    then have "p \<le> A div 4096 + m + last" unfolding i(1) end_page [symmetric] by (rule div_le_mono)
    moreover have "A div 4096 \<le> p" unfolding i(1) by (rule div_le_mono) simp
    ultimately show "p \<in> {A div 4096 .. A div 4096 + m + last}" by simp
  next
    fix p assume p: "p \<in> {A div 4096 .. A div 4096 + m + last}"
    let ?i = "if 4096 * p \<le> A then 0 else 4096 * p - A"
    have "p \<le> (A + (L - 1)) div 4096" using p unfolding end_page by simp
    then have "4096 * p \<le> A + (L - 1)" by (simp only: less_eq_div_iff_mult_less_eq [OF zero_less_numeral] mult.commute)
    then have "?i < L" using assms by auto
    moreover have "p = (A + ?i) div 4096"
    proof (cases "4096 * p \<le> A")
      case True
      then have "p \<le> A div 4096" by (simp add: less_eq_div_iff_mult_less_eq)
      then show ?thesis using p True by simp
    qed simp
    ultimately show "p \<in> ?P" by blast
  qed
  have "?S = {A div 4096 .. A div 4096 + m}"
  proof -
    have "p \<in> {A div 4096 + k | k. k \<le> m}" if "p \<in> {A div 4096 .. A div 4096 + m}" for p
      using that by (intro CollectI exI [of _ "p - A div 4096"]) auto
    then show ?thesis unfolding S by auto
  qed
  then have "?S = ?P \<longleftrightarrow> last = 0" unfolding P by auto
  then show ?thesis by (simp add: last_def div_eq_0_iff)
qed

lemma stepped_pages:
  assumes "below_4g e" and "unat (entry_len e) < 0x100000000"
  shows "range_pages (ucast (entry_addr e)) 0 (ucast (entry_len e)) =
    {unat (entry_addr e) div 4096 + k | k. 4096 * k < unat (entry_len e)}"
proof (cases "entry_len e = 0")
  case False
  let ?A = "unat (entry_addr e)" and ?L = "unat (entry_len e)"
  have "0 < ?L" using False by (simp add: unat_gt_0)
  then have le: "?A < 0x100000000" "?A + ?L \<le> 0x100000000" using assms(1) by (simp_all add: below_4g_def)
  have u: "unat (ucast (entry_addr e) :: u32) = ?A" "unat (ucast (entry_len e) :: u32) = ?L"
    using le(1) assms(2) by (simp_all add: unsigned_ucast_eq unsigned_take_bit_eq) (simp_all add: take_bit_nat_eq_self)
  have "page_of (ucast (entry_addr e) + word_of_nat (4096 * k)) = ?A div 4096 + k" if "4096 * k < ?L" for k
  proof -
    have k: "unat (word_of_nat (4096 * k) :: u32) = 4096 * k"
      using that assms(2) by (intro unat_u32_of_nat) simp
    have "unat (ucast (entry_addr e) + word_of_nat (4096 * k) :: u32) = ?A + 4096 * k"
      using that le(2) by (subst unat_u32_add) (simp_all only: u k)
    then show ?thesis by (simp add: page_of_def)
  qed
  then show ?thesis unfolding range_pages_def u by (auto simp del: of_nat_mult) metis+
qed (simp add: range_pages_def)

lemma stepped_pages_subset:
  assumes "below_4g e"
  shows "range_pages (ucast (entry_addr e)) 0 (ucast (entry_len e)) \<subseteq> entry_pages e"
proof (cases "unat (entry_len e) < 0x100000000")
  case True
  have "unat (entry_addr e) div 4096 + k = (unat (entry_addr e) + 4096 * k) div 4096" for k by simp
  then show ?thesis unfolding stepped_pages [OF assms True] entry_pages_def by blast
next
  case False
  then have "unat (entry_len e) = 0x100000000" using assms by (simp add: below_4g_def)
  then have "unat (ucast (entry_len e) :: u32) = 0"
    by (simp add: unsigned_ucast_eq unsigned_take_bit_eq take_bit_nat_def)
  then have "ucast (entry_len e) = (0 :: u32)" by (simp only: unat_eq_0)
  then show ?thesis by (simp add: range_pages_def)
qed

text \<open>The loop marks all the pages of an entry exactly when its last page is one of its steps.\<close>

lemma stepped_pages_exact:
  assumes "below_4g e" and "unat (entry_len e) < 0x100000000"
  shows "range_pages (ucast (entry_addr e)) 0 (ucast (entry_len e)) = entry_pages e \<longleftrightarrow> last_page_stepped e"
proof (cases "entry_len e = 0")
  case False
  then have L: "0 < unat (entry_len e)" by (simp add: unat_gt_0)
  then show ?thesis
    unfolding stepped_pages [OF assms] entry_pages_def last_page_stepped_def using page_steps [OF L] False by blast
qed (simp add: range_pages_def entry_pages_def last_page_stepped_def)

lemma regular_marked_pages: "list_all regular_entry es \<Longrightarrow> marked_pages es = reserved_pages es"
proof -
  assume r: "list_all regular_entry es"
  have "(entry_type e AND MULTIBOOT_MEMORY_AVAILABLE = 0) = (entry_type e \<noteq> MULTIBOOT_MEMORY_AVAILABLE)" if "e \<in> set es" for e
    using r that by (auto simp: list_all_iff regular_entry_def MULTIBOOT_MEMORY_AVAILABLE_def)
  moreover have "range_pages (ucast (entry_addr e)) 0 (ucast (entry_len e)) = entry_pages e"
    if "e \<in> set es" "entry_type e \<noteq> MULTIBOOT_MEMORY_AVAILABLE" for e
  proof -
    have "below_4g e" "unat (entry_len e) \<le> 0xFFFFF000" "last_page_stepped e"
      using r that by (auto simp: list_all_iff regular_entry_def)
    then show ?thesis using stepped_pages_exact by simp
  qed
  ultimately show ?thesis unfolding marked_pages_def reserved_pages_def by (intro SUP_cong) auto
qed

lemma marked_pages_subset:
  assumes "\<And>e. e \<in> set es \<Longrightarrow> entry_type e \<noteq> MULTIBOOT_MEMORY_AVAILABLE \<Longrightarrow> below_4g e"
  shows "marked_pages es \<subseteq> reserved_pages es"
proof -
  have "entry_type e \<noteq> MULTIBOOT_MEMORY_AVAILABLE" if "entry_type e AND MULTIBOOT_MEMORY_AVAILABLE = 0" for e
    using that by (auto simp: MULTIBOOT_MEMORY_AVAILABLE_def)
  then show ?thesis unfolding marked_pages_def reserved_pages_def using stepped_pages_subset assms by fastforce
qed

lemma regular_short:
  assumes "list_all regular_entry es"
  shows "short_reserved es"
proof -
  have "unat (ucast (entry_len e) :: u32) \<le> unat (entry_len e)" for e
    by (simp add: unsigned_ucast_eq unsigned_take_bit_eq)
  then have "unat (ucast (entry_len e) :: u32) \<le> 0xFFFFF000"
    if "e \<in> set es" "entry_type e AND MULTIBOOT_MEMORY_AVAILABLE = 0" for e
    using that assms order_trans
    by (fastforce simp: list_all_iff regular_entry_def MULTIBOOT_MEMORY_AVAILABLE_def)
  then show ?thesis by (simp add: short_reserved_def list_all_iff)
qed

lemma init_pools_inv:
  assumes "4096 dvd unat kernel_dynamic_end" and "kernel_dynamic_end \<le> himem_end"
    and "s' = fst (init_pools kernel_static_end kernel_dynamic_end himem_end s)"
  shows "phys_inv s'" and "used_pages s' = {}" and "total_pages s' = page_of himem_end"
proof -
  let ?dma = "if DMA_MEMORY_LIMIT < kernel_dynamic_end then DMA_MEMORY_LIMIT else kernel_dynamic_end"
  define d where "d = unat ?dma"
  define k where "k = unat kernel_dynamic_end"
  define h where "h = unat himem_end"
  have dk: "d \<le> k" "4096 dvd d" "k \<le> h" "4096 dvd k"
    using assms(1,2) by (auto simp: d_def k_def h_def DMA_MEMORY_LIMIT_def word_less_nat_alt word_le_nat_alt)
  have le: "?dma \<le> kernel_dynamic_end" by (auto intro: order.strict_implies_order)
  have "unat (kernel_dynamic_end - ?dma) = k - d"
    unfolding k_def d_def by (rule unat_sub [OF le])
  moreover have "unat (himem_end - kernel_dynamic_end) = h - k"
    unfolding h_def k_def by (rule unat_sub [OF assms(2)])
  ultimately have n: "unat (?dma div PAGE_SIZE) = d div 4096"
    "unat ((kernel_dynamic_end - ?dma) div PAGE_SIZE) = (k - d) div 4096"
    "unat ((himem_end - kernel_dynamic_end) div PAGE_SIZE) = (h - k) div 4096"
    by (simp_all add: unat_div PAGE_SIZE_def d_def [symmetric])
  have p0: "pools s' DMAPool = pool_init 0 (?dma div PAGE_SIZE) (bitmap_addr (pools s' DMAPool))"
    "pools s' DefaultPool = pool_init ?dma ((kernel_dynamic_end - ?dma) div PAGE_SIZE)
       (bitmap_addr (pools s' DefaultPool))"
    "pools s' HiMemPool = pool_init kernel_dynamic_end ((himem_end - kernel_dynamic_end) div PAGE_SIZE)
       (bitmap_addr (pools s' HiMemPool))"
    unfolding assms(3) init_pools_def Let_def by (simp_all add: case_prod_beta)
  obtain b1 b2 b3 where p: "pools s' DMAPool = pool_init 0 (?dma div PAGE_SIZE) b1"
    "pools s' DefaultPool = pool_init ?dma ((kernel_dynamic_end - ?dma) div PAGE_SIZE) b2"
    "pools s' HiMemPool = pool_init kernel_dynamic_end ((himem_end - kernel_dynamic_end) div PAGE_SIZE) b3"
    using p0 by blast
  have h: "h < 4294967296" by (simp add: h_def)
  have fr: "frames (pools s' DMAPool) = d div 4096" "frames (pools s' DefaultPool) = (k - d) div 4096"
    "frames (pools s' HiMemPool) = (h - k) div 4096"
    by (simp_all only: p pool_init_facts n)
  have arith: "4096 * (d div 4096) = d" "4096 * (d div 4096 + (k - d) div 4096) = k"
    "d div 4096 + (k - d) div 4096 + (h - k) div 4096 = h div 4096"
    using dk by (auto elim!: dvdE simp: right_diff_distrib' [symmetric])
  show total: "total_pages s' = page_of himem_end"
    using arith(3) by (simp add: total_pages_def fr page_of_def h_def)
  have "pool_wf (pools s' pid)" for pid
    by (cases pid) (simp_all only: p pool_init_wf [OF div_page_le])
  moreover have "unat (base (pools s' pid)) = 4096 * first_page s' pid" for pid
    using arith by (cases pid) (simp_all only: first_page.simps fr, simp_all add: p k_def d_def)
  moreover have "4096 * total_pages s' < 4294967296"
    using unat_u32_less [of himem_end] unfolding total page_of_def by linarith
  ultimately show "phys_inv s'" by (simp add: phys_inv_def)
  have "bitmap (pools s' pid) ! i = 0" if "i < frames (pools s' pid)" for pid i
    using that by (cases pid) (simp_all add: p)
  then show "used_pages s' = {}" by (auto simp: used_pages_def)
qed

lemma physical_init_marks:
  assumes "himem_end \<noteq> 0" and "kernel_dynamic_end \<le> himem_end" and "4096 dvd unat kernel_dynamic_end"
    and "mbi_flags mbt AND MULTIBOOT_INFO_MEM_MAP \<noteq> 0"
    and "mmap_stored m (mmap_addr mbt) (mmap_addr mbt + mmap_length mbt) es" and "short_reserved es"
    and "static_end = snd (init_pools kernel_static_end kernel_dynamic_end himem_end s)"
    and "static_end \<le> 0xFFFFF000"
  shows "\<exists>s'. physical_init m mbt kernel_static_end kernel_dynamic_end himem_end s = Done s' \<and>
    marks (fst (init_pools kernel_static_end kernel_dynamic_end himem_end s))
      (marked_pages es \<union> {k. 4096 * k < unat static_end}) s'"
proof -
  let ?s1 = "fst (init_pools kernel_static_end kernel_dynamic_end himem_end s)"
  let ?s2 = "?s1\<lparr>plog := plog ?s1 @ layout_messages ?s1\<rparr>"
  note inv = init_pools_inv [OF assms(3,2) refl, of kernel_static_end s]
  obtain s3 where s3: "outcome_fold reserve_entry es ?s2 = Done s3" "marks ?s2 (marked_pages es) s3"
    using reserve_entries_marks [of ?s2 es] inv(1) assms(6) by auto
  moreover obtain s4 where s4: "reserve_range 0 static_end s3 = Done s4" "marks s3 (range_pages 0 0 static_end) s4"
    using reserve_range_marks [of static_end s3 0] assms(8) s3(2) by (auto simp: marks_def word_le_nat_alt)
  ultimately have "physical_init m mbt kernel_static_end kernel_dynamic_end himem_end s = Done s4"
    using assms(1,7) by (simp add: physical_init_def case_prod_beta iterate_mmap_fold [OF assms(4,5)])
  moreover have "marks ?s2 (marked_pages es \<union> range_pages 0 0 static_end) s4"
    by (rule marks_trans [OF s3(2) s4(2)])
  ultimately show ?thesis by (simp add: marks_def range_pages_from_0)
qed

text \<open>A small machine for the examples: four DMA pages (page 0 in use), two default pages.\<close>

definition sample_physical :: physical where
  "sample_physical = \<lparr>pools = (\<lambda>pid. case pid of
       DMAPool \<Rightarrow> \<lparr>base = 0, num_pageframes = 4, prev_idx = 3, bitmap_addr = 0, bitmap = [1, 0, 0, 0]\<rparr>
     | DefaultPool \<Rightarrow> \<lparr>base = 0x4000, num_pageframes = 2, prev_idx = 1, bitmap_addr = 16, bitmap = [0, 0]\<rparr>
     | HiMemPool \<Rightarrow> \<lparr>base = 0x6000, num_pageframes = 0, prev_idx = 0, bitmap_addr = 24, bitmap = []\<rparr>),
     plog = []\<rparr>"

lemma sample_physical_inv: "phys_inv sample_physical"
proof -
  have "pool_wf (pools sample_physical pid) \<and>
      unat (base (pools sample_physical pid)) = 4096 * first_page sample_physical pid" for pid
    by (cases pid) (simp_all add: sample_physical_def pool_wf_def frames_def)
  then show ?thesis
    by (simp add: phys_inv_def total_pages_def) (simp add: sample_physical_def frames_def)
qed

lemma sample_physical_used: "0 \<in> used_pages sample_physical"
  using mem_used_pages [of 0 sample_physical DMAPool]
  by (simp add: sample_physical_def frames_def)

lemma sample_pool_try:
  "\<exists>p'. pool_try 1 1 (pools sample_physical DefaultPool) = Done (Some (0x5000, p'))"
  unfolding pool_try_def
  by (subst scan.simps) (simp add: sample_physical_def status_def take_run_def set_status_def
    address_of_def PAGE_SIZE_def)

lemma sample_physical_alloc: "\<exists>s'. physical_alloc 1 1 sample_physical = Done (0x5000, s')"
proof -
  obtain p' where "pool_try 1 1 (pools sample_physical DefaultPool) = Done (Some (0x5000, p'))"
    using sample_pool_try by blast
  then show ?thesis
    by (intro exI [of _ "set_pool DefaultPool p' sample_physical"])
      (simp add: physical_alloc_def log_if_zero_def pool_alloc_some)
qed

text \<open>
  Every outcome of an allocation. A run of \<open>n\<close> free frames of a pool starts at frame \<open>x\<close> and counts round the end
  of the pool. The allocator reports failure, hands out a run inside a pool, or faults, which needs a free run
  that passes a pool's end.
\<close>

definition free_run :: "physical \<Rightarrow> pool_id \<Rightarrow> nat \<Rightarrow> nat \<Rightarrow> bool" where
  "free_run s pid x n \<longleftrightarrow> x < frames (pools s pid) \<and>
     (\<forall>t<n. first_page s pid + (x + t) mod frames (pools s pid) \<notin> used_pages s)"

definition alloc_result :: "physical \<Rightarrow> pool_id \<Rightarrow> u32 \<Rightarrow> u32 \<Rightarrow> (u32 \<times> physical) outcome \<Rightarrow> bool" where
  "alloc_result s pid pages align r \<longleftrightarrow> (case r of
     Done (addr, s') \<Rightarrow> allocates s pages addr s' \<or>
       addr = 0 \<and> phys_inv s' \<and> used_pages s' = used_pages s \<and> total_pages s' = total_pages s \<and>
       (align = 1 \<longrightarrow> (\<forall>q\<le>pid. \<forall>x. \<not> free_run s q x (unat pages)))
   | Fault e \<Rightarrow> e = OutOfBounds \<and>
       (\<exists>q\<le>pid. \<exists>x. free_run s q x (unat pages) \<and> frames (pools s q) < x + unat pages)
   | Diverges \<Rightarrow> False)"

lemma free_run_eq: "free_run s pid x n \<longleftrightarrow> x < frames (pools s pid) \<and> run_is_free (pools s pid) x n"
proof -
  have "first_page s pid + (x + t) mod frames (pools s pid) \<notin> used_pages s \<longleftrightarrow>
      bitmap (pools s pid) ! ((x + t) mod frames (pools s pid)) = 0" if "x < frames (pools s pid)" for t
    using that by (simp add: mem_used_pages)
  then show ?thesis by (auto simp: free_run_def run_is_free_def)
qed

lemma pool_try_outcomes:
  assumes "phys_inv s" and "unat pages < 0x80000000" and "0 < unat a" and "unat a \<le> 0x80000000"
  shows "pool_try pages a (pools s pid) = Done None \<and> (a = 1 \<longrightarrow> (\<forall>x. \<not> free_run s pid x (unat pages))) \<or>
    (\<exists>b p'. pool_try pages a (pools s pid) = Done (Some (b, p'))) \<or>
    pool_try pages a (pools s pid) = Fault OutOfBounds \<and>
      (\<exists>x. free_run s pid x (unat pages) \<and> frames (pools s pid) < x + unat pages)"
proof -
  let ?p = "pools s pid"
  have wf: "pool_wf ?p" using assms(1) by (rule phys_inv_pool)
  have none: "\<not> free_run s pid x (unat pages)"
    if no: "\<forall>c. candidate ?p (unat a) (unat (align_index a (prev_idx ?p) 0)) c \<longrightarrow>
      \<not> run_is_free ?p (unat (prev_idx ?p) + c) (unat pages)" and "a = 1" for x
  proof
    assume fr: "free_run s pid x (unat pages)"
    then obtain c where c: "candidate ?p 1 0 c" "(unat (prev_idx ?p) + c) mod frames ?p = x"
      using single_page_candidates [OF wf] unfolding free_run_eq by blast
    then have "run_is_free ?p (unat (prev_idx ?p) + c) (unat pages)"
      using fr run_is_free_mod [of ?p "unat (prev_idx ?p) + c"] unfolding free_run_eq by simp
    then show False using no c(1) that(2) by simp
  qed
  have split: "free_run s pid ((unat (prev_idx ?p) + c) mod frames ?p) (unat pages)"
    if "candidate ?p (unat a) i c" "run_is_free ?p ((unat (prev_idx ?p) + c) mod frames ?p) (unat pages)" for i c
    using that by (auto simp: free_run_eq candidate_def)
  from pool_try_result [OF wf assms(2-4)] show ?thesis
    unfolding scan_result_def
  proof (elim disjE exE conjE, goal_cases)
    case 1
    then show ?thesis using none by blast
  next
    case (2 c x)
    then show ?thesis using split [of _ c] by (cases "x + unat pages \<le> frames ?p") (auto simp: not_le)
  qed
qed

lemma pool_alloc_outcomes:
  assumes "phys_inv s" and "unat pages < 0x80000000" and "0 < unat a" and "unat a \<le> 0x80000000"
  shows "alloc_result s pid pages a (pool_alloc pages a pid s)"
proof (induction pid rule: measure_induct_rule [of pool_rank])
  case (less pid)
  from pool_try_outcomes [OF assms, of pid] show ?case
  proof (elim disjE conjE exE)
    assume none: "pool_try pages a (pools s pid) = Done None"
      "a = 1 \<longrightarrow> (\<forall>x. \<not> free_run s pid x (unat pages))"
    show ?thesis
    proof (cases "fallback pid")
      case None
      then have "q \<le> pid \<longleftrightarrow> q = pid" for q using le_fallback [of q pid] by simp
      then show ?thesis using None none(2) assms(1) by (simp add: pool_alloc_none [OF none(1)] alloc_result_def)
    next
      case (Some pid')
      have "alloc_result s pid' pages a (pool_alloc pages a pid' s)"
        using less fallback_less [OF Some] by (simp add: less_pool_id_def)
      moreover have "q \<le> pid \<longleftrightarrow> q = pid \<or> q \<le> pid'" for q using le_fallback [of q pid] Some by simp
      ultimately show ?thesis
        using Some none(2) by (auto simp: pool_alloc_none [OF none(1)] alloc_result_def split: outcome.splits)
    qed
  next
    fix b p' assume "pool_try pages a (pools s pid) = Done (Some (b, p'))"
    then show ?thesis using pool_try_allocates [OF assms] by (simp add: pool_alloc_some alloc_result_def)
  next
    fix x assume "pool_try pages a (pools s pid) = Fault OutOfBounds" "free_run s pid x (unat pages)"
      "frames (pools s pid) < x + unat pages"
    then show ?thesis by (subst pool_alloc.simps) (auto simp: alloc_result_def)
  qed
qed

subsection \<open>Properties\<close>

text \<open>C4: An allocation from the default pool (with its DMA fallback) always ends, in one of three ways: it
  returns a page-aligned block of pages that were free, which are exactly the pages newly in use, so that no page is
  handed out twice; it returns 0 and changes no page, for a request without alignment only when
  neither pool has such a run of free pages; or it writes outside a bitmap, which happens only when a run of
  free frames passes the end of its pool.\<close>

theorem physical_alloc_exclusive:
  assumes "phys_inv s" and "unat pages < 0x80000000" and "0 < unat align" and "unat align \<le> 0x80000000"
  shows "case physical_alloc pages align s of
      Done (addr, s') \<Rightarrow> phys_inv s' \<and> (allocates s pages addr s' \<or>
        addr = 0 \<and> used_pages s' = used_pages s \<and>
        (align = 1 \<longrightarrow> (\<forall>q\<in>{DefaultPool, DMAPool}. \<forall>x. \<not> free_run s q x (unat pages))))
    | Fault e \<Rightarrow> e = OutOfBounds \<and> (\<exists>q\<in>{DefaultPool, DMAPool}. \<exists>x. free_run s q x (unat pages) \<and>
        frames (pools s q) < x + unat pages)
    | Diverges \<Rightarrow> False"
proof -
  have le: "q \<le> DefaultPool \<longleftrightarrow> q = DefaultPool \<or> q = DMAPool" for q by (cases q) (simp_all add: less_eq_pool_id_def)
  from pool_alloc_outcomes [OF assms, of DefaultPool] show ?thesis
  proof (cases "pool_alloc pages align DefaultPool s")
    case (Done r)
    then obtain addr s1 where a: "pool_alloc pages align DefaultPool s = Done (addr, s1)" by (cases r) simp
    have l: "allocates s pages b (s1\<lparr>plog := m\<rparr>) = allocates s pages b s1" for b m by (simp add: allocates_def)
    have "allocates s pages addr s1 \<Longrightarrow> phys_inv s1" by (simp add: allocates_def marks_def)
    then show ?thesis using pool_alloc_outcomes [OF assms, of DefaultPool] unfolding a
      by (auto simp: physical_alloc_def a log_if_zero_def alloc_result_def le l)
  qed (auto simp: physical_alloc_def alloc_result_def le)
qed

theorem physical_alloc_exclusive_witness:
  "\<exists>s'. physical_alloc 1 1 sample_physical = Done (0x5000, s') \<and> allocates sample_physical 1 0x5000 s'"
proof -
  obtain s' where a: "physical_alloc 1 1 sample_physical = Done (0x5000, s')"
    using sample_physical_alloc by blast
  have "allocates sample_physical 1 0x5000 s'"
    using physical_alloc_exclusive [OF sample_physical_inv, of 1 1] by (simp add: a)
  then show ?thesis using a by blast
qed

text \<open>A request for one page never faults and fails only when memory is full: it returns 0
  exactly when every page of the default and the DMA pool is in use (page 0 being reserved, as
  initialisation leaves it).\<close>

theorem physical_alloc_page_complete:
  assumes "phys_inv s" and "0 \<in> used_pages s"
  shows "\<exists>addr s'. physical_alloc 1 1 s = Done (addr, s') \<and>
    (addr = 0 \<longleftrightarrow> {..<frames (pools s DMAPool) + frames (pools s DefaultPool)} \<subseteq> used_pages s)"
proof -
  obtain addr s1 where a: "pool_alloc 1 1 DefaultPool s = Done (addr, s1)"
    and r: "if \<forall>q \<le> DefaultPool. pool_full s q then addr = 0 \<and> s1 = s else allocates s 1 addr s1"
    using pool_alloc_single [OF assms(1), of DefaultPool] unfolding single_result_def by blast
  have le: "q \<le> DefaultPool \<longleftrightarrow> q = DMAPool \<or> q = DefaultPool" for q
    by (cases q) (simp_all add: less_eq_pool_id_def)
  have full: "(\<forall>q \<le> DefaultPool. pool_full s q) \<longleftrightarrow>
      {..<frames (pools s DMAPool) + frames (pools s DefaultPool)} \<subseteq> used_pages s" (is "?l \<longleftrightarrow> ?r")
  proof
    assume ?l
    then have f: "i < frames (pools s DMAPool) \<Longrightarrow> i \<in> used_pages s"
      "i < frames (pools s DefaultPool) \<Longrightarrow> frames (pools s DMAPool) + i \<in> used_pages s" for i
      by (auto simp: le pool_full_def)
    show ?r
    proof
      fix k assume "k \<in> {..<frames (pools s DMAPool) + frames (pools s DefaultPool)}"
      then show "k \<in> used_pages s"
        using f(1) [of k] f(2) [of "k - frames (pools s DMAPool)"] by (cases "k < frames (pools s DMAPool)") auto
    qed
  qed (auto simp: le pool_full_def)
  have "addr \<noteq> 0" if "allocates s 1 addr s1"
  proof
    assume "addr = 0"
    with that assms(2) show False by (auto simp: allocates_def block_pages_def page_of_def)
  qed
  then have "addr = 0 \<longleftrightarrow> {..<frames (pools s DMAPool) + frames (pools s DefaultPool)} \<subseteq> used_pages s"
    using r full by (auto split: if_splits)
  then show ?thesis using a by (simp add: physical_alloc_def log_if_zero_def)
qed

theorem physical_alloc_page_complete_witness:
  "\<exists>addr s'. physical_alloc 1 1 sample_physical = Done (addr, s') \<and>
    (addr = 0 \<longleftrightarrow> {..<6} \<subseteq> used_pages sample_physical)"
proof -
  have "frames (pools sample_physical DMAPool) + frames (pools sample_physical DefaultPool) = 6"
    by (simp add: sample_physical_def frames_def)
  then show ?thesis
    using physical_alloc_page_complete [OF sample_physical_inv sample_physical_used] by simp
qed

text \<open>C27: Freeing an allocated block makes exactly its pages available again: after an allocation and
  the matching free, the pages in use are those of before.\<close>

theorem physical_free_undoes_alloc:
  assumes "phys_inv s" and "unat pages < 0x80000000" and "0 < unat align" and "unat align \<le> 0x80000000"
    and "physical_alloc pages align s = Done (addr, s1)" and "addr \<noteq> 0"
  shows "\<exists>s2. physical_free addr pages s1 = Done s2 \<and> phys_inv s2 \<and> used_pages s2 = used_pages s"
proof -
  obtain s' where s': "pool_alloc pages align DefaultPool s = Done (addr, s')" "s1 = s'"
    using assms(5,6) by (auto simp: physical_alloc_def log_if_zero_def split: if_splits)
  then have al: "allocates s pages addr s1" using pool_alloc_cases assms(1-4,6) by blast
  then have "phys_inv s1" "page_of addr + unat pages \<le> total_pages s1"
    by (auto simp: allocates_def marks_def)
  from physical_free_pages [OF this] show ?thesis
    using al by (auto simp: allocates_def marks_def block_pages_def)
qed

theorem physical_free_undoes_alloc_witness:
  "\<exists>s1 s2. physical_alloc 1 1 sample_physical = Done (0x5000, s1) \<and>
    physical_free 0x5000 1 s1 = Done s2 \<and> used_pages s2 = used_pages sample_physical"
proof -
  obtain s1 where a: "physical_alloc 1 1 sample_physical = Done (0x5000, s1)"
    using sample_physical_alloc by blast
  obtain s2 where "physical_free 0x5000 1 s1 = Done s2" "used_pages s2 = used_pages sample_physical"
    using physical_free_undoes_alloc [OF sample_physical_inv _ _ _ a] by auto
  then show ?thesis using a by blast
qed

text \<open>A free run of frames found across the end of a pool is not wrapped when it is marked: the
  allocation writes status words behind the end of the bitmap.\<close>

theorem pool_try_run_past_end_faults:
  assumes "pool_wf p" and "unat pages < 0x80000000" and "frames p \<noteq> 0"
    and "run_is_free p (unat (prev_idx p)) (unat pages)"
    and "frames p < unat (prev_idx p) + unat pages"
  shows "pool_try pages 1 p = Fault OutOfBounds"
proof -
  have b: "frames p \<le> 0x100000" "unat (prev_idx p) < frames p"
    using assms(1,3) by (simp_all add: pool_wf_def)
  have "run_free p 0 (unat pages) 0 = Done True"
    using b assms by (subst run_free_eq) auto
  moreover have "0 < num_pageframes p" using assms(3) by (simp add: word_less_nat_alt frames_def)
  moreover have "take_run pages 0 p = Fault OutOfBounds"
    using take_run_eq [OF assms(1,3) _ assms(2), of 0] assms(3,5) b by simp
  ultimately have "scan pages 1 p 0 = Some (Fault OutOfBounds)"
    by (subst scan.simps) simp
  then show ?thesis by (simp add: pool_try_def)
qed

theorem pool_try_run_past_end_faults_witness:
  "pool_try 2 1 \<lparr>base = 0, num_pageframes = 4, prev_idx = 3, bitmap_addr = 0, bitmap = [0, 0, 0, 0]\<rparr> =
     Fault OutOfBounds"
  by (rule pool_try_run_past_end_faults)
    (simp_all add: pool_wf_def frames_def run_is_free_def less_2_cases_iff)

text \<open>Reserving a range returns exactly when the range is at most \<open>0xFFFFF000\<close> bytes long; for a
  longer one the loop counter wraps around and the loop never ends.\<close>

theorem reserve_range_returns_iff:
  assumes "phys_inv s"
  shows "(\<exists>s'. reserve_range addr sz s = Done s') = (sz \<le> 0xFFFFF000)"
proof (cases "unat sz \<le> 0xFFFFF000")
  case True
  then show ?thesis
    using reserve_range_marks [OF True assms] by (auto simp: word_le_nat_alt)
next
  case False
  then show ?thesis
    using reserve_range_loop_diverges [OF assms, of sz addr] by (simp add: reserve_range_def word_le_nat_alt)
qed

theorem reserve_range_returns_iff_witness:
  "\<not> (\<exists>s'. reserve_range 0xFD000000 0xFFFFF001 sample_physical = Done s')"
  unfolding reserve_range_returns_iff [OF sample_physical_inv] by (simp add: word_le_nat_alt)

text \<open>C33: Initialising from a stored memory map of regular entries returns with the allocator's invariant
  established, all pages of memory managed, and in use exactly the pages that have a byte of a block the map does not
  call available and the pages below the end of the kernel image and the bitmaps.\<close>

theorem physical_init_reserves:
  assumes "himem_end \<noteq> 0" and "kernel_dynamic_end \<le> himem_end" and "4096 dvd unat kernel_dynamic_end"
    and "mbi_flags mbt AND MULTIBOOT_INFO_MEM_MAP \<noteq> 0"
    and "mmap_stored m (mmap_addr mbt) (mmap_addr mbt + mmap_length mbt) es" and "list_all regular_entry es"
    and "static_end = snd (init_pools kernel_static_end kernel_dynamic_end himem_end s)"
    and "static_end \<le> 0xFFFFF000"
  shows "\<exists>s'. physical_init m mbt kernel_static_end kernel_dynamic_end himem_end s = Done s' \<and>
    phys_inv s' \<and> total_pages s' = page_of himem_end \<and>
    used_pages s' = (reserved_pages es \<union> {k. 4096 * k < unat static_end}) \<inter> {..<page_of himem_end}"
proof -
  note inv = init_pools_inv [OF assms(3,2) refl, of kernel_static_end s]
  show ?thesis
    using physical_init_marks [OF assms(1-5) regular_short [OF assms(6)] assms(7,8)] inv
    by (auto simp: marks_def regular_marked_pages [OF assms(6)])
qed

text \<open>A memory map with 128 MiB, in it the ACPI tables' last pages as a reserved block that starts inside a page.\<close>

definition reserved_mmap :: memory where
  "reserved_mmap a = (if a = 0x1000 \<or> a = 0x1018 then 20 else if a = 0x100F then 8 else if a = 0x1014 then 1
     else if a = 0x101D then 0xFC else if a = 0x101E then 0xFD else if a = 0x101F then 7
     else if a = 0x1025 then 4 else if a = 0x1026 then 2 else if a = 0x102C then 2 else 0)"

definition reserved_entries :: "multiboot_mmap_entry list" where
  "reserved_entries = [\<lparr>entry_size = 20, entry_addr = 0, entry_len = 0x8000000, entry_type = 1\<rparr>,
     \<lparr>entry_size = 20, entry_addr = 0x7FDFC00, entry_len = 0x20400, entry_type = 2\<rparr>]"

lemma reserved_entries_stored: "mmap_stored reserved_mmap 0x1000 0x1030 reserved_entries"
  by (simp add: reserved_entries_def read_mmap_entry_def read_u32_def read_u64_def reserved_mmap_def)

lemma reserved_entries_regular: "list_all regular_entry reserved_entries"
  by (simp add: reserved_entries_def regular_entry_def below_4g_def last_page_stepped_def multiboot_flag_defs)

theorem physical_init_reserves_witness:
  "\<exists>s'. physical_init reserved_mmap sample_mbi 0x200000 0x4000000 0x8000000 sample_physical = Done s' \<and>
    0x7FDF \<in> used_pages s' \<and> 0x7FFF \<in> used_pages s' \<and> 0x7FDE \<notin> used_pages s' \<and> 0x21F \<in> used_pages s' \<and> 0x220 \<notin> used_pages s'"
proof -
  have e: "(0x220000 :: u32) = snd (init_pools 0x200000 0x4000000 0x8000000 sample_physical)"
    by (simp add: init_pools_def linear_alloc_def Let_def mmdef_defs align_pos.simps)
  have r: "reserved_pages reserved_entries = {0x7FDF..0x7FFF}"
  proof -
    have "{e \<in> set reserved_entries. entry_type e \<noteq> MULTIBOOT_MEMORY_AVAILABLE} = {reserved_entries ! 1}"
      by (auto simp: reserved_entries_def MULTIBOOT_MEMORY_AVAILABLE_def)
    then have "reserved_pages reserved_entries = entry_pages (reserved_entries ! 1)" by (simp add: reserved_pages_def)
    also have "\<dots> = {(0x7FDFC00 + i) div 4096 | i. i < 0x20400}" by (simp add: entry_pages_def reserved_entries_def)
    also have "\<dots> = {0x7FDF..0x7FFF}"
    proof (intro set_eqI iffI)
      fix p :: nat assume p: "p \<in> {0x7FDF..0x7FFF}"
      show "p \<in> {(0x7FDFC00 + i) div 4096 | i. i < 0x20400}"
        using p by (intro CollectI exI [of _ "4096 * p + 0xC00 - 0x7FDFC00"]) auto
    qed auto
    finally show ?thesis .
  qed
  have "page_of 0x8000000 = 0x8000" by (simp add: page_of_def)
  then show ?thesis
    using physical_init_reserves [of "0x8000000" "0x4000000" sample_mbi reserved_mmap reserved_entries "0x220000" "0x200000" sample_physical]
      reserved_entries_stored reserved_entries_regular e
    by (auto simp: r sample_mbi_def multiboot_flag_defs word_le_nat_alt)
qed

text \<open>An entry of two bytes that crosses a page boundary: its second page is not reserved. And an entry above
  4 GiB: the page at the low 32 bits of its address is reserved instead.\<close>

theorem last_page_missed:
  assumes "phys_inv s" and "2 \<notin> used_pages s" and "4 < total_pages s"
  shows "entry_pages \<lparr>entry_size = 20, entry_addr = 0x1FFF, entry_len = 2, entry_type = 2\<rparr> = {1, 2} \<and>
    (\<exists>s'. reserve_entry \<lparr>entry_size = 20, entry_addr = 0x1FFF, entry_len = 2, entry_type = 2\<rparr> s = Done s' \<and> 2 \<notin> used_pages s') \<and>
    (\<exists>s'. reserve_entry \<lparr>entry_size = 20, entry_addr = 0x100002000, entry_len = 0x1000, entry_type = 2\<rparr> s = Done s' \<and>
      2 \<in> used_pages s')"
proof (intro conjI)
  show "entry_pages \<lparr>entry_size = 20, entry_addr = 0x1FFF, entry_len = 2, entry_type = 2\<rparr> = {1, 2}"
    by (auto simp: entry_pages_def less_2_cases_iff intro: exI [of _ 0] exI [of _ 1])
  have r: "range_pages 0x1FFF 0 2 = {1}" "range_pages 0x2000 0 0x1000 = {2}"
    by (auto simp: range_pages_def page_of_def)
  obtain s1 where "reserve_range 0x1FFF 2 s = Done s1" "marks s {1} s1"
    using reserve_range_marks [of 2 s "0x1FFF"] assms(1) by (auto simp: r)
  then show "\<exists>s'. reserve_entry \<lparr>entry_size = 20, entry_addr = 0x1FFF, entry_len = 2, entry_type = 2\<rparr> s = Done s' \<and> 2 \<notin> used_pages s'"
    using assms(2) by (auto simp: reserve_entry_def MULTIBOOT_MEMORY_AVAILABLE_def marks_def)
  have c: "(0x100002000 :: u32) = 0x2000" by simp
  obtain s2 where "reserve_range 0x2000 0x1000 s = Done s2" "marks s {2} s2"
    using reserve_range_marks [of "0x1000" s "0x2000"] assms(1) by (auto simp: r)
  then show "\<exists>s'. reserve_entry \<lparr>entry_size = 20, entry_addr = 0x100002000, entry_len = 0x1000, entry_type = 2\<rparr> s = Done s' \<and>
      2 \<in> used_pages s'"
    using assms(3) by (auto simp: c reserve_entry_def MULTIBOOT_MEMORY_AVAILABLE_def marks_def)
qed

end
