(* ===== verification/Mm.thy ===== *)
theory Mm
  imports Physical
begin

text \<open>
  The page interface of \<^verbatim>\<open>src/mm.cpp\<close>: kernel-visible virtual addresses of physical page blocks.
  \<open>page_provider\<close> states what a client such as the heap relies on; it is interpreted here on
  \<^verbatim>\<open>mm::alloc_pages\<close> and \<^verbatim>\<open>mm::free_pages\<close>. \<^verbatim>\<open>mm::init\<close> is in the theory \<open>Memory_Init\<close>, after the
  components it starts.
\<close>

subsection \<open>Operations\<close>

definition mm_alloc_pages_dma :: "u32 \<Rightarrow> u32 \<Rightarrow> physical \<Rightarrow> (u32 \<times> physical) outcome" where
  "mm_alloc_pages_dma count align s =
     outcome_bind (physical_alloc_dma count align s)
       (\<lambda>(physical_addr, s'). if physical_addr \<noteq> 0 then Done (kernel_physical_to_virtual physical_addr, s')
          else Done (0, s'))"

definition mm_alloc_pages :: "u32 \<Rightarrow> u32 \<Rightarrow> physical \<Rightarrow> (u32 \<times> physical) outcome" where
  "mm_alloc_pages count align s =
     outcome_bind (physical_alloc count align s)
       (\<lambda>(physical_addr, s'). if physical_addr \<noteq> 0 then Done (kernel_physical_to_virtual physical_addr, s')
          else Done (0, s'))"

definition mm_alloc_pages_himem :: "u32 \<Rightarrow> u32 \<Rightarrow> physical \<Rightarrow> (u32 \<times> physical) outcome" where
  "mm_alloc_pages_himem count align s = physical_alloc_himem count align s"

definition kernel_virtual_to_physical :: "u32 \<Rightarrow> u32" where
  "kernel_virtual_to_physical p = p - KERNEL_VIRTUAL_BASE"

definition mm_free_pages :: "u32 \<Rightarrow> u32 \<Rightarrow> physical \<Rightarrow> physical outcome" where
  "mm_free_pages addr count s = physical_free (kernel_virtual_to_physical addr) count s"

definition calc_required_page_count :: "u32 \<Rightarrow> u32" where
  "calc_required_page_count sz = (sz + PAGE_SIZE - 1) div PAGE_SIZE"

lemma kernel_address_inverse [simp]:
  "kernel_virtual_to_physical (kernel_physical_to_virtual p) = p"
  "kernel_physical_to_virtual (kernel_virtual_to_physical p) = p"
  by (simp_all add: kernel_virtual_to_physical_def kernel_physical_to_virtual_def)

text \<open>The page count of a buffer: rounded up, except that the addition wraps for the last
  page's worth of sizes, for which it returns 0.\<close>

lemma calc_required_page_count_unat:
  "unat (calc_required_page_count sz) =
     (if unat sz \<le> 0xFFFFF000 then (unat sz + 4095) div 4096 else 0)"
proof -
  have add: "calc_required_page_count sz = (sz + 4095) div 4096"
    by (simp add: calc_required_page_count_def PAGE_SIZE_def add.commute)
  have u: "unat (sz + 4095) = (if unat sz + 4095 < 4294967296 then unat sz + 4095
      else unat sz + 4095 - 4294967296)"
    by (subst unat_plus_if') simp
  have "unat (calc_required_page_count sz) = unat (sz + 4095) div 4096"
    unfolding add by (simp add: unat_div)
  then show ?thesis
    unfolding u using unat_u32_less [of sz] by (auto simp: div_eq_0_iff simp del: unat_u32_less)
qed

subsection \<open>What a client relies on\<close>

text \<open>A block of \<open>n\<close> pages is a run of page numbers; \<open>used\<close> are the pages the provider has handed out
  or keeps from being handed out.\<close>

definition page_block :: "u32 \<Rightarrow> nat \<Rightarrow> bool" where
  "page_block a n \<longleftrightarrow> a \<noteq> 0 \<and> unat a = 4096 * page_of a \<and> page_of a + n < 0x100000"

locale page_provider =
  fixes palloc :: "u32 \<Rightarrow> 'p \<Rightarrow> (u32 \<times> 'p) outcome"
    and pfree :: "u32 \<Rightarrow> u32 \<Rightarrow> 'p \<Rightarrow> 'p outcome"
    and pinv :: "'p \<Rightarrow> bool"
    and used :: "'p \<Rightarrow> nat set"
  assumes palloc_block: "pinv p \<Longrightarrow> unat n \<le> 0x10000 \<Longrightarrow> palloc n p = Done (a, p') \<Longrightarrow>
      pinv p' \<and> (a = 0 \<and> used p' = used p \<or>
        page_block a (unat n) \<and> block_pages a (unat n) \<inter> used p = {} \<and>
        used p' = used p \<union> block_pages a (unat n))"
    and palloc_one: "pinv p \<Longrightarrow> \<exists>a p'. palloc 1 p = Done (a, p')"
    and pfree_block: "pinv p \<Longrightarrow> unat n \<le> 0x10000 \<Longrightarrow> page_block a (unat n) \<Longrightarrow>
      block_pages a (unat n) \<subseteq> used p \<Longrightarrow>
      \<exists>p'. pfree a n p = Done p' \<and> pinv p' \<and> used p' = used p - block_pages a (unat n)"
begin

text \<open>Freeing what was allocated gives the state of before, as far as used pages go.\<close>

lemma palloc_pfree:
  assumes "pinv p" and "unat n \<le> 0x10000" and "palloc n p = Done (a, p')" and "a \<noteq> 0"
  shows "\<exists>p''. pfree a n p' = Done p'' \<and> pinv p'' \<and> used p'' = used p"
proof -
  have "pinv p'" "page_block a (unat n)" "block_pages a (unat n) \<inter> used p = {}"
    "used p' = used p \<union> block_pages a (unat n)"
    using palloc_block [OF assms(1-3)] assms(4) by auto
  then show ?thesis using pfree_block [of p' n a] assms(2) by auto
qed

text \<open>Two blocks obtained one after the other share no page.\<close>

lemma palloc_twice_disjoint:
  assumes "pinv p" and "unat n \<le> 0x10000" and "palloc n p = Done (a, p')" and "a \<noteq> 0"
    and "unat k \<le> 0x10000" and "palloc k p' = Done (b, p'')" and "b \<noteq> 0"
  shows "block_pages a (unat n) \<inter> block_pages b (unat k) = {}"
  using palloc_block [OF assms(1-3)] palloc_block [OF _ assms(5,6)] assms(4,7) by blast

end

subsection \<open>\<^verbatim>\<open>mm::alloc_pages\<close> provides pages\<close>

text \<open>The kernel's invariant: page 0 stays reserved, and the DMA and default pools lie below 64 MiB,
  so that their virtual addresses do not wrap.\<close>

definition kernel_pages :: nat where "kernel_pages = 0xC0000"

definition mm_inv :: "physical \<Rightarrow> bool" where
  "mm_inv s \<longleftrightarrow> phys_inv s \<and> 0 \<in> used_pages s \<and>
     frames (pools s DMAPool) + frames (pools s DefaultPool) \<le> 0x4000"

definition mm_used :: "physical \<Rightarrow> nat set" where
  "mm_used s = (\<lambda>k. kernel_pages + k) ` (used_pages s - {0})"

lemma pool_alloc_pools:
  "pool_alloc pages a pid s = Done (addr, s') \<Longrightarrow> phys_inv s \<Longrightarrow> unat pages < 0x80000000 \<Longrightarrow>
   0 < unat a \<Longrightarrow> unat a \<le> 0x80000000 \<Longrightarrow>
   (\<forall>q. frames (pools s' q) = frames (pools s q)) \<and>
   (addr \<noteq> 0 \<longrightarrow> page_of addr + unat pages \<le> first_page s pid + frames (pools s pid))"
proof (induction pages a pid s rule: pool_alloc.induct)
  case (1 pages a pid s)
  from "1.prems"(1) obtain r where r: "pool_try pages a (pools s pid) = Done r"
    by (subst (asm) pool_alloc.simps) auto
  show ?case
  proof (cases r)
    case (Some q)
    then obtain b p' where q: "pool_try pages a (pools s pid) = Done (Some (b, p'))"
      using r by (cases q) auto
    then have eq: "addr = b" "s' = set_pool pid p' s"
      using "1.prems"(1) by (simp_all add: pool_alloc_some)
    from pool_try_sound [OF phys_inv_pool(1) [OF "1.prems"(2)] "1.prems"(3-5) q] obtain x where
      x: "x < frames (pools s pid)" "x + unat pages \<le> frames (pools s pid)"
      "b = address_of (pools s pid) (word_of_nat x)" "p' = taken_pool (pools s pid) x pages" by blast
    then show ?thesis
      using page_of_address(1) [OF "1.prems"(2) x(1)] by (auto simp: eq)
  next
    case None
    show ?thesis
    proof (cases "fallback pid")
      case fb: None
      then show ?thesis using "1.prems"(1) r None by (simp add: pool_alloc_none)
    next
      case fb: (Some pid')
      then have "first_page s pid' + frames (pools s pid') \<le> first_page s pid + frames (pools s pid)"
        by (cases pid) auto
      moreover have "pool_alloc pages a pid' s = Done (addr, s')"
        using "1.prems"(1) r None fb by (simp add: pool_alloc_none)
      ultimately show ?thesis using "1.IH" [OF fb] "1.prems"(2-5) by force
    qed
  qed
qed

lemma physical_alloc_pools:
  assumes "physical_alloc pages align s = Done (addr, s')"
  obtains s1 where "pool_alloc pages align DefaultPool s = Done (addr, s1)" and "pools s' = pools s1"
    and "used_pages s' = used_pages s1" and "phys_inv s' = phys_inv s1"
    and "total_pages s' = total_pages s1"
  using assms that by (auto simp: physical_alloc_def log_if_zero_def split: if_splits)

lemma kernel_page_of:
  assumes "page_of p < 0x40000"
  shows "page_of (kernel_physical_to_virtual p) = kernel_pages + page_of p"
    and "unat (kernel_physical_to_virtual p) = 0xC0000000 + unat p"
proof -
  have "unat p < 0x40000000" using assms unfolding page_of_def by linarith
  then show u: "unat (kernel_physical_to_virtual p) = 0xC0000000 + unat p"
    unfolding kernel_physical_to_virtual_def KERNEL_VIRTUAL_BASE_def by (subst unat_u32_add) auto
  show "page_of (kernel_physical_to_virtual p) = kernel_pages + page_of p"
    unfolding page_of_def u kernel_pages_def by simp
qed

lemma shift_block: "(\<lambda>k. c + k) ` {a ..< a + n} = {c + a ..< c + a + (n :: nat)}"
  using image_add_atLeastLessThan [of c a "a + n"] by (simp add: add.commute add.left_commute)

lemma mm_alloc_pages_block:
  assumes inv: "mm_inv s" and n: "unat n \<le> 0x10000" and run: "mm_alloc_pages n 1 s = Done (a, s')"
  shows "mm_inv s' \<and> (a = 0 \<and> mm_used s' = mm_used s \<or>
    page_block a (unat n) \<and> block_pages a (unat n) \<inter> mm_used s = {} \<and>
    mm_used s' = mm_used s \<union> block_pages a (unat n))"
proof -
  from run obtain addr where ph: "physical_alloc n 1 s = Done (addr, s')"
    and a: "a = (if addr \<noteq> 0 then kernel_physical_to_virtual addr else 0)"
    by (auto simp: mm_alloc_pages_def split: if_splits)
  from ph obtain s1 where pa: "pool_alloc n 1 DefaultPool s = Done (addr, s1)"
    and same: "pools s' = pools s1" "used_pages s' = used_pages s1" "phys_inv s' = phys_inv s1"
      "total_pages s' = total_pages s1" by (rule physical_alloc_pools)
  have P: "phys_inv s" "0 \<in> used_pages s" "frames (pools s DMAPool) + frames (pools s DefaultPool) \<le> 0x4000"
    using inv by (auto simp: mm_inv_def)
  have fr: "\<forall>q. frames (pools s1 q) = frames (pools s q)"
    and below: "addr \<noteq> 0 \<Longrightarrow> page_of addr + unat n \<le> 0x4000"
    using pool_alloc_pools [OF pa P(1)] n P(3) by auto
  have "addr = 0 \<and> s1 = s \<or> allocates s n addr s1"
    using pool_alloc_cases [OF P(1) _ _ _ pa] n by simp
  then show ?thesis
  proof
    assume "addr = 0 \<and> s1 = s"
    then show ?thesis using a P fr same by (simp add: mm_inv_def mm_used_def)
  next
    assume al: "allocates s n addr s1"
    then have used: "used_pages s1 = used_pages s \<union> block_pages addr (unat n)"
      and free: "block_pages addr (unat n) \<inter> used_pages s = {}" and i1: "phys_inv s1"
      by (auto simp: allocates_def marks_def block_pages_def)
    have inv': "mm_inv s'" using P fr same used i1 by (simp add: mm_inv_def)
    show ?thesis
    proof (cases "addr = 0")
      case True
      then have "block_pages addr (unat n) = {}" using free P(2) by (auto simp: block_pages_def page_of_def)
      then show ?thesis using True inv' a used same by (simp add: mm_used_def)
    next
      case False
      then have lt: "page_of addr + unat n \<le> 0x4000" by (rule below)
      then have page: "page_of a = kernel_pages + page_of addr" "unat a = 0xC0000000 + unat addr"
        using kernel_page_of [of addr] False a by auto
      have "unat addr = 4096 * page_of addr" using al by (simp add: allocates_def)
      then have blk: "page_block a (unat n)"
        using lt page unfolding page_block_def by (auto simp: kernel_pages_def unat_eq_0 [symmetric])
      have im: "block_pages a (unat n) = (\<lambda>k. kernel_pages + k) ` block_pages addr (unat n)"
        unfolding block_pages_def page(1) shift_block by (simp add: add.assoc)
      have nz: "0 \<notin> block_pages addr (unat n)" using free P(2) by auto
      have "block_pages a (unat n) \<inter> mm_used s = {}"
        using free unfolding im mm_used_def by auto
      moreover have "mm_used s' = mm_used s \<union> block_pages a (unat n)"
        using nz unfolding im mm_used_def same used by auto
      ultimately show ?thesis using inv' blk by blast
    qed
  qed
qed

lemma set_status_frames: "set_status i v p = Done p' \<Longrightarrow> frames p' = frames p"
  by (auto simp: set_status_def frames_def split: if_splits)

lemma free_loop_frames:
  "free_loop a k i s = Done s' \<Longrightarrow> frames (pools s' q) = frames (pools s q)"
proof (induction k arbitrary: i s)
  case (Suc k)
  then show ?case
    by (auto simp: in_pool_def pool_free_def split: option.splits dest!: set_status_frames)
qed simp

lemma mm_free_pages_block:
  assumes inv: "mm_inv s" and blk: "page_block a (unat n)" and sub: "block_pages a (unat n) \<subseteq> mm_used s"
  shows "\<exists>s'. mm_free_pages a n s = Done s' \<and> mm_inv s' \<and> mm_used s' = mm_used s - block_pages a (unat n)"
proof -
  have P: "phys_inv s" "0 \<in> used_pages s" using inv by (auto simp: mm_inv_def)
  let ?p = "kernel_virtual_to_physical a"
  have tot: "4096 * total_pages s < 4294967296" using P(1) by (simp add: phys_inv_def)
  show ?thesis
  proof (cases "unat n = 0")
    case True
    then show ?thesis using inv
      by (simp add: mm_free_pages_def physical_free_def block_pages_def)
  next
    case False
    have mem: "kernel_pages \<le> k \<and> k - kernel_pages \<in> used_pages s - {0}" if "k \<in> block_pages a (unat n)" for k
      using that sub by (auto simp: mm_used_def)
    have ge: "kernel_pages \<le> page_of a" using mem [of "page_of a"] False by (simp add: block_pages_def)
    have "KERNEL_VIRTUAL_BASE \<le> a"
      using ge blk unfolding word_le_nat_alt page_block_def kernel_pages_def KERNEL_VIRTUAL_BASE_def
      by simp
    then have "unat ?p = unat a - 0xC0000000"
      unfolding kernel_virtual_to_physical_def by (simp add: unat_sub) (simp add: KERNEL_VIRTUAL_BASE_def)
    then have pp: "page_of ?p = page_of a - kernel_pages"
      using blk ge unfolding page_block_def kernel_pages_def page_of_def by linarith
    have "page_of a + unat n - 1 \<in> block_pages a (unat n)" using False by (auto simp: block_pages_def)
    then have "page_of a + unat n - 1 - kernel_pages \<in> used_pages s" using mem by blast
    then have "page_of a + unat n - 1 - kernel_pages < total_pages s" using used_pages_less by blast
    then have "page_of ?p + unat n \<le> total_pages s" using pp ge by linarith
    from physical_free_pages [OF P(1) this] obtain s' where
      s': "physical_free ?p n s = Done s'" "phys_inv s'" "total_pages s' = total_pages s"
      "used_pages s' = used_pages s - block_pages ?p (unat n)" by blast
    have im: "block_pages a (unat n) = (\<lambda>k. kernel_pages + k) ` block_pages ?p (unat n)"
      using ge unfolding block_pages_def shift_block by (simp add: pp)
    have nz: "0 \<notin> block_pages ?p (unat n)"
    proof
      assume "0 \<in> block_pages ?p (unat n)"
      then have "kernel_pages \<in> block_pages a (unat n)" unfolding im by force
      then show False using mem by fastforce
    qed
    have "mm_inv s'"
      using inv s'(2,4) nz free_loop_frames [of ?p "unat n" 0 s s'] s'(1)
      by (auto simp: mm_inv_def physical_free_def)
    moreover have "mm_used s' = mm_used s - block_pages a (unat n)"
      unfolding mm_used_def s'(4) im by auto
    ultimately show ?thesis using s'(1) by (simp add: mm_free_pages_def)
  qed
qed

interpretation mm_pages: page_provider "\<lambda>n. mm_alloc_pages n 1" mm_free_pages mm_inv mm_used
proof
  show "mm_inv p \<Longrightarrow> unat n \<le> 0x10000 \<Longrightarrow> mm_alloc_pages n 1 p = Done (a, p') \<Longrightarrow>
      mm_inv p' \<and> (a = 0 \<and> mm_used p' = mm_used p \<or>
        page_block a (unat n) \<and> block_pages a (unat n) \<inter> mm_used p = {} \<and>
        mm_used p' = mm_used p \<union> block_pages a (unat n))" for p n a p'
    by (rule mm_alloc_pages_block)
  show "\<exists>a p'. mm_alloc_pages 1 1 p = Done (a, p')" if "mm_inv p" for p
  proof -
    have "phys_inv p" using that by (simp add: mm_inv_def)
    from pool_alloc_single [OF this, of DefaultPool]
    obtain addr s1 where "pool_alloc 1 1 DefaultPool p = Done (addr, s1)"
      unfolding single_result_def by blast
    then show ?thesis
      by (auto simp: mm_alloc_pages_def physical_alloc_def log_if_zero_def split: prod.splits)
  qed
  show "mm_inv p \<Longrightarrow> unat n \<le> 0x10000 \<Longrightarrow> page_block a (unat n) \<Longrightarrow> block_pages a (unat n) \<subseteq> mm_used p \<Longrightarrow>
      \<exists>p'. mm_free_pages a n p = Done p' \<and> mm_inv p' \<and> mm_used p' = mm_used p - block_pages a (unat n)"
    for p n a by (rule mm_free_pages_block)
qed

subsection \<open>Property\<close>

text \<open>\<^verbatim>\<open>calc_required_page_count\<close> rounds a size up to whole pages, except that for the sizes of the last
  page below 4 GiB the addition wraps around and the result is 0 pages.\<close>

theorem required_pages_round_up:
  "unat (calc_required_page_count sz) = (if sz \<le> 0xFFFFF000 then (unat sz + 4095) div 4096 else 0)"
  using calc_required_page_count_unat [of sz] by (simp add: word_le_nat_alt)

end
