(* ===== verification/DiskCache.thy ===== *)
theory DiskCache
  imports Block_Device Mm
begin

text \<open>
  The disk cache, \<^verbatim>\<open>src/diskcacheimpl.cpp\<close>. A buffer carries the bytes of the memory at its
  \<^verbatim>\<open>_buffer\<close> pointer; \<open>junk\<close> is what freshly allocated pages hold. The operations run on the state of
  the block device and of the page allocator. The map of the cache owns the buffers it holds.
\<close>

datatype DiskCacheBufferStatus = DCBPresent | DCBNotPresent

record DiskCacheBuffer =
  dcb_first_block :: u32
  dcb_block_count :: u32
  dcb_length :: u32
  dcb_lock_count :: u32
  dcb_buffer :: u32
  dcb_status :: DiskCacheBufferStatus
  dcb_bytes :: "u8 list"

definition dcb_alloc :: "u8 list \<Rightarrow> DiskCacheBuffer \<Rightarrow> physical \<Rightarrow> (DiskCacheBuffer \<times> physical) outcome" where
  "dcb_alloc junk b p =
     outcome_bind (mm_alloc_pages (calc_required_page_count (dcb_length b)) 1 p)
       (\<lambda>(a, p'). Done (b\<lparr>dcb_buffer := a, dcb_bytes := junk\<rparr>, p'))"

text \<open>\<^verbatim>\<open>_buffer && _pDevice->read( _first_block, _block_count, _buffer )\<close>, and the new status if true.\<close>

definition dcb_load :: "'d IBlockDevice \<Rightarrow> DiskCacheBuffer \<Rightarrow> 'd \<Rightarrow> (bool \<times> DiskCacheBuffer \<times> 'd) outcome" where
  "dcb_load dev b d =
     (if dcb_buffer b = 0 then Done (False, b, d)
      else outcome_bind (bd_read dev (dcb_first_block b) (dcb_block_count b) (dcb_bytes b) d)
        (\<lambda>(ok, bytes, d').
           let b' = b\<lparr>dcb_bytes := bytes\<rparr> in Done (ok, if ok then b'\<lparr>dcb_status := DCBPresent\<rparr> else b', d')))"

definition new_DiskCacheBuffer ::
    "'d IBlockDevice \<Rightarrow> u8 list \<Rightarrow> u32 \<Rightarrow> u32 \<Rightarrow> bool \<Rightarrow> 'd \<times> physical \<Rightarrow> (DiskCacheBuffer \<times> 'd \<times> physical) outcome" where
  "new_DiskCacheBuffer dev junk first_block count load = (\<lambda>(d, p).
     let b = \<lparr>dcb_first_block = first_block, dcb_block_count = count,
              dcb_length = count * bd_block_size dev d, dcb_lock_count = 0, dcb_buffer = 0,
              dcb_status = DCBNotPresent, dcb_bytes = []\<rparr> in
     if load then
       outcome_bind (dcb_alloc junk b p) (\<lambda>(b1, p1).
       outcome_bind (dcb_load dev b1 d) (\<lambda>(ok, b2, d1). Done (b2, d1, p1)))
     else Done (b, d, p))"

definition dcb_lock ::
    "'d IBlockDevice \<Rightarrow> u8 list \<Rightarrow> DiskCacheBuffer \<Rightarrow> 'd \<times> physical \<Rightarrow> (u32 \<times> DiskCacheBuffer \<times> 'd \<times> physical) outcome" where
  "dcb_lock dev junk b = (\<lambda>(d, p).
     case dcb_status b of
       DCBPresent \<Rightarrow> Done (dcb_buffer b, b\<lparr>dcb_lock_count := dcb_lock_count b + 1\<rparr>, d, p)
     | DCBNotPresent \<Rightarrow>
         outcome_bind (if dcb_buffer b = 0 then dcb_alloc junk b p else Done (b, p)) (\<lambda>(b1, p1).
         outcome_bind (dcb_load dev b1 d) (\<lambda>(ok, b2, d1).
           Done (if ok then dcb_buffer b2 else 0, b2, d1, p1))))"

definition dcb_unlock :: "DiskCacheBuffer \<Rightarrow> DiskCacheBuffer" where
  "dcb_unlock b = b\<lparr>dcb_lock_count := dcb_lock_count b - 1\<rparr>"

definition dcb_locked :: "DiskCacheBuffer \<Rightarrow> bool" where
  "dcb_locked b \<longleftrightarrow> 0 < dcb_lock_count b"

definition dcb_free :: "DiskCacheBuffer \<Rightarrow> physical \<Rightarrow> (bool \<times> DiskCacheBuffer \<times> physical) outcome" where
  "dcb_free b p =
     (if dcb_locked b then Done (False, b, p)
      else outcome_bind (mm_free_pages (dcb_buffer b) 1 p) (\<lambda>p'.
        Done (True, b\<lparr>dcb_buffer := 0, dcb_status := DCBNotPresent\<rparr>, p')))"

text \<open>The cache.\<close>

type_synonym disk_cache = "u32 \<rightharpoonup> DiskCacheBuffer"

definition new_DiskCache :: disk_cache where "new_DiskCache = Map.empty"

definition device_block_count :: "'d IBlockDevice \<Rightarrow> 'd \<Rightarrow> u32" where
  "device_block_count dev d = bd_block_count dev d"

definition device_block_size :: "'d IBlockDevice \<Rightarrow> 'd \<Rightarrow> u32" where
  "device_block_size dev d = bd_block_size dev d"

definition find_or_new ::
    "bool \<Rightarrow> 'd IBlockDevice \<Rightarrow> u8 list \<Rightarrow> u32 \<Rightarrow> u32 \<Rightarrow> disk_cache \<times> 'd \<times> physical \<Rightarrow>
     (DiskCacheBuffer \<times> disk_cache \<times> 'd \<times> physical) outcome" where
  "find_or_new load dev junk first_block count = (\<lambda>(c, s).
     let new = outcome_bind (new_DiskCacheBuffer dev junk first_block count load s) (\<lambda>(b, s'). Done (b, c, s')) in
     case c first_block of
       Some b \<Rightarrow>
         if dcb_block_count b \<le> count
         then outcome_bind (dcb_lock dev junk b s) (\<lambda>(r, b', s'). Done (b', c(first_block \<mapsto> b'), s'))
         else new
     | None \<Rightarrow> new)"

definition disk_cache_prepare ::
    "'d IBlockDevice \<Rightarrow> u8 list \<Rightarrow> u32 \<Rightarrow> u32 \<Rightarrow> disk_cache \<times> 'd \<times> physical \<Rightarrow>
     (DiskCacheBuffer \<times> disk_cache \<times> 'd \<times> physical) outcome" where
  "disk_cache_prepare = find_or_new False"

definition disk_cache_cache ::
    "'d IBlockDevice \<Rightarrow> u8 list \<Rightarrow> u32 \<Rightarrow> u32 \<Rightarrow> disk_cache \<times> 'd \<times> physical \<Rightarrow>
     (DiskCacheBuffer \<times> disk_cache \<times> 'd \<times> physical) outcome" where
  "disk_cache_cache = find_or_new True"

subsection \<open>What a buffer holds\<close>

text \<open>A buffer for blocks of the disk: once present, it holds their bytes.\<close>

definition dcb_ok :: "image \<Rightarrow> nat \<Rightarrow> DiskCacheBuffer \<Rightarrow> bool" where
  "dcb_ok img n b \<longleftrightarrow> unat (dcb_first_block b) + unat (dcb_block_count b) \<le> n \<and>
     (dcb_buffer b \<noteq> 0 \<longrightarrow> length (dcb_bytes b) = 512 * unat (dcb_block_count b)) \<and>
     (dcb_status b = DCBPresent \<longrightarrow> dcb_buffer b \<noteq> 0 \<and>
        dcb_bytes b = image_range img (dcb_first_block b) (unat (dcb_block_count b)))"

context block_device
begin

lemma dcb_load_serves:
  assumes "I d" and "dcb_ok img n b"
  shows "\<exists>b' d'. dcb_load dev b d = Done (dcb_buffer b \<noteq> 0, b', d') \<and> I d' \<and> dcb_ok img n b' \<and>
     dcb_buffer b' = dcb_buffer b \<and> dcb_lock_count b' = dcb_lock_count b \<and>
     dcb_first_block b' = dcb_first_block b \<and> dcb_block_count b' = dcb_block_count b \<and>
     (dcb_buffer b \<noteq> 0 \<longrightarrow> dcb_status b' = DCBPresent) \<and> (dcb_buffer b = 0 \<longrightarrow> b' = b)"
proof (cases "dcb_buffer b = 0")
  case True
  then show ?thesis using assms(1,2) by (simp add: dcb_load_def)
next
  case False
  then obtain d' where "bd_read dev (dcb_first_block b) (dcb_block_count b) (dcb_bytes b) d =
      Done (True, image_range img (dcb_first_block b) (unat (dcb_block_count b)), d')" "I d'"
    using read_range [OF assms(1)] assms(2) unfolding dcb_ok_def by blast
  then show ?thesis
    using False assms(2) by (simp add: dcb_load_def dcb_ok_def length_image_range [OF sector_length])
qed

end

lemma dcb_alloc_ok:
  assumes "dcb_ok img n b" and "dcb_status b = DCBNotPresent" and "length junk = 512 * unat (dcb_block_count b)"
    and "mm_alloc_pages (calc_required_page_count (dcb_length b)) 1 p = Done (a, p')"
  shows "\<exists>b'. dcb_alloc junk b p = Done (b', p') \<and> dcb_ok img n b' \<and> dcb_buffer b' = a \<and>
     dcb_status b' = DCBNotPresent \<and> dcb_lock_count b' = dcb_lock_count b \<and>
     dcb_first_block b' = dcb_first_block b \<and> dcb_block_count b' = dcb_block_count b"
  using assms by (simp add: dcb_alloc_def dcb_ok_def)

text \<open>C32: Locking a buffer returns its pointer with the blocks of the disk in it, read at the first lock
  and kept from then on without touching the device, or null when no pages are left. The lock that
  reads the blocks is not counted.\<close>

theorem disk_cache_lock_serves:
  assumes "serves_image dev n img I" and "I d" and "dcb_ok img n b"
    and "length junk = 512 * unat (dcb_block_count b)"
    and "mm_alloc_pages (calc_required_page_count (dcb_length b)) 1 p = Done (a, p1)"
  shows "\<exists>r b' d' p'. dcb_lock dev junk b (d, p) = Done (r, b', d', p') \<and> I d' \<and> dcb_ok img n b' \<and> r = dcb_buffer b' \<and>
     dcb_lock_count b' = (if dcb_status b = DCBPresent then dcb_lock_count b + 1 else dcb_lock_count b) \<and>
     (if dcb_buffer b = 0 \<and> a = 0 then r = 0
      else r \<noteq> 0 \<and> dcb_status b' = DCBPresent \<and>
        dcb_bytes b' = image_range img (dcb_first_block b) (unat (dcb_block_count b))) \<and>
     (dcb_status b = DCBPresent \<longrightarrow> d' = d \<and> p' = p)"
proof (cases "dcb_status b")
  case DCBPresent
  then show ?thesis using assms(2,3) by (auto simp: dcb_lock_def dcb_ok_def)
next
  case DCBNotPresent
  obtain b1 p2 where b1: "(if dcb_buffer b = 0 then dcb_alloc junk b p else Done (b, p)) = Done (b1, p2)"
    "dcb_ok img n b1" "dcb_buffer b1 = (if dcb_buffer b = 0 then a else dcb_buffer b)"
    "dcb_lock_count b1 = dcb_lock_count b" "dcb_first_block b1 = dcb_first_block b"
    "dcb_block_count b1 = dcb_block_count b"
    using dcb_alloc_ok [OF assms(3) DCBNotPresent assms(4,5)] assms(3) by (cases "dcb_buffer b = 0") auto
  obtain b2 d2 where b2: "dcb_load dev b1 d = Done (dcb_buffer b1 \<noteq> 0, b2, d2)" "I d2" "dcb_ok img n b2"
    "dcb_buffer b2 = dcb_buffer b1" "dcb_lock_count b2 = dcb_lock_count b1"
    "dcb_first_block b2 = dcb_first_block b1" "dcb_block_count b2 = dcb_block_count b1"
    "dcb_buffer b1 \<noteq> 0 \<longrightarrow> dcb_status b2 = DCBPresent"
    using block_device.dcb_load_serves [OF block_device.intro, OF assms(1,2) b1(2)] by blast
  have "dcb_lock dev junk b (d, p) = Done (dcb_buffer b2, b2, d2, p2)"
    using DCBNotPresent b1(1) b2(1,4) by (simp add: dcb_lock_def)
  moreover have "dcb_bytes b2 = image_range img (dcb_first_block b) (unat (dcb_block_count b))"
    if "dcb_buffer b1 \<noteq> 0"
    using b2(3,6,7,8) b1(5,6) that by (simp add: dcb_ok_def)
  moreover have "dcb_buffer b = 0 \<and> a = 0 \<longleftrightarrow> dcb_buffer b1 = 0" using b1(3) by simp
  ultimately show ?thesis
    using DCBNotPresent b1(4) b2(2,3,4,5,8)
    by (intro exI [of _ "dcb_buffer b2"] exI [of _ b2] exI [of _ d2] exI [of _ p2]) simp
qed

text \<open>Nothing is ever put into the map, so every call makes a buffer of its own, and the same blocks are
  read from the device again for each.\<close>

lemma disk_cache_never_shares:
  "find_or_new load dev junk first_block count (new_DiskCache, s) =
     outcome_bind (new_DiskCacheBuffer dev junk first_block count load s) (\<lambda>(b, s'). Done (b, new_DiskCache, s'))"
  by (cases s) (simp add: find_or_new_def new_DiskCache_def)

lemma new_buffer_ok:
  "unat first_block + unat count \<le> n \<Longrightarrow>
   \<exists>b. new_DiskCacheBuffer dev junk first_block count False s = Done (b, s) \<and> dcb_ok img n b \<and>
     dcb_status b = DCBNotPresent \<and> dcb_lock_count b = 0 \<and> dcb_buffer b = 0 \<and>
     dcb_first_block b = first_block \<and> dcb_block_count b = count \<and> dcb_length b = count * bd_block_size dev (fst s)"
  by (cases s) (simp add: new_DiskCacheBuffer_def dcb_ok_def)

text \<open>A prepared buffer that is locked and unlocked once counts \<open>- 1\<close> locks: it stays locked and is
  never freed. While it is locked for the first time it can be freed under its user.\<close>

theorem prepared_buffer_stays_locked:
  assumes "serves_image dev n img I" and "I d" and "unat first_block + unat count \<le> n"
    and "length junk = 512 * unat count"
    and "mm_alloc_pages (calc_required_page_count (count * bd_block_size dev d)) 1 p = Done (a, p1)" and "a \<noteq> 0"
  shows "\<exists>b d' p' b'. disk_cache_prepare dev junk first_block count (new_DiskCache, d, p) = Done (b, new_DiskCache, d, p) \<and>
     dcb_lock dev junk b (d, p) = Done (a, b', d', p') \<and> \<not> dcb_locked b' \<and>
     dcb_free (dcb_unlock b') p' = Done (False, dcb_unlock b', p')"
proof -
  obtain b where b: "new_DiskCacheBuffer dev junk first_block count False (d, p) = Done (b, d, p)" "dcb_ok img n b"
    "dcb_status b = DCBNotPresent" "dcb_lock_count b = 0" "dcb_buffer b = 0" "dcb_block_count b = count"
    "dcb_length b = count * bd_block_size dev d"
    using new_buffer_ok [OF assms(3), of dev junk "(d, p)" img] by auto
  have len: "length junk = 512 * unat (dcb_block_count b)"
    and al: "mm_alloc_pages (calc_required_page_count (dcb_length b)) 1 p = Done (a, p1)"
    using assms(4,5) b(6,7) by simp_all
  obtain b1 where b1: "dcb_alloc junk b p = Done (b1, p1)" "dcb_ok img n b1" "dcb_buffer b1 = a" "dcb_lock_count b1 = 0"
    using dcb_alloc_ok [OF b(2,3) len al] b(4) by auto
  obtain b2 d2 where b2: "dcb_load dev b1 d = Done (True, b2, d2)" "dcb_buffer b2 = a" "dcb_lock_count b2 = 0"
    using block_device.dcb_load_serves [OF block_device.intro, OF assms(1,2) b1(2)] b1(3,4) assms(6) by auto
  have "dcb_lock dev junk b (d, p) = Done (a, b2, d2, p1)"
    using b(3,5) b1(1) b2(1,2) by (simp add: dcb_lock_def)
  moreover have "dcb_free (dcb_unlock b2) p1 = Done (False, dcb_unlock b2, p1)"
    using b2(3) by (simp add: dcb_free_def dcb_locked_def dcb_unlock_def word_less_nat_alt)
  ultimately show ?thesis
    using b(1) b2(3) unfolding disk_cache_prepare_def disk_cache_never_shares by (simp add: dcb_locked_def)
qed

lemma sample_mm_alloc: "\<exists>p'. mm_alloc_pages 1 1 sample_physical = Done (0xC0005000, p')"
proof -
  obtain s' where "physical_alloc 1 1 sample_physical = Done (0x5000, s')" using sample_physical_alloc by blast
  then show ?thesis
    by (simp add: mm_alloc_pages_def kernel_physical_to_virtual_def KERNEL_VIRTUAL_BASE_def)
qed

theorem disk_cache_lock_serves_witness:
  "\<exists>b' p'. dcb_lock (image_device zero_image) (replicate 1024 7)
      \<lparr>dcb_first_block = 4, dcb_block_count = 2, dcb_length = 1024, dcb_lock_count = 0, dcb_buffer = 0,
       dcb_status = DCBNotPresent, dcb_bytes = []\<rparr> ((), sample_physical) = Done (dcb_buffer b', b', (), p') \<and>
     dcb_bytes b' = replicate 1024 0 \<and> dcb_lock_count b' = 0"
proof -
  let ?b = "\<lparr>dcb_first_block = 4, dcb_block_count = 2, dcb_length = 1024, dcb_lock_count = 0, dcb_buffer = 0,
     dcb_status = DCBNotPresent, dcb_bytes = []\<rparr> :: DiskCacheBuffer"
  obtain p' where a: "mm_alloc_pages 1 1 sample_physical = Done (0xC0005000, p')" using sample_mm_alloc by blast
  have c: "calc_required_page_count (dcb_length ?b) = 1" by (simp add: calc_required_page_count_def PAGE_SIZE_def)
  have r: "image_range zero_image 4 (unat (2 :: u32)) = replicate 1024 0"
  proof -
    have u: "unat (2 :: u32) = Suc (Suc 0)" by simp
    have "image_range zero_image 4 (Suc (Suc 0)) = replicate 512 0 @ replicate 512 0" by (simp add: zero_image_def)
    also have "\<dots> = replicate 1024 0" by (simp flip: replicate_add)
    finally show ?thesis unfolding u .
  qed
  have s: "serves_image (image_device zero_image) 2880 zero_image (\<lambda>_. True)"
    by (rule image_device_serves) (simp add: zero_image_def)
  have k: "dcb_ok zero_image 2880 ?b" by (simp add: dcb_ok_def)
  have al: "mm_alloc_pages (calc_required_page_count (dcb_length ?b)) 1 sample_physical = Done (0xC0005000, p')"
    unfolding c by (rule a)
  show ?thesis
    using disk_cache_lock_serves [OF s _ k _ al, of "replicate 1024 7" "()"] r by auto
qed

theorem prepared_buffer_stays_locked_witness:
  "\<exists>b d' p' b'. disk_cache_prepare (image_device zero_image) (replicate 512 0) 4 1 (new_DiskCache, (), sample_physical) =
       Done (b, new_DiskCache, (), sample_physical) \<and>
     dcb_lock (image_device zero_image) (replicate 512 0) b ((), sample_physical) = Done (0xC0005000, b', d', p') \<and>
     \<not> dcb_locked b' \<and> dcb_free (dcb_unlock b') p' = Done (False, dcb_unlock b', p')"
proof -
  obtain p' where a: "mm_alloc_pages 1 1 sample_physical = Done (0xC0005000, p')" using sample_mm_alloc by blast
  have c: "calc_required_page_count (1 * bd_block_size (image_device zero_image) ()) = 1"
    by (simp add: image_device_def calc_required_page_count_def PAGE_SIZE_def)
  have s: "serves_image (image_device zero_image) 2880 zero_image (\<lambda>_. True)"
    by (rule image_device_serves) (simp add: zero_image_def)
  have al: "mm_alloc_pages (calc_required_page_count (1 * bd_block_size (image_device zero_image) ())) 1 sample_physical =
      Done (0xC0005000, p')"
    unfolding c by (rule a)
  show ?thesis
    by (rule prepared_buffer_stays_locked [OF s _ _ _ al]) simp_all
qed

end
