(* ===== verification/Heap.thy ===== *)
theory Heap
  imports Mm
begin

text \<open>
  Models \<^verbatim>\<open>src/kheap.cpp\<close>: 17 groups of chunks, each chunk a block of pages that holds a header of
  three words and an array of objects, each object a status word, a word shared by the free link
  and the size (\<^verbatim>\<open>union\<close>), and the data. The template parameters \<^verbatim>\<open>obj_size\<close> and \<^verbatim>\<open>page_count\<close>
  are arguments. Headers live in two typed stores indexed by their address, \<open>objects\<close> and
  \<open>chunks\<close>; the data bytes are the client's and are not part of the state. The page allocator is a
  higher-order parameter; the lemmas hold for every \<open>page_provider\<close> and the properties are those of
  the kernel's own, \<^verbatim>\<open>mm::alloc_pages\<close> and \<^verbatim>\<open>mm::free_pages\<close>.

  \<open>heap_inv\<close> ties free lists, status words, counts and chunk lists together; \<open>live_objects\<close> is
  the abstract state, the set of allocated pointers with their sizes.
\<close>

subsection \<open>State\<close>

definition HEAP_OBJECT_FREE :: u32 where "HEAP_OBJECT_FREE = 0x11111111"
definition HEAP_OBJECT_USED :: u32 where "HEAP_OBJECT_USED = 0xFFFFFFFF"
definition HEAP_OBJECT_INIT :: u32 where "HEAP_OBJECT_INIT = 0x33333333"

lemma object_status_distinct [simp]:
  "HEAP_OBJECT_FREE \<noteq> HEAP_OBJECT_USED" "HEAP_OBJECT_USED \<noteq> HEAP_OBJECT_FREE"
  by (simp_all add: HEAP_OBJECT_FREE_def HEAP_OBJECT_USED_def)

record heap_object =
  obj_status :: u32
  obj_link :: u32

record heap_chunk =
  chunk_next :: u32
  first_free :: u32
  free_count :: u32

record heap_chunk_group =
  first_chunk :: u32
  chunk_count :: u32
  free_object_count :: u32
  alloc_count :: u32

record 'p heap =
  objects :: "u32 \<Rightarrow> heap_object"
  chunks :: "u32 \<Rightarrow> heap_chunk"
  groups :: "heap_chunk_group list"
  pages :: 'p
  hlog :: log

definition heap_chunk_group_new :: heap_chunk_group where
  "heap_chunk_group_new = \<lparr>first_chunk = 0, chunk_count = 0, free_object_count = 0, alloc_count = 0\<rparr>"

text \<open>The template arguments of the 17 static groups, in the order of \<^verbatim>\<open>s_heap_chunk_groups\<close>.\<close>

definition group_params :: "(nat \<times> nat) list" where
  "group_params = [(8, 1), (16, 1), (32, 1), (64, 1), (128, 1), (256, 1), (512, 1), (1024 - 16, 1),
     (2048 - 16, 1), (4096 - 20, 1), (8192 - 20, 2), (16384 - 20, 4), (32768 - 20, 8),
     (65536 - 20, 16), (131072 - 20, 32), (262144 - 20, 64), (524288 - 20, 128)]"

definition obj_size :: "nat \<Rightarrow> nat" where "obj_size g = fst (group_params ! g)"
definition page_count :: "nat \<Rightarrow> nat" where "page_count g = snd (group_params ! g)"

definition sizeof_object :: "nat \<Rightarrow> nat" where "sizeof_object sz = 8 + sz"
definition overhead_size :: nat where "overhead_size = 8"

definition object_count :: "nat \<Rightarrow> nat" where
  "object_count g = (page_count g * 4096 - overhead_size) div sizeof_object (obj_size g)"

text \<open>The address of \<^verbatim>\<open>_objects[i]\<close>: the three header words come first.\<close>

definition slot :: "nat \<Rightarrow> u32 \<Rightarrow> nat \<Rightarrow> u32" where
  "slot g c i = c + 12 + word_of_nat (i * sizeof_object (obj_size g))"

subsection \<open>Objects and chunks\<close>

definition object_alloc :: "nat \<Rightarrow> u32 \<Rightarrow> u32 \<Rightarrow> 'p heap \<Rightarrow> (u32 \<times> 'p heap) outcome" where
  "object_alloc g c obj h =
     (if obj = 0 then Fault UndefinedBehaviour
      else Done (obj + 8, h\<lparr>
        chunks := (chunks h)(c := (chunks h c)\<lparr>first_free := obj_link (objects h obj)\<rparr>),
        objects := (objects h)(obj := \<lparr>obj_status = HEAP_OBJECT_USED, obj_link = word_of_nat (obj_size g)\<rparr>)\<rparr>))"

definition object_free :: "u32 \<Rightarrow> u32 \<Rightarrow> 'p heap \<Rightarrow> 'p heap" where
  "object_free c obj h = h\<lparr>
     objects := (objects h)(obj := \<lparr>obj_status = HEAP_OBJECT_FREE, obj_link = first_free (chunks h c)\<rparr>),
     chunks := (chunks h)(c := (chunks h c)\<lparr>first_free := obj\<rparr>)\<rparr>"

fun init_objects :: "nat \<Rightarrow> u32 \<Rightarrow> nat \<Rightarrow> (u32 \<Rightarrow> heap_object) \<Rightarrow> (u32 \<Rightarrow> heap_object)" where
  "init_objects g c 0 objs = objs"
| "init_objects g c (Suc i) objs =
     (init_objects g c i objs)(slot g c i := \<lparr>obj_status = HEAP_OBJECT_INIT, obj_link = 0\<rparr>)"

fun chain_objects :: "nat \<Rightarrow> u32 \<Rightarrow> nat \<Rightarrow> u32 \<Rightarrow> (u32 \<Rightarrow> heap_object) \<Rightarrow> u32 \<times> (u32 \<Rightarrow> heap_object)" where
  "chain_objects g c 0 nxt objs = (nxt, objs)"
| "chain_objects g c (Suc i) nxt objs =
     chain_objects g c i (slot g c i)
       (objs(slot g c i := \<lparr>obj_status = HEAP_OBJECT_FREE, obj_link = nxt\<rparr>))"

text \<open>The constructor: default construction of the objects, then the chain from the last to the first.\<close>

definition chunk_construct :: "nat \<Rightarrow> u32 \<Rightarrow> 'p heap \<Rightarrow> 'p heap" where
  "chunk_construct g c h =
     (let (nxt, objs) = chain_objects g c (object_count g) 0 (init_objects g c (object_count g) (objects h))
      in h\<lparr>objects := objs,
           chunks := (chunks h)(c := \<lparr>chunk_next = 0, first_free = nxt,
             free_count = word_of_nat (object_count g)\<rparr>)\<rparr>)"

definition chunk_alloc :: "nat \<Rightarrow> u32 \<Rightarrow> 'p heap \<Rightarrow> (u32 \<times> 'p heap) outcome" where
  "chunk_alloc g c h =
     outcome_bind (object_alloc g c (first_free (chunks h c)) h)
       (\<lambda>(ptr, h1). Done (ptr, h1\<lparr>chunks := (chunks h1)(c := (chunks h1 c)\<lparr>free_count := free_count (chunks h1 c) - 1\<rparr>)\<rparr>))"

definition chunk_free :: "u32 \<Rightarrow> u32 \<Rightarrow> 'p heap \<Rightarrow> 'p heap" where
  "chunk_free c ptr h =
     (let h1 = object_free c (ptr - 8) h
      in h1\<lparr>chunks := (chunks h1)(c := (chunks h1 c)\<lparr>free_count := free_count (chunks h1 c) + 1\<rparr>)\<rparr>)"

definition chunk_chain :: "u32 \<Rightarrow> u32 \<Rightarrow> 'p heap \<Rightarrow> 'p heap" where
  "chunk_chain c nxt h = h\<lparr>chunks := (chunks h)(c := (chunks h c)\<lparr>chunk_next := nxt\<rparr>)\<rparr>"

definition chunk_full :: "'p heap \<Rightarrow> u32 \<Rightarrow> bool" where
  "chunk_full h c \<longleftrightarrow> first_free (chunks h c) = 0"

definition chunk_empty :: "nat \<Rightarrow> 'p heap \<Rightarrow> u32 \<Rightarrow> bool" where
  "chunk_empty g h c \<longleftrightarrow> free_count (chunks h c) = word_of_nat (object_count g)"

subsection \<open>Chunk groups\<close>

definition group_first :: "'p heap \<Rightarrow> nat \<Rightarrow> u32" where
  "group_first h g = first_chunk (groups h ! g)"

definition set_first_chunk :: "nat \<Rightarrow> u32 \<Rightarrow> 'p heap \<Rightarrow> 'p heap" where
  "set_first_chunk g c h = h\<lparr>groups := (groups h)[g := (groups h ! g)\<lparr>first_chunk := c\<rparr>]\<rparr>"

definition alloc_from_new ::
    "(u32 \<Rightarrow> 'p \<Rightarrow> (u32 \<times> 'p) outcome) \<Rightarrow> nat \<Rightarrow> 'p heap \<Rightarrow> (u32 \<times> 'p heap) outcome" where
  "alloc_from_new palloc g h =
     outcome_bind (palloc (word_of_nat (page_count g)) (pages h))
       (\<lambda>(p, ps). let h1 = h\<lparr>pages := ps\<rparr> in
          if p = 0 then Done (0, h1)
          else outcome_bind (chunk_alloc g p (chunk_construct g p h1))
            (\<lambda>(obj, h2). Done (obj,
               if \<not> chunk_full h2 p
               then set_first_chunk g p (chunk_chain p (group_first h2 g) h2)
               else h2)))"

definition group_alloc ::
    "(u32 \<Rightarrow> 'p \<Rightarrow> (u32 \<times> 'p) outcome) \<Rightarrow> nat \<Rightarrow> 'p heap \<Rightarrow> (u32 \<times> 'p heap) outcome" where
  "group_alloc palloc g h =
     (let c = group_first h g in
      if c \<noteq> 0 then
        outcome_bind (chunk_alloc g c h)
          (\<lambda>(obj, h1). Done (obj,
             if chunk_full h1 c then set_first_chunk g (chunk_next (chunks h1 c)) h1 else h1))
      else alloc_from_new palloc g h)"

text \<open>\<^verbatim>\<open>while( ch && ch->next() != chunk ) ch = ch->next();\<close>\<close>

partial_function (option) find_pred :: "(u32 \<Rightarrow> heap_chunk) \<Rightarrow> u32 \<Rightarrow> u32 \<Rightarrow> u32 option" where
  "find_pred cks chunk ch =
     (if ch \<noteq> 0 \<and> chunk_next (cks ch) \<noteq> chunk then find_pred cks chunk (chunk_next (cks ch)) else Some ch)"

definition unlink_chunk :: "nat \<Rightarrow> u32 \<Rightarrow> 'p heap \<Rightarrow> 'p heap outcome" where
  "unlink_chunk g c h =
     (if c = group_first h g then Done (set_first_chunk g (chunk_next (chunks h c)) h)
      else (case find_pred (chunks h) c (group_first h g) of
          None \<Rightarrow> Diverges
        | Some ch \<Rightarrow>
            if ch \<noteq> 0 then Done (chunk_chain ch (chunk_next (chunks h c)) h)
            else Fault (Panic (''huh?! where has my half-full chunk gone?!'' @ [CHR ''\<newline>'']))))"

definition group_free ::
    "(u32 \<Rightarrow> u32 \<Rightarrow> 'p \<Rightarrow> 'p outcome) \<Rightarrow> nat \<Rightarrow> u32 \<Rightarrow> 'p heap \<Rightarrow> 'p heap outcome" where
  "group_free pfree g ptr h =
     (let c = ptr AND NOT PAGE_MASK;
          was_full = chunk_full h c;
          h1 = chunk_free c ptr h
      in if chunk_empty g h1 c then
           (let h2 = h1\<lparr>hlog := hlog h1 @ [Debug (''KILL PAGE'' @ [CHR ''\<newline>'']) []]\<rparr>
            in outcome_bind (if \<not> was_full then unlink_chunk g c h2 else Done h2)
                 (\<lambda>h3. outcome_bind (pfree c (word_of_nat (page_count g)) (pages h3))
                    (\<lambda>ps. Done (h3\<lparr>pages := ps\<rparr>))))
         else if was_full then Done (set_first_chunk g c (chunk_chain c (group_first h1 g) h1))
         else Done h1)"

subsection \<open>\<^verbatim>\<open>mm::heap\<close>\<close>

fun find_group_from :: "nat \<Rightarrow> (nat \<times> nat) list \<Rightarrow> u32 \<Rightarrow> nat option" where
  "find_group_from i [] request_size = None"
| "find_group_from i ((sz, n) # ps) request_size =
     (if request_size \<le> word_of_nat sz then Some i else find_group_from (Suc i) ps request_size)"

definition find_chunk_group :: "u32 \<Rightarrow> nat option" where
  "find_chunk_group request_size = find_group_from 0 group_params request_size"

definition heap_init :: "'p heap \<Rightarrow> 'p heap" where
  "heap_init h = h"

definition heap_alloc ::
    "(u32 \<Rightarrow> 'p \<Rightarrow> (u32 \<times> 'p) outcome) \<Rightarrow> u32 \<Rightarrow> 'p heap \<Rightarrow> (u32 \<times> 'p heap) outcome" where
  "heap_alloc palloc sz h =
     (case find_chunk_group sz of Some g \<Rightarrow> group_alloc palloc g h | None \<Rightarrow> Done (0, h))"

definition report_bad_free :: "u32 \<Rightarrow> 'p heap \<Rightarrow> 'p heap" where
  "report_bad_free ptr h =
     h\<lparr>hlog := hlog h @ [Debug (''Trying to free non-allocated pointer (%x)'' @ [CHR ''\<newline>'']) [ptr]]\<rparr>"

definition heap_free ::
    "(u32 \<Rightarrow> u32 \<Rightarrow> 'p \<Rightarrow> 'p outcome) \<Rightarrow> u32 \<Rightarrow> 'p heap \<Rightarrow> 'p heap outcome" where
  "heap_free pfree ptr h =
     (let obj = objects h (ptr - 8) in
      if obj_status obj = HEAP_OBJECT_USED then
        (case find_chunk_group (obj_link obj) of
           Some g \<Rightarrow> group_free pfree g ptr h
         | None \<Rightarrow> Done (report_bad_free ptr h))
      else Done (report_bad_free ptr h))"

text \<open>The C++ allocation operators, all overloads: \<^verbatim>\<open>new\<close> forwards to \<^verbatim>\<open>heap::alloc\<close>, \<^verbatim>\<open>delete\<close> to
  \<^verbatim>\<open>heap::free\<close>, whatever the alignment or size argument.\<close>

definition operator_new ::
    "(u32 \<Rightarrow> 'p \<Rightarrow> (u32 \<times> 'p) outcome) \<Rightarrow> u32 \<Rightarrow> 'p heap \<Rightarrow> (u32 \<times> 'p heap) outcome" where
  "operator_new palloc sz h = heap_alloc palloc sz h"

definition operator_delete ::
    "(u32 \<Rightarrow> u32 \<Rightarrow> 'p \<Rightarrow> 'p outcome) \<Rightarrow> u32 \<Rightarrow> 'p heap \<Rightarrow> 'p heap outcome" where
  "operator_delete pfree ptr h = heap_free pfree ptr h"

text \<open>The state before the first call: every group empty.\<close>

definition heap_start :: "'p \<Rightarrow> 'p heap" where
  "heap_start ps = \<lparr>objects = (\<lambda>_. \<lparr>obj_status = 0, obj_link = 0\<rparr>),
     chunks = (\<lambda>_. \<lparr>chunk_next = 0, first_free = 0, free_count = 0\<rparr>),
     groups = replicate 17 heap_chunk_group_new, pages = ps, hlog = []\<rparr>"

subsection \<open>Layout\<close>

definition layout_ok :: "nat \<Rightarrow> bool" where
  "layout_ok g \<longleftrightarrow> 12 + object_count g * sizeof_object (obj_size g) \<le> page_count g * 4096 \<and>
     1 \<le> object_count g \<and> object_count g \<le> 255 \<and> (page_count g = 1 \<or> object_count g = 1) \<and>
     1 \<le> page_count g \<and> page_count g \<le> 128 \<and> 0 < obj_size g \<and> obj_size g \<le> 0x100000"

lemma layout_all: "list_all layout_ok [0..<17]"
  by (simp add: upt_rec layout_ok_def object_count_def obj_size_def page_count_def sizeof_object_def
    overhead_size_def group_params_def)

lemma layout: "g < 17 \<Longrightarrow> layout_ok g"
  using layout_all by (simp add: list_all_iff)

lemma find_group_from_bound:
  "find_group_from i ps n = Some g \<Longrightarrow> i \<le> g \<and> g < i + length ps \<and> n \<le> word_of_nat (fst (ps ! (g - i)))"
proof (induction i ps n rule: find_group_from.induct)
  case (2 i sz k ps n)
  then show ?case by (force split: if_splits simp: nth_Cons')
qed simp

lemma find_chunk_group_fits:
  assumes "find_chunk_group n = Some g"
  shows "g < 17" and "unat n \<le> obj_size g"
proof -
  from find_group_from_bound [OF assms [unfolded find_chunk_group_def]]
  have b: "g < length group_params" "n \<le> word_of_nat (fst (group_params ! g))" by auto
  then show g: "g < 17" by (simp add: group_params_def)
  have "unat (word_of_nat (obj_size g) :: u32) = obj_size g"
    using layout [OF g] by (intro unat_u32_of_nat) (simp add: layout_ok_def)
  then show "unat n \<le> obj_size g"
    using b(2) by (simp add: word_le_nat_alt obj_size_def)
qed

lemma find_group_stored_all:
  "list_all (\<lambda>g. find_chunk_group (word_of_nat (obj_size g)) = Some g) [0..<17]"
  by (simp add: upt_rec find_chunk_group_def obj_size_def group_params_def word_le_nat_alt)

lemma find_group_stored: "g < 17 \<Longrightarrow> find_chunk_group (word_of_nat (obj_size g)) = Some g"
  using find_group_stored_all by (simp add: list_all_iff)

lemma page_base: "unat (a AND NOT PAGE_MASK) = 4096 * page_of a"
proof -
  have m: "PAGE_MASK = mask 12" by (simp add: PAGE_MASK_def mask_eq_exp_minus_1)
  have "a AND NOT (mask 12) = push_bit 12 (drop_bit 12 a)"
    by (rule bit_eqI) (auto simp: bit_simps)
  also have "\<dots> = a - take_bit 12 a"
    using bits_ident [of 12 a] by (simp add: eq_diff_eq)
  finally have eq: "a AND NOT PAGE_MASK = a - take_bit 12 a" by (simp only: m)
  have u: "unat (take_bit 12 a) = unat a mod 4096"
    unfolding unsigned_take_bit_eq by (simp add: take_bit_eq_mod)
  have "take_bit 12 a \<le> a" by (simp add: word_le_nat_alt u)
  then have "unat (a AND NOT PAGE_MASK) = unat a - unat a mod 4096"
    unfolding eq by (subst unat_sub) (simp_all add: u)
  then show ?thesis by (simp add: page_of_def minus_mod_eq_mult_div)
qed

subsection \<open>Slots of a chunk\<close>

definition chunk_placed :: "nat \<Rightarrow> u32 \<Rightarrow> bool" where
  "chunk_placed g c \<longleftrightarrow> g < 17 \<and> page_block c (page_count g)"

definition slots :: "nat \<Rightarrow> u32 \<Rightarrow> u32 set" where
  "slots g c = slot g c ` {..<object_count g}"

definition chunk_pages :: "nat \<Rightarrow> u32 \<Rightarrow> nat set" where
  "chunk_pages g c = block_pages c (page_count g)"

lemma unat_slot:
  assumes "chunk_placed g c" and "i < object_count g"
  shows "unat (slot g c i) = unat c + 12 + i * sizeof_object (obj_size g)"
    and "unat c + 12 + i * sizeof_object (obj_size g) + sizeof_object (obj_size g) \<le> unat c + page_count g * 4096"
proof -
  let ?n = "sizeof_object (obj_size g)"
  have l: "12 + object_count g * ?n \<le> page_count g * 4096" "page_count g \<le> 128"
    using layout assms(1) by (auto simp: chunk_placed_def layout_ok_def)
  have c: "unat c = 4096 * page_of c" "page_of c + page_count g < 0x100000"
    using assms(1) by (auto simp: chunk_placed_def page_block_def)
  have "Suc i * ?n \<le> object_count g * ?n" using assms(2) by (intro mult_right_mono) auto
  then have i: "i * ?n + ?n + 12 \<le> page_count g * 4096" using l by simp
  then show "unat c + 12 + i * ?n + ?n \<le> unat c + page_count g * 4096" by simp
  have w: "unat (word_of_nat (i * ?n) :: u32) = i * ?n"
    using i l(2) by (intro unat_u32_of_nat) linarith
  have "unat (c + 12) = unat c + 12"
    using c by (subst unat_u32_add) auto
  then show "unat (slot g c i) = unat c + 12 + i * ?n"
    using i c unfolding slot_def by (subst unat_u32_add) (simp_all add: w del: of_nat_mult)
qed

lemma slot_inj:
  assumes "chunk_placed g c" and "i < object_count g" and "j < object_count g"
    and "slot g c i = slot g c j"
  shows "i = j"
proof -
  have "i * sizeof_object (obj_size g) = j * sizeof_object (obj_size g)"
    using unat_slot(1) [OF assms(1,2)] unat_slot(1) [OF assms(1,3)]
    unfolding assms(4) by linarith
  moreover have "sizeof_object (obj_size g) \<noteq> 0" by (simp add: sizeof_object_def)
  ultimately show ?thesis by (metis mult_right_cancel)
qed

lemma slot_bytes_disjoint:
  assumes "chunk_placed g c" and "i < object_count g" and "j < object_count g" and "i \<noteq> j"
  shows "unat (slot g c i) + sizeof_object (obj_size g) \<le> unat (slot g c j) \<or>
     unat (slot g c j) + sizeof_object (obj_size g) \<le> unat (slot g c i)"
proof -
  let ?n = "sizeof_object (obj_size g)"
  have "Suc i * ?n \<le> j * ?n \<or> Suc j * ?n \<le> i * ?n"
    using assms(4) by (metis Suc_leI mult_le_mono1 nat_neq_iff)
  then have "i * ?n + ?n \<le> j * ?n \<or> j * ?n + ?n \<le> i * ?n" by (simp only: mult_Suc add.commute)
  then show ?thesis using unat_slot(1) [OF assms(1,2)] unat_slot(1) [OF assms(1,3)] by linarith
qed

text \<open>The data of slot \<open>x\<close> lies in the chunk's pages; so does its header.\<close>

lemma slot_in_pages:
  assumes "chunk_placed g c" and "x \<in> slots g c" and "unat x \<le> a" and "a < unat x + sizeof_object (obj_size g)"
  shows "a div 4096 \<in> chunk_pages g c"
proof -
  obtain i where i: "i < object_count g" "x = slot g c i" using assms(2) by (auto simp: slots_def)
  have c: "unat c = 4096 * page_of c"
    using assms(1) by (auto simp: chunk_placed_def page_block_def)
  have "unat c \<le> a" "a < unat c + page_count g * 4096"
    using unat_slot [OF assms(1) i(1)] assms(3,4) unfolding i(2) by linarith+
  then have "page_of c \<le> a div 4096" "a div 4096 < page_of c + page_count g"
    using c by (simp_all add: less_mult_imp_div_less less_eq_div_iff_mult_less_eq)
  then show ?thesis by (simp add: chunk_pages_def block_pages_def)
qed

lemma slot_nonzero: "chunk_placed g c \<Longrightarrow> x \<in> slots g c \<Longrightarrow> x \<noteq> 0"
proof
  assume "chunk_placed g c" "x \<in> slots g c" "x = 0"
  then obtain i where "i < object_count g" "slot g c i = 0" "chunk_placed g c"
    by (auto simp: slots_def)
  then show False using unat_slot(1) by force
qed

lemma slots_disjoint:
  assumes "chunk_placed g c" and "chunk_placed g' c'" and "chunk_pages g c \<inter> chunk_pages g' c' = {}"
  shows "slots g c \<inter> slots g' c' = {}"
proof (rule ccontr)
  assume "slots g c \<inter> slots g' c' \<noteq> {}"
  then obtain x where "x \<in> slots g c" "x \<in> slots g' c'" by blast
  then have "unat x div 4096 \<in> chunk_pages g c" "unat x div 4096 \<in> chunk_pages g' c'"
    using slot_in_pages [OF assms(1), of x "unat x"] slot_in_pages [OF assms(2), of x "unat x"]
    by (simp_all add: sizeof_object_def)
  then show False using assms(3) by blast
qed

text \<open>The chunk of a data pointer is found by clearing the page offset: chunks of more than one page
  have one object.\<close>

lemma data_pointer_chunk:
  assumes "chunk_placed g c" and "x \<in> slots g c"
  shows "(x + 8) AND NOT PAGE_MASK = c"
proof -
  obtain i where i: "i < object_count g" "x = slot g c i" using assms(2) by (auto simp: slots_def)
  have g: "g < 17" using assms(1) by (simp add: chunk_placed_def)
  have c: "unat c = 4096 * page_of c" "page_of c + page_count g < 0x100000"
    using assms(1) by (auto simp: chunk_placed_def page_block_def)
  let ?n = "sizeof_object (obj_size g)"
  have x: "unat x = unat c + 12 + i * ?n" "12 + i * ?n + ?n \<le> page_count g * 4096"
    using unat_slot [OF assms(1) i(1)] i(2) by auto
  have lt: "12 + i * ?n + 8 < 4096"
  proof (cases "page_count g = 1")
    case True
    then show ?thesis using x(2) layout [OF g] by (simp add: sizeof_object_def layout_ok_def)
  next
    case False
    then have "i = 0" using layout [OF g] i(1) by (simp add: layout_ok_def)
    then show ?thesis by simp
  qed
  have "unat (x + 8) = unat x + 8" using x(1) lt c by (subst unat_u32_add) auto
  then have "page_of (x + 8) = page_of c"
    using x(1) lt c unfolding page_of_def by auto
  then have "unat ((x + 8) AND NOT PAGE_MASK) = unat c" using c(1) by (simp add: page_base)
  then show ?thesis by (simp add: word_unat_eq_iff)
qed

subsection \<open>Well-formed chunks\<close>

fun free_list :: "(u32 \<Rightarrow> heap_object) \<Rightarrow> u32 \<Rightarrow> u32 list \<Rightarrow> bool" where
  "free_list objs a [] \<longleftrightarrow> a = 0"
| "free_list objs a (x # xs) \<longleftrightarrow> a = x \<and> x \<noteq> 0 \<and> free_list objs (obj_link (objs x)) xs"

definition free_slots :: "(u32 \<Rightarrow> heap_object) \<Rightarrow> nat \<Rightarrow> u32 \<Rightarrow> u32 set" where
  "free_slots objs g c = {x \<in> slots g c. obj_status (objs x) = HEAP_OBJECT_FREE}"

definition used_slots :: "(u32 \<Rightarrow> heap_object) \<Rightarrow> nat \<Rightarrow> u32 \<Rightarrow> u32 set" where
  "used_slots objs g c = {x \<in> slots g c. obj_status (objs x) = HEAP_OBJECT_USED}"

definition chunk_ok :: "(u32 \<Rightarrow> heap_object) \<Rightarrow> heap_chunk \<Rightarrow> nat \<Rightarrow> u32 \<Rightarrow> bool" where
  "chunk_ok objs ck g c \<longleftrightarrow>
     (\<exists>xs. free_list objs (first_free ck) xs \<and> distinct xs \<and> set xs = free_slots objs g c \<and>
        free_count ck = word_of_nat (length xs)) \<and>
     slots g c = free_slots objs g c \<union> used_slots objs g c \<and>
     (\<forall>x \<in> used_slots objs g c. obj_link (objs x) = word_of_nat (obj_size g))"

lemma free_used_disjoint: "free_slots objs g c \<inter> used_slots objs g c = {}"
  by (auto simp: free_slots_def used_slots_def)

lemma free_list_cong:
  "(\<And>x. x \<in> set xs \<Longrightarrow> objs' x = objs x) \<Longrightarrow> free_list objs' a xs = free_list objs a xs"
  by (induction xs arbitrary: a) auto

lemma free_list_zero: "free_list objs a xs \<Longrightarrow> a = 0 \<longleftrightarrow> xs = []"
  by (cases xs) auto

lemma slots_cong:
  assumes "\<And>x. x \<in> slots g c \<Longrightarrow> objs' x = objs x"
  shows "free_slots objs' g c = free_slots objs g c" and "used_slots objs' g c = used_slots objs g c"
  using assms by (auto simp: free_slots_def used_slots_def)

lemma chunk_ok_cong:
  assumes "\<And>x. x \<in> slots g c \<Longrightarrow> objs' x = objs x" and "first_free ck' = first_free ck"
    and "free_count ck' = free_count ck"
  shows "chunk_ok objs' ck' g c = chunk_ok objs ck g c"
proof -
  have s: "free_slots objs' g c = free_slots objs g c" "used_slots objs' g c = used_slots objs g c"
    using slots_cong assms(1) by blast+
  have u: "x \<in> used_slots objs g c \<Longrightarrow> objs' x = objs x" for x
    using assms(1) by (simp add: used_slots_def)
  have fl: "set xs = free_slots objs g c \<Longrightarrow> free_list objs' a xs = free_list objs a xs" for xs a
    using assms(1) by (intro free_list_cong) (auto simp: free_slots_def)
  have "(\<exists>xs. free_list objs' (first_free ck) xs \<and> distinct xs \<and> set xs = free_slots objs g c \<and>
        free_count ck = word_of_nat (length xs)) \<longleftrightarrow>
      (\<exists>xs. free_list objs (first_free ck) xs \<and> distinct xs \<and> set xs = free_slots objs g c \<and>
        free_count ck = word_of_nat (length xs))"
    using fl by blast
  then show ?thesis
    unfolding chunk_ok_def s assms(2,3) using u by simp
qed

lemma card_slots: "chunk_placed g c \<Longrightarrow> card (slots g c) = object_count g"
  unfolding slots_def by (subst card_image) (auto simp: inj_on_def dest: slot_inj)

lemma finite_slots [simp]: "finite (slots g c)" "finite (free_slots objs g c)"
  by (simp_all add: slots_def free_slots_def)

lemma chunk_full_iff: "chunk_ok objs ck g c \<Longrightarrow> first_free ck = 0 \<longleftrightarrow> free_slots objs g c = {}"
  unfolding chunk_ok_def using free_list_zero by (metis set_empty)

lemma chunk_empty_iff:
  assumes "chunk_placed g c" and "chunk_ok objs ck g c"
  shows "free_count ck = word_of_nat (object_count g) \<longleftrightarrow> used_slots objs g c = {}"
proof -
  obtain xs where xs: "distinct xs" "set xs = free_slots objs g c" "free_count ck = word_of_nat (length xs)"
    using assms(2) by (auto simp: chunk_ok_def)
  have sub: "free_slots objs g c \<subseteq> slots g c" by (auto simp: free_slots_def)
  have len: "length xs = card (free_slots objs g c)" using xs by (metis distinct_card)
  have le: "card (free_slots objs g c) \<le> object_count g"
    using card_mono [OF _ sub] card_slots [OF assms(1)] by simp
  have "object_count g \<le> 255"
    using layout assms(1) by (auto simp: chunk_placed_def layout_ok_def)
  then have "unat (word_of_nat (length xs) :: u32) = length xs"
    "unat (word_of_nat (object_count g) :: u32) = object_count g"
    using le len by (simp_all add: unat_u32_of_nat)
  then have "free_count ck = word_of_nat (object_count g) \<longleftrightarrow> card (free_slots objs g c) = object_count g"
    using xs(3) len by metis
  also have "\<dots> \<longleftrightarrow> free_slots objs g c = slots g c"
    using card_subset_eq [OF _ sub] card_slots [OF assms(1)] by auto
  also have "\<dots> \<longleftrightarrow> used_slots objs g c = {}"
    using assms(2) free_used_disjoint [of objs g c] unfolding chunk_ok_def by blast
  finally show ?thesis .
qed

lemma chunk_alloc_ok:
  assumes "chunk_placed g c" and ok: "chunk_ok (objects h) (chunks h c) g c" and "first_free (chunks h c) \<noteq> 0"
  defines "x \<equiv> first_free (chunks h c)"
  defines "objs' \<equiv> (objects h)(x := \<lparr>obj_status = HEAP_OBJECT_USED, obj_link = word_of_nat (obj_size g)\<rparr>)"
  defines "ck' \<equiv> (chunks h c)\<lparr>first_free := obj_link (objects h x), free_count := free_count (chunks h c) - 1\<rparr>"
  shows "chunk_alloc g c h = Done (x + 8, h\<lparr>objects := objs', chunks := (chunks h)(c := ck')\<rparr>)"
    and "x \<in> free_slots (objects h) g c" and "chunk_ok objs' ck' g c"
    and "used_slots objs' g c = insert x (used_slots (objects h) g c)"
proof -
  obtain xs where xs: "free_list (objects h) x xs" "distinct xs" "set xs = free_slots (objects h) g c"
    "free_count (chunks h c) = word_of_nat (length xs)"
    using ok by (auto simp: chunk_ok_def x_def)
  have "xs \<noteq> []" using xs(1) assms(3) by (auto simp: x_def)
  then obtain ys where ys: "xs = x # ys" using xs(1) by (cases xs) auto
  show x: "x \<in> free_slots (objects h) g c" using xs(3) ys by auto
  show "chunk_alloc g c h = Done (x + 8, h\<lparr>objects := objs', chunks := (chunks h)(c := ck')\<rparr>)"
    using assms(3) by (simp add: chunk_alloc_def object_alloc_def x_def objs'_def ck'_def)
  have xs_slot: "x \<in> slots g c" using x by (simp add: free_slots_def)
  show used: "used_slots objs' g c = insert x (used_slots (objects h) g c)"
    using xs_slot by (auto simp: used_slots_def objs'_def)
  have free: "free_slots objs' g c = free_slots (objects h) g c - {x}"
    by (auto simp: free_slots_def objs'_def)
  have "free_list objs' (first_free ck') ys"
  proof -
    have "free_list (objects h) (obj_link (objects h x)) ys" using xs(1) ys by simp
    moreover have "x \<notin> set ys" using xs(2) ys by simp
    ultimately show ?thesis unfolding ck'_def by (subst free_list_cong) (auto simp: objs'_def)
  qed
  moreover have "set ys = free_slots objs' g c" "distinct ys" using xs(2,3) ys free by auto
  moreover have "free_count ck' = word_of_nat (length ys)" using xs(4) ys by (simp add: ck'_def)
  moreover have "slots g c = free_slots objs' g c \<union> used_slots objs' g c"
    using ok xs_slot unfolding free used chunk_ok_def by blast
  moreover have "\<forall>y \<in> used_slots objs' g c. obj_link (objs' y) = word_of_nat (obj_size g)"
    using ok unfolding used by (auto simp: objs'_def chunk_ok_def)
  ultimately show "chunk_ok objs' ck' g c" unfolding chunk_ok_def by blast
qed

lemma chunk_free_ok:
  assumes "chunk_placed g c" and ok: "chunk_ok (objects h) (chunks h c) g c"
    and used_x: "x \<in> used_slots (objects h) g c"
  defines "objs' \<equiv> (objects h)(x := \<lparr>obj_status = HEAP_OBJECT_FREE, obj_link = first_free (chunks h c)\<rparr>)"
  defines "ck' \<equiv> (chunks h c)\<lparr>first_free := x, free_count := free_count (chunks h c) + 1\<rparr>"
  shows "chunk_free c (x + 8) h = h\<lparr>objects := objs', chunks := (chunks h)(c := ck')\<rparr>"
    and "chunk_ok objs' ck' g c" and "used_slots objs' g c = used_slots (objects h) g c - {x}"
    and "first_free ck' \<noteq> 0"
proof -
  have slot: "x \<in> slots g c" using used_x by (simp add: used_slots_def)
  then have x0: "x \<noteq> 0" using slot_nonzero assms(1) by blast
  show "chunk_free c (x + 8) h = h\<lparr>objects := objs', chunks := (chunks h)(c := ck')\<rparr>"
    by (simp add: chunk_free_def object_free_def objs'_def ck'_def Let_def)
  show "first_free ck' \<noteq> 0" using x0 by (simp add: ck'_def)
  obtain xs where xs: "free_list (objects h) (first_free (chunks h c)) xs" "distinct xs"
    "set xs = free_slots (objects h) g c" "free_count (chunks h c) = word_of_nat (length xs)"
    using ok by (auto simp: chunk_ok_def)
  have notin: "x \<notin> set xs" using used_x xs(3) free_used_disjoint [of "objects h" g c] by auto
  have free: "free_slots objs' g c = insert x (free_slots (objects h) g c)"
    using slot by (auto simp: free_slots_def objs'_def)
  show used: "used_slots objs' g c = used_slots (objects h) g c - {x}"
    by (auto simp: used_slots_def objs'_def)
  have "free_list objs' (first_free (chunks h c)) xs"
    using xs(1) notin by (subst free_list_cong) (auto simp: objs'_def)
  then have "free_list objs' (first_free ck') (x # xs)" using x0 by (simp add: ck'_def objs'_def)
  moreover have "distinct (x # xs)" "set (x # xs) = free_slots objs' g c"
    using xs(2,3) notin free by auto
  moreover have "free_count ck' = word_of_nat (length (x # xs))" using xs(4) by (simp add: ck'_def)
  moreover have "slots g c = free_slots objs' g c \<union> used_slots objs' g c"
    using ok slot unfolding free used chunk_ok_def by blast
  moreover have "\<forall>y \<in> used_slots objs' g c. obj_link (objs' y) = word_of_nat (obj_size g)"
    using ok unfolding used by (auto simp: objs'_def chunk_ok_def)
  ultimately show "chunk_ok objs' ck' g c" unfolding chunk_ok_def by blast
qed

subsection \<open>A freshly constructed chunk\<close>

lemma init_objects_other: "x \<notin> slot g c ` {..<i} \<Longrightarrow> init_objects g c i objs x = objs x"
  by (induction i) (auto simp: lessThan_Suc)

lemma slot_notin:
  assumes "chunk_placed g c" and "i < object_count g"
  shows "slot g c i \<notin> slot g c ` {..<i}" and "slot g c i \<notin> slot g c ` {Suc i ..< object_count g}"
proof -
  have "slot g c i \<noteq> slot g c j" if "j < object_count g" "j \<noteq> i" for j
    using slot_inj [OF assms(1,2)] that by blast
  then show "slot g c i \<notin> slot g c ` {..<i}" "slot g c i \<notin> slot g c ` {Suc i ..< object_count g}"
    using assms(2) unfolding image_iff by (metis lessThan_iff less_irrefl less_trans)
      (use \<open>\<And>j. j < object_count g \<Longrightarrow> j \<noteq> i \<Longrightarrow> slot g c i \<noteq> slot g c j\<close> in fastforce)
qed

lemma chain_objects_other:
  "x \<notin> slot g c ` {..<i} \<Longrightarrow> snd (chain_objects g c i nxt objs) x = objs x"
  by (induction i arbitrary: nxt objs) (auto simp: lessThan_Suc)

lemma chain_objects_status:
  "chunk_placed g c \<Longrightarrow> i \<le> object_count g \<Longrightarrow> k < i \<Longrightarrow>
   obj_status (snd (chain_objects g c i nxt objs) (slot g c k)) = HEAP_OBJECT_FREE"
proof (induction i arbitrary: nxt objs)
  case (Suc i)
  show ?case
  proof (cases "k = i")
    case True
    then show ?thesis
      using Suc.prems slot_notin(1) [OF Suc.prems(1), of i] by (simp add: chain_objects_other)
  next
    case False
    then show ?thesis using Suc by simp
  qed
qed simp

lemma chain_objects_list:
  assumes "chunk_placed g c" and "i \<le> object_count g"
    and "free_list objs nxt ys" and "set ys \<subseteq> slot g c ` {i ..< object_count g}"
  shows "free_list (snd (chain_objects g c i nxt objs)) (fst (chain_objects g c i nxt objs))
      (map (slot g c) [0..<i] @ ys)"
  using assms(2-)
proof (induction i arbitrary: nxt objs ys)
  case (Suc i)
  let ?x = "slot g c i"
  let ?objs = "objs(?x := \<lparr>obj_status = HEAP_OBJECT_FREE, obj_link = nxt\<rparr>)"
  have i: "i < object_count g" using Suc.prems(1) by simp
  have nz: "?x \<noteq> 0" using slot_nonzero [OF assms(1)] i by (auto simp: slots_def)
  have "?x \<notin> set ys" using Suc.prems(3) slot_notin(2) [OF assms(1) i] by blast
  then have "free_list ?objs nxt ys"
    using Suc.prems(2) by (subst free_list_cong) auto
  then have "free_list ?objs ?x (?x # ys)" using nz by simp
  moreover have "set (?x # ys) \<subseteq> slot g c ` {i ..< object_count g}"
    using Suc.prems(3) i by (auto simp: subset_iff)
  moreover have "i \<le> object_count g" using i by simp
  ultimately have "free_list (snd (chain_objects g c i ?x ?objs)) (fst (chain_objects g c i ?x ?objs))
      (map (slot g c) [0..<i] @ ?x # ys)" by (intro Suc.IH)
  then show ?case by simp
qed simp

lemma chunk_construct_ok:
  assumes "chunk_placed g c" and "h' = chunk_construct g c h"
  shows "chunk_ok (objects h') (chunks h' c) g c" and "used_slots (objects h') g c = {}"
    and "first_free (chunks h' c) \<noteq> 0" and "groups h' = groups h" and "pages h' = pages h"
    and "x \<notin> slots g c \<Longrightarrow> objects h' x = objects h x" and "c' \<noteq> c \<Longrightarrow> chunks h' c' = chunks h c'"
proof -
  let ?n = "object_count g"
  let ?r = "chain_objects g c ?n 0 (init_objects g c ?n (objects h))"
  have h': "objects h' = snd ?r" "chunks h' = (chunks h)(c := \<lparr>chunk_next = 0, first_free = fst ?r,
      free_count = word_of_nat ?n\<rparr>)" "groups h' = groups h" "pages h' = pages h"
    by (simp_all add: assms(2) chunk_construct_def case_prod_beta Let_def)
  show "groups h' = groups h" "pages h' = pages h" "c' \<noteq> c \<Longrightarrow> chunks h' c' = chunks h c'"
    using h' by simp_all
  show "x \<notin> slots g c \<Longrightarrow> objects h' x = objects h x"
    by (simp add: h' chain_objects_other init_objects_other slots_def)
  have free: "free_slots (objects h') g c = slots g c"
    using chain_objects_status [OF assms(1), of ?n]
    by (auto simp: free_slots_def slots_def h')
  show used: "used_slots (objects h') g c = {}"
    using chain_objects_status [OF assms(1), of ?n]
    by (auto simp: used_slots_def slots_def h')
  let ?xs = "map (slot g c) [0..<?n]"
  have "free_list (objects h') (fst ?r) (?xs @ [])"
    unfolding h' by (rule chain_objects_list) (use assms(1) in auto)
  moreover have "distinct ?xs"
    using slot_inj [OF assms(1)] by (auto simp: distinct_map inj_on_def)
  moreover have "set ?xs = slots g c" by (auto simp: slots_def)
  ultimately show ok: "chunk_ok (objects h') (chunks h' c) g c"
    unfolding chunk_ok_def free used by (auto simp: h'(2) intro!: exI [of _ ?xs])
  have "layout_ok g" using layout assms(1) by (simp add: chunk_placed_def)
  then have "0 < ?n" by (simp add: layout_ok_def)
  then have "slots g c \<noteq> {}" by (auto simp: slots_def)
  then show "first_free (chunks h' c) \<noteq> 0" using chunk_full_iff [OF ok] free by simp
qed

subsection \<open>Well-formed groups and the heap invariant\<close>

fun chunk_list :: "(u32 \<Rightarrow> heap_chunk) \<Rightarrow> u32 \<Rightarrow> u32 list \<Rightarrow> bool" where
  "chunk_list cks a [] \<longleftrightarrow> a = 0"
| "chunk_list cks a (c # cs) \<longleftrightarrow> a = c \<and> c \<noteq> 0 \<and> chunk_list cks (chunk_next (cks c)) cs"

definition open_chunks :: "(u32 \<Rightarrow> heap_chunk) \<Rightarrow> u32 set \<Rightarrow> u32 set" where
  "open_chunks cks C = {c \<in> C. first_free (cks c) \<noteq> 0}"

definition group_ok :: "(u32 \<Rightarrow> heap_object) \<Rightarrow> (u32 \<Rightarrow> heap_chunk) \<Rightarrow> u32 \<Rightarrow> nat \<Rightarrow> u32 set \<Rightarrow> bool" where
  "group_ok objs cks first g C \<longleftrightarrow>
     (\<forall>c \<in> C. chunk_placed g c \<and> chunk_ok objs (cks c) g c) \<and>
     (\<exists>cs. chunk_list cks first cs \<and> distinct cs \<and> set cs = open_chunks cks C)"

text \<open>Chunks are distinct objects in memory: no two of them share a page.\<close>

definition chunks_apart :: "(nat \<Rightarrow> u32 set) \<Rightarrow> bool" where
  "chunks_apart G \<longleftrightarrow> (\<forall>g < 17. \<forall>g' < 17. \<forall>c \<in> G g. \<forall>c' \<in> G g'. (g, c) \<noteq> (g', c') \<longrightarrow>
     chunk_pages g c \<inter> chunk_pages g' c' = {})"

definition heap_inv :: "('p \<Rightarrow> bool) \<Rightarrow> ('p \<Rightarrow> nat set) \<Rightarrow> 'p heap \<Rightarrow> (nat \<Rightarrow> u32 set) \<Rightarrow> bool" where
  "heap_inv pinv used h G \<longleftrightarrow> pinv (pages h) \<and> length (groups h) = 17 \<and>
     (\<forall>g < 17. group_ok (objects h) (chunks h) (group_first h g) g (G g)) \<and>
     (\<forall>g < 17. \<forall>c \<in> G g. chunk_pages g c \<subseteq> used (pages h)) \<and> chunks_apart G"

text \<open>The abstract state: the pointers handed out, each with the size of its object.\<close>

definition live_objects :: "'p heap \<Rightarrow> (nat \<Rightarrow> u32 set) \<Rightarrow> (u32 \<times> nat) set" where
  "live_objects h G = {(x + 8, obj_size g) | g c x. g < 17 \<and> c \<in> G g \<and> x \<in> used_slots (objects h) g c}"

lemma chunk_list_cong:
  "(\<And>c. c \<in> set cs \<Longrightarrow> chunk_next (cks' c) = chunk_next (cks c)) \<Longrightarrow>
   chunk_list cks' a cs = chunk_list cks a cs"
  by (induction cs arbitrary: a) auto

lemma group_ok_cong:
  assumes "\<And>c x. c \<in> C \<Longrightarrow> x \<in> slots g c \<Longrightarrow> objs' x = objs x" and "\<And>c. c \<in> C \<Longrightarrow> cks' c = cks c"
  shows "group_ok objs' cks' first g C = group_ok objs cks first g C"
proof -
  have o: "open_chunks cks' C = open_chunks cks C" using assms(2) by (auto simp: open_chunks_def)
  have "chunk_ok objs' (cks' c) g c = chunk_ok objs (cks c) g c" if "c \<in> C" for c
    using assms that by (intro chunk_ok_cong) auto
  moreover have "set cs = open_chunks cks C \<Longrightarrow> chunk_list cks' first cs = chunk_list cks first cs" for cs
    using assms(2) by (intro chunk_list_cong) (auto simp: open_chunks_def)
  ultimately show ?thesis unfolding group_ok_def o by auto
qed

lemma heap_invD:
  assumes "heap_inv pinv used h G" and "g < 17"
  shows "group_ok (objects h) (chunks h) (group_first h g) g (G g)"
    and "c \<in> G g \<Longrightarrow> chunk_placed g c" and "c \<in> G g \<Longrightarrow> chunk_ok (objects h) (chunks h c) g c"
    and "c \<in> G g \<Longrightarrow> chunk_pages g c \<subseteq> used (pages h)"
  using assms by (auto simp: heap_inv_def group_ok_def)

lemma apartD:
  "chunks_apart G \<Longrightarrow> g < 17 \<Longrightarrow> g' < 17 \<Longrightarrow> c \<in> G g \<Longrightarrow> c' \<in> G g' \<Longrightarrow> (g, c) \<noteq> (g', c') \<Longrightarrow>
   chunk_pages g c \<inter> chunk_pages g' c' = {}"
  unfolding chunks_apart_def by blast

lemma chunks_apart_mono: "chunks_apart G \<Longrightarrow> (\<And>g. G' g \<subseteq> G g) \<Longrightarrow> chunks_apart G'"
  unfolding chunks_apart_def by (meson subsetD)

text \<open>An operation that touches one chunk of one group.\<close>

lemma heap_inv_step:
  assumes inv: "heap_inv pinv used h G" and g: "g < 17" and placed: "chunk_placed g c"
    and objs: "\<And>x. x \<notin> slots g c \<Longrightarrow> objects h' x = objects h x"
    and cks: "\<And>c'. c' \<notin> insert c (G g) \<Longrightarrow> chunks h' c' = chunks h c'"
    and first: "\<And>g'. g' \<noteq> g \<Longrightarrow> group_first h' g' = group_first h g'"
    and gs: "length (groups h') = 17" and p: "pinv (pages h')"
    and apart: "chunks_apart (G(g := insert c (G g)))" and sub: "C' \<subseteq> insert c (G g)"
    and ok: "group_ok (objects h') (chunks h') (group_first h' g) g C'"
    and pgs: "\<And>g' c'. g' < 17 \<Longrightarrow> c' \<in> (G(g := C')) g' \<Longrightarrow> chunk_pages g' c' \<subseteq> used (pages h')"
  shows "heap_inv pinv used h' (G(g := C'))"
proof -
  have other: "group_ok (objects h') (chunks h') (group_first h' g') g' (G g')" if g': "g' < 17" "g' \<noteq> g" for g'
  proof -
    have "slots g' c' \<inter> slots g c = {}" "c' \<notin> insert c (G g)" if c': "c' \<in> G g'" for c'
    proof -
      have ap: "chunk_pages g' c' \<inter> chunk_pages g d = {}" if "d \<in> insert c (G g)" for d
        using apartD [OF apart g'(1) g, of c' d] that c' g'(2) by auto
      show "slots g' c' \<inter> slots g c = {}"
        using slots_disjoint [OF heap_invD(2) [OF inv g'(1) c'] placed] ap [of c] by blast
      have "0 < page_count g'" "0 < page_count g" using layout g g'(1) by (auto simp: layout_ok_def Suc_le_eq)
      then have "page_of c' \<in> chunk_pages g' c'" "page_of c' \<in> chunk_pages g c'"
        by (auto simp: chunk_pages_def block_pages_def)
      then show "c' \<notin> insert c (G g)" using ap by blast
    qed
    then have "group_ok (objects h') (chunks h') (group_first h g') g' (G g') =
        group_ok (objects h) (chunks h) (group_first h g') g' (G g')"
      using objs cks by (intro group_ok_cong) blast+
    then show ?thesis using heap_invD(1) [OF inv g'(1)] first [OF g'(2)] by simp
  qed
  have "chunks_apart (G(g := C'))"
    using sub by (intro chunks_apart_mono [OF apart]) simp
  then show ?thesis using ok other p gs pgs by (auto simp: heap_inv_def)
qed

lemma used_slots_frame:
  assumes "chunks_apart (G(g := insert c (G g)))" and "g < 17" and "chunk_placed g c"
    and "g' < 17" and "c' \<in> G g'" and "chunk_placed g' c'" and "(g', c') \<noteq> (g, c)"
    and "\<And>x. x \<notin> slots g c \<Longrightarrow> objs' x = objs x"
  shows "used_slots objs' g' c' = used_slots objs g' c'"
proof -
  have "chunk_pages g' c' \<inter> chunk_pages g c = {}"
    using assms(5,7) by (intro apartD [OF assms(1,4,2)]) auto
  then have "slots g' c' \<inter> slots g c = {}" by (rule slots_disjoint [OF assms(6,3)])
  then show ?thesis using assms(8) by (intro slots_cong(2)) blast
qed

text \<open>The objects of the touched chunk, and all the others.\<close>

definition live_in :: "'p heap \<Rightarrow> nat \<Rightarrow> u32 \<Rightarrow> (u32 \<times> nat) set" where
  "live_in h g c = (\<lambda>x. (x + 8, obj_size g)) ` used_slots (objects h) g c"

definition live_elsewhere :: "'p heap \<Rightarrow> (nat \<Rightarrow> u32 set) \<Rightarrow> nat \<Rightarrow> u32 \<Rightarrow> (u32 \<times> nat) set" where
  "live_elsewhere h G g c = {p. \<exists>g' c'. g' < 17 \<and> c' \<in> G g' \<and> (g', c') \<noteq> (g, c) \<and> p \<in> live_in h g' c'}"

lemma live_objects_in: "p \<in> live_objects h G \<longleftrightarrow> (\<exists>g c. g < 17 \<and> c \<in> G g \<and> p \<in> live_in h g c)"
  by (auto simp: live_objects_def live_in_def)

lemma live_split:
  "g < 17 \<Longrightarrow> live_objects h G = (if c \<in> G g then live_in h g c else {}) \<union> live_elsewhere h G g c"
  unfolding set_eq_iff live_objects_in live_elsewhere_def by auto

lemma live_same_elsewhere:
  assumes "\<And>g' c'. g' < 17 \<Longrightarrow> c' \<in> G g' \<Longrightarrow> (g', c') \<noteq> (g, c) \<Longrightarrow>
      used_slots (objects h') g' c' = used_slots (objects h) g' c'"
    and "\<And>g' c'. (g', c') \<noteq> (g, c) \<Longrightarrow> c' \<in> G' g' \<longleftrightarrow> c' \<in> G g'"
  shows "live_elsewhere h' G' g c = live_elsewhere h G g c"
proof -
  have "p \<in> live_in h' g' c' \<longleftrightarrow> p \<in> live_in h g' c'" if "g' < 17" "c' \<in> G g'" "(g', c') \<noteq> (g, c)" for p g' c'
    using assms(1) [OF that] by (simp add: live_in_def)
  then show ?thesis using assms(2) unfolding live_elsewhere_def by blast
qed

text \<open>Distinct live objects do not overlap.\<close>

lemma used_slot_unique:
  assumes inv: "heap_inv pinv used h G" and g: "g < 17" "c \<in> G g" "x \<in> slots g c"
    and g': "g' < 17" "c' \<in> G g'" "x \<in> slots g' c'"
  shows "g = g' \<and> c = c'"
proof (rule ccontr)
  assume "\<not> ?thesis"
  then have "chunk_pages g c \<inter> chunk_pages g' c' = {}"
    using apartD [of G g g' c c'] inv g g' by (auto simp: heap_inv_def)
  then show False
    using slots_disjoint [OF heap_invD(2) [OF inv g(1,2)] heap_invD(2) [OF inv g'(1,2)]] g(3) g'(3) by blast
qed

subsection \<open>Allocation\<close>

lemma set_first_chunk_simps [simp]:
  "objects (set_first_chunk g v h) = objects h" "chunks (set_first_chunk g v h) = chunks h"
  "pages (set_first_chunk g v h) = pages h" "hlog (set_first_chunk g v h) = hlog h"
  "length (groups (set_first_chunk g v h)) = length (groups h)"
  by (simp_all add: set_first_chunk_def)

lemma group_first_set [simp]:
  "g < length (groups h) \<Longrightarrow> group_first (set_first_chunk g v h) g' = (if g' = g then v else group_first h g')"
  by (simp add: set_first_chunk_def group_first_def nth_list_update)

lemma group_first_cong: "groups h' = groups h \<Longrightarrow> group_first h' g = group_first h g"
  by (simp add: group_first_def)

lemma chunk_chain_simps [simp]:
  "objects (chunk_chain c v h) = objects h" "groups (chunk_chain c v h) = groups h"
  "pages (chunk_chain c v h) = pages h"
  "chunks (chunk_chain c v h) = (chunks h)(c := (chunks h c)\<lparr>chunk_next := v\<rparr>)"
  by (simp_all add: chunk_chain_def)

lemma group_ok_member:
  "group_ok objs cks first g C \<Longrightarrow> c \<in> C \<Longrightarrow> chunk_placed g c \<and> chunk_ok objs (cks c) g c"
  by (simp add: group_ok_def)

text \<open>The other chunks of the group keep their well-formedness when one chunk's objects change.\<close>

lemma group_others_ok:
  assumes inv: "heap_inv pinv used h G" and g: "g < 17" and placed: "chunk_placed g c"
    and apart: "chunks_apart (G(g := insert c (G g)))"
    and objs: "\<And>x. x \<notin> slots g c \<Longrightarrow> objs' x = objects h x"
    and d: "d \<in> G g" "d \<noteq> c" and ck: "first_free ck' = first_free (chunks h d)" "free_count ck' = free_count (chunks h d)"
  shows "chunk_placed g d \<and> chunk_ok objs' ck' g d"
proof -
  have "chunk_pages g d \<inter> chunk_pages g c = {}"
    using d by (intro apartD [OF apart g g]) auto
  then have "slots g d \<inter> slots g c = {}"
    by (rule slots_disjoint [OF heap_invD(2) [OF inv g d(1)] placed])
  then have "chunk_ok objs' ck' g d = chunk_ok (objects h) (chunks h d) g d"
    using objs ck by (intro chunk_ok_cong) blast+
  then show ?thesis using heap_invD(2,3) [OF inv g d(1)] by simp
qed

text \<open>Taking an object from chunk \<open>c\<close>, which heads the list of open chunks (or is to be linked there).\<close>

lemma group_alloc_existing:
  assumes inv: "heap_inv pinv used h G" and g: "g < 17" and c0: "group_first h g \<noteq> 0"
  shows "\<exists>x h'. group_alloc palloc g h = Done (x + 8, h') \<and> heap_inv pinv used h' G \<and>
    live_objects h' G = insert (x + 8, obj_size g) (live_objects h G) \<and>
    (x + 8, obj_size g) \<notin> live_objects h G"
proof -
  define c where "c = group_first h g"
  define x where "x = first_free (chunks h c)"
  define objs' where "objs' = (objects h)(x := \<lparr>obj_status = HEAP_OBJECT_USED, obj_link = word_of_nat (obj_size g)\<rparr>)"
  define ck' where "ck' = (chunks h c)\<lparr>first_free := obj_link (objects h x), free_count := free_count (chunks h c) - 1\<rparr>"
  define h1 where "h1 = h\<lparr>objects := objs', chunks := (chunks h)(c := ck')\<rparr>"
  obtain cs where cs: "chunk_list (chunks h) c cs" "distinct cs" "set cs = open_chunks (chunks h) (G g)"
    using heap_invD(1) [OF inv g] unfolding group_ok_def c_def by blast
  then obtain cs' where cs': "cs = c # cs'" using c0 by (cases cs) (auto simp: c_def)
  then have c: "c \<in> G g" "first_free (chunks h c) \<noteq> 0" using cs(3) by (auto simp: open_chunks_def)
  have placed: "chunk_placed g c" and ok: "chunk_ok (objects h) (chunks h c) g c"
    using heap_invD [OF inv g] c(1) by auto
  note ca = chunk_alloc_ok [OF placed ok c(2), folded x_def, folded objs'_def ck'_def, folded h1_def]
  define h' where "h' = (if first_free ck' = 0 then set_first_chunk g (chunk_next ck') h1 else h1)"
  have len: "length (groups h) = 17" using inv by (simp add: heap_inv_def)
  have run: "group_alloc palloc g h = Done (x + 8, h')"
    using c0 by (simp add: group_alloc_def Let_def c_def [symmetric] ca(1) h'_def chunk_full_def)
      (simp add: h1_def)
  have h': "objects h' = objs'" "chunks h' = (chunks h)(c := ck')" "pages h' = pages h"
    "length (groups h') = 17"
    using len by (simp_all add: h'_def h1_def)
  have gf: "group_first h1 g' = group_first h g'" for g' by (simp add: group_first_def h1_def)
  have len1: "g < length (groups h1)" using len g by (simp add: h1_def)
  have xs: "x \<in> slots g c" using ca(2) by (simp add: free_slots_def)
  have objs: "y \<notin> slots g c \<Longrightarrow> objects h' y = objects h y" for y
    using xs by (auto simp: h' objs'_def)
  have same: "G(g := insert c (G g)) = G" using c(1) by (simp add: insert_absorb fun_upd_idem)
  have apart: "chunks_apart (G(g := insert c (G g)))" using inv unfolding same heap_inv_def by blast
  have nxt: "chunk_next ck' = chunk_next (chunks h c)" by (simp add: ck'_def)
  have tail: "chunk_list ((chunks h)(c := ck')) (chunk_next ck') cs'"
    using cs(1,2) cs' nxt by (subst chunk_list_cong [where cks = "chunks h"]) auto
  have others: "d \<in> G g \<Longrightarrow> d \<noteq> c \<Longrightarrow> chunk_placed g d \<and> chunk_ok objs' (chunks h d) g d" for d
    using group_others_ok [OF inv g placed apart, of objs' d "chunks h d"] objs h'(1) by simp
  have "group_ok (objects h') (chunks h') (group_first h' g) g (G g)"
  proof (cases "first_free ck' = 0")
    case True
    then have "group_first h' g = chunk_next ck'" using len1 by (simp add: h'_def)
    moreover have "set cs' = open_chunks ((chunks h)(c := ck')) (G g)"
      using cs cs' True by (auto simp: open_chunks_def)
    ultimately show ?thesis
      using tail cs(2) cs' ca(3) placed others unfolding group_ok_def h'(1,2) by auto
  next
    case False
    then have "group_first h' g = c" using gf by (simp add: h'_def c_def)
    moreover have "chunk_list ((chunks h)(c := ck')) c cs" using tail cs(1) cs' by simp
    moreover have "set cs = open_chunks ((chunks h)(c := ck')) (G g)"
      using cs cs' False by (auto simp: open_chunks_def)
    ultimately show ?thesis
      using cs(2) ca(3) placed others unfolding group_ok_def h'(1,2) by auto
  qed
  then have "heap_inv pinv used h' (G(g := G g))"
    using inv objs h' gf len1
    by (intro heap_inv_step [OF inv g placed]) (auto simp: h'_def heap_inv_def apart [unfolded same] same)
  then have inv': "heap_inv pinv used h' G" by simp
  have elsewhere: "used_slots (objects h') g' c' = used_slots (objects h) g' c'"
    if "g' < 17" "c' \<in> G g'" "(g', c') \<noteq> (g, c)" for g' c'
    using used_slots_frame [OF apart g placed that(1,2) heap_invD(2) [OF inv that(1,2)] that(3)] objs by blast
  have "live_in h' g c = insert (x + 8, obj_size g) (live_in h g c)"
    unfolding live_in_def h'(1) ca(4) by simp
  moreover have "live_elsewhere h' G g c = live_elsewhere h G g c"
    by (rule live_same_elsewhere [OF elsewhere refl])
  ultimately have live: "live_objects h' G = insert (x + 8, obj_size g) (live_objects h G)"
    using c(1) by (simp add: live_split [OF g, where c = c])
  have "(x + 8, obj_size g) \<notin> live_objects h G"
  proof
    assume "(x + 8, obj_size g) \<in> live_objects h G"
    then obtain g' c' where l: "g' < 17" "c' \<in> G g'" "x \<in> used_slots (objects h) g' c'"
      by (auto simp: live_objects_def)
    then have "x \<in> slots g' c'" by (simp add: used_slots_def)
    then have "g = g' \<and> c = c'" by (rule used_slot_unique [OF inv g c(1) xs l(1,2)])
    then show False using l(3) ca(2) free_used_disjoint [of "objects h" g c] by blast
  qed
  then show ?thesis using run inv' live by blast
qed

lemma heap_inv_pages:
  "heap_inv pinv used h G \<Longrightarrow> pinv ps \<Longrightarrow> used (pages h) \<subseteq> used ps \<Longrightarrow> heap_inv pinv used (h\<lparr>pages := ps\<rparr>) G"
  unfolding heap_inv_def group_first_def by (simp, meson subset_trans)

lemma page_count_word:
  "g < 17 \<Longrightarrow> unat (word_of_nat (page_count g) :: u32) = page_count g \<and> page_count g \<le> 128"
proof -
  assume "g < 17"
  then have "page_count g \<le> 128" using layout by (simp add: layout_ok_def)
  then show ?thesis by (simp add: unat_u32_of_nat)
qed

lemma chunk_pages_self: "g < 17 \<Longrightarrow> page_of c \<in> chunk_pages g c"
proof -
  assume "g < 17"
  from layout [OF this] have "0 < page_count g" by (simp add: layout_ok_def)
  then show ?thesis by (simp add: chunk_pages_def block_pages_def)
qed

text \<open>What allocation promises: failure leaves everything as it was; success adds one object that was
  not live, in the chunks \<open>G'\<close> of the new state.\<close>

definition alloc_result ::
    "('p \<Rightarrow> bool) \<Rightarrow> ('p \<Rightarrow> nat set) \<Rightarrow> 'p heap \<Rightarrow> (nat \<Rightarrow> u32 set) \<Rightarrow> nat \<Rightarrow> u32 \<Rightarrow> 'p heap \<Rightarrow> (nat \<Rightarrow> u32 set) \<Rightarrow> bool" where
  "alloc_result pinv used h G n ptr h' G' \<longleftrightarrow> heap_inv pinv used h' G' \<and>
     (if ptr = 0 then live_objects h' G' = live_objects h G
      else (ptr, n) \<notin> live_objects h G \<and> live_objects h' G' = insert (ptr, n) (live_objects h G))"

lemma data_pointer_nonzero: "chunk_placed g c \<Longrightarrow> x \<in> slots g c \<Longrightarrow> x + 8 \<noteq> 0"
proof
  assume a: "chunk_placed g c" "x \<in> slots g c" "x + 8 = 0"
  obtain i where i: "i < object_count g" "x = slot g c i" using a(2) by (auto simp: slots_def)
  have "unat c = 4096 * page_of c" "page_of c + page_count g < 0x100000"
    using a(1) by (auto simp: chunk_placed_def page_block_def)
  then have "unat x + 8 < 4294967296"
    using unat_slot [OF a(1) i(1)] unfolding i(2) sizeof_object_def by linarith
  then have "unat (x + 8) = unat x + 8" by (subst unat_u32_add) auto
  then show False using a(3) by simp
qed

context page_provider
begin

lemma fresh_chunk_apart:
  assumes inv: "heap_inv pinv used h G" and g: "g < 17"
    and fresh: "chunk_pages g a \<inter> used (pages h) = {}"
  shows "chunks_apart (G(g := insert a (G g)))" and "a \<notin> G g"
proof -
  have old: "chunk_pages g a \<inter> chunk_pages g' c' = {}" if "g' < 17" "c' \<in> G g'" for g' c'
    using fresh heap_invD(4) [OF inv that(1)] that(2) by blast
  show "a \<notin> G g" using old [OF g, of a] chunk_pages_self [OF g, of a] by blast
  have ap: "chunks_apart G" using inv by (simp add: heap_inv_def)
  show "chunks_apart (G(g := insert a (G g)))"
    unfolding chunks_apart_def
  proof (intro allI impI ballI)
    fix g1 g2 c1 c2
    assume g12: "g1 < 17" "g2 < 17" and c: "c1 \<in> (G(g := insert a (G g))) g1"
      "c2 \<in> (G(g := insert a (G g))) g2" and ne: "(g1, c1) \<noteq> (g2, c2)"
    have "c1 \<in> G g1 \<or> g1 = g \<and> c1 = a" "c2 \<in> G g2 \<or> g2 = g \<and> c2 = a"
      using c by (auto split: if_splits)
    then show "chunk_pages g1 c1 \<inter> chunk_pages g2 c2 = {}"
      using apartD [OF ap g12 _ _ ne] old [OF g12(1)] old [OF g12(2)] ne by blast
  qed
qed

lemma alloc_from_new_ok:
  assumes inv: "heap_inv pinv used h G" and g: "g < 17" and empty: "group_first h g = 0"
    and got: "palloc (word_of_nat (page_count g)) (pages h) = Done (a, ps)"
  shows "\<exists>ptr h' G'. alloc_from_new palloc g h = Done (ptr, h') \<and>
    alloc_result pinv used h G (obj_size g) ptr h' G' \<and> (ptr = 0 \<longleftrightarrow> a = 0)"
proof -
  have pi: "pinv (pages h)" and len: "length (groups h) = 17" using inv by (simp_all add: heap_inv_def)
  note pb = palloc_block [OF pi _ got, unfolded conjunct1 [OF page_count_word [OF g]]]
  have n: "page_count g \<le> 128" using page_count_word [OF g] by simp
  show ?thesis
  proof (cases "a = 0")
    case True
    then have "alloc_from_new palloc g h = Done (0, h\<lparr>pages := ps\<rparr>)"
      by (simp add: alloc_from_new_def got Let_def)
    moreover have "heap_inv pinv used (h\<lparr>pages := ps\<rparr>) G"
      using pb n True by (intro heap_inv_pages [OF inv]) (auto simp: page_block_def)
    moreover have "live_objects (h\<lparr>pages := ps\<rparr>) G = live_objects h G" by (simp add: live_objects_def)
    ultimately show ?thesis using True unfolding alloc_result_def by auto
  next
    case False
    then have blk: "pinv ps" "page_block a (page_count g)" "chunk_pages g a \<inter> used (pages h) = {}"
      "used ps = used (pages h) \<union> chunk_pages g a"
      using pb n by (auto simp: chunk_pages_def)
    have placed: "chunk_placed g a" using blk(2) g by (simp add: chunk_placed_def)
    note apart = fresh_chunk_apart(1) [OF inv g blk(3)] and new = fresh_chunk_apart(2) [OF inv g blk(3)]
    define h1 where "h1 = h\<lparr>pages := ps\<rparr>"
    define h2 where "h2 = chunk_construct g a h1"
    note con = chunk_construct_ok [OF placed h2_def]
    define x where "x = first_free (chunks h2 a)"
    define objs' where "objs' = (objects h2)(x := \<lparr>obj_status = HEAP_OBJECT_USED, obj_link = word_of_nat (obj_size g)\<rparr>)"
    define ck' where "ck' = (chunks h2 a)\<lparr>first_free := obj_link (objects h2 x), free_count := free_count (chunks h2 a) - 1\<rparr>"
    define h3 where "h3 = h2\<lparr>objects := objs', chunks := (chunks h2)(a := ck')\<rparr>"
    note ca = chunk_alloc_ok [OF placed con(1,3), folded x_def, folded objs'_def ck'_def, folded h3_def]
    define h' where "h' = (if \<not> chunk_full h3 a then set_first_chunk g a (chunk_chain a (group_first h3 g) h3) else h3)"
    have run: "alloc_from_new palloc g h = Done (x + 8, h')"
      using False by (simp add: alloc_from_new_def got Let_def h1_def [symmetric] h2_def [symmetric] ca(1) h'_def)
    have gf: "group_first h3 g' = group_first h g'" for g'
      by (simp add: group_first_def h3_def con(4) h1_def)
    have len3: "length (groups h3) = 17" using len by (simp add: h3_def con(4) h1_def)
    have h': "objects h' = objs'" "pages h' = ps" "length (groups h') = 17"
      using len3 by (simp_all add: h'_def h3_def con(5) h1_def)
    have xs: "x \<in> slots g a" using ca(2) by (simp add: free_slots_def)
    have objs: "y \<notin> slots g a \<Longrightarrow> objects h' y = objects h y" for y
      using xs con(6) [of y] by (auto simp: h' objs'_def h1_def)
    have cks: "c \<noteq> a \<Longrightarrow> chunks h' c = chunks h c" for c
      using con(7) [of c] by (simp add: h'_def h3_def h1_def)
    have cka: "first_free (chunks h' a) = first_free ck'" "free_count (chunks h' a) = free_count ck'"
      by (simp_all add: h'_def h3_def)
    have oka: "chunk_ok objs' (chunks h' a) g a" using ca(3) cka chunk_ok_cong by blast
    have others: "d \<in> G g \<Longrightarrow> chunk_placed g d \<and> chunk_ok objs' (chunks h' d) g d" for d
      using group_others_ok [OF inv g placed apart, of objs' d "chunks h' d"] objs h'(1) new cks
      by (cases "d = a") auto
    obtain cs where cs: "chunk_list (chunks h) 0 cs" "set cs = open_chunks (chunks h) (G g)"
      using heap_invD(1) [OF inv g] unfolding group_ok_def empty by blast
    then have "open_chunks (chunks h) (G g) = {}" by (cases cs) auto
    then have none: "open_chunks (chunks h') (G g) = {}"
      using cks new by (auto simp: open_chunks_def) metis
    have "\<exists>cs. chunk_list (chunks h') (group_first h' g) cs \<and> distinct cs \<and>
        set cs = open_chunks (chunks h') (insert a (G g))"
    proof (cases "first_free ck' = 0")
      case True
      then have "group_first h' g = 0" using gf empty by (simp add: h'_def chunk_full_def h3_def)
      moreover have "open_chunks (chunks h') (insert a (G g)) = {}"
        using none cka True by (auto simp: open_chunks_def)
      ultimately show ?thesis by (intro exI [of _ "[]"]) simp
    next
      case False
      then have l: "group_first h' g = a" "chunk_next (chunks h' a) = 0"
        using gf empty len3 g by (simp_all add: h'_def chunk_full_def h3_def)
      moreover have "open_chunks (chunks h') (insert a (G g)) = {a}"
        using none cka False by (auto simp: open_chunks_def)
      moreover have "a \<noteq> 0" using blk(2) by (simp add: page_block_def)
      ultimately show ?thesis by (intro exI [of _ "[a]"]) simp
    qed
    then have "group_ok (objects h') (chunks h') (group_first h' g) g (insert a (G g))"
      using oka others placed by (auto simp: group_ok_def h'(1))
    moreover have "group_first h' g' = group_first h g'" if "g' \<noteq> g" for g'
      using that gf len3 g by (auto simp: h'_def) (simp add: group_first_def)
    moreover have "chunk_pages g' c' \<subseteq> used (pages h')" if "g' < 17" "c' \<in> (G(g := insert a (G g))) g'" for g' c'
      using that heap_invD(4) [OF inv that(1)] by (auto simp: h'(2) blk(4) split: if_splits)
    ultimately have inv': "heap_inv pinv used h' (G(g := insert a (G g)))"
      using objs cks h' blk(1) apart
      by (intro heap_inv_step [OF inv g placed]) auto
    have elsewhere: "used_slots (objects h') g' c' = used_slots (objects h) g' c'"
      if "g' < 17" "c' \<in> G g'" "(g', c') \<noteq> (g, a)" for g' c'
      using used_slots_frame [OF apart g placed that(1,2) heap_invD(2) [OF inv that(1,2)] that(3)] objs by blast
    have "live_elsewhere h' (G(g := insert a (G g))) g a = live_elsewhere h G g a"
      by (rule live_same_elsewhere [OF elsewhere]) auto
    moreover have "live_in h' g a = {(x + 8, obj_size g)}"
      unfolding live_in_def h'(1) ca(4) con(2) by simp
    ultimately have live: "live_objects h' (G(g := insert a (G g))) = insert (x + 8, obj_size g) (live_objects h G)"
      using new by (simp add: live_split [OF g, where c = a])
    have "(x + 8, obj_size g) \<notin> live_objects h G"
    proof
      assume "(x + 8, obj_size g) \<in> live_objects h G"
      then obtain g' c' where l: "g' < 17" "c' \<in> G g'" "x \<in> used_slots (objects h) g' c'"
        by (auto simp: live_objects_def)
      then have "x \<in> slots g' c'" by (simp add: used_slots_def)
      moreover have "slots g' c' \<inter> slots g a = {}"
        using blk(3) heap_invD(2,4) [OF inv l(1,2)] by (intro slots_disjoint placed) auto
      ultimately show False using xs by blast
    qed
    moreover have "x + 8 \<noteq> 0" by (rule data_pointer_nonzero [OF placed xs])
    ultimately show ?thesis using run inv' live False unfolding alloc_result_def by auto
  qed
qed

end

subsection \<open>Release\<close>

lemma group_first_chain [simp]: "group_first (chunk_chain c v h) g = group_first h g"
  by (simp add: group_first_def)

lemma find_pred_list:
  "chunk_list cks a (ys @ p # c # zs) \<Longrightarrow> distinct (ys @ p # c # zs) \<Longrightarrow> find_pred cks c a = Some p"
proof (induction ys arbitrary: a)
  case Nil
  then show ?case by (subst find_pred.simps) simp
next
  case (Cons y ys)
  then have "chunk_list cks (chunk_next (cks y)) (ys @ p # c # zs)" "a = y" "a \<noteq> 0" by simp_all
  moreover from this(1) have "chunk_next (cks y) \<noteq> c"
    using Cons.prems(2) by (cases ys) auto
  ultimately show ?case using Cons by (subst find_pred.simps) simp
qed

lemma chunk_list_unlink:
  "chunk_list cks a (ys @ p # c # zs) \<Longrightarrow> distinct (ys @ p # c # zs) \<Longrightarrow>
   chunk_list (cks(p := (cks p)\<lparr>chunk_next := chunk_next (cks c)\<rparr>)) a (ys @ p # zs)"
proof (induction ys arbitrary: a)
  case Nil
  then have "chunk_list cks (chunk_next (cks c)) zs" "p \<notin> set zs" by auto
  then have "chunk_list (cks(p := (cks p)\<lparr>chunk_next := chunk_next (cks c)\<rparr>)) (chunk_next (cks c)) zs"
    by (subst chunk_list_cong [where cks = cks]) auto
  then show ?case using Nil by (simp add: fun_upd_def)
next
  case (Cons y ys)
  then show ?case by auto
qed

lemma chunk_list_nonzero: "chunk_list cks a cs \<Longrightarrow> 0 \<notin> set cs"
  by (induction cs arbitrary: a) auto

definition same_chunk_state :: "heap_chunk \<Rightarrow> heap_chunk \<Rightarrow> bool" where
  "same_chunk_state ck ck' \<longleftrightarrow> first_free ck' = first_free ck \<and> free_count ck' = free_count ck"

lemma unlink_chunk_ok:
  assumes list: "chunk_list (chunks h) (group_first h g) cs" and dist: "distinct cs" and c: "c \<in> set cs"
    and g: "g < length (groups h)"
  shows "\<exists>h' cs'. unlink_chunk g c h = Done h' \<and> objects h' = objects h \<and> pages h' = pages h \<and>
    length (groups h') = length (groups h) \<and> (\<forall>g'. g' \<noteq> g \<longrightarrow> group_first h' g' = group_first h g') \<and>
    (\<forall>d. same_chunk_state (chunks h d) (chunks h' d)) \<and> (\<forall>d. d \<notin> set cs \<longrightarrow> chunks h' d = chunks h d) \<and>
    chunk_list (chunks h') (group_first h' g) cs' \<and> distinct cs' \<and> set cs' = set cs - {c}"
proof (cases "c = group_first h g")
  case True
  then obtain cs' where cs': "cs = c # cs'" using list c by (cases cs) auto
  let ?h = "set_first_chunk g (chunk_next (chunks h c)) h"
  have "unlink_chunk g c h = Done ?h" using True by (simp add: unlink_chunk_def)
  then show ?thesis
    using list dist cs' g by (intro exI [of _ ?h] exI [of _ cs']) (auto simp: same_chunk_state_def)
next
  case False
  obtain us zs where us: "cs = us @ c # zs" using c by (meson split_list)
  then have "us \<noteq> []" using False list by (cases us) auto
  then obtain ys p where "us = ys @ [p]" by (metis rev_exhaust)
  then have cs: "cs = ys @ p # c # zs" using us by simp
  let ?h = "chunk_chain p (chunk_next (chunks h c)) h"
  have p0: "p \<noteq> 0"
  proof -
    have "0 \<notin> set cs" using chunk_list_nonzero [OF list] .
    then show ?thesis using cs by auto
  qed
  have "unlink_chunk g c h = Done ?h"
    using False p0 find_pred_list [OF list [unfolded cs] dist [unfolded cs]] by (simp add: unlink_chunk_def)
  moreover have "chunk_list (chunks ?h) (group_first ?h g) (ys @ p # zs)"
    using chunk_list_unlink [OF list [unfolded cs] dist [unfolded cs]]
    by (simp add: group_first_def)
  ultimately show ?thesis
    using dist cs by (intro exI [of _ ?h] exI [of _ "ys @ p # zs"])
      (auto simp: same_chunk_state_def group_first_def)
qed

lemma chunk_ok_same_state:
  "same_chunk_state ck ck' \<Longrightarrow> chunk_ok objs ck' g c = chunk_ok objs ck g c"
  by (intro chunk_ok_cong) (auto simp: same_chunk_state_def)


text \<open>
  What freeing does to the pages and the chunks: the chunk whose last object went is given back, with exactly its
  pages; no other free changes the pages in use.
\<close>

definition chunk_released ::
    "('p \<Rightarrow> nat set) \<Rightarrow> 'p heap \<Rightarrow> (nat \<Rightarrow> u32 set) \<Rightarrow> nat \<Rightarrow> u32 \<Rightarrow> bool \<Rightarrow> 'p heap \<Rightarrow> (nat \<Rightarrow> u32 set) \<Rightarrow> bool" where
  "chunk_released used h G g c emptied h' G' \<longleftrightarrow>
     (if emptied then used (pages h') = used (pages h) - chunk_pages g c \<and> G' = G(g := G g - {c})
      else used (pages h') = used (pages h) \<and> G' = G)"

context page_provider
begin

lemma group_free_ok:
  assumes inv: "heap_inv pinv used h G" and g: "g < 17" and c: "c \<in> G g"
    and ux: "x \<in> used_slots (objects h) g c"
  shows "\<exists>h' G'. group_free pfree g (x + 8) h = Done h' \<and> heap_inv pinv used h' G' \<and>
    live_objects h' G' = live_objects h G - {(x + 8, obj_size g)} \<and>
    chunk_released used h G g c (live_in h g c = {(x + 8, obj_size g)}) h' G'"
proof -
  have placed: "chunk_placed g c" and ok: "chunk_ok (objects h) (chunks h c) g c"
    and cp: "chunk_pages g c \<subseteq> used (pages h)" using heap_invD [OF inv g] c by auto
  have pi: "pinv (pages h)" and len: "length (groups h) = 17" using inv by (simp_all add: heap_inv_def)
  have xs: "x \<in> slots g c" using ux by (simp add: used_slots_def)
  have chunk: "(x + 8) AND NOT PAGE_MASK = c" by (rule data_pointer_chunk [OF placed xs])
  define objs' where "objs' = (objects h)(x := \<lparr>obj_status = HEAP_OBJECT_FREE, obj_link = first_free (chunks h c)\<rparr>)"
  define ck' where "ck' = (chunks h c)\<lparr>first_free := x, free_count := free_count (chunks h c) + 1\<rparr>"
  define h1 where "h1 = h\<lparr>objects := objs', chunks := (chunks h)(c := ck')\<rparr>"
  note cf = chunk_free_ok [OF placed ok ux, folded objs'_def ck'_def, folded h1_def]
  have h1: "objects h1 = objs'" "chunks h1 = (chunks h)(c := ck')" "pages h1 = pages h"
    "groups h1 = groups h" by (simp_all add: h1_def)
  have gf: "group_first h1 g' = group_first h g'" for g' by (simp add: group_first_def h1_def)
  have same: "G(g := insert c (G g)) = G" using c by (simp add: insert_absorb fun_upd_idem)
  have apart: "chunks_apart (G(g := insert c (G g)))" using inv unfolding same heap_inv_def by blast
  have objs: "y \<notin> slots g c \<Longrightarrow> objs' y = objects h y" for y using xs by (auto simp: objs'_def)
  obtain cs where cs: "chunk_list (chunks h) (group_first h g) cs" "distinct cs"
    "set cs = open_chunks (chunks h) (G g)"
    using heap_invD(1) [OF inv g] unfolding group_ok_def by blast
  have cs1: "chunk_list (chunks h1) (group_first h1 g) cs"
    using cs(1) unfolding gf h1(2) by (subst chunk_list_cong [where cks = "chunks h"]) (auto simp: ck'_def)
  have full: "chunk_full h c \<longleftrightarrow> c \<notin> set cs" using cs(3) c by (simp add: chunk_full_def open_chunks_def)
  have nxt: "chunk_next ck' = chunk_next (chunks h c)" by (simp add: ck'_def)
  have others: "d \<in> G g \<Longrightarrow> d \<noteq> c \<Longrightarrow> same_chunk_state (chunks h d) ck \<Longrightarrow>
      chunk_placed g d \<and> chunk_ok objs' ck g d" for d ck
    using group_others_ok [OF inv g placed apart, of objs' d ck] objs by (simp add: same_chunk_state_def)
  have empty: "chunk_empty g h1 c \<longleftrightarrow> used_slots objs' g c = {}"
    using chunk_empty_iff [OF placed cf(2)] by (simp add: chunk_empty_def h1_def)
  have emptied: "live_in h g c = {(x + 8, obj_size g)} \<longleftrightarrow> used_slots objs' g c = {}"
  proof -
    have "y = x" if "live_in h g c = {(x + 8, obj_size g)}" "y \<in> used_slots (objects h) g c" for y
    proof -
      have "(y + 8, obj_size g) \<in> live_in h g c" using that(2) by (simp add: live_in_def)
      then show ?thesis using that(1) by simp
    qed
    then have "live_in h g c = {(x + 8, obj_size g)} \<longleftrightarrow> used_slots (objects h) g c = {x}"
      using ux by (auto simp: live_in_def)
    then show ?thesis using ux unfolding cf(3) by auto
  qed
  have elsewhere: "used_slots objs' g' c' = used_slots (objects h) g' c'"
    if "g' < 17" "c' \<in> G g'" "(g', c') \<noteq> (g, c)" for g' c'
    using used_slots_frame [OF apart g placed that(1,2) heap_invD(2) [OF inv that(1,2)] that(3)] objs by blast
  have notelse: "(x + 8, obj_size g) \<notin> live_elsewhere h G g c"
  proof
    assume "(x + 8, obj_size g) \<in> live_elsewhere h G g c"
    then obtain g' c' where l: "g' < 17" "c' \<in> G g'" "(g', c') \<noteq> (g, c)" "x \<in> used_slots (objects h) g' c'"
      by (auto simp: live_elsewhere_def live_in_def)
    then have "x \<in> slots g' c'" by (simp add: used_slots_def)
    then show False using used_slot_unique [OF inv g c xs l(1,2)] l(3) by simp
  qed
  have live: "live_objects h' (G(g := C')) = live_objects h G - {(x + 8, obj_size g)}"
    if h': "objects h' = objs'" and C': "C' = G g \<or> C' = G g - {c} \<and> used_slots objs' g c = {}" for h' C'
  proof -
    have e: "live_elsewhere h' (G(g := C')) g c = live_elsewhere h G g c"
      using C' by (intro live_same_elsewhere) (auto simp: h' elsewhere split: if_splits)
    have "live_in h' g c = live_in h g c - {(x + 8, obj_size g)}"
      unfolding live_in_def h' cf(3) by auto
    moreover have "c \<notin> C' \<Longrightarrow> live_in h' g c = {}" using C' c by (auto simp: live_in_def h')
    ultimately show ?thesis
      using c e notelse by (auto simp: live_split [OF g, where c = c] split: if_splits)
  qed
  have inv_step: "heap_inv pinv used h' (G(g := C'))"
    if "objects h' = objs'" and "\<And>d. d \<notin> insert c (G g) \<Longrightarrow> chunks h' d = chunks h d"
      and "\<And>g'. g' \<noteq> g \<Longrightarrow> group_first h' g' = group_first h g'" and "length (groups h') = 17"
      and "pinv (pages h')" and "C' \<subseteq> G g"
      and "\<And>d. d \<in> C' \<Longrightarrow> d \<noteq> c \<Longrightarrow> same_chunk_state (chunks h d) (chunks h' d)"
      and "c \<in> C' \<Longrightarrow> same_chunk_state ck' (chunks h' c)"
      and "\<exists>cs. chunk_list (chunks h') (group_first h' g) cs \<and> distinct cs \<and> set cs = open_chunks (chunks h') C'"
      and "\<And>g' c'. g' < 17 \<Longrightarrow> c' \<in> (G(g := C')) g' \<Longrightarrow> chunk_pages g' c' \<subseteq> used (pages h')" for h' C'
  proof (rule heap_inv_step [OF inv g placed])
    show "y \<notin> slots g c \<Longrightarrow> objects h' y = objects h y" for y using that(1) objs by simp
    have "chunk_placed g d \<and> chunk_ok objs' (chunks h' d) g d" if d: "d \<in> C'" for d
    proof (cases "d = c")
      case True
      have "same_chunk_state ck' (chunks h' c)"
        using \<open>c \<in> C' \<Longrightarrow> same_chunk_state ck' (chunks h' c)\<close> d True by simp
      then show ?thesis using True placed cf(2) by (simp add: chunk_ok_same_state)
    next
      case False
      then show ?thesis using others d \<open>C' \<subseteq> G g\<close>
          \<open>\<And>d. d \<in> C' \<Longrightarrow> d \<noteq> c \<Longrightarrow> same_chunk_state (chunks h d) (chunks h' d)\<close> by blast
    qed
    then show "group_ok (objects h') (chunks h') (group_first h' g) g C'"
      using that(1,9) by (simp add: group_ok_def)
  qed (use that apart c in auto)
  have inGg: "d \<in> set cs \<Longrightarrow> d \<in> G g" for d using cs(3) by (simp add: open_chunks_def)
  show ?thesis
  proof (cases "used_slots objs' g c = {}")
    case busy: False
    have pgs: "g' < 17 \<Longrightarrow> c' \<in> (G(g := G g)) g' \<Longrightarrow> chunk_pages g' c' \<subseteq> used (pages h)" for g' c'
      using heap_invD(4) [OF inv] by auto
    show ?thesis
    proof (cases "chunk_full h c")
      case True
      define h' where "h' = set_first_chunk g c (chunk_chain c (group_first h1 g) h1)"
      have "group_free pfree g (x + 8) h = Done h'"
        using busy empty True by (simp add: group_free_def chunk cf(1) Let_def h'_def)
      moreover have "heap_inv pinv used h' (G(g := G g))"
      proof (rule inv_step)
        have "chunk_list (chunks h') (group_first h1 g) cs"
          using cs1 True full by (subst chunk_list_cong [where cks = "chunks h1"]) (auto simp: h'_def h1)
        then have "chunk_list (chunks h') (group_first h' g) (c # cs)"
          using len g chunk_placed_def placed
          by (auto simp: h'_def h1 page_block_def)
        moreover have "set (c # cs) = open_chunks (chunks h') (G g)"
          using cs(3) c cf(4) by (auto simp: open_chunks_def h'_def h1)
        ultimately show "\<exists>cs. chunk_list (chunks h') (group_first h' g) cs \<and> distinct cs \<and>
            set cs = open_chunks (chunks h') (G g)"
          using cs(2) True full by (intro exI [of _ "c # cs"]) auto
      qed (use len g pgs pi in \<open>auto simp: h'_def h1 gf same_chunk_state_def\<close>)
      moreover have "live_objects h' (G(g := G g)) = live_objects h G - {(x + 8, obj_size g)}"
        by (rule live) (simp_all add: h'_def h1)
      moreover have "chunk_released used h G g c (live_in h g c = {(x + 8, obj_size g)}) h' (G(g := G g))"
        unfolding emptied using busy by (simp add: chunk_released_def h'_def h1)
      ultimately show ?thesis by blast
    next
      case False
      have "group_free pfree g (x + 8) h = Done h1"
        using busy empty False by (simp add: group_free_def chunk cf(1) Let_def)
      moreover have "heap_inv pinv used h1 (G(g := G g))"
      proof (rule inv_step)
        have "set cs = open_chunks (chunks h1) (G g)"
          using cs(3) c cf(4) False full by (auto simp: open_chunks_def h1)
        then show "\<exists>cs. chunk_list (chunks h1) (group_first h1 g) cs \<and> distinct cs \<and>
            set cs = open_chunks (chunks h1) (G g)"
          using cs1 cs(2) by blast
      qed (use len g pgs pi in \<open>auto simp: h1 gf same_chunk_state_def\<close>)
      moreover have "live_objects h1 (G(g := G g)) = live_objects h G - {(x + 8, obj_size g)}"
        by (rule live) (simp_all add: h1)
      moreover have "chunk_released used h G g c (live_in h g c = {(x + 8, obj_size g)}) h1 (G(g := G g))"
        unfolding emptied using busy by (simp add: chunk_released_def h1)
      ultimately show ?thesis by blast
    qed
  next
    case idle: True
    let ?n = "word_of_nat (page_count g) :: u32"
    have n: "unat ?n = page_count g" "page_count g \<le> 128" using page_count_word [OF g] by auto
    have blk: "page_block c (page_count g)" using placed by (simp add: chunk_placed_def)
    obtain ps where ps: "pfree c ?n (pages h) = Done ps" "pinv ps" "used ps = used (pages h) - chunk_pages g c"
      using pfree_block [OF pi, of ?n c] blk cp n by (auto simp: chunk_pages_def)
    have pgs: "chunk_pages g' c' \<subseteq> used ps" if "g' < 17" "c' \<in> (G(g := G g - {c})) g'" for g' c'
    proof -
      have m: "c' \<in> G g'" "(g', c') \<noteq> (g, c)" using that(2) by (auto split: if_splits)
      have "chunk_pages g' c' \<inter> chunk_pages g c = {}"
        using m c inv apartD [of G g' g c' c] that(1) g by (auto simp: heap_inv_def)
      then show ?thesis using heap_invD(4) [OF inv that(1) m(1)] by (auto simp: ps(3))
    qed
    define h2 where "h2 = h1\<lparr>hlog := hlog h1 @ [Debug (''KILL PAGE'' @ [CHR ''\<newline>'']) []]\<rparr>"
    have h2: "objects h2 = objs'" "chunks h2 = chunks h1" "pages h2 = pages h" "length (groups h2) = 17"
      "group_first h2 g' = group_first h g'" for g'
      using len by (simp_all add: h2_def h1 gf group_first_def)
    have free_eq: "group_free pfree g (x + 8) h =
        outcome_bind (if \<not> chunk_full h c then unlink_chunk g c h2 else Done h2)
          (\<lambda>h3. outcome_bind (pfree c ?n (pages h3)) (\<lambda>ps. Done (h3\<lparr>pages := ps\<rparr>)))"
      using idle empty by (simp add: group_free_def chunk cf(1) Let_def h2_def)
    have "\<exists>h3 cs3. (if \<not> chunk_full h c then unlink_chunk g c h2 else Done h2) = Done h3 \<and>
      objects h3 = objs' \<and> pages h3 = pages h \<and> length (groups h3) = 17 \<and>
      (\<forall>g'. g' \<noteq> g \<longrightarrow> group_first h3 g' = group_first h g') \<and>
      (\<forall>d. same_chunk_state (chunks h1 d) (chunks h3 d)) \<and>
      (\<forall>d. d \<notin> insert c (G g) \<longrightarrow> chunks h3 d = chunks h1 d) \<and>
      chunk_list (chunks h3) (group_first h3 g) cs3 \<and> distinct cs3 \<and> set cs3 = set cs - {c}"
    proof (cases "chunk_full h c")
      case True
      then show ?thesis using cs1 cs(2) full h2
        by (intro exI [of _ h2] exI [of _ cs]) (auto simp: same_chunk_state_def gf)
    next
      case False
      then have "chunk_list (chunks h2) (group_first h2 g) cs" "c \<in> set cs" "g < length (groups h2)"
        using cs1 full h2 g gf by auto
      from unlink_chunk_ok [OF this(1) cs(2) this(2,3)] obtain h3 cs3 where u:
        "unlink_chunk g c h2 = Done h3" "objects h3 = objects h2" "pages h3 = pages h2"
        "length (groups h3) = length (groups h2)" "\<forall>g'. g' \<noteq> g \<longrightarrow> group_first h3 g' = group_first h2 g'"
        "\<forall>d. same_chunk_state (chunks h2 d) (chunks h3 d)" "\<forall>d. d \<notin> set cs \<longrightarrow> chunks h3 d = chunks h2 d"
        "chunk_list (chunks h3) (group_first h3 g) cs3" "distinct cs3" "set cs3 = set cs - {c}"
        by blast
      have "d \<notin> G g \<Longrightarrow> d \<notin> set cs" for d using inGg by blast
      then show ?thesis using False u h2 by (intro exI [of _ h3] exI [of _ cs3]) simp
    qed
    then obtain h3 cs3 where r3: "(if \<not> chunk_full h c then unlink_chunk g c h2 else Done h2) = Done h3"
      and h3: "objects h3 = objs'" "pages h3 = pages h" "length (groups h3) = 17"
        "\<And>g'. g' \<noteq> g \<Longrightarrow> group_first h3 g' = group_first h g'"
        "\<And>d. same_chunk_state (chunks h1 d) (chunks h3 d)"
        "\<And>d. d \<notin> insert c (G g) \<Longrightarrow> chunks h3 d = chunks h1 d"
      and cs3: "chunk_list (chunks h3) (group_first h3 g) cs3" "distinct cs3" "set cs3 = set cs - {c}"
      by blast
    define h' where "h' = h3\<lparr>pages := ps\<rparr>"
    have "group_free pfree g (x + 8) h = Done h'"
      unfolding free_eq r3 by (simp add: h3(2) ps(1) h'_def)
    moreover have "heap_inv pinv used h' (G(g := G g - {c}))"
    proof (rule inv_step)
      have "set cs3 = open_chunks (chunks h') (G g - {c})"
        using h3(5) unfolding cs3(3) cs(3) open_chunks_def same_chunk_state_def h'_def
        by (auto simp: h1)
      then show "\<exists>cs. chunk_list (chunks h') (group_first h' g) cs \<and> distinct cs \<and>
          set cs = open_chunks (chunks h') (G g - {c})"
        using cs3 by (intro exI [of _ cs3]) (simp add: h'_def group_first_def)
    next
      fix d assume "d \<in> G g - {c}" "d \<noteq> c"
      then show "same_chunk_state (chunks h d) (chunks h' d)"
        using h3(5) [of d] by (simp add: h'_def h1)
    next
      fix d assume "d \<notin> insert c (G g)"
      then show "chunks h' d = chunks h d" using h3(6) [of d] by (auto simp: h'_def h1)
    next
      fix g' assume "g' \<noteq> g"
      then show "group_first h' g' = group_first h g'" using h3(4) by (simp add: h'_def group_first_def)
    qed (use h3 pgs ps(2) in \<open>auto simp: h'_def\<close>)
    moreover have "live_objects h' (G(g := G g - {c})) = live_objects h G - {(x + 8, obj_size g)}"
      by (rule live) (simp_all add: h'_def h3(1) idle)
    moreover have "chunk_released used h G g c (live_in h g c = {(x + 8, obj_size g)}) h' (G(g := G g - {c}))"
      unfolding emptied using idle ps(3) by (simp add: chunk_released_def h'_def)
    ultimately show ?thesis by blast
  qed
qed

end

subsection \<open>The heap over any page provider\<close>

lemma live_pointer:
  assumes inv: "heap_inv pinv used h G" and "(p, n) \<in> live_objects h G"
  obtains g c where "g < 17" and "c \<in> G g" and "p - 8 \<in> used_slots (objects h) g c" and "n = obj_size g"
    and "unat p = unat (p - 8) + 8"
proof -
  from assms(2) obtain g c x where l: "p = x + 8" "n = obj_size g" "g < 17" "c \<in> G g"
    "x \<in> used_slots (objects h) g c" by (auto simp: live_objects_def)
  have placed: "chunk_placed g c" by (rule heap_invD(2) [OF inv l(3,4)])
  obtain i where i: "i < object_count g" "x = slot g c i" using l(5) by (auto simp: used_slots_def slots_def)
  have "unat c = 4096 * page_of c" "page_of c + page_count g < 0x100000"
    using placed by (auto simp: chunk_placed_def page_block_def)
  then have "unat x + 8 < 4294967296"
    using unat_slot [OF placed i(1)] unfolding i(2) sizeof_object_def by linarith
  then have "unat p = unat x + 8" unfolding l(1) by (subst unat_u32_add) auto
  then show ?thesis using that l by simp
qed

lemma object_bytes_disjoint:
  assumes inv: "heap_inv pinv used h G"
    and a: "g < 17" "c \<in> G g" "x \<in> slots g c" and b: "g' < 17" "c' \<in> G g'" "y \<in> slots g' c'"
    and ne: "x \<noteq> y"
  shows "{unat x ..< unat x + sizeof_object (obj_size g)} \<inter> {unat y ..< unat y + sizeof_object (obj_size g')} = {}"
proof (cases "(g, c) = (g', c')")
  case True
  obtain i j where ij: "i < object_count g" "x = slot g c i" "j < object_count g" "y = slot g c j"
    using a(3) b(3) True by (auto simp: slots_def)
  then have "i \<noteq> j" using ne by auto
  from slot_bytes_disjoint [OF heap_invD(2) [OF inv a(1,2)] ij(1,3) this]
  show ?thesis using True unfolding ij(2,4) by auto
next
  case False
  have ap: "chunk_pages g c \<inter> chunk_pages g' c' = {}"
    using False inv a(1,2) b(1,2) apartD [of G g g' c c'] by (auto simp: heap_inv_def)
  show ?thesis
  proof (rule ccontr)
    assume "\<not> ?thesis"
    then obtain k where "k \<in> {unat x ..< unat x + sizeof_object (obj_size g)}"
      "k \<in> {unat y ..< unat y + sizeof_object (obj_size g')}" by blast
    then have "unat x \<le> k" "k < unat x + sizeof_object (obj_size g)"
      "unat y \<le> k" "k < unat y + sizeof_object (obj_size g')" by auto
    then show False
      using slot_in_pages [OF heap_invD(2) [OF inv a(1,2)] a(3)]
        slot_in_pages [OF heap_invD(2) [OF inv b(1,2)] b(3)] ap by blast
  qed
qed

lemma live_bytes_disjoint:
  assumes inv: "heap_inv pinv used h G" and p: "(p, n) \<in> live_objects h G"
    and q: "(q, m) \<in> live_objects h G" and ne: "p \<noteq> q"
  shows "{unat p ..< unat p + n} \<inter> {unat q ..< unat q + m} = {}"
proof -
  obtain g c where a: "g < 17" "c \<in> G g" "p - 8 \<in> used_slots (objects h) g c" "n = obj_size g"
    "unat p = unat (p - 8) + 8" by (rule live_pointer [OF inv p])
  obtain g' c' where b: "g' < 17" "c' \<in> G g'" "q - 8 \<in> used_slots (objects h) g' c'" "m = obj_size g'"
    "unat q = unat (q - 8) + 8" by (rule live_pointer [OF inv q])
  have "p - 8 \<in> slots g c" "q - 8 \<in> slots g' c'" "p - 8 \<noteq> q - 8"
    using a(3) b(3) ne by (auto simp: used_slots_def)
  from object_bytes_disjoint [OF inv a(1,2) this(1) b(1,2) this(2,3)]
  show ?thesis unfolding a(4,5) b(4,5) sizeof_object_def by fastforce
qed

context page_provider
begin

lemma group_alloc_ok:
  assumes inv: "heap_inv pinv used h G" and g: "g < 17"
    and run: "group_alloc palloc g h = Done (p, h')"
  shows "\<exists>G'. alloc_result pinv used h G (obj_size g) p h' G'"
proof (cases "group_first h g = 0")
  case False
  from group_alloc_existing [OF inv g False, of palloc] obtain x where
    x: "p = x + 8" "heap_inv pinv used h' G"
    "live_objects h' G = insert (x + 8, obj_size g) (live_objects h G)"
    "(x + 8, obj_size g) \<notin> live_objects h G" using run by auto
  have "(p, obj_size g) \<in> live_objects h' G" using x by simp
  then obtain g' c' where "g' < 17" "c' \<in> G g'" "p - 8 \<in> used_slots (objects h') g' c'"
    by (rule live_pointer [OF x(2)])
  then have "p \<noteq> 0" using data_pointer_nonzero [OF heap_invD(2) [OF x(2)], of g' c' "p - 8"]
    by (auto simp: used_slots_def)
  then show ?thesis using x by (auto simp: alloc_result_def)
next
  case True
  then have "alloc_from_new palloc g h = Done (p, h')" using run by (simp add: group_alloc_def)
  moreover from this obtain a ps where "palloc (word_of_nat (page_count g)) (pages h) = Done (a, ps)"
    by (auto simp: alloc_from_new_def)
  ultimately show ?thesis using alloc_from_new_ok [OF inv g True] by force
qed

lemma heap_alloc_ok:
  assumes inv: "heap_inv pinv used h G" and run: "heap_alloc palloc sz h = Done (p, h')"
  shows "\<exists>G' n. unat sz \<le> n \<and> alloc_result pinv used h G n p h' G'"
proof (cases "find_chunk_group sz")
  case None
  then show ?thesis using run inv by (auto simp: heap_alloc_def alloc_result_def)
next
  case (Some g)
  then show ?thesis
    using run group_alloc_ok [OF inv find_chunk_group_fits(1) [OF Some]] find_chunk_group_fits(2) [OF Some]
    by (auto simp: heap_alloc_def)
qed

lemma heap_free_ok:
  assumes inv: "heap_inv pinv used h G" and p: "(p, n) \<in> live_objects h G"
  shows "\<exists>g c h' G'. g < 17 \<and> c \<in> G g \<and> (p, n) \<in> live_in h g c \<and> heap_free pfree p h = Done h' \<and>
    heap_inv pinv used h' G' \<and> live_objects h' G' = live_objects h G - {(p, n)} \<and>
    chunk_released used h G g c (live_in h g c = {(p, n)}) h' G'"
proof -
  obtain g c where a: "g < 17" "c \<in> G g" "p - 8 \<in> used_slots (objects h) g c" "n = obj_size g"
    by (rule live_pointer [OF inv p])
  have "obj_status (objects h (p - 8)) = HEAP_OBJECT_USED"
    "obj_link (objects h (p - 8)) = word_of_nat (obj_size g)"
    using a(3) heap_invD(3) [OF inv a(1,2)] by (auto simp: used_slots_def chunk_ok_def)
  then have e: "heap_free pfree p h = group_free pfree g p h"
    using find_group_stored [OF a(1)] by (simp add: heap_free_def Let_def)
  have "(p, n) \<in> live_in h g c" using a(3,4) unfolding live_in_def by (intro image_eqI [of _ _ "p - 8"]) simp_all
  then show ?thesis using group_free_ok [OF inv a(1-3)] a(1,2,4) unfolding e by auto
qed

lemma find_group_one_page:
  "unat sz \<le> 4076 \<Longrightarrow> \<exists>g. find_chunk_group sz = Some g \<and> g < 17 \<and> page_count g = 1"
proof -
  assume "unat sz \<le> 4076"
  then have "sz \<le> 4076" by (simp add: word_le_nat_alt)
  then show ?thesis
    unfolding find_chunk_group_def group_params_def page_count_def by simp
qed

lemma heap_alloc_small_returns:
  assumes inv: "heap_inv pinv used h G" and "unat sz \<le> 4076"
  shows "\<exists>p h'. heap_alloc palloc sz h = Done (p, h')"
proof -
  obtain g where g: "find_chunk_group sz = Some g" "g < 17" "page_count g = 1"
    using find_group_one_page [OF assms(2)] by blast
  show ?thesis
  proof (cases "group_first h g = 0")
    case False
    then show ?thesis using group_alloc_existing [OF inv g(2) False, of palloc] g(1)
      by (auto simp: heap_alloc_def)
  next
    case True
    have "pinv (pages h)" using inv by (simp add: heap_inv_def)
    from palloc_one [OF this]
    obtain a ps where "palloc (word_of_nat (page_count g)) (pages h) = Done (a, ps)"
      by (auto simp: g(3))
    from alloc_from_new_ok [OF inv g(2) True this] show ?thesis
      using g(1) True by (auto simp: heap_alloc_def group_alloc_def)
  qed
qed

lemma heap_start_inv: "pinv ps \<Longrightarrow> heap_inv pinv used (heap_start ps) (\<lambda>_. {})"
  by (simp add: heap_inv_def heap_start_def group_ok_def open_chunks_def chunks_apart_def group_first_def
    heap_chunk_group_new_def)

end

lemma group_has_room:
  assumes inv: "heap_inv pinv used h G" and g: "g < 17" and c: "c \<in> G g"
    and room: "used_slots (objects h) g c \<noteq> slots g c"
  shows "group_first h g \<noteq> 0"
proof
  assume z: "group_first h g = 0"
  obtain cs where cs: "chunk_list (chunks h) 0 cs" "set cs = open_chunks (chunks h) (G g)"
    using heap_invD(1) [OF inv g] unfolding group_ok_def z by blast
  then have "first_free (chunks h c) = 0" using c by (cases cs) (auto simp: open_chunks_def)
  then show False
    using heap_invD(3) [OF inv g c] chunk_full_iff [OF heap_invD(3) [OF inv g c]] room
    by (auto simp: chunk_ok_def)
qed

subsection \<open>Properties\<close>

text \<open>C2: The kernel heap refines a set of live objects: an allocation either fails and changes no live
  object, or returns a pointer that was not live to an object at least as large as asked for, and
  adds exactly that object; free lists, counts and chunk lists stay consistent.\<close>

theorem heap_alloc_refines:
  assumes "heap_inv mm_inv mm_used h G"
    and "heap_alloc (\<lambda>n. mm_alloc_pages n 1) sz h = Done (p, h')"
  shows "\<exists>G' n. unat sz \<le> n \<and> heap_inv mm_inv mm_used h' G' \<and>
    (if p = 0 then live_objects h' G' = live_objects h G
     else (p, n) \<notin> live_objects h G \<and> live_objects h' G' = insert (p, n) (live_objects h G))"
  using mm_pages.heap_alloc_ok [OF assms] by (simp add: alloc_result_def)

text \<open>C9: Freeing a live pointer returns and removes exactly that object from the live ones. It belongs to one
  chunk of one group: if it was the last live object of that chunk, the chunk is given up and exactly its pages
  are no longer in use; otherwise the chunks and the pages in use stay as they are.\<close>

theorem heap_free_refines:
  assumes "heap_inv mm_inv mm_used h G" and "(p, n) \<in> live_objects h G"
  shows "\<exists>g c h'. g < 17 \<and> c \<in> G g \<and> (p, n) \<in> live_in h g c \<and> heap_free mm_free_pages p h = Done h' \<and>
    (let emptied = (live_in h g c = {(p, n)}); G' = (if emptied then G(g := G g - {c}) else G) in
      heap_inv mm_inv mm_used h' G' \<and> live_objects h' G' = live_objects h G - {(p, n)} \<and>
      mm_used (pages h') = (if emptied then mm_used (pages h) - chunk_pages g c else mm_used (pages h)))"
proof -
  obtain g c h' G' where f: "g < 17" "c \<in> G g" "(p, n) \<in> live_in h g c" "heap_free mm_free_pages p h = Done h'"
    "heap_inv mm_inv mm_used h' G'" "live_objects h' G' = live_objects h G - {(p, n)}"
    "chunk_released mm_used h G g c (live_in h g c = {(p, n)}) h' G'"
    using mm_pages.heap_free_ok [OF assms] by blast
  then show ?thesis
    by (intro exI [of _ g] exI [of _ c] exI [of _ h']) (simp add: chunk_released_def Let_def split: if_splits)
qed

text \<open>C26: The bytes of two live objects never overlap.\<close>

theorem heap_objects_disjoint:
  assumes "heap_inv mm_inv mm_used h G" and "(p, n) \<in> live_objects h G"
    and "(q, m) \<in> live_objects h G" and "p \<noteq> q"
  shows "{unat p ..< unat p + n} \<inter> {unat q ..< unat q + m} = {}"
  by (rule live_bytes_disjoint [OF assms])

text \<open>C39: A request of at most 4076 bytes always returns (with 0 when memory is exhausted).\<close>

theorem heap_alloc_returns:
  assumes "heap_inv mm_inv mm_used h G" and "sz \<le> 4076"
  shows "\<exists>p h'. heap_alloc (\<lambda>n. mm_alloc_pages n 1) sz h = Done (p, h')"
  using mm_pages.heap_alloc_small_returns [OF assms(1)] assms(2) by (simp add: word_le_nat_alt)

text \<open>Although \<^verbatim>\<open>overhead_size\<close> counts 8 of the 12 header bytes of a chunk, the header and the
  objects of every one of the 17 groups fit into the chunk's pages, and every chunk of more than one
  page holds a single object.\<close>

theorem heap_chunks_fit:
  "list_all (\<lambda>g. 12 + object_count g * sizeof_object (obj_size g) \<le> page_count g * 4096 \<and>
     object_count g \<noteq> 0 \<and> (if page_count g = 1 then object_count g \<le> 255 else object_count g = 1)) [0..<17]"
  by (simp add: upt_rec object_count_def obj_size_def page_count_def sizeof_object_def
    overhead_size_def group_params_def)

text \<open>Freeing a pointer whose header does not say "used" (such as freeing an object twice) is
  reported and changes nothing else.\<close>

theorem heap_free_rejects:
  assumes "obj_status (objects h (p - 8)) \<noteq> HEAP_OBJECT_USED"
  shows "heap_free pfree p h = Done (report_bad_free p h)"
  using assms by (simp add: heap_free_def Let_def)

theorem heap_free_rejects_witness:
  "heap_free mm_free_pages 0xC0200014 (heap_start sample_physical) =
     Done (report_bad_free 0xC0200014 (heap_start sample_physical))"
  by (rule heap_free_rejects) (simp add: heap_start_def HEAP_OBJECT_USED_def)

text \<open>A first allocation on the sample machine.\<close>

lemma sample_mm_inv: "mm_inv sample_physical"
  using sample_physical_inv sample_physical_used
  by (simp add: mm_inv_def) (simp add: sample_physical_def frames_def)

lemma sample_heap_inv: "heap_inv mm_inv mm_used (heap_start sample_physical) (\<lambda>_. {})"
  by (rule mm_pages.heap_start_inv [OF sample_mm_inv])

lemma sample_heap_alloc:
  "\<exists>p h'. heap_alloc (\<lambda>n. mm_alloc_pages n 1) 8 (heap_start sample_physical) = Done (p, h') \<and> p \<noteq> 0"
proof -
  obtain s' where "physical_alloc 1 1 sample_physical = Done (0x5000, s')"
    using sample_physical_alloc by blast
  then have "mm_alloc_pages (word_of_nat (page_count 0)) 1 (pages (heap_start sample_physical)) = Done (0xC0005000, s')"
    by (simp add: mm_alloc_pages_def page_count_def group_params_def heap_start_def
      kernel_physical_to_virtual_def KERNEL_VIRTUAL_BASE_def)
  from mm_pages.alloc_from_new_ok [OF sample_heap_inv _ _ this] obtain p h' where
    "alloc_from_new (\<lambda>n. mm_alloc_pages n 1) 0 (heap_start sample_physical) = Done (p, h')" "p \<noteq> 0"
    by (auto simp: heap_start_def group_first_def heap_chunk_group_new_def)
  moreover have "find_chunk_group 8 = Some 0" by (simp add: find_chunk_group_def group_params_def)
  moreover have "group_first (heap_start sample_physical) 0 = 0"
    by (simp add: heap_start_def group_first_def heap_chunk_group_new_def)
  ultimately show ?thesis by (simp add: heap_alloc_def group_alloc_def)
qed

theorem heap_alloc_refines_witness:
  "\<exists>p h' G' n. heap_alloc (\<lambda>n. mm_alloc_pages n 1) 8 (heap_start sample_physical) = Done (p, h') \<and>
    p \<noteq> 0 \<and> 8 \<le> n \<and> heap_inv mm_inv mm_used h' G' \<and> live_objects h' G' = {(p, n)}"
proof -
  obtain p h' where a: "heap_alloc (\<lambda>n. mm_alloc_pages n 1) 8 (heap_start sample_physical) = Done (p, h')" "p \<noteq> 0"
    using sample_heap_alloc by blast
  have "live_objects (heap_start sample_physical) (\<lambda>_. {}) = {}" by (simp add: live_objects_def)
  then show ?thesis using heap_alloc_refines [OF sample_heap_inv a(1)] a by auto
qed

lemma sample_heap_live:
  "\<exists>p n h G. heap_inv mm_inv mm_used h G \<and> live_objects h G = {(p, n)} \<and> p \<noteq> 0"
proof -
  obtain p h' where a: "heap_alloc (\<lambda>n. mm_alloc_pages n 1) 8 (heap_start sample_physical) = Done (p, h')" "p \<noteq> 0"
    using sample_heap_alloc by blast
  have "live_objects (heap_start sample_physical) (\<lambda>_. {}) = {}" by (simp add: live_objects_def)
  then show ?thesis
    using mm_pages.heap_alloc_ok [OF sample_heap_inv a(1)] a(2) unfolding alloc_result_def by auto
qed

text \<open>The only object of a heap: freeing it gives back all the pages of its chunk.\<close>

theorem heap_free_refines_witness:
  "\<exists>p n h G h' G' g c. live_objects h G = {(p, n)} \<and> heap_free mm_free_pages p h = Done h' \<and>
    heap_inv mm_inv mm_used h' G' \<and> live_objects h' G' = {} \<and> c \<in> G g \<and>
    mm_used (pages h') = mm_used (pages h) - chunk_pages g c"
proof -
  obtain p n h G where s: "heap_inv mm_inv mm_used h G" "live_objects h G = {(p, n)}"
    using sample_heap_live by blast
  then have "(p, n) \<in> live_objects h G" by simp
  from heap_free_refines [OF s(1) this] obtain g c h' where f: "g < 17" "c \<in> G g" "(p, n) \<in> live_in h g c"
    "heap_free mm_free_pages p h = Done h'"
    "let emptied = (live_in h g c = {(p, n)}); G' = (if emptied then G(g := G g - {c}) else G) in
      heap_inv mm_inv mm_used h' G' \<and> live_objects h' G' = live_objects h G - {(p, n)} \<and>
      mm_used (pages h') = (if emptied then mm_used (pages h) - chunk_pages g c else mm_used (pages h))" by blast
  have "live_in h g c \<subseteq> {(p, n)}" using f(1,2) live_objects_in [of _ h G] unfolding s(2) by auto
  then have "live_in h g c = {(p, n)}" using f(3) by blast
  then have "heap_inv mm_inv mm_used h' (G(g := G g - {c}))" "live_objects h' (G(g := G g - {c})) = {}"
    "mm_used (pages h') = mm_used (pages h) - chunk_pages g c"
    using f(5) s(2) by (simp_all add: Let_def)
  then show ?thesis using s(2) f(2,4) by blast
qed

theorem heap_alloc_returns_witness:
  "\<exists>p h'. heap_alloc (\<lambda>n. mm_alloc_pages n 1) 100 (heap_start sample_physical) = Done (p, h')"
  by (rule heap_alloc_returns [OF sample_heap_inv]) (simp add: word_le_nat_alt)

lemma object_counts: "object_count 0 = 255" "obj_size 0 = 8"
  by (simp_all add: object_count_def obj_size_def page_count_def sizeof_object_def overhead_size_def
    group_params_def)

lemma obj_size_0: "g < 17 \<Longrightarrow> obj_size g = obj_size 0 \<Longrightarrow> g = 0"
  using find_group_stored [of g] find_group_stored [of 0] by simp

lemma sample_heap_two:
  "\<exists>p q h1 G1 h2 G2. heap_inv mm_inv mm_used h1 G1 \<and> heap_alloc (\<lambda>n. mm_alloc_pages n 1) 8 h1 = Done (q, h2) \<and>
     heap_inv mm_inv mm_used h2 G2 \<and> p \<noteq> q \<and> live_objects h2 G2 = {(p, 8), (q, 8)}"
proof -
  let ?h = "heap_start sample_physical"
  obtain p h1 where a: "heap_alloc (\<lambda>n. mm_alloc_pages n 1) 8 ?h = Done (p, h1)" "p \<noteq> 0"
    using sample_heap_alloc by blast
  have f: "find_chunk_group 8 = Some 0" by (simp add: find_chunk_group_def group_params_def)
  obtain G1 where "alloc_result mm_inv mm_used ?h (\<lambda>_. {}) (obj_size 0) p h1 G1"
    using mm_pages.group_alloc_ok [OF sample_heap_inv, of 0 p h1] a(1) by (auto simp: heap_alloc_def f)
  moreover have "live_objects ?h (\<lambda>_. {}) = {}" by (simp add: live_objects_def)
  ultimately have i1: "heap_inv mm_inv mm_used h1 G1" and l1: "live_objects h1 G1 = {(p, obj_size 0)}"
    using a(2) unfolding alloc_result_def by simp_all
  then have "(p, obj_size 0) \<in> live_objects h1 G1" by simp
  then obtain g c where gc: "g < 17" "c \<in> G1 g" "p - 8 \<in> used_slots (objects h1) g c" "obj_size 0 = obj_size g"
    by (rule live_pointer [OF i1])
  then have g0: "g = 0" using obj_size_0 by simp
  have "used_slots (objects h1) g c \<subseteq> {p - 8}"
  proof
    fix x assume "x \<in> used_slots (objects h1) g c"
    then have "(x + 8, obj_size g) \<in> live_objects h1 G1" using gc by (auto simp: live_objects_def)
    then show "x \<in> {p - 8}" using l1 by auto
  qed
  from card_mono [OF _ this] have "card (used_slots (objects h1) g c) \<le> 1" by simp
  moreover have "card (slots g c) = 255" using card_slots [OF heap_invD(2) [OF i1 gc(1,2)]] object_counts g0 by simp
  ultimately have "used_slots (objects h1) g c \<noteq> slots g c" by auto
  then have "group_first h1 0 \<noteq> 0" using group_has_room [OF i1 gc(1,2)] g0 by simp
  from group_alloc_existing [OF i1 _ this, of "\<lambda>n. mm_alloc_pages n 1"] obtain x h2 where
    x: "group_alloc (\<lambda>n. mm_alloc_pages n 1) 0 h1 = Done (x + 8, h2)" "heap_inv mm_inv mm_used h2 G1"
    "live_objects h2 G1 = insert (x + 8, obj_size 0) (live_objects h1 G1)"
    "(x + 8, obj_size 0) \<notin> live_objects h1 G1" by auto
  have "heap_alloc (\<lambda>n. mm_alloc_pages n 1) 8 h1 = Done (x + 8, h2)" using x(1) by (simp add: heap_alloc_def f)
  moreover have "p \<noteq> x + 8" using x(4) l1 by auto
  moreover have "live_objects h2 G1 = {(p, 8), (x + 8, 8)}" using x(3) l1 object_counts(2) by auto
  ultimately show ?thesis
    by (intro exI [of _ p] exI [of _ "x + 8"] exI [of _ h1] exI [of _ G1] exI [of _ h2]
      exI [of _ G1] conjI i1 x(2))
qed

theorem heap_objects_disjoint_witness:
  "\<exists>p q h1 h2. heap_alloc (\<lambda>n. mm_alloc_pages n 1) 8 h1 = Done (q, h2) \<and>
    p \<noteq> q \<and> {unat p ..< unat p + 8} \<inter> {unat (q :: u32) ..< unat q + 8} = {}"
proof -
  obtain p q h1 h2 G2 where s: "heap_alloc (\<lambda>n. mm_alloc_pages n 1) 8 h1 = Done (q, h2)"
    "heap_inv mm_inv mm_used h2 G2" "p \<noteq> q" "live_objects h2 G2 = {(p, 8), (q, 8)}"
    using sample_heap_two by metis
  have "(p, 8) \<in> live_objects h2 G2" "(q, 8) \<in> live_objects h2 G2" using s(4) by simp_all
  from heap_objects_disjoint [OF s(2) this s(3)] show ?thesis
    by (intro exI [of _ p] exI [of _ q] exI [of _ h1] exI [of _ h2] conjI s)
qed

end
