(* ===== verification/Paging.thy ===== *)
theory Paging
  imports Mm
begin

text \<open>
  Models \<^verbatim>\<open>src/pagedir.h\<close>, \<^verbatim>\<open>src/pagedir.cpp\<close> and \<^verbatim>\<open>src/paging.cpp\<close>. A page directory or page
  table entry is its 32-bit word; the bit fields of the structs are read and written with
  \<open>get_field\<close> and \<open>set_field\<close> at their positions. The machine state is the physical memory, one word
  per word address, and \<^verbatim>\<open>cr3\<close>. \<open>mmu_walk\<close> is the two-level page walk of the i386 (with 4 MiB
  pages), which is what the code programs; reads and writes of page tables through the window at
  \<^verbatim>\<open>0xFFC00000\<close> go through it, as they do on the machine. \<^verbatim>\<open>KernelPageDirectory\<close> is the directory at
  \<^verbatim>\<open>cr3\<close>. Debug output is left out; \<open>invlpg\<close> is recorded in \<open>flushed\<close>.

  The lemmas show that the software lookups agree with the page walk once the directory maps itself.
\<close>

subsection \<open>Bit fields\<close>

definition get_field :: "nat \<Rightarrow> nat \<Rightarrow> u32 \<Rightarrow> u32" where
  "get_field lo len w = take_bit len (drop_bit lo w)"

definition set_field :: "nat \<Rightarrow> nat \<Rightarrow> u32 \<Rightarrow> u32 \<Rightarrow> u32" where
  "set_field lo len v w = (w AND NOT (push_bit lo (mask len))) OR push_bit lo (take_bit len v)"

lemma bit_set_field:
  "bit (set_field lo len v w) n \<longleftrightarrow>
     n < 32 \<and> (if lo \<le> n \<and> n < lo + len then bit v (n - lo) else bit w n)"
  by (auto simp: set_field_def bit_simps)

lemma bit_get_field: "bit (get_field lo len w) n \<longleftrightarrow> n < len \<and> bit w (lo + n)"
  by (auto simp: get_field_def bit_simps)

lemma get_set_same [simp]:
  "lo + len \<le> 32 \<Longrightarrow> get_field lo len (set_field lo len v w) = take_bit len v"
  by (rule bit_eqI) (auto simp: bit_get_field bit_set_field bit_simps)

lemma get_set_other [simp]:
  "lo + len \<le> lo' \<or> lo' + len' \<le> lo \<Longrightarrow> get_field lo len (set_field lo' len' v w) = get_field lo len w"
  by (rule bit_eqI) (auto simp: bit_get_field bit_set_field dest: bit_imp_le_length)

lemma take_bit_get_field [simp]: "take_bit len (get_field lo len w) = get_field lo len w"
  by (simp add: get_field_def)

text \<open>\<^verbatim>\<open>page_dir_entry_t\<close> and \<^verbatim>\<open>page_table_entry_t\<close>.\<close>

definition pde_present :: "u32 \<Rightarrow> u32" where "pde_present = get_field 0 1"
definition pde_enable4m :: "u32 \<Rightarrow> u32" where "pde_enable4m = get_field 7 1"
definition pde_page_frame_addr :: "u32 \<Rightarrow> u32" where "pde_page_frame_addr = get_field 22 10"
definition pde_page_table_addr :: "u32 \<Rightarrow> u32" where "pde_page_table_addr = get_field 12 20"
definition set_pde_present :: "u32 \<Rightarrow> u32 \<Rightarrow> u32" where "set_pde_present = set_field 0 1"
definition set_pde_writable :: "u32 \<Rightarrow> u32 \<Rightarrow> u32" where "set_pde_writable = set_field 1 1"
definition set_pde_user :: "u32 \<Rightarrow> u32 \<Rightarrow> u32" where "set_pde_user = set_field 2 1"
definition set_pde_enable4m :: "u32 \<Rightarrow> u32 \<Rightarrow> u32" where "set_pde_enable4m = set_field 7 1"
definition set_pde_page_frame_addr :: "u32 \<Rightarrow> u32 \<Rightarrow> u32" where "set_pde_page_frame_addr = set_field 22 10"
definition set_pde_page_table_addr :: "u32 \<Rightarrow> u32 \<Rightarrow> u32" where "set_pde_page_table_addr = set_field 12 20"

definition pte_present :: "u32 \<Rightarrow> u32" where "pte_present = get_field 0 1"
definition pte_reserved_flag :: "u32 \<Rightarrow> u32" where "pte_reserved_flag = get_field 9 1"
definition pte_page_addr :: "u32 \<Rightarrow> u32" where "pte_page_addr = get_field 12 20"
definition set_pte_present :: "u32 \<Rightarrow> u32 \<Rightarrow> u32" where "set_pte_present = set_field 0 1"
definition set_pte_reserved_flag :: "u32 \<Rightarrow> u32 \<Rightarrow> u32" where "set_pte_reserved_flag = set_field 9 1"
definition set_pte_page_addr :: "u32 \<Rightarrow> u32 \<Rightarrow> u32" where "set_pte_page_addr = set_field 12 20"

lemmas pde_defs = pde_present_def pde_enable4m_def pde_page_frame_addr_def pde_page_table_addr_def
  set_pde_present_def set_pde_writable_def set_pde_user_def set_pde_enable4m_def
  set_pde_page_frame_addr_def set_pde_page_table_addr_def

lemmas pte_defs = pte_present_def pte_reserved_flag_def pte_page_addr_def set_pte_present_def
  set_pte_reserved_flag_def set_pte_page_addr_def

subsection \<open>The machine\<close>

record machine =
  cr3 :: u32
  mem :: "u32 \<Rightarrow> u32"
  flushed :: "u32 list"

definition pt_entry_addr :: "u32 \<Rightarrow> u32 \<Rightarrow> u32" where
  "pt_entry_addr table idx = table OR push_bit 2 idx"

definition mmu_walk :: "machine \<Rightarrow> u32 \<Rightarrow> u32 option" where
  "mmu_walk m va =
     (let pde = mem m (pt_entry_addr (cr3 m) (drop_bit 22 va)) in
      if pde_present pde = 0 then None
      else if pde_enable4m pde \<noteq> 0 then
        Some (push_bit 22 (pde_page_frame_addr pde) OR take_bit 22 va)
      else
        (let pte = mem m (pt_entry_addr (push_bit 12 (pde_page_table_addr pde)) (take_bit 10 (drop_bit 12 va))) in
         if pte_present pte = 0 then None
         else Some (push_bit 12 (pte_page_addr pte) OR take_bit 12 va)))"

text \<open>A data access at a virtual address; a page fault in the kernel's own access is a fault.\<close>

definition vread :: "machine \<Rightarrow> u32 \<Rightarrow> u32 outcome" where
  "vread m va = (case mmu_walk m va of Some pa \<Rightarrow> Done (mem m pa) | None \<Rightarrow> Fault UndefinedBehaviour)"

definition vwrite :: "u32 \<Rightarrow> u32 \<Rightarrow> machine \<Rightarrow> machine outcome" where
  "vwrite va v m = (case mmu_walk m va of
     Some pa \<Rightarrow> Done (m\<lparr>mem := (mem m)(pa := v)\<rparr>) | None \<Rightarrow> Fault UndefinedBehaviour)"

text \<open>\<^verbatim>\<open>KernelPageDirectory[idx]\<close> and an assignment to its fields.\<close>

definition dir_entry :: "machine \<Rightarrow> u32 \<Rightarrow> u32" where
  "dir_entry m idx = mem m (pt_entry_addr (cr3 m) idx)"

definition update_dir_entry :: "u32 \<Rightarrow> (u32 \<Rightarrow> u32) \<Rightarrow> machine \<Rightarrow> machine" where
  "update_dir_entry idx f m = m\<lparr>mem := (mem m)(pt_entry_addr (cr3 m) idx := f (dir_entry m idx))\<rparr>"

definition invlpg :: "u32 \<Rightarrow> machine \<Rightarrow> machine" where
  "invlpg virtual_addr m = m\<lparr>flushed := flushed m @ [virtual_addr]\<rparr>"

subsection \<open>\<^verbatim>\<open>PageDirectory\<close>\<close>

definition table_window :: "u32 \<Rightarrow> u32" where
  "table_window pdindex = 0xFFC00000 OR push_bit 12 pdindex"

definition virtual_to_physical :: "machine \<Rightarrow> u32 \<Rightarrow> u32 outcome" where
  "virtual_to_physical m virtualaddr =
     (let pdindex = drop_bit 22 virtualaddr;
          ptindex = drop_bit 12 virtualaddr AND 0x03FF;
          pde = dir_entry m pdindex
      in if pde_present pde \<noteq> 0 then
           (if pde_enable4m pde \<noteq> 0 then
              Done (push_bit 22 (pde_page_frame_addr pde) OR push_bit 12 ptindex OR (virtualaddr AND 0xFFF))
            else outcome_bind (vread m (table_window pdindex + 4 * ptindex))
              (\<lambda>pte. if pte_present pte \<noteq> 0
                     then Done (push_bit 12 (pte_page_addr pte) + (virtualaddr AND 0xFFF))
                     else Done 0))
         else Done 0)"

text \<open>The two nested loops of \<^verbatim>\<open>physical_to_virtual\<close>; \<open>None\<close> while no entry matched.\<close>

fun scan_table :: "machine \<Rightarrow> u32 \<Rightarrow> u32 \<Rightarrow> nat \<Rightarrow> u32 \<Rightarrow> u32 option outcome" where
  "scan_table m addr i 0 j = Done None"
| "scan_table m addr i (Suc k) j =
     outcome_bind (vread m (table_window i + 4 * j))
       (\<lambda>pte. if pte_present pte \<noteq> 0 \<and> pte_page_addr pte = drop_bit 12 addr
              then Done (Some (push_bit 22 i OR push_bit 12 j OR (addr AND 0xFFF)))
              else scan_table m addr i k (j + 1))"

fun scan_directory :: "machine \<Rightarrow> u32 \<Rightarrow> nat \<Rightarrow> u32 \<Rightarrow> u32 option outcome" where
  "scan_directory m addr 0 i = Done None"
| "scan_directory m addr (Suc k) i =
     (let pde = dir_entry m i in
      if pde_present pde \<noteq> 0 then
        (if pde_enable4m pde \<noteq> 0 then
           (if pde_page_frame_addr pde = drop_bit 22 addr
            then Done (Some (push_bit 22 i OR (addr AND 0x3FFFFF)))
            else scan_directory m addr k (i + 1))
         else outcome_bind (scan_table m addr i 1024 0)
           (\<lambda>r. case r of Some va \<Rightarrow> Done (Some va) | None \<Rightarrow> scan_directory m addr k (i + 1)))
      else scan_directory m addr k (i + 1))"

definition physical_to_virtual :: "machine \<Rightarrow> u32 \<Rightarrow> u32 outcome" where
  "physical_to_virtual m addr =
     outcome_bind (scan_directory m addr 1024 0)
       (\<lambda>r. case r of Some va \<Rightarrow> Done va | None \<Rightarrow> Done 0)"

text \<open>\<^verbatim>\<open>PageDirectory::init\<close>: entry \<^verbatim>\<open>0x3FF\<close> gets the directory itself; \<open>this_addr\<close> is \<^verbatim>\<open>this\<close>.\<close>

definition directory_init :: "u32 \<Rightarrow> machine \<Rightarrow> machine outcome" where
  "directory_init this_addr m =
     outcome_bind (virtual_to_physical m this_addr)
       (\<lambda>physical_address. Done (update_dir_entry 0x3FF
          (set_pde_page_table_addr (drop_bit 12 physical_address) \<circ> set_pde_user 1 \<circ>
           set_pde_enable4m 0 \<circ> set_pde_writable 1 \<circ> set_pde_present 1) m))"

subsection \<open>\<^verbatim>\<open>mm::paging\<close>\<close>

definition map_large :: "u32 \<Rightarrow> u32 \<Rightarrow> machine \<Rightarrow> machine" where
  "map_large virtual_base p m =
     (let virt = virtual_base + p in
      invlpg virt (update_dir_entry (drop_bit LARGE_PAGE_SHIFT virt)
        (set_pde_page_frame_addr (drop_bit LARGE_PAGE_SHIFT p) \<circ> set_pde_user 1 \<circ> set_pde_present 1 \<circ>
         set_pde_writable 1 \<circ> set_pde_enable4m 1) m))"

partial_function (option) map_linear :: "u32 \<Rightarrow> u32 \<Rightarrow> u32 \<Rightarrow> machine \<Rightarrow> machine option" where
  "map_linear linear_mapping_end virtual_base p m =
     (if p < linear_mapping_end
      then map_linear linear_mapping_end virtual_base (p + LARGE_PAGE_SIZE) (map_large virtual_base p m)
      else Some m)"

definition paging_init :: "u32 \<Rightarrow> u32 \<Rightarrow> u32 \<Rightarrow> machine \<Rightarrow> machine outcome" where
  "paging_init kernel_page_directory linear_mapping_end virtual_base m =
     outcome_bind (directory_init kernel_page_directory m)
       (\<lambda>m'. case map_linear linear_mapping_end virtual_base 0 m' of
          Some m'' \<Rightarrow> Done m'' | None \<Rightarrow> Diverges)"

definition init_unmap_0 :: "machine \<Rightarrow> machine" where
  "init_unmap_0 m = invlpg 0 (update_dir_entry 0 (set_pde_present 0) m)"

definition paging_map_page :: "u32 \<Rightarrow> u32 \<Rightarrow> u32 \<Rightarrow> machine \<Rightarrow> machine outcome" where
  "paging_map_page physical_addr virtual_addr flags m =
     (if physical_addr AND 0xFFF \<noteq> 0 then Done m
      else if virtual_addr AND 0xFFF \<noteq> 0 then Done m
      else
        (let pdindex = drop_bit 22 virtual_addr;
             ptindex = drop_bit 12 virtual_addr AND 0x03FF;
             pt = 0xFFC00000 + 4 * (0x400 * pdindex)
         in vwrite (pt + 4 * ptindex) (physical_addr OR (flags AND 0xFFF) OR 0x01) m))"

text \<open>The page fault handler; it returns whether the fault was handled. Memory "reserved" by flag
  bit 9 of its entry gets a high memory page on first access.\<close>

definition fault_pte_addr :: "u32 \<Rightarrow> u32" where
  "fault_pte_addr virtual_address =
     0xFFC00000 OR push_bit 12 (drop_bit 22 virtual_address)
       OR push_bit 2 (drop_bit 12 virtual_address AND 0x3FF)"

definition fill_pte :: "u32 \<Rightarrow> u32 \<Rightarrow> u32" where
  "fill_pte phys_addr pte =
     set_pte_present 1 (set_pte_reserved_flag 0 (set_pte_page_addr (drop_bit PAGE_SHIFT phys_addr) pte))"

definition paging_handle_fault ::
    "u32 \<Rightarrow> u32 \<Rightarrow> machine \<times> physical \<Rightarrow> (bool \<times> machine \<times> physical) outcome" where
  "paging_handle_fault err_code virtual_address s =
     (let m = fst s; pde = dir_entry m (drop_bit 22 virtual_address) in
      if err_code AND 0x8 \<noteq> 0 then Done (False, s)
      else if err_code AND 0x1 \<noteq> 0 then Done (False, s)
      else if pde_present pde \<noteq> 0 then
        (if pde_enable4m pde = 0 then
           outcome_bind (vread m (fault_pte_addr virtual_address))
             (\<lambda>pte. if pte_reserved_flag pte \<noteq> 0 then
                outcome_bind (mm_alloc_pages_himem 1 1 (snd s))
                  (\<lambda>(phys_addr, ps).
                     outcome_bind (vwrite (fault_pte_addr virtual_address) (fill_pte phys_addr pte) m)
                       (\<lambda>m'. Done (True, m', ps)))
              else Done (False, s))
         else Done (False, s))
      else Done (False, s))"

subsection \<open>Addresses as bit patterns\<close>

lemma mask_consts:
  "(0x3FF :: u32) = mask 10" "(0xFFF :: u32) = mask 12" "(0x3FFFFF :: u32) = mask 22"
  "(0xFFC00000 :: u32) = push_bit 22 (mask 10)"
  by (simp_all add: mask_eq_exp_minus_1)

lemma and_consts [simp]:
  "(w :: u32) AND 0x3FF = take_bit 10 w" "(w :: u32) AND 0xFFF = take_bit 12 w"
  "(w :: u32) AND 0x3FFFFF = take_bit 22 w"
  unfolding mask_consts by (simp_all add: take_bit_eq_mask)

lemma times_4: "4 * (j :: u32) = push_bit 2 j"
  by (simp add: push_bit_eq_mult)

lemma bit_index: "take_bit 10 (i :: u32) = i \<Longrightarrow> bit i n \<Longrightarrow> n < 10"
  by (metis bit_take_bit_iff)

lemma window_address:
  assumes i: "take_bit 10 i = i" and j: "take_bit 10 j = j"
  shows "table_window i + 4 * j = table_window i OR push_bit 2 j"
    and "drop_bit 22 (table_window i OR push_bit 2 j) = 0x3FF"
    and "take_bit 10 (drop_bit 12 (table_window i OR push_bit 2 j)) = i"
    and "take_bit 12 (table_window i OR push_bit 2 j) = push_bit 2 j"
proof -
  show "table_window i + 4 * j = table_window i OR push_bit 2 j"
    unfolding times_4 table_window_def mask_consts
    by (rule disjunctive_add) (auto simp: bit_simps dest: bit_index [OF j])
  show "drop_bit 22 (table_window i OR push_bit 2 j) = 0x3FF"
    unfolding table_window_def mask_consts
    by (rule bit_eqI) (auto simp: bit_simps dest: bit_index [OF j] bit_index [OF i])
  show "take_bit 10 (drop_bit 12 (table_window i OR push_bit 2 j)) = i"
    unfolding table_window_def mask_consts
    by (rule bit_eqI) (auto simp: bit_simps dest: bit_index [OF j] bit_index [OF i])
  show "take_bit 12 (table_window i OR push_bit 2 j) = push_bit 2 j"
    unfolding table_window_def mask_consts
    by (rule bit_eqI) (auto simp: bit_simps dest: bit_index [OF j] bit_index [OF i])
qed

text \<open>The directory maps itself in its last entry.\<close>

definition self_mapped :: "machine \<Rightarrow> bool" where
  "self_mapped m \<longleftrightarrow> pde_present (dir_entry m 0x3FF) \<noteq> 0 \<and> pde_enable4m (dir_entry m 0x3FF) = 0 \<and>
     push_bit 12 (pde_page_table_addr (dir_entry m 0x3FF)) = cr3 m"

definition table_entry :: "machine \<Rightarrow> u32 \<Rightarrow> u32 \<Rightarrow> u32" where
  "table_entry m i j = mem m (pt_entry_addr (push_bit 12 (pde_page_table_addr (dir_entry m i))) j)"

text \<open>The page walk in terms of the entries of the directory and the tables.\<close>

lemma mmu_walk_entries:
  "mmu_walk m va =
     (let i = drop_bit 22 va; j = take_bit 10 (drop_bit 12 va) in
      if pde_present (dir_entry m i) = 0 then None
      else if pde_enable4m (dir_entry m i) \<noteq> 0 then
        Some (push_bit 22 (pde_page_frame_addr (dir_entry m i)) OR take_bit 22 va)
      else if pte_present (table_entry m i j) = 0 then None
      else Some (push_bit 12 (pte_page_addr (table_entry m i j)) OR take_bit 12 va))"
  by (simp add: mmu_walk_def dir_entry_def table_entry_def Let_def)

lemma window_walk:
  assumes "self_mapped m" and "take_bit 10 i = i" and "take_bit 10 j = j"
    and "pde_present (dir_entry m i) \<noteq> 0"
  shows "mmu_walk m (table_window i + 4 * j) =
    Some (pt_entry_addr (push_bit 12 (pde_page_table_addr (dir_entry m i))) j)"
proof -
  define va where "va = table_window i + 4 * j"
  have va: "drop_bit 22 va = 0x3FF" "take_bit 10 (drop_bit 12 va) = i" "take_bit 12 va = push_bit 2 j"
    unfolding va_def window_address(1) [OF assms(2,3)] by (rule window_address [OF assms(2,3)])+
  have sm: "pde_present (dir_entry m 0x3FF) \<noteq> 0" "pde_enable4m (dir_entry m 0x3FF) = 0"
    "push_bit 12 (pde_page_table_addr (dir_entry m 0x3FF)) = cr3 m"
    using assms(1) by (simp_all add: self_mapped_def)
  have te: "table_entry m 0x3FF i = dir_entry m i"
    unfolding table_entry_def sm(3) by (simp add: dir_entry_def)
  have same: "pte_present = pde_present" "pte_page_addr = pde_page_table_addr"
    by (simp_all add: pte_defs pde_defs)
  show ?thesis
    unfolding va_def [symmetric] mmu_walk_entries va Let_def te
    using sm assms(4) by (simp add: same pt_entry_addr_def)
qed

lemma vread_window:
  assumes "self_mapped m" and "take_bit 10 i = i" and "take_bit 10 j = j"
    and "pde_present (dir_entry m i) \<noteq> 0"
  shows "vread m (table_window i + 4 * j) = Done (table_entry m i j)"
  by (simp add: vread_def window_walk [OF assms] table_entry_def)

lemma drop_22_index [simp]: "take_bit 10 (drop_bit 22 (va :: u32)) = drop_bit 22 va"
  by (rule bit_eqI) (auto simp: bit_simps dest: bit_imp_le_length)

lemma split_22: "push_bit 22 (x :: u32) OR push_bit 12 (take_bit 10 (drop_bit 12 va)) OR take_bit 12 va =
    push_bit 22 x OR take_bit 22 va"
  by (rule bit_eqI) (auto simp: bit_simps)

lemma add_offset: "push_bit 12 (x :: u32) + take_bit 12 va = push_bit 12 x OR take_bit 12 va"
  by (rule disjunctive_add) (auto simp: bit_simps)

lemma virtual_to_physical_walk:
  assumes "self_mapped m"
  shows "virtual_to_physical m va = Done (case mmu_walk m va of Some pa \<Rightarrow> pa | None \<Rightarrow> 0)"
proof -
  let ?i = "drop_bit 22 va" and ?j = "take_bit 10 (drop_bit 12 va)"
  show ?thesis
  proof (cases "pde_present (dir_entry m ?i) \<noteq> 0 \<and> pde_enable4m (dir_entry m ?i) = 0")
    case True
    then have "vread m (table_window ?i + 4 * ?j) = Done (table_entry m ?i ?j)"
      by (intro vread_window assms) simp_all
    then show ?thesis using True
      by (simp add: virtual_to_physical_def mmu_walk_entries Let_def add_offset)
  next
    case False
    then show ?thesis
      by (auto simp: virtual_to_physical_def mmu_walk_entries Let_def split_22)
  qed
qed

subsection \<open>The reverse lookup\<close>

lemma small_index: "n < 1024 \<Longrightarrow> take_bit 10 (word_of_nat n :: u32) = word_of_nat n"
  by (simp add: take_bit_of_nat take_bit_nat_eq_self)

lemma index_unat: "take_bit 10 (i :: u32) = i \<Longrightarrow> unat i < 1024 \<and> i = word_of_nat (unat i)"
proof -
  assume "take_bit 10 i = i"
  then have "take_bit 10 (unat i) = unat i" by (metis unsigned_take_bit_eq)
  then have "unat i mod 1024 = unat i" by (simp add: take_bit_eq_mod)
  then have "unat i < 1024" by (metis mod_less_divisor zero_less_numeral)
  then show ?thesis by simp
qed

definition pte_match :: "machine \<Rightarrow> u32 \<Rightarrow> u32 \<Rightarrow> u32 \<Rightarrow> bool" where
  "pte_match m addr i j \<longleftrightarrow>
     pte_present (table_entry m i j) \<noteq> 0 \<and> pte_page_addr (table_entry m i j) = drop_bit 12 addr"

definition small_va :: "u32 \<Rightarrow> u32 \<Rightarrow> u32 \<Rightarrow> u32" where
  "small_va i j addr = push_bit 22 i OR push_bit 12 j OR take_bit 12 addr"

definition large_va :: "u32 \<Rightarrow> u32 \<Rightarrow> u32" where
  "large_va i addr = push_bit 22 i OR take_bit 22 addr"

lemma small_va_parts:
  assumes "take_bit 10 i = i" and "take_bit 10 j = j"
  shows "drop_bit 22 (small_va i j addr) = i" and "take_bit 10 (drop_bit 12 (small_va i j addr)) = j"
    and "take_bit 12 (small_va i j addr) = take_bit 12 addr"
  unfolding small_va_def
  by (rule bit_eqI, auto simp: bit_simps dest: bit_index [OF assms(1)] bit_index [OF assms(2)])+

lemma large_va_parts:
  assumes "take_bit 10 i = i"
  shows "drop_bit 22 (large_va i addr) = i" and "take_bit 22 (large_va i addr) = take_bit 22 addr"
  unfolding large_va_def
  by (rule bit_eqI, auto simp: bit_simps dest: bit_index [OF assms(1)])+

lemma bits_join [simp]: "push_bit n (drop_bit n (a :: u32)) OR take_bit n a = a"
  by (rule bit_eqI) (auto simp: bit_simps)

lemma word_of_nat_0: "(word_of_nat 0 :: u32) = 0"
  by simp

lemma scan_table_result:
  assumes "self_mapped m" and "take_bit 10 i = i" and "pde_present (dir_entry m i) \<noteq> 0"
  shows "n + k \<le> 1024 \<Longrightarrow> \<exists>r. scan_table m addr i k (word_of_nat n) = Done r \<and>
    (case r of Some va \<Rightarrow> \<exists>j. take_bit 10 j = j \<and> pte_match m addr i j \<and> va = small_va i j addr
     | None \<Rightarrow> \<forall>n' \<in> {n ..< n + k}. \<not> pte_match m addr i (word_of_nat n'))"
proof (induction k arbitrary: n)
  case (Suc k)
  have idx: "take_bit 10 (word_of_nat n :: u32) = word_of_nat n"
    using Suc.prems by (intro small_index) simp
  have rd: "vread m (table_window i + 4 * word_of_nat n) = Done (table_entry m i (word_of_nat n))"
    by (rule vread_window [OF assms(1,2) idx assms(3)])
  show ?case
  proof (cases "pte_match m addr i (word_of_nat n)")
    case True
    then show ?thesis
      using idx by (auto simp: rd pte_match_def small_va_def intro!: exI [of _ "word_of_nat n"])
  next
    case False
    have "n + 1 + k \<le> 1024" using Suc.prems by simp
    then obtain r where r: "scan_table m addr i k (word_of_nat (n + 1)) = Done r"
      "case r of Some va \<Rightarrow> \<exists>j. take_bit 10 j = j \<and> pte_match m addr i j \<and> va = small_va i j addr
       | None \<Rightarrow> \<forall>n' \<in> {n + 1 ..< n + 1 + k}. \<not> pte_match m addr i (word_of_nat n')"
      using Suc.IH [of "n + 1"] by blast
    have step: "scan_table m addr i (Suc k) (word_of_nat n) = Done r"
      using False r(1) by (auto simp: rd pte_match_def add.commute)
    have none: "\<forall>n' \<in> {n ..< n + Suc k}. \<not> pte_match m addr i (word_of_nat n')" if "r = None"
    proof
      fix n' assume "n' \<in> {n ..< n + Suc k}"
      then have "n' = n \<or> n' \<in> {n + 1 ..< n + 1 + k}" by auto
      then show "\<not> pte_match m addr i (word_of_nat n')" using False r(2) that by auto
    qed
    show ?thesis
      by (rule exI [of _ r], rule conjI, rule step, cases r) (use none r(2) in auto)
  qed
qed simp

text \<open>The entry of the directory at \<open>i\<close> leads to \<open>addr\<close>.\<close>

definition pde_match :: "machine \<Rightarrow> u32 \<Rightarrow> u32 \<Rightarrow> bool" where
  "pde_match m addr i \<longleftrightarrow> pde_present (dir_entry m i) \<noteq> 0 \<and>
     (if pde_enable4m (dir_entry m i) \<noteq> 0 then pde_page_frame_addr (dir_entry m i) = drop_bit 22 addr
      else \<exists>n < 1024. pte_match m addr i (word_of_nat n))"

lemma scan_directory_result:
  assumes "self_mapped m"
  shows "n + k \<le> 1024 \<Longrightarrow> \<exists>r. scan_directory m addr k (word_of_nat n) = Done r \<and>
    (case r of Some va \<Rightarrow> mmu_walk m va = Some addr
     | None \<Rightarrow> \<forall>n' \<in> {n ..< n + k}. \<not> pde_match m addr (word_of_nat n'))"
proof (induction k arbitrary: n)
  case (Suc k)
  let ?i = "word_of_nat n :: u32"
  have idx: "take_bit 10 ?i = ?i" using Suc.prems by (intro small_index) simp
  have "n + 1 + k \<le> 1024" using Suc.prems by simp
  then obtain r where r: "scan_directory m addr k (word_of_nat (n + 1)) = Done r"
    "case r of Some va \<Rightarrow> mmu_walk m va = Some addr
     | None \<Rightarrow> \<forall>n' \<in> {n + 1 ..< n + 1 + k}. \<not> pde_match m addr (word_of_nat n')"
    using Suc.IH [of "n + 1"] by blast
  have r1: "scan_directory m addr k (?i + 1) = Done r" using r(1) by (simp add: add.commute)
  have skip: ?case if no: "\<not> pde_match m addr ?i" and step: "scan_directory m addr (Suc k) ?i = Done r"
  proof -
    have none: "\<forall>n' \<in> {n ..< n + Suc k}. \<not> pde_match m addr (word_of_nat n')" if "r = None"
    proof
      fix n' assume "n' \<in> {n ..< n + Suc k}"
      then have "n' = n \<or> n' \<in> {n + 1 ..< n + 1 + k}" by auto
      then show "\<not> pde_match m addr (word_of_nat n')" using no r(2) that by auto
    qed
    show ?thesis
      by (rule exI [of _ r], rule conjI, rule step, cases r) (use none r(2) in auto)
  qed
  show ?case
  proof (cases "pde_present (dir_entry m ?i) = 0")
    case True
    then show ?thesis by (intro skip) (simp_all add: pde_match_def r1)
  next
    case present: False
    show ?thesis
    proof (cases "pde_enable4m (dir_entry m ?i) = 0")
      case large: False
      show ?thesis
      proof (cases "pde_page_frame_addr (dir_entry m ?i) = drop_bit 22 addr")
        case True
        have "scan_directory m addr (Suc k) ?i = Done (Some (large_va ?i addr))"
          using present large True by (simp add: large_va_def)
        moreover have "mmu_walk m (large_va ?i addr) = Some addr"
          using present large True by (simp add: mmu_walk_entries large_va_parts [OF idx] Let_def)
        ultimately show ?thesis by (intro exI [of _ "Some (large_va ?i addr)"]) simp
      next
        case False
        then show ?thesis using present large by (intro skip) (simp_all add: pde_match_def r1)
      qed
    next
      case small: True
      have "\<exists>q. scan_table m addr ?i 1024 0 = Done q \<and>
        (case q of Some va \<Rightarrow> \<exists>j. take_bit 10 j = j \<and> pte_match m addr ?i j \<and> va = small_va ?i j addr
         | None \<Rightarrow> \<forall>n' \<in> {0 ..< 1024}. \<not> pte_match m addr ?i (word_of_nat n'))"
        using scan_table_result [OF assms idx present, of 0 1024 addr, unfolded add_0 word_of_nat_0, OF order_refl] by blast
      then obtain q where q: "scan_table m addr ?i 1024 0 = Done q"
        "case q of Some va \<Rightarrow> \<exists>j. take_bit 10 j = j \<and> pte_match m addr ?i j \<and> va = small_va ?i j addr
         | None \<Rightarrow> \<forall>n' \<in> {0 ..< 1024}. \<not> pte_match m addr ?i (word_of_nat n')"
        by blast
      show ?thesis
      proof (cases q)
        case None
        then show ?thesis using present small q by (intro skip) (simp_all add: pde_match_def r1)
      next
        case (Some va)
        then obtain j where j: "take_bit 10 j = j" "pte_match m addr ?i j" "va = small_va ?i j addr"
          using q(2) by auto
        have "mmu_walk m va = Some addr"
          using present small j(2)
          by (simp add: j(3) mmu_walk_entries small_va_parts [OF idx j(1)] Let_def pte_match_def)
        moreover have "scan_directory m addr (Suc k) ?i = Done (Some va)"
          using present small q(1) Some by simp
        ultimately show ?thesis by (intro exI [of _ "Some va"]) simp
      qed
    qed
  qed
qed simp

lemma walk_page:
  "push_bit 12 (get_field 12 20 w) OR take_bit 12 va = addr \<Longrightarrow> get_field 12 20 w = drop_bit 12 addr"
proof -
  assume "push_bit 12 (get_field 12 20 w) OR take_bit 12 va = addr"
  moreover have "drop_bit 12 (push_bit 12 (get_field 12 20 w) OR take_bit 12 va) = get_field 12 20 w"
    by (rule bit_eqI) (auto simp: bit_simps bit_get_field dest: bit_imp_le_length)
  ultimately show ?thesis by simp
qed

lemma walk_frame:
  "push_bit 22 (get_field 22 10 w) OR take_bit 22 va = addr \<Longrightarrow> get_field 22 10 w = drop_bit 22 addr"
proof -
  assume "push_bit 22 (get_field 22 10 w) OR take_bit 22 va = addr"
  moreover have "drop_bit 22 (push_bit 22 (get_field 22 10 w) OR take_bit 22 va) = get_field 22 10 w"
    by (rule bit_eqI) (auto simp: bit_simps bit_get_field dest: bit_imp_le_length)
  ultimately show ?thesis by simp
qed

lemma walk_matches:
  assumes "mmu_walk m va = Some addr"
  shows "pde_match m addr (drop_bit 22 va)"
proof -
  let ?i = "drop_bit 22 va" and ?j = "take_bit 10 (drop_bit 12 va)"
  have j: "unat ?j < 1024" "word_of_nat (unat ?j) = ?j" using index_unat [of ?j] by simp_all
  have present: "pde_present (dir_entry m ?i) \<noteq> 0"
    using assms by (auto simp: mmu_walk_entries Let_def)
  show ?thesis
  proof (cases "pde_enable4m (dir_entry m ?i) = 0")
    case True
    then have "pte_present (table_entry m ?i ?j) \<noteq> 0"
      "push_bit 12 (get_field 12 20 (table_entry m ?i ?j)) OR take_bit 12 va = addr"
      using assms present by (simp_all add: mmu_walk_entries Let_def pte_page_addr_def split: if_splits)
    from this(1) walk_page [OF this(2)] have "pte_match m addr ?i (word_of_nat (unat ?j))"
      unfolding pte_match_def j(2) pte_page_addr_def by simp
    then show ?thesis using present True j(1) unfolding pde_match_def by auto
  next
    case False
    then have "push_bit 22 (get_field 22 10 (dir_entry m ?i)) OR take_bit 22 va = addr"
      using assms present by (simp add: mmu_walk_entries Let_def pde_page_frame_addr_def)
    from walk_frame [OF this] show ?thesis using present False
      by (simp add: pde_match_def pde_page_frame_addr_def)
  qed
qed

lemma physical_to_virtual_ok:
  assumes "self_mapped m"
  shows "\<exists>va. physical_to_virtual m addr = Done va \<and>
    (mmu_walk m va = Some addr \<or> va = 0 \<and> (\<forall>v. mmu_walk m v \<noteq> Some addr))"
proof -
  have "\<exists>r. scan_directory m addr 1024 0 = Done r \<and>
    (case r of Some va \<Rightarrow> mmu_walk m va = Some addr
     | None \<Rightarrow> \<forall>n' \<in> {0 ..< 1024}. \<not> pde_match m addr (word_of_nat n'))"
    using scan_directory_result [OF assms, of 0 1024 addr, unfolded add_0 word_of_nat_0, OF order_refl] by blast
  then obtain r where r: "scan_directory m addr 1024 0 = Done r"
    "case r of Some va \<Rightarrow> mmu_walk m va = Some addr
     | None \<Rightarrow> \<forall>n' \<in> {0 ..< 1024}. \<not> pde_match m addr (word_of_nat n')"
    by blast
  show ?thesis
  proof (cases r)
    case None
    have "mmu_walk m v \<noteq> Some addr" for v
    proof
      assume "mmu_walk m v = Some addr"
      then have match: "pde_match m addr (drop_bit 22 v)" by (rule walk_matches)
      have n: "unat (drop_bit 22 v) \<in> {0 ..< 1024}" "word_of_nat (unat (drop_bit 22 v)) = drop_bit 22 v"
        using index_unat [of "drop_bit 22 v"] by simp_all
      have "\<not> pde_match m addr (word_of_nat (unat (drop_bit 22 v)))"
        using r(2) n(1) unfolding None option.case(1) by blast
      then show False using match unfolding n(2) by blast
    qed
    then show ?thesis unfolding physical_to_virtual_def r(1) None by simp
  next
    case (Some va)
    then show ?thesis using r(2) unfolding physical_to_virtual_def r(1) Some by simp
  qed
qed

subsection \<open>Writing the directory\<close>

lemma entry_inj:
  assumes "take_bit 12 t = 0" and "take_bit 10 i = i" and "take_bit 10 j = j"
  shows "pt_entry_addr t i = pt_entry_addr t j \<longleftrightarrow> i = j"
proof
  assume eq: "pt_entry_addr t i = pt_entry_addr t j"
  have "drop_bit 2 (take_bit 12 (pt_entry_addr t k)) = k" if "take_bit 10 k = k" for k
  proof -
    have "take_bit 12 (pt_entry_addr t k) = push_bit 2 k"
      unfolding pt_entry_addr_def take_bit_or assms(1)
      by (rule bit_eqI) (auto simp: bit_simps dest: bit_index [OF that])
    moreover have "drop_bit 2 (push_bit 2 k) = k"
      by (rule bit_eqI) (auto simp: bit_simps dest: bit_index [OF that])
    ultimately show ?thesis by simp
  qed
  then show "i = j" using eq assms(2,3) by metis
qed simp

lemma dir_entry_update:
  "take_bit 12 (cr3 m) = 0 \<Longrightarrow> take_bit 10 i = i \<Longrightarrow> take_bit 10 j = j \<Longrightarrow>
   dir_entry (update_dir_entry i f m) j = (if j = i then f (dir_entry m i) else dir_entry m j)"
  by (auto simp: dir_entry_def update_dir_entry_def entry_inj)

lemma update_dir_entry_cr3 [simp]: "cr3 (update_dir_entry i f m) = cr3 m" "cr3 (invlpg v m) = cr3 m"
  by (simp_all add: update_dir_entry_def invlpg_def)

lemma dir_entry_invlpg [simp]: "dir_entry (invlpg v m) i = dir_entry m i"
  by (simp add: dir_entry_def invlpg_def)

lemma directory_init_self_mapped:
  assumes "take_bit 12 (cr3 m) = 0" and "virtual_to_physical m this_addr = Done (cr3 m)"
  obtains m' where "directory_init this_addr m = Done m'" and "self_mapped m'" and "cr3 m' = cr3 m"
    and "\<And>j. take_bit 10 j = j \<Longrightarrow> j \<noteq> 0x3FF \<Longrightarrow> dir_entry m' j = dir_entry m j"
proof -
  let ?f = "set_pde_page_table_addr (drop_bit 12 (cr3 m)) \<circ> set_pde_user 1 \<circ>
           set_pde_enable4m 0 \<circ> set_pde_writable 1 \<circ> set_pde_present 1"
  let ?m = "update_dir_entry 0x3FF ?f m"
  have i: "take_bit 10 (0x3FF :: u32) = 0x3FF" by simp
  have "push_bit 12 (take_bit 20 (drop_bit 12 (cr3 m))) = cr3 m"
  proof (rule bit_eqI)
    fix n
    show "bit (push_bit 12 (take_bit 20 (drop_bit 12 (cr3 m)))) n = bit (cr3 m) n"
    proof (cases "n < 12")
      case True
      then have "bit (cr3 m) n \<longleftrightarrow> bit (take_bit 12 (cr3 m)) n" by (simp add: bit_take_bit_iff)
      then show ?thesis using True assms(1) by (simp add: bit_simps)
    next
      case False
      then show ?thesis by (auto simp: bit_simps dest: bit_imp_le_length)
    qed
  qed
  then have "self_mapped ?m"
    by (simp add: self_mapped_def dir_entry_update [OF assms(1) i i] pde_defs)
  then show ?thesis
    using assms(2) i by (intro that [of ?m]) (simp_all add: directory_init_def dir_entry_update [OF assms(1) i])
qed

text \<open>Entry \<open>0x300 + a\<close> maps the \<open>a\<close>-th 4 MiB of physical memory.\<close>

definition linear_entry :: "machine \<Rightarrow> nat \<Rightarrow> bool" where
  "linear_entry m a \<longleftrightarrow> (let e = dir_entry m (0x300 OR word_of_nat a) in
     pde_present e \<noteq> 0 \<and> pde_enable4m e \<noteq> 0 \<and> pde_page_frame_addr e = word_of_nat a)"

lemma below_64M: "unat (p :: u32) < 0x4000000 \<Longrightarrow> take_bit 26 p = p"
  by (rule word_unat_eq_iff [THEN iffD2])
    (simp only: unsigned_take_bit_eq, simp add: take_bit_eq_mod)

lemma kernel_base_or:
  assumes "take_bit 26 p = p"
  shows "0xC0000000 + p = (0xC0000000 :: u32) OR p"
    and "drop_bit 22 ((0xC0000000 :: u32) OR p) = 0x300 OR drop_bit 22 p"
    and "take_bit 22 ((0xC0000000 :: u32) OR p) = take_bit 22 p"
proof -
  have c: "(0xC0000000 :: u32) = push_bit 30 (mask 2)" by (simp add: mask_eq_exp_minus_1)
  have b: "bit p n \<Longrightarrow> n < 26" for n using assms by (metis bit_take_bit_iff)
  show "0xC0000000 + p = (0xC0000000 :: u32) OR p"
    unfolding c by (rule disjunctive_add) (auto simp: bit_simps dest: b)
  show "drop_bit 22 ((0xC0000000 :: u32) OR p) = 0x300 OR drop_bit 22 p" by simp
  show "take_bit 22 ((0xC0000000 :: u32) OR p) = take_bit 22 p" by simp
qed

lemma linear_index:
  "a < 16 \<Longrightarrow> take_bit 10 (0x300 OR word_of_nat a :: u32) = 0x300 OR word_of_nat a"
  "a < 16 \<Longrightarrow> (0x300 OR word_of_nat a :: u32) \<noteq> 0x3FF"
  "a < 16 \<Longrightarrow> b < 16 \<Longrightarrow> (0x300 OR word_of_nat a :: u32) = 0x300 OR word_of_nat b \<longleftrightarrow> a = b"
proof -
  have t: "take_bit 4 (0x300 OR word_of_nat a :: u32) = word_of_nat a" if "a < 16" for a :: nat
    using that by (simp add: take_bit_of_nat take_bit_nat_eq_self)
  show "take_bit 10 (0x300 OR word_of_nat a :: u32) = 0x300 OR word_of_nat a" if "a < 16" for a :: nat
    using that by (simp add: take_bit_of_nat take_bit_nat_eq_self)
  show "(0x300 OR word_of_nat a :: u32) = 0x300 OR word_of_nat b \<longleftrightarrow> a = b" if "a < 16" "b < 16" for a b :: nat
  proof
    assume "(0x300 OR word_of_nat a :: u32) = 0x300 OR word_of_nat b"
    then have "(word_of_nat a :: u32) = word_of_nat b" using t that by metis
    then have "unat (word_of_nat a :: u32) = unat (word_of_nat b :: u32)" by simp
    then show "a = b" using that by (simp add: unat_u32_of_nat)
  qed simp
  show "(0x300 OR word_of_nat a :: u32) \<noteq> 0x3FF" if "a < 16" for a :: nat
  proof
    assume "(0x300 OR word_of_nat a :: u32) = 0x3FF"
    then have "bit (0x300 OR word_of_nat a :: u32) 5" by simp
    then have "bit (word_of_nat a :: u32) 5" by (simp add: bit_or_iff)
    moreover have "take_bit 4 (word_of_nat a :: u32) = word_of_nat a"
      using that by (simp add: take_bit_of_nat take_bit_nat_eq_self)
    ultimately have "bit (take_bit 4 (word_of_nat a :: u32)) 5" by simp
    then show False by (simp only: bit_take_bit_iff) simp
  qed
qed

lemma map_large_entry:
  assumes "take_bit 12 (cr3 m) = 0" and "a < 16"
  defines "m' \<equiv> map_large 0xC0000000 (word_of_nat (0x400000 * a)) m"
  shows "cr3 m' = cr3 m" and "linear_entry m' a"
    and "take_bit 10 j = j \<Longrightarrow> j \<noteq> 0x300 OR word_of_nat a \<Longrightarrow> dir_entry m' j = dir_entry m j"
proof -
  let ?p = "word_of_nat (0x400000 * a) :: u32"
  have p: "?p = push_bit 22 (word_of_nat a)" by (simp add: push_bit_eq_mult)
  have "unat ?p < 0x4000000" using assms(2) by (subst unat_u32_of_nat) simp_all
  then have p26: "take_bit 26 ?p = ?p" by (rule below_64M)
  have d: "drop_bit 22 ?p = word_of_nat a"
  proof -
    have "drop_bit 22 ?p = take_bit 10 (word_of_nat a)"
      unfolding p by (rule bit_eqI) (auto simp: bit_simps dest: bit_imp_le_length)
    then show ?thesis using small_index [of a] assms(2) by simp
  qed
  have idx: "drop_bit LARGE_PAGE_SHIFT (0xC0000000 + ?p) = 0x300 OR word_of_nat a"
    unfolding LARGE_PAGE_SHIFT_def kernel_base_or [OF p26] d ..
  have m': "m' = invlpg (0xC0000000 + ?p) (update_dir_entry (0x300 OR word_of_nat a)
        (set_pde_page_frame_addr (word_of_nat a) \<circ> set_pde_user 1 \<circ> set_pde_present 1 \<circ>
         set_pde_writable 1 \<circ> set_pde_enable4m 1) m)"
    unfolding m'_def map_large_def Let_def idx unfolding LARGE_PAGE_SHIFT_def d ..
  show "cr3 m' = cr3 m" by (simp add: m')
  show "take_bit 10 j = j \<Longrightarrow> j \<noteq> 0x300 OR word_of_nat a \<Longrightarrow> dir_entry m' j = dir_entry m j"
    unfolding m' using dir_entry_update [OF assms(1) linear_index(1) [OF assms(2)]] by simp
  have "take_bit 10 (word_of_nat a :: u32) = word_of_nat a" using assms(2) by (intro small_index) simp
  then show "linear_entry m' a"
    unfolding m' linear_entry_def Let_def
    using dir_entry_update [OF assms(1) linear_index(1) [OF assms(2)] linear_index(1) [OF assms(2)]]
    by (simp add: pde_defs)
qed

lemma self_mapped_cong:
  "dir_entry m' 0x3FF = dir_entry m 0x3FF \<Longrightarrow> cr3 m' = cr3 m \<Longrightarrow> self_mapped m' = self_mapped m"
  by (simp add: self_mapped_def)

lemma map_linear_ok:
  assumes "unat e \<le> 0x4000000"
  shows "take_bit 12 (cr3 m) = 0 \<Longrightarrow> self_mapped m \<Longrightarrow> k \<le> 16 \<Longrightarrow> (\<And>a. a < k \<Longrightarrow> linear_entry m a) \<Longrightarrow>
    \<exists>m'. map_linear e 0xC0000000 (word_of_nat (0x400000 * k)) m = Some m' \<and> self_mapped m' \<and>
      cr3 m' = cr3 m \<and> (\<forall>a. 0x400000 * a < unat e \<longrightarrow> linear_entry m' a)"
proof (induction "16 - k" arbitrary: k m)
  case 0
  then have k: "k = 16" by simp
  have "\<not> (word_of_nat (0x400000 * k) :: u32) < e" using assms unfolding k by (simp add: word_less_nat_alt)
  then have "map_linear e 0xC0000000 (word_of_nat (0x400000 * k)) m = Some m"
    by (subst map_linear.simps) (simp only: if_False)
  then show ?case using 0 assms k by auto
next
  case (Suc n)
  let ?p = "word_of_nat (0x400000 * k) :: u32"
  have k: "k < 16" using Suc.hyps(2) by simp
  have up: "unat ?p = 0x400000 * k" using k by (intro unat_u32_of_nat) simp
  show ?case
  proof (cases "0x400000 * k < unat e")
    case False
    then have "map_linear e 0xC0000000 ?p m = Some m"
      by (subst map_linear.simps) (simp only: word_less_nat_alt up if_False)
    moreover have "linear_entry m a" if "0x400000 * a < unat e" for a
      using that False Suc.prems(4) by (cases "a < k") auto
    ultimately show ?thesis using Suc.prems by blast
  next
    case True
    define m1 where "m1 = map_large 0xC0000000 ?p m"
    note ml = map_large_entry [OF Suc.prems(1) k, folded m1_def]
    have "linear_entry m1 a" if a: "a < Suc k" for a
    proof (cases "a = k")
      case True
      then show ?thesis using ml(2) by simp
    next
      case False
      then have "a < k" using a by simp
      then have "dir_entry m1 (0x300 OR word_of_nat a) = dir_entry m (0x300 OR word_of_nat a)"
        using linear_index(1) [of a] linear_index(3) [of a k] k False by (intro ml(3)) auto
      then show ?thesis using Suc.prems(4) \<open>a < k\<close> by (simp add: linear_entry_def)
    qed
    moreover have "self_mapped m1"
    proof -
      have "(0x3FF :: u32) \<noteq> 0x300 OR word_of_nat k" using linear_index(2) [OF k] by metis
      then have "dir_entry m1 0x3FF = dir_entry m 0x3FF" by (intro ml(3)) simp_all
      then show ?thesis using Suc.prems(2) ml(1) self_mapped_cong by blast
    qed
    moreover have "n = 16 - Suc k" "take_bit 12 (cr3 m1) = 0" "Suc k \<le> 16"
      using Suc.hyps(2) Suc.prems(1) ml(1) k by simp_all
    ultimately obtain m' where m': "map_linear e 0xC0000000 (word_of_nat (0x400000 * Suc k)) m1 = Some m'"
      "self_mapped m'" "cr3 m' = cr3 m1" "\<forall>a. 0x400000 * a < unat e \<longrightarrow> linear_entry m' a"
      using Suc.hyps(1) [of "Suc k" m1] by blast
    have "?p + LARGE_PAGE_SIZE = word_of_nat (0x400000 * Suc k)" by (simp add: LARGE_PAGE_SIZE_def)
    then have "map_linear e 0xC0000000 ?p m = Some m'"
      using True m'(1) by (subst map_linear.simps) (simp only: word_less_nat_alt up if_True m1_def)
    then show ?thesis using m' ml(1) by (intro exI [of _ m']) simp
  qed
qed

lemma linear_walk:
  assumes "unat p < unat e" and "unat e \<le> 0x4000000"
    and "\<forall>a. 0x400000 * a < unat e \<longrightarrow> linear_entry m a"
  shows "mmu_walk m (0xC0000000 + p) = Some p"
proof -
  let ?a = "unat p div 0x400000"
  have p26: "take_bit 26 p = p" using assms(1,2) by (intro below_64M) linarith
  have d: "word_of_nat ?a = drop_bit 22 p"
  proof -
    have u: "?a = unat (drop_bit 22 p)"
      unfolding unsigned_drop_bit_eq by (simp add: drop_bit_eq_div take_bit_eq_mod)
    show ?thesis unfolding u by simp
  qed
  have "0x400000 * ?a < unat e" using assms(1) by (meson le_less_trans times_div_less_eq_dividend)
  then have "linear_entry m ?a" using assms(3) by blast
  then have "pde_present (dir_entry m (0x300 OR drop_bit 22 p)) \<noteq> 0"
    "pde_enable4m (dir_entry m (0x300 OR drop_bit 22 p)) \<noteq> 0"
    "pde_page_frame_addr (dir_entry m (0x300 OR drop_bit 22 p)) = drop_bit 22 p"
    unfolding linear_entry_def d Let_def by blast+
  then show ?thesis
    unfolding mmu_walk_entries kernel_base_or [OF p26] Let_def by simp
qed

lemma paging_init_ok:
  assumes "take_bit 12 (cr3 m) = 0" and "virtual_to_physical m kpd = Done (cr3 m)" and "unat e \<le> 0x4000000"
  shows "\<exists>m'. paging_init kpd e 0xC0000000 m = Done m' \<and> self_mapped m' \<and> cr3 m' = cr3 m \<and>
    (\<forall>a. 0x400000 * a < unat e \<longrightarrow> linear_entry m' a)"
proof -
  obtain m1 where m1: "directory_init kpd m = Done m1" "self_mapped m1" "cr3 m1 = cr3 m"
    by (rule directory_init_self_mapped [OF assms(1,2)])
  then obtain m' where "map_linear e 0xC0000000 (word_of_nat (0x400000 * 0)) m1 = Some m'" "self_mapped m'"
    "cr3 m' = cr3 m1" "\<forall>a. 0x400000 * a < unat e \<longrightarrow> linear_entry m' a"
    using map_linear_ok [OF assms(3), of m1 0] assms(1) by auto
  then show ?thesis using m1 by (simp add: paging_init_def)
qed

subsection \<open>Mapping a page and handling a fault\<close>

text \<open>The page table of \<open>va\<close> is another frame than the directory.\<close>

definition own_table :: "machine \<Rightarrow> u32 \<Rightarrow> bool" where
  "own_table m va \<longleftrightarrow> pde_present (dir_entry m (drop_bit 22 va)) \<noteq> 0 \<and>
     pde_enable4m (dir_entry m (drop_bit 22 va)) = 0 \<and>
     push_bit 12 (pde_page_table_addr (dir_entry m (drop_bit 22 va))) \<noteq> cr3 m"

lemma table_dir_distinct:
  assumes "push_bit 12 t \<noteq> c" and "take_bit 12 c = 0" and "take_bit 10 i = i" and "take_bit 10 j = j"
  shows "pt_entry_addr (push_bit 12 t) j \<noteq> pt_entry_addr c i"
proof
  assume eq: "pt_entry_addr (push_bit 12 t) j = pt_entry_addr c i"
  have clear: "pt_entry_addr a k AND NOT (mask 12) = a" if "take_bit 12 a = 0" "take_bit 10 k = k" for a k
  proof (rule bit_eqI)
    fix n
    have "n < 12 \<Longrightarrow> \<not> bit a n" using that(1) by (metis bit_take_bit_iff bit_0_eq bot_apply bot_bool_def)
    moreover have "\<not> n < 12 \<Longrightarrow> \<not> bit (push_bit 2 k) n" using bit_index [OF that(2), of "n - 2"] by (auto simp: bit_simps)
    ultimately show "bit (pt_entry_addr a k AND NOT (mask 12)) n = bit a n"
      by (auto simp: pt_entry_addr_def bit_simps dest: bit_imp_le_length)
  qed
  have "take_bit 12 (push_bit 12 t) = 0" by (rule bit_eqI) (auto simp: bit_simps)
  then have "push_bit 12 t = c" using clear assms(2,3,4) eq by metis
  then show False using assms(1) by simp
qed

text \<open>Writing the entry of \<open>va\<close> through the window makes the walk of \<open>va\<close> use the new entry.\<close>

lemma write_pte_walk:
  assumes sm: "self_mapped m" and al: "take_bit 12 (cr3 m) = 0" and own: "own_table m va"
    and pres: "pte_present v \<noteq> 0"
  defines "w \<equiv> table_window (drop_bit 22 va) + 4 * take_bit 10 (drop_bit 12 va)"
  shows "\<exists>m'. vwrite w v m = Done m' \<and> mmu_walk m' va = Some (push_bit 12 (pte_page_addr v) OR take_bit 12 va)"
proof -
  let ?i = "drop_bit 22 va" and ?j = "take_bit 10 (drop_bit 12 va)"
  let ?t = "pde_page_table_addr (dir_entry m ?i)"
  have o: "pde_present (dir_entry m ?i) \<noteq> 0" "pde_enable4m (dir_entry m ?i) = 0" "push_bit 12 ?t \<noteq> cr3 m"
    using own by (auto simp: own_table_def)
  have ww: "mmu_walk m w = Some (pt_entry_addr (push_bit 12 ?t) ?j)"
    unfolding w_def using sm o(1) by (intro window_walk) simp_all
  let ?m = "m\<lparr>mem := (mem m)(pt_entry_addr (push_bit 12 ?t) ?j := v)\<rparr>"
  have d: "dir_entry ?m ?i = dir_entry m ?i"
    using table_dir_distinct [OF o(3) al, of ?i ?j] by (simp add: dir_entry_def)
  have te: "table_entry ?m ?i ?j = v" unfolding table_entry_def d by simp
  have "mmu_walk ?m va = Some (push_bit 12 (pte_page_addr v) OR take_bit 12 va)"
    unfolding mmu_walk_entries Let_def d te using o pres by simp
  then show ?thesis by (simp add: vwrite_def ww)
qed

lemma window_sum: "take_bit 10 i = i \<Longrightarrow> 0xFFC00000 + 4 * (0x400 * i) = table_window i"
proof -
  assume i: "take_bit 10 i = i"
  have m: "4 * (0x400 * i) = push_bit 12 i" by (simp add: push_bit_eq_mult)
  show ?thesis
    unfolding m table_window_def mask_consts
    by (rule disjunctive_add) (auto simp: bit_simps dest: bit_index [OF i])
qed

lemma map_page_ok:
  assumes sm: "self_mapped m" and al: "take_bit 12 (cr3 m) = 0" and own: "own_table m va"
    and p: "take_bit 12 phys = 0" and v: "take_bit 12 va = 0"
  shows "\<exists>m'. paging_map_page phys va flags m = Done m' \<and> mmu_walk m' va = Some phys"
proof -
  let ?e = "phys OR take_bit 12 flags OR 1"
  have pb: "n < 12 \<Longrightarrow> \<not> bit phys n" for n
    using p by (metis bit_take_bit_iff bit_0_eq bot_apply bot_bool_def)
  have pb': "bit phys n \<Longrightarrow> 12 \<le> n \<and> bit phys (12 + (n - 12))" for n
    using pb [of n] by (cases "n < 12") auto
  have "pte_present ?e = take_bit 1 ?e" by (simp add: pte_present_def get_field_def)
  also have "\<dots> = 1"
    by (rule bit_eqI) (auto simp: bit_simps pb)
  finally have pres: "pte_present ?e \<noteq> 0" by simp
  have addr: "push_bit 12 (pte_page_addr ?e) OR take_bit 12 va = phys"
    unfolding v pte_page_addr_def
    by (rule bit_eqI) (auto simp: bit_simps bit_get_field pb dest: bit_imp_le_length pb')
  from write_pte_walk [OF sm al own pres] obtain m' where
    m': "vwrite (table_window (drop_bit 22 va) + 4 * take_bit 10 (drop_bit 12 va)) ?e m = Done m'"
    "mmu_walk m' va = Some phys" unfolding addr by blast
  have "paging_map_page phys va flags m = Done m'"
    using p v m'(1) window_sum [of "drop_bit 22 va"] by (simp add: paging_map_page_def Let_def)
  then show ?thesis using m'(2) by blast
qed

lemma handle_fault_ok:
  assumes sm: "self_mapped m" and al: "take_bit 12 (cr3 m) = 0" and own: "own_table m va"
    and err: "err AND 0x8 = 0" "err AND 0x1 = 0"
    and res: "pte_reserved_flag (table_entry m (drop_bit 22 va) (take_bit 10 (drop_bit 12 va))) \<noteq> 0"
    and got: "mm_alloc_pages_himem 1 1 ps = Done (phys, ps')"
  shows "\<exists>m'. paging_handle_fault err va (m, ps) = Done (True, m', ps') \<and>
    mmu_walk m' va = Some (push_bit 12 (drop_bit 12 phys) OR take_bit 12 va)"
proof -
  let ?i = "drop_bit 22 va" and ?j = "take_bit 10 (drop_bit 12 va)"
  let ?w = "table_window ?i + 4 * ?j" and ?e = "table_entry m ?i ?j"
  have i: "take_bit 10 ?i = ?i" and j: "take_bit 10 ?j = ?j" by simp_all
  have o: "pde_present (dir_entry m ?i) \<noteq> 0" "pde_enable4m (dir_entry m ?i) = 0"
    using own by (auto simp: own_table_def)
  have w: "fault_pte_addr va = ?w"
    unfolding window_address(1) [OF i j] by (simp add: fault_pte_addr_def table_window_def or.assoc)
  have pres: "pte_present (fill_pte phys ?e) \<noteq> 0" by (simp add: fill_pte_def pte_defs)
  have "take_bit 20 (drop_bit 12 phys) = drop_bit 12 phys"
    by (rule bit_eqI) (auto simp: bit_simps dest: bit_imp_le_length)
  then have addr: "pte_page_addr (fill_pte phys ?e) = drop_bit 12 phys"
    by (simp add: fill_pte_def pte_defs PAGE_SHIFT_def)
  obtain m' where m': "vwrite ?w (fill_pte phys ?e) m = Done m'"
    "mmu_walk m' va = Some (push_bit 12 (drop_bit 12 phys) OR take_bit 12 va)"
    using write_pte_walk [OF sm al own pres] unfolding addr by blast
  have "paging_handle_fault err va (m, ps) = Done (True, m', ps')"
    unfolding paging_handle_fault_def Let_def w fst_conv snd_conv vread_window [OF sm i j o(1)]
    using err o res got m'(1) by simp
  then show ?thesis using m'(2) by blast
qed

subsection \<open>Properties\<close>

text \<open>C5: Once the directory maps itself, the software walk \<^verbatim>\<open>PageDirectory::virtual_to_physical\<close> gives for
  every address what the hardware walk gives, and 0 for the addresses that are not mapped.\<close>

theorem virtual_to_physical_is_walk:
  assumes "self_mapped m"
  shows "virtual_to_physical m va = Done (case mmu_walk m va of Some pa \<Rightarrow> pa | None \<Rightarrow> 0)"
  by (rule virtual_to_physical_walk [OF assms])

text \<open>C34: \<^verbatim>\<open>PageDirectory::physical_to_virtual\<close> always returns; its result is a virtual address the hardware
  maps to the physical one, or 0 when no virtual address is mapped to it.\<close>

theorem physical_to_virtual_inverts_walk:
  assumes "self_mapped m"
  shows "\<exists>va. physical_to_virtual m addr = Done va \<and>
    (mmu_walk m va = Some addr \<or> va = 0 \<and> {v. mmu_walk m v = Some addr} = {})"
  using physical_to_virtual_ok [OF assms, of addr] by simp

text \<open>C28: \<^verbatim>\<open>paging::init\<close> returns with the directory mapped into itself and every physical address below
  the end of the kernel's memory mapped at its kernel virtual address.\<close>

theorem paging_init_maps_kernel:
  assumes "take_bit 12 (cr3 m) = 0" and "virtual_to_physical m kpd = Done (cr3 m)"
    and "linear_end \<le> KERNEL_VIRTUAL_SIZE_MAX" and "p < linear_end"
  shows "\<exists>m'. paging_init kpd linear_end KERNEL_VIRTUAL_BASE m = Done m' \<and> self_mapped m' \<and>
    mmu_walk m' (kernel_physical_to_virtual p) = Some p"
proof -
  have e: "unat linear_end \<le> 0x4000000" "unat p < unat linear_end"
    using assms(3,4) by (simp_all add: KERNEL_VIRTUAL_SIZE_MAX_def word_le_nat_alt word_less_nat_alt)
  from paging_init_ok [OF assms(1,2) e(1)] obtain m' where
    "paging_init kpd linear_end 0xC0000000 m = Done m'" "self_mapped m'"
    "\<forall>a. 0x400000 * a < unat linear_end \<longrightarrow> linear_entry m' a" by blast
  then show ?thesis using linear_walk [OF e(2,1)]
    by (simp add: KERNEL_VIRTUAL_BASE_def kernel_physical_to_virtual_def add.commute)
qed

text \<open>\<^verbatim>\<open>map_page\<close> on aligned addresses whose page table exists makes the hardware translate the virtual
  page to the physical one.\<close>

theorem map_page_installs_mapping:
  assumes "self_mapped m" and "take_bit 12 (cr3 m) = 0" and "own_table m va"
    and "take_bit 12 phys = 0" and "take_bit 12 va = 0"
  shows "\<exists>m'. paging_map_page phys va flags m = Done m' \<and> mmu_walk m' va = Some phys"
  by (rule map_page_ok [OF assms])

text \<open>A fault on a reserved page is handled by mapping the page the high memory allocator returned.
  The result of the allocator is not checked: when it is out of memory and returns 0, physical page 0
  is mapped and the fault is reported as handled.\<close>

theorem page_fault_maps_allocated_page:
  assumes "self_mapped m" and "take_bit 12 (cr3 m) = 0" and "own_table m va"
    and "err AND 0x8 = 0" and "err AND 0x1 = 0"
    and "pte_reserved_flag (table_entry m (drop_bit 22 va) (take_bit 10 (drop_bit 12 va))) \<noteq> 0"
    and "mm_alloc_pages_himem 1 1 ps = Done (phys, ps')"
  shows "\<exists>m'. paging_handle_fault err va (m, ps) = Done (True, m', ps') \<and>
    mmu_walk m' va = Some (push_bit 12 (drop_bit 12 phys) OR take_bit 12 va)"
  by (rule handle_fault_ok [OF assms])

text \<open>A machine whose directory at \<open>0x1000\<close> maps itself, one page table at \<open>0x5000\<close> (with page 1
  reserved) and one large page.\<close>

definition sample_machine :: machine where
  "sample_machine = \<lparr>cr3 = 0x1000, mem = (\<lambda>a. if a = 0x1FFC then 0x1003 else if a = 0x1000 then 0x5003
     else if a = 0x1C00 then 0x83 else if a = 0x5004 then 0x200 else 0), flushed = []\<rparr>"

lemma sample_machine_facts:
  "self_mapped sample_machine" "take_bit 12 (cr3 sample_machine) = 0"
  "own_table sample_machine 0x1000" "virtual_to_physical sample_machine 0xC0001000 = Done 0x1000"
  "pte_reserved_flag (table_entry sample_machine 0 1) \<noteq> 0"
  by (simp_all add: self_mapped_def sample_machine_def dir_entry_def pt_entry_addr_def pde_defs pte_defs
    get_field_def own_table_def virtual_to_physical_def table_entry_def Let_def)

theorem virtual_to_physical_is_walk_witness:
  "virtual_to_physical sample_machine 0xC0201234 = Done 0x201234"
  unfolding virtual_to_physical_is_walk [OF sample_machine_facts(1)]
  by (simp add: mmu_walk_def sample_machine_def pt_entry_addr_def pde_defs get_field_def)

theorem physical_to_virtual_inverts_walk_witness:
  "\<exists>va. physical_to_virtual sample_machine 0x201234 = Done va \<and> mmu_walk sample_machine va = Some 0x201234"
proof -
  have "mmu_walk sample_machine 0xC0201234 = Some 0x201234"
    by (simp add: mmu_walk_def sample_machine_def pt_entry_addr_def pde_defs get_field_def)
  then show ?thesis
    using physical_to_virtual_inverts_walk [OF sample_machine_facts(1), of "0x201234"] by blast
qed

theorem paging_init_maps_kernel_witness:
  "\<exists>m'. paging_init 0xC0001000 0x1000000 KERNEL_VIRTUAL_BASE sample_machine = Done m' \<and> self_mapped m' \<and>
    mmu_walk m' (kernel_physical_to_virtual 0x123456) = Some 0x123456"
  by (rule paging_init_maps_kernel)
    (use sample_machine_facts in \<open>simp_all add: KERNEL_VIRTUAL_SIZE_MAX_def word_le_nat_alt word_less_nat_alt
      sample_machine_def\<close>)

theorem map_page_installs_mapping_witness:
  "\<exists>m'. paging_map_page 0x7000 0x1000 3 sample_machine = Done m' \<and> mmu_walk m' 0x1000 = Some 0x7000"
  by (rule map_page_installs_mapping) (simp_all add: sample_machine_facts)

theorem page_fault_maps_allocated_page_witness:
  "\<exists>m' ps'. paging_handle_fault 0 0x1000 (sample_machine, sample_physical\<lparr>pools := \<lambda>_. pool_init 0 0 0\<rparr>) =
      Done (True, m', ps') \<and> mmu_walk m' 0x1000 = Some 0"
proof -
  let ?ps = "sample_physical\<lparr>pools := \<lambda>_. pool_init 0 0 0\<rparr>"
  have "pool_try 1 1 (pool_init 0 0 0) = Done None"
    unfolding pool_try_def by (subst scan.simps) (simp add: pool_init_def)
  then have "\<exists>ps'. mm_alloc_pages_himem 1 1 ?ps = Done (0, ps')"
    by (simp add: mm_alloc_pages_himem_def physical_alloc_himem_def pool_alloc_none log_if_zero_def)
  then obtain ps' where "mm_alloc_pages_himem 1 1 ?ps = Done (0, ps')" by blast
  then show ?thesis
    using page_fault_maps_allocated_page [where m = sample_machine and va = "0x1000" and err = 0 and ps = ?ps
        and phys = 0 and ps' = ps'] sample_machine_facts by auto
qed

end
