(* ===== verification/Memory_Init.thy ===== *)
theory Memory_Init
  imports Heap Paging
begin

text \<open>
  \<^verbatim>\<open>mm::init\<close> of \<^verbatim>\<open>src/mm.cpp\<close>: finds the memory and the end of the kernel image, maps the kernel's
  memory, starts the physical allocator and the heap, and unmaps the boot loader's first pages. The
  boot information is read from the byte store \<open>bm\<close>; \<open>kpd\<close> is the address of \<^verbatim>\<open>KernelPageDirectory\<close>.
\<close>

definition memory_messages :: "multiboot_info \<Rightarrow> log" where
  "memory_messages mbt =
     (if mbi_flags mbt AND MULTIBOOT_MEMORY_INFO \<noteq> 0
      then [Print (''Memory (Lower/Upper): %d KiB/%d KiB'' @ [CHR ''\<newline>'']) [mem_lower mbt, mem_upper mbt]]
      else [Print (''WARNING: MultiBoot header did not specify memory'' @ [CHR ''\<newline>'']) []])"

definition range_messages :: "u32 \<Rightarrow> u32 \<Rightarrow> u32 \<Rightarrow> log" where
  "range_messages kernel_dynamic_start kernel_dynamic_end himem_size =
     [Debug (''mm::init: kernel_dynamic_start = 0x%p'' @ [CHR ''\<newline>'']) [kernel_dynamic_start],
      Debug (''mm::init: kernel_dynamic_end = 0x%p'' @ [CHR ''\<newline>'']) [kernel_dynamic_end],
      Debug (''mm::init: himem_size = 0x%p'' @ [CHR ''\<newline>'']) [himem_size]]"

definition mm_init ::
    "memory \<Rightarrow> multiboot_info \<Rightarrow> u32 \<Rightarrow> machine \<times> physical heap \<Rightarrow> (machine \<times> physical heap) outcome" where
  "mm_init bm mbt kpd s =
     outcome_bind (find_memory_end bm mbt)
       (\<lambda>memory_end.
          let kernel_static_end = find_kernel_static_end bm mbt;
              kernel_dynamic_start = kernel_static_end;
              kernel_dynamic_end = (if KERNEL_VIRTUAL_SIZE_MAX < memory_end then KERNEL_VIRTUAL_SIZE_MAX else memory_end);
              himem_size = memory_end - kernel_dynamic_end;
              h1 = (snd s)\<lparr>hlog := hlog (snd s) @ memory_messages mbt @
                     range_messages kernel_dynamic_start kernel_dynamic_end himem_size\<rparr>
          in outcome_bind (paging_init kpd kernel_dynamic_end KERNEL_VIRTUAL_BASE (fst s))
               (\<lambda>m1. outcome_bind (physical_init bm mbt kernel_static_end kernel_dynamic_end memory_end (pages h1))
                  (\<lambda>ps. Done (init_unmap_0 m1, heap_init (h1\<lparr>pages := ps\<rparr>)))))"

text \<open>The first 4 MiB are unmapped, every other directory entry stays.\<close>

lemma init_unmap_0_entries:
  assumes "take_bit 12 (cr3 m) = 0" and "take_bit 10 j = j"
  shows "dir_entry (init_unmap_0 m) j = (if j = 0 then set_pde_present 0 (dir_entry m 0) else dir_entry m j)"
  using dir_entry_update [OF assms(1) _ assms(2), of 0] by (simp add: init_unmap_0_def)

lemma init_unmap_0_cr3 [simp]: "cr3 (init_unmap_0 m) = cr3 m"
  by (simp add: init_unmap_0_def)

lemma init_unmap_0_ok:
  assumes "take_bit 12 (cr3 m) = 0" and "self_mapped m" and "\<forall>a. 0x400000 * a < n \<longrightarrow> linear_entry m a"
    and "n \<le> 0x4000000"
  shows "self_mapped (init_unmap_0 m)" and "\<forall>a. 0x400000 * a < n \<longrightarrow> linear_entry (init_unmap_0 m) a"
    and "drop_bit 22 va = 0 \<Longrightarrow> mmu_walk (init_unmap_0 m) va = None"
proof -
  show "self_mapped (init_unmap_0 m)"
    using assms(2) init_unmap_0_entries [OF assms(1), of "0x3FF"] self_mapped_cong [of "init_unmap_0 m" m] by simp
  show "\<forall>a. 0x400000 * a < n \<longrightarrow> linear_entry (init_unmap_0 m) a"
  proof (intro allI impI)
    fix a assume a: "0x400000 * a < n"
    then have "a < 16" using assms(4) by linarith
    moreover have "(0x300 OR word_of_nat a :: u32) \<noteq> 0" by (simp add: or_eq_0_iff)
    ultimately have "dir_entry (init_unmap_0 m) (0x300 OR word_of_nat a) = dir_entry m (0x300 OR word_of_nat a)"
      using init_unmap_0_entries [OF assms(1) linear_index(1)] by simp
    then show "linear_entry (init_unmap_0 m) a" using assms(3) a by (simp add: linear_entry_def)
  qed
  show "mmu_walk (init_unmap_0 m) va = None" if "drop_bit 22 va = 0"
    using init_unmap_0_entries [OF assms(1), of 0] that
    by (simp add: mmu_walk_entries Let_def pde_defs)
qed

lemma init_pools_kernel_frames:
  assumes "4096 dvd unat kernel_dynamic_end" and "kernel_dynamic_end \<le> himem_end"
    and "s' = fst (init_pools kernel_static_end kernel_dynamic_end himem_end s)"
  shows "4096 * (frames (pools s' DMAPool) + frames (pools s' DefaultPool)) = unat kernel_dynamic_end"
proof -
  have "base (pools s' HiMemPool) = kernel_dynamic_end"
    by (simp add: assms(3) init_pools_def Let_def case_prod_beta)
  then show ?thesis
    using phys_inv_pool(2) [OF init_pools_inv(1) [OF assms(1,2) assms(3)], of HiMemPool] by simp
qed

text \<open>What \<^verbatim>\<open>mm::init\<close> leaves behind: the kernel's memory mapped, address 0 unmapped, and the
  allocators ready.\<close>

definition memory_ready :: "u32 \<Rightarrow> machine \<times> physical heap \<Rightarrow> bool" where
  "memory_ready memory_end s \<longleftrightarrow> self_mapped (fst s) \<and> mmu_walk (fst s) 0 = None \<and>
     (\<forall>p < KERNEL_VIRTUAL_SIZE_MAX. mmu_walk (fst s) (kernel_physical_to_virtual p) = Some p) \<and>
     total_pages (pages (snd s)) = page_of memory_end \<and>
     heap_inv mm_inv mm_used (snd s) (\<lambda>_. {}) \<and> live_objects (snd s) (\<lambda>_. {}) = {}"

lemma heap_inv_groups_new:
  "pinv (pages h) \<Longrightarrow> groups h = replicate 17 heap_chunk_group_new \<Longrightarrow> heap_inv pinv used h (\<lambda>_. {})"
  by (simp add: heap_inv_def group_ok_def open_chunks_def chunks_apart_def group_first_def heap_chunk_group_new_def)

text \<open>What is left to hand out: an empty heap, 16 MiB for DMA and 48 MiB besides, of which only the marked
  blocks of the memory map and the static part of the kernel are in use.\<close>

definition memory_free :: "multiboot_mmap_entry list \<Rightarrow> u32 \<Rightarrow> physical heap \<Rightarrow> bool" where
  "memory_free es static_end h \<longleftrightarrow> groups h = replicate 17 heap_chunk_group_new \<and> phys_inv (pages h) \<and>
     frames (pools (pages h) DMAPool) = 0x1000 \<and> frames (pools (pages h) DefaultPool) = 0x3000 \<and>
     used_pages (pages h) \<subseteq> marked_pages es \<union> {k. 4096 * k < unat static_end}"

lemma init_pools_frames:
  "frames (pools (fst (init_pools kse KERNEL_VIRTUAL_SIZE_MAX himem_end s)) DMAPool) = 0x1000"
  "frames (pools (fst (init_pools kse KERNEL_VIRTUAL_SIZE_MAX himem_end s)) DefaultPool) = 0x3000"
  by (simp_all add: init_pools_def Let_def case_prod_beta pool_init_def frames_def mmdef_defs)

subsection \<open>Property\<close>

lemma mm_init_ok:
  assumes "mbi_flags mbt AND MULTIBOOT_INFO_MEM_MAP \<noteq> 0"
    and "mmap_stored bm (mmap_addr mbt) (mmap_addr mbt + mmap_length mbt) es" and "short_reserved es"
    and "memory_end = Max (insert 0 (memory_ends es))" and "KERNEL_VIRTUAL_SIZE_MAX \<le> memory_end"
    and "static_end = snd (init_pools (find_kernel_static_end bm mbt) KERNEL_VIRTUAL_SIZE_MAX memory_end (pages h))"
    and "static_end \<noteq> 0" and "static_end \<le> 0xFFFFF000"
    and "take_bit 12 (cr3 m) = 0" and "virtual_to_physical m kpd = Done (cr3 m)"
    and "groups h = replicate 17 heap_chunk_group_new"
  shows "\<exists>s'. mm_init bm mbt kpd (m, h) = Done s' \<and> memory_ready memory_end s' \<and> memory_free es static_end (snd s')"
proof -
  let ?kde = "KERNEL_VIRTUAL_SIZE_MAX" and ?kse = "find_kernel_static_end bm mbt"
  have kde: "unat ?kde = 0x4000000" "4096 dvd unat ?kde" by (simp_all add: KERNEL_VIRTUAL_SIZE_MAX_def)
  have me: "find_memory_end bm mbt = Done memory_end"
    by (simp add: find_memory_end_def iterate_mmap_fold [OF assms(1,2)] fold_memory_end_step assms(4))
  have le: "(if ?kde < memory_end then ?kde else memory_end) = ?kde" using assms(5) by auto
  have "memory_end \<noteq> 0" using assms(5) by (auto simp: KERNEL_VIRTUAL_SIZE_MAX_def)
  note pi = physical_init_marks [OF this assms(5) kde(2) assms(1-3,6,8)]
  then obtain ps where ps: "physical_init bm mbt ?kse ?kde memory_end (pages h) = Done ps"
    and mk: "marks (fst (init_pools ?kse ?kde memory_end (pages h)))
      (marked_pages es \<union> {k. 4096 * k < unat static_end}) ps" by blast
  note ip = init_pools_inv [OF kde(2) assms(5) refl, of ?kse "pages h"]
  have "4096 * (frames (pools ps DMAPool) + frames (pools ps DefaultPool)) = unat ?kde"
    using mk init_pools_kernel_frames [OF kde(2) assms(5) refl, of ?kse "pages h"] by (simp add: marks_def)
  moreover have total: "total_pages ps = page_of memory_end" using mk ip(3) by (simp add: marks_def)
  moreover have "0 < page_of memory_end"
    using assms(5) kde(1) unfolding page_of_def word_le_nat_alt by simp
  ultimately have inv: "mm_inv ps"
    using mk ip kde(1) assms(7) by (auto simp: mm_inv_def marks_def unat_gt_0)
  obtain m1 where m1: "paging_init kpd ?kde 0xC0000000 m = Done m1" "self_mapped m1" "cr3 m1 = cr3 m"
    "\<forall>a. 0x400000 * a < unat ?kde \<longrightarrow> linear_entry m1 a"
    using paging_init_ok [OF assms(9,10), of ?kde] kde(1) by auto
  let ?m = "init_unmap_0 m1"
  have "take_bit 12 (cr3 m1) = 0" using m1(3) assms(9) by simp
  note un = init_unmap_0_ok [OF this m1(2,4)]
  have walk: "mmu_walk ?m (kernel_physical_to_virtual p) = Some p" if "p < ?kde" for p
    using linear_walk [of p ?kde ?m] that un(2) kde(1)
    by (simp add: word_less_nat_alt kernel_physical_to_virtual_def KERNEL_VIRTUAL_BASE_def add.commute)
  let ?h1 = "h\<lparr>hlog := hlog h @ memory_messages mbt @ range_messages ?kse ?kde (memory_end - ?kde)\<rparr>"
  have run: "mm_init bm mbt kpd (m, h) = Done (?m, ?h1\<lparr>pages := ps\<rparr>)"
    using ps m1(1) by (simp add: mm_init_def me Let_def le heap_init_def KERNEL_VIRTUAL_BASE_def)
  have "memory_ready memory_end (?m, ?h1\<lparr>pages := ps\<rparr>)"
    using un(1,3) kde(1) walk total inv assms(11)
    by (simp add: memory_ready_def heap_inv_groups_new live_objects_def)
  moreover have "memory_free es static_end (?h1\<lparr>pages := ps\<rparr>)"
    using mk ip(2) init_pools_frames [of ?kse memory_end "pages h"] assms(11) by (auto simp: memory_free_def marks_def)
  ultimately show ?thesis using run by auto
qed

text \<open>C10: On a machine with at least 64 MiB, \<^verbatim>\<open>mm::init\<close> returns with the kernel's 64 MiB mapped at their
  virtual addresses, the null page unmapped, all pages up to the end of memory under management, and
  an empty, consistent heap on top of the page allocator.\<close>

theorem mm_init_ready:
  assumes "mbi_flags mbt AND MULTIBOOT_INFO_MEM_MAP \<noteq> 0"
    and "mmap_stored bm (mmap_addr mbt) (mmap_addr mbt + mmap_length mbt) es" and "short_reserved es"
    and "memory_end = Max (insert 0 (memory_ends es))" and "KERNEL_VIRTUAL_SIZE_MAX \<le> memory_end"
    and "static_end = snd (init_pools (find_kernel_static_end bm mbt) KERNEL_VIRTUAL_SIZE_MAX memory_end (pages h))"
    and "static_end \<noteq> 0" and "static_end \<le> 0xFFFFF000"
    and "take_bit 12 (cr3 m) = 0" and "virtual_to_physical m kpd = Done (cr3 m)"
    and "groups h = replicate 17 heap_chunk_group_new"
  shows "\<exists>s'. mm_init bm mbt kpd (m, h) = Done s' \<and> memory_ready memory_end s'"
  using mm_init_ok [OF assms] by blast

text \<open>A machine with 128 MiB and a kernel image that ends at 2 MiB.\<close>

definition boot_bytes :: memory where
  "boot_bytes a = (if a = 0x1000 then 20 else if a = 0x100F then 8 else if a = 0x1014 then 1
     else if a = 0x2008 then 2 else if a = 0x200E then 0x10 else if a = 0x200F then 0xC0
     else if a = 0x2016 then 0x10 else if a = 0x5000 then 0x46 else 0)"

definition boot_mbi :: multiboot_info where
  "boot_mbi = (read_multiboot_info (\<lambda>_. 0) 0)\<lparr>mbi_flags := 0x60, mmap_addr := 0x1000, mmap_length := 24,
     elf_sec := \<lparr>esht_num = 1, esht_size = 40, esht_addr = 0x2000, esht_shndx = 0\<rparr>\<rparr>"

definition boot_entries :: "multiboot_mmap_entry list" where
  "boot_entries = [\<lparr>entry_size = 20, entry_addr = 0, entry_len = 0x8000000, entry_type = 1\<rparr>]"

lemma boot_facts:
  "mmap_stored boot_bytes 0x1000 0x1018 boot_entries" "find_kernel_static_end boot_bytes boot_mbi = 0x200000"
  "Max (insert 0 (memory_ends boot_entries)) = 0x8000000"
proof -
  show "mmap_stored boot_bytes 0x1000 0x1018 boot_entries"
    by (simp add: boot_entries_def read_mmap_entry_def read_u32_def read_u64_def boot_bytes_def)
  have "read_shdr boot_bytes 0x2000 = \<lparr>sh_name = 0, sh_type = 0, sh_flags = 2, sh_addr = 0xC0100000,
      sh_offset = 0, sh_size = 0x100000, sh_link = 0, sh_info = 0, sh_addralign = 0, sh_entsize = 0\<rparr>"
    by (simp add: read_shdr_def read_u32_def boot_bytes_def)
  then show "find_kernel_static_end boot_bytes boot_mbi = 0x200000"
    by (simp add: find_kernel_static_end_def iterate_elf_section_headers_def boot_mbi_def
      multiboot_flag_defs section_end_step_def KERNEL_VIRTUAL_BASE_def)
  have "{e. e = \<lparr>entry_size = 20, entry_addr = 0, entry_len = 0x8000000, entry_type = (1 :: u32)\<rparr> \<and>
      entry_type e = 1} = {\<lparr>entry_size = 20, entry_addr = 0, entry_len = 0x8000000, entry_type = 1\<rparr>}" by auto
  then have "memory_ends boot_entries = {0x8000000}"
    by (simp add: memory_ends_def boot_entries_def block_end_def MULTIBOOT_MEMORY_AVAILABLE_def)
  then show "Max (insert 0 (memory_ends boot_entries)) = 0x8000000" by (simp add: max_def)
qed

theorem mm_init_ready_witness:
  "\<exists>s'. mm_init boot_bytes boot_mbi 0xC0001000 (sample_machine, heap_start sample_physical) = Done s' \<and>
    memory_ready 0x8000000 s'"
proof (rule mm_init_ready)
  show "(0x220000 :: u32) = snd (init_pools (find_kernel_static_end boot_bytes boot_mbi) KERNEL_VIRTUAL_SIZE_MAX
      0x8000000 (pages (heap_start sample_physical)))"
    unfolding boot_facts by (simp add: init_pools_def linear_alloc_def Let_def mmdef_defs align_pos.simps)
  show "(0x8000000 :: u32) = Max (insert 0 (memory_ends boot_entries))" by (simp only: boot_facts)
  show "short_reserved boot_entries"
    by (simp add: boot_entries_def short_reserved_def multiboot_flag_defs)
  show "virtual_to_physical sample_machine 0xC0001000 = Done (cr3 sample_machine)"
    using sample_machine_facts(4) by (simp add: sample_machine_def)
qed (use boot_facts sample_machine_facts in \<open>simp_all add: boot_mbi_def multiboot_flag_defs mmdef_defs
  heap_start_def word_le_nat_alt\<close>)

end
