(* ===== verification/Fat12.thy ===== *)
theory Fat12
  imports Block_Device Klibc
begin

text \<open>
  The FAT12 reader: \<^verbatim>\<open>src/FAT12LowLevel.h\<close>, \<^verbatim>\<open>src/FAT12FAT.h\<close>, \<^verbatim>\<open>src/FAT12FileSystem.cpp\<close>,
  \<^verbatim>\<open>src/FAT12DirectoryEnum.h\<close>, \<^verbatim>\<open>src/FAT12DirectoryEnumBase.cpp\<close>, \<^verbatim>\<open>src/FAT12Directory.cpp\<close>. A
  \<^verbatim>\<open>std::vector\<close> is a list and an access past its end is \<^const>\<open>OutOfBounds\<close>; a \<^verbatim>\<open>shared_ptr\<close> to the file
  system is the file system value, which no operation changes after construction; debug output is
  left out. The cluster chain of a directory can be circular, so the loop that follows it is a
  \<^theory_text>\<open>partial_function\<close>.
\<close>

subsection \<open>On-disk structures\<close>

record FAT12_BootSector =
  JmpBootLow :: u16
  JmpBootHigh :: u8
  OSName :: "u8 list"
  BytesPerSector :: u16
  SectorsPerCluster :: u8
  ReservedSectorCount :: u16
  NumFATs :: u8
  RootEntityCount :: u16
  TotalSectorCount :: u16
  MediaType :: u8
  FATSize :: u16
  SectorsPerTrack :: u16
  NumHeads :: u16
  HiddenSectors :: u32
  TotalSectors32 :: u32
  DriveNumber :: u8
  VolumeID :: u32
  FileSystemType :: "u8 list"

definition boot_sector :: "u8 list \<Rightarrow> FAT12_BootSector" where
  "boot_sector bs = \<lparr>
     JmpBootLow = le16 bs 0, JmpBootHigh = bs ! 2, OSName = bytes_between bs 3 8,
     BytesPerSector = le16 bs 11, SectorsPerCluster = bs ! 13, ReservedSectorCount = le16 bs 14,
     NumFATs = bs ! 16, RootEntityCount = le16 bs 17, TotalSectorCount = le16 bs 19,
     MediaType = bs ! 21, FATSize = le16 bs 22, SectorsPerTrack = le16 bs 24, NumHeads = le16 bs 26,
     HiddenSectors = le32 bs 28, TotalSectors32 = le32 bs 32, DriveNumber = bs ! 36,
     VolumeID = le32 bs 39, FileSystemType = bytes_between bs 54 8\<rparr>"

definition ATTR_READ_ONLY :: u8 where "ATTR_READ_ONLY = 0x01"
definition ATTR_HIDDEN :: u8 where "ATTR_HIDDEN = 0x02"
definition ATTR_SYSTEM :: u8 where "ATTR_SYSTEM = 0x04"
definition ATTR_VOLUME_ID :: u8 where "ATTR_VOLUME_ID = 0x08"
definition ATTR_DIRECTORY :: u8 where "ATTR_DIRECTORY = 0x10"
definition ATTR_ARCHIVE :: u8 where "ATTR_ARCHIVE = 0x20"

record FAT12_DirectoryEntry =
  Name :: "u8 list"
  Attribute :: u8
  CreateTimeTenth :: u8
  LastAccessDate :: u16
  WriteTime :: u16
  WriteDate :: u16
  FileSystemClusterLogical :: u16
  FileSize :: u32

definition directory_entry :: "u8 list \<Rightarrow> FAT12_DirectoryEntry" where
  "directory_entry bs = \<lparr>
     Name = bytes_between bs 0 11, Attribute = bs ! 11, CreateTimeTenth = bs ! 13,
     LastAccessDate = le16 bs 16, WriteTime = le16 bs 22, WriteDate = le16 bs 24,
     FileSystemClusterLogical = le16 bs 26, FileSize = le32 bs 28\<rparr>"

subsection \<open>The file allocation table\<close>

definition fat_u :: "u8 \<Rightarrow> u8 \<Rightarrow> u16" where
  "fat_u f0 f1 = ucast f0 OR (push_bit 8 (ucast f1) AND 0xF00)"

definition fat_v :: "u8 \<Rightarrow> u8 \<Rightarrow> u16" where
  "fat_v f1 f2 = push_bit 4 (ucast f2) OR (drop_bit 4 (ucast f1) AND 0x00F)"

fun fat_read_loop :: "u8 list \<Rightarrow> u16 list" where
  "fat_read_loop (f0 # f1 # f2 # src) = fat_u f0 f1 # fat_v f1 f2 # fat_read_loop src"
| "fat_read_loop src = []"

definition fat_read :: "u8 list \<Rightarrow> u16 list outcome" where
  "fat_read src =
     (if length src mod 3 \<noteq> 0 then Fault (Panic ''Unexpected length of FAT: length = %d'')
      else Done (fat_read_loop src))"

definition fat_byte0 :: "u16 \<Rightarrow> u8" where "fat_byte0 u = ucast (u AND 0xFF)"
definition fat_byte1 :: "u16 \<Rightarrow> u16 \<Rightarrow> u8" where
  "fat_byte1 u v = ucast (drop_bit 8 (u AND 0x0F00) OR push_bit 4 (v AND 0x00F))"
definition fat_byte2 :: "u16 \<Rightarrow> u8" where "fat_byte2 v = ucast (drop_bit 4 (v AND 0xFF0))"

text \<open>\<open>p\<close> is the position of the write pointer in the buffer.\<close>

fun fat_write_loop :: "u16 list \<Rightarrow> nat \<Rightarrow> u8 list \<Rightarrow> u8 list outcome" where
  "fat_write_loop [] p buf = Done buf"
| "fat_write_loop [u] p buf = Fault OutOfBounds"
| "fat_write_loop (u # v # f) p buf =
     (if p + 2 < length buf then
        fat_write_loop f (p + 3) (buf[p := fat_byte0 u, p + 1 := fat_byte1 u v, p + 2 := fat_byte2 v])
      else Fault OutOfBounds)"

definition fat_write :: "u16 list \<Rightarrow> u8 list \<Rightarrow> u8 list outcome" where
  "fat_write f buf =
     (if length buf < length f * 2 div 3
      then Fault (Panic ''Not enough space for FAT: space = %d, fat size = %d'')
      else fat_write_loop f 0 buf)"

definition fat_next_cluster :: "u16 list \<Rightarrow> u16 \<Rightarrow> u16 outcome" where
  "fat_next_cluster f cluster =
     (if length f < unat cluster then Fault (Panic ''Access outside bounds of FAT: cluster = %d'')
      else if unat cluster = length f then Fault OutOfBounds
      else Done (f ! unat cluster))"

subsection \<open>The file system\<close>

record fat12_fs =
  bootSector :: FAT12_BootSector
  firstDataSector :: u32
  fs_fat :: "u16 list"

definition num_root_directory_sectors :: "FAT12_BootSector \<Rightarrow> u32 outcome" where
  "num_root_directory_sectors b =
     (if BytesPerSector b = 0 then Fault DivideError
      else Done (ucast (RootEntityCount b) * 32 div ucast (BytesPerSector b)))"

definition root_sector :: "FAT12_BootSector \<Rightarrow> u32" where
  "root_sector b = ucast (ReservedSectorCount b) + ucast (NumFATs b) * ucast (FATSize b)"

text \<open>The constructor; the result of the read is ignored, the vector starts zeroed.\<close>

definition FAT12FileSystem :: "'d IBlockDevice \<Rightarrow> FAT12_BootSector \<Rightarrow> 'd \<Rightarrow> (fat12_fs \<times> 'd) outcome" where
  "FAT12FileSystem dev b d =
     outcome_bind (num_root_directory_sectors b) (\<lambda>n.
       let first_data = root_sector b + n;
           fat = replicate (unat (BytesPerSector b) * unat (FATSize b)) 0 in
       outcome_bind (bd_read dev (ucast (ReservedSectorCount b)) (ucast (FATSize b)) fat d) (\<lambda>(ok, fat', d').
       outcome_bind (fat_read fat') (\<lambda>f.
       outcome_bind (fat_write f (replicate (length fat') 0)) (\<lambda>test.
         Done (\<lparr>bootSector = b, firstDataSector = first_data, fs_fat = f\<rparr>, d')))))"

definition tryCreate :: "'d IBlockDevice \<Rightarrow> memory \<Rightarrow> u32 \<Rightarrow> u32 \<Rightarrow> 'd \<Rightarrow> (fat12_fs option \<times> 'd) outcome" where
  "tryCreate dev m pBootSectorData literal d =
     (if pBootSectorData \<noteq> 0 \<and> strncmp m (pBootSectorData + 54) literal 5 = 0
      then outcome_bind
             (FAT12FileSystem dev (boot_sector (map (\<lambda>i. m (pBootSectorData + word_of_nat i)) [0..<512])) d)
             (\<lambda>(fs, d'). Done (Some fs, d'))
      else Done (None, d))"

definition sector_from_cluster :: "fat12_fs \<Rightarrow> u16 \<Rightarrow> u32 outcome" where
  "sector_from_cluster fs cluster =
     (if cluster = 0 then Done (root_sector (bootSector fs))
      else if cluster = 1 then Fault (Panic ''There is no cluster 1 in FAT12'')
      else Done (firstDataSector fs + (ucast cluster - 2) * ucast (SectorsPerCluster (bootSector fs))))"

definition sectors_per_cluster :: "fat12_fs \<Rightarrow> u32" where
  "sectors_per_cluster fs = ucast (SectorsPerCluster (bootSector fs))"

definition next_cluster :: "fat12_fs \<Rightarrow> u16 \<Rightarrow> u16 outcome" where
  "next_cluster fs cluster = fat_next_cluster (fs_fat fs) cluster"

subsection \<open>Directory enumeration\<close>

record dir_enum =
  de_sectors :: "u16 list"
  de_index :: u32

datatype fs_entry = FAT12Directory "u8 list" u16 | FAT12File "u8 list" u32 u16

primrec fs_entry_name :: "fs_entry \<Rightarrow> u8 list" where
  "fs_entry_name (FAT12Directory name cluster) = name"
| "fs_entry_name (FAT12File name sz cluster) = name"

fun push_sectors :: "nat \<Rightarrow> u32 \<Rightarrow> u16 list \<Rightarrow> u16 list" where
  "push_sectors 0 sector v = v"
| "push_sectors (Suc n) sector v = push_sectors n (sector + 1) (v @ [ucast sector])"

definition FAT12RootDirectoryEnum :: "u32 \<Rightarrow> u32 \<Rightarrow> dir_enum" where
  "FAT12RootDirectoryEnum first_sector sector_count =
     \<lparr>de_sectors = push_sectors (unat sector_count) first_sector [], de_index = 0\<rparr>"

definition root_directory :: "fat12_fs \<Rightarrow> dir_enum outcome" where
  "root_directory fs =
     outcome_bind (num_root_directory_sectors (bootSector fs)) (\<lambda>n.
     outcome_bind (sector_from_cluster fs 0) (\<lambda>s.
       Done (FAT12RootDirectoryEnum s n)))"

definition add_cluster :: "fat12_fs \<Rightarrow> u16 \<Rightarrow> u16 list \<Rightarrow> (u16 list \<times> u16) outcome" where
  "add_cluster fs cluster v =
     outcome_bind (sector_from_cluster fs cluster) (\<lambda>sector.
     outcome_bind (next_cluster fs cluster) (\<lambda>c.
       Done (push_sectors (unat (sectors_per_cluster fs)) sector v, c)))"

partial_function (option) collect_clusters :: "fat12_fs \<Rightarrow> u16 \<Rightarrow> u16 list \<Rightarrow> u16 list outcome option" where
  "collect_clusters fs cluster v =
     (case add_cluster fs cluster v of
        Fault e \<Rightarrow> Some (Fault e)
      | Diverges \<Rightarrow> Some Diverges
      | Done (v', c) \<Rightarrow>
          if c \<noteq> 0xFF0 \<and> c \<noteq> 0xFFF then collect_clusters fs c v' else Some (Done v'))"

definition FAT12DirectoryEnum :: "fat12_fs \<Rightarrow> u16 \<Rightarrow> dir_enum outcome" where
  "FAT12DirectoryEnum fs first_cluster =
     outcome_bind (outcome_of_loop (collect_clusters fs first_cluster [])) (\<lambda>v.
       Done \<lparr>de_sectors = v, de_index = 0\<rparr>)"

text \<open>\<^verbatim>\<open>children\<close> of an entry: \<open>None\<close> is the null pointer.\<close>

primrec children :: "fat12_fs \<Rightarrow> fs_entry \<Rightarrow> dir_enum option outcome" where
  "children fs (FAT12Directory name cluster) =
     outcome_bind (FAT12DirectoryEnum fs cluster) (\<lambda>e. Done (Some e))"
| "children fs (FAT12File name sz cluster) = Done None"

definition get_entry_count :: "dir_enum \<Rightarrow> u32" where
  "get_entry_count e = word_of_nat (length (de_sectors e)) * 16"

definition enum_reset :: "dir_enum \<Rightarrow> dir_enum" where
  "enum_reset e = e\<lparr>de_index := 0\<rparr>"

definition extract_fn_part :: "u8 list \<Rightarrow> u8 list" where
  "extract_fn_part src = filter (\<lambda>ch. ch \<noteq> 0x20) src"

text \<open>
  The name as the entry gets it: the 13-byte buffer, zero-initialised, read up to its first NUL.
\<close>

definition extract_file_name :: "u8 list \<Rightarrow> u8 list" where
  "extract_file_name fn =
     (let dest = extract_fn_part (take 8 fn) @ [0x2E] @ extract_fn_part (take 3 (drop 8 fn)) in
      if last dest = 0x2E then butlast dest @ [0] else dest)"

definition entry_name :: "u8 list \<Rightarrow> u8 list" where
  "entry_name fn = takeWhile (\<lambda>ch. ch \<noteq> 0) (extract_file_name fn)"

definition make_entry :: "FAT12_DirectoryEntry \<Rightarrow> fs_entry" where
  "make_entry e =
     (if Attribute e AND ATTR_DIRECTORY \<noteq> 0
      then FAT12Directory (entry_name (Name e)) (FileSystemClusterLogical e)
      else FAT12File (entry_name (Name e)) (FileSize e) (FileSystemClusterLogical e))"

definition cached_entry :: "u8 list \<Rightarrow> u32 \<Rightarrow> FAT12_DirectoryEntry" where
  "cached_entry sector_cache entry_index = directory_entry (bytes_between sector_cache (32 * unat entry_index) 32)"

text \<open>
  The sector that holds the entry is read unless it is the cached one. The result of the read is
  ignored.
\<close>

definition load_sector ::
    "'d IBlockDevice \<Rightarrow> u16 list \<Rightarrow> u32 option \<Rightarrow> u32 \<Rightarrow> u8 list \<Rightarrow> 'd \<Rightarrow> (u8 list \<times> 'd) outcome" where
  "load_sector dev sectors cached sector_index cache d =
     (if cached \<noteq> Some sector_index then
        outcome_bind (bd_read dev (ucast (sectors ! unat sector_index)) 1 cache d)
          (\<lambda>(ok, cache', d'). Done (cache', d'))
      else Done (cache, d))"

function enum_next_loop ::
    "'d IBlockDevice \<Rightarrow> u16 list \<Rightarrow> u32 \<Rightarrow> u32 option \<Rightarrow> u8 list \<Rightarrow> u32 \<Rightarrow> 'd \<Rightarrow> (fs_entry option \<times> u32 \<times> 'd) outcome" where
  "enum_next_loop dev sectors entry_count cached cache index d =
     (if index < entry_count then
        outcome_bind (load_sector dev sectors cached (index div 16) cache d) (\<lambda>(cache', d').
          let entry = cached_entry cache' (index mod 16); c = Name entry ! 0 in
          if c = 0 then Done (None, entry_count, d')
          else if c = 0x0E \<or> c = 0xE5 then
            enum_next_loop dev sectors entry_count (Some (index div 16)) cache' (index + 1) d'
          else Done (Some (make_entry entry), index + 1, d'))
      else Done (None, index, d))"
  by auto
termination
  by (relation "measure (\<lambda>(dev, sectors, entry_count, cached, cache, index, d). unat entry_count - unat index)")
    (auto simp: unat_u32_Suc_below word_less_nat_alt [symmetric] intro: diff_less_mono2)

declare enum_next_loop.simps [simp del]

text \<open>\<open>junk\<close> is what the uninitialised local \<^verbatim>\<open>sector_cache\<close> holds.\<close>

definition enum_next :: "'d IBlockDevice \<Rightarrow> u8 list \<Rightarrow> dir_enum \<Rightarrow> 'd \<Rightarrow> (fs_entry option \<times> dir_enum \<times> 'd) outcome" where
  "enum_next dev junk e d =
     outcome_bind (enum_next_loop dev (de_sectors e) (get_entry_count e) None junk (de_index e) d)
       (\<lambda>(file, index, d'). Done (file, e\<lparr>de_index := index\<rparr>, d'))"

subsection \<open>The 12-bit packing\<close>

lemmas fat_codec_defs = fat_u_def fat_v_def fat_byte0_def fat_byte1_def fat_byte2_def

lemma fat_masks: "(0xFF :: u16) = mask 8" "(0xF00 :: u16) = push_bit 8 (mask 4)" "(0xF :: u16) = mask 4"
  "(0xFF0 :: u16) = push_bit 4 (mask 8)" "(0xFFF :: u16) = mask 12"
  by (simp_all add: mask_eq_exp_minus_1 push_bit_eq_mult)

lemmas fat_bits = fat_codec_defs fat_masks(1,2,3,4) bit_simps

lemma fat_byte0_u [simp]: "fat_byte0 (fat_u f0 f1) = f0"
  by (rule bit_eqI) (auto simp: fat_bits dest: bit_imp_le_length)

lemma fat_byte1_uv [simp]: "fat_byte1 (fat_u f0 f1) (fat_v f1 f2) = f1"
proof (rule bit_word_eqI)
  fix n assume "n < LENGTH(8)"
  then consider "n < 4" | "4 \<le> n" "n - 4 < 4" "n < 8" by fastforce
  then show "bit (fat_byte1 (fat_u f0 f1) (fat_v f1 f2)) n = bit f1 n"
    by cases (auto simp: fat_bits dest: bit_imp_le_length)
qed

lemma fat_byte2_v [simp]: "fat_byte2 (fat_v f1 f2) = f2"
  by (rule bit_word_eqI) (auto simp: fat_bits dest: bit_imp_le_length)

lemma fat_u_bytes: "fat_u (fat_byte0 u) (fat_byte1 u v) = u AND 0xFFF"
proof (rule bit_word_eqI)
  fix n assume "n < LENGTH(16)"
  then consider "n < 8" | "8 \<le> n" "n < 12" | "12 \<le> n" by fastforce
  then show "bit (fat_u (fat_byte0 u) (fat_byte1 u v)) n = bit (u AND 0xFFF) n"
    by cases (auto simp: fat_bits fat_masks(5) dest: bit_imp_le_length)
qed

lemma fat_v_bytes: "fat_v (fat_byte1 u v) (fat_byte2 v) = v AND 0xFFF"
proof (rule bit_word_eqI)
  fix n assume "n < LENGTH(16)"
  then consider "n < 4" | "4 \<le> n" "n < 12" | "12 \<le> n" by fastforce
  then show "bit (fat_v (fat_byte1 u v) (fat_byte2 v)) n = bit (v AND 0xFFF) n"
    by cases (auto simp: fat_bits fat_masks(5) dest: bit_imp_le_length)
qed

text \<open>The bytes the write loop produces, and what it returns for every vector and buffer.\<close>

fun fat_bytes :: "u16 list \<Rightarrow> u8 list" where
  "fat_bytes (u # v # f) = fat_byte0 u # fat_byte1 u v # fat_byte2 v # fat_bytes f"
| "fat_bytes f = []"

lemma length_fat_bytes: "length (fat_bytes f) = length f div 2 * 3"
  by (induction f rule: fat_bytes.induct) auto

lemma length_fat_read_loop: "length (fat_read_loop src) = length src div 3 * 2"
  by (induction src rule: fat_read_loop.induct) (simp_all add: div_add_self1 [of 3, simplified])

lemma fat_bytes_read: "length src mod 3 = 0 \<Longrightarrow> fat_bytes (fat_read_loop src) = src"
  by (induction src rule: fat_read_loop.induct) auto

lemma fat_read_bytes: "even (length f) \<Longrightarrow> fat_read_loop (fat_bytes f) = map (\<lambda>c. c AND 0xFFF) f"
  by (induction f rule: fat_bytes.induct) (auto simp: fat_u_bytes fat_v_bytes)

lemma list_update3_drop:
  "p + 2 < length buf \<Longrightarrow> p' = p + 3 \<Longrightarrow>
   take p' (buf[p := a, p + 1 := b, p + 2 := c]) = take p buf @ [a, b, c]"
  by (simp add: take_Suc_conv_app_nth numeral_3_eq_3 nth_list_update)

lemma fat_write_loop_eq:
  "p \<le> length buf \<Longrightarrow> fat_write_loop f p buf =
     (if odd (length f) \<or> length buf < p + length f div 2 * 3 then Fault OutOfBounds
      else Done (take p buf @ fat_bytes f @ drop (p + length f div 2 * 3) buf))"
proof (induction f p buf rule: fat_write_loop.induct)
  case (3 u v f p buf)
  show ?case
  proof (cases "p + 2 < length buf")
    case True
    then show ?thesis by (subst fat_write_loop.simps, subst "3.IH") (auto simp: list_update3_drop [simplified] ac_simps)
  qed auto
qed auto

text \<open>Writing a FAT of \<open>n\<close> entries needs \<open>n div 2 * 3\<close> bytes, but the space check only asks for
  \<open>n * 2 div 3\<close>: a buffer between the two is overrun. With enough space the packed bytes replace the
  start of the buffer. A vector of odd length is read past its end.\<close>

theorem fat_write_outcome:
  "fat_write f buf =
     (if length buf < length f * 2 div 3
      then Fault (Panic ''Not enough space for FAT: space = %d, fat size = %d'')
      else if even (length f) \<and> length f div 2 * 3 \<le> length buf
      then Done (fat_bytes f @ drop (length f div 2 * 3) buf) else Fault OutOfBounds)"
  unfolding fat_write_def by (auto simp: fat_write_loop_eq)

lemma fat_write_fits:
  "even (length f) \<Longrightarrow> length f div 2 * 3 = length buf \<Longrightarrow> fat_write f buf = Done (fat_bytes f)"
  unfolding fat_write_def by (simp add: fat_write_loop_eq)

lemma fat_read_Done: "fat_read src = Done f \<longleftrightarrow> length src mod 3 = 0 \<and> f = fat_read_loop src"
  by (auto simp: fat_read_def)

lemma fat_write_read_loop:
  assumes "length src mod 3 = 0" and "length buf = length src"
  shows "fat_write (fat_read_loop src) buf = Done src"
proof -
  have "length src div 3 * 3 = length src" using assms(1) by presburger
  then show ?thesis
    using assms by (subst fat_write_fits) (auto simp: length_fat_read_loop fat_bytes_read)
qed

text \<open>C35: A FAT that was read is written back byte for byte, which is the self test of the
  constructor; and an even number of 12-bit entries that is written reads back unchanged.\<close>

theorem fat_roundtrip:
  "(fat_read src = Done f \<longrightarrow> fat_write f (replicate (length src) 0) = Done src) \<and>
   (even (length g) \<and> (\<forall>c \<in> set g. c AND 0xFFF = c) \<longrightarrow>
     outcome_bind (fat_write g (replicate (length g div 2 * 3) 0)) fat_read = Done g)"
proof (intro conjI impI)
  assume "fat_read src = Done f"
  then show "fat_write f (replicate (length src) 0) = Done src"
    by (simp add: fat_read_Done fat_write_read_loop)
next
  assume g: "even (length g) \<and> (\<forall>c \<in> set g. c AND 0xFFF = c)"
  then have "map (\<lambda>c. c AND 0xFFF) g = g" by (intro map_idI) auto
  then show "outcome_bind (fat_write g (replicate (length g div 2 * 3) 0)) fat_read = Done g"
    using g by (simp add: fat_write_fits fat_read_def length_fat_bytes fat_read_bytes)
qed

theorem fat_roundtrip_witness:
  "fat_write [0xABC, 0x123] (replicate 3 0) = Done [0xBC, 0x3A, 0x12] \<and>
   outcome_bind (fat_write [0xABC, 0x123] (replicate 3 0)) fat_read = Done [0xABC, 0x123]"
proof
  have r: "fat_read [0xBC, 0x3A, 0x12] = Done [0xABC, 0x123]"
    by (simp add: fat_read_def fat_u_def fat_v_def) 
  show "fat_write [0xABC, 0x123] (replicate 3 0) = Done [0xBC, 0x3A, 0x12]"
    using fat_roundtrip [of "[0xBC, 0x3A, 0x12]" "[0xABC, 0x123]" "[]"] r by (simp add: numeral_3_eq_3)
  show "outcome_bind (fat_write [0xABC, 0x123] (replicate 3 0)) fat_read = Done [0xABC, 0x123]"
    using fat_roundtrip [of "[]" "[]" "[0xABC, 0x123]"] by simp
qed

subsection \<open>Mounting\<close>

lemma sectors_mod_3: "512 * unat (n :: u16) mod 3 = 0 \<longleftrightarrow> n mod 3 = 0"
proof -
  have "512 * unat n mod 3 = 2 * unat n mod 3" using mod_mult_left_eq [of 512 3 "unat n"] by simp
  moreover have "2 * unat n mod 3 = 0 \<longleftrightarrow> unat n mod 3 = 0" by presburger
  moreover have "unat n mod 3 = unat (n mod 3)" by (simp add: unat_mod)
  ultimately show ?thesis by (simp only: unat_eq_zero)
qed

context block_device
begin

lemma mount_ok:
  assumes "I d" and "BytesPerSector b = 512"
    and "unat (ReservedSectorCount b) + unat (FATSize b) \<le> n"
  shows "(FATSize b mod 3 = 0 \<longrightarrow> (\<exists>d'. FAT12FileSystem dev b d = Done
       (\<lparr>bootSector = b, firstDataSector = root_sector b + ucast (RootEntityCount b) * 32 div 512,
         fs_fat = fat_read_loop (image_range img (ucast (ReservedSectorCount b)) (unat (FATSize b)))\<rparr>, d') \<and> I d')) \<and>
     (FATSize b mod 3 \<noteq> 0 \<longrightarrow>
       FAT12FileSystem dev b d = Fault (Panic ''Unexpected length of FAT: length = %d''))"
proof -
  let ?n = "unat (FATSize b)"
  let ?bytes = "image_range img (ucast (ReservedSectorCount b)) ?n"
  have u: "unat (ucast (FATSize b) :: u32) = ?n"
    by (rule unat_ucast_u16)
  have len: "length ?bytes = 512 * ?n"
    by (rule length_image_range) (rule sector_length)
  obtain d' where rd: "bd_read dev (ucast (ReservedSectorCount b)) (ucast (FATSize b))
      (replicate (512 * ?n) 0) d = Done (True, ?bytes, d')" and I: "I d'"
    using read_range [OF assms(1), of "replicate (512 * ?n) 0" "ucast (FATSize b)"
        "ucast (ReservedSectorCount b)"] assms(3) unfolding u unat_ucast_u16 length_replicate by blast
  have m: "512 * ?n mod 3 = 0 \<longleftrightarrow> FATSize b mod 3 = 0"
    by (rule sectors_mod_3)
  have n: "num_root_directory_sectors b = Done (ucast (RootEntityCount b) * 32 div 512)"
    using assms(2) by (simp add: num_root_directory_sectors_def)
  have "FAT12FileSystem dev b d = outcome_bind (fat_read ?bytes) (\<lambda>f.
      outcome_bind (fat_write f (replicate (512 * ?n) 0)) (\<lambda>test. Done
       (\<lparr>bootSector = b, firstDataSector = root_sector b + ucast (RootEntityCount b) * 32 div 512, fs_fat = f\<rparr>, d')))"
    using rd unfolding FAT12FileSystem_def n by (simp add: assms(2) len)
  then show ?thesis
    using m I by (cases "FATSize b mod 3 = 0") (auto simp: fat_read_def len fat_write_read_loop)
qed

end

text \<open>On a disk of 512-byte sectors the constructor returns exactly when the FAT length is a
  multiple of three bytes, with the sector numbers of the on-disk layout and the FAT of the disk;
  otherwise it panics. Its own write test never fails.\<close>

theorem mount_reads_fat:
  assumes "serves_image dev n img I" and "I d" and "BytesPerSector b = 512"
    and "unat (ReservedSectorCount b) + unat (FATSize b) \<le> n"
  shows "(FATSize b mod 3 = 0 \<longrightarrow> (\<exists>d'. FAT12FileSystem dev b d = Done
       (\<lparr>bootSector = b, firstDataSector = root_sector b + ucast (RootEntityCount b) * 32 div 512,
         fs_fat = fat_read_loop (image_range img (ucast (ReservedSectorCount b)) (unat (FATSize b)))\<rparr>, d') \<and> I d')) \<and>
     (FATSize b mod 3 \<noteq> 0 \<longrightarrow>
       FAT12FileSystem dev b d = Fault (Panic ''Unexpected length of FAT: length = %d''))"
  by (rule block_device.mount_ok [OF block_device.intro, OF assms])

subsection \<open>Cluster chains\<close>

text \<open>
  The chain the loop follows: each cluster contributes its sectors and names the next cluster, until
  an entry 0xFF0 or 0xFFF.
\<close>

inductive cluster_chain :: "fat12_fs \<Rightarrow> u16 \<Rightarrow> u16 list \<Rightarrow> bool" for fs where
  chain_end: "add_cluster fs c [] = Done (v, c') \<Longrightarrow> c' = 0xFF0 \<or> c' = 0xFFF \<Longrightarrow> cluster_chain fs c [c]"
| chain_step: "add_cluster fs c [] = Done (v, c') \<Longrightarrow> c' \<noteq> 0xFF0 \<Longrightarrow> c' \<noteq> 0xFFF \<Longrightarrow>
     cluster_chain fs c' cs \<Longrightarrow> cluster_chain fs c (c # cs)"

inductive_cases cluster_chainE: "cluster_chain fs c cs"

definition cluster_sectors :: "fat12_fs \<Rightarrow> u16 \<Rightarrow> u16 list" where
  "cluster_sectors fs c =
     (case add_cluster fs c [] of Done (v, c') \<Rightarrow> v | _ \<Rightarrow> [])"

lemma push_sectors_append: "push_sectors n s (v @ w) = v @ push_sectors n s w"
  by (induction n s w rule: push_sectors.induct) auto

lemma push_sectors_acc: "push_sectors n s v = v @ push_sectors n s []"
  using push_sectors_append [of n s v "[]"] by simp

lemma length_push_sectors: "length (push_sectors n s v) = length v + n"
  by (induction n s v rule: push_sectors.induct) auto

lemma add_cluster_acc:
  "add_cluster fs c v = outcome_bind (add_cluster fs c []) (\<lambda>(w, c'). Done (v @ w, c'))"
  unfolding add_cluster_def
  by (cases "sector_from_cluster fs c"; cases "next_cluster fs c") (auto intro: push_sectors_acc)

lemma cluster_sectors_Done: "add_cluster fs c [] = Done (v, c') \<Longrightarrow> cluster_sectors fs c = v"
  by (simp add: cluster_sectors_def)

lemma collect_clusters_chain:
  "cluster_chain fs c cs \<Longrightarrow>
     collect_clusters fs c v = Some (Done (v @ concat (map (cluster_sectors fs) cs)))"
proof (induction arbitrary: v rule: cluster_chain.induct)
  case (chain_end c w c')
  then show ?case
    by (subst collect_clusters.simps, subst add_cluster_acc) (auto simp: cluster_sectors_Done)
next
  case (chain_step c w c' cs)
  then show ?case
    by (subst collect_clusters.simps, subst add_cluster_acc) (simp add: cluster_sectors_Done)
qed

text \<open>The successor relation of the FAT, and chains that never end.\<close>

definition fat_step :: "fat12_fs \<Rightarrow> u16 \<Rightarrow> u16 option" where
  "fat_step fs c =
     (case add_cluster fs c [] of
        Done (v, c') \<Rightarrow> if c' \<noteq> 0xFF0 \<and> c' \<noteq> 0xFFF then Some c' else None
      | _ \<Rightarrow> None)"

fun fat_steps :: "fat12_fs \<Rightarrow> nat \<Rightarrow> u16 \<Rightarrow> u16 option" where
  "fat_steps fs 0 c = Some c"
| "fat_steps fs (Suc n) c = Option.bind (fat_step fs c) (fat_steps fs n)"

lemma collect_clusters_unroll:
  "collect_clusters fs c v =
     (case fat_step fs c of
        Some c' \<Rightarrow> collect_clusters fs c' (v @ cluster_sectors fs c)
      | None \<Rightarrow> Some (outcome_bind (add_cluster fs c []) (\<lambda>(w, c'). Done (v @ w))))"
  by (subst collect_clusters.simps, subst add_cluster_acc)
    (auto simp: fat_step_def cluster_sectors_def split: outcome.splits)

lemma add_cluster_not_Diverges: "add_cluster fs c v \<noteq> Diverges"
  by (auto simp: add_cluster_def sector_from_cluster_def next_cluster_def fat_next_cluster_def)

lemma collect_clusters_ends:
  "fat_steps fs n c = None \<Longrightarrow> \<exists>r. collect_clusters fs c v = Some r \<and> r \<noteq> Diverges"
proof (induction n arbitrary: c v)
  case (Suc n)
  show ?case
  proof (cases "fat_step fs c")
    case None
    then show ?thesis
      using add_cluster_not_Diverges [of fs c "[]"]
      by (subst collect_clusters_unroll) (cases "add_cluster fs c []"; auto)
  next
    case (Some c')
    then show ?thesis using Suc by (subst collect_clusters_unroll) simp
  qed
qed simp

lemma collect_clusters_Some:
  assumes "collect_clusters fs c v = Some r"
  shows "\<exists>n. fat_steps fs n c = None"
proof -
  let ?P = "\<lambda>fs c v r. \<exists>n. fat_steps fs n c = None"
  show ?thesis
  proof (rule collect_clusters.raw_induct [where P = ?P, OF _ assms], goal_cases)
    case (1 rec fs c v r)
    show ?case
    proof (cases "fat_step fs c")
      case None
      then have "fat_steps fs (Suc 0) c = None" by simp
      then show ?thesis ..
    next
      case (Some c')
      then obtain w where "add_cluster fs c [] = Done (w, c')" "c' \<noteq> 0xFF0 \<and> c' \<noteq> 0xFFF"
        by (auto simp: fat_step_def split: outcome.splits if_splits)
      then have "add_cluster fs c v = Done (v @ w, c')" by (subst add_cluster_acc) simp
      then have "rec fs c' (v @ w) = Some r" using 1(2) \<open>c' \<noteq> 0xFF0 \<and> c' \<noteq> 0xFFF\<close> by simp
      then obtain n where "fat_steps fs n c' = None" using 1(1) by blast
      then have "fat_steps fs (Suc n) c = None" using Some by simp
      then show ?thesis ..
    qed
  qed
qed

lemma cluster_chain_step:
  "fat_step fs c = Some c' \<Longrightarrow> cluster_chain fs c' cs \<Longrightarrow> cluster_chain fs c (c # cs)"
  by (auto simp: fat_step_def split: outcome.splits if_splits intro: cluster_chain.chain_step)

lemma cluster_chain_end:
  "fat_step fs c = None \<Longrightarrow> add_cluster fs c [] = Done (v, c') \<Longrightarrow> cluster_chain fs c [c]"
  by (auto simp: fat_step_def split: if_splits intro: cluster_chain.chain_end)

lemma collect_clusters_Done:
  assumes "collect_clusters fs c v = Some (Done w)"
  shows "\<exists>cs. cluster_chain fs c cs"
proof -
  obtain n where "fat_steps fs n c = None" using collect_clusters_Some [OF assms] ..
  then show ?thesis using assms
  proof (induction n arbitrary: c v)
    case (Suc n)
    show ?case
    proof (cases "fat_step fs c")
      case None
      then show ?thesis
        using Suc.prems(2) by (subst (asm) collect_clusters_unroll) (auto intro: cluster_chain_end)
    next
      case (Some c')
      then have "\<exists>cs. cluster_chain fs c' cs"
        using Suc by (subst (asm) collect_clusters_unroll) auto
      then show ?thesis using Some by (blast intro: cluster_chain_step)
    qed
  qed simp
qed

text \<open>Opening a directory succeeds exactly when the loop comes to an end marker.\<close>

lemma directory_enum_chain:
  "FAT12DirectoryEnum fs c = Done e \<longleftrightarrow>
     (\<exists>cs. cluster_chain fs c cs \<and> e = \<lparr>de_sectors = concat (map (cluster_sectors fs) cs), de_index = 0\<rparr>)"
proof
  assume "FAT12DirectoryEnum fs c = Done e"
  then obtain v where v: "collect_clusters fs c [] = Some (Done v)" "e = \<lparr>de_sectors = v, de_index = 0\<rparr>"
    by (cases "collect_clusters fs c []") (auto simp: FAT12DirectoryEnum_def)
  then obtain cs where "cluster_chain fs c cs" using collect_clusters_Done by blast
  then show "\<exists>cs. cluster_chain fs c cs \<and> e = \<lparr>de_sectors = concat (map (cluster_sectors fs) cs), de_index = 0\<rparr>"
    using v collect_clusters_chain [of fs c cs "[]"] by auto
next
  assume "\<exists>cs. cluster_chain fs c cs \<and> e = \<lparr>de_sectors = concat (map (cluster_sectors fs) cs), de_index = 0\<rparr>"
  then show "FAT12DirectoryEnum fs c = Done e"
    using collect_clusters_chain [of fs c _ "[]"] by (auto simp: FAT12DirectoryEnum_def)
qed

text \<open>Opening a directory never returns exactly when its cluster chain has no end, which a FAT
  with a circular chain makes possible.\<close>

theorem directory_enum_hangs_iff:
  "FAT12DirectoryEnum fs c = Diverges \<longleftrightarrow> (\<forall>n. \<exists>c'. fat_steps fs n c = Some c')"
proof
  assume d: "FAT12DirectoryEnum fs c = Diverges"
  show "\<forall>n. \<exists>c'. fat_steps fs n c = Some c'"
  proof (rule ccontr)
    assume "\<not> (\<forall>n. \<exists>c'. fat_steps fs n c = Some c')"
    then obtain n where "fat_steps fs n c = None" by auto
    then obtain r where "collect_clusters fs c [] = Some r" "r \<noteq> Diverges"
      using collect_clusters_ends by blast
    then show False using d by (cases r) (auto simp: FAT12DirectoryEnum_def)
  qed
next
  assume "\<forall>n. \<exists>c'. fat_steps fs n c = Some c'"
  then have "\<nexists>r. collect_clusters fs c [] = Some r" by (metis collect_clusters_Some option.distinct(1))
  then have "collect_clusters fs c [] = None" by simp
  then show "FAT12DirectoryEnum fs c = Diverges" by (simp add: FAT12DirectoryEnum_def)
qed

definition sample_boot_sector :: FAT12_BootSector where
  "sample_boot_sector = \<lparr>
     JmpBootLow = 0x3CEB, JmpBootHigh = 0x90, OSName = [], BytesPerSector = 512, SectorsPerCluster = 1,
     ReservedSectorCount = 1, NumFATs = 2, RootEntityCount = 224, TotalSectorCount = 2880,
     MediaType = 0xF0, FATSize = 9, SectorsPerTrack = 18, NumHeads = 2, HiddenSectors = 0,
     TotalSectors32 = 0, DriveNumber = 0, VolumeID = 0, FileSystemType = []\<rparr>"

lemma zero_image_served: "serves_image (image_device zero_image) n zero_image (\<lambda>_. True)"
  by (rule image_device_serves) (simp add: zero_image_def)

theorem mount_reads_fat_witness:
  "\<exists>fs. FAT12FileSystem (image_device zero_image) sample_boot_sector () = Done (fs, ()) \<and> firstDataSector fs = 33"
  using mount_reads_fat [OF zero_image_served [of 2880], of sample_boot_sector "()"]
  by (auto simp: sample_boot_sector_def root_sector_def)

subsection \<open>Enumerating a directory\<close>

text \<open>
  What a directory enumerator stands for: the entries still to come. Of all entries of its sectors
  from the index on, those before the first with a leading NUL, without the deleted ones.
\<close>

definition all_entries :: "image \<Rightarrow> u16 list \<Rightarrow> FAT12_DirectoryEntry list" where
  "all_entries img sectors =
     concat (map (\<lambda>s. map (\<lambda>i. cached_entry (img (ucast s)) (word_of_nat i)) [0..<16]) sectors)"

definition deleted :: "FAT12_DirectoryEntry \<Rightarrow> bool" where
  "deleted e \<longleftrightarrow> Name e ! 0 = 0x0E \<or> Name e ! 0 = 0xE5"

definition visible :: "FAT12_DirectoryEntry list \<Rightarrow> fs_entry list" where
  "visible es = map make_entry (filter (\<lambda>e. \<not> deleted e) (takeWhile (\<lambda>e. Name e ! 0 \<noteq> 0) es))"

definition remaining :: "image \<Rightarrow> dir_enum \<Rightarrow> fs_entry list" where
  "remaining img e = visible (drop (unat (de_index e)) (all_entries img (de_sectors e)))"

definition enum_ok :: "nat \<Rightarrow> dir_enum \<Rightarrow> bool" where
  "enum_ok n e \<longleftrightarrow> length (de_sectors e) < 2 ^ 28 \<and> (\<forall>s \<in> set (de_sectors e). unat s < n)"

lemma visible_simps [simp]:
  "visible [] = []"
  "visible (e # es) =
     (if Name e ! 0 = 0 then [] else if deleted e then visible es else make_entry e # visible es)"
  by (simp_all add: visible_def)

lemma length_all_entries [simp]: "length (all_entries img sectors) = 16 * length sectors"
  by (simp add: all_entries_def length_concat comp_def sum_list_triv)

lemma nth_all_entries:
  "k < 16 * length sectors \<Longrightarrow> all_entries img sectors ! k =
     cached_entry (img (ucast (sectors ! (k div 16)))) (word_of_nat (k mod 16))"
proof (induction sectors arbitrary: k)
  case (Cons s sectors)
  have c: "all_entries img (s # sectors) =
      map (\<lambda>i. cached_entry (img (ucast s)) (word_of_nat i)) [0..<16] @ all_entries img sectors"
    by (simp add: all_entries_def)
  show ?case
  proof (cases "k < 16")
    case True
    then show ?thesis unfolding c by (subst nth_append) simp
  next
    case False
    then obtain j where j: "k = j + 16" by (metis add.commute le_add_diff_inverse not_less)
    have "(j + 16) div 16 = Suc (j div 16)" by simp
    then show ?thesis using Cons j unfolding c by (subst nth_append) simp
  qed
qed simp

lemma unat_entry_count:
  assumes "length sectors < 2 ^ 28"
  shows "unat (word_of_nat (length sectors) * 16 :: u32) = 16 * length sectors"
proof -
  have "unat (word_of_nat (length sectors) :: u32) = length sectors"
    using assms by (intro unat_u32_of_nat) simp
  then show ?thesis using assms by (subst unat_u32_mult) simp_all
qed

lemma unat_div16: "unat (i div 16 :: u32) = unat i div 16"
  by (simp add: unat_div)

lemma unat_mod16: "(word_of_nat (unat i mod 16) :: u32) = i mod 16"
proof -
  have "unat (i mod 16) = unat i mod 16" by (simp add: unat_mod)
  then show ?thesis by (simp flip: \<open>unat (i mod 16) = unat i mod 16\<close>)
qed

context block_device
begin

lemma enum_next_loop_remaining:
  assumes small: "length sectors < 2 ^ 28"
    and range: "\<forall>s \<in> set sectors. unat s < n"
    and count: "entry_count = word_of_nat (length sectors) * 16"
    and "I d" and "length cache = 512" and "\<And>si. cached = Some si \<Longrightarrow> cache = img (ucast (sectors ! unat si))"
  shows "\<exists>r idx' d'. enum_next_loop dev sectors entry_count cached cache index d = Done (r, idx', d') \<and> I d' \<and>
     (case visible (drop (unat index) (all_entries img sectors)) of
        [] \<Rightarrow> r = None \<and> visible (drop (unat idx') (all_entries img sectors)) = []
      | x # xs \<Rightarrow> r = Some x \<and> visible (drop (unat idx') (all_entries img sectors)) = xs)"
  using assms(4,5,6)
proof (induction "unat entry_count - unat index" arbitrary: cached cache index d rule: less_induct)
  case less
  let ?es = "all_entries img sectors"
  have ec: "unat entry_count = 16 * length sectors" using small by (simp add: count unat_entry_count)
  show ?case
  proof (cases "index < entry_count")
    case False
    then have "drop (unat index) ?es = []" using ec by (simp add: word_less_nat_alt)
    then show ?thesis using False less.prems(1) by (subst enum_next_loop.simps) simp
  next
    case True
    then have lt: "unat index < 16 * length sectors" using ec by (simp add: word_less_nat_alt)
    let ?s = "img (ucast (sectors ! unat (index div 16)))"
    let ?e = "cached_entry ?s (index mod 16)"
    have in_range: "unat (ucast (sectors ! unat (index div 16)) :: u32) < n"
    proof -
      have "sectors ! unat (index div 16) \<in> set sectors" using lt by (simp add: unat_div16)
      then show ?thesis using range by (simp only: unat_ucast_u16)
    qed
    obtain d1 where load: "load_sector dev sectors cached (index div 16) cache d = Done (?s, d1)" and I: "I d1"
    proof (cases "cached = Some (index div 16)")
      case True
      then show ?thesis using less.prems(1,3) that by (simp add: load_sector_def)
    next
      case False
      show ?thesis
        by (rule read_one [OF less.prems(1,2) in_range])
          (rule that, simp_all add: load_sector_def False)
    qed
    have nth: "?es ! unat index = ?e"
      using lt by (simp add: nth_all_entries unat_div16 unat_mod16)
    have dr: "drop (unat index) ?es = ?e # drop (unat (index + 1)) ?es"
      using lt True by (simp add: Cons_nth_drop_Suc [symmetric] nth unat_u32_Suc_below)
    note step = enum_next_loop.simps [of dev sectors entry_count cached cache index d, unfolded load]
    consider "Name ?e ! 0 = 0" | "Name ?e ! 0 \<noteq> 0" "deleted ?e" | "Name ?e ! 0 \<noteq> 0" "\<not> deleted ?e" by blast
    then show ?thesis
    proof cases
      case 1
      then show ?thesis using True ec I by (simp add: step dr)
    next
      case 2
      have "\<exists>r idx' d'. enum_next_loop dev sectors entry_count (Some (index div 16)) ?s (index + 1) d1 = Done (r, idx', d') \<and> I d' \<and>
         (case visible (drop (unat (index + 1)) ?es) of
            [] \<Rightarrow> r = None \<and> visible (drop (unat idx') ?es) = []
          | x # xs \<Rightarrow> r = Some x \<and> visible (drop (unat idx') ?es) = xs)"
      proof (rule less.hyps)
        show "unat entry_count - unat (index + 1) < unat entry_count - unat index"
          using True by (simp add: unat_u32_Suc_below word_less_nat_alt)
      qed (use sector_length I in auto)
      then show ?thesis using 2 True by (simp add: step dr deleted_def)
    next
      case 3
      then show ?thesis using True I by (simp add: step dr deleted_def)
    qed
  qed
qed

lemma enum_next_remaining:
  assumes "I d" and "length junk = 512" and "enum_ok n e"
  shows "\<exists>r e' d'. enum_next dev junk e d = Done (r, e', d') \<and> I d' \<and> de_sectors e' = de_sectors e \<and>
     (r, remaining img e') = (case remaining img e of [] \<Rightarrow> (None, []) | x # xs \<Rightarrow> (Some x, xs))"
proof -
  obtain r idx' d' where n: "enum_next_loop dev (de_sectors e) (get_entry_count e) None junk (de_index e) d = Done (r, idx', d')" "I d'"
    and v: "case visible (drop (unat (de_index e)) (all_entries img (de_sectors e))) of
        [] \<Rightarrow> r = None \<and> visible (drop (unat idx') (all_entries img (de_sectors e))) = []
      | x # xs \<Rightarrow> r = Some x \<and> visible (drop (unat idx') (all_entries img (de_sectors e))) = xs"
    using enum_next_loop_remaining [OF _ _ get_entry_count_def assms(1,2), of e None "de_index e"]
      assms(3) unfolding enum_ok_def by blast
  then show ?thesis
    by (auto simp: enum_next_def remaining_def split: list.splits)
qed

end

text \<open>C13: \<^verbatim>\<open>next\<close> on a directory of the disk returns true with the first of the entries still to come
  and leaves the rest of them, or returns false when none is left. It always returns.\<close>

theorem enum_next_refines:
  assumes "serves_image dev n img I" and "I d" and "length junk = 512" and "enum_ok n e"
  shows "\<exists>r e' d'. enum_next dev junk e d = Done (r, e', d') \<and> I d' \<and> de_sectors e' = de_sectors e \<and>
     (r, remaining img e') = (case remaining img e of [] \<Rightarrow> (None, []) | x # xs \<Rightarrow> (Some x, xs))"
  by (rule block_device.enum_next_remaining [OF block_device.intro, OF assms])

text \<open>A directory sector with a subdirectory, a deleted file and a file.\<close>

definition sample_entry :: "u8 \<Rightarrow> u8 \<Rightarrow> u16 \<Rightarrow> u8 list" where
  "sample_entry ch attr cluster =
     [ch, 0x42, 0x20, 0x20, 0x20, 0x20, 0x20, 0x20, 0x43, 0x20, 0x20, attr] @ replicate 14 0 @
     [ucast cluster, ucast (drop_bit 8 cluster), 0x10, 0, 0, 0]"

definition sample_entries :: "u8 list list" where
  "sample_entries = [sample_entry 0x41 0x10 5, sample_entry 0xE5 0 7, sample_entry 0x44 0 3, replicate 32 0]"

definition sample_directory :: "u8 list" where
  "sample_directory = concat sample_entries @ replicate 384 0"

definition directory_image :: image where
  "directory_image = (\<lambda>s. if s = 19 then sample_directory else replicate 512 0)"

lemma directory_image_served: "serves_image (image_device directory_image) n directory_image (\<lambda>_. True)"
  by (rule image_device_serves) (simp add: directory_image_def sample_directory_def sample_entries_def sample_entry_def)

lemma bytes_between_concat:
  "(\<And>e. e \<in> set es \<Longrightarrow> length e = 32) \<Longrightarrow> k < length es \<Longrightarrow>
     bytes_between (concat es @ z) (32 * k) 32 = es ! k"
proof (induction es arbitrary: k)
  case (Cons e es)
  then show ?case by (cases k) (auto simp: bytes_between_def)
qed simp

lemma cached_sample: "k < 4 \<Longrightarrow>
  cached_entry sample_directory (word_of_nat k) = directory_entry (sample_entries ! k)"
proof -
  assume "k < 4"
  then have "unat (word_of_nat k :: u32) = k" by (intro unat_u32_of_nat) simp
  moreover have "bytes_between (concat sample_entries @ replicate 384 0) (32 * k) 32 = sample_entries ! k"
    using \<open>k < 4\<close> by (intro bytes_between_concat) (auto simp: sample_entries_def sample_entry_def)
  ultimately show ?thesis by (simp add: cached_entry_def sample_directory_def)
qed

lemmas sample_entry_simps = sample_entries_def sample_entry_def directory_entry_def
  bytes_between_def le16_def le32_def nth_append make_entry_def deleted_def ATTR_DIRECTORY_def
  entry_name_def extract_file_name_def extract_fn_part_def

lemma sample_entry_facts:
  "Name (cached_entry sample_directory 0) ! 0 = 0x41" "\<not> deleted (cached_entry sample_directory 0)"
  "make_entry (cached_entry sample_directory 0) = FAT12Directory [0x41, 0x42, 0x2E, 0x43] 5"
  "Name (cached_entry sample_directory 1) ! 0 = 0xE5" "deleted (cached_entry sample_directory 1)"
  "Name (cached_entry sample_directory 2) ! 0 = 0x44" "\<not> deleted (cached_entry sample_directory 2)"
  "make_entry (cached_entry sample_directory 2) = FAT12File [0x44, 0x42, 0x2E, 0x43] 16 3"
  "Name (cached_entry sample_directory 3) ! 0 = 0"
  using cached_sample [of 0] cached_sample [of 1] cached_sample [of 2] cached_sample [of 3]
  by (simp_all add: sample_entry_simps)

lemma sample_visible:
  "visible (all_entries directory_image [19]) =
     [FAT12Directory [0x41, 0x42, 0x2E, 0x43] 5, FAT12File [0x44, 0x42, 0x2E, 0x43] 16 3]"
proof -
  have "[0..<16] = [0, 1, 2, 3] @ [4..<16]" by (simp add: upt_rec)
  then show ?thesis
    by (simp add: all_entries_def directory_image_def sample_entry_facts)
qed

theorem enum_next_refines_witness:
  "\<exists>e'. enum_next (image_device directory_image) (replicate 512 0) \<lparr>de_sectors = [19], de_index = 0\<rparr> () =
       Done (Some (FAT12Directory [0x41, 0x42, 0x2E, 0x43] 5), e', ()) \<and>
     remaining directory_image e' = [FAT12File [0x44, 0x42, 0x2E, 0x43] 16 3]"
  using enum_next_refines [OF directory_image_served [of 2880], of "replicate 512 0" "\<lparr>de_sectors = [19], de_index = 0\<rparr>" "()"]
  by (auto simp: enum_ok_def remaining_def sample_visible)

text \<open>C38: The name of an entry made from the 11 bytes of a directory entry is a C string that fits the
  13-byte buffer with its NUL, and has neither blanks nor NULs in it.\<close>

theorem entry_name_fits:
  assumes "length (Name e) = 11"
  shows "length (extract_file_name (Name e)) \<le> 12 \<and> length (fs_entry_name (make_entry e)) \<le> 12 \<and>
     0 \<notin> set (fs_entry_name (make_entry e)) \<and> 0x20 \<notin> set (fs_entry_name (make_entry e))"
proof -
  let ?n = "extract_fn_part (take 8 (Name e)) @ [0x2E] @ extract_fn_part (take 3 (drop 8 (Name e)))"
  have "length (extract_fn_part (take 8 (Name e))) \<le> 8" "length (extract_fn_part (take 3 (drop 8 (Name e)))) \<le> 3"
    unfolding extract_fn_part_def by (rule order.trans [OF length_filter_le], simp)+
  then have len: "length ?n \<le> 12" by simp
  have "length (extract_file_name (Name e)) = length ?n" by (simp add: extract_file_name_def Let_def)
  then have l: "length (extract_file_name (Name e)) \<le> 12" using len by simp
  have "0x20 \<notin> set ?n" by (simp add: extract_fn_part_def)
  then have "0x20 \<notin> set (extract_file_name (Name e))"
    by (auto simp: extract_file_name_def Let_def dest: in_set_butlastD)
  then have "0x20 \<notin> set (entry_name (Name e))" by (auto simp: entry_name_def dest: set_takeWhileD)
  moreover have "0 \<notin> set (entry_name (Name e))" by (auto simp: entry_name_def dest: set_takeWhileD)
  moreover have "length (entry_name (Name e)) \<le> 12"
    using l order.trans [OF length_takeWhile_le] by (auto simp: entry_name_def)
  moreover have "fs_entry_name (make_entry e) = entry_name (Name e)" by (simp add: make_entry_def)
  ultimately show ?thesis using l by simp
qed

theorem entry_name_fits_witness:
  "length (fs_entry_name (make_entry (directory_entry (sample_entry 0x41 0x10 5)))) \<le> 12"
proof -
  have "length (Name (directory_entry (sample_entry 0x41 0x10 5))) = 11"
    by (simp add: directory_entry_def bytes_between_def sample_entry_def)
  then show ?thesis using entry_name_fits by blast
qed

text \<open>The file system type is compared by \<^verbatim>\<open>strncmp\<close>, which looks at the first byte only: every
  boot sector whose type starts with F is mounted as FAT12.\<close>

theorem tryCreate_checks_first_byte:
  assumes "m literal = 0x46"
  shows "tryCreate dev m p literal d =
     (if p \<noteq> 0 \<and> m (p + 54) = 0x46
      then outcome_bind (FAT12FileSystem dev (boot_sector (map (\<lambda>i. m (p + word_of_nat i)) [0..<512])) d)
             (\<lambda>(fs, d'). Done (Some fs, d'))
      else Done (None, d))"
proof -
  have "strncmp m (p + 54) literal 5 = 0 \<longleftrightarrow> m (p + 54) = 0x46"
    using assms by (auto simp: strncmp_def strncmp_loop_zero)
  then show ?thesis by (simp add: tryCreate_def)
qed

theorem tryCreate_checks_first_byte_witness:
  "tryCreate (image_device zero_image) (\<lambda>a. if a = 0x100 then 0x46 else 0) 0x1000 0x100 () = Done (None, ())"
  by (subst tryCreate_checks_first_byte) simp_all

text \<open>Only 0xFF0 and 0xFFF end a cluster chain. The other markers that standard FAT12 uses for the
  end of a chain (0xFF8 to 0xFFE) are taken as a cluster number; in a FAT too small to have that
  entry, as every floppy's is, opening a directory with such a marker panics.\<close>

theorem end_marker_panics:
  assumes "fat_step fs c = Some m" and "0xFF8 \<le> m" and "length (fs_fat fs) < unat m"
  shows "FAT12DirectoryEnum fs c = Fault (Panic ''Access outside bounds of FAT: cluster = %d'')"
proof -
  have "m \<noteq> 0" "m \<noteq> 1" using assms(2) by (auto simp: word_le_nat_alt)
  then have m: "add_cluster fs m [] = Fault (Panic ''Access outside bounds of FAT: cluster = %d'')"
    using assms(3) by (simp add: add_cluster_def sector_from_cluster_def next_cluster_def fat_next_cluster_def)
  then have "fat_step fs m = None" by (simp add: fat_step_def)
  then have "collect_clusters fs c [] = Some (Fault (Panic ''Access outside bounds of FAT: cluster = %d''))"
    using assms(1) m by (subst collect_clusters_unroll) (simp, subst collect_clusters_unroll, simp)
  then show ?thesis by (simp add: FAT12DirectoryEnum_def)
qed

definition marker_fs :: fat12_fs where
  "marker_fs = \<lparr>bootSector = sample_boot_sector, firstDataSector = 33, fs_fat = [0xFF0, 0xFFF, 0xFF8]\<rparr>"

theorem end_marker_panics_witness:
  "FAT12DirectoryEnum marker_fs 2 = Fault (Panic ''Access outside bounds of FAT: cluster = %d'')"
  by (rule end_marker_panics [of _ _ "0xFF8"])
    (simp_all add: marker_fs_def sample_boot_sector_def fat_step_def add_cluster_def
      sector_from_cluster_def next_cluster_def fat_next_cluster_def)

end
