(* ===== verification/Fat12_Format.thy ===== *)
theory Fat12_Format
  imports Block_Device
begin

text \<open>
  The FAT12 format as its specification describes it: a volume is a sequence of bytes, a number is some bytes of
  it, least significant first, and everything else is arithmetic on natural numbers. Nothing here is taken from the code
  under \<^verbatim>\<open>src/\<close>; \<open>Fat12_Volume\<close> relates the reader of \<open>Fat12\<close> to it.
\<close>

subsection \<open>Bytes and the boot sector\<close>

definition volume_byte :: "image \<Rightarrow> nat \<Rightarrow> nat" where
  "volume_byte img p = unat (img (word_of_nat (p div 512)) ! (p mod 512))"

definition volume_word :: "image \<Rightarrow> nat \<Rightarrow> nat" where
  "volume_word img p = volume_byte img p + 256 * volume_byte img (p + 1)"

definition volume_bytes :: "image \<Rightarrow> nat \<Rightarrow> nat \<Rightarrow> nat list" where
  "volume_bytes img p n = map (\<lambda>i. volume_byte img (p + i)) [0..<n]"

text \<open>The fields of the boot sector by their offsets, in the names of the specification.\<close>

definition bpb_byts_per_sec :: "image \<Rightarrow> nat" where "bpb_byts_per_sec img = volume_word img 11"
definition bpb_sec_per_clus :: "image \<Rightarrow> nat" where "bpb_sec_per_clus img = volume_byte img 13"
definition bpb_rsvd_sec_cnt :: "image \<Rightarrow> nat" where "bpb_rsvd_sec_cnt img = volume_word img 14"
definition bpb_num_fats :: "image \<Rightarrow> nat" where "bpb_num_fats img = volume_byte img 16"
definition bpb_root_ent_cnt :: "image \<Rightarrow> nat" where "bpb_root_ent_cnt img = volume_word img 17"
definition bpb_fat_sz :: "image \<Rightarrow> nat" where "bpb_fat_sz img = volume_word img 22"

lemmas bpb_defs = bpb_byts_per_sec_def bpb_sec_per_clus_def bpb_rsvd_sec_cnt_def bpb_num_fats_def
  bpb_root_ent_cnt_def bpb_fat_sz_def

text \<open>The regions of the volume, in sectors of 512 bytes: reserved, FATs, root directory, data.\<close>

definition root_dir_start :: "image \<Rightarrow> nat" where
  "root_dir_start img = bpb_rsvd_sec_cnt img + bpb_num_fats img * bpb_fat_sz img"

definition root_dir_sectors :: "image \<Rightarrow> nat" where
  "root_dir_sectors img = (bpb_root_ent_cnt img * 32 + 511) div 512"

definition data_start :: "image \<Rightarrow> nat" where
  "data_start img = root_dir_start img + root_dir_sectors img"

text \<open>The sectors of a cluster. The first cluster has number 2; number 0 in a directory entry is the root directory.\<close>

definition cluster_start :: "image \<Rightarrow> nat \<Rightarrow> nat" where
  "cluster_start img c = (if c = 0 then root_dir_start img else data_start img + (c - 2) * bpb_sec_per_clus img)"

definition cluster_region :: "image \<Rightarrow> nat \<Rightarrow> nat list" where
  "cluster_region img c = [cluster_start img c ..< cluster_start img c + bpb_sec_per_clus img]"

subsection \<open>The file allocation table\<close>

text \<open>Entry \<open>n\<close> has 12 bits: the low or the high ones of the word at byte \<open>n + n div 2\<close> of the first FAT.\<close>

definition fat_entry :: "image \<Rightarrow> nat \<Rightarrow> nat" where
  "fat_entry img n = (let w = volume_word img (512 * bpb_rsvd_sec_cnt img + n + n div 2) in
     if even n then w mod 4096 else w div 16)"

definition fat_entries :: "image \<Rightarrow> nat" where
  "fat_entries img = 512 * bpb_fat_sz img * 2 div 3"

text \<open>A chain of clusters, each naming the next one, up to an entry that is an end marker.\<close>

inductive fat_chain :: "image \<Rightarrow> nat set \<Rightarrow> nat \<Rightarrow> nat list \<Rightarrow> bool" for img ends where
  fat_chain_end: "c \<noteq> 1 \<Longrightarrow> c < fat_entries img \<Longrightarrow> fat_entry img c \<in> ends \<Longrightarrow> fat_chain img ends c [c]"
| fat_chain_next: "c \<noteq> 1 \<Longrightarrow> c < fat_entries img \<Longrightarrow> fat_entry img c \<notin> ends \<Longrightarrow>
     fat_chain img ends (fat_entry img c) cs \<Longrightarrow> fat_chain img ends c (c # cs)"

text \<open>The chain of a directory: clusters of the data region, each once, ended by the marker that formatters write.\<close>

definition directory_chain :: "image \<Rightarrow> nat \<Rightarrow> nat list \<Rightarrow> bool" where
  "directory_chain img c cs \<longleftrightarrow> fat_chain img {0xFFF} c cs \<and> distinct cs \<and> (\<forall>x\<in>set cs. 2 \<le> x \<and> x < 0xFF0)"

subsection \<open>Directories\<close>

text \<open>
  A directory is a sequence of entries of 32 bytes, in the sectors \<open>ss\<close>. An entry is known by the position of its
  first byte. A first byte of 0 ends the directory, 0xE5 marks a free entry.
\<close>

definition entry_positions :: "nat list \<Rightarrow> nat list" where
  "entry_positions ss = concat (map (\<lambda>s. map (\<lambda>i. 512 * s + 32 * i) [0..<16]) ss)"

definition used_entries :: "image \<Rightarrow> nat list \<Rightarrow> nat list" where
  "used_entries img ss = filter (\<lambda>p. volume_byte img p \<noteq> 0xE5) (takeWhile (\<lambda>p. volume_byte img p \<noteq> 0) (entry_positions ss))"

text \<open>Names: 8 and 3 bytes, padded with blanks, joined by a dot if there is an extension.\<close>

definition padded :: "nat list \<Rightarrow> nat list \<Rightarrow> bool" where
  "padded bs name \<longleftrightarrow> (\<exists>k. bs = name @ replicate k 0x20) \<and> 0x20 \<notin> set name \<and> 0 \<notin> set name"

definition entry_named :: "image \<Rightarrow> nat \<Rightarrow> u8 list \<Rightarrow> bool" where
  "entry_named img p name \<longleftrightarrow> (\<exists>b x. padded (volume_bytes img p 8) b \<and> padded (volume_bytes img (p + 8) 3) x \<and>
     0x2E \<notin> set x \<and> map unat name = (if x = [] then b else b @ [0x2E] @ x))"

definition entry_is_directory :: "image \<Rightarrow> nat \<Rightarrow> bool" where
  "entry_is_directory img p \<longleftrightarrow> odd (volume_byte img (p + 11) div 16)"

definition entry_cluster :: "image \<Rightarrow> nat \<Rightarrow> nat" where
  "entry_cluster img p = volume_word img (p + 26)"

text \<open>
  The tree below some entries of a directory. The entries named \<^verbatim>\<open>.\<close> and \<^verbatim>\<open>..\<close> are leaves, as are files and
  labels; any other directory has the tree of its own entries. Names that begin with 0x0E are excluded: control characters
  are not allowed in names, and the reader skips such an entry.
\<close>

datatype entry_tree = EntryTree "u8 list" "entry_tree list"

definition dot_entry :: "u8 list \<Rightarrow> bool" where
  "dot_entry name \<longleftrightarrow> name = [0x2E] \<or> name = [0x2E, 0x2E]"

inductive volume_trees :: "image \<Rightarrow> nat \<Rightarrow> nat list \<Rightarrow> entry_tree list \<Rightarrow> bool" for img n where
  volume_nil: "volume_trees img n [] []"
| volume_leaf: "entry_named img p name \<Longrightarrow> volume_byte img p \<noteq> 0x0E \<Longrightarrow>
     \<not> entry_is_directory img p \<or> dot_entry name \<Longrightarrow>
     volume_trees img n ps ts \<Longrightarrow> volume_trees img n (p # ps) (EntryTree name [] # ts)"
| volume_dir: "entry_named img p name \<Longrightarrow> volume_byte img p \<noteq> 0x0E \<Longrightarrow>
     entry_is_directory img p \<Longrightarrow> \<not> dot_entry name \<Longrightarrow>
     directory_chain img (entry_cluster img p) cs \<Longrightarrow> (\<forall>s\<in>set (concat (map (cluster_region img) cs)). s < n) \<Longrightarrow>
     volume_trees img n (used_entries img (concat (map (cluster_region img) cs))) us \<Longrightarrow>
     volume_trees img n ps ts \<Longrightarrow> volume_trees img n (p # ps) (EntryTree name us # ts)"

text \<open>
  A FAT12 volume of \<open>n\<close> sectors of 512 bytes whose tree is \<open>ts\<close>. The tag at byte 54 reads \<^verbatim>\<open>FAT12\<close>, and the sizes are
  those the reader can handle: a FAT of a multiple of three sectors, a root directory of whole sectors.
\<close>

definition fat12_volume :: "image \<Rightarrow> nat \<Rightarrow> entry_tree list \<Rightarrow> bool" where
  "fat12_volume img n ts \<longleftrightarrow>
     volume_bytes img 54 5 = [0x46, 0x41, 0x54, 0x31, 0x32] \<and>
     bpb_byts_per_sec img = 512 \<and> 3 dvd bpb_fat_sz img \<and> 16 dvd bpb_root_ent_cnt img \<and>
     bpb_rsvd_sec_cnt img + bpb_fat_sz img \<le> n \<and> data_start img \<le> n \<and>
     volume_trees img n (used_entries img [root_dir_start img ..< data_start img]) ts"

lemma padded_blanks: "padded bs name \<Longrightarrow> filter (\<lambda>b. b \<noteq> 0x20) bs = name"
  by (auto simp: padded_def filter_id_conv)

end
