(* ===== verification/Fat12_Volume.thy ===== *)
theory Fat12_Volume
  imports Fat12 Fat12_Format
begin

text \<open>
  The reader of \<open>Fat12\<close> against the format of \<open>Fat12_Format\<close>: the fields, the 12-bit entries and the sectors it computes
  with machine words are those of the specification.
\<close>

subsection \<open>Numbers of several bytes\<close>

lemma word16_bytes: "unat (ucast (a :: u8) OR push_bit 8 (ucast (b :: u8)) :: u16) = unat a + 256 * unat b"
proof -
  have a: "unat (ucast a :: u16) = unat a" "unat (ucast b :: u16) = unat b"
    by (simp_all add: unsigned_ucast_eq unsigned_take_bit_eq take_bit_nat_eq_self order_less_trans [OF unsigned_less])
  have l: "unat a < 256" "unat b < 256" using unsigned_less [of a] unsigned_less [of b] by simp_all
  have "unat (ucast a OR push_bit 8 (ucast b) :: u16) = unat (ucast a :: u16) OR unat (push_bit 8 (ucast b) :: u16)"
    by (simp add: unsigned_or_eq)
  also have "unat (push_bit 8 (ucast b) :: u16) = take_bit 16 (push_bit 8 (unat b))"
    by (simp only: unsigned_push_bit_eq a(2)) simp
  also have "\<dots> = push_bit 8 (unat b)" using l(2) by (simp add: take_bit_nat_eq_self push_bit_eq_mult)
  also have "unat (ucast a :: u16) OR push_bit 8 (unat b) = unat a + push_bit 8 (unat b)"
    unfolding a(1)
  proof (rule disjunctive_add [symmetric])
    fix n
    have "bit (unat a) n \<Longrightarrow> n < 8" using bit_imp_le_length [of a n] by (simp add: bit_unsigned_iff)
    then show "\<not> bit (unat a) n \<or> \<not> bit (push_bit 8 (unat b)) n" by (auto simp: bit_push_bit_iff)
  qed
  finally show ?thesis by (simp add: push_bit_eq_mult)
qed

lemma unat_le16: "unat (le16 bs i) = unat (bs ! i) + 256 * unat (bs ! (i + 1))"
  unfolding le16_def by (rule word16_bytes)

lemma unat_fat_u: "unat (fat_u f0 f1) = (unat f0 + 256 * unat f1) mod 4096"
proof -
  have "fat_u f0 f1 = take_bit 12 (ucast f0 OR push_bit 8 (ucast f1))"
  proof (rule bit_word_eqI)
    fix n assume "n < LENGTH(16)"
    then consider "n < 8" | "8 \<le> n" "n < 12" | "12 \<le> n" by fastforce
    then show "bit (fat_u f0 f1) n = bit (take_bit 12 (ucast f0 OR push_bit 8 (ucast f1)) :: u16) n"
      by cases (auto simp: fat_bits bit_take_bit_iff dest: bit_imp_le_length)
  qed
  then show ?thesis by (simp add: take_bit_eq_mod unat_mod word16_bytes)
qed

lemma unat_fat_v: "unat (fat_v f1 f2) = (unat f1 + 256 * unat f2) div 16"
proof -
  have "fat_v f1 f2 = drop_bit 4 (ucast f1 OR push_bit 8 (ucast f2))"
  proof (rule bit_word_eqI)
    fix n assume "n < LENGTH(16)"
    then consider "n < 4" | "4 \<le> n" "n < 12" | "12 \<le> n" by fastforce
    then show "bit (fat_v f1 f2) n = bit (drop_bit 4 (ucast f1 OR push_bit 8 (ucast f2)) :: u16) n"
      by cases (auto simp: fat_bits bit_drop_bit_eq dest: bit_imp_le_length)
  qed
  then show ?thesis by (simp add: drop_bit_eq_div unat_div word16_bytes)
qed

text \<open>The entries the reader unpacks, as the specification locates them.\<close>

lemma fat_read_entry:
  "n < length (fat_read_loop src) \<Longrightarrow> unat (fat_read_loop src ! n) =
     (let w = unat (src ! (n + n div 2)) + 256 * unat (src ! (n + n div 2 + 1)) in if even n then w mod 4096 else w div 16)"
proof (induction src arbitrary: n rule: fat_read_loop.induct)
  case (1 f0 f1 f2 src)
  consider "n = 0" | "n = 1" | m where "n = m + 2" by (metis One_nat_def add_2_eq_Suc' not0_implies_Suc)
  then show ?case
  proof cases
    case 3
    then have "m < length (fat_read_loop src)" using "1.prems" by simp
    moreover have "m + 2 + (m + 2) div 2 = Suc (Suc (Suc (m + m div 2)))" by simp
    ultimately show ?thesis using "1.IH" [of m] 3 by simp
  qed (simp_all add: unat_fat_u unat_fat_v)
qed simp_all

lemma image_range_nth:
  assumes "\<And>s. length (img s) = 512" and "i < 512 * n"
  shows "image_range img s n ! i = img (s + word_of_nat (i div 512)) ! (i mod 512)"
  using assms(2)
proof (induction n arbitrary: s i)
  case (Suc n)
  show ?case
  proof (cases "i < 512")
    case False
    then obtain j where j: "i = 512 + j" using le_Suc_ex not_less by blast
    then have "image_range img s (Suc n) ! i = image_range img (s + 1) n ! j" using assms(1) by (simp add: nth_append)
    moreover have "(512 + j) div 512 = Suc (j div 512)" by simp
    ultimately show ?thesis using Suc.IH [of j "s + 1"] Suc.prems j by (simp add: ac_simps)
  qed (simp add: nth_append assms(1))
qed simp

lemma volume_byte_range:
  assumes "\<And>s. length (img s) = 512" and "i < 512 * n"
  shows "unat (image_range img s n ! i) = volume_byte img (512 * unat s + i)"
  using image_range_nth [of img i n s] assms by (simp add: volume_byte_def)

lemma volume_byte_0: "p < 512 \<Longrightarrow> volume_byte img p = unat (img 0 ! p)"
  by (simp add: volume_byte_def)

subsection \<open>The volume as the reader sees it\<close>

text \<open>The fields of the boot sector.\<close>

lemma boot_fields:
  "unat (BytesPerSector (boot_sector (img 0))) = bpb_byts_per_sec img"
  "unat (SectorsPerCluster (boot_sector (img 0))) = bpb_sec_per_clus img"
  "unat (ReservedSectorCount (boot_sector (img 0))) = bpb_rsvd_sec_cnt img"
  "unat (NumFATs (boot_sector (img 0))) = bpb_num_fats img"
  "unat (RootEntityCount (boot_sector (img 0))) = bpb_root_ent_cnt img"
  "unat (FATSize (boot_sector (img 0))) = bpb_fat_sz img"
  by (simp_all add: boot_sector_def bpb_defs volume_word_def volume_byte_0 unat_le16)

lemma field_bounds: "bpb_sec_per_clus img < 256" "bpb_rsvd_sec_cnt img < 65536" "bpb_num_fats img < 256"
  "bpb_root_ent_cnt img < 65536" "bpb_fat_sz img < 65536"
proof -
  have b: "unat (x :: u8) < 256" for x using unsigned_less [of x] by simp
  have w: "unat (x :: u16) < 65536" for x using unsigned_less [of x] by simp
  show "bpb_sec_per_clus img < 256" "bpb_rsvd_sec_cnt img < 65536" "bpb_num_fats img < 256"
    "bpb_root_ent_cnt img < 65536" "bpb_fat_sz img < 65536"
    by (simp_all only: b w flip: boot_fields)
qed

lemma unat_ucast_u8 [simp]: "unat (ucast (x :: u8) :: u32) = unat x"
  by (simp add: unsigned_ucast_eq unsigned_take_bit_eq take_bit_nat_eq_self order_less_trans [OF unsigned_less])

lemma root_sector_start: "unat (root_sector (boot_sector (img 0))) = root_dir_start img"
proof -
  let ?b = "boot_sector (img 0)"
  have "bpb_num_fats img * bpb_fat_sz img \<le> 255 * 65535"
    using field_bounds [of img] by (intro mult_le_mono) simp_all
  then have m: "unat (ucast (NumFATs ?b) * ucast (FATSize ?b) :: u32) = bpb_num_fats img * bpb_fat_sz img"
    by (subst unat_u32_mult) (simp_all add: boot_fields)
  then show ?thesis using field_bounds(2) [of img] \<open>_ \<le> 255 * 65535\<close>
    unfolding root_sector_def root_dir_start_def by (subst unat_u32_add) (simp_all add: boot_fields)
qed

lemma root_dir_start_bound: "root_dir_start img < 17000000"
proof -
  have "bpb_num_fats img * bpb_fat_sz img \<le> 255 * 65535"
    using field_bounds [of img] by (intro mult_le_mono) simp_all
  then show ?thesis using field_bounds(2) [of img] by (simp add: root_dir_start_def)
qed

lemma root_sectors_count:
  assumes "16 dvd bpb_root_ent_cnt img"
  shows "unat (ucast (RootEntityCount (boot_sector (img 0))) * 32 div 512 :: u32) = root_dir_sectors img"
proof -
  have "unat (ucast (RootEntityCount (boot_sector (img 0))) * 32 :: u32) = bpb_root_ent_cnt img * 32"
    using field_bounds(4) [of img] by (subst unat_u32_mult) (simp_all add: boot_fields)
  then have "unat (ucast (RootEntityCount (boot_sector (img 0))) * 32 div 512 :: u32) = bpb_root_ent_cnt img * 32 div 512"
    by (simp add: unat_div)
  also have "\<dots> = root_dir_sectors img" using assms by (auto simp: root_dir_sectors_def elim!: dvdE)
  finally show ?thesis .
qed

lemma data_start_bound: "data_start img < 17100000"
proof -
  have "root_dir_sectors img \<le> 4096" using field_bounds(4) [of img] by (simp add: root_dir_sectors_def)
  then show ?thesis using root_dir_start_bound [of img] by (simp add: data_start_def)
qed

text \<open>What mounting a volume gives, and the FAT it has read.\<close>

definition disk_fs :: "image \<Rightarrow> fat12_fs" where
  "disk_fs img = (let b = boot_sector (img 0) in
     \<lparr>bootSector = b, firstDataSector = root_sector b + ucast (RootEntityCount b) * 32 div 512,
      fs_fat = fat_read_loop (image_range img (ucast (ReservedSectorCount b)) (unat (FATSize b)))\<rparr>)"

lemma mounted_fs:
  assumes "serves_image dev n img I" and "I d" and "bpb_byts_per_sec img = 512"
    and "bpb_rsvd_sec_cnt img + bpb_fat_sz img \<le> n"
    and "FAT12FileSystem dev (boot_sector (img 0)) d = Done (fs, d')"
  shows "fs = disk_fs img \<and> 3 dvd bpb_fat_sz img"
proof -
  let ?b = "boot_sector (img 0)"
  have "unat (BytesPerSector ?b) = unat (512 :: u16)" using assms(3) by (simp add: boot_fields)
  then have b: "BytesPerSector ?b = 512" by (simp only: word_unat_eq_iff)
  have m: "FATSize ?b mod 3 = 0 \<longleftrightarrow> 3 dvd bpb_fat_sz img"
    by (simp add: word_unat_eq_iff unat_mod boot_fields dvd_eq_mod_eq_0)
  have le: "unat (ReservedSectorCount ?b) + unat (FATSize ?b) \<le> n" using assms(4) by (simp add: boot_fields)
  note mount = block_device.mount_ok [OF block_device.intro, OF assms(1,2) b le]
  show ?thesis
  proof (cases "FATSize ?b mod 3 = 0")
    case True
    then show ?thesis using mount assms(5) m by (auto simp: disk_fs_def Let_def)
  next
    case False
    then show ?thesis using mount assms(5) by simp
  qed
qed

lemma disk_fat:
  assumes "\<And>s. length (img s) = 512" and "3 dvd bpb_fat_sz img"
  shows "length (fs_fat (disk_fs img)) = fat_entries img"
    and "n < fat_entries img \<Longrightarrow> unat (fs_fat (disk_fs img) ! n) = fat_entry img n"
proof -
  obtain k where k: "bpb_fat_sz img = 3 * k" using assms(2) by (auto elim: dvdE)
  let ?src = "image_range img (ucast (ReservedSectorCount (boot_sector (img 0)))) (3 * k)"
  have fat: "fs_fat (disk_fs img) = fat_read_loop ?src"
    by (simp add: disk_fs_def Let_def boot_fields k)
  have len: "length ?src = 1536 * k" using length_image_range [OF assms(1)] by simp
  have e: "fat_entries img = 1024 * k" by (simp add: fat_entries_def k)
  have "1536 * k div 3 = 512 * k" by simp
  then show l: "length (fs_fat (disk_fs img)) = fat_entries img"
    unfolding fat length_fat_read_loop len e by simp
  show "unat (fs_fat (disk_fs img) ! n) = fat_entry img n" if n: "n < fat_entries img"
  proof -
    have i: "n + n div 2 + 1 < 512 * (3 * k)" using n unfolding e by linarith
    have "unat (?src ! j) = volume_byte img (512 * bpb_rsvd_sec_cnt img + j)" if "j < 512 * (3 * k)" for j
      using volume_byte_range [of img j "3 * k" "ucast (ReservedSectorCount (boot_sector (img 0)))"] assms(1) that
      by (simp add: boot_fields)
    then have "unat (?src ! (n + n div 2)) + 256 * unat (?src ! (n + n div 2 + 1)) =
        volume_word img (512 * bpb_rsvd_sec_cnt img + n + n div 2)"
      using i by (simp add: volume_word_def add.assoc)
    moreover have "n < length (fat_read_loop ?src)" using n l by (simp add: fat)
    ultimately show ?thesis unfolding fat by (subst fat_read_entry) (simp_all add: fat_entry_def Let_def)
  qed
qed

lemma push_sectors_upt:
  "unat s + k < 4294967296 \<Longrightarrow> push_sectors k s [] = map word_of_nat [unat s ..< unat s + k]"
proof (induction k arbitrary: s)
  case (Suc k)
  have s: "unat (s + 1) = Suc (unat s)" using Suc.prems by (subst unat_u32_add) simp_all
  have "push_sectors k (s + 1) [] = map word_of_nat [Suc (unat s) ..< Suc (unat s) + k]"
    using Suc.IH [of "s + 1"] Suc.prems by (simp add: s)
  moreover have "[unat s ..< unat s + Suc k] = unat s # [Suc (unat s) ..< Suc (unat s) + k]" by (simp add: upt_rec)
  ultimately show ?case by (simp add: push_sectors_acc [of k _ "[_]"])
qed simp

lemma disk_sector:
  assumes "16 dvd bpb_root_ent_cnt img" and "c \<noteq> 1"
  shows "\<exists>s. sector_from_cluster (disk_fs img) c = Done s \<and> unat s = cluster_start img (unat c)"
proof (cases "c = 0")
  case True
  then show ?thesis by (simp add: sector_from_cluster_def disk_fs_def Let_def root_sector_start cluster_start_def)
next
  case False
  let ?b = "boot_sector (img 0)"
  have "c \<noteq> 0" "unat c \<noteq> 1" using False assms(2) by (auto simp: word_unat_eq_iff)
  then have c: "2 \<le> unat c" by (metis One_nat_def Suc_leI le_neq_implies_less not_less_eq_eq numeral_2_eq_2 unat_gt_0)
  have "unat c < 65536" using unsigned_less [of c] by simp
  have u2: "unat (ucast c - 2 :: u32) = unat c - 2"
    using c by (subst unat_sub) (simp_all add: word_le_nat_alt)
  have "(unat c - 2) * bpb_sec_per_clus img \<le> 65533 * 255"
    using \<open>unat c < 65536\<close> field_bounds(1) [of img] by (intro mult_le_mono) simp_all
  then have m: "unat ((ucast c - 2) * ucast (SectorsPerCluster ?b) :: u32) = (unat c - 2) * bpb_sec_per_clus img"
    by (subst unat_u32_mult) (simp_all add: u2 boot_fields)
  have d: "unat (root_sector ?b + ucast (RootEntityCount ?b) * 32 div 512) = data_start img"
    using data_start_bound [of img] root_sectors_count [OF assms(1)]
    by (subst unat_u32_add) (simp_all add: root_sector_start data_start_def)
  have "unat (root_sector ?b + ucast (RootEntityCount ?b) * 32 div 512 + (ucast c - 2) * ucast (SectorsPerCluster ?b)) =
      data_start img + (unat c - 2) * bpb_sec_per_clus img"
    using data_start_bound [of img] \<open>_ \<le> 65533 * 255\<close> by (subst unat_u32_add) (simp_all add: d m)
  then show ?thesis
    using False assms(2) c by (simp add: sector_from_cluster_def disk_fs_def Let_def cluster_start_def)
qed

lemma cluster_start_bound: "c < 65536 \<Longrightarrow> cluster_start img c + bpb_sec_per_clus img < 4294967296"
proof -
  assume "c < 65536"
  then have "(c - 2) * bpb_sec_per_clus img \<le> 65533 * 255"
    using field_bounds(1) [of img] by (intro mult_le_mono) simp_all
  then show ?thesis
    using data_start_bound [of img] root_dir_start_bound [of img] field_bounds(1) [of img] by (simp add: cluster_start_def)
qed

subsection \<open>Chains\<close>

text \<open>The disk of a mounted volume: sectors of 512 bytes, a FAT of whole entries, a root directory of whole sectors.\<close>

definition readable_volume :: "image \<Rightarrow> bool" where
  "readable_volume img \<longleftrightarrow> (\<forall>s. length (img s) = 512) \<and> 3 dvd bpb_fat_sz img \<and> 16 dvd bpb_root_ent_cnt img"

definition region_sectors :: "image \<Rightarrow> nat list \<Rightarrow> u16 list" where
  "region_sectors img cs = map word_of_nat (concat (map (cluster_region img) cs))"

lemma add_cluster_region:
  assumes "readable_volume img" and "unat c \<noteq> 1" and "unat c < fat_entries img"
  shows "add_cluster (disk_fs img) c [] =
    Done (map word_of_nat (cluster_region img (unat c)), fs_fat (disk_fs img) ! unat c)"
proof -
  have "c \<noteq> 1" using assms(2) by auto
  then obtain s where s: "sector_from_cluster (disk_fs img) c = Done s" "unat s = cluster_start img (unat c)"
    using disk_sector assms(1) unfolding readable_volume_def by blast
  have n: "unat (sectors_per_cluster (disk_fs img)) = bpb_sec_per_clus img"
    by (simp add: sectors_per_cluster_def disk_fs_def Let_def boot_fields)
  have "unat c < 65536" using unsigned_less [of c] by simp
  then have "push_sectors (bpb_sec_per_clus img) s [] = map word_of_nat (cluster_region img (unat c))"
    using cluster_start_bound [of "unat c" img] by (subst push_sectors_upt) (simp_all add: s(2) cluster_region_def)
  then show ?thesis
    using assms disk_fat(1) [of img]
    by (simp add: add_cluster_def s(1) n next_cluster_def fat_next_cluster_def readable_volume_def)
qed

lemma add_cluster_valid:
  assumes "readable_volume img" and "add_cluster (disk_fs img) c [] = Done (v, c')"
  shows "unat c \<noteq> 1 \<and> unat c < fat_entries img \<and> v = map word_of_nat (cluster_region img (unat c)) \<and>
    unat c' = fat_entry img (unat c)"
proof -
  have l: "length (fs_fat (disk_fs img)) = fat_entries img" using assms(1) disk_fat(1) by (simp add: readable_volume_def)
  have "c \<noteq> 1" using assms(2) by (auto simp: add_cluster_def sector_from_cluster_def)
  then have "unat c \<noteq> 1" by (metis unat_1 word_unat_eq_iff)
  moreover have "unat c < fat_entries img"
    using assms(2) l by (auto simp: add_cluster_def next_cluster_def fat_next_cluster_def split: if_splits)
  ultimately show ?thesis
    using assms add_cluster_region [OF assms(1)] disk_fat(2) by (auto simp: readable_volume_def)
qed

abbreviation code_ends :: "nat set" where "code_ends \<equiv> {0xFF0, 0xFFF}"

lemma end_word: "unat (c :: u16) \<in> code_ends \<longleftrightarrow> c = 0xFF0 \<or> c = 0xFFF"
  by (auto simp: word_unat_eq_iff)

lemma cluster_chain_format:
  assumes "readable_volume img"
  shows "cluster_chain (disk_fs img) c cs \<Longrightarrow> fat_chain img code_ends (unat c) (map unat cs) \<and>
    concat (map (cluster_sectors (disk_fs img)) cs) = region_sectors img (map unat cs)"
proof (induction rule: cluster_chain.induct)
  case (chain_end c v c')
  note a = add_cluster_valid [OF assms chain_end(1)]
  then have "fat_entry img (unat c) \<in> code_ends" using chain_end(2) end_word [of c'] by simp
  then show ?case
    using a by (simp add: fat_chain_end cluster_sectors_Done [OF chain_end(1)] region_sectors_def)
next
  case (chain_step c v c' cs)
  note a = add_cluster_valid [OF assms chain_step(1)]
  then have "fat_entry img (unat c) \<notin> code_ends" using chain_step(2,3) end_word [of c'] by simp
  then have "fat_chain img code_ends (unat c) (unat c # map unat cs)"
    using a chain_step.IH by (intro fat_chain_next) auto
  then show ?case using a chain_step.IH by (simp add: cluster_sectors_Done [OF chain_step(1)] region_sectors_def)
qed

lemma format_cluster_chain:
  assumes "readable_volume img"
  shows "fat_chain img code_ends m ms \<Longrightarrow> m = unat c \<Longrightarrow> \<exists>cs. cluster_chain (disk_fs img) c cs \<and> ms = map unat cs"
proof (induction arbitrary: c rule: fat_chain.induct)
  case (fat_chain_end m)
  let ?c' = "fs_fat (disk_fs img) ! unat c"
  note a = add_cluster_region [OF assms, of c]
  have "unat ?c' = fat_entry img (unat c)" using disk_fat(2) assms fat_chain_end by (simp add: readable_volume_def)
  then have "?c' = 0xFF0 \<or> ?c' = 0xFFF" using fat_chain_end end_word [of ?c'] by simp
  then show ?case using a fat_chain_end cluster_chain.chain_end [of "disk_fs img" c] by (intro exI [of _ "[c]"]) simp
next
  case (fat_chain_next m ms)
  let ?c' = "fs_fat (disk_fs img) ! unat c"
  note a = add_cluster_region [OF assms, of c]
  have e: "unat ?c' = fat_entry img (unat c)" using disk_fat(2) assms fat_chain_next by (simp add: readable_volume_def)
  then have n: "?c' \<noteq> 0xFF0" "?c' \<noteq> 0xFFF" using fat_chain_next end_word [of ?c'] by simp_all
  obtain cs where cs: "cluster_chain (disk_fs img) ?c' cs" "ms = map unat cs"
    using fat_chain_next.IH [of ?c'] e fat_chain_next.prems by auto
  have "cluster_chain (disk_fs img) c (c # cs)"
    by (rule cluster_chain.chain_step [OF a n cs(1)]) (use fat_chain_next in auto)
  then show ?case using cs(2) fat_chain_next.prems by (intro exI [of _ "c # cs"]) simp
qed

lemma opens_format_chain:
  assumes "readable_volume img"
  shows "FAT12DirectoryEnum (disk_fs img) c = Done e \<longleftrightarrow>
     (\<exists>cs. fat_chain img code_ends (unat c) cs \<and> e = \<lparr>de_sectors = region_sectors img cs, de_index = 0\<rparr>)"
  unfolding directory_enum_chain
  using cluster_chain_format [OF assms, of c] format_cluster_chain [OF assms, of "unat c" _ c] by metis

text \<open>A chain that ends as formatters end it and has no cluster number reserved by the format.\<close>

lemma fat_chain_more_ends:
  "fat_chain img {0xFFF} c cs \<Longrightarrow> \<forall>x\<in>set cs. x < 0xFF0 \<Longrightarrow> fat_chain img code_ends c cs"
proof (induction rule: fat_chain.induct)
  case (fat_chain_next c cs)
  have "fat_entry img c \<in> set cs" using fat_chain_next.hyps(4) by (cases rule: fat_chain.cases) auto
  then show ?case using fat_chain_next by (intro fat_chain.fat_chain_next) auto
qed (auto intro: fat_chain_end)

lemma directory_chain_code: "directory_chain img c cs \<Longrightarrow> fat_chain img code_ends c cs"
  using fat_chain_more_ends by (auto simp: directory_chain_def)

subsection \<open>Directories\<close>

text \<open>The entry at a position of the volume, as the reader decodes it.\<close>

definition decoded :: "image \<Rightarrow> nat \<Rightarrow> FAT12_DirectoryEntry" where
  "decoded img p = directory_entry (map (\<lambda>i. word_of_nat (volume_byte img (p + i))) [0..<32])"

lemma decoded_fields:
  "Name (decoded img p) = map (\<lambda>i. word_of_nat (volume_byte img (p + i))) [0..<11]"
  "unat (Attribute (decoded img p)) = volume_byte img (p + 11)"
  "unat (FileSystemClusterLogical (decoded img p)) = entry_cluster img p"
proof -
  have b: "unat (word_of_nat (volume_byte img q) :: u8) = volume_byte img q" for q by (simp add: volume_byte_def)
  show "Name (decoded img p) = map (\<lambda>i. word_of_nat (volume_byte img (p + i))) [0..<11]"
    by (simp add: decoded_def directory_entry_def bytes_between_def take_map take_upt)
  show "unat (Attribute (decoded img p)) = volume_byte img (p + 11)"
    by (simp add: decoded_def directory_entry_def b)
  show "unat (FileSystemClusterLogical (decoded img p)) = entry_cluster img p"
    by (simp add: decoded_def directory_entry_def unat_le16 b entry_cluster_def volume_word_def add.commute)
qed

lemma cached_decoded:
  assumes "\<And>s. length (img s) = 512" and "i < 16"
  shows "cached_entry (img (word_of_nat s)) (word_of_nat i) = decoded img (512 * s + 32 * i)"
proof -
  have i: "unat (word_of_nat i :: u32) = i" using assms(2) by (intro unat_u32_of_nat) simp
  have "bytes_between (img (word_of_nat s)) (32 * i) 32 =
      map (\<lambda>j. word_of_nat (volume_byte img (512 * s + 32 * i + j))) [0..<32]"
  proof (rule nth_equalityI)
    fix j assume "j < length (bytes_between (img (word_of_nat s)) (32 * i) 32)"
    then have j: "j < 32" by (simp add: bytes_between_def)
    have e: "512 * s + 32 * i + j = (32 * i + j) + s * 512" by simp
    have l: "32 * i + j < 512" using assms(2) j by simp
    have "(512 * s + 32 * i + j) div 512 = s" unfolding e using l by simp
    moreover have "(512 * s + 32 * i + j) mod 512 = 32 * i + j" unfolding e using l by (simp only: mod_mult_self1 mod_less)
    ultimately show "bytes_between (img (word_of_nat s)) (32 * i) 32 ! j =
        map (\<lambda>j. word_of_nat (volume_byte img (512 * s + 32 * i + j))) [0..<32] ! j"
      using assms j by (simp add: bytes_between_def volume_byte_def)
  qed (use assms in \<open>simp add: bytes_between_def\<close>)
  then show ?thesis by (simp add: cached_entry_def decoded_def i)
qed

lemma all_entries_decoded:
  assumes "\<And>s. length (img s) = 512" and "\<forall>s\<in>set ss. s < 65536"
  shows "all_entries img (map word_of_nat ss) = map (decoded img) (entry_positions ss)"
proof -
  have e: "map (\<lambda>i. cached_entry (img (ucast (word_of_nat s :: u16))) (word_of_nat i)) [0..<16] =
      map (\<lambda>i. decoded img (512 * s + 32 * i)) [0..<16]" if "s \<in> set ss" for s
  proof -
    have "unat (word_of_nat s :: u16) = s" using assms(2) that by (simp add: unat_of_nat)
    then have "ucast (word_of_nat s :: u16) = (word_of_nat s :: u32)" by (metis of_nat_unat)
    then show ?thesis using cached_decoded [of img, OF assms(1)] by simp
  qed
  show ?thesis
    unfolding all_entries_def entry_positions_def map_concat map_map comp_def
    by (intro arg_cong [where f = concat] map_cong refl e)
qed

lemma first_byte: "Name (decoded img p) ! 0 = word_of_nat (volume_byte img p)"
  by (simp add: decoded_fields)

lemma first_byte_eq: "unat (v :: u8) = k \<Longrightarrow> Name (decoded img p) ! 0 = v \<longleftrightarrow> volume_byte img p = k"
  by (simp add: first_byte volume_byte_def word_unat_eq_iff)

lemma visible_used:
  assumes "\<And>s. length (img s) = 512" and "\<forall>s\<in>set ss. s < 65536"
    and "\<forall>p\<in>set (used_entries img ss). volume_byte img p \<noteq> 0x0E"
  shows "visible (all_entries img (map word_of_nat ss)) = map (\<lambda>p. make_entry (decoded img p)) (used_entries img ss)"
proof -
  have d: "deleted (decoded img p) \<longleftrightarrow> volume_byte img p = 0x0E \<or> volume_byte img p = 0xE5" for p
    using first_byte_eq [where v = "0x0E" and k = "0x0E" and img = img and p = p]
      first_byte_eq [where v = "0xE5" and k = "0xE5" and img = img and p = p] by (simp add: deleted_def)
  have z: "Name (decoded img p) ! 0 = 0 \<longleftrightarrow> volume_byte img p = 0" for p by (rule first_byte_eq) simp
  let ?ps = "takeWhile (\<lambda>p. volume_byte img p \<noteq> 0) (entry_positions ss)"
  have "filter (\<lambda>p. \<not> (volume_byte img p = 0x0E \<or> volume_byte img p = 0xE5)) ?ps = used_entries img ss"
    using assms(3) unfolding used_entries_def by (intro filter_cong) auto
  then show ?thesis
    unfolding visible_def all_entries_decoded [OF assms(1,2)]
    by (simp add: takeWhile_map filter_map comp_def d z)
qed

text \<open>Names and attributes.\<close>

lemma map_unat_inj:
  fixes xs ys :: "'a::len word list"
  assumes "map unat xs = map unat ys"
  shows "xs = ys"
proof -
  have "inj (unat :: 'a word \<Rightarrow> nat)" by (simp add: inj_def word_unat_eq_iff)
  then show ?thesis using assms by (simp only: inj_map_eq_map)
qed

lemma unat_mem: "(v :: 'a::len word) \<in> set vs \<Longrightarrow> unat v \<in> set (map unat vs)"
  by simp

lemma padded_part:
  assumes "padded (map unat (bs :: u8 list)) b"
  shows "map unat (extract_fn_part bs) = b"
proof -
  have "map unat (extract_fn_part bs) = filter (\<lambda>n. n \<noteq> 0x20) (map unat bs)"
    unfolding extract_fn_part_def filter_map comp_def
    by (intro arg_cong [where f = "map unat"] filter_cong) (auto simp: word_unat_eq_iff)
  then show ?thesis using padded_blanks [OF assms] by simp
qed

lemma entry_name_format:
  assumes "entry_named img p name"
  shows "entry_name (Name (decoded img p)) = name"
proof -
  let ?n = "Name (decoded img p)"
  obtain b x where bx: "padded (volume_bytes img p 8) b" "padded (volume_bytes img (p + 8) 3) x" "0x2E \<notin> set x"
    "map unat name = (if x = [] then b else b @ [0x2E] @ x)"
    using assms unfolding entry_named_def by blast
  have v: "unat (word_of_nat (volume_byte img q) :: u8) = volume_byte img q" for q by (simp add: volume_byte_def)
  have "map unat (take 8 ?n) = volume_bytes img p 8"
    by (simp add: decoded_fields volume_bytes_def take_map take_upt v)
  moreover have "map unat (take 3 (drop 8 ?n)) = volume_bytes img (p + 8) 3"
  proof -
    have "[0..<3] = [0, 1, 2 :: nat]" "[8..<11] = [8, 9, 10 :: nat]" by (simp_all add: upt_rec)
    then show ?thesis by (simp add: decoded_fields volume_bytes_def drop_map take_map v add.commute)
  qed
  ultimately have parts: "map unat (extract_fn_part (take 8 ?n)) = b" "map unat (extract_fn_part (take 3 (drop 8 ?n))) = x"
    using padded_part bx(1,2) by metis+
  let ?b = "extract_fn_part (take 8 ?n)" and ?x = "extract_fn_part (take 3 (drop 8 ?n))"
  have nz: "0 \<notin> set ?b" "0 \<notin> set ?x"
    using bx(1,2) parts unat_mem [of 0 ?b] unat_mem [of 0 ?x] by (auto simp: padded_def)
  have nd: "0x2E \<notin> set ?x" using bx(3) parts(2) unat_mem [of "0x2E" ?x] by auto
  show ?thesis
  proof (cases "?x = []")
    case True
    then have "map unat name = map unat ?b" using bx(4) parts by auto
    then have "name = ?b" by (rule map_unat_inj)
    moreover have "takeWhile (\<lambda>ch. ch \<noteq> 0) (?b @ [0]) = ?b" using nz(1) by (subst takeWhile_append2) auto
    ultimately show ?thesis using True by (simp add: entry_name_def extract_file_name_def Let_def)
  next
    case False
    then have "map unat name = map unat (?b @ [0x2E] @ ?x)" using bx(4) parts by auto
    then have n: "name = ?b @ [0x2E] @ ?x" by (rule map_unat_inj)
    have "last (?b @ [0x2E] @ ?x) \<noteq> 0x2E" using False nd by (auto dest: last_in_set)
    then have "extract_file_name ?n = name" using n by (simp add: extract_file_name_def Let_def)
    moreover have "takeWhile (\<lambda>ch. ch \<noteq> 0) name = name" using nz unfolding n by (auto simp: takeWhile_eq_all_conv)
    ultimately show ?thesis by (simp add: entry_name_def)
  qed
qed

lemma directory_bit: "Attribute (decoded img p) AND ATTR_DIRECTORY \<noteq> 0 \<longleftrightarrow> entry_is_directory img p"
proof -
  have "(0x10 :: u8) = push_bit 4 1" by (simp add: push_bit_eq_mult)
  then have "Attribute (decoded img p) AND ATTR_DIRECTORY \<noteq> 0 \<longleftrightarrow> bit (Attribute (decoded img p)) 4"
    unfolding ATTR_DIRECTORY_def by (simp only: bit_iff_and_push_bit_not_eq_0)
  also have "\<dots> \<longleftrightarrow> bit (unat (Attribute (decoded img p))) 4" by (simp add: bit_unsigned_iff)
  also have "\<dots> \<longleftrightarrow> entry_is_directory img p" by (simp add: decoded_fields entry_is_directory_def bit_iff_odd)
  finally show ?thesis .
qed

subsection \<open>A volume with a subdirectory of two clusters\<close>

definition listing_boot :: "u8 list" where
  "listing_boot = (replicate 512 0)[12 := 0x02, 13 := 1, 14 := 1, 16 := 2, 17 := 16, 22 := 3,
     54 := 0x46, 55 := 0x41, 56 := 0x54, 57 := 0x31, 58 := 0x32]"

text \<open>Entry 5 of the FAT is 6 and entry 6 is the end marker.\<close>

definition listing_fat :: "u8 list" where
  "listing_fat = [0, 0, 0, 0, 0, 0, 0, 0x60, 0, 0xFF, 0x0F] @ replicate 501 0"

definition listing_subdirectory :: "u8 list" where
  "listing_subdirectory = concat [sample_entry 0x44 0 3, replicate 32 0] @ replicate 448 0"

definition listing_image :: image where
  "listing_image s = (if s = 0 then listing_boot else if s = 1 then listing_fat else if s = 7 then sample_directory
     else if s = 11 then listing_subdirectory else replicate 512 0)"

definition listing_trees :: "entry_tree list" where
  "listing_trees = [EntryTree [0x41, 0x42, 0x2E, 0x43] [EntryTree [0x44, 0x42, 0x2E, 0x43] []],
     EntryTree [0x44, 0x42, 0x2E, 0x43] []]"

lemma length_listing_image: "length (listing_image s) = 512"
  by (simp add: listing_image_def listing_boot_def listing_fat_def listing_subdirectory_def sample_directory_def
    sample_entries_def sample_entry_def)

lemma listing_bytes:
  "p < 512 \<Longrightarrow> volume_byte listing_image p = unat (listing_boot ! p)"
  "p < 512 \<Longrightarrow> volume_byte listing_image (512 + p) = unat (listing_fat ! p)"
  "p < 512 \<Longrightarrow> volume_byte listing_image (3584 + p) = unat (sample_directory ! p)"
  "p < 512 \<Longrightarrow> volume_byte listing_image (5632 + p) = unat (listing_subdirectory ! p)"
proof -
  have d: "(512 * k + p) div 512 = k" "(512 * k + p) mod 512 = p" if "p < 512" for k p :: nat
    using that by simp_all
  show "p < 512 \<Longrightarrow> volume_byte listing_image p = unat (listing_boot ! p)"
    by (simp add: volume_byte_def listing_image_def)
  show "p < 512 \<Longrightarrow> volume_byte listing_image (512 + p) = unat (listing_fat ! p)"
    using d [of p 1] by (simp add: volume_byte_def listing_image_def)
  show "p < 512 \<Longrightarrow> volume_byte listing_image (3584 + p) = unat (sample_directory ! p)"
    using d [of p 7] by (simp add: volume_byte_def listing_image_def)
  show "p < 512 \<Longrightarrow> volume_byte listing_image (5632 + p) = unat (listing_subdirectory ! p)"
    using d [of p 11] by (simp add: volume_byte_def listing_image_def)
qed

lemma listing_layout:
  "bpb_byts_per_sec listing_image = 512" "bpb_sec_per_clus listing_image = 1" "bpb_rsvd_sec_cnt listing_image = 1"
  "bpb_num_fats listing_image = 2" "bpb_root_ent_cnt listing_image = 16" "bpb_fat_sz listing_image = 3"
  by (simp_all add: bpb_defs volume_word_def listing_bytes listing_boot_def nth_list_update)

lemma listing_regions: "root_dir_start listing_image = 7" "data_start listing_image = 8"
  "cluster_region listing_image 5 = [11]" "cluster_region listing_image 6 = [12]" "fat_entries listing_image = 1024"
  by (simp_all add: root_dir_start_def data_start_def root_dir_sectors_def listing_layout cluster_region_def
    cluster_start_def fat_entries_def)

lemma listing_entries: "fat_entry listing_image 5 = 6" "fat_entry listing_image 6 = 0xFFF"
  using listing_bytes(2) [of 7] listing_bytes(2) [of 8] listing_bytes(2) [of 9] listing_bytes(2) [of 10]
  by (simp_all add: fat_entry_def volume_word_def listing_layout listing_fat_def)

lemma listing_chain: "directory_chain listing_image 5 [5, 6]"
proof -
  have "fat_chain listing_image {0xFFF} 6 [6]" by (rule fat_chain_end) (simp_all add: listing_regions listing_entries)
  then have "fat_chain listing_image {0xFFF} 5 [5, 6]"
    by (intro fat_chain_next) (simp_all add: listing_regions listing_entries)
  then show ?thesis by (simp add: directory_chain_def)
qed

lemma listing_served: "serves_image (image_device listing_image) 2880 listing_image (\<lambda>_. True)"
  by (rule image_device_serves) (rule length_listing_image)

lemma listing_mounts: "\<exists>d. FAT12FileSystem (image_device listing_image) (boot_sector (listing_image 0)) () =
  Done (disk_fs listing_image, d)"
proof -
  let ?b = "boot_sector (listing_image 0)"
  have "unat (BytesPerSector ?b) = unat (512 :: u16)" "unat (FATSize ?b) = unat (3 :: u16)"
    by (simp_all add: boot_fields listing_layout)
  then have b: "BytesPerSector ?b = 512" "FATSize ?b = 3" by (simp_all only: word_unat_eq_iff)
  have "unat (ReservedSectorCount ?b) + unat (FATSize ?b) \<le> 2880" by (simp add: boot_fields listing_layout)
  from block_device.mount_ok [OF block_device.intro, OF listing_served _ b(1) this] b(2)
  show ?thesis by (auto simp: disk_fs_def Let_def)
qed

text \<open>Its tree, byte by byte.\<close>

lemma listing_directory_bytes:
  "3584 \<le> p \<Longrightarrow> p < 4096 \<Longrightarrow> volume_byte listing_image p = unat (sample_directory ! (p - 3584))"
  "5632 \<le> p \<Longrightarrow> p < 6144 \<Longrightarrow> volume_byte listing_image p = unat (listing_subdirectory ! (p - 5632))"
  using listing_bytes(3) [of "p - 3584"] listing_bytes(4) [of "p - 5632"] by simp_all

lemmas listing_list_defs = sample_directory_def sample_entries_def listing_subdirectory_def sample_entry_def nth_append

lemma listing_used:
  "used_entries listing_image [7] = [3584, 3648]" "used_entries listing_image [11, 12] = [5632]"
proof -
  have u: "[0..<16] = [0, 1, 2, 3] @ [4..<16 :: nat]" by (simp add: upt_rec)
  show "used_entries listing_image [7] = [3584, 3648]"
    by (simp add: used_entries_def entry_positions_def u listing_directory_bytes listing_list_defs)
  show "used_entries listing_image [11, 12] = [5632]"
    by (simp add: used_entries_def entry_positions_def u listing_directory_bytes listing_list_defs)
qed

lemma listing_rows:
  "volume_bytes listing_image 3584 8 = [0x41, 0x42, 0x20, 0x20, 0x20, 0x20, 0x20, 0x20]"
  "volume_bytes listing_image 3592 3 = [0x43, 0x20, 0x20]"
  "volume_bytes listing_image 3648 8 = [0x44, 0x42, 0x20, 0x20, 0x20, 0x20, 0x20, 0x20]"
  "volume_bytes listing_image 3656 3 = [0x43, 0x20, 0x20]"
  "volume_bytes listing_image 5632 8 = [0x44, 0x42, 0x20, 0x20, 0x20, 0x20, 0x20, 0x20]"
  "volume_bytes listing_image 5640 3 = [0x43, 0x20, 0x20]"
  by (simp_all add: volume_bytes_def upt_rec listing_directory_bytes listing_list_defs)

lemma listing_attributes:
  "entry_is_directory listing_image 3584" "\<not> entry_is_directory listing_image 3648" "\<not> entry_is_directory listing_image 5632"
  "entry_cluster listing_image 3584 = 5"
  by (simp_all add: entry_is_directory_def entry_cluster_def volume_word_def listing_directory_bytes listing_list_defs)

lemma padded_name:
  assumes "volume_bytes img p 8 = [c, 0x42, 0x20, 0x20, 0x20, 0x20, 0x20, 0x20]"
    and "volume_bytes img (p + 8) 3 = [0x43, 0x20, 0x20]" and "c = 0x41 \<or> c = 0x44"
  shows "entry_named img p [word_of_nat c, 0x42, 0x2E, 0x43]"
proof -
  have r: "replicate 6 (0x20 :: nat) = [0x20, 0x20, 0x20, 0x20, 0x20, 0x20]" "replicate 2 (0x20 :: nat) = [0x20, 0x20]"
    by (simp_all add: numeral_eq_Suc)
  have "padded [c, 0x42, 0x20, 0x20, 0x20, 0x20, 0x20, 0x20] [c, 0x42]"
    unfolding padded_def using assms(3) by (intro conjI exI [of _ 6]) (auto simp: r)
  moreover have "padded [0x43, 0x20, 0x20] [0x43]"
    unfolding padded_def by (intro conjI exI [of _ 2]) (auto simp: r)
  ultimately show ?thesis
    unfolding entry_named_def using assms by (intro exI [of _ "[c, 0x42]"] exI [of _ "[0x43]"]) auto
qed

lemma listing_names:
  "entry_named listing_image 3584 [0x41, 0x42, 0x2E, 0x43]" "entry_named listing_image 3648 [0x44, 0x42, 0x2E, 0x43]"
  "entry_named listing_image 5632 [0x44, 0x42, 0x2E, 0x43]"
  using padded_name [of listing_image 3584 "0x41"] padded_name [of listing_image 3648 "0x44"]
    padded_name [of listing_image 5632 "0x44"] by (simp_all add: listing_rows)

lemma listing_volume_trees: "volume_trees listing_image 2880 [3584, 3648] listing_trees"
proof -
  have b: "volume_byte listing_image 3584 \<noteq> 0x0E" "volume_byte listing_image 3648 \<noteq> 0x0E" "volume_byte listing_image 5632 \<noteq> 0x0E"
    by (simp_all add: listing_directory_bytes listing_list_defs)
  have f: "volume_trees listing_image 2880 [p] [EntryTree [0x44, 0x42, 0x2E, 0x43] []]" if "p = 3648 \<or> p = 5632" for p
    using that b listing_names listing_attributes by (intro volume_leaf volume_nil) auto
  show ?thesis
    unfolding listing_trees_def
    by (intro volume_dir [OF listing_names(1) b(1) listing_attributes(1), where cs = "[5, 6]"])
      (simp_all add: f dot_entry_def listing_attributes listing_chain listing_regions listing_used)
qed

lemma listing_volume: "fat12_volume listing_image 2880 listing_trees"
proof -
  have "[7..<8] = [7 :: nat]" by (simp add: upt_rec)
  then have "volume_trees listing_image 2880 (used_entries listing_image [root_dir_start listing_image ..< data_start listing_image]) listing_trees"
    using listing_volume_trees by (simp add: listing_regions listing_used)
  moreover have "volume_bytes listing_image 54 5 = [0x46, 0x41, 0x54, 0x31, 0x32]"
    by (simp add: volume_bytes_def upt_rec listing_bytes(1) listing_boot_def nth_list_update)
  ultimately show ?thesis by (simp add: fat12_volume_def listing_layout listing_regions)
qed



end
