(* ===== verification/Floppy.thy ===== *)
theory Floppy
  imports Block_Device Ports Mm
begin

text \<open>
  The floppy driver, \<^verbatim>\<open>src/floppy.cpp\<close>: controller commands with their retries, motor state, DMA
  set-up, whole-cylinder transfers, and the block device with its one-cylinder cache.

  The hardware is a parameter: port reads and writes on a device state, the run of the device up to
  its next interrupt (\<open>None\<close>: it never raises one) and the bytes DMA left in memory. \<^verbatim>\<open>timer_sleep\<close> is
  a delay loop without effect and left out; \<^verbatim>\<open>TRACE\<close> output is left out. Messages on the console are
  kept in order, with the string or number they print.
\<close>

record 'd floppy_hardware = "'d hardware" +
  run_to_irq :: "'d \<Rightarrow> 'd option"
  fetch :: "u32 \<Rightarrow> 'd \<Rightarrow> u8"

datatype floppy_message = Msg string | MsgStr string string | MsgNum string u32

record 'd floppy_state =
  device :: 'd
  s_floppy_irq :: bool
  floppy_motor_ticks :: int
  floppy_motor_state :: int
  flog :: "floppy_message list"

definition floppy_say :: "floppy_message \<Rightarrow> 'd floppy_state \<Rightarrow> 'd floppy_state" where
  "floppy_say msg s = s\<lparr>flog := flog s @ [msg]\<rparr>"

subsection \<open>Interrupt, registers, commands\<close>

definition floppy_irq :: "'r \<Rightarrow> 'd floppy_state \<Rightarrow> 'r \<times> 'd floppy_state" where
  "floppy_irq regs s = (regs, s\<lparr>s_floppy_irq := True\<rparr>)"

definition irq_wait :: "('d, 'z) floppy_hardware_scheme \<Rightarrow> 'd floppy_state \<Rightarrow> 'd floppy_state outcome" where
  "irq_wait hw s =
     (if s_floppy_irq s then Done (s\<lparr>s_floppy_irq := False\<rparr>)
      else case run_to_irq hw (device s) of
        None \<Rightarrow> Diverges
      | Some d \<Rightarrow> Done (s\<lparr>device := d, s_floppy_irq := False\<rparr>))"

definition floppy_base :: u16 where "floppy_base = 0x03F0"
definition DEFAULT_FLOPPY_IRQ :: nat where "DEFAULT_FLOPPY_IRQ = 6"

definition FLOPPY_DOR :: u16 where "FLOPPY_DOR = 2"
definition FLOPPY_MSR :: u16 where "FLOPPY_MSR = 4"
definition FLOPPY_FIFO :: u16 where "FLOPPY_FIFO = 5"
definition FLOPPY_CCR :: u16 where "FLOPPY_CCR = 7"

definition CMD_SPECIFY :: u8 where "CMD_SPECIFY = 3"
definition CMD_WRITE_DATA :: u8 where "CMD_WRITE_DATA = 5"
definition CMD_READ_DATA :: u8 where "CMD_READ_DATA = 6"
definition CMD_RECALIBRATE :: u8 where "CMD_RECALIBRATE = 7"
definition CMD_SENSE_INTERRUPT :: u8 where "CMD_SENSE_INTERRUPT = 8"
definition CMD_SEEK :: u8 where "CMD_SEEK = 15"

definition floppy_out :: "('d, 'z) floppy_hardware_scheme \<Rightarrow> u16 \<Rightarrow> u8 \<Rightarrow> 'd floppy_state \<Rightarrow> 'd floppy_state" where
  "floppy_out hw port v s = s\<lparr>device := outportb hw port v (device s)\<rparr>"

definition floppy_in :: "('d, 'z) floppy_hardware_scheme \<Rightarrow> u16 \<Rightarrow> 'd floppy_state \<Rightarrow> u8 \<times> 'd floppy_state" where
  "floppy_in hw port s = (case inportb hw port (device s) of (v, d) \<Rightarrow> (v, s\<lparr>device := d\<rparr>))"

fun floppy_write_cmd_loop ::
    "('d, 'z) floppy_hardware_scheme \<Rightarrow> nat \<Rightarrow> u16 \<Rightarrow> u8 \<Rightarrow> 'd floppy_state \<Rightarrow> 'd floppy_state outcome" where
  "floppy_write_cmd_loop hw 0 iob cmd s = Fault (Panic ''floppy_write_cmd: timeout'')"
| "floppy_write_cmd_loop hw (Suc n) iob cmd s =
     (case floppy_in hw (iob + FLOPPY_MSR) s of
        (msr, s') \<Rightarrow>
          if 0x80 AND msr \<noteq> 0 then Done (floppy_out hw (iob + FLOPPY_FIFO) cmd s')
          else floppy_write_cmd_loop hw n iob cmd s')"

definition floppy_write_cmd ::
    "('d, 'z) floppy_hardware_scheme \<Rightarrow> u16 \<Rightarrow> u8 \<Rightarrow> 'd floppy_state \<Rightarrow> 'd floppy_state outcome" where
  "floppy_write_cmd hw iob cmd s = floppy_write_cmd_loop hw 600 iob cmd s"

fun floppy_read_data_loop ::
    "('d, 'z) floppy_hardware_scheme \<Rightarrow> nat \<Rightarrow> u16 \<Rightarrow> 'd floppy_state \<Rightarrow> (u8 \<times> 'd floppy_state) outcome" where
  "floppy_read_data_loop hw 0 iob s = Fault (Panic ''floppy_read_data: timeout'')"
| "floppy_read_data_loop hw (Suc n) iob s =
     (case floppy_in hw (iob + FLOPPY_MSR) s of
        (msr, s') \<Rightarrow>
          if 0x80 AND msr \<noteq> 0 then Done (floppy_in hw (iob + FLOPPY_FIFO) s')
          else floppy_read_data_loop hw n iob s')"

definition floppy_read_data ::
    "('d, 'z) floppy_hardware_scheme \<Rightarrow> u16 \<Rightarrow> 'd floppy_state \<Rightarrow> (u8 \<times> 'd floppy_state) outcome" where
  "floppy_read_data hw iob s = floppy_read_data_loop hw 600 iob s"

definition floppy_check_interrupt ::
    "('d, 'z) floppy_hardware_scheme \<Rightarrow> u16 \<Rightarrow> 'd floppy_state \<Rightarrow> (u32 \<times> u32 \<times> 'd floppy_state) outcome" where
  "floppy_check_interrupt hw iob s =
     outcome_bind (floppy_write_cmd hw iob CMD_SENSE_INTERRUPT s) (\<lambda>s.
     outcome_bind (floppy_read_data hw iob s) (\<lambda>(st0, s).
     outcome_bind (floppy_read_data hw iob s) (\<lambda>(cyl, s).
       Done (ucast st0, ucast cyl, s))))"

text \<open>A sequence of \<^verbatim>\<open>floppy_write_cmd\<close> calls, and of \<^verbatim>\<open>floppy_read_data\<close> calls.\<close>

fun floppy_write_cmds ::
    "('d, 'z) floppy_hardware_scheme \<Rightarrow> u16 \<Rightarrow> u8 list \<Rightarrow> 'd floppy_state \<Rightarrow> 'd floppy_state outcome" where
  "floppy_write_cmds hw iob [] s = Done s"
| "floppy_write_cmds hw iob (c # cs) s =
     outcome_bind (floppy_write_cmd hw iob c s) (floppy_write_cmds hw iob cs)"

fun floppy_read_datas ::
    "('d, 'z) floppy_hardware_scheme \<Rightarrow> u16 \<Rightarrow> nat \<Rightarrow> 'd floppy_state \<Rightarrow> (u8 list \<times> 'd floppy_state) outcome" where
  "floppy_read_datas hw iob 0 s = Done ([], s)"
| "floppy_read_datas hw iob (Suc n) s =
     outcome_bind (floppy_read_data hw iob s) (\<lambda>(v, s).
     outcome_bind (floppy_read_datas hw iob n s) (\<lambda>(vs, s). Done (v # vs, s)))"

subsection \<open>The motor\<close>

definition floppy_motor_off :: int where "floppy_motor_off = 0"
definition floppy_motor_on :: int where "floppy_motor_on = 1"
definition floppy_motor_wait :: int where "floppy_motor_wait = 2"

definition floppy_motor :: "('d, 'z) floppy_hardware_scheme \<Rightarrow> u16 \<Rightarrow> int \<Rightarrow> 'd floppy_state \<Rightarrow> 'd floppy_state" where
  "floppy_motor hw iob onoff s =
     (if onoff \<noteq> 0 then
        (let s' = (if floppy_motor_state s = 0 then floppy_out hw (iob + FLOPPY_DOR) 0x1C s else s) in
         s'\<lparr>floppy_motor_state := floppy_motor_on\<rparr>)
      else
        (let s' = (if floppy_motor_state s = floppy_motor_wait
                   then floppy_say (Msg ''floppy_motor: strange, fd motor-state already waiting..'') s else s) in
         s'\<lparr>floppy_motor_ticks := 300, floppy_motor_state := floppy_motor_wait\<rparr>))"

definition floppy_motor_kill :: "('d, 'z) floppy_hardware_scheme \<Rightarrow> u16 \<Rightarrow> 'd floppy_state \<Rightarrow> 'd floppy_state" where
  "floppy_motor_kill hw iob s =
     (floppy_out hw (iob + FLOPPY_DOR) 0x0C s)\<lparr>floppy_motor_state := floppy_motor_off\<rparr>"

text \<open>One round of the endless loop of \<^verbatim>\<open>floppy_timer\<close>.\<close>

definition floppy_timer_round :: "('d, 'z) floppy_hardware_scheme \<Rightarrow> 'd floppy_state \<Rightarrow> 'd floppy_state" where
  "floppy_timer_round hw s =
     (if floppy_motor_state s = floppy_motor_wait then
        (let s' = s\<lparr>floppy_motor_ticks := floppy_motor_ticks s - 50\<rparr> in
         if floppy_motor_ticks s' \<le> 0 then floppy_motor_kill hw floppy_base s' else s')
      else s)"

subsection \<open>Calibration, reset, seek\<close>

definition calibrate_status :: "nat \<Rightarrow> string" where
  "calibrate_status i = ['''', ''error'', ''invalid'', ''drive''] ! i"

definition seek_status :: "nat \<Rightarrow> string" where
  "seek_status i = [''normal'', ''error'', ''invalid'', ''drive''] ! i"

fun floppy_calibrate_loop ::
    "('d, 'z) floppy_hardware_scheme \<Rightarrow> nat \<Rightarrow> u16 \<Rightarrow> 'd floppy_state \<Rightarrow> (int \<times> 'd floppy_state) outcome" where
  "floppy_calibrate_loop hw 0 iob s =
     Done (- 1, floppy_motor hw iob floppy_motor_off
       (floppy_say (Msg ''floppy_calibrate: 10 retries exhausted'') s))"
| "floppy_calibrate_loop hw (Suc n) iob s =
     outcome_bind (floppy_write_cmds hw iob [CMD_RECALIBRATE, 0] s) (\<lambda>s.
     outcome_bind (irq_wait hw s) (\<lambda>s.
     outcome_bind (floppy_check_interrupt hw iob s) (\<lambda>(st0, cyl, s).
       if st0 AND 0xC0 \<noteq> 0 then
         floppy_calibrate_loop hw n iob
           (floppy_say (MsgStr ''floppy_calibrate: status = %s'' (calibrate_status (unat (drop_bit 6 st0)))) s)
       else if cyl = 0 then Done (0, floppy_motor hw iob floppy_motor_off s)
       else floppy_calibrate_loop hw n iob s)))"

definition floppy_calibrate ::
    "('d, 'z) floppy_hardware_scheme \<Rightarrow> u16 \<Rightarrow> 'd floppy_state \<Rightarrow> (int \<times> 'd floppy_state) outcome" where
  "floppy_calibrate hw iob s = floppy_calibrate_loop hw 10 iob (floppy_motor hw iob floppy_motor_on s)"

definition floppy_reset ::
    "('d, 'z) floppy_hardware_scheme \<Rightarrow> u16 \<Rightarrow> 'd floppy_state \<Rightarrow> (int \<times> 'd floppy_state) outcome" where
  "floppy_reset hw iob s =
     outcome_bind (irq_wait hw (floppy_out hw (iob + FLOPPY_DOR) 0x0C (floppy_out hw (iob + FLOPPY_DOR) 0x00 s))) (\<lambda>s.
     outcome_bind (floppy_check_interrupt hw iob s) (\<lambda>(st0, cyl, s).
     outcome_bind (floppy_write_cmds hw iob [CMD_SPECIFY, 0xDF, 0x02] (floppy_out hw (iob + FLOPPY_CCR) 0x00 s)) (\<lambda>s.
     outcome_bind (floppy_calibrate hw iob s) (\<lambda>(r, s).
       Done (if r \<noteq> 0 then - 1 else 0, s)))))"

fun floppy_seek_loop ::
    "('d, 'z) floppy_hardware_scheme \<Rightarrow> nat \<Rightarrow> u16 \<Rightarrow> u32 \<Rightarrow> u8 \<Rightarrow> 'd floppy_state \<Rightarrow> (int \<times> 'd floppy_state) outcome" where
  "floppy_seek_loop hw 0 iob cyli head s =
     Done (- 1, floppy_motor hw iob floppy_motor_off
       (floppy_say (Msg ''floppy_seek: 10 retries exhausted'') s))"
| "floppy_seek_loop hw (Suc n) iob cyli head s =
     outcome_bind (floppy_write_cmds hw iob [CMD_SEEK, push_bit 2 head, ucast cyli] s) (\<lambda>s.
     outcome_bind (irq_wait hw s) (\<lambda>s.
     outcome_bind (floppy_check_interrupt hw iob s) (\<lambda>(st0, cyl, s).
       if st0 AND 0xC0 \<noteq> 0 then
         floppy_seek_loop hw n iob cyli head
           (floppy_say (MsgStr ''floppy_seek: status = %s'' (seek_status (unat (drop_bit 6 st0)))) s)
       else if cyl = cyli then Done (0, floppy_motor hw iob floppy_motor_off s)
       else floppy_seek_loop hw n iob cyli head s)))"

definition floppy_seek ::
    "('d, 'z) floppy_hardware_scheme \<Rightarrow> u16 \<Rightarrow> u32 \<Rightarrow> u8 \<Rightarrow> 'd floppy_state \<Rightarrow> (int \<times> 'd floppy_state) outcome" where
  "floppy_seek hw iob cyli head s =
     floppy_seek_loop hw 10 iob cyli head (floppy_motor hw iob floppy_motor_on s)"

subsection \<open>DMA\<close>

datatype floppy_dir = floppy_dir_read | floppy_dir_write

definition FLOPPY_DMALEN :: u32 where "FLOPPY_DMALEN = 0x4800"

definition byte_of :: "nat \<Rightarrow> u32 \<Rightarrow> u8" where
  "byte_of i x = ucast (drop_bit (8 * i) x)"

primrec dma_mode :: "floppy_dir \<Rightarrow> u8" where
  "dma_mode floppy_dir_read = 0x46"
| "dma_mode floppy_dir_write = 0x4A"

definition dma_writes :: "floppy_dir \<Rightarrow> u32 \<Rightarrow> port_write list" where
  "dma_writes dir a =
     (let c = FLOPPY_DMALEN - 1 in
      [(0x0A, 0x06),
       (0x0C, 0xFF), (0x04, byte_of 0 a), (0x04, byte_of 1 a),
       (0x81, byte_of 2 a),
       (0x0C, 0xFF), (0x05, byte_of 0 c), (0x05, byte_of 1 c),
       (0x0B, dma_mode dir), (0x0A, 0x02)])"

definition floppy_dma_init ::
    "('d, 'z) floppy_hardware_scheme \<Rightarrow> floppy_dir \<Rightarrow> u32 \<Rightarrow> 'd floppy_state \<Rightarrow> 'd floppy_state outcome" where
  "floppy_dma_init hw dir a s =
     (let c = FLOPPY_DMALEN - 1 in
      if drop_bit 24 a \<noteq> 0 \<or> drop_bit 16 c \<noteq> 0 \<or> drop_bit 16 ((a AND 0xFFFF) + c) \<noteq> 0
      then Fault (Panic ''floppy_dma_init: static buffer problem'')
      else Done (foldl (\<lambda>s (p, v). floppy_out hw p v s) s (dma_writes dir a)))"

subsection \<open>Transfer of a cylinder\<close>

definition track_status :: "nat \<Rightarrow> string" where
  "track_status i = ['''', ''error'', ''invalid command'', ''drive not ready''] ! i"

text \<open>
  The checks of the result bytes, in order: condition, message, and the value \<^verbatim>\<open>error\<close> gets.
\<close>

definition track_checks :: "u8 \<Rightarrow> u8 \<Rightarrow> u8 \<Rightarrow> u8 \<Rightarrow> (bool \<times> floppy_message \<times> int) list" where
  "track_checks st0 st1 st2 bps =
     [(st0 AND 0xC0 \<noteq> 0, MsgStr ''floppy_do_sector: status = %s'' (track_status (unat (drop_bit 6 st0))), 1),
      (st1 AND 0x80 \<noteq> 0, Msg ''floppy_do_sector: end of cylinder'', 1),
      (st0 AND 0x08 \<noteq> 0, Msg ''floppy_do_sector: drive not ready'', 1),
      (st1 AND 0x20 \<noteq> 0, Msg ''floppy_do_sector: CRC error'', 1),
      (st1 AND 0x10 \<noteq> 0, Msg ''floppy_do_sector: controller timeout'', 1),
      (st1 AND 0x04 \<noteq> 0, Msg ''floppy_do_sector: no data found'', 1),
      ((st1 OR st2) AND 0x01 \<noteq> 0, Msg ''floppy_do_sector: no address mark found'', 1),
      (st2 AND 0x40 \<noteq> 0, Msg ''floppy_do_sector: deleted address mark'', 1),
      (st2 AND 0x20 \<noteq> 0, Msg ''floppy_do_sector: CRC error in data'', 1),
      (st2 AND 0x10 \<noteq> 0, Msg ''floppy_do_sector: wrong cylinder'', 1),
      (st2 AND 0x04 \<noteq> 0, Msg ''floppy_do_sector: uPD765 sector not found'', 1),
      (st2 AND 0x02 \<noteq> 0, Msg ''floppy_do_sector: bad cylinder'', 1),
      (bps \<noteq> 0x2, MsgNum ''floppy_do_sector: wanted 512B/sector, got %d'' (push_bit (unat bps + 7) 1), 1),
      (st1 AND 0x02 \<noteq> 0, Msg ''floppy_do_sector: not writable'', 2)]"

fun run_checks :: "(bool \<times> floppy_message \<times> int) list \<Rightarrow> int \<Rightarrow> 'd floppy_state \<Rightarrow> int \<times> 'd floppy_state" where
  "run_checks [] error s = (error, s)"
| "run_checks ((True, msg, e) # cs) error s = run_checks cs e (floppy_say msg s)"
| "run_checks ((False, msg, e) # cs) error s = run_checks cs error s"

text \<open>\<^verbatim>\<open>1 << (bps + 7)\<close> is undefined for a shift of 32 or more.\<close>

definition track_error :: "u8 list \<Rightarrow> 'd floppy_state \<Rightarrow> (int \<times> 'd floppy_state) outcome" where
  "track_error st s =
     (let bps = st ! 6 in
      if bps \<noteq> 0x2 \<and> 32 \<le> unat bps + 7 then Fault UndefinedBehaviour
      else Done (run_checks (track_checks (st ! 0) (st ! 1) (st ! 2) bps) 0 s))"

primrec track_command :: "floppy_dir \<Rightarrow> u8" where
  "track_command floppy_dir_read = CMD_READ_DATA OR 0xC0"
| "track_command floppy_dir_write = CMD_WRITE_DATA OR 0xC0"

fun floppy_do_track_loop ::
    "('d, 'z) floppy_hardware_scheme \<Rightarrow> nat \<Rightarrow> u16 \<Rightarrow> u32 \<Rightarrow> floppy_dir \<Rightarrow> u32 \<Rightarrow> 'd floppy_state \<Rightarrow>
     (int \<times> 'd floppy_state) outcome" where
  "floppy_do_track_loop hw 0 iob cyl dir dma_buffer s =
     Done (- 1, floppy_motor hw iob floppy_motor_off
       (floppy_say (Msg ''floppy_do_sector: 20 retries exhausted'') s))"
| "floppy_do_track_loop hw (Suc n) iob cyl dir dma_buffer s =
     outcome_bind (floppy_dma_init hw dir dma_buffer (floppy_motor hw iob floppy_motor_on s)) (\<lambda>s.
     outcome_bind (floppy_write_cmds hw iob [track_command dir, 0, ucast cyl, 0, 1, 2, 18, 0x1B, 0xFF] s) (\<lambda>s.
     outcome_bind (irq_wait hw s) (\<lambda>s.
     outcome_bind (floppy_read_datas hw iob 7 s) (\<lambda>(st, s).
     outcome_bind (track_error st s) (\<lambda>(error, s).
       if error = 0 then Done (0, floppy_motor hw iob floppy_motor_off s)
       else if error > 1 then
         Done (- 2, floppy_motor hw iob floppy_motor_off (floppy_say (Msg ''floppy_do_sector: not retrying..'') s))
       else floppy_do_track_loop hw n iob cyl dir dma_buffer s)))))"

definition floppy_do_track ::
    "('d, 'z) floppy_hardware_scheme \<Rightarrow> u16 \<Rightarrow> u32 \<Rightarrow> floppy_dir \<Rightarrow> u32 \<Rightarrow> 'd floppy_state \<Rightarrow>
     (int \<times> 'd floppy_state) outcome" where
  "floppy_do_track hw iob cyl dir dma_buffer s =
     outcome_bind (floppy_seek hw iob cyl 0 s) (\<lambda>(r, s).
       if r \<noteq> 0 then Done (- 1, s)
       else outcome_bind (floppy_seek hw iob cyl 1 s) (\<lambda>(r, s).
         if r \<noteq> 0 then Done (- 1, s)
         else floppy_do_track_loop hw 20 iob cyl dir dma_buffer s))"

subsection \<open>The drive\<close>

definition FloppyDriveNone :: u8 where "FloppyDriveNone = 0"
definition FloppyDrive360k :: u8 where "FloppyDrive360k = 1"
definition FloppyDrive1_2M :: u8 where "FloppyDrive1_2M = 2"
definition FloppyDrive720k :: u8 where "FloppyDrive720k = 3"
definition FloppyDrive1_44M :: u8 where "FloppyDrive1_44M = 4"
definition FloppyDrive2_88M :: u8 where "FloppyDrive2_88M = 5"

definition FloppyDriveTypeNames :: "string list" where
  "FloppyDriveTypeNames = [''none'', ''360kB 5.25'' @ [CHR 0x22], ''1.2MB 5.25'' @ [CHR 0x22],
     ''720kB 3.5'' @ [CHR 0x22], ''1.44MB 3.5'' @ [CHR 0x22], ''2.88MB 3.5'' @ [CHR 0x22],
     ''unknown type'', ''unknown type'']"

record FloppyDrive =
  drive_idx :: u32
  drive_type :: u8
  controller_base :: u16
  cyl_cache :: u32
  cyl_cache_physical :: u32
  cached_cyl_index :: u32

definition sectors_per_cyl :: "u8 \<Rightarrow> u32" where
  "sectors_per_cyl ty =
     (if ty = FloppyDrive1_2M then 15 * 2 else if ty = FloppyDrive1_44M then 18 * 2 else 0)"

definition floppy_block_size :: u32 where "floppy_block_size = 512"

definition cyl_size :: "u8 \<Rightarrow> u32" where "cyl_size ty = sectors_per_cyl ty * floppy_block_size"

definition floppy_block_count :: "u8 \<Rightarrow> u32" where
  "floppy_block_count ty =
     (if ty = FloppyDrive1_2M \<or> ty = FloppyDrive1_44M then 80 * sectors_per_cyl ty else 0)"

definition floppy_description :: "FloppyDrive \<Rightarrow> string outcome" where
  "floppy_description dr =
     (if unat (drive_type dr) < 8 then Done (FloppyDriveTypeNames ! unat (drive_type dr)) else Fault OutOfBounds)"

text \<open>Constructor and destructor, with the page allocator's state.\<close>

definition new_FloppyDrive :: "u32 \<Rightarrow> u8 \<Rightarrow> u16 \<Rightarrow> physical \<Rightarrow> (FloppyDrive \<times> physical) outcome" where
  "new_FloppyDrive idx ty iob p =
     outcome_bind (mm_alloc_pages_dma (calc_required_page_count (cyl_size ty)) 16 p) (\<lambda>(cache, p').
       Done (\<lparr>drive_idx = idx, drive_type = ty, controller_base = iob, cyl_cache = cache,
         cyl_cache_physical = kernel_virtual_to_physical cache, cached_cyl_index = - 1\<rparr>, p'))"

definition delete_FloppyDrive :: "FloppyDrive \<Rightarrow> physical \<Rightarrow> physical outcome" where
  "delete_FloppyDrive dr p = mm_free_pages (cyl_cache dr) 1 p"

definition read_cyl ::
    "('d, 'z) floppy_hardware_scheme \<Rightarrow> u16 \<Rightarrow> u32 \<Rightarrow> u32 \<Rightarrow> 'd floppy_state \<Rightarrow> (int \<times> 'd floppy_state) outcome" where
  "read_cyl hw iob cyl_index dma_buffer s = floppy_do_track hw iob cyl_index floppy_dir_read dma_buffer s"

text \<open>\<^verbatim>\<open>read_block\<close>: the bytes for the buf, or \<open>None\<close> when it returns false.\<close>

definition load_cylinder ::
    "('d, 'z) floppy_hardware_scheme \<Rightarrow> u32 \<Rightarrow> FloppyDrive \<times> 'd floppy_state \<Rightarrow> (int \<times> FloppyDrive \<times> 'd floppy_state) outcome" where
  "load_cylinder hw cylinder = (\<lambda>(dr, s).
     if cylinder \<noteq> cached_cyl_index dr then
       outcome_bind (read_cyl hw (controller_base dr) cylinder (cyl_cache_physical dr) s)
         (\<lambda>(error, s'). Done (error, dr\<lparr>cached_cyl_index := cylinder\<rparr>, s'))
     else Done (0, dr, s))"

definition floppy_read_block ::
    "('d, 'z) floppy_hardware_scheme \<Rightarrow> u32 \<Rightarrow> FloppyDrive \<times> 'd floppy_state \<Rightarrow>
     (u8 list option \<times> FloppyDrive \<times> 'd floppy_state) outcome" where
  "floppy_read_block hw block_index = (\<lambda>(dr, s).
     let spc = sectors_per_cyl (drive_type dr) in
     if spc = 0 then Fault DivideError
     else let cylinder = block_index div spc; offset = (block_index mod spc) * floppy_block_size in
       outcome_bind (load_cylinder hw cylinder (dr, s)) (\<lambda>(error, dr', s').
         Done (if error = 0
               then Some (map (\<lambda>i. fetch hw (cyl_cache dr + offset + word_of_nat i) (device s')) [0..<512])
               else None, dr', s')))"

text \<open>\<open>pos\<close> is \<^verbatim>\<open>block_size() * i\<close>; writing past the caller's buf is out of bounds.\<close>

fun floppy_read_loop ::
    "('d, 'z) floppy_hardware_scheme \<Rightarrow> nat \<Rightarrow> u32 \<Rightarrow> nat \<Rightarrow> u8 list \<Rightarrow> FloppyDrive \<times> 'd floppy_state \<Rightarrow>
     (bool \<times> u8 list \<times> FloppyDrive \<times> 'd floppy_state) outcome" where
  "floppy_read_loop hw 0 block pos buf d = Done (True, buf, d)"
| "floppy_read_loop hw (Suc n) block pos buf d =
     outcome_bind (floppy_read_block hw block d) (\<lambda>(data, d').
       case data of
         None \<Rightarrow> Done (False, buf, d')
       | Some bs \<Rightarrow>
           if pos + 512 \<le> length buf
           then floppy_read_loop hw n (block + 1) (pos + 512) (take pos buf @ bs @ drop (pos + 512) buf) d'
           else Fault OutOfBounds)"

definition floppy_read ::
    "('d, 'z) floppy_hardware_scheme \<Rightarrow> u32 \<Rightarrow> u32 \<Rightarrow> u8 list \<Rightarrow> FloppyDrive \<times> 'd floppy_state \<Rightarrow>
     (bool \<times> u8 list \<times> FloppyDrive \<times> 'd floppy_state) outcome" where
  "floppy_read hw first_block_index count buf d = floppy_read_loop hw (unat count) first_block_index 0 buf d"

definition floppy_write :: "u32 \<Rightarrow> u32 \<Rightarrow> u8 list \<Rightarrow> 'e \<Rightarrow> (bool \<times> 'e) outcome" where
  "floppy_write first_block_index count buf d = Done (False, d)"

text \<open>The drive through the block device interface.\<close>

definition floppy_device :: "('d, 'z) floppy_hardware_scheme \<Rightarrow> (FloppyDrive \<times> 'd floppy_state) IBlockDevice" where
  "floppy_device hw = \<lparr>
     bd_block_size = (\<lambda>_. floppy_block_size),
     bd_block_count = (\<lambda>(dr, s). floppy_block_count (drive_type dr)),
     bd_read = floppy_read hw,
     bd_write = floppy_write\<rparr>"

subsection \<open>The motor and the end of every transfer\<close>

definition motor_released :: "'d floppy_state \<Rightarrow> bool" where
  "motor_released s \<longleftrightarrow> floppy_motor_state s = floppy_motor_wait \<and> floppy_motor_ticks s = 300"

lemma motor_off_released: "motor_released (floppy_motor hw iob floppy_motor_off s)"
  by (simp add: motor_released_def floppy_motor_def floppy_motor_off_def)

lemma seek_loop_released:
  "floppy_seek_loop hw n iob cyli head s = Done (r, s') \<Longrightarrow> motor_released s'"
proof (induction n arbitrary: s)
  case (Suc n)
  then show ?case by (auto split: if_splits simp: motor_off_released simp del: floppy_write_cmds.simps)
qed (auto simp: motor_off_released)

lemma do_track_loop_released:
  "floppy_do_track_loop hw n iob cyl dir buf s = Done (r, s') \<Longrightarrow> motor_released s' \<and> r \<in> {0, - 1, - 2}"
proof (induction n arbitrary: s)
  case (Suc n)
  then show ?case
    by (auto split: if_splits simp: motor_off_released simp del: floppy_write_cmds.simps floppy_read_datas.simps)
qed (auto simp: motor_off_released)

text \<open>However a cylinder transfer returns (0, -1 after too many retries or a failed seek, -2 when
  the disk is write protected), the motor has been released with three seconds to run on.\<close>

theorem do_track_releases_motor:
  assumes "floppy_do_track hw iob cyl dir dma_buffer s = Done (r, s')"
  shows "motor_released s' \<and> r \<in> {0, - 1, - 2}"
  using assms
  by (auto simp: floppy_do_track_def floppy_seek_def split: if_splits
      dest: do_track_loop_released seek_loop_released)

subsection \<open>The protocol of the controller\<close>

text \<open>
  The commands the driver uses, by the low five bits of their first byte (the high bits of READ and WRITE DATA are the
  multi-track, MFM and skip flags), and the number of bytes of each, parameters included, as the data sheet of the
  8272 and 82077 gives them.
\<close>

definition command_code :: "u8 \<Rightarrow> u8" where "command_code op = op AND 0x1F"

definition known_command :: "u8 \<Rightarrow> bool" where
  "known_command op \<longleftrightarrow> op \<in> {3, 7, 8, 15} \<or> command_code op \<in> {5, 6}"

definition command_length :: "u8 \<Rightarrow> nat" where
  "command_length op = (if command_code op \<in> {5, 6} then 9 else if op \<in> {3, 15} then 3 else if op = 7 then 2 else 1)"

text \<open>
  The phases of the controller. In the command phase it takes bytes; the flag says that a seek has finished and
  not been sensed. It executes a transfer or a seek until it raises its interrupt; a transfer is then followed by
  seven result bytes, a seek by none. SENSE INTERRUPT is answered at once, by two bytes after a seek and by one otherwise.
  In the unknown phase nothing is said of it, as while it is held in reset.
\<close>

datatype fdc_phase = Unknown | Taking bool "u8 list" | Executing u8 | Giving nat

definition idle_phase :: "fdc_phase \<Rightarrow> bool" where "idle_phase p \<longleftrightarrow> (\<exists>sought. p = Taking sought [])"

definition positions_head :: "u8 \<Rightarrow> bool" where "positions_head op \<longleftrightarrow> op = 7 \<or> op = 15"

definition take_byte :: "bool \<Rightarrow> u8 list \<Rightarrow> u8 \<Rightarrow> fdc_phase" where
  "take_byte sought cs b = (let cmd = cs @ [b]; op = hd cmd in
     if length cmd < command_length op then Taking sought cmd
     else if op = 8 then Giving (if sought then 2 else 1)
     else if op = 3 then Taking sought []
     else Executing op)"

definition give_byte :: "nat \<Rightarrow> fdc_phase \<Rightarrow> bool" where
  "give_byte n p \<longleftrightarrow> (if n \<le> 1 then idle_phase p else p = Giving (n - 1))"

definition executed :: "u8 \<Rightarrow> fdc_phase" where
  "executed op = (if positions_head op then Taking True [] else Giving 7)"

text \<open>
  A controller out of reset with a disk in its drive follows this protocol, whatever its registers hold and however
  late it becomes ready. The interrupt comes when it executes a command, and for a transfer only with the
  motor on: a disk that does not turn has no index marks to count. Nothing is promised for a byte it is not ready to take.
\<close>

definition fdc_follows ::
    "('d, 'z) floppy_hardware_scheme \<Rightarrow> ('d \<Rightarrow> fdc_phase) \<Rightarrow> ('d \<Rightarrow> bool) \<Rightarrow> bool" where
  "fdc_follows hw phase motor \<longleftrightarrow>
     (\<forall>d. phase (snd (inportb hw 0x3F4 d)) = phase d \<and> motor (snd (inportb hw 0x3F4 d)) = motor d) \<and>
     (\<forall>d n. phase d = Giving n \<longrightarrow>
        give_byte n (phase (snd (inportb hw 0x3F5 d))) \<and> motor (snd (inportb hw 0x3F5 d)) = motor d) \<and>
     (\<forall>d sought cs b. phase d = Taking sought cs \<longrightarrow> known_command (hd (cs @ [b])) \<longrightarrow>
        phase (outportb hw 0x3F5 b d) = take_byte sought cs b \<and> motor (outportb hw 0x3F5 b d) = motor d) \<and>
     (\<forall>d sought cs b. phase d = Taking sought cs \<longrightarrow> b AND 0x0C = 0x0C \<longrightarrow>
        phase (outportb hw 0x3F2 b d) = phase d \<and> motor (outportb hw 0x3F2 b d) = (b AND 0x10 \<noteq> 0)) \<and>
     (\<forall>p\<in>{0x04, 0x05, 0x0A, 0x0B, 0x0C, 0x81}. \<forall>b d.
        phase (outportb hw p b d) = phase d \<and> motor (outportb hw p b d) = motor d) \<and>
     (\<forall>d op. phase d = Executing op \<longrightarrow> positions_head op \<or> motor d \<longrightarrow>
        (\<exists>d'. run_to_irq hw d = Some d' \<and> phase d' = executed op \<and> motor d' = motor d))"

text \<open>\<open>leads Q m\<close>: the operation ends, and where it returns the result satisfies \<open>Q\<close>.\<close>

primrec leads :: "('a \<Rightarrow> bool) \<Rightarrow> 'a outcome \<Rightarrow> bool" where
  "leads Q (Done x) = Q x"
| "leads Q (Fault e) = True"
| "leads Q Diverges = False"

lemma leads_bind: "leads P m \<Longrightarrow> (\<And>x. P x \<Longrightarrow> leads Q (f x)) \<Longrightarrow> leads Q (outcome_bind m f)"
  by (cases m) auto

lemma leads_mono: "leads P m \<Longrightarrow> (\<And>x. P x \<Longrightarrow> Q x) \<Longrightarrow> leads Q m"
  by (cases m) auto

text \<open>
  The states of the driver: no interrupt is noted, and the motor is on whenever the driver thinks so. It
  rests when the controller waits for a command; while it works the motor is on.
\<close>

lemma idle_Taking [simp]: "idle_phase (Taking sought [])"
  by (simp add: idle_phase_def)

definition driver_rests :: "('d \<Rightarrow> fdc_phase) \<Rightarrow> ('d \<Rightarrow> bool) \<Rightarrow> 'd floppy_state \<Rightarrow> bool" where
  "driver_rests phase motor s \<longleftrightarrow> idle_phase (phase (device s)) \<and> \<not> s_floppy_irq s \<and>
     (floppy_motor_state s \<noteq> 0 \<longrightarrow> motor (device s))"

definition driver_in_phase ::
    "('d \<Rightarrow> fdc_phase) \<Rightarrow> ('d \<Rightarrow> bool) \<Rightarrow> (fdc_phase \<Rightarrow> bool) \<Rightarrow> 'd floppy_state \<Rightarrow> bool" where
  "driver_in_phase phase motor P s \<longleftrightarrow> P (phase (device s)) \<and> \<not> s_floppy_irq s \<and> motor (device s) \<and>
     floppy_motor_state s = floppy_motor_on"

locale fdc_protocol =
  fixes hw :: "('d, 'z) floppy_hardware_scheme" and phase :: "'d \<Rightarrow> fdc_phase" and motor :: "'d \<Rightarrow> bool"
  assumes follows: "fdc_follows hw phase motor"
begin

abbreviation in_phase :: "(fdc_phase \<Rightarrow> bool) \<Rightarrow> 'd floppy_state \<Rightarrow> bool" where
  "in_phase \<equiv> driver_in_phase phase motor"

abbreviation at_rest :: "'d floppy_state \<Rightarrow> bool" where "at_rest \<equiv> driver_rests phase motor"

lemmas in_phase_def = driver_in_phase_def
lemmas at_rest_def = driver_rests_def idle_phase_def

lemma status_read: "in_phase P s \<Longrightarrow> in_phase P (snd (floppy_in hw (0x3F0 + FLOPPY_MSR) s))"
  using follows by (auto simp: in_phase_def fdc_follows_def floppy_in_def FLOPPY_MSR_def split: prod.split)
    (metis snd_conv)+

lemma write_leads:
  assumes "known_command (hd (cs @ [b]))"
  shows "in_phase (\<lambda>p. p = Taking sought cs) s \<Longrightarrow> leads (in_phase (\<lambda>p. p = take_byte sought cs b)) (floppy_write_cmd_loop hw n 0x3F0 b s)"
proof (induction n arbitrary: s)
  case (Suc n)
  obtain v s1 where s1: "floppy_in hw (0x3F0 + FLOPPY_MSR) s = (v, s1)" by (rule prod.exhaust)
  then have p: "in_phase (\<lambda>p. p = Taking sought cs) s1" using status_read [OF Suc.prems] by simp
  then have "in_phase (\<lambda>p. p = take_byte sought cs b) (floppy_out hw (0x3F0 + FLOPPY_FIFO) b s1)"
    using follows assms by (simp add: in_phase_def fdc_follows_def floppy_out_def FLOPPY_FIFO_def)
  then show ?case using Suc.IH [OF p] by (simp add: s1)
qed simp

lemma read_leads:
  "in_phase (\<lambda>p. p = Giving k) s \<Longrightarrow> leads (\<lambda>(v, s'). in_phase (give_byte k) s') (floppy_read_data_loop hw n 0x3F0 s)"
proof (induction n arbitrary: s)
  case (Suc n)
  obtain v s1 where s1: "floppy_in hw (0x3F0 + FLOPPY_MSR) s = (v, s1)" by (rule prod.exhaust)
  then have p: "in_phase (\<lambda>p. p = Giving k) s1" using status_read [OF Suc.prems] by simp
  obtain w d where w: "inportb hw 0x3F5 (device s1) = (w, d)" by (rule prod.exhaust)
  then have "give_byte k (phase d)" "motor d = motor (device s1)"
    using follows p unfolding fdc_follows_def in_phase_def by (metis snd_conv)+
  then have "in_phase (give_byte k) (s1\<lparr>device := d\<rparr>)" using p by (simp add: in_phase_def)
  then show ?case using Suc.IH [OF p] w by (simp add: s1) (simp add: floppy_in_def FLOPPY_FIFO_def)
qed simp

lemma cmd_leads:
  "known_command (hd (cs @ [b])) \<Longrightarrow> in_phase (\<lambda>p. p = Taking sought cs) s \<Longrightarrow>
     leads (in_phase (\<lambda>p. p = take_byte sought cs b)) (floppy_write_cmd hw 0x3F0 b s)"
  unfolding floppy_write_cmd_def by (rule write_leads)

lemma data_leads:
  "in_phase (\<lambda>p. p = Giving k) s \<Longrightarrow> leads (\<lambda>(v, s'). in_phase (give_byte k) s') (floppy_read_data hw 0x3F0 s)"
  unfolding floppy_read_data_def by (rule read_leads)

text \<open>A whole command.\<close>

lemma cmds_lead:
  "bs \<noteq> [] \<Longrightarrow> known_command (hd (cs @ bs)) \<Longrightarrow> length (cs @ bs) = command_length (hd (cs @ bs)) \<Longrightarrow>
     in_phase (\<lambda>p. p = Taking sought cs) s \<Longrightarrow>
     leads (in_phase (\<lambda>p. p = take_byte sought (butlast (cs @ bs)) (last (cs @ bs)))) (floppy_write_cmds hw 0x3F0 bs s)"
proof (induction bs arbitrary: cs s)
  case (Cons b bs)
  have h: "hd (cs @ b # bs) = hd (cs @ [b])" by (cases cs) simp_all
  note w = cmd_leads [OF Cons.prems(2) [unfolded h] Cons.prems(4)]
  show ?case
  proof (cases "bs = []")
    case True
    then show ?thesis unfolding floppy_write_cmds.simps by (intro leads_bind [OF w]) simp
  next
    case False
    then have "length (cs @ [b]) < command_length (hd (cs @ [b]))" using Cons.prems(3) h by (simp add: neq_Nil_conv) auto
    then have t: "take_byte sought cs b = Taking sought (cs @ [b])" by (simp add: take_byte_def Let_def)
    show ?thesis unfolding floppy_write_cmds.simps
      by (intro leads_bind [OF w]) (use Cons.IH [OF False, of "cs @ [b]"] Cons.prems(2,3) t in simp)
  qed
qed simp

lemma results_lead:
  "in_phase (\<lambda>p. p = Giving (Suc n)) s \<Longrightarrow>
     leads (\<lambda>(vs, s'). in_phase idle_phase s') (floppy_read_datas hw 0x3F0 (Suc n) s)"
proof (induction n arbitrary: s)
  case 0
  then show ?case using data_leads [of 1 s] by (cases "floppy_read_data hw 0x3F0 s") (auto simp: in_phase_def give_byte_def)
next
  case (Suc n)
  show ?case
    unfolding floppy_read_datas.simps(2) [of _ _ "Suc n"]
  proof (rule leads_bind [OF data_leads [OF Suc.prems]], clarsimp simp only: split_paired_all prod.case)
    fix v s1
    assume "in_phase (give_byte (Suc (Suc n))) s1"
    then have "in_phase (\<lambda>p. p = Giving (Suc n)) s1" by (simp add: in_phase_def give_byte_def)
    show "leads (\<lambda>(vs, s'). in_phase idle_phase s')
      (outcome_bind (floppy_read_datas hw 0x3F0 (Suc n) s1) (\<lambda>(vs, s). Done (v # vs, s)))"
      by (rule leads_bind [OF Suc.IH [OF \<open>in_phase (\<lambda>p. p = Giving (Suc n)) s1\<close>]]) auto
  qed
qed

lemma wait_leads: "in_phase (\<lambda>p. p = Executing op) s \<Longrightarrow> leads (in_phase (\<lambda>p. p = executed op)) (irq_wait hw s)"
  using follows unfolding in_phase_def fdc_follows_def irq_wait_def by fastforce

lemma sense_leads:
  assumes "in_phase (\<lambda>p. p = Taking True []) s"
  shows "leads (\<lambda>(st0, cyl, s'). in_phase idle_phase s') (floppy_check_interrupt hw 0x3F0 s)"
proof -
  have k: "known_command (hd ([] @ [CMD_SENSE_INTERRUPT]))" by (simp add: known_command_def CMD_SENSE_INTERRUPT_def)
  have t: "take_byte True [] CMD_SENSE_INTERRUPT = Giving 2"
    by (simp add: take_byte_def command_length_def command_code_def CMD_SENSE_INTERRUPT_def)
  have g: "in_phase (give_byte 2) s \<longleftrightarrow> in_phase (\<lambda>p. p = Giving 1) s" "in_phase (give_byte 1) s \<longleftrightarrow> in_phase idle_phase s" for s
    by (simp_all add: in_phase_def give_byte_def)
  show ?thesis unfolding floppy_check_interrupt_def
    by (rule leads_bind [OF cmd_leads [OF k assms, unfolded t]], rule leads_bind [OF data_leads], assumption,
        clarsimp simp only: split_paired_all prod.case g(1), rule leads_bind [OF data_leads], assumption)
      (auto simp: g(2)[simplified])
qed

lemma motor_on_rest:
  "at_rest s \<Longrightarrow> in_phase idle_phase (floppy_motor hw 0x3F0 floppy_motor_on s)"
  using follows
  by (auto simp: at_rest_def in_phase_def fdc_follows_def floppy_motor_def floppy_motor_on_def floppy_out_def FLOPPY_DOR_def Let_def)

lemma motor_on_stays: "in_phase P s \<Longrightarrow> in_phase P (floppy_motor hw iob floppy_motor_on s)"
  by (simp add: in_phase_def floppy_motor_def floppy_motor_on_def)

lemma motor_off_rest:
  "in_phase idle_phase s \<Longrightarrow> at_rest (floppy_motor hw 0x3F0 floppy_motor_off s)"
  by (auto simp: at_rest_def in_phase_def floppy_motor_def floppy_motor_on_def floppy_motor_off_def floppy_motor_wait_def)

lemma say_phase: "in_phase P (floppy_say msg s) = in_phase P s"
  by (simp add: in_phase_def floppy_say_def)

lemma seek_leads:
  "in_phase idle_phase s \<Longrightarrow>
     leads (\<lambda>(r, s'). at_rest s') (floppy_seek_loop hw n 0x3F0 cyli head s)"
proof (induction n arbitrary: s)
  case 0
  then show ?case using motor_off_rest say_phase by simp
next
  case (Suc n)
  obtain sought where s: "in_phase (\<lambda>p. p = Taking sought []) s" using Suc.prems by (auto simp: in_phase_def idle_phase_def)
  let ?cmd = "[CMD_SEEK, push_bit 2 head, ucast cyli]"
  have op: "known_command CMD_SEEK" "command_length CMD_SEEK = 3"
    by (simp_all add: known_command_def command_length_def command_code_def CMD_SEEK_def)
  have t: "take_byte sought (butlast ([] @ ?cmd)) (last ([] @ ?cmd)) = Executing CMD_SEEK"
    using op(2) by (simp add: take_byte_def Let_def) (simp add: CMD_SEEK_def)
  have e: "executed CMD_SEEK = Taking True []" by (simp add: executed_def positions_head_def CMD_SEEK_def)
  have "?cmd \<noteq> []" "known_command (hd ([] @ ?cmd))" "length ([] @ ?cmd) = command_length (hd ([] @ ?cmd))"
    using op by simp_all
  note w = cmds_lead [OF this s, unfolded t]
  show ?case unfolding floppy_seek_loop.simps(2)
  proof (rule leads_bind [OF w], rule leads_bind [OF wait_leads], assumption, unfold e,
      rule leads_bind [OF sense_leads], assumption, clarsimp simp only: split_paired_all prod.case)
    fix st0 cyl s'
    assume "in_phase idle_phase s'"
    then have q: "in_phase idle_phase s'" by (auto simp: in_phase_def)
    then show "leads (\<lambda>(r, s'). at_rest s') (if st0 AND 0xC0 \<noteq> 0
      then floppy_seek_loop hw n 0x3F0 cyli head
        (floppy_say (MsgStr ''floppy_seek: status = %s'' (seek_status (unat (drop_bit 6 st0)))) s')
      else if cyl = cyli then Done (0, floppy_motor hw 0x3F0 floppy_motor_off s') else floppy_seek_loop hw n 0x3F0 cyli head s')"
      using Suc.IH motor_off_rest by (simp add: say_phase)
  qed
qed

lemma dma_law:
  "p \<in> {0x04, 0x05, 0x0A, 0x0B, 0x0C, 0x81} \<Longrightarrow> phase (outportb hw p b d) = phase d \<and> motor (outportb hw p b d) = motor d"
  using follows unfolding fdc_follows_def by blast

lemma dma_phase: "in_phase P s \<Longrightarrow> leads (in_phase P) (floppy_dma_init hw dir a s)"
proof -
  assume s: "in_phase P s"
  have "p \<in> {0x04, 0x05, 0x0A, 0x0B, 0x0C, 0x81} \<Longrightarrow> in_phase P s \<Longrightarrow> in_phase P (floppy_out hw p v s)" for p v s
    using dma_law [of p v "device s"] by (simp only: in_phase_def floppy_out_def) simp
  then show ?thesis using s by (simp add: floppy_dma_init_def Let_def dma_writes_def)
qed

lemma checks_phase: "in_phase P s \<Longrightarrow> in_phase P (snd (run_checks cs e s))"
  by (induction cs e s rule: run_checks.induct) (simp_all add: say_phase)

lemma track_error_leads: "in_phase P s \<Longrightarrow> leads (\<lambda>(e, s'). in_phase P s') (track_error st s)"
  using checks_phase [of P s "track_checks (st ! 0) (st ! 1) (st ! 2) (st ! 6)" 0]
  by (cases "run_checks (track_checks (st ! 0) (st ! 1) (st ! 2) (st ! 6)) 0 s") (auto simp: track_error_def Let_def)

lemma track_leads:
  "at_rest s \<and> n \<noteq> 0 \<or> in_phase idle_phase s \<Longrightarrow> leads (\<lambda>(r, s'). at_rest s') (floppy_do_track_loop hw n 0x3F0 cyl dir a s)"
proof (induction n arbitrary: s)
  case 0
  then show ?case using motor_off_rest say_phase by simp
next
  case (Suc n)
  let ?s = "floppy_motor hw 0x3F0 floppy_motor_on s"
  let ?cmd = "[track_command dir, 0, ucast cyl, 0, 1, 2, 18, 0x1B, 0xFF]"
  have "in_phase idle_phase ?s"
    using Suc.prems motor_on_rest motor_on_stays by blast
  then obtain sought where s: "in_phase (\<lambda>p. p = Taking sought []) ?s" by (auto simp: in_phase_def idle_phase_def)
  have op: "known_command (track_command dir)" "command_length (track_command dir) = 9" "track_command dir \<noteq> 8"
    "track_command dir \<noteq> 3" "\<not> positions_head (track_command dir)"
    by (cases dir; simp add: known_command_def command_length_def command_code_def positions_head_def CMD_READ_DATA_def
      CMD_WRITE_DATA_def)+
  have t: "take_byte sought (butlast ([] @ ?cmd)) (last ([] @ ?cmd)) = Executing (track_command dir)"
    using op by (simp add: take_byte_def Let_def)
  have e: "executed (track_command dir) = Giving (Suc 6)" using op(5) by (simp add: executed_def)
  have seven: "(7 :: nat) = Suc 6" by simp
  have "?cmd \<noteq> []" "known_command (hd ([] @ ?cmd))" "length ([] @ ?cmd) = command_length (hd ([] @ ?cmd))"
    using op by simp_all
  note w = cmds_lead [OF this, of sought, unfolded t]
  show ?case unfolding floppy_do_track_loop.simps(2) seven
  proof (rule leads_bind [OF dma_phase [OF s]], rule leads_bind [OF w], assumption, rule leads_bind [OF wait_leads], assumption,
      unfold e, rule leads_bind [OF results_lead], assumption, clarsimp simp only: split_paired_all prod.case,
      rule leads_bind [OF track_error_leads], assumption, clarsimp simp only: split_paired_all prod.case)
    fix e :: int and s'
    assume "in_phase idle_phase s'"
    then have q: "in_phase idle_phase s'" by (auto simp: in_phase_def)
    then show "leads (\<lambda>(r, s'). at_rest s') (if e = 0 then Done (0, floppy_motor hw 0x3F0 floppy_motor_off s')
      else if e > 1 then
        Done (- 2, floppy_motor hw 0x3F0 floppy_motor_off (floppy_say (Msg ''floppy_do_sector: not retrying..'') s'))
      else floppy_do_track_loop hw n 0x3F0 cyl dir a s')"
      using Suc.IH motor_off_rest by (simp add: say_phase)
  qed
qed

lemma seek_rests: "at_rest s \<Longrightarrow> leads (\<lambda>(r, s'). at_rest s') (floppy_seek hw 0x3F0 cyli head s)"
  unfolding floppy_seek_def by (rule seek_leads [OF motor_on_rest])

lemma do_track_leads: "at_rest s \<Longrightarrow> leads (\<lambda>(r, s'). at_rest s') (floppy_do_track hw 0x3F0 cyl dir a s)"
  unfolding floppy_do_track_def
  by (intro leads_bind [OF seek_rests]) (auto intro!: leads_bind [OF seek_rests] track_leads)

end


text \<open>Hardware that never becomes ready.\<close>

definition dead_hardware :: "unit floppy_hardware" where
  "dead_hardware = \<lparr>inportb = (\<lambda>p d. (0, d)), outportb = (\<lambda>p v d. d), run_to_irq = Some, fetch = (\<lambda>a d. 0)\<rparr>"

definition idle_floppy :: "'d \<Rightarrow> 'd floppy_state" where
  "idle_floppy d = \<lparr>device = d, s_floppy_irq = False, floppy_motor_ticks = 0, floppy_motor_state = 0, flog = []\<rparr>"

subsection \<open>Status decoding\<close>

lemma run_checks_Cons:
  "run_checks ((b, msg, e) # cs) error s =
     run_checks cs (if b then e else error) (if b then floppy_say msg s else s)"
  by (cases b) auto

lemma fst_run_checks:
  "fst (run_checks cs error s) = foldl (\<lambda>err (b, msg, e). if b then e else err) error cs"
  by (induction cs error s rule: run_checks.induct) auto

lemma and_or_zero: "(x :: u8) AND (a OR b) = 0 \<longleftrightarrow> x AND a = 0 \<and> x AND b = 0"
  by (simp add: bit.conj_disj_distrib or_eq_0_iff)

text \<open>The result of a transfer attempt: 2 for a write-protected disk, 0 exactly when none of the
  error bits is set in the three status bytes and the sector size is the programmed one, 1
  otherwise; the shift in the message for an odd sector size is undefined for sizes of 25 and more.\<close>

theorem track_error_decodes:
  "(case track_error [st0, st1, st2, rcy, rhe, rse, bps] s of
      Done (error, s') \<Rightarrow> error =
        (if st1 AND 0x02 \<noteq> 0 then 2
         else if st0 AND 0xC8 = 0 \<and> st1 AND 0xB5 = 0 \<and> st2 AND 0x77 = 0 \<and> bps = 2 then 0 else 1)
    | Fault e \<Rightarrow> e = UndefinedBehaviour \<and> 25 \<le> unat bps
    | Diverges \<Rightarrow> False)"
proof (cases "bps \<noteq> 2 \<and> 32 \<le> unat bps + 7")
  case False
  have split: "0xC8 = (0xC0 OR 0x08 :: u8)" "0xB5 = (0x80 OR (0x20 OR (0x10 OR (0x04 OR 0x01))) :: u8)"
    "0x77 = (0x40 OR (0x20 OR (0x10 OR (0x04 OR (0x02 OR 0x01)))) :: u8)"
    by simp_all
  obtain error s' where r: "run_checks (track_checks st0 st1 st2 bps) 0 s = (error, s')" by fastforce
  then have "error = foldl (\<lambda>err (b, msg, e). if b then e else err) 0 (track_checks st0 st1 st2 bps)"
    using fst_run_checks [of "track_checks st0 st1 st2 bps" 0 s] by simp
  also have "\<dots> = (if st1 AND 0x02 \<noteq> 0 then 2
         else if st0 AND 0xC8 = 0 \<and> st1 AND 0xB5 = 0 \<and> st2 AND 0x77 = 0 \<and> bps = 2 then 0 else 1)"
    unfolding split and_or_zero track_checks_def
    by (simp add: bit.conj_disj_distrib2 or_eq_0_iff)
  finally show ?thesis using False r by (simp add: track_error_def numeral_2_eq_2 [symmetric])
qed (auto simp: track_error_def)

subsection \<open>DMA set-up\<close>

lemma floppy_out_fold:
  "foldl (\<lambda>s (p, v). floppy_out hw p v s) s ws = s\<lparr>device := outportbs hw ws (device s)\<rparr>"
  by (induction ws arbitrary: s) (auto simp: floppy_out_def)

lemma unat_drop_bit_u32: "unat (drop_bit n (x :: u32)) = unat x div 2 ^ n"
  using unat_drop_bit_eq [of n x] by (simp only: drop_bit_eq_div [where 'a = nat])

lemma drop_bit_u32_zero: "drop_bit n (x :: u32) = 0 \<longleftrightarrow> unat x < 2 ^ n"
  by (simp only: unat_eq_zero [symmetric] unat_drop_bit_u32 div_eq_0_iff) simp

lemma unat_byte_of: "unat (byte_of i x) = unat x div 2 ^ (8 * i) mod 256"
  unfolding byte_of_def by (simp only: unsigned_ucast_eq take_bit_eq_mod unat_drop_bit_u32) simp

lemma dma_writes_eq:
  "dma_writes dir a =
     [(0x0A, 0x06), (0x0C, 0xFF), (0x04, byte_of 0 a), (0x04, byte_of 1 a), (0x81, byte_of 2 a),
      (0x0C, 0xFF), (0x05, 0xFF), (0x05, 0x47), (0x0B, dma_mode dir), (0x0A, 0x02)]"
  by (simp add: dma_writes_def FLOPPY_DMALEN_def byte_of_def)

text \<open>DMA is set up exactly when the block lies below 16 MiB and in one 64 KiB page, and then the
  address written to the controller's registers is the block's and the count is its length minus
  one; otherwise the driver panics.\<close>

theorem dma_init_programs_block:
  "floppy_dma_init hw dir a s =
     (if unat a < 2 ^ 24 \<and> unat a mod 0x10000 + 0x4800 \<le> 0x10000
      then Done (s\<lparr>device := outportbs hw
        [(0x0A, 0x06), (0x0C, 0xFF), (0x04, byte_of 0 a), (0x04, byte_of 1 a), (0x81, byte_of 2 a),
         (0x0C, 0xFF), (0x05, 0xFF), (0x05, 0x47), (0x0B, dma_mode dir), (0x0A, 0x02)] (device s)\<rparr>)
      else Fault (Panic ''floppy_dma_init: static buffer problem'')) \<and>
   (unat a < 2 ^ 24 \<longleftrightarrow>
      unat (byte_of 0 a) + 256 * unat (byte_of 1 a) + 65536 * unat (byte_of 2 a) = unat a)"
proof
  have c: "FLOPPY_DMALEN - 1 = 0x47FF" by (simp add: FLOPPY_DMALEN_def)
  have top: "drop_bit 24 a = 0 \<longleftrightarrow> unat a < 2 ^ 24"
    by (rule drop_bit_u32_zero)
  have low: "unat (a AND 0xFFFF) = unat a mod 0x10000"
  proof -
    have "a AND 0xFFFF = take_bit 16 a" by (simp add: take_bit_eq_mask mask_eq_exp_minus_1)
    moreover have "unat (take_bit 16 a) = take_bit 16 (unat a)" by (rule unsigned_take_bit_eq)
    ultimately show ?thesis by (simp add: take_bit_eq_mod)
  qed
  have "unat ((a AND 0xFFFF) + 0x47FF) = unat a mod 0x10000 + 0x47FF"
    by (subst unat_u32_add) (simp_all add: low)
  then have page: "drop_bit 16 ((a AND 0xFFFF) + 0x47FF) = 0 \<longleftrightarrow> unat a mod 0x10000 + 0x4800 \<le> 0x10000"
    unfolding drop_bit_u32_zero by auto
  show "floppy_dma_init hw dir a s = (if unat a < 2 ^ 24 \<and> unat a mod 0x10000 + 0x4800 \<le> 0x10000
      then Done (s\<lparr>device := outportbs hw
        [(0x0A, 0x06), (0x0C, 0xFF), (0x04, byte_of 0 a), (0x04, byte_of 1 a), (0x81, byte_of 2 a),
         (0x0C, 0xFF), (0x05, 0xFF), (0x05, 0x47), (0x0B, dma_mode dir), (0x0A, 0x02)] (device s)\<rparr>)
      else Fault (Panic ''floppy_dma_init: static buffer problem''))"
    unfolding floppy_dma_init_def Let_def c dma_writes_eq [symmetric] floppy_out_fold
    using top page by (cases "unat a < 2 ^ 24 \<and> unat a mod 0x10000 + 0x4800 \<le> 0x10000")
      (simp_all only: de_Morgan_conj, auto)
next
  show "unat a < 2 ^ 24 \<longleftrightarrow>
      unat (byte_of 0 a) + 256 * unat (byte_of 1 a) + 65536 * unat (byte_of 2 a) = unat a"
  proof -
    have "unat a mod 2 ^ 24 = 256 * (unat a div 256 mod 65536) + unat a mod 256"
      using mod_mult2_eq [of "unat a" 256 65536] by simp
    moreover have "unat a div 256 mod 65536 = 256 * (unat a div 65536 mod 256) + unat a div 256 mod 256"
      using mod_mult2_eq [of "unat a div 256" 256 256] by (simp add: div_mult2_eq [symmetric])
    ultimately have "unat (byte_of 0 a) + 256 * unat (byte_of 1 a) + 65536 * unat (byte_of 2 a) = unat a mod 2 ^ 24"
      by (simp add: unat_byte_of)
    then show ?thesis by (metis mod_less mod_less_divisor zero_less_numeral zero_less_power)
  qed
qed

subsection \<open>The buffer of a drive\<close>

lemma pool_try_aligned:
  assumes "pool_wf p" and "unat pages < 0x80000000" and "16 dvd frames p"
    and "pool_try pages 16 p = Done (Some (addr, p'))"
  obtains x where "x < frames p" and "x + unat pages \<le> frames p" and "addr = address_of p (word_of_nat x)"
    and "16 dvd x"
proof -
  let ?i = "align_index 16 (prev_idx p) 0"
  from pool_try_result [of p pages 16] assms obtain c x where
    c: "candidate p 16 (unat ?i) c"
    and x: "x = (unat (prev_idx p) + c) mod frames p"
    and r: "x + unat pages \<le> frames p" "addr = address_of p (word_of_nat x)"
    unfolding scan_result_def by (auto split: if_splits)
  have "unat ((?i + prev_idx p) mod 16) = 0" by (simp only: align_index_aligned) simp
  then have "(unat ?i + unat (prev_idx p)) mod 4294967296 mod 16 = 0"
    by (simp only: unat_mod unat_word_ariths) simp
  then have "16 dvd unat (prev_idx p) + unat ?i"
    by (simp add: mod_mod_cancel add.commute mod_0_imp_dvd)
  moreover obtain k where "c = unat ?i + k * 16" using c by (auto simp: candidate_def)
  ultimately have "16 dvd unat (prev_idx p) + c" by (simp add: add.assoc [symmetric])
  then have "16 dvd x" using assms(3) by (simp add: x dvd_mod)
  moreover have "x < frames p" using c by (auto simp: x candidate_def)
  ultimately show thesis using that r by blast
qed

text \<open>A block from the DMA pool alone, when the pool's size is a multiple of 64 KiB.\<close>

lemma dma_alloc_aligned:
  assumes "phys_inv p" and "16 dvd frames (pools p DMAPool)" and "unat pages < 0x80000000"
    and "physical_alloc_dma pages 16 p = Done (addr, p')" and "addr \<noteq> 0"
  shows "16 dvd page_of addr" and "page_of addr + unat pages \<le> frames (pools p DMAPool)"
    and "allocates p pages addr p'"
proof -
  have a: "pool_alloc pages 16 DMAPool p = Done (addr, p')"
    using assms(4,5) by (auto simp: physical_alloc_dma_def log_if_zero_def split: if_splits)
  then obtain r where r: "pool_try pages 16 (pools p DMAPool) = Done r"
    by (subst (asm) pool_alloc.simps) auto
  have "r \<noteq> None"
  proof
    assume "r = None"
    then have "pool_alloc pages 16 DMAPool p = Done (0, p)"
      using r pool_alloc_none [of pages 16 p DMAPool] by simp
    then show False using a assms(5) by simp
  qed
  then obtain z where "r = Some z" by blast
  then obtain b q where b: "pool_try pages 16 (pools p DMAPool) = Done (Some (b, q))"
    using r by (cases z) simp
  then have eq: "b = addr" "p' = set_pool DMAPool q p" using a by (auto simp: pool_alloc_some)
  obtain x where x: "x < frames (pools p DMAPool)" "x + unat pages \<le> frames (pools p DMAPool)"
    "b = address_of (pools p DMAPool) (word_of_nat x)" "16 dvd x"
    using pool_try_aligned [OF phys_inv_pool(1) [OF assms(1)] assms(3,2) b] by blast
  have "page_of addr = x" using page_of_address(1) [OF assms(1) x(1)] x(3) eq(1) by simp
  then show "16 dvd page_of addr" "page_of addr + unat pages \<le> frames (pools p DMAPool)" using x by auto
  show "allocates p pages addr p'"
    using pool_try_allocates [OF assms(1,3) _ _ b] by (simp add: eq)
qed

lemma unat_page_less:
  "unat a = 4096 * page_of a \<Longrightarrow> 16 dvd page_of a \<Longrightarrow> page_of a + n \<le> 0x1000 \<Longrightarrow> 0 < n \<Longrightarrow>
     unat a < 2 ^ 24 \<and> unat a mod 0x10000 + 0x4800 \<le> 0x10000"
proof -
  assume a: "unat a = 4096 * page_of a" "16 dvd page_of a" "page_of a + n \<le> 0x1000" "0 < n"
  then obtain k where "page_of a = 16 * k" by (auto elim: dvdE)
  then have "unat a = 0x10000 * k" using a(1) by simp
  then have "unat a mod 0x10000 = 0" by simp
  then show ?thesis using a by simp
qed

text \<open>C31: A drive object whose cylinder buffer was allocated passes the DMA checks: the buffer is a run
  of free pages below 16 MiB, aligned to 64 KiB. A 1.44 MB drive's buffer holds all of the 0x4800
  bytes every transfer moves; a 1.2 MB drive's buffer does not, so that its transfers overwrite a
  page behind it.\<close>

theorem floppy_buffer_fits_dma:
  assumes "mm_inv p" and "16 dvd frames (pools p DMAPool)" and "frames (pools p DMAPool) \<le> 0x1000"
    and "ty \<in> {FloppyDrive1_2M, FloppyDrive1_44M}"
    and "new_FloppyDrive idx ty iob p = Done (dr, p')" and "cyl_cache dr \<noteq> 0"
  shows "(\<exists>s'. floppy_dma_init hw dir (cyl_cache_physical dr) s = Done s') \<and>
     (block_pages (cyl_cache_physical dr) 5 \<subseteq> used_pages p' - used_pages p \<longleftrightarrow> ty = FloppyDrive1_44M)"
proof -
  define pages where "pages = calc_required_page_count (cyl_size ty)"
  have pages: "unat pages = (if ty = FloppyDrive1_44M then 5 else 4)"
    using assms(4) unfolding pages_def calc_required_page_count_unat
    by (auto simp: cyl_size_def sectors_per_cyl_def floppy_block_size_def FloppyDrive1_2M_def FloppyDrive1_44M_def)
  have inv: "phys_inv p" using assms(1) by (simp add: mm_inv_def)
  obtain addr where addr: "physical_alloc_dma pages 16 p = Done (addr, p')" "addr \<noteq> 0"
    "cyl_cache_physical dr = addr"
    using assms(5,6) unfolding new_FloppyDrive_def mm_alloc_pages_dma_def pages_def [symmetric]
    by (auto split: if_splits)
  have small: "unat pages < 0x80000000" using pages by simp
  note al = dma_alloc_aligned [OF inv assms(2) small addr(1,2)]
  have new: "used_pages p' - used_pages p = block_pages addr (unat pages)"
    using al(3) by (auto simp: allocates_def marks_def block_pages_def)
  have "unat addr < 2 ^ 24 \<and> unat addr mod 0x10000 + 0x4800 \<le> 0x10000"
    using al(1,2,3) assms(3) pages by (intro unat_page_less [of _ "unat pages"]) (auto simp: allocates_def split: if_splits)
  then have "\<exists>s'. floppy_dma_init hw dir addr s = Done s'"
    using dma_init_programs_block [of hw dir addr s] by simp
  moreover have "block_pages addr 5 \<subseteq> block_pages addr (unat pages) \<longleftrightarrow> ty = FloppyDrive1_44M"
    using pages by (auto simp: block_pages_def)
  ultimately show ?thesis unfolding addr(3) new by blast
qed

definition sample_dma_physical :: physical where
  "sample_dma_physical = \<lparr>pools = (\<lambda>pid. case pid of
       DMAPool \<Rightarrow> \<lparr>base = 0, num_pageframes = 32, prev_idx = 1, bitmap_addr = 0, bitmap = 1 # replicate 31 0\<rparr>
     | DefaultPool \<Rightarrow> \<lparr>base = 0x20000, num_pageframes = 0, prev_idx = 0, bitmap_addr = 16, bitmap = []\<rparr>
     | HiMemPool \<Rightarrow> \<lparr>base = 0x20000, num_pageframes = 0, prev_idx = 0, bitmap_addr = 24, bitmap = []\<rparr>),
     plog = []\<rparr>"

lemma sample_dma_inv: "mm_inv sample_dma_physical"
proof -
  have "pool_wf (pools sample_dma_physical pid) \<and>
      unat (base (pools sample_dma_physical pid)) = 4096 * first_page sample_dma_physical pid" for pid
    by (cases pid) (simp_all add: sample_dma_physical_def pool_wf_def frames_def)
  moreover have "0 \<in> used_pages sample_dma_physical"
    using mem_used_pages [of 0 sample_dma_physical DMAPool] by (simp add: sample_dma_physical_def frames_def)
  ultimately show ?thesis
    by (simp add: mm_inv_def phys_inv_def total_pages_def) (simp add: sample_dma_physical_def frames_def)
qed

lemma sample_dma_alloc: "\<exists>p'. physical_alloc_dma 5 16 sample_dma_physical = Done (0x10000, p')"
proof -
  let ?p = "\<lparr>base = 0, num_pageframes = 32, prev_idx = 1, bitmap_addr = 0, bitmap = 1 # replicate 31 0\<rparr>"
  have p: "pools sample_dma_physical DMAPool = ?p" by (simp add: sample_dma_physical_def)
  have five: "unat (5 :: u32) = Suc (Suc (Suc (Suc (Suc 0))))" by simp
  have ai: "align_index 16 1 0 = 15"
    by (subst align_index.simps, simp)+
  have "run_free ?p 15 (unat (5 :: u32)) 0 = Done True"
    unfolding five by (simp add: status_def)
  moreover have "\<exists>q. take_run 5 15 ?p = Done (Some (0x10000, q))"
    unfolding take_run_def five by (simp add: set_status_def address_of_def PAGE_SIZE_def)
  ultimately have "\<exists>q. pool_try 5 16 (pools sample_dma_physical DMAPool) = Done (Some (0x10000, q))"
    unfolding pool_try_def p by (subst scan.simps) (simp add: ai)
  then obtain q where q: "pool_try 5 16 (pools sample_dma_physical DMAPool) = Done (Some (0x10000, q))" ..
  then show ?thesis
    by (intro exI [of _ "set_pool DMAPool q sample_dma_physical"])
      (simp add: physical_alloc_dma_def log_if_zero_def pool_alloc_some)
qed

theorem floppy_buffer_fits_dma_witness:
  "\<exists>dr p'. new_FloppyDrive 0 FloppyDrive1_44M 0x3F0 sample_dma_physical = Done (dr, p') \<and>
     (\<exists>s'. floppy_dma_init dead_hardware floppy_dir_read (cyl_cache_physical dr) (idle_floppy ()) = Done s')"
proof -
  obtain p' where "physical_alloc_dma 5 16 sample_dma_physical = Done (0x10000, p')"
    using sample_dma_alloc by blast
  then obtain dr where n: "new_FloppyDrive 0 FloppyDrive1_44M 0x3F0 sample_dma_physical = Done (dr, p')"
    "cyl_cache dr \<noteq> 0"
    by (simp add: new_FloppyDrive_def mm_alloc_pages_dma_def cyl_size_def sectors_per_cyl_def
      floppy_block_size_def calc_required_page_count_def PAGE_SIZE_def FloppyDrive1_44M_def
      FloppyDrive1_2M_def kernel_physical_to_virtual_def KERNEL_VIRTUAL_BASE_def)
  have "16 dvd frames (pools sample_dma_physical DMAPool)" "frames (pools sample_dma_physical DMAPool) \<le> 0x1000"
    by (simp_all add: sample_dma_physical_def frames_def)
  then show ?thesis
    using floppy_buffer_fits_dma [OF sample_dma_inv _ _ _ n] n(1) by blast
qed

subsection \<open>Reading blocks\<close>

text \<open>A block read that fails marks its cylinder as cached all the same. The next read of any block
  of that cylinder returns true without asking the controller, with whatever the buffer holds.\<close>

theorem failed_read_serves_stale:
  assumes "floppy_read_block hw block (dr, s) = Done (None, dr', s')"
    and "block' div sectors_per_cyl (drive_type dr) = block div sectors_per_cyl (drive_type dr)"
  shows "floppy_read_block hw block' (dr', s') =
     Done (Some (map (\<lambda>i. fetch hw (cyl_cache dr +
         (block' mod sectors_per_cyl (drive_type dr)) * floppy_block_size + word_of_nat i) (device s')) [0..<512]), dr', s')"
proof -
  let ?spc = "sectors_per_cyl (drive_type dr)"
  have spc: "?spc \<noteq> 0" using assms(1) by (auto simp: floppy_read_block_def Let_def)
  then obtain error where "load_cylinder hw (block div ?spc) (dr, s) = Done (error, dr', s')" "error \<noteq> 0"
    using assms(1) by (auto simp: floppy_read_block_def Let_def split: if_splits)
  then have "dr' = dr\<lparr>cached_cyl_index := block div ?spc\<rparr>"
    by (auto simp: load_cylinder_def split: if_splits)
  then show ?thesis using spc assms(2) by (simp add: floppy_read_block_def load_cylinder_def Let_def)
qed

text \<open>
  A cylinder of the image is in the buffer; and what a working controller does: every cylinder
  transfer into the buffer succeeds and leaves the cylinder there.
\<close>

definition cylinder_loaded ::
    "('d, 'z) floppy_hardware_scheme \<Rightarrow> u32 \<Rightarrow> image \<Rightarrow> u32 \<Rightarrow> 'd floppy_state \<Rightarrow> bool" where
  "cylinder_loaded hw cache img c s \<longleftrightarrow>
     (\<forall>k < 36. \<forall>i < 512. fetch hw (cache + k * 512 + word_of_nat i) (device s) = img (c * 36 + k) ! i)"

definition reads_cylinders ::
    "('d, 'z) floppy_hardware_scheme \<Rightarrow> u16 \<Rightarrow> u32 \<Rightarrow> u32 \<Rightarrow> image \<Rightarrow> ('d floppy_state \<Rightarrow> bool) \<Rightarrow> bool" where
  "reads_cylinders hw iob phys cache img J \<longleftrightarrow>
     (\<forall>c s. c < 80 \<longrightarrow> J s \<longrightarrow> (\<exists>s'. floppy_do_track hw iob c floppy_dir_read phys s = Done (0, s') \<and> J s' \<and>
        cylinder_loaded hw cache img c s'))"

definition floppy_ready ::
    "('d, 'z) floppy_hardware_scheme \<Rightarrow> image \<Rightarrow> ('d floppy_state \<Rightarrow> bool) \<Rightarrow> FloppyDrive \<Rightarrow>
     FloppyDrive \<times> 'd floppy_state \<Rightarrow> bool" where
  "floppy_ready hw img J dr0 = (\<lambda>(dr, s). J s \<and>
     dr\<lparr>cached_cyl_index := 0\<rparr> = dr0\<lparr>cached_cyl_index := 0\<rparr> \<and>
     (cached_cyl_index dr < 80 \<longrightarrow> cylinder_loaded hw (cyl_cache dr) img (cached_cyl_index dr) s))"

lemma floppy_ready_drive:
  "floppy_ready hw img J dr0 (dr, s) \<Longrightarrow> drive_type dr = drive_type dr0 \<and> controller_base dr = controller_base dr0 \<and>
     cyl_cache dr = cyl_cache dr0 \<and> cyl_cache_physical dr = cyl_cache_physical dr0"
  by (cases dr; cases dr0) (simp add: floppy_ready_def)

lemma floppy_ready_load:
  assumes "reads_cylinders hw (controller_base dr0) (cyl_cache_physical dr0) (cyl_cache dr0) img J"
    and "floppy_ready hw img J dr0 (dr, s)" and "c < 80"
  obtains dr' s' where "load_cylinder hw c (dr, s) = Done (0, dr', s')" "floppy_ready hw img J dr0 (dr', s')"
    "cached_cyl_index dr' = c"
proof (cases "c = cached_cyl_index dr")
  case True
  then show thesis using that assms(2) by (simp add: load_cylinder_def)
next
  case False
  note d = floppy_ready_drive [OF assms(2)]
  obtain s' where "floppy_do_track hw (controller_base dr) c floppy_dir_read (cyl_cache_physical dr) s = Done (0, s')"
    "J s'" "cylinder_loaded hw (cyl_cache dr) img c s'"
    using assms d unfolding reads_cylinders_def floppy_ready_def by auto
  then show thesis
    using that [of "dr\<lparr>cached_cyl_index := c\<rparr>" s'] False assms(2)
    by (simp add: load_cylinder_def read_cyl_def floppy_ready_def)
qed

lemma floppy_ready_read_block:
  assumes "reads_cylinders hw (controller_base dr0) (cyl_cache_physical dr0) (cyl_cache dr0) img J"
    and "drive_type dr0 = FloppyDrive1_44M" and "\<And>s. length (img s) = 512"
    and "floppy_ready hw img J dr0 d" and "b < 2880"
  obtains d' where "floppy_read_block hw b d = Done (Some (img b), d')" "floppy_ready hw img J dr0 d'"
proof -
  obtain dr s where d: "d = (dr, s)" by (cases d)
  have spc: "sectors_per_cyl (drive_type dr) = 36"
    using floppy_ready_drive [of hw img J dr0 dr s] assms(2,4)
    by (simp add: d sectors_per_cyl_def FloppyDrive1_44M_def FloppyDrive1_2M_def)
  have "unat (b div 36) < 80" using assms(5) by (simp add: unat_div word_less_nat_alt)
  then have c: "b div 36 < 80" by (simp add: word_less_nat_alt)
  obtain dr' s' where l: "load_cylinder hw (b div 36) (dr, s) = Done (0, dr', s')"
    "floppy_ready hw img J dr0 (dr', s')" "cached_cyl_index dr' = b div 36"
    using floppy_ready_load [OF assms(1) assms(4) [unfolded d] c] by blast
  have "cyl_cache dr' = cyl_cache dr" using floppy_ready_drive l(2) assms(4) unfolding d by metis
  moreover have "b mod 36 < 36" by (simp add: word_mod_less_divisor)
  moreover have "b div 36 * 36 + b mod 36 = b" by (rule word_mod_div_equality)
  ultimately have "map (\<lambda>i. fetch hw (cyl_cache dr + (b mod 36) * 512 + word_of_nat i) (device s')) [0..<512] = img b"
    using l(2,3) c assms(3) by (intro nth_equalityI) (auto simp: floppy_ready_def cylinder_loaded_def)
  then show thesis
    using that l(1,2) by (simp add: floppy_read_block_def d spc Let_def floppy_block_size_def)
qed

lemma floppy_ready_read_loop:
  assumes "reads_cylinders hw (controller_base dr0) (cyl_cache_physical dr0) (cyl_cache dr0) img J"
    and "drive_type dr0 = FloppyDrive1_44M" and "\<And>s. length (img s) = 512"
    and "floppy_ready hw img J dr0 d" and "unat b + n \<le> 2880" and "pos + 512 * n = length buf"
  shows "\<exists>d'. floppy_read_loop hw n b pos buf d = Done (True, take pos buf @ image_range img b n, d') \<and>
     floppy_ready hw img J dr0 d'"
  using assms(4-6)
proof (induction n arbitrary: b pos buf d)
  case (Suc n)
  then have "b < 2880" by (simp add: word_less_nat_alt)
  then obtain d1 where d1: "floppy_read_block hw b d = Done (Some (img b), d1)" "floppy_ready hw img J dr0 d1"
    using floppy_ready_read_block [OF assms(1-3) Suc.prems(1)] by blast
  let ?buf = "take pos buf @ img b @ drop (pos + 512) buf"
  have pos: "pos + 512 \<le> length buf" using Suc.prems by simp
  have "unat (b + 1) = Suc (unat b)" using \<open>b < 2880\<close> by (rule unat_u32_Suc_below)
  then have "\<exists>d'. floppy_read_loop hw n (b + 1) (pos + 512) ?buf d1 =
      Done (True, take (pos + 512) ?buf @ image_range img (b + 1) n, d') \<and> floppy_ready hw img J dr0 d'"
    using Suc.prems pos assms(3) by (intro Suc.IH d1(2)) auto
  moreover have "take (pos + 512) ?buf = take pos buf @ img b" using pos assms(3) by simp
  ultimately show ?case using pos by (auto simp: d1(1))
qed simp

lemma floppy_serves:
  assumes "reads_cylinders hw (controller_base dr0) (cyl_cache_physical dr0) (cyl_cache dr0) img J"
    and "drive_type dr0 = FloppyDrive1_44M" and "\<And>s. length (img s) = 512"
  shows "serves_image (floppy_device hw) 2880 img (floppy_ready hw img J dr0)"
proof -
  have "\<exists>d'. floppy_read hw first count buf d = Done (True, image_range img first (unat count), d') \<and>
      floppy_ready hw img J dr0 d'"
    if "floppy_ready hw img J dr0 d" "length buf = 512 * unat count" "unat first + unat count \<le> 2880"
    for first count buf d
    using floppy_ready_read_loop [OF assms that(1,3), of 0 buf] that(2) by (simp add: floppy_read_def)
  then show ?thesis using assms(3) by (simp add: serves_image_def floppy_device_def)
qed

end
