(* ===== verification/Fdc.thy ===== *)
theory Fdc
  imports Floppy
begin

text \<open>
  The hardware behind the floppy driver, as its data sheets describe it: the 82077 floppy disk controller (the 8272 of
  the first PC behind the digital output register), channel 2 of the 8237 DMA controller, and a 1.44 MB disk in drive
  0. Nothing here is taken from \<^verbatim>\<open>src/floppy.cpp\<close>. Only what the sheets promise is given a meaning: where they
  promise nothing, as for a transfer with the motor off or with wrong parameters, \<open>fdc_answer\<close> is \<open>None\<close>.
\<close>

subsection \<open>The DMA channel\<close>

text \<open>
  Address and count are written as two bytes, the flip-flop says whether the next one is the high one. The page
  register holds the upper byte of the 24-bit address.
\<close>

record dma_channel =
  ch_high :: bool
  ch_address :: "u8 \<times> u8"
  ch_count :: "u8 \<times> u8"
  ch_mode :: u8
  ch_masked :: bool
  ch_page :: u8

definition set_half :: "bool \<Rightarrow> u8 \<Rightarrow> u8 \<times> u8 \<Rightarrow> u8 \<times> u8" where
  "set_half high b x = (if high then (fst x, b) else (b, snd x))"

definition pair_nat :: "u8 \<times> u8 \<Rightarrow> nat" where "pair_nat x = unat (fst x) + 256 * unat (snd x)"

definition channel_ports :: "u16 set" where "channel_ports = {0x04, 0x05, 0x0A, 0x0B, 0x0C, 0x81}"

text \<open>Ports 4 and 5 are address and count of channel 2, 0x0A masks a channel, 0x0B sets a mode, 0x0C clears the
  flip-flop; the low two bits of a mask or mode select the channel.\<close>

definition channel_out :: "u16 \<Rightarrow> u8 \<Rightarrow> dma_channel \<Rightarrow> dma_channel" where
  "channel_out p b ch =
     (if p = 0x04 then ch\<lparr>ch_address := set_half (ch_high ch) b (ch_address ch), ch_high := \<not> ch_high ch\<rparr>
      else if p = 0x05 then ch\<lparr>ch_count := set_half (ch_high ch) b (ch_count ch), ch_high := \<not> ch_high ch\<rparr>
      else if p = 0x0C then ch\<lparr>ch_high := False\<rparr>
      else if p = 0x0B then (if b AND 3 = 2 then ch\<lparr>ch_mode := b\<rparr> else ch)
      else if p = 0x0A then (if b AND 3 = 2 then ch\<lparr>ch_masked := (b AND 4 \<noteq> 0)\<rparr> else ch)
      else if p = 0x81 then ch\<lparr>ch_page := b\<rparr> else ch)"

text \<open>
  The channel takes bytes of the controller to memory when it is not masked and its mode is single transfer,
  upwards, write to memory; bit 4, initialisation after the last byte, may be set or not. The count is one less
  than the number of bytes. The address wraps within its page of 64 KiB.
\<close>

definition channel_to_memory :: "dma_channel \<Rightarrow> bool" where
  "channel_to_memory ch \<longleftrightarrow> \<not> ch_masked ch \<and> ch_mode ch AND 0xEF = 0x46"

definition channel_length :: "dma_channel \<Rightarrow> nat" where "channel_length ch = pair_nat (ch_count ch) + 1"

definition channel_store :: "dma_channel \<Rightarrow> u8 list \<Rightarrow> (u32 \<Rightarrow> u8) \<Rightarrow> u32 \<Rightarrow> u8" where
  "channel_store ch bs m x =
     (let i = (unat x + 0x10000 - pair_nat (ch_address ch)) mod 0x10000 in
      if unat x div 0x10000 = unat (ch_page ch) \<and> i < length bs then bs ! i else m x)"

definition channel_done :: "dma_channel \<Rightarrow> dma_channel" where
  "channel_done ch = (if ch_mode ch AND 0x10 \<noteq> 0 then ch
     else let n = pair_nat (ch_address ch) + channel_length ch in
       ch\<lparr>ch_address := (word_of_nat n, word_of_nat (n div 256)), ch_count := (0xFF, 0xFF), ch_masked := True\<rparr>)"

subsection \<open>The controller\<close>

text \<open>
  The digital output register, whether SPECIFY has switched DMA off, the bytes of a command given so far, the command
  being executed, the result bytes still to be read, whether a seek has finished and not been sensed, and the
  cylinder under the heads; and, beside the controller, the DMA channel and the memory.
\<close>

record fdc =
  fdc_dor :: u8
  fdc_no_dma :: bool
  fdc_command :: "u8 list"
  fdc_pending :: "u8 list"
  fdc_results :: "u8 list"
  fdc_sought :: bool
  fdc_cylinder :: u8
  fdc_dma :: dma_channel
  fdc_memory :: "u32 \<Rightarrow> u8"

text \<open>
  A byte at the data port. SENSE INTERRUPT is answered at once: by status 0 with the seek end bit and the
  cylinder after a seek, by the status of an invalid command otherwise. SPECIFY has no answer; the last bit of its
  third byte switches DMA off. Any other command is left pending.
\<close>

definition fdc_take :: "u8 \<Rightarrow> fdc \<Rightarrow> fdc" where
  "fdc_take b v = (let cmd = fdc_command v @ [b]; op = hd cmd in
     if length cmd < command_length op then v\<lparr>fdc_command := cmd\<rparr>
     else if op = 8 then
       (if fdc_sought v then v\<lparr>fdc_command := [], fdc_results := [0x20, fdc_cylinder v], fdc_sought := False\<rparr>
        else v\<lparr>fdc_command := [], fdc_results := [0x80]\<rparr>)
     else if op = 3 then v\<lparr>fdc_command := [], fdc_no_dma := (cmd ! 2 AND 1 \<noteq> 0)\<rparr>
     else v\<lparr>fdc_command := [], fdc_pending := cmd\<rparr>)"

text \<open>It takes the byte if it is not in reset, executes no command and has no result left to be read.\<close>

definition fdc_takes :: "u8 \<Rightarrow> fdc \<Rightarrow> bool" where
  "fdc_takes b v \<longleftrightarrow> fdc_dor v AND 0x04 \<noteq> 0 \<and> fdc_pending v = [] \<and> fdc_results v = [] \<and>
     known_command (hd (fdc_command v @ [b]))"

text \<open>
  READ DATA has the parameters drive and head, cylinder, head, first sector, sector size, last sector of the track,
  gap, data length. It reads the sectors of the track from the first to the last one, and with the multi-track flag
  goes on from head 0 to head 1 of the same cylinder. It ends with the terminal count of the DMA channel.
\<close>

definition track_sectors :: "bool \<Rightarrow> nat \<Rightarrow> nat \<Rightarrow> nat \<Rightarrow> (nat \<times> nat) list" where
  "track_sectors multi h r eot = map (Pair h) [r..<Suc eot] @ (if multi \<and> h = 0 then map (Pair 1) [1..<Suc eot] else [])"

definition read_sectors :: "u8 list \<Rightarrow> (nat \<times> nat) list" where
  "read_sectors cmd = track_sectors (cmd ! 0 AND 0x80 \<noteq> 0) (unat (cmd ! 3)) (unat (cmd ! 4)) (unat (cmd ! 6))"

text \<open>A 1.44 MB disk has 80 cylinders of two heads and 18 sectors of 512 bytes, the image has them in this order.\<close>

definition chs_sector :: "nat \<Rightarrow> nat \<times> nat \<Rightarrow> nat" where
  "chs_sector c x = (c * 2 + fst x) * 18 + (snd x - 1)"

definition sectors_bytes :: "image \<Rightarrow> nat \<Rightarrow> (nat \<times> nat) list \<Rightarrow> u8 list" where
  "sectors_bytes img c xs = concat (map (\<lambda>x. img (word_of_nat (chs_sector c x))) xs)"

text \<open>
  What a transfer needs: drive 0 selected with its motor on and DMA enabled, MFM, the cylinder under the heads, the
  head twice, sectors of 512 bytes that exist, and a DMA channel that takes no more bytes to memory than the sectors have.
\<close>

definition read_valid :: "u8 list \<Rightarrow> fdc \<Rightarrow> bool" where
  "read_valid cmd v \<longleftrightarrow>
     fdc_dor v AND 0x1F = 0x1C \<and> \<not> fdc_no_dma v \<and> cmd ! 0 AND 0x40 \<noteq> 0 \<and>
     cmd ! 1 AND 3 = 0 \<and> cmd ! 3 = drop_bit 2 (cmd ! 1) AND 1 \<and> cmd ! 2 = fdc_cylinder v \<and> unat (fdc_cylinder v) < 80 \<and>
     1 \<le> unat (cmd ! 4) \<and> unat (cmd ! 4) \<le> unat (cmd ! 6) \<and> unat (cmd ! 6) \<le> 18 \<and> cmd ! 5 = 2 \<and>
     channel_to_memory (fdc_dma v) \<and> channel_length (fdc_dma v) \<le> 512 * length (read_sectors cmd)"

text \<open>Its results: the status registers without an error, and where the next sector would be.\<close>

definition read_results :: "u8 list \<Rightarrow> nat \<times> nat \<Rightarrow> u8 list" where
  "read_results cmd x = (let c = cmd ! 2; h = word_of_nat (fst x) in
     [4 * h, 0, 0] @
     (if snd x < unat (cmd ! 6) then [c, h, word_of_nat (snd x) + 1]
      else if cmd ! 0 AND 0x80 \<noteq> 0 then [c + h, 1 - h, 1] else [c + 1, h, 1]) @ [2])"

definition read_done :: "image \<Rightarrow> u8 list \<Rightarrow> fdc \<Rightarrow> fdc" where
  "read_done img cmd v = (let n = channel_length (fdc_dma v); xs = read_sectors cmd in
     v\<lparr>fdc_pending := [], fdc_results := read_results cmd (xs ! ((n - 1) div 512)), fdc_dma := channel_done (fdc_dma v),
       fdc_memory := channel_store (fdc_dma v) (take n (sectors_bytes img (unat (cmd ! 2)) xs)) (fdc_memory v)\<rparr>)"

text \<open>
  The state at the interrupt that the pending command raises, where one is promised: out of reset, with interrupts and
  DMA enabled and drive 0 selected, for RECALIBRATE and SEEK to a cylinder of the disk, and for a valid READ DATA.
\<close>

definition fdc_answer :: "image \<Rightarrow> fdc \<Rightarrow> fdc option" where
  "fdc_answer img v =
     (case fdc_pending v of
        [] \<Rightarrow> None
      | op # args \<Rightarrow>
          if fdc_dor v AND 0x0F \<noteq> 0x0C then None
          else if op = 7 \<and> args ! 0 AND 3 = 0 then Some (v\<lparr>fdc_pending := [], fdc_cylinder := 0, fdc_sought := True\<rparr>)
          else if op = 15 \<and> args ! 0 AND 3 = 0 \<and> unat (args ! 1) < 80
          then Some (v\<lparr>fdc_pending := [], fdc_cylinder := args ! 1, fdc_sought := True\<rparr>)
          else if command_code op = 6 \<and> read_valid (op # args) v then Some (read_done img (op # args) v)
          else None)"

subsection \<open>What the hardware promises\<close>

text \<open>The main status register reports ready at one of the next \<open>n\<close> polls.\<close>

fun ready_within :: "('d, 'z) floppy_hardware_scheme \<Rightarrow> nat \<Rightarrow> 'd \<Rightarrow> bool" where
  "ready_within hw 0 d \<longleftrightarrow> False"
| "ready_within hw (Suc n) d \<longleftrightarrow> 0x80 AND fst (inportb hw 0x3F4 d) \<noteq> 0 \<or> ready_within hw n (snd (inportb hw 0x3F4 d))"

text \<open>
  The contract: \<open>view\<close> shows the hardware as the abstract controller. Out of reset and with no command pending it becomes
  ready in time (the driver polls for 60 seconds). It takes a byte at the data port and gives a result there when it
  may; the digital output register may be written when no command is pending and the write does not reset; the DMA ports
  set the channel; the index of the CMOS memory is not part of it. A pending command raises its interrupt where one is
  promised. The memory is what DMA wrote, at its kernel address.
\<close>

definition controller_obeys :: "('d, 'z) floppy_hardware_scheme \<Rightarrow> ('d \<Rightarrow> fdc) \<Rightarrow> image \<Rightarrow> bool" where
  "controller_obeys hw view img \<longleftrightarrow>
     (\<forall>d. fdc_dor (view d) AND 0x04 \<noteq> 0 \<longrightarrow> fdc_pending (view d) = [] \<longrightarrow> ready_within hw 600 d) \<and>
     (\<forall>p\<in>{0x3F4, 0x71}. \<forall>d. view (snd (inportb hw p d)) = view d) \<and>
     (\<forall>d r rs. fdc_pending (view d) = [] \<longrightarrow> fdc_results (view d) = r # rs \<longrightarrow>
        fst (inportb hw 0x3F5 d) = r \<and> view (snd (inportb hw 0x3F5 d)) = (view d)\<lparr>fdc_results := rs\<rparr>) \<and>
     (\<forall>b d. fdc_takes b (view d) \<longrightarrow> view (outportb hw 0x3F5 b d) = fdc_take b (view d)) \<and>
     (\<forall>b d. fdc_pending (view d) = [] \<longrightarrow> fdc_dor (view d) AND 0x04 \<noteq> 0 \<longrightarrow> b AND 0x04 \<noteq> 0 \<longrightarrow>
        view (outportb hw 0x3F2 b d) = (view d)\<lparr>fdc_dor := b\<rparr>) \<and>
     (\<forall>p\<in>channel_ports. \<forall>b d. view (outportb hw p b d) = (view d)\<lparr>fdc_dma := channel_out p b (fdc_dma (view d))\<rparr>) \<and>
     (\<forall>b d. view (outportb hw 0x70 b d) = view d) \<and>
     (\<forall>d v. fdc_answer img (view d) = Some v \<longrightarrow> (\<exists>d'. run_to_irq hw d = Some d' \<and> view d' = v)) \<and>
     (\<forall>a d. fetch hw (kernel_physical_to_virtual a) d = fdc_memory (view d) a)"

end
