(* ===== verification/Controller.thy ===== *)
theory Controller
  imports Fdc
begin

text \<open>
  The driver of \<^verbatim>\<open>src/floppy.cpp\<close> on the hardware of \<open>Fdc\<close>: every cylinder transfer succeeds and leaves the cylinder
  in the buffer, so that the drive serves the disk.
\<close>

subsection \<open>The commands of the driver\<close>

text \<open>\<open>s'\<close> is \<open>s\<close> after the driver has used the controller, which looks like \<open>v\<close> now.\<close>

definition drove :: "('d \<Rightarrow> fdc) \<Rightarrow> 'd floppy_state \<Rightarrow> fdc \<Rightarrow> 'd floppy_state \<Rightarrow> bool" where
  "drove view s v s' \<longleftrightarrow> s' = s\<lparr>device := device s'\<rparr> \<and> view (device s') = v"

lemma drove_view: "drove view s v s' \<Longrightarrow> view (device s') = v"
  by (simp add: drove_def)

lemma drove_trans: "drove view s v s1 \<Longrightarrow> drove view s1 w s2 \<Longrightarrow> drove view s w s2"
  by (cases s; cases s1; cases s2) (simp add: drove_def)

lemma drove_device: "drove view s (view d) (s\<lparr>device := d\<rparr>)"
  by (cases s) (simp add: drove_def)

lemma drove_refl: "drove view s (view (device s)) s"
  by (cases s) (simp add: drove_def)

lemma drove_keeps: "drove view s v s' \<Longrightarrow> flog s' = flog s \<and> floppy_motor_state s' = floppy_motor_state s \<and>
    s_floppy_irq s' = s_floppy_irq s"
  by (cases s; cases s') (simp add: drove_def)

text \<open>
  Between two transfers the controller waits for a command, out of reset and with DMA; the motor is on if the driver
  thinks so, no interrupt is noted and the driver has reported nothing.
\<close>

definition fdc_idle :: "fdc \<Rightarrow> bool" where
  "fdc_idle v \<longleftrightarrow> fdc_command v = [] \<and> fdc_pending v = [] \<and> fdc_results v = [] \<and> fdc_dor v AND 0x04 \<noteq> 0 \<and> \<not> fdc_no_dma v"

definition quiet :: "('d \<Rightarrow> fdc) \<Rightarrow> 'd floppy_state \<Rightarrow> bool" where
  "quiet view s \<longleftrightarrow> fdc_idle (view (device s)) \<and> (floppy_motor_state s \<noteq> 0 \<longrightarrow> fdc_dor (view (device s)) = 0x1C) \<and>
     \<not> s_floppy_irq s \<and> flog s = []"

text \<open>A sequence of bytes that the controller takes.\<close>

fun takes_all :: "u8 list \<Rightarrow> fdc \<Rightarrow> bool" where
  "takes_all [] v = True"
| "takes_all (b # bs) v = (fdc_takes b v \<and> takes_all bs (fdc_take b v))"

lemmas command_defs = command_length_def command_code_def known_command_def

lemma seek_command:
  assumes "fdc_idle v"
  shows "takes_all [CMD_SEEK, h, c] v" and "fold fdc_take [CMD_SEEK, h, c] v = v\<lparr>fdc_pending := [15, h, c]\<rparr>"
proof -
  have e: "v\<lparr>fdc_command := [], fdc_pending := p\<rparr> = v\<lparr>fdc_pending := p\<rparr>" for p
    using assms by (cases v) (simp add: fdc_idle_def)
  show "takes_all [CMD_SEEK, h, c] v" "fold fdc_take [CMD_SEEK, h, c] v = v\<lparr>fdc_pending := [15, h, c]\<rparr>"
    using assms by (simp_all add: fdc_idle_def fdc_takes_def fdc_take_def Let_def CMD_SEEK_def command_defs e)
qed

lemma sense_command:
  assumes "fdc_idle v" and "fdc_sought v"
  shows "fdc_takes CMD_SENSE_INTERRUPT v"
    and "fdc_take CMD_SENSE_INTERRUPT v = v\<lparr>fdc_results := [0x20, fdc_cylinder v], fdc_sought := False\<rparr>"
  using assms by (simp_all add: fdc_idle_def fdc_takes_def fdc_take_def Let_def CMD_SENSE_INTERRUPT_def command_defs)

lemma head_drive: "push_bit 2 (h :: u8) AND 3 = 0"
proof -
  have three: "(3 :: u8) = mask 2" by (simp add: mask_eq_exp_minus_1)
  show ?thesis unfolding three take_bit_eq_mask [symmetric] by (simp only: take_bit_push_bit) simp
qed

lemma seek_answer:
  assumes "fdc_pending v = [15, push_bit 2 h, c]" and "fdc_dor v = 0x1C" and "unat c < 80"
  shows "fdc_answer img v = Some (v\<lparr>fdc_pending := [], fdc_cylinder := c, fdc_sought := True\<rparr>)"
  using assms by (simp add: fdc_answer_def head_drive)

text \<open>The cylinder transfer: both heads, all sectors.\<close>

abbreviation cylinder_command :: "u8 \<Rightarrow> u8 list" where
  "cylinder_command c \<equiv> [track_command floppy_dir_read, 0, c, 0, 1, 2, 18, 0x1B, 0xFF]"

lemma cylinder_op: "track_command floppy_dir_read = 0xC6"
  by (simp add: CMD_READ_DATA_def)

lemma transfer_command:
  assumes "fdc_idle v"
  shows "takes_all (cylinder_command c) v"
    and "fold fdc_take (cylinder_command c) v = v\<lparr>fdc_pending := cylinder_command c\<rparr>"
proof -
  have e: "v\<lparr>fdc_command := [], fdc_pending := p\<rparr> = v\<lparr>fdc_pending := p\<rparr>" for p
    using assms by (cases v) (simp add: fdc_idle_def)
  show "takes_all (cylinder_command c) v" "fold fdc_take (cylinder_command c) v = v\<lparr>fdc_pending := cylinder_command c\<rparr>"
    using assms by (simp_all add: cylinder_op fdc_idle_def fdc_takes_def fdc_take_def Let_def command_defs e
      del: track_command.simps)
qed

text \<open>The DMA channel as the driver programs it for a buffer at \<open>a\<close>.\<close>

definition programmed :: "u32 \<Rightarrow> dma_channel" where
  "programmed a = \<lparr>ch_high = False, ch_address = (byte_of 0 a, byte_of 1 a), ch_count = (0xFF, 0x47), ch_mode = 0x46,
     ch_masked = False, ch_page = byte_of 2 a\<rparr>"

lemma programmed_ready: "channel_to_memory (programmed a)" "channel_length (programmed a) = 18432"
  by (simp_all add: programmed_def channel_to_memory_def channel_length_def pair_nat_def)

definition cylinder_sectors :: "(nat \<times> nat) list" where
  "cylinder_sectors = track_sectors True 0 1 18"

lemma cylinder_read_sectors: "read_sectors (cylinder_command c) = cylinder_sectors"
  by (simp add: read_sectors_def cylinder_sectors_def cylinder_op del: track_command.simps)

lemma cylinder_sectors_nth: "length cylinder_sectors = 36" "k < 36 \<Longrightarrow> chs_sector c (cylinder_sectors ! k) = c * 36 + k"
  by (auto simp: cylinder_sectors_def track_sectors_def nth_append chs_sector_def simp del: upt_Suc upt.simps)

lemma cylinder_read:
  assumes "fdc_pending v = cylinder_command c" and "fdc_dor v = 0x1C" and "\<not> fdc_no_dma v"
    and "fdc_cylinder v = c" and "unat c < 80" and "fdc_dma v = programmed a"
  shows "fdc_answer img v = Some (read_done img (cylinder_command c) v)"
proof -
  have "read_valid (cylinder_command c) v"
    unfolding read_valid_def cylinder_read_sectors assms(6)
    using assms(2-5) by (simp add: cylinder_op programmed_ready cylinder_sectors_nth del: track_command.simps)
  then show ?thesis
    using assms(1,2) by (simp add: fdc_answer_def cylinder_op command_code_def del: track_command.simps)
qed

lemma cylinder_results:
  assumes "fdc_dma v = programmed a"
  shows "\<exists>r3 r4 r5. fdc_results (read_done img (cylinder_command c) v) = [4, 0, 0, r3, r4, r5, 2]"
proof -
  have "cylinder_sectors ! 35 = (1, 18)" by (simp add: cylinder_sectors_def track_sectors_def nth_append del: upt_Suc)
  then show ?thesis
    by (simp add: read_done_def Let_def assms programmed_ready cylinder_read_sectors read_results_def del: track_command.simps)
qed

lemma cylinder_memory:
  assumes "fdc_dma v = programmed a"
  shows "fdc_memory (read_done img (cylinder_command c) v) =
    channel_store (programmed a) (take 18432 (sectors_bytes img (unat c) cylinder_sectors)) (fdc_memory v)"
  by (simp add: read_done_def Let_def assms programmed_ready cylinder_read_sectors del: track_command.simps)

lemma nth_concat_uniform:
  "\<forall>x\<in>set xss. length x = n \<Longrightarrow> k < length xss \<Longrightarrow> i < n \<Longrightarrow> concat xss ! (k * n + i) = xss ! k ! i"
proof (induction xss arbitrary: k)
  case (Cons x xss)
  then show ?case by (cases k) (auto simp: nth_append add.assoc)
qed simp

lemma length_concat_uniform: "\<forall>x\<in>set xss. length x = n \<Longrightarrow> length (concat xss) = length xss * n"
  by (induction xss) auto

lemma cylinder_bytes:
  assumes "\<And>s. length (img s) = 512"
  shows "length (sectors_bytes img c cylinder_sectors) = 18432"
    and "k < 36 \<Longrightarrow> i < 512 \<Longrightarrow> sectors_bytes img c cylinder_sectors ! (k * 512 + i) = img (word_of_nat (c * 36 + k)) ! i"
proof -
  let ?f = "\<lambda>x. img (word_of_nat (chs_sector c x))"
  have u: "\<forall>x\<in>set (map ?f cylinder_sectors). length x = 512" using assms by simp
  show "length (sectors_bytes img c cylinder_sectors) = 18432"
    unfolding sectors_bytes_def length_concat_uniform [OF u] by (simp add: cylinder_sectors_nth(1))
  show "sectors_bytes img c cylinder_sectors ! (k * 512 + i) = img (word_of_nat (c * 36 + k)) ! i" if "k < 36" "i < 512"
    unfolding sectors_bytes_def using nth_concat_uniform [OF u, of k i] that
    by (simp add: cylinder_sectors_nth)
qed

lemma ucast_cylinder: "c < 80 \<Longrightarrow> ucast (ucast c :: u8) = (c :: u32)"
  by (simp add: word_unat_eq_iff unsigned_ucast_eq unsigned_take_bit_eq word_less_nat_alt take_bit_nat_eq_self)

lemma unat_cylinder: "c < 80 \<Longrightarrow> unat (ucast c :: u8) = unat (c :: u32)"
  by (simp add: unsigned_ucast_eq unsigned_take_bit_eq word_less_nat_alt take_bit_nat_eq_self)

text \<open>A buffer DMA can fill: below 16 MiB and in one 64 KiB block.\<close>

definition dma_block :: "u32 \<Rightarrow> bool" where
  "dma_block a \<longleftrightarrow> unat a < 2 ^ 24 \<and> unat a mod 0x10000 + 0x4800 \<le> 0x10000"

lemma page_position:
  assumes "r + off < (65536 :: nat)"
  shows "(r + q * 65536 + off) div 65536 = q" and "(r + q * 65536 + off + 65536 - r) mod 65536 = off"
proof -
  have a: "r + q * 65536 + off = (r + off) + q * 65536" "r + q * 65536 + off + 65536 - r = off + (q + 1) * 65536"
    by (simp_all add: algebra_simps)
  show "(r + q * 65536 + off) div 65536 = q" unfolding a(1) using assms by simp
  show "(r + q * 65536 + off + 65536 - r) mod 65536 = off"
    unfolding a(2) mod_mult_self1 using assms by simp
qed

lemma stored_byte:
  assumes "dma_block a" and "off < 18432" and "length bs = 18432"
  shows "channel_store (programmed a) bs m (a + word_of_nat off) = bs ! off"
proof -
  let ?n = "unat a"
  have a: "?n < 16777216" "?n mod 65536 + 18432 \<le> 65536" using assms(1) by (simp_all add: dma_block_def)
  have x: "unat (a + word_of_nat off) = ?n + off"
    using a(1) assms(2) unat_u32_of_nat [of off] by (subst unat_u32_add) simp_all
  have p: "pair_nat (ch_address (programmed a)) = ?n mod 65536"
  proof -
    have "?n mod 65536 = 256 * (?n div 256 mod 256) + ?n mod 256" using mod_mult2_eq [of ?n 256 256] by simp
    then show ?thesis by (simp add: programmed_def pair_nat_def unat_byte_of)
  qed
  have g: "unat (ch_page (programmed a)) = ?n div 65536" using a(1) by (simp add: programmed_def unat_byte_of)
  obtain q r where n: "?n = r + q * 65536" "?n div 65536 = q" "?n mod 65536 = r"
    using mod_div_mult_eq [of ?n 65536] by metis
  have r: "r + off < 65536" using a(2) assms(2) n(3) by linarith
  have "(?n + off) div 65536 = q" unfolding n(1) using page_position(1) [OF r] .
  moreover have "(?n + off + 65536 - r) mod 65536 = off" unfolding n(1) using page_position(2) [OF r] .
  ultimately show ?thesis
    unfolding channel_store_def Let_def x p g n(2,3) using assms(2,3) by simp
qed

lemma sector_offset:
  assumes "k < 36" and "i < 512"
  shows "(k :: u32) * 512 + word_of_nat i = word_of_nat (unat k * 512 + i)" and "unat k * 512 + i < 18432"
proof -
  show "k * 512 + word_of_nat i = word_of_nat (unat k * 512 + i)" by simp
  have "unat k < 36" using assms(1) by (simp add: word_less_nat_alt)
  then show "unat k * 512 + i < 18432" using assms(2) by linarith
qed

subsection \<open>The driver on it\<close>

locale floppy_controller =
  fixes hw :: "('d, 'z) floppy_hardware_scheme" and view :: "'d \<Rightarrow> fdc" and img :: image
  assumes obeys: "controller_obeys hw view img"
begin

lemma ready: "fdc_dor (view d) AND 0x04 \<noteq> 0 \<Longrightarrow> fdc_pending (view d) = [] \<Longrightarrow> ready_within hw 600 d"
  using obeys by (simp add: controller_obeys_def)

lemma view_in: "p \<in> {0x3F4, 0x71} \<Longrightarrow> view (snd (inportb hw p d)) = view d"
  using obeys by (auto simp: controller_obeys_def)

lemma view_result:
  "fdc_pending (view d) = [] \<Longrightarrow> fdc_results (view d) = r # rs \<Longrightarrow> fst (inportb hw 0x3F5 d) = r \<and>
     view (snd (inportb hw 0x3F5 d)) = (view d)\<lparr>fdc_results := rs\<rparr>"
  using obeys by (simp add: controller_obeys_def)

lemma view_take: "fdc_takes b (view d) \<Longrightarrow> view (outportb hw 0x3F5 b d) = fdc_take b (view d)"
  using obeys by (simp add: controller_obeys_def)

lemma view_dor:
  "fdc_pending (view d) = [] \<Longrightarrow> fdc_dor (view d) AND 0x04 \<noteq> 0 \<Longrightarrow> b AND 0x04 \<noteq> 0 \<Longrightarrow>
     view (outportb hw 0x3F2 b d) = (view d)\<lparr>fdc_dor := b\<rparr>"
  using obeys by (simp add: controller_obeys_def)

lemma view_dma:
  "p \<in> channel_ports \<Longrightarrow> view (outportb hw p b d) = (view d)\<lparr>fdc_dma := channel_out p b (fdc_dma (view d))\<rparr>"
  using obeys by (simp add: controller_obeys_def)

lemma view_cmos: "view (outportb hw 0x70 b d) = view d"
  using obeys by (simp add: controller_obeys_def)

lemma dma_memory: "fetch hw (kernel_physical_to_virtual a) d = fdc_memory (view d) a"
  using obeys by (simp add: controller_obeys_def)

lemma irq_comes: "fdc_answer img (view d) = Some v \<Longrightarrow> \<exists>d'. run_to_irq hw d = Some d' \<and> view d' = v"
  using obeys by (simp add: controller_obeys_def)

lemma polled:
  obtains m d where "floppy_in hw (0x3F0 + FLOPPY_MSR) s = (m, s\<lparr>device := d\<rparr>)" "view d = view (device s)"
    "ready_within hw (Suc n) (device s) \<longleftrightarrow> 0x80 AND m \<noteq> 0 \<or> ready_within hw n d"
proof -
  obtain m d where "inportb hw 0x3F4 (device s) = (m, d)" by (rule prod.exhaust)
  then show thesis using that view_in [of "0x3F4" "device s"] by (simp add: floppy_in_def FLOPPY_MSR_def)
qed

lemma write_loop:
  "ready_within hw n (device s) \<Longrightarrow> fdc_takes b (view (device s)) \<Longrightarrow>
     \<exists>s'. floppy_write_cmd_loop hw n 0x3F0 b s = Done s' \<and> drove view s (fdc_take b (view (device s))) s'"
proof (induction n arbitrary: s)
  case (Suc n)
  obtain m d where p: "floppy_in hw (0x3F0 + FLOPPY_MSR) s = (m, s\<lparr>device := d\<rparr>)" "view d = view (device s)"
    "ready_within hw (Suc n) (device s) \<longleftrightarrow> 0x80 AND m \<noteq> 0 \<or> ready_within hw n d" by (rule polled)
  show ?case
  proof (cases "0x80 AND m = 0")
    case True
    obtain s' where "floppy_write_cmd_loop hw n 0x3F0 b (s\<lparr>device := d\<rparr>) = Done s'"
      "drove view (s\<lparr>device := d\<rparr>) (fdc_take b (view d)) s'"
      using Suc.IH [of "s\<lparr>device := d\<rparr>"] Suc.prems True p(2,3) by auto
    moreover have "drove view s (view (device s)) (s\<lparr>device := d\<rparr>)" using drove_device [of view s d] p(2) by simp
    ultimately show ?thesis using p(1,2) True drove_trans by fastforce
  next
    case False
    have "drove view s (fdc_take b (view (device s))) (s\<lparr>device := outportb hw 0x3F5 b d\<rparr>)"
      using drove_device [of view s "outportb hw 0x3F5 b d"] view_take [of b d] Suc.prems(2) p(2) by simp
    then show ?thesis using p(1) False by (simp add: floppy_out_def FLOPPY_FIFO_def)
  qed
qed simp

lemma read_loop:
  "ready_within hw n (device s) \<Longrightarrow> fdc_pending (view (device s)) = [] \<Longrightarrow> fdc_results (view (device s)) = r # rs \<Longrightarrow>
     \<exists>s'. floppy_read_data_loop hw n 0x3F0 s = Done (r, s') \<and> drove view s ((view (device s))\<lparr>fdc_results := rs\<rparr>) s'"
proof (induction n arbitrary: s)
  case (Suc n)
  obtain m d where p: "floppy_in hw (0x3F0 + FLOPPY_MSR) s = (m, s\<lparr>device := d\<rparr>)" "view d = view (device s)"
    "ready_within hw (Suc n) (device s) \<longleftrightarrow> 0x80 AND m \<noteq> 0 \<or> ready_within hw n d" by (rule polled)
  show ?case
  proof (cases "0x80 AND m = 0")
    case True
    obtain s' where "floppy_read_data_loop hw n 0x3F0 (s\<lparr>device := d\<rparr>) = Done (r, s')"
      "drove view (s\<lparr>device := d\<rparr>) ((view d)\<lparr>fdc_results := rs\<rparr>) s'"
      using Suc.IH [of "s\<lparr>device := d\<rparr>"] Suc.prems True p(2,3) by auto
    moreover have "drove view s (view (device s)) (s\<lparr>device := d\<rparr>)" using drove_device [of view s d] p(2) by simp
    ultimately show ?thesis using p(1,2) True drove_trans by fastforce
  next
    case False
    obtain w e where e: "inportb hw 0x3F5 d = (w, e)" by (rule prod.exhaust)
    have r: "w = r" "view e = (view (device s))\<lparr>fdc_results := rs\<rparr>"
      using view_result [of d r rs] Suc.prems(2,3) p(2) e by simp_all
    have "floppy_in hw (0x3F0 + FLOPPY_FIFO) (s\<lparr>device := d\<rparr>) = (r, s\<lparr>device := e\<rparr>)"
      by (simp add: floppy_in_def FLOPPY_FIFO_def e r(1))
    then show ?thesis using p(1) False drove_device [of view s e] r(2) by simp
  qed
qed simp

lemma write_ok:
  assumes "fdc_takes b (view (device s))"
  obtains s' where "floppy_write_cmd hw 0x3F0 b s = Done s'" "drove view s (fdc_take b (view (device s))) s'"
  using write_loop [OF ready assms] assms by (auto simp: floppy_write_cmd_def fdc_takes_def)

lemma writes_ok:
  "takes_all bs (view (device s)) \<Longrightarrow>
     \<exists>s'. floppy_write_cmds hw 0x3F0 bs s = Done s' \<and> drove view s (fold fdc_take bs (view (device s))) s'"
proof (induction bs arbitrary: s)
  case Nil
  then show ?case using drove_refl by simp
next
  case (Cons b bs)
  obtain s1 where s1: "floppy_write_cmd hw 0x3F0 b s = Done s1" "drove view s (fdc_take b (view (device s))) s1"
    using write_ok [of b s] Cons.prems by auto
  then show ?case using Cons.IH [of s1] Cons.prems drove_trans [OF s1(2)] drove_view [OF s1(2)] by auto
qed

lemma read_ok:
  assumes "fdc_dor (view (device s)) AND 0x04 \<noteq> 0" and "fdc_pending (view (device s)) = []"
    and "fdc_results (view (device s)) = r # rs"
  obtains s' where "floppy_read_data hw 0x3F0 s = Done (r, s')" "drove view s ((view (device s))\<lparr>fdc_results := rs\<rparr>) s'"
  using read_loop [OF ready [OF assms(1,2)] assms(2,3)] by (auto simp: floppy_read_data_def)

lemma reads_ok:
  "fdc_dor (view (device s)) AND 0x04 \<noteq> 0 \<Longrightarrow> fdc_pending (view (device s)) = [] \<Longrightarrow> fdc_results (view (device s)) = rs \<Longrightarrow>
     \<exists>s'. floppy_read_datas hw 0x3F0 (length rs) s = Done (rs, s') \<and> drove view s ((view (device s))\<lparr>fdc_results := []\<rparr>) s'"
proof (induction rs arbitrary: s)
  case Nil
  then have "(view (device s))\<lparr>fdc_results := []\<rparr> = view (device s)" by (cases "view (device s)") simp
  then show ?case using drove_refl [of view s] by simp
next
  case (Cons r rs)
  obtain s1 where s1: "floppy_read_data hw 0x3F0 s = Done (r, s1)" "drove view s ((view (device s))\<lparr>fdc_results := rs\<rparr>) s1"
    by (rule read_ok [OF Cons.prems])
  then show ?case using Cons.IH [of s1] Cons.prems drove_trans [OF s1(2)] drove_view [OF s1(2)] by auto
qed

lemma wait_ok:
  assumes "fdc_answer img (view (device s)) = Some v" and "\<not> s_floppy_irq s"
  obtains s' where "irq_wait hw s = Done s'" "drove view s v s'"
proof -
  obtain d where d: "run_to_irq hw (device s) = Some d" "view d = v" using irq_comes [OF assms(1)] by blast
  have "s\<lparr>device := d, s_floppy_irq := False\<rparr> = s\<lparr>device := d\<rparr>" using assms(2) by (cases s) simp
  then have "irq_wait hw s = Done (s\<lparr>device := d\<rparr>)" using assms(2) by (simp add: irq_wait_def d(1))
  then show thesis using that drove_device [of view s d] d(2) by simp
qed

lemma check_ok:
  assumes "fdc_idle (view (device s))" and "fdc_sought (view (device s))"
  obtains s' where "floppy_check_interrupt hw 0x3F0 s = Done (0x20, ucast (fdc_cylinder (view (device s))), s')"
    "drove view s ((view (device s))\<lparr>fdc_sought := False\<rparr>) s'"
proof -
  let ?v = "view (device s)"
  note sense = sense_command [OF assms]
  have i: "fdc_dor ?v AND 0x04 \<noteq> 0" "fdc_pending ?v = []" using assms(1) by (simp_all add: fdc_idle_def)
  have z: "?v\<lparr>fdc_results := [], fdc_sought := False\<rparr> = ?v\<lparr>fdc_sought := False\<rparr>"
    using assms(1) by (cases ?v) (simp add: fdc_idle_def)
  obtain s1 where s1: "floppy_write_cmd hw 0x3F0 CMD_SENSE_INTERRUPT s = Done s1"
    "drove view s (?v\<lparr>fdc_results := [0x20, fdc_cylinder ?v], fdc_sought := False\<rparr>) s1"
    using write_ok [OF sense(1)] unfolding sense(2) by blast
  note v1 = drove_view [OF s1(2)]
  have r1: "fdc_dor (view (device s1)) AND 0x04 \<noteq> 0" "fdc_pending (view (device s1)) = []"
    "fdc_results (view (device s1)) = 0x20 # [fdc_cylinder ?v]"
    unfolding v1 using i by simp_all
  obtain s2 where s2: "floppy_read_data hw 0x3F0 s1 = Done (0x20, s2)"
    "drove view s1 ((view (device s1))\<lparr>fdc_results := [fdc_cylinder ?v]\<rparr>) s2"
    by (rule read_ok [OF r1])
  note v2 = drove_view [OF s2(2), unfolded v1]
  have r2: "fdc_dor (view (device s2)) AND 0x04 \<noteq> 0" "fdc_pending (view (device s2)) = []"
    "fdc_results (view (device s2)) = fdc_cylinder ?v # []"
    unfolding v2 using i by simp_all
  obtain s3 where s3: "floppy_read_data hw 0x3F0 s2 = Done (fdc_cylinder ?v, s3)"
    "drove view s2 ((view (device s2))\<lparr>fdc_results := []\<rparr>) s3"
    by (rule read_ok [OF r2])
  have e: "(view (device s2))\<lparr>fdc_results := []\<rparr> = ?v\<lparr>fdc_sought := False\<rparr>"
    unfolding v2 z [symmetric] by simp
  have "drove view s (?v\<lparr>fdc_sought := False\<rparr>) s3"
    using drove_trans [OF s1(2) drove_trans [OF s2(2) s3(2) [unfolded e]]] .
  moreover have "floppy_check_interrupt hw 0x3F0 s = Done (0x20, ucast (fdc_cylinder ?v), s3)"
    by (simp add: floppy_check_interrupt_def s1(1) s2(1) s3(1))
  ultimately show thesis using that by blast
qed

text \<open>The motor is switched on, or on already.\<close>

lemma motor_on_ok:
  assumes "quiet view s"
  shows "view (device (floppy_motor hw 0x3F0 floppy_motor_on s)) = (view (device s))\<lparr>fdc_dor := 0x1C\<rparr>"
    and "\<not> s_floppy_irq (floppy_motor hw 0x3F0 floppy_motor_on s)" and "flog (floppy_motor hw 0x3F0 floppy_motor_on s) = []"
    and "floppy_motor_state (floppy_motor hw 0x3F0 floppy_motor_on s) = floppy_motor_on"
proof -
  let ?v = "view (device s)"
  have "view (outportb hw 0x3F2 0x1C (device s)) = ?v\<lparr>fdc_dor := 0x1C\<rparr>"
    using assms by (intro view_dor) (simp_all add: quiet_def fdc_idle_def)
  moreover have "?v = ?v\<lparr>fdc_dor := 0x1C\<rparr>" if "floppy_motor_state s \<noteq> 0"
    using assms that by (cases ?v) (simp add: quiet_def)
  ultimately show "view (device (floppy_motor hw 0x3F0 floppy_motor_on s)) = ?v\<lparr>fdc_dor := 0x1C\<rparr>"
    by (simp add: floppy_motor_def floppy_motor_on_def floppy_out_def Let_def FLOPPY_DOR_def)
qed (use assms in \<open>simp_all add: quiet_def floppy_motor_def floppy_motor_on_def floppy_out_def Let_def\<close>)

lemma motor_off_ok:
  assumes "drove view (floppy_motor hw 0x3F0 floppy_motor_on s) v s'" and "quiet view s"
    and "fdc_idle v" and "fdc_dor v = 0x1C"
  shows "quiet view (floppy_motor hw 0x3F0 floppy_motor_off s')"
    and "view (device (floppy_motor hw 0x3F0 floppy_motor_off s')) = v"
  using drove_keeps [OF assms(1)] drove_view [OF assms(1)] motor_on_ok(2-4) [OF assms(2)] assms(3,4)
  by (simp_all add: quiet_def floppy_motor_def floppy_motor_on_def floppy_motor_off_def floppy_motor_wait_def)

lemma seek_ok:
  assumes "c < 80" and "quiet view s"
  obtains s' where "floppy_seek hw 0x3F0 c head s = Done (0, s')" "quiet view s'"
    "fdc_cylinder (view (device s')) = ucast c"
proof -
  let ?s = "floppy_motor hw 0x3F0 floppy_motor_on s" and ?v = "(view (device s))\<lparr>fdc_dor := 0x1C\<rparr>"
  note on = motor_on_ok [OF assms(2)]
  have idle: "fdc_idle ?v" using assms(2) by (simp add: quiet_def fdc_idle_def)
  obtain s1 where s1: "floppy_write_cmds hw 0x3F0 [CMD_SEEK, push_bit 2 head, ucast c] ?s = Done s1"
    "drove view ?s (?v\<lparr>fdc_pending := [15, push_bit 2 head, ucast c]\<rparr>) s1"
    using writes_ok [of "[CMD_SEEK, push_bit 2 head, ucast c]" ?s] seek_command [OF idle] unfolding on(1) by metis
  let ?w = "?v\<lparr>fdc_cylinder := ucast c, fdc_sought := True\<rparr>"
  have p: "?v\<lparr>fdc_pending := [], fdc_cylinder := ucast c, fdc_sought := True\<rparr> = ?w"
    using assms(2) by (cases "view (device s)") (simp add: quiet_def fdc_idle_def)
  have "unat (ucast c :: u8) < 80" using assms(1) by (simp add: unat_cylinder word_less_nat_alt)
  then have "fdc_answer img (view (device s1)) = Some ?w"
    using seek_answer [of "view (device s1)" head "ucast c" img] drove_view [OF s1(2)] p by simp
  moreover have "\<not> s_floppy_irq s1" using drove_keeps [OF s1(2)] on(2) by simp
  ultimately obtain s2 where s2: "irq_wait hw s1 = Done s2" "drove view s1 ?w s2" by (rule wait_ok)
  have v2: "view (device s2) = ?w" by (rule drove_view [OF s2(2)])
  have "fdc_idle ?w" "fdc_sought ?w" using idle by (simp_all add: fdc_idle_def)
  then obtain s3 where s3: "floppy_check_interrupt hw 0x3F0 s2 = Done (0x20, ucast (fdc_cylinder ?w), s3)"
    "drove view s2 (?w\<lparr>fdc_sought := False\<rparr>) s3"
    using check_ok [of s2] unfolding v2 by blast
  have d: "drove view ?s (?w\<lparr>fdc_sought := False\<rparr>) s3" by (rule drove_trans [OF s1(2) drove_trans [OF s2(2) s3(2)]])
  have ten: "(10 :: nat) = Suc 9" by simp
  have run: "floppy_seek hw 0x3F0 c head s = Done (0, floppy_motor hw 0x3F0 floppy_motor_off s3)"
    unfolding floppy_seek_def ten floppy_seek_loop.simps s1(1)
    by (simp add: s2(1) s3(1) ucast_cylinder [OF assms(1)])
  have "fdc_idle (?w\<lparr>fdc_sought := False\<rparr>)" "fdc_dor (?w\<lparr>fdc_sought := False\<rparr>) = 0x1C"
    using idle by (simp_all add: fdc_idle_def)
  note q = motor_off_ok [OF d assms(2) this]
  show thesis by (rule that [OF run q(1)]) (simp add: q(2))
qed

lemma dma_ok:
  assumes "dma_block a"
  obtains s' where "floppy_dma_init hw floppy_dir_read a s = Done s'"
    "drove view s ((view (device s))\<lparr>fdc_dma := programmed a\<rparr>) s'"
proof -
  let ?d = "outportbs hw [(0x0A, 0x06), (0x0C, 0xFF), (0x04, byte_of 0 a), (0x04, byte_of 1 a), (0x81, byte_of 2 a),
         (0x0C, 0xFF), (0x05, 0xFF), (0x05, 0x47), (0x0B, dma_mode floppy_dir_read), (0x0A, 0x02)] (device s)"
  have "floppy_dma_init hw floppy_dir_read a s = Done (s\<lparr>device := ?d\<rparr>)"
    using dma_init_programs_block [of hw floppy_dir_read a s] assms by (simp add: dma_block_def)
  moreover have "view ?d = (view (device s))\<lparr>fdc_dma := programmed a\<rparr>"
    by (simp add: view_dma channel_ports_def) (simp add: channel_out_def set_half_def programmed_def)
  ultimately show thesis using that drove_device [of view s ?d] by metis
qed

lemma track_ok:
  assumes "c < 80" and "quiet view s" and "dma_block a"
  obtains s' m where "floppy_do_track hw 0x3F0 c floppy_dir_read a s = Done (0, s')" "quiet view s'"
    "fdc_memory (view (device s')) =
       channel_store (programmed a) (take 18432 (sectors_bytes img (unat c) cylinder_sectors)) m"
proof -
  obtain s1 where s1: "floppy_seek hw 0x3F0 c 0 s = Done (0, s1)" "quiet view s1"
    by (rule seek_ok [OF assms(1,2)])
  obtain s2 where s2: "floppy_seek hw 0x3F0 c 1 s1 = Done (0, s2)" "quiet view s2" "fdc_cylinder (view (device s2)) = ucast c"
    by (rule seek_ok [OF assms(1) s1(2)])
  let ?s = "floppy_motor hw 0x3F0 floppy_motor_on s2"
  let ?v = "(view (device s2))\<lparr>fdc_dor := 0x1C, fdc_dma := programmed a\<rparr>" and ?cmd = "cylinder_command (ucast c)"
  note on = motor_on_ok [OF s2(2)]
  have idle: "fdc_idle ?v" using s2(2) by (simp add: quiet_def fdc_idle_def)
  obtain s3 where s3: "floppy_dma_init hw floppy_dir_read a ?s = Done s3" "drove view ?s ?v s3"
    using dma_ok [OF assms(3), of ?s] unfolding on(1) by auto
  let ?p = "?v\<lparr>fdc_pending := ?cmd\<rparr>" and ?w = "read_done img ?cmd (?v\<lparr>fdc_pending := ?cmd\<rparr>)"
  obtain s4 where s4: "floppy_write_cmds hw 0x3F0 ?cmd s3 = Done s4" "drove view s3 ?p s4"
    using writes_ok [of ?cmd s3] transfer_command [OF idle, of "ucast c"] unfolding drove_view [OF s3(2)] by metis
  have "unat (ucast c :: u8) < 80" using assms(1) by (simp add: unat_cylinder word_less_nat_alt)
  then have "fdc_answer img (view (device s4)) = Some ?w"
    unfolding drove_view [OF s4(2)] using s2(2,3) idle by (intro cylinder_read) (simp_all add: fdc_idle_def)
  moreover have "\<not> s_floppy_irq s4" using drove_keeps [OF s4(2)] drove_keeps [OF s3(2)] on(2) by simp
  ultimately obtain s5 where s5: "irq_wait hw s4 = Done s5" "drove view s4 ?w s5" by (rule wait_ok)
  have v5: "view (device s5) = ?w" by (rule drove_view [OF s5(2)])
  obtain r3 r4 r5 where rs: "fdc_results ?w = [4, 0, 0, r3, r4, r5, 2]"
    using cylinder_results [of ?p a img "ucast c"] by auto
  have w: "fdc_dor ?w = 0x1C" "fdc_pending ?w = []" by (simp_all add: read_done_def Let_def)
  have seven: "length [4, 0, 0, r3, r4, r5, 2 :: u8] = 7" by simp
  obtain s6 where s6: "floppy_read_datas hw 0x3F0 7 s5 = Done ([4, 0, 0, r3, r4, r5, 2], s6)"
    "drove view s5 (?w\<lparr>fdc_results := []\<rparr>) s6"
    using reads_ok [of s5 "[4, 0, 0, r3, r4, r5, 2]"] w rs unfolding v5 seven by auto
  have d: "drove view ?s (?w\<lparr>fdc_results := []\<rparr>) s6"
    by (rule drove_trans [OF s3(2) drove_trans [OF s4(2) drove_trans [OF s5(2) s6(2)]]])
  have e: "track_error [4, 0, 0, r3, r4, r5, 2] s6 = Done (0, s6)"
    by (simp add: track_error_def track_checks_def run_checks_Cons)
  have "(20 :: nat) = Suc 19" by simp
  then have "floppy_do_track_loop hw 20 0x3F0 c floppy_dir_read a s2 = Done (0, floppy_motor hw 0x3F0 floppy_motor_off s6)"
    by (simp only: floppy_do_track_loop.simps s3(1) outcome_bind.simps s4(1) s5(1) s6(1) prod.case e) simp
  then have run: "floppy_do_track hw 0x3F0 c floppy_dir_read a s = Done (0, floppy_motor hw 0x3F0 floppy_motor_off s6)"
    by (simp add: floppy_do_track_def s1(1) s2(1))
  have "fdc_idle (?w\<lparr>fdc_results := []\<rparr>)" "fdc_dor (?w\<lparr>fdc_results := []\<rparr>) = 0x1C"
    using idle by (simp_all add: fdc_idle_def read_done_def Let_def)
  note q = motor_off_ok [OF d s2(2) this]
  show thesis
    by (rule that [OF run q(1)])
      (use cylinder_memory [of ?p a img "ucast c"] in \<open>simp add: q(2) unat_cylinder [OF assms(1)] del: track_command.simps\<close>)
qed

lemma reads_block:
  assumes "dma_block a" and "\<And>s. length (img s) = 512"
  shows "reads_cylinders hw 0x3F0 a (kernel_physical_to_virtual a) img (quiet view)"
  unfolding reads_cylinders_def
proof (intro allI impI)
  fix c :: u32 and s :: "'d floppy_state"
  assume c: "c < 80" and s: "quiet view s"
  obtain s' m where t: "floppy_do_track hw 0x3F0 c floppy_dir_read a s = Done (0, s')" "quiet view s'"
    "fdc_memory (view (device s')) =
       channel_store (programmed a) (take 18432 (sectors_bytes img (unat c) cylinder_sectors)) m"
    by (rule track_ok [OF c s assms(1)])
  note bytes = cylinder_bytes [of img, OF assms(2)]
  have "cylinder_loaded hw (kernel_physical_to_virtual a) img c s'"
    unfolding cylinder_loaded_def
  proof (intro allI impI)
    fix k :: u32 and i :: nat
    assume ki: "k < 36" "i < 512"
    note off = sector_offset [OF ki]
    have "kernel_physical_to_virtual a + k * 512 + word_of_nat i = kernel_physical_to_virtual (a + (k * 512 + word_of_nat i))"
      by (simp add: kernel_physical_to_virtual_def)
    then have "fetch hw (kernel_physical_to_virtual a + k * 512 + word_of_nat i) (device s') =
        sectors_bytes img (unat c) cylinder_sectors ! (unat k * 512 + i)"
      using stored_byte [OF assms(1) off(2), of "sectors_bytes img (unat c) cylinder_sectors" m] bytes(1)
      by (simp only: dma_memory t(3) off(1) take_all order_refl)
    moreover have "unat k < 36" using ki(1) by (simp add: word_less_nat_alt)
    ultimately show "fetch hw (kernel_physical_to_virtual a + k * 512 + word_of_nat i) (device s') = img (c * 36 + k) ! i"
      using bytes(2) [of "unat k" i "unat c"] ki(2) by simp
  qed
  then show "\<exists>s'. floppy_do_track hw 0x3F0 c floppy_dir_read a s = Done (0, s') \<and> quiet view s' \<and>
      cylinder_loaded hw (kernel_physical_to_virtual a) img c s'" using t(1,2) by blast
qed

text \<open>The motor timer of the driver may run between two transfers.\<close>

lemma timer_keeps_quiet: "quiet view s \<Longrightarrow> quiet view (floppy_timer_round hw s)"
proof -
  assume q: "quiet view s"
  then have "view (outportb hw 0x3F2 0x0C (device s)) = (view (device s))\<lparr>fdc_dor := 0x0C\<rparr>"
    by (intro view_dor) (simp_all add: quiet_def fdc_idle_def)
  then show ?thesis
    using q by (simp add: quiet_def fdc_idle_def floppy_timer_round_def floppy_motor_kill_def floppy_motor_wait_def
      floppy_motor_off_def floppy_base_def floppy_out_def FLOPPY_DOR_def Let_def)
qed

end

subsection \<open>The drive serves the disk\<close>

text \<open>A drive object as the driver makes it: at the standard port, with a buffer for DMA at its kernel address.\<close>

definition drive_ready :: "FloppyDrive \<Rightarrow> bool" where
  "drive_ready dr \<longleftrightarrow> drive_type dr = FloppyDrive1_44M \<and> controller_base dr = 0x3F0 \<and>
     dma_block (cyl_cache_physical dr) \<and> cyl_cache dr = kernel_physical_to_virtual (cyl_cache_physical dr)"

lemma controller_serves:
  assumes "controller_obeys hw view img" and "drive_ready dr" and "\<And>s. length (img s) = 512"
  shows "serves_image (floppy_device hw) 2880 img (floppy_ready hw img (quiet view) dr)"
proof (rule floppy_serves [OF _ _ assms(3)])
  show "reads_cylinders hw (controller_base dr) (cyl_cache_physical dr) (cyl_cache dr) img (quiet view)"
    using floppy_controller.reads_block [OF floppy_controller.intro [OF assms(1)] _ assms(3), of "cyl_cache_physical dr"] assms(2)
    by (simp add: drive_ready_def)
qed (use assms(2) in \<open>simp add: drive_ready_def\<close>)

text \<open>C12: On hardware that behaves as the data sheets of the 82077 and the 8237 say, a 1.44 MB drive is a block
  device that serves the 2880 sectors of the disk in its drive: reading any range of them fills the buffer with
  the image's bytes, from the cached cylinder or by the commands, polls, interrupts and DMA transfers of the driver.\<close>

theorem floppy_serves_image:
  assumes "controller_obeys hw view img" and "drive_ready dr" and "\<And>s. length (img s) = 512"
  shows "serves_image (floppy_device hw) 2880 img (floppy_ready hw img (quiet view) dr)"
  by (rule controller_serves [OF assms])

subsection \<open>A working controller\<close>

text \<open>
  The abstract controller itself, ready whenever it executes nothing. A command for which the sheets promise nothing ends
  with an error. The CMOS reports one 1.44 MB drive.
\<close>

definition fdc_error :: "fdc \<Rightarrow> fdc" where
  "fdc_error d = (if positions_head (hd (fdc_pending d)) then d\<lparr>fdc_pending := [], fdc_sought := True\<rparr>
     else d\<lparr>fdc_pending := [], fdc_results := [0x40, 0x04, 0, 0, 0, 0, 2]\<rparr>)"

definition fdc_interrupt :: "image \<Rightarrow> fdc \<Rightarrow> fdc option" where
  "fdc_interrupt img d = (if fdc_pending d = [] then None
     else case fdc_answer img d of None \<Rightarrow> Some (fdc_error d) | Some d' \<Rightarrow> Some d')"

definition disk_hardware :: "image \<Rightarrow> fdc floppy_hardware" where
  "disk_hardware img = \<lparr>
     inportb = (\<lambda>p d. if p = 0x3F4 then (if fdc_pending d = [] then 0x80 else 0x10, d)
       else if p = 0x3F5 then (hd (fdc_results d), d\<lparr>fdc_results := tl (fdc_results d)\<rparr>)
       else if p = 0x71 then (0x40, d) else (0, d)),
     outportb = (\<lambda>p b d. if p = 0x3F5 then fdc_take b d else if p = 0x3F2 then d\<lparr>fdc_dor := b\<rparr>
       else if p \<in> channel_ports then d\<lparr>fdc_dma := channel_out p b (fdc_dma d)\<rparr> else d),
     run_to_irq = fdc_interrupt img,
     fetch = (\<lambda>a d. fdc_memory d (kernel_virtual_to_physical a))\<rparr>"

lemma answer_pending: "fdc_answer img v = Some w \<Longrightarrow> fdc_pending v \<noteq> []"
  by (auto simp: fdc_answer_def)

lemma disk_obeys: "controller_obeys (disk_hardware img) id img"
proof -
  have "(600 :: nat) = Suc 599" by simp
  then have r: "ready_within (disk_hardware img) 600 d" if "fdc_pending d = []" for d
    using that by (simp only: ready_within.simps) (simp add: disk_hardware_def)
  have i: "fdc_interrupt img d = Some w" if "fdc_answer img d = Some w" for d w
    using that answer_pending [OF that] by (simp add: fdc_interrupt_def)
  have p: "(0x3F5 :: u16) \<notin> channel_ports" "(0x3F2 :: u16) \<notin> channel_ports" "(0x70 :: u16) \<notin> channel_ports"
    by (simp_all add: channel_ports_def)
  show ?thesis unfolding controller_obeys_def
    using r i p by (auto simp: disk_hardware_def kernel_address_inverse)
qed

interpretation disk_controller: floppy_controller "disk_hardware img" id img for img
  by unfold_locales (rule disk_obeys)

text \<open>It follows the protocol: its phase is that of its fields, if they make sense.\<close>

definition fdc_phase_of :: "fdc \<Rightarrow> fdc_phase" where
  "fdc_phase_of d =
     (if fdc_pending d = [] \<and> fdc_results d = [] then Taking (fdc_sought d) (fdc_command d)
      else if fdc_command d \<noteq> [] then Unknown
      else if fdc_pending d = [] then Giving (length (fdc_results d))
      else if fdc_results d = [] then Executing (hd (fdc_pending d)) else Unknown)"

definition fdc_motor_on :: "fdc \<Rightarrow> bool" where "fdc_motor_on d \<longleftrightarrow> fdc_dor d AND 0x10 \<noteq> 0"

lemma fdc_phase_of_iff:
  "fdc_phase_of d = Taking sought cs \<longleftrightarrow> fdc_pending d = [] \<and> fdc_results d = [] \<and> fdc_sought d = sought \<and> fdc_command d = cs"
  "fdc_phase_of d = Giving n \<longleftrightarrow> fdc_pending d = [] \<and> fdc_command d = [] \<and> fdc_results d \<noteq> [] \<and> length (fdc_results d) = n"
  "fdc_phase_of d = Executing op \<longleftrightarrow> fdc_pending d \<noteq> [] \<and> fdc_command d = [] \<and> fdc_results d = [] \<and> hd (fdc_pending d) = op"
  by (auto simp: fdc_phase_of_def)

lemma fdc_take_phase:
  "fdc_phase_of d = Taking sought cs \<Longrightarrow> fdc_phase_of (fdc_take b d) = take_byte sought cs b \<and> fdc_dor (fdc_take b d) = fdc_dor d"
  by (auto simp: fdc_phase_of_iff fdc_take_def take_byte_def Let_def)

lemma fdc_give_phase:
  assumes "fdc_phase_of d = Giving n"
  shows "give_byte n (fdc_phase_of (d\<lparr>fdc_results := tl (fdc_results d)\<rparr>))"
proof -
  have p: "fdc_pending d = []" "fdc_command d = []" "fdc_results d \<noteq> []" "length (fdc_results d) = n"
    using assms by (simp_all add: fdc_phase_of_iff)
  then show ?thesis by (cases "fdc_results d") (auto simp: give_byte_def fdc_phase_of_def)
qed

lemma length_read_results: "length (read_results cmd x) = 7"
  by (simp add: read_results_def Let_def)

lemma fdc_answer_phase:
  assumes "fdc_answer img d = Some d'"
  shows "fdc_command d' = fdc_command d \<and> fdc_pending d' = [] \<and> fdc_dor d' = fdc_dor d \<and>
     (if positions_head (hd (fdc_pending d)) then fdc_sought d' \<and> fdc_results d' = fdc_results d else length (fdc_results d') = 7)"
proof -
  obtain op args where p: "fdc_pending d = op # args" using answer_pending [OF assms] by (cases "fdc_pending d") auto
  consider "op = 7" | "op = 15" | "op \<noteq> 7" "op \<noteq> 15" by blast
  then show ?thesis
  proof cases
    case 3
    then have "d' = read_done img (op # args) d" using assms p by (simp add: fdc_answer_def split: if_splits)
    then show ?thesis using 3 p by (simp add: read_done_def Let_def length_read_results positions_head_def)
  qed (use assms p in \<open>auto simp: fdc_answer_def positions_head_def command_code_def split: if_splits\<close>)
qed

lemma fdc_interrupt_phase:
  assumes "fdc_phase_of d = Executing op"
  shows "\<exists>d'. fdc_interrupt img d = Some d' \<and> fdc_phase_of d' = executed op \<and> fdc_dor d' = fdc_dor d"
proof -
  have p: "fdc_pending d \<noteq> []" "fdc_command d = []" "fdc_results d = []" "hd (fdc_pending d) = op"
    using assms by (simp_all add: fdc_phase_of_iff)
  show ?thesis
  proof (cases "fdc_answer img d")
    case None
    then show ?thesis using p by (simp add: fdc_interrupt_def fdc_error_def executed_def fdc_phase_of_def)
  next
    case (Some d')
    have "fdc_phase_of d' = executed op \<and> fdc_dor d' = fdc_dor d"
      using fdc_answer_phase [OF Some] p by (auto simp: executed_def fdc_phase_of_def split: if_splits)
    then show ?thesis using Some p by (simp add: fdc_interrupt_def)
  qed
qed

lemma disk_follows: "fdc_follows (disk_hardware img) fdc_phase_of fdc_motor_on"
proof -
  have p: "(0x3F5 :: u16) \<notin> channel_ports" "(0x3F2 :: u16) \<notin> channel_ports"
    "{0x04, 0x05, 0x0A, 0x0B, 0x0C, 0x81 :: u16} = channel_ports"
    by (simp_all add: channel_ports_def)
  have m: "fdc_phase_of (d\<lparr>fdc_dor := b\<rparr>) = fdc_phase_of d" "fdc_phase_of (d\<lparr>fdc_dma := ch\<rparr>) = fdc_phase_of d" for d b ch
    by (simp_all add: fdc_phase_of_def)
  have c: "0x3F5 \<noteq> q" "0x3F2 \<noteq> q" if "q \<in> channel_ports" for q using that p(1,2) by auto
  show ?thesis unfolding fdc_follows_def p(3)
  proof (intro conjI allI impI ballI)
    fix d op assume "fdc_phase_of d = Executing op"
    then obtain d' where "fdc_interrupt img d = Some d'" "fdc_phase_of d' = executed op" "fdc_dor d' = fdc_dor d"
      using fdc_interrupt_phase by blast
    then show "\<exists>d'. run_to_irq (disk_hardware img) d = Some d' \<and> fdc_phase_of d' = executed op \<and> fdc_motor_on d' = fdc_motor_on d"
      by (simp add: disk_hardware_def fdc_motor_on_def)
  qed (use fdc_take_phase fdc_give_phase m c in \<open>auto simp: disk_hardware_def fdc_motor_on_def\<close>)
qed

interpretation disk_protocol: fdc_protocol "disk_hardware img" fdc_phase_of fdc_motor_on for img
  by unfold_locales (rule disk_follows)

definition sample_drive :: FloppyDrive where
  "sample_drive = \<lparr>drive_idx = 0, drive_type = FloppyDrive1_44M, controller_base = 0x3F0,
     cyl_cache = 0xC0010000, cyl_cache_physical = 0x10000, cached_cyl_index = - 1\<rparr>"

definition sample_channel :: dma_channel where
  "sample_channel = \<lparr>ch_high = True, ch_address = (0, 0), ch_count = (0, 0), ch_mode = 0, ch_masked = True, ch_page = 0\<rparr>"

text \<open>As the firmware leaves it: out of reset, the motor off.\<close>

definition sample_fdc :: "fdc floppy_state" where
  "sample_fdc = idle_floppy \<lparr>fdc_dor = 0x0C, fdc_no_dma = False, fdc_command = [], fdc_pending = [], fdc_results = [],
     fdc_sought = False, fdc_cylinder = 0, fdc_dma = sample_channel, fdc_memory = (\<lambda>_. 0)\<rparr>"

lemma sample_quiet: "quiet id sample_fdc"
  by (simp add: quiet_def fdc_idle_def sample_fdc_def idle_floppy_def)

lemma sample_rests: "driver_rests fdc_phase_of fdc_motor_on sample_fdc"
  by (simp add: driver_rests_def sample_fdc_def idle_floppy_def fdc_phase_of_def)


lemma dma_block_16: "dma_block 0x10000"
  by (simp add: dma_block_def)

lemma sample_drive_ready: "drive_ready sample_drive"
  using dma_block_16
  by (simp add: drive_ready_def sample_drive_def kernel_physical_to_virtual_def KERNEL_VIRTUAL_BASE_def)

text \<open>So the drive with this controller provides the block device interface, for any disk.\<close>

interpretation floppy_disk: block_device "floppy_device (disk_hardware (sector_image img))" 2880 "sector_image img"
    "floppy_ready (disk_hardware (sector_image img)) (sector_image img) (quiet id) sample_drive" for img
  by unfold_locales (rule controller_serves [OF disk_obeys sample_drive_ready], simp)

theorem floppy_serves_image_witness:
  "serves_image (floppy_device (disk_hardware zero_image)) 2880 zero_image
     (floppy_ready (disk_hardware zero_image) zero_image (quiet id) sample_drive) \<and>
   floppy_ready (disk_hardware zero_image) zero_image (quiet id) sample_drive (sample_drive, sample_fdc)"
proof
  show "serves_image (floppy_device (disk_hardware zero_image)) 2880 zero_image
     (floppy_ready (disk_hardware zero_image) zero_image (quiet id) sample_drive)"
    by (rule floppy_serves_image [OF disk_obeys sample_drive_ready]) (simp add: zero_image_def)
  show "floppy_ready (disk_hardware zero_image) zero_image (quiet id) sample_drive (sample_drive, sample_fdc)"
    using sample_quiet by (simp add: floppy_ready_def) (simp add: sample_drive_def)
qed

text \<open>The write-protected result, and a failed read, on hardware that answers every poll with ready
  and every result byte with one value.\<close>

definition constant_hardware :: "u8 \<Rightarrow> unit floppy_hardware" where
  "constant_hardware v = \<lparr>inportb = (\<lambda>p d. (if p = 0x3F4 then 0x80 else v, d)),
     outportb = (\<lambda>p v d. d), run_to_irq = Some, fetch = (\<lambda>a d. 0)\<rparr>"

lemma constant_write: "floppy_write_cmd (constant_hardware v) 0x3F0 c s = Done s"
proof -
  have "(600 :: nat) = Suc 599" by simp
  then show ?thesis
    by (simp only: floppy_write_cmd_def floppy_write_cmd_loop.simps)
      (simp add: floppy_in_def floppy_out_def constant_hardware_def FLOPPY_MSR_def FLOPPY_FIFO_def)
qed

lemma constant_read: "floppy_read_data (constant_hardware v) 0x3F0 s = Done (v, s)"
proof -
  have "(600 :: nat) = Suc 599" by simp
  then show ?thesis
    by (simp only: floppy_read_data_def floppy_read_data_loop.simps)
      (simp add: floppy_in_def constant_hardware_def FLOPPY_MSR_def FLOPPY_FIFO_def)
qed

lemma constant_wait: "irq_wait (constant_hardware v) s = Done (s\<lparr>s_floppy_irq := False\<rparr>)"
  by (simp add: irq_wait_def constant_hardware_def)

lemma constant_seek_fails: "\<exists>s'. floppy_seek_loop (constant_hardware 0x40) n 0x3F0 c head s = Done (- 1, s')"
  by (induction n arbitrary: s)
    (simp_all add: constant_write floppy_check_interrupt_def constant_read constant_wait)

theorem do_track_releases_motor_witness:
  "\<exists>s'. floppy_do_track (disk_hardware zero_image) 0x3F0 5 floppy_dir_read 0x10000 sample_fdc = Done (0, s') \<and>
     motor_released s'"
proof -
  obtain s' where "floppy_do_track (disk_hardware zero_image) 0x3F0 5 floppy_dir_read 0x10000 sample_fdc = Done (0, s')"
    using disk_controller.track_ok [OF _ sample_quiet dma_block_16, of 5 zero_image] by auto
  then show ?thesis using do_track_releases_motor by blast
qed

theorem failed_read_serves_stale_witness:
  "\<exists>d bs. floppy_read_block (constant_hardware 0x40) 0 (sample_drive, idle_floppy ()) = Done (None, d) \<and>
     floppy_read_block (constant_hardware 0x40) 1 d = Done (Some bs, d)"
proof -
  obtain s' where "floppy_seek_loop (constant_hardware 0x40) 10 0x3F0 0 0
      (floppy_motor (constant_hardware 0x40) 0x3F0 floppy_motor_on (idle_floppy ())) = Done (- 1, s')"
    using constant_seek_fails by blast
  then have f: "floppy_read_block (constant_hardware 0x40) 0 (sample_drive, idle_floppy ()) =
      Done (None, sample_drive\<lparr>cached_cyl_index := 0\<rparr>, s')"
    by (simp add: floppy_read_block_def load_cylinder_def read_cyl_def floppy_do_track_def floppy_seek_def
      sample_drive_def sectors_per_cyl_def FloppyDrive1_44M_def FloppyDrive1_2M_def)
  have "1 div sectors_per_cyl (drive_type sample_drive) = 0 div sectors_per_cyl (drive_type sample_drive)"
    by (simp add: sample_drive_def sectors_per_cyl_def FloppyDrive1_44M_def FloppyDrive1_2M_def)
  then show ?thesis using f failed_read_serves_stale [OF f] by blast
qed

end
