(* ===== verification/Devices.thy ===== *)
theory Devices
  imports Controller Heap
begin

text \<open>
  The device manager (\<^verbatim>\<open>src/devmanager.cpp\<close>), the registry of driver probes (\<^verbatim>\<open>src/drvmanager.cpp\<close>,
  \<^verbatim>\<open>src/drv.h\<close>), the floppy driver's probe (\<^verbatim>\<open>src/floppy.cpp\<close>) and the table of static destructors
  (\<^verbatim>\<open>src/cppsupp.cpp\<close>). A driver object is a value of the driver's class; the list of devices is a
  \<^verbatim>\<open>std::list\<close>, whose nodes are not taken from the heap here. Lines on the console are kept as text.
\<close>

subsection \<open>Devices\<close>

datatype device_driver = FloppyController u16 | FloppyDriveDevice FloppyDrive

primrec driver_description :: "device_driver \<Rightarrow> string outcome" where
  "driver_description (FloppyController iob) = Done ''Floppy Drive Controller''"
| "driver_description (FloppyDriveDevice dr) = floppy_description dr"

record driver_tree_node =
  node_name :: string
  node_driver :: device_driver

record device_manager =
  devices :: "driver_tree_node list"
  dm_console :: "string list"

definition added_line :: "string \<Rightarrow> string \<Rightarrow> string" where
  "added_line name description =
     ''DeviceManager: Added device '' @ name @ '' - ('' @ description @ '')'' @ [CHR ''\<newline>'']"

definition add_device :: "device_driver \<Rightarrow> string \<Rightarrow> device_manager \<Rightarrow> device_manager outcome" where
  "add_device dev name m =
     (let m1 = m\<lparr>devices := devices m @ [\<lparr>node_name = name, node_driver = dev\<rparr>]\<rparr> in
      outcome_bind (driver_description dev) (\<lambda>desc.
        Done (m1\<lparr>dm_console := dm_console m1 @ [added_line name desc]\<rparr>)))"

fun find_device :: "driver_tree_node list \<Rightarrow> string \<Rightarrow> device_driver option" where
  "find_device [] path = None"
| "find_device (node # nodes) path = (if node_name node = path then Some (node_driver node) else find_device nodes path)"

definition device_get :: "string \<Rightarrow> device_manager \<Rightarrow> device_driver option" where
  "device_get path m = find_device (devices m) path"

text \<open>
  Calling a block device method on the result: the null pointer and a driver of another class, which
  \<^verbatim>\<open>reinterpret_cast\<close> lets through, are undefined.
\<close>

definition as_block_device :: "device_driver option \<Rightarrow> FloppyDrive outcome" where
  "as_block_device dev = (case dev of Some (FloppyDriveDevice dr) \<Rightarrow> Done dr | _ \<Rightarrow> Fault UndefinedBehaviour)"

subsection \<open>Probes\<close>

record 's probe_table =
  s_probe_funcs :: "('s \<Rightarrow> 's outcome) option list"
  s_probe_func_count :: nat

definition no_probes :: "'s probe_table" where
  "no_probes = \<lparr>s_probe_funcs = replicate 16 None, s_probe_func_count = 0\<rparr>"

definition reg_probe :: "('s \<Rightarrow> 's outcome) \<Rightarrow> 's probe_table \<Rightarrow> 's probe_table outcome" where
  "reg_probe f t =
     (if s_probe_func_count t < length (s_probe_funcs t)
      then Done (t\<lparr>s_probe_funcs := (s_probe_funcs t)[s_probe_func_count t := Some f],
                   s_probe_func_count := s_probe_func_count t + 1\<rparr>)
      else Fault OutOfBounds)"

definition call_probe :: "('s \<Rightarrow> 's outcome) option \<Rightarrow> 's \<Rightarrow> 's outcome" where
  "call_probe f s = (case f of None \<Rightarrow> Fault UndefinedBehaviour | Some g \<Rightarrow> g s)"

fun probe_loop :: "('s \<Rightarrow> 's outcome) option list \<Rightarrow> nat \<Rightarrow> nat \<Rightarrow> 's \<Rightarrow> 's outcome" where
  "probe_loop fs i 0 s = Done s"
| "probe_loop fs i (Suc n) s =
     (if i < length fs then outcome_bind (call_probe (fs ! i) s) (probe_loop fs (Suc i) n) else Fault OutOfBounds)"

definition probe_all :: "'s probe_table \<Rightarrow> 's \<Rightarrow> 's outcome" where
  "probe_all t s = probe_loop (s_probe_funcs t) 0 (s_probe_func_count t) s"

subsection \<open>The floppy probe\<close>

text \<open>Objects come from the kernel heap, with the sizes of the two classes; \<^verbatim>\<open>new\<close> is not checked.\<close>

record 'd device_state =
  ds_heap :: "physical heap"
  ds_floppy :: "'d floppy_state"
  ds_manager :: device_manager
  ds_floppy0 :: "FloppyDrive option"

definition new_object :: "u32 \<Rightarrow> 'd device_state \<Rightarrow> 'd device_state outcome" where
  "new_object sz s =
     outcome_bind (operator_new (\<lambda>n. mm_alloc_pages n 1) sz (ds_heap s)) (\<lambda>(ptr, h).
       if ptr = 0 then Fault UndefinedBehaviour else Done (s\<lparr>ds_heap := h\<rparr>))"

definition new_drive :: "u32 \<Rightarrow> u8 \<Rightarrow> 'd device_state \<Rightarrow> (FloppyDrive \<times> 'd device_state) outcome" where
  "new_drive idx ty s =
     outcome_bind (new_object 28 s) (\<lambda>s1.
     outcome_bind (new_FloppyDrive idx ty 0x03F0 (pages (ds_heap s1))) (\<lambda>(dr, p).
       Done (dr, s1\<lparr>ds_heap := (ds_heap s1)\<lparr>pages := p\<rparr>\<rparr>)))"

definition register_device :: "device_driver \<Rightarrow> string \<Rightarrow> 'd device_state \<Rightarrow> 'd device_state outcome" where
  "register_device dev name s =
     outcome_bind (add_device dev name (ds_manager s)) (\<lambda>m. Done (s\<lparr>ds_manager := m\<rparr>))"

definition read_drive_types :: "('d, 'z) floppy_hardware_scheme \<Rightarrow> 'd device_state \<Rightarrow> u8 \<times> 'd device_state" where
  "read_drive_types hw s =
     (case floppy_in hw 0x71 (floppy_out hw 0x70 0x10 (ds_floppy s)) of (v, f) \<Rightarrow> (v, s\<lparr>ds_floppy := f\<rparr>))"

definition floppy_probe :: "('d, 'z) floppy_hardware_scheme \<Rightarrow> 'd device_state \<Rightarrow> 'd device_state outcome" where
  "floppy_probe hw s =
     (case read_drive_types hw s of (drive_types, s1) \<Rightarrow>
        if drive_types \<noteq> 0 then
          let type0 = drop_bit 4 drive_types; type1 = drive_types AND 0xF in
          outcome_bind (new_object 8 s1) (\<lambda>s2.
          outcome_bind (register_device (FloppyController 0x03F0) ''/floppy'' s2) (\<lambda>s3.
          outcome_bind
            (if type0 \<noteq> 0 then
               outcome_bind (new_drive 0 type0 s3) (\<lambda>(dr, s4).
                 register_device (FloppyDriveDevice dr) ''/floppy/0'' (s4\<lparr>ds_floppy0 := Some dr\<rparr>))
             else Done s3) (\<lambda>s5.
          if type1 \<noteq> 0 then outcome_bind (new_drive 1 type1 s5) (\<lambda>(dr, s6). Done s6)
          else Done s5)))
        else Done s1)"

subsection \<open>Static destructors\<close>

record exit_object =
  eo_f :: u32
  eo_p :: u32
  eo_d :: u32

record exit_table =
  exit_objects :: "exit_object list"
  iObject :: nat

definition cxa_atexit :: "u32 \<Rightarrow> u32 \<Rightarrow> u32 \<Rightarrow> exit_table \<Rightarrow> int \<times> exit_table" where
  "cxa_atexit f p d t =
     (if 32 \<le> iObject t then (- 1, t)
      else (0, t\<lparr>exit_objects := (exit_objects t)[iObject t := \<lparr>eo_f = f, eo_p = p, eo_d = d\<rparr>],
                 iObject := iObject t + 1\<rparr>))"

text \<open>\<open>call f p\<close> is the effect of the function at address \<open>f\<close> on its argument.\<close>

fun finalize_loop :: "(u32 \<Rightarrow> u32 \<Rightarrow> 's \<Rightarrow> 's outcome) \<Rightarrow> nat \<Rightarrow> exit_table \<times> 's \<Rightarrow> (exit_table \<times> 's) outcome" where
  "finalize_loop call 0 ts = Done ts"
| "finalize_loop call (Suc i) (t, s) =
     (let t1 = t\<lparr>iObject := iObject t - 1\<rparr>; ob = exit_objects t1 ! iObject t1 in
      outcome_bind (call (eo_f ob) (eo_p ob) s) (\<lambda>s1. finalize_loop call i (t1, s1)))"

definition cxa_finalize :: "(u32 \<Rightarrow> u32 \<Rightarrow> 's \<Rightarrow> 's outcome) \<Rightarrow> exit_table \<times> 's \<Rightarrow> (exit_table \<times> 's) outcome" where
  "cxa_finalize call = (\<lambda>(t, s). finalize_loop call (iObject t) (t, s))"

definition cxa_pure_virtual :: "log \<Rightarrow> log \<times> unit outcome" where
  "cxa_pure_virtual l = (l @ [Debug (''OMG pure virtual!?!??'' @ [CHR ''\<newline>'']) []], Diverges)"

subsection \<open>Looking devices up\<close>

lemma find_device_append:
  "find_device (xs @ ys) path = (case find_device xs path of None \<Rightarrow> find_device ys path | Some d \<Rightarrow> Some d)"
  by (induction xs path rule: find_device.induct) auto

lemma find_device_None: "find_device xs path = None \<longleftrightarrow> path \<notin> node_name ` set xs"
  by (induction xs path rule: find_device.induct) auto

lemma bind_DoneE:
  assumes "outcome_bind m f = Done y"
  obtains x where "m = Done x" "f x = Done y"
  using assms by (cases m) auto

lemma new_object_Done: "new_object sz s = Done s' \<Longrightarrow> ds_manager s' = ds_manager s \<and> ds_floppy s' = ds_floppy s"
  by (auto simp: new_object_def elim!: bind_DoneE split: if_splits)

lemma new_FloppyDrive_Done:
  "new_FloppyDrive idx ty iob p = Done (dr, p') \<Longrightarrow>
     drive_type dr = ty \<and> controller_base dr = iob \<and> cached_cyl_index dr = - 1 \<and>
     cyl_cache_physical dr = kernel_virtual_to_physical (cyl_cache dr)"
  by (auto simp: new_FloppyDrive_def elim!: bind_DoneE)

definition drive_of_type :: "u8 \<Rightarrow> FloppyDrive \<Rightarrow> bool" where
  "drive_of_type ty dr \<longleftrightarrow> drive_type dr = ty \<and> controller_base dr = 0x03F0 \<and> cached_cyl_index dr = - 1 \<and>
     cyl_cache_physical dr = kernel_virtual_to_physical (cyl_cache dr)"

lemma new_drive_Done:
  assumes "new_drive idx ty s = Done (dr, s')"
  shows "drive_of_type ty dr \<and> ds_manager s' = ds_manager s \<and> ds_floppy s' = ds_floppy s"
proof -
  obtain s1 p where "new_object 28 s = Done s1" "new_FloppyDrive idx ty 0x03F0 (pages (ds_heap s1)) = Done (dr, p)"
    "s' = s1\<lparr>ds_heap := (ds_heap s1)\<lparr>pages := p\<rparr>\<rparr>"
    using assms by (auto simp: new_drive_def elim!: bind_DoneE)
  then show ?thesis using new_object_Done [of 28 s s1] new_FloppyDrive_Done by (auto simp: drive_of_type_def)
qed

lemma register_device_Done:
  "register_device dev name s = Done s' \<Longrightarrow>
     devices (ds_manager s') = devices (ds_manager s) @ [\<lparr>node_name = name, node_driver = dev\<rparr>] \<and>
     ds_floppy s' = ds_floppy s"
  by (auto simp: register_device_def add_device_def Let_def elim!: bind_DoneE)

definition probed_devices :: "u8 \<Rightarrow> FloppyDrive \<Rightarrow> driver_tree_node list" where
  "probed_devices v dr =
     (if v = 0 then [] else [\<lparr>node_name = ''/floppy'', node_driver = FloppyController 0x03F0\<rparr>]) @
     (if drop_bit 4 v = 0 then [] else [\<lparr>node_name = ''/floppy/0'', node_driver = FloppyDriveDevice dr\<rparr>])"

lemma floppy_probe_devices:
  assumes "read_drive_types hw s = (v, s1)" and "floppy_probe hw s = Done s'"
  shows "\<exists>dr. devices (ds_manager s') = devices (ds_manager s) @ probed_devices v dr \<and>
      ds_floppy s' = ds_floppy s1 \<and> drive_of_type (drop_bit 4 v) dr"
proof -
  have m1: "ds_manager s1 = ds_manager s" using assms(1) by (auto simp: read_drive_types_def split: prod.splits)
  show ?thesis
  proof (cases "v = 0")
    case True
    have "\<exists>dr. drive_of_type 0 dr"
      by (intro exI [of _ "\<lparr>drive_idx = 0, drive_type = 0, controller_base = 0x03F0, cyl_cache = 0,
        cyl_cache_physical = kernel_virtual_to_physical 0, cached_cyl_index = - 1\<rparr>"]) (simp add: drive_of_type_def)
    then show ?thesis using assms(1,2) True m1 by (auto simp: floppy_probe_def probed_devices_def)
  next
    case False
    let ?t = "drop_bit 4 v"
    obtain s2 s3 s5 where a: "new_object 8 s1 = Done s2" "register_device (FloppyController 0x03F0) ''/floppy'' s2 = Done s3"
      and b: "(if ?t \<noteq> 0 then outcome_bind (new_drive 0 ?t s3) (\<lambda>(dr, s4).
                 register_device (FloppyDriveDevice dr) ''/floppy/0'' (s4\<lparr>ds_floppy0 := Some dr\<rparr>))
             else Done s3) = Done s5"
      and c: "(if v AND 0xF \<noteq> 0 then outcome_bind (new_drive 1 (v AND 0xF) s5) (\<lambda>(dr, s6). Done s6) else Done s5) = Done s'"
      using assms(1,2) False by (auto simp: floppy_probe_def Let_def elim!: bind_DoneE)
    have s3: "devices (ds_manager s3) = devices (ds_manager s) @ [\<lparr>node_name = ''/floppy'', node_driver = FloppyController 0x03F0\<rparr>]"
      "ds_floppy s3 = ds_floppy s1"
      using new_object_Done [OF a(1)] register_device_Done [OF a(2)] m1 by simp_all
    have s': "ds_manager s' = ds_manager s5 \<and> ds_floppy s' = ds_floppy s5"
      using c new_drive_Done [of 1 "v AND 0xF" s5] by (auto elim!: bind_DoneE split: if_splits)
    show ?thesis
    proof (cases "?t = 0")
      case True
      have "drive_of_type 0 \<lparr>drive_idx = 0, drive_type = 0, controller_base = 0x03F0, cyl_cache = 0,
        cyl_cache_physical = kernel_virtual_to_physical 0, cached_cyl_index = - 1\<rparr>" by (simp add: drive_of_type_def)
      then show ?thesis using b s3 s' True \<open>v \<noteq> 0\<close> by (auto simp: probed_devices_def)
    next
      case t: False
      obtain dr s4 where d: "new_drive 0 ?t s3 = Done (dr, s4)"
        "register_device (FloppyDriveDevice dr) ''/floppy/0'' (s4\<lparr>ds_floppy0 := Some dr\<rparr>) = Done s5"
        using b t by (auto elim!: bind_DoneE)
      then show ?thesis
        using new_drive_Done [OF d(1)] register_device_Done [OF d(2)] s3 s' t \<open>v \<noteq> 0\<close>
        by (auto simp: probed_devices_def)
    qed
  qed
qed

text \<open>C30: The probe reads the drive types from the CMOS and registers the controller when there is a drive,
  and the first drive with its type and an empty cylinder cache. The kernel's lookup finds that
  drive, and is undefined when there is none; a second drive is created but never registered.\<close>

theorem floppy_probe_registers:
  assumes "read_drive_types hw s = (v, s1)" and "floppy_probe hw s = Done s'"
    and "\<forall>node \<in> set (devices (ds_manager s)). node_name node \<noteq> ''/floppy/0''"
  shows "\<exists>dr. devices (ds_manager s') = devices (ds_manager s) @ probed_devices v dr \<and>
     ds_floppy s' = ds_floppy s1 \<and> drive_of_type (drop_bit 4 v) dr \<and>
     as_block_device (device_get ''/floppy/0'' (ds_manager s')) =
       (if drop_bit 4 v = 0 then Fault UndefinedBehaviour else Done dr)"
proof -
  obtain dr where dr: "devices (ds_manager s') = devices (ds_manager s) @ probed_devices v dr"
    "ds_floppy s' = ds_floppy s1" "drive_of_type (drop_bit 4 v) dr"
    using floppy_probe_devices [OF assms(1,2)] by blast
  have "find_device (devices (ds_manager s)) ''/floppy/0'' = None"
    using assms(3) by (auto simp: find_device_None)
  then have "as_block_device (device_get ''/floppy/0'' (ds_manager s')) =
      (if drop_bit 4 v = 0 then Fault UndefinedBehaviour else Done dr)"
    by (simp add: device_get_def dr(1) find_device_append probed_devices_def as_block_device_def)
  then show ?thesis using dr by blast
qed

subsection \<open>Registration order\<close>

fun reg_all :: "('s \<Rightarrow> 's outcome) list \<Rightarrow> 's probe_table \<Rightarrow> 's probe_table outcome" where
  "reg_all [] t = Done t"
| "reg_all (f # fs) t = outcome_bind (reg_probe f t) (reg_all fs)"

fun run_all :: "('s \<Rightarrow> 's outcome) list \<Rightarrow> 's \<Rightarrow> 's outcome" where
  "run_all [] s = Done s"
| "run_all (f # fs) s = outcome_bind (f s) (run_all fs)"

definition registered :: "('s \<Rightarrow> 's outcome) list \<Rightarrow> 's probe_table \<Rightarrow> bool" where
  "registered fs t \<longleftrightarrow> length (s_probe_funcs t) = 16 \<and> s_probe_func_count t = length fs \<and> length fs \<le> 16 \<and>
     take (length fs) (s_probe_funcs t) = map Some fs"

lemma no_probes_registered: "registered [] no_probes"
  by (simp add: registered_def no_probes_def)

lemma registered_step:
  "registered fs t \<Longrightarrow> reg_probe f t = (if length fs < 16 then Done (t\<lparr>s_probe_funcs := (s_probe_funcs t)[length fs := Some f],
      s_probe_func_count := length fs + 1\<rparr>) else Fault OutOfBounds)"
  by (simp add: registered_def reg_probe_def)

lemma registered_next:
  "registered fs t \<Longrightarrow> length fs < 16 \<Longrightarrow>
     registered (fs @ [f]) (t\<lparr>s_probe_funcs := (s_probe_funcs t)[length fs := Some f], s_probe_func_count := length fs + 1\<rparr>)"
  by (simp add: registered_def take_Suc_conv_app_nth)

lemma reg_all_registered:
  "registered gs t \<Longrightarrow> if length gs + length fs \<le> 16 then \<exists>t'. reg_all fs t = Done t' \<and> registered (gs @ fs) t'
     else reg_all fs t = Fault OutOfBounds"
proof (induction fs arbitrary: gs t)
  case (Cons f fs)
  show ?case
  proof (cases "length gs < 16")
    case True
    then show ?thesis
      using Cons.IH [OF registered_next [OF Cons.prems True, of f]]
      by (simp add: registered_step [OF Cons.prems] split: if_splits)
  next
    case False
    then show ?thesis by (simp add: registered_step [OF Cons.prems])
  qed
next
  case Nil
  then show ?case by (simp add: registered_def)
qed

lemma probe_loop_run:
  "i + n \<le> length fs \<Longrightarrow> take n (drop i fs) = map Some gs \<Longrightarrow> probe_loop fs i n s = run_all gs s"
proof (induction fs i n s arbitrary: gs rule: probe_loop.induct)
  case (2 fs i n s)
  have d: "drop i fs = fs ! i # drop (Suc i) fs" using "2.prems"(1) by (simp add: Cons_nth_drop_Suc)
  then obtain g gs' where g: "gs = g # gs'" "fs ! i = Some g" "take n (drop (Suc i) fs) = map Some gs'"
    using "2.prems"(2) by (cases gs) auto
  show ?case
  proof (cases "g s")
    case (Done s')
    have "probe_loop fs (Suc i) n s' = run_all gs' s'" using "2.IH" "2.prems"(1) g(3) by simp
    then show ?thesis using Done "2.prems"(1) g by (simp add: call_probe_def)
  qed (use g "2.prems"(1) in \<open>simp_all add: call_probe_def\<close>)
qed simp

text \<open>Up to 16 drivers can register a probe, and \<^verbatim>\<open>probe_all\<close> runs them in the order of registration,
  each on the devices the ones before it added. A 17th registration writes behind the table.\<close>

theorem probes_run_in_order:
  "if length fs \<le> 16 then \<exists>t. reg_all fs no_probes = Done t \<and> (\<forall>s. probe_all t s = run_all fs s)
   else reg_all fs no_probes = Fault OutOfBounds"
proof -
  have r: "if length fs \<le> 16 then \<exists>t. reg_all fs no_probes = Done t \<and> registered fs t
      else reg_all fs no_probes = Fault OutOfBounds"
    using reg_all_registered [OF no_probes_registered, of fs] by (simp split: if_splits)
  have "probe_all t s = run_all fs s" if "registered fs t" for t s
    using that probe_loop_run [of 0 "length fs" "s_probe_funcs t" fs s] by (simp add: probe_all_def registered_def)
  then show ?thesis using r by (auto split: if_splits)
qed

text \<open>The static destructors: registered functions run in reverse order, and the 33rd is refused.\<close>

definition no_exit_objects :: exit_table where
  "no_exit_objects = \<lparr>exit_objects = replicate 32 \<lparr>eo_f = 0, eo_p = 0, eo_d = 0\<rparr>, iObject = 0\<rparr>"

fun atexit_all :: "exit_object list \<Rightarrow> exit_table \<Rightarrow> int list \<times> exit_table" where
  "atexit_all [] t = ([], t)"
| "atexit_all (x # xs) t =
     (case cxa_atexit (eo_f x) (eo_p x) (eo_d x) t of (r, t') \<Rightarrow>
        case atexit_all xs t' of (rs, t'') \<Rightarrow> (r # rs, t''))"

fun run_destructors :: "(u32 \<Rightarrow> u32 \<Rightarrow> 's \<Rightarrow> 's outcome) \<Rightarrow> exit_object list \<Rightarrow> 's \<Rightarrow> 's outcome" where
  "run_destructors call [] s = Done s"
| "run_destructors call (x # xs) s = outcome_bind (call (eo_f x) (eo_p x) s) (run_destructors call xs)"

definition holds_objects :: "exit_object list \<Rightarrow> exit_table \<Rightarrow> bool" where
  "holds_objects xs t \<longleftrightarrow> length (exit_objects t) = 32 \<and> iObject t = length xs \<and> length xs \<le> 32 \<and>
     take (length xs) (exit_objects t) = xs"

lemma atexit_all_holds:
  "holds_objects ys t \<Longrightarrow> \<exists>t'. atexit_all xs t =
     (replicate (min (length xs) (32 - length ys)) 0 @ replicate (length xs - (32 - length ys)) (- 1), t') \<and>
     holds_objects (ys @ take (32 - length ys) xs) t'"
proof (induction xs arbitrary: ys t)
  case (Cons x xs)
  show ?case
  proof (cases "length ys < 32")
    case True
    let ?t = "t\<lparr>exit_objects := (exit_objects t)[iObject t := x], iObject := iObject t + 1\<rparr>"
    have "holds_objects (ys @ [x]) ?t"
      using Cons.prems True by (simp add: holds_objects_def take_Suc_conv_app_nth)
    moreover have "cxa_atexit (eo_f x) (eo_p x) (eo_d x) t = (0, ?t)"
      using Cons.prems True by (cases x) (simp add: cxa_atexit_def holds_objects_def)
    moreover have "32 - length ys = Suc (32 - length (ys @ [x]))" using True by simp
    ultimately show ?thesis using Cons.IH [of "ys @ [x]" ?t] by auto
  next
    case False
    then have "cxa_atexit (eo_f x) (eo_p x) (eo_d x) t = (- 1, t)"
      using Cons.prems by (simp add: cxa_atexit_def holds_objects_def)
    then show ?thesis using Cons.IH [OF Cons.prems] False by auto
  qed
qed simp

lemma finalize_loop_reverse:
  "holds_objects xs t \<Longrightarrow> \<exists>t'. iObject t' = 0 \<and> finalize_loop call (length xs) (t, s) =
     outcome_bind (run_destructors call (rev xs) s) (\<lambda>s'. Done (t', s'))"
proof (induction xs arbitrary: t s rule: rev_induct)
  case (snoc x xs)
  let ?t = "t\<lparr>iObject := length xs\<rparr>"
  have t: "iObject t = Suc (length xs)" "exit_objects t ! length xs = x"
    "take (Suc (length xs)) (exit_objects t) = xs @ [x]" "length (exit_objects t) = 32" "length xs < 32"
    using snoc.prems by (auto simp: holds_objects_def) (metis lessI nth_append_length nth_take)
  have "take (length xs) (exit_objects t) = xs"
    using arg_cong [OF t(3), of "take (length xs)"] by simp
  then have "holds_objects xs ?t" using t by (simp add: holds_objects_def)
  show ?case
  proof (cases "call (eo_f x) (eo_p x) s")
    case (Done s1)
    then show ?thesis using snoc.IH [OF \<open>holds_objects xs ?t\<close>, of s1] t by (simp add: Let_def)
  qed (use t in \<open>auto simp: Let_def intro: exI [of _ ?t] exI [of _ "t\<lparr>iObject := 0\<rparr>"]\<close>)
qed (simp add: holds_objects_def)

theorem destructors_run_in_reverse:
  "\<exists>t t'. atexit_all xs no_exit_objects = (replicate (min (length xs) 32) 0 @ replicate (length xs - 32) (- 1), t) \<and>
     iObject t' = 0 \<and>
     cxa_finalize call (t, s) = outcome_bind (run_destructors call (rev (take 32 xs)) s) (\<lambda>s'. Done (t', s'))"
proof -
  have "holds_objects [] no_exit_objects" by (simp add: holds_objects_def no_exit_objects_def)
  then obtain t where t: "atexit_all xs no_exit_objects = (replicate (min (length xs) 32) 0 @ replicate (length xs - 32) (- 1), t)"
    "holds_objects (take 32 xs) t"
    using atexit_all_holds [of "[]" no_exit_objects xs] by auto
  have "iObject t = length (take 32 xs)" using t(2) unfolding holds_objects_def by blast
  then show ?thesis using t(1) finalize_loop_reverse [OF t(2), of call s] by (auto simp: cxa_finalize_def)
qed

subsection \<open>A probe that finds a drive\<close>

lemma chain_objects_first:
  "fst (chain_objects g c n nxt objs) = (if n = 0 then nxt else slot g c 0)"
  by (induction n arbitrary: nxt objs) auto

lemma first_allocation:
  assumes "palloc (word_of_nat (page_count g)) (pages h) = Done (a, ps)" and "a \<noteq> 0" and "a + 12 \<noteq> 0" and "object_count g \<noteq> 0"
    and "group_first h g = 0"
  shows "\<exists>h'. group_alloc palloc g h = Done (a + 20, h') \<and> pages h' = ps \<and>
     (\<forall>k. k \<noteq> g \<longrightarrow> group_first h' k = group_first h k)"
proof -
  let ?h = "h\<lparr>pages := ps\<rparr>"
  have ff: "first_free (chunks (chunk_construct g a ?h) a) = a + 12"
    using chain_objects_first [of g a "object_count g" 0 "init_objects g a (object_count g) (objects ?h)"] assms(4)
    by (simp add: chunk_construct_def case_prod_beta slot_def)
  then obtain h2 where h2: "chunk_alloc g a (chunk_construct g a ?h) = Done (a + 20, h2)"
    "pages h2 = ps" "groups h2 = groups h"
    using assms(3) by (simp add: chunk_alloc_def object_alloc_def chunk_construct_def case_prod_beta)
  then show ?thesis
    using assms(1,2,5)
    by (auto simp: group_alloc_def alloc_from_new_def set_first_chunk_def chunk_chain_def group_first_def Let_def)
qed

definition probe_physical :: physical where
  "probe_physical = \<lparr>pools = (\<lambda>pid. case pid of
       DMAPool \<Rightarrow> \<lparr>base = 0, num_pageframes = 32, prev_idx = 1, bitmap_addr = 0, bitmap = 1 # replicate 31 0\<rparr>
     | DefaultPool \<Rightarrow> \<lparr>base = 0x20000, num_pageframes = 2, prev_idx = 0, bitmap_addr = 16, bitmap = [0, 0]\<rparr>
     | HiMemPool \<Rightarrow> \<lparr>base = 0x22000, num_pageframes = 0, prev_idx = 0, bitmap_addr = 24, bitmap = []\<rparr>),
     plog = []\<rparr>"

definition cmos_hardware :: "u8 \<Rightarrow> fdc floppy_hardware" where
  "cmos_hardware v = (let hw = disk_hardware zero_image in
     hw\<lparr>inportb := (\<lambda>p d. if p = 0x71 then (v, d) else inportb hw p d)\<rparr>)"

definition probe_start :: "fdc device_state" where
  "probe_start = \<lparr>ds_heap = heap_start probe_physical, ds_floppy = sample_fdc,
     ds_manager = \<lparr>devices = [], dm_console = []\<rparr>, ds_floppy0 = None\<rparr>"

lemma probe_page_1:
  "\<exists>p'. mm_alloc_pages 1 1 probe_physical = Done (0xC0020000, p') \<and>
     pools p' DMAPool = pools probe_physical DMAPool \<and>
     pools p' DefaultPool = \<lparr>base = 0x20000, num_pageframes = 2, prev_idx = 1, bitmap_addr = 16, bitmap = [1, 0]\<rparr>"
proof -
  have "pool_try 1 1 (pools probe_physical DefaultPool) =
      Done (Some (0x20000, \<lparr>base = 0x20000, num_pageframes = 2, prev_idx = 1, bitmap_addr = 16, bitmap = [1, 0]\<rparr>))"
    unfolding pool_try_def
    by (subst scan.simps) (simp add: probe_physical_def status_def take_run_def set_status_def address_of_def
      PAGE_SIZE_def align_index.simps)
  then show ?thesis
    by (simp add: mm_alloc_pages_def physical_alloc_def log_if_zero_def pool_alloc_some set_pool_def
      kernel_physical_to_virtual_def KERNEL_VIRTUAL_BASE_def)
qed

lemma probe_page_2:
  assumes "pools p DMAPool = pools probe_physical DMAPool"
    and "pools p DefaultPool = \<lparr>base = 0x20000, num_pageframes = 2, prev_idx = 1, bitmap_addr = 16, bitmap = [1, 0]\<rparr>"
  shows "\<exists>p'. mm_alloc_pages 1 1 p = Done (0xC0021000, p') \<and> pools p' DMAPool = pools probe_physical DMAPool"
proof -
  obtain q where "pool_try 1 1 (pools p DefaultPool) = Done (Some (0x21000, q))"
    unfolding pool_try_def assms(2)
    by (subst (asm) scan.simps) (simp add: status_def take_run_def set_status_def address_of_def PAGE_SIZE_def align_index.simps)
  then show ?thesis
    using assms(1) by (simp add: mm_alloc_pages_def physical_alloc_def log_if_zero_def pool_alloc_some set_pool_def
      kernel_physical_to_virtual_def KERNEL_VIRTUAL_BASE_def)
qed

lemma probe_dma:
  assumes "pools p DMAPool = pools probe_physical DMAPool"
  shows "\<exists>p'. mm_alloc_pages_dma 5 16 p = Done (0xC0010000, p')"
proof -
  have "pools probe_physical DMAPool = pools sample_dma_physical DMAPool"
    by (simp add: probe_physical_def sample_dma_physical_def)
  moreover obtain p' where "physical_alloc_dma 5 16 sample_dma_physical = Done (0x10000, p')"
    using sample_dma_alloc by blast
  then have "\<exists>q. pool_try 5 16 (pools sample_dma_physical DMAPool) = Done (Some (0x10000, q))"
    by (subst (asm) physical_alloc_dma_def, subst (asm) pool_alloc.simps)
      (auto simp: log_if_zero_def elim!: bind_DoneE split: option.splits if_splits)
  ultimately obtain q where "pool_try 5 16 (pools p DMAPool) = Done (Some (0x10000, q))" using assms by auto
  then show ?thesis
    by (simp add: mm_alloc_pages_dma_def physical_alloc_dma_def log_if_zero_def pool_alloc_some
      kernel_physical_to_virtual_def KERNEL_VIRTUAL_BASE_def)
qed

lemma probe_groups:
  "find_chunk_group 8 = Some 0" "find_chunk_group 28 = Some 2" "page_count 0 = 1" "page_count 2 = 1"
  "object_count 0 \<noteq> 0" "object_count 2 \<noteq> 0"
  by (simp_all add: find_chunk_group_def group_params_def page_count_def object_count_def overhead_size_def
    sizeof_object_def obj_size_def)

lemma heap_start_group: "k < 17 \<Longrightarrow> group_first (heap_start p) k = 0"
  by (simp add: heap_start_def group_first_def heap_chunk_group_new_def)

lemma probe_run: "\<exists>s'. floppy_probe (cmos_hardware 0x40) probe_start = Done s'"
proof -
  obtain p1 where p1: "mm_alloc_pages 1 1 probe_physical = Done (0xC0020000, p1)"
    "pools p1 DMAPool = pools probe_physical DMAPool"
    "pools p1 DefaultPool = \<lparr>base = 0x20000, num_pageframes = 2, prev_idx = 1, bitmap_addr = 16, bitmap = [1, 0]\<rparr>"
    using probe_page_1 by blast
  obtain p2 where p2: "mm_alloc_pages 1 1 p1 = Done (0xC0021000, p2)" "pools p2 DMAPool = pools probe_physical DMAPool"
    using probe_page_2 [OF p1(2,3)] by blast
  obtain p3 where p3: "mm_alloc_pages_dma 5 16 p2 = Done (0xC0010000, p3)" using probe_dma [OF p2(2)] by blast
  let ?al = "\<lambda>n. mm_alloc_pages n 1"
  have start: "pages (heap_start probe_physical) = probe_physical" by (simp add: heap_start_def)
  obtain h1 where h1: "group_alloc ?al 0 (heap_start probe_physical) = Done (0xC0020014, h1)" "pages h1 = p1"
    "\<forall>k. k \<noteq> 0 \<longrightarrow> group_first h1 k = group_first (heap_start probe_physical) k"
    using first_allocation [of ?al 0 "heap_start probe_physical" "0xC0020000" p1] p1(1) probe_groups start
    by (auto simp: heap_start_group)
  have "group_first h1 2 = 0" using h1(3) by (simp add: heap_start_group)
  then obtain h2 where h2: "group_alloc ?al 2 h1 = Done (0xC0021014, h2)" "pages h2 = p2"
    using first_allocation [of ?al 2 h1 "0xC0021000" p2] p2(1) h1(2) probe_groups by auto
  have n1: "new_object 8 s = Done (s\<lparr>ds_heap := h1\<rparr>)" if "ds_heap s = heap_start probe_physical" for s :: "fdc device_state"
    using that h1(1) probe_groups by (simp add: new_object_def operator_new_def heap_alloc_def)
  have n2: "new_object 28 s = Done (s\<lparr>ds_heap := h2\<rparr>)" if "ds_heap s = h1" for s :: "fdc device_state"
    using that h2(1) probe_groups by (simp add: new_object_def operator_new_def heap_alloc_def)
  have c: "calc_required_page_count (cyl_size 4) = 5"
    by (simp add: calc_required_page_count_def PAGE_SIZE_def cyl_size_def sectors_per_cyl_def floppy_block_size_def
      FloppyDrive1_44M_def FloppyDrive1_2M_def)
  have r: "\<exists>f. read_drive_types (cmos_hardware 0x40) probe_start = (0x40, probe_start\<lparr>ds_floppy := f\<rparr>)"
    by (intro exI [of _ "floppy_out (cmos_hardware 0x40) 0x70 0x10 (ds_floppy probe_start)"])
      (simp add: read_drive_types_def floppy_in_def floppy_out_def cmos_hardware_def Let_def)
  have d: "drop_bit 4 (0x40 :: u8) = 4" "(0x40 :: u8) AND 0xF = 0" by simp_all
  have "ds_heap probe_start = heap_start probe_physical" by (simp add: probe_start_def)
  then show ?thesis
    using r by (auto simp: floppy_probe_def d n1 n2 Let_def register_device_def add_device_def new_drive_def
      new_FloppyDrive_def h2(2) c p3 floppy_description_def FloppyDriveTypeNames_def)
qed

theorem floppy_probe_registers_witness:
  "\<exists>s' dr. floppy_probe (cmos_hardware 0x40) probe_start = Done s' \<and> drive_type dr = FloppyDrive1_44M \<and>
     as_block_device (device_get ''/floppy/0'' (ds_manager s')) = Done dr"
proof -
  obtain s' where s': "floppy_probe (cmos_hardware 0x40) probe_start = Done s'" using probe_run by blast
  obtain s1 where r: "read_drive_types (cmos_hardware 0x40) probe_start = (0x40, s1)"
    by (simp add: read_drive_types_def floppy_in_def floppy_out_def cmos_hardware_def Let_def)
  have "\<forall>node \<in> set (devices (ds_manager probe_start)). node_name node \<noteq> ''/floppy/0''"
    by (simp add: probe_start_def)
  from floppy_probe_registers [OF r s' this] show ?thesis
    using s' by (auto simp: drive_of_type_def FloppyDrive1_44M_def)
qed

text \<open>A drive of any other type is registered as well, but has no sectors per cylinder: reading a block
  of it divides by zero.\<close>

lemma other_drive_divides_by_zero:
  "drive_type dr \<noteq> FloppyDrive1_2M \<Longrightarrow> drive_type dr \<noteq> FloppyDrive1_44M \<Longrightarrow> count \<noteq> 0 \<Longrightarrow>
     floppy_read hw first_block count buf (dr, s) = Fault DivideError"
  using unat_gt_0 [of count]
  by (cases "unat count") (auto simp: floppy_read_def floppy_read_block_def sectors_per_cyl_def Let_def)

end
