(* ===== verification/Interrupts.thy ===== *)
theory Interrupts
  imports Paging Ports
begin

text \<open>
  Segmentation and interrupt dispatch: \<^verbatim>\<open>src/gdt.cpp\<close>, \<^verbatim>\<open>src/idt.cpp\<close>, \<^verbatim>\<open>src/isr.cpp\<close>, \<^verbatim>\<open>src/irq.cpp\<close> and
  \<^verbatim>\<open>struct cpu_state\<close> of \<^verbatim>\<open>src/system.h\<close>. Stub addresses are parameters (the stubs are assembly). An IRQ
  handler is a function pointer; what the function at an address does to the system is the parameter
  \<open>call\<close>, so that the dispatcher works with any set of handlers. Saved processor states live in memory
  and are handed on by address, as in the code.
\<close>

subsection \<open>Saved processor states\<close>

record cpu_state =
  r_gs :: u32
  r_fs :: u32
  r_es :: u32
  r_ds :: u32
  r_edi :: u32
  r_esi :: u32
  r_ebp :: u32
  r_esp :: u32
  r_ebx :: u32
  r_edx :: u32
  r_ecx :: u32
  r_eax :: u32
  int_no :: u32
  err_code :: u32
  r_eip :: u32
  r_cs :: u32
  r_eflags :: u32
  r_useresp :: u32
  r_ss :: u32

definition cpu_state_at :: "memory \<Rightarrow> u32 \<Rightarrow> cpu_state" where
  "cpu_state_at m a = \<lparr>
     r_gs = read_u32 m a, r_fs = read_u32 m (a + 4), r_es = read_u32 m (a + 8), r_ds = read_u32 m (a + 12),
     r_edi = read_u32 m (a + 16), r_esi = read_u32 m (a + 20), r_ebp = read_u32 m (a + 24),
     r_esp = read_u32 m (a + 28), r_ebx = read_u32 m (a + 32), r_edx = read_u32 m (a + 36),
     r_ecx = read_u32 m (a + 40), r_eax = read_u32 m (a + 44), int_no = read_u32 m (a + 48),
     err_code = read_u32 m (a + 52), r_eip = read_u32 m (a + 56), r_cs = read_u32 m (a + 60),
      r_eflags = read_u32 m (a + 64), r_useresp = read_u32 m (a + 68), r_ss = read_u32 m (a + 72)\<rparr>"

subsection \<open>The global descriptor table\<close>

definition GDT_ACCESS_PRESENT :: u8 where "GDT_ACCESS_PRESENT = 0x80"
definition GDT_ACCESS_RING_0 :: u8 where "GDT_ACCESS_RING_0 = 0x00"
definition GDT_ACCESS_RING_3 :: u8 where "GDT_ACCESS_RING_3 = 0x60"
definition GDT_ACCESS_CODE_SEG :: u8 where "GDT_ACCESS_CODE_SEG = 0x1A"
definition GDT_ACCESS_DATA_SEG :: u8 where "GDT_ACCESS_DATA_SEG = 0x12"
definition GDT_ACCESS_TSS :: u8 where "GDT_ACCESS_TSS = 0x09"
definition GDT_FLAG_GRANULARITY_4K :: u8 where "GDT_FLAG_GRANULARITY_4K = 0x8"
definition GDT_FLAG_32BIT :: u8 where "GDT_FLAG_32BIT = 0x4"

lemmas gdt_flag_defs = GDT_ACCESS_PRESENT_def GDT_ACCESS_RING_0_def GDT_ACCESS_RING_3_def
  GDT_ACCESS_CODE_SEG_def GDT_ACCESS_DATA_SEG_def GDT_ACCESS_TSS_def GDT_FLAG_GRANULARITY_4K_def
  GDT_FLAG_32BIT_def

record gdt_entry =
  limit_low :: u16
  base_low :: u16
  base_middle :: u8
  gdt_access :: u8
  granularity :: u8
  base_high :: u8

definition gdt_entry_of :: "u32 \<Rightarrow> u32 \<Rightarrow> u8 \<Rightarrow> u8 \<Rightarrow> gdt_entry" where
  "gdt_entry_of b lim acc flags = \<lparr>
     limit_low = ucast (lim AND 0xFFFF),
     base_low = ucast (b AND 0xFFFF),
     base_middle = ucast (drop_bit 16 b AND 0xFF),
     gdt_access = acc,
     granularity = ucast (drop_bit 16 lim AND 0x0F) OR push_bit 4 (flags AND 0xF),
     base_high = ucast (drop_bit 24 b AND 0xFF)\<rparr>"

definition gdt_set_entry :: "nat \<Rightarrow> u32 \<Rightarrow> u32 \<Rightarrow> u8 \<Rightarrow> u8 \<Rightarrow> gdt_entry list \<Rightarrow> gdt_entry list outcome" where
  "gdt_set_entry num b lim acc flags table =
     (if num < length table then Done (table[num := gdt_entry_of b lim acc flags]) else Fault OutOfBounds)"

text \<open>The six entries of \<^verbatim>\<open>gdt::init\<close>; \<open>tss_addr\<close> is the address of the static TSS, 128 bytes long.\<close>

definition gdt_init :: "u32 \<Rightarrow> gdt_entry list \<Rightarrow> gdt_entry list outcome" where
  "gdt_init tss_addr table =
     (let k = GDT_FLAG_GRANULARITY_4K OR GDT_FLAG_32BIT in
      outcome_bind (gdt_set_entry 0 0 0 0 0 table) (\<lambda>t.
      outcome_bind (gdt_set_entry 1 0 0xFFFFF (GDT_ACCESS_PRESENT OR GDT_ACCESS_CODE_SEG OR GDT_ACCESS_RING_0) k t) (\<lambda>t.
      outcome_bind (gdt_set_entry 2 0 0xFFFFF (GDT_ACCESS_PRESENT OR GDT_ACCESS_DATA_SEG OR GDT_ACCESS_RING_0) k t) (\<lambda>t.
      outcome_bind (gdt_set_entry 3 0 0xFFFFF (GDT_ACCESS_PRESENT OR GDT_ACCESS_CODE_SEG OR GDT_ACCESS_RING_3) k t) (\<lambda>t.
      outcome_bind (gdt_set_entry 4 0 0xFFFFF (GDT_ACCESS_PRESENT OR GDT_ACCESS_DATA_SEG OR GDT_ACCESS_RING_3) k t) (\<lambda>t.
        gdt_set_entry 5 tss_addr (128 - 1) (GDT_ACCESS_PRESENT OR GDT_ACCESS_TSS OR GDT_ACCESS_RING_3) 0 t))))))"

definition update_tss_esp0 :: "u32 \<Rightarrow> u32 list \<Rightarrow> u32 list" where
  "update_tss_esp0 esp0 tss = tss[1 := esp0]"

subsection \<open>The interrupt descriptor table\<close>

record idt_entry =
  base_lo :: u16
  gate_sel :: u16
  always0 :: u8
  gate_flags :: u8
  base_hi :: u16

definition idt_set_gate :: "u8 \<Rightarrow> u32 \<Rightarrow> u16 \<Rightarrow> u8 \<Rightarrow> idt_entry list \<Rightarrow> idt_entry list" where
  "idt_set_gate num b s f table =
     table[unat num := \<lparr>base_lo = ucast (b AND 0xFFFF), gate_sel = s, always0 = 0, gate_flags = f,
       base_hi = ucast (drop_bit 16 b AND 0xFFFF)\<rparr>]"

text \<open>\<open>set_gates stub first n\<close>: gates for \<open>n\<close> consecutive vectors, as the lists of calls in
  \<^verbatim>\<open>isr::init\<close> and \<^verbatim>\<open>irq::init\<close>; \<open>stub\<close> gives the address of the stub of each vector.\<close>

fun set_gates :: "(nat \<Rightarrow> u32) \<Rightarrow> nat \<Rightarrow> nat \<Rightarrow> idt_entry list \<Rightarrow> idt_entry list" where
  "set_gates stub first 0 table = table"
| "set_gates stub first (Suc n) table =
     set_gates stub (Suc first) n (idt_set_gate (word_of_nat first) (stub first) 0x08 0x8E table)"

definition isr_init :: "(nat \<Rightarrow> u32) \<Rightarrow> idt_entry list \<Rightarrow> idt_entry list" where
  "isr_init stub table = set_gates stub 0 32 table"

definition irq_remap :: "port_write list" where
  "irq_remap = [(0x20, 0x11), (0xA0, 0x11), (0x21, 0x20), (0xA1, 0x28), (0x21, 0x04), (0xA1, 0x02),
     (0x21, 0x01), (0xA1, 0x01), (0xA0, 0x20), (0x20, 0x20)]"

definition irq_init :: "(nat \<Rightarrow> u32) \<Rightarrow> idt_entry list \<Rightarrow> idt_entry list \<times> port_write list" where
  "irq_init stub table = (set_gates stub 32 16 table, irq_remap)"

subsection \<open>Interrupt requests\<close>

record irq_state =
  irq_routines :: "u32 list"
  ram :: memory
  irq_ports :: "port_write list"
  irq_log :: log

definition install_handler :: "nat \<Rightarrow> u32 \<Rightarrow> ('z) irq_state_scheme \<Rightarrow> ('z) irq_state_scheme outcome" where
  "install_handler irq handler s =
     (if irq < length (irq_routines s) then Done (s\<lparr>irq_routines := (irq_routines s)[irq := handler]\<rparr>)
      else Fault OutOfBounds)"

definition uninstall_handler :: "nat \<Rightarrow> ('z) irq_state_scheme \<Rightarrow> ('z) irq_state_scheme outcome" where
  "uninstall_handler irq s = install_handler irq 0 s"

definition frame_int_no :: "u32 \<Rightarrow> ('z) irq_state_scheme \<Rightarrow> u32" where
  "frame_int_no r s = int_no (cpu_state_at (ram s) r)"

definition end_of_interrupt :: "u32 \<Rightarrow> port_write list" where
  "end_of_interrupt no = (if 40 \<le> no then [(0xA0, 0x20)] else []) @ [(0x20, 0x20)]"

definition irq_handler ::
    "(u32 \<Rightarrow> u32 \<Rightarrow> ('z) irq_state_scheme \<Rightarrow> (u32 \<times> ('z) irq_state_scheme) outcome) \<Rightarrow>
     u32 \<Rightarrow> ('z) irq_state_scheme \<Rightarrow> (u32 \<times> ('z) irq_state_scheme) outcome" where
  "irq_handler call r s =
     (let i = frame_int_no r s - 32 in
      if unat i < length (irq_routines s) then
        outcome_bind
          (if irq_routines s ! unat i \<noteq> 0 then call (irq_routines s ! unat i) r s
           else Done (r, s\<lparr>irq_log := irq_log s @ [Debug (''No handler registered for IRQ %x'' @ [CHR ''\<newline>'']) [i]]\<rparr>))
          (\<lambda>(r', s'). Done (r', s'\<lparr>irq_ports := irq_ports s' @ end_of_interrupt (frame_int_no r' s')\<rparr>))
      else Fault OutOfBounds)"

subsection \<open>Exceptions\<close>

definition exception_messages :: "string list" where
  "exception_messages =
     [''Division By Zero'', ''Debug'', ''Non Maskable Interrupt'', ''Breakpoint'', ''Into Detected Overflow'',
      ''Out of Bounds'', ''Invalid Opcode'', ''No Coprocessor'', ''Double Fault'',
      ''Coprocessor Segment Overrun'', ''Bad TSS'', ''Segment Not Present'', ''Stack Fault'',
      ''General Protection Fault'', ''Page Fault'', ''Unknown Interrupt'', ''Coprocessor Fault'',
      ''Alignment Check'', ''Machine Check''] @ replicate 13 ''Reserved''"

definition register_dump :: "cpu_state \<Rightarrow> log" where
  "register_dump r =
     [Debug ([CHR ''\<newline>''] @ ''Register dump:'' @ [CHR ''\<newline>'']) [],
      Debug (''EAX = %x EBX = %x ECX = %x EDX = %x'' @ [CHR ''\<newline>'']) [r_eax r, r_ebx r, r_ecx r, r_edx r],
      Debug (''ESP = %x EBP = %x ESI = %x EDI = %x'' @ [CHR ''\<newline>'']) [r_esp r, r_ebp r, r_esi r, r_edi r],
      Debug (''GS  = %x FS  = %x ES  = %x DS  = %x'' @ [CHR ''\<newline>'']) [r_gs r, r_fs r, r_es r, r_ds r],
      Debug (''EIP = %x CS  = %x EFLAGS = %x SS = %x'' @ [CHR ''\<newline>'']) [r_eip r, r_cs r, r_eflags r, r_ss r],
      Debug (''System Halted!'' @ [CHR ''\<newline>'']) []]"

text \<open>
  The handler either returns to the interrupted code or halts in its endless loop after printing; the
  name of the exception is printed from the message table. \<open>cr2\<close> is the faulting address.
\<close>

datatype 's exception_end = Resumed 's | Halted "string list" log

definition fault_handler :: "cpu_state \<Rightarrow> u32 \<Rightarrow> machine \<times> physical \<Rightarrow> (machine \<times> physical) exception_end outcome" where
  "fault_handler r cr2 s =
     (if int_no r < 32 then
        if int_no r = 14 then
          outcome_bind (paging_handle_fault (err_code r) cr2 s) (\<lambda>(handled, s').
            Done (if handled then Resumed s' else Halted [] (register_dump r)))
        else Done (Halted [exception_messages ! unat (int_no r)]
          ([Debug ''EXCEPTION!'' [], Debug ('' (%x) (err_code = %x)'' @ [CHR ''\<newline>'']) [int_no r, err_code r]] @
           register_dump r))
      else Done (Resumed s))"

subsection \<open>What the processor reads from the tables\<close>

definition segment_base :: "gdt_entry \<Rightarrow> u32" where
  "segment_base e = ucast (base_low e) OR push_bit 16 (ucast (base_middle e)) OR push_bit 24 (ucast (base_high e))"

definition segment_limit :: "gdt_entry \<Rightarrow> u32" where
  "segment_limit e =
     (let l = ucast (limit_low e) OR push_bit 16 (ucast (granularity e AND 0x0F)) in
      if bit (granularity e) 7 then push_bit 12 l OR 0xFFF else l)"

definition segment_ring :: "gdt_entry \<Rightarrow> u8" where
  "segment_ring e = drop_bit 5 (gdt_access e) AND 3"

definition segment_code :: "gdt_entry \<Rightarrow> bool" where
  "segment_code e \<longleftrightarrow> bit (gdt_access e) 4 \<and> bit (gdt_access e) 3"

definition gate_offset :: "idt_entry \<Rightarrow> u32" where
  "gate_offset e = ucast (base_lo e) OR push_bit 16 (ucast (base_hi e))"

lemma segment_base_entry [simp]: "segment_base (gdt_entry_of b lim acc flags) = b"
proof (rule bit_word_eqI)
  fix n assume "n < LENGTH(32)"
  then consider "n < 16" | "16 \<le> n" "n < 24" | "24 \<le> n" "n < 32" by fastforce
  moreover have m: "(0xFFFF :: u32) = mask 16" "(0xFF :: u32) = mask 8" by (simp_all add: mask_eq_exp_minus_1)
  ultimately show "bit (segment_base (gdt_entry_of b lim acc flags)) n = bit b n"
    unfolding segment_base_def gdt_entry_of_def m
    by cases (auto simp: bit_simps dest: bit_imp_le_length)
qed

lemma gate_offset_set: "ucast (ucast (b AND 0xFFFF) :: u16) OR push_bit 16 (ucast (ucast (drop_bit 16 b AND 0xFFFF) :: u16)) = (b :: u32)"
proof (rule bit_word_eqI)
  fix n assume "n < LENGTH(32)"
  then consider "n < 16" | "16 \<le> n" "n < 32" by fastforce
  moreover have m: "(0xFFFF :: u32) = mask 16" by (simp add: mask_eq_exp_minus_1)
  ultimately show "bit (ucast (ucast (b AND 0xFFFF) :: u16) OR push_bit 16 (ucast (ucast (drop_bit 16 b AND 0xFFFF) :: u16)) :: u32) n = bit b n"
    unfolding m by cases (auto simp: bit_simps dest: bit_imp_le_length)
qed

subsection \<open>Properties\<close>

text \<open>A descriptor built by \<^verbatim>\<open>gdt_set_entry\<close> is read back by the processor with the given base and
  access byte; of the limit the low 20 bits are kept, in pages when the granularity flag is set.\<close>

theorem gdt_entry_roundtrip:
  "segment_base (gdt_entry_of b l acc f) = b \<and> gdt_access (gdt_entry_of b l acc f) = acc \<and>
   segment_limit (gdt_entry_of b l acc f) =
     (if bit f 3 then push_bit 12 (take_bit 20 l) OR 0xFFF else take_bit 20 l)"
proof -
  let ?e = "gdt_entry_of b l acc f"
  have m: "(0xFFFF :: u32) = mask 16" "(0xF :: u32) = mask 4" "(0xF :: u8) = mask 4"
    by (simp_all add: mask_eq_exp_minus_1)
  have g: "bit (granularity ?e) 7 = bit f 3"
    by (auto simp: gdt_entry_of_def bit_simps m)
  have "ucast (limit_low ?e) OR push_bit 16 (ucast (granularity ?e AND 0x0F)) = take_bit 20 l"
  proof (rule bit_word_eqI)
    fix n assume "n < LENGTH(32)"
    then consider "n < 16" | "16 \<le> n" "n < 20" | "20 \<le> n" "n < 32" by fastforce
    then show "bit (ucast (limit_low ?e) OR push_bit 16 (ucast (granularity ?e AND 0x0F)) :: u32) n = bit (take_bit 20 l) n"
      unfolding gdt_entry_of_def m by cases (auto simp: bit_simps dest: bit_imp_le_length)
  qed
  then show ?thesis by (simp add: segment_limit_def g) (simp add: gdt_entry_of_def)
qed

lemma segment_limit_entry:
  "segment_limit (gdt_entry_of b l acc f) = (if bit f 3 then push_bit 12 (take_bit 20 l) OR 0xFFF else take_bit 20 l)"
  using gdt_entry_roundtrip by blast

lemma gdt_init_ok:
  assumes "length table = 6"
  shows "\<exists>t. gdt_init tss table = Done t \<and> length t = 6 \<and> gdt_access (t ! 0) = 0 \<and>
     map (\<lambda>e. (segment_base e, segment_limit e, segment_ring e, segment_code e)) (take 4 (tl t)) =
       [(0, 0xFFFFFFFF, 0, True), (0, 0xFFFFFFFF, 0, False), (0, 0xFFFFFFFF, 3, True), (0, 0xFFFFFFFF, 3, False)] \<and>
     segment_base (t ! 5) = tss \<and> segment_limit (t ! 5) = 127"
proof -
  obtain a b c d e f where t: "table = [a, b, c, d, e, f]"
    using assms by (auto simp: length_Suc_conv numeral_eq_Suc)
  have b: "\<not> bit (0 :: u8) 3" "bit (12 :: u8) 3" by simp_all
  show ?thesis
    unfolding t gdt_init_def gdt_set_entry_def
    by (simp add: gdt_flag_defs segment_limit_entry segment_ring_def segment_code_def)
      (simp add: gdt_entry_of_def)
qed

text \<open>\<^verbatim>\<open>gdt::init\<close> sets up the null descriptor, flat 4 GiB code and data segments for ring 0 and for
  ring 3, and the 128 bytes of the task state segment.\<close>

theorem gdt_init_flat_segments:
  assumes "length table = 6"
  shows "\<exists>t. gdt_init tss table = Done t \<and> length t = 6 \<and> gdt_access (t ! 0) = 0 \<and>
     map (\<lambda>e. (segment_base e, segment_limit e, segment_ring e, segment_code e)) (take 4 (tl t)) =
       [(0, 0xFFFFFFFF, 0, True), (0, 0xFFFFFFFF, 0, False), (0, 0xFFFFFFFF, 3, True), (0, 0xFFFFFFFF, 3, False)] \<and>
     segment_base (t ! 5) = tss \<and> segment_limit (t ! 5) = 127"
  by (rule gdt_init_ok [OF assms])

definition present_gate :: "u32 \<Rightarrow> idt_entry \<Rightarrow> bool" where
  "present_gate addr e \<longleftrightarrow> gate_offset e = addr \<and> gate_sel e = 0x08 \<and> always0 e = 0 \<and> gate_flags e = 0x8E"

lemma length_idt_set_gate [simp]: "length (idt_set_gate n b s f table) = length table"
  by (simp add: idt_set_gate_def)

lemma length_set_gates [simp]: "length (set_gates stub first n table) = length table"
  by (induction stub first n table rule: set_gates.induct) auto

lemma present_set_gate:
  "unat v < length table \<Longrightarrow> present_gate b (idt_set_gate v b 0x08 0x8E table ! unat v)"
  by (simp add: present_gate_def idt_set_gate_def gate_offset_def gate_offset_set)

lemma unat_u8_of_nat: "n < 256 \<Longrightarrow> unat (word_of_nat n :: u8) = n"
  by (simp add: unat_of_nat)

lemma set_gates_nth:
  "first + n \<le> 256 \<Longrightarrow> length table = 256 \<Longrightarrow> v < 256 \<Longrightarrow>
     (if first \<le> v \<and> v < first + n then present_gate (stub v) (set_gates stub first n table ! v)
      else set_gates stub first n table ! v = table ! v)"
proof (induction stub first n table rule: set_gates.induct)
  case (2 stub first n table)
  let ?t = "idt_set_gate (word_of_nat first) (stub first) 0x08 0x8E table"
  have u: "unat (word_of_nat first :: u8) = first" using "2.prems" by (intro unat_u8_of_nat) simp
  have t: "present_gate (stub first) (?t ! first)" "w \<noteq> first \<Longrightarrow> ?t ! w = table ! w" for w
    using present_set_gate [of "word_of_nat first" table "stub first"] "2.prems" u
    by (auto simp: idt_set_gate_def)
  have IH: "if Suc first \<le> v \<and> v < Suc first + n then present_gate (stub v) (set_gates stub (Suc first) n ?t ! v)
      else set_gates stub (Suc first) n ?t ! v = ?t ! v"
    using "2.prems" by (intro "2.IH") auto
  then show ?case using t by (cases "v = first") (auto split: if_splits)
qed auto

lemma idt_vectors_ok:
  assumes "length table = 256" and "v < 256"
  shows "(if v < 48 then present_gate (stub v) (fst (irq_init stub (isr_init stub table)) ! v)
      else fst (irq_init stub (isr_init stub table)) ! v = table ! v) \<and>
    (0x21, 32) \<in> set (snd (irq_init stub (isr_init stub table))) \<and>
    (0xA1, 40) \<in> set (snd (irq_init stub (isr_init stub table)))"
proof -
  have a: "if v < 32 then present_gate (stub v) (isr_init stub table ! v) else isr_init stub table ! v = table ! v"
    using set_gates_nth [of 0 32 table v stub] assms by (auto simp: isr_init_def split: if_splits)
  have b: "if 32 \<le> v \<and> v < 48 then present_gate (stub v) (set_gates stub 32 16 (isr_init stub table) ! v)
      else set_gates stub 32 16 (isr_init stub table) ! v = isr_init stub table ! v"
    using set_gates_nth [of 32 16 "isr_init stub table" v stub] assms by (auto simp: isr_init_def split: if_splits)
  then show ?thesis using a by (auto simp: irq_init_def irq_remap_def split: if_splits)
qed

text \<open>After \<^verbatim>\<open>isr::init\<close> and \<^verbatim>\<open>irq::init\<close> the first 48 vectors are present kernel gates to their own
  stubs, and all others are as before; both interrupt controllers have been remapped behind the
  exceptions, IRQ 0 to vector 32 and IRQ 8 to vector 40.\<close>

theorem idt_vectors_installed:
  assumes "length table = 256" and "v < 256"
  shows "(if v < 48 then present_gate (stub v) (fst (irq_init stub (isr_init stub table)) ! v)
      else fst (irq_init stub (isr_init stub table)) ! v = table ! v) \<and>
    (0x21, 32) \<in> set (snd (irq_init stub (isr_init stub table))) \<and>
    (0xA1, 40) \<in> set (snd (irq_init stub (isr_init stub table)))"
  by (rule idt_vectors_ok [OF assms])

definition empty_idt :: "idt_entry list" where
  "empty_idt = replicate 256 \<lparr>base_lo = 0, gate_sel = 0, always0 = 0, gate_flags = 0, base_hi = 0\<rparr>"

theorem idt_vectors_installed_witness:
  "present_gate 0x1234 (fst (irq_init (\<lambda>v. 0x1234) (isr_init (\<lambda>v. 0x1234) empty_idt)) ! 33)"
  using idt_vectors_installed [of empty_idt 33 "\<lambda>v. 0x1234"] by (simp add: empty_idt_def)

definition empty_gdt :: "gdt_entry list" where
  "empty_gdt = replicate 6 \<lparr>limit_low = 0, base_low = 0, base_middle = 0, gdt_access = 0, granularity = 0, base_high = 0\<rparr>"

theorem gdt_init_flat_segments_witness:
  "\<exists>t. gdt_init 0xC0105000 empty_gdt = Done t \<and> segment_base (t ! 5) = 0xC0105000"
  using gdt_init_flat_segments [of empty_gdt "0xC0105000"] by (auto simp: empty_gdt_def)

lemma length_exception_messages: "length exception_messages = 32"
  by (simp add: exception_messages_def)

text \<open>An exception returns to the interrupted code exactly when it is a page fault that the pager
  could handle; every other exception, and every other page fault, halts the machine after the
  register dump.\<close>

theorem exception_resumes_iff:
  assumes "int_no r < 32"
  shows "(fault_handler r cr2 s = Done (Resumed s') \<longleftrightarrow>
      int_no r = 14 \<and> paging_handle_fault (err_code r) cr2 s = Done (True, s')) \<and>
    (int_no r \<noteq> 14 \<longrightarrow> (\<exists>msg pre. fault_handler r cr2 s = Done (Halted [msg] (pre @ register_dump r)) \<and>
      msg \<in> set exception_messages))"
proof -
  have "exception_messages ! unat (int_no r) \<in> set exception_messages"
    using assms by (intro nth_mem) (simp add: word_less_nat_alt length_exception_messages)
  moreover have "fault_handler r cr2 s = (if int_no r = 14 then
      outcome_bind (paging_handle_fault (err_code r) cr2 s) (\<lambda>(handled, s').
        Done (if handled then Resumed s' else Halted [] (register_dump r)))
      else Done (Halted [exception_messages ! unat (int_no r)]
        ([Debug ''EXCEPTION!'' [], Debug ('' (%x) (err_code = %x)'' @ [CHR ''\<newline>'']) [int_no r, err_code r]] @
         register_dump r)))"
    using assms by (simp only: fault_handler_def if_True)
  ultimately show ?thesis
  proof (cases "int_no r = 14")
    case True
    then show ?thesis using \<open>fault_handler r cr2 s = _\<close>
      by (cases "paging_handle_fault (err_code r) cr2 s") (simp_all split: prod.splits if_splits)
  qed simp
qed

definition sample_frame :: "u32 \<Rightarrow> cpu_state" where
  "sample_frame no = (cpu_state_at (\<lambda>a. 0) 0)\<lparr>int_no := no\<rparr>"

theorem exception_resumes_iff_witness:
  "\<exists>msg pre. fault_handler (sample_frame 0) 0 (sample_machine, sample_physical) =
     Done (Halted [msg] (pre @ register_dump (sample_frame 0)))"
proof -
  have "int_no (sample_frame 0) < 32" "int_no (sample_frame 0) \<noteq> 14" by (simp_all add: sample_frame_def)
  then show ?thesis
    using exception_resumes_iff [of "sample_frame 0" 0 "(sample_machine, sample_physical)"] by blast
qed

end
