(* ===== verification/Scheduler.thy ===== *)
theory Scheduler
  imports Interrupts Heap
begin

text \<open>
  The task switcher and the system call that yields: \<^verbatim>\<open>src/scheduler.cpp\<close>, \<^verbatim>\<open>src/syscall.cpp\<close>. The state
  extends that of interrupt dispatch with the task list, the position of the current task (\<open>None\<close> is
  the end iterator) and the task state segment. \<^verbatim>\<open>std::list\<close> is circular in the library the kernel
  uses, so that incrementing the end iterator gives the first element, which is what the code relies
  on for the first switch.
\<close>

record Task =
  kernel_stack :: u32
  task_cpu_state :: u32

record sched_state = irq_state +
  s_task_list :: "Task list"
  s_current_task :: "nat option"
  tss :: "u32 list"

definition write_u32 :: "u32 \<Rightarrow> u32 \<Rightarrow> memory \<Rightarrow> memory" where
  "write_u32 a v m = m(a := ucast v, a + 1 := ucast (drop_bit 8 v), a + 2 := ucast (drop_bit 16 v),
     a + 3 := ucast (drop_bit 24 v))"

definition sizeof_cpu_state :: u32 where "sizeof_cpu_state = 76"

definition save_current :: "u32 \<Rightarrow> ('z) sched_state_scheme \<Rightarrow> Task list" where
  "save_current regs s =
     (case s_current_task s of
        None \<Rightarrow> s_task_list s
      | Some i \<Rightarrow> (s_task_list s)[i := (s_task_list s ! i)\<lparr>task_cpu_state := regs\<rparr>])"

definition next_task :: "('z) sched_state_scheme \<Rightarrow> nat" where
  "next_task s =
     (case s_current_task s of
        None \<Rightarrow> 0
      | Some i \<Rightarrow> if Suc i = length (s_task_list s) then 0 else Suc i)"

definition scheduler_next :: "u32 \<Rightarrow> ('z) sched_state_scheme \<Rightarrow> u32 \<times> ('z) sched_state_scheme" where
  "scheduler_next regs s =
     (if s_task_list s = [] then (regs, s)
      else let tasks = save_current regs s; i = next_task s in
        (task_cpu_state (tasks ! i),
         s\<lparr>s_task_list := tasks, s_current_task := Some i,
           tss := update_tss_esp0 (kernel_stack (tasks ! i)) (tss s)\<rparr>))"

definition scheduler_init :: "u32 \<Rightarrow> ('z) sched_state_scheme \<Rightarrow> ('z) sched_state_scheme outcome" where
  "scheduler_init next_addr s = install_handler 0 next_addr s"

text \<open>
  The frame a new task starts from. \<^verbatim>\<open>memset\<close> gets the size of the pointer, not of the structure.
\<close>

definition init_frame :: "u32 \<Rightarrow> u32 \<Rightarrow> u32 \<Rightarrow> memory \<Rightarrow> memory" where
  "init_frame regs entry user_stack_end m =
     write_u32 (regs + 64) 0x0202
     (write_u32 regs (0x20 OR 0x03) (write_u32 (regs + 4) (0x20 OR 0x03)
     (write_u32 (regs + 8) (0x20 OR 0x03) (write_u32 (regs + 12) (0x20 OR 0x03)
     (write_u32 (regs + 72) (0x20 OR 0x03) (write_u32 (regs + 60) (0x18 OR 0x03)
     (write_u32 (regs + 68) user_stack_end (write_u32 (regs + 28) regs (write_u32 (regs + 56) entry
     (snd (memset regs 0 4 m)))))))))))"

text \<open>
  \<^verbatim>\<open>new_task\<close> takes a page for the kernel stack and a heap object of 8 bytes for the \<^verbatim>\<open>Task\<close>; without
  a page the frame is written into the unmapped page 0, without the object its constructor writes
  through a null pointer.
\<close>

definition new_task ::
    "u32 \<Rightarrow> u32 \<Rightarrow> physical heap \<times> ('z) sched_state_scheme \<Rightarrow> (physical heap \<times> ('z) sched_state_scheme) outcome" where
  "new_task user_stack entry = (\<lambda>(h, s).
     outcome_bind (mm_alloc_pages 1 1 (pages h)) (\<lambda>(stack, p).
       if stack = 0 then Fault OutOfBounds
       else
         let stack_end = stack + 4096; regs = stack_end - sizeof_cpu_state;
             m = init_frame regs entry (user_stack + 4096) (ram s) in
         outcome_bind (operator_new (\<lambda>n. mm_alloc_pages n 1) 8 (h\<lparr>pages := p\<rparr>)) (\<lambda>(task, h').
           if task = 0 then Fault UndefinedBehaviour
           else Done (h', s\<lparr>ram := m,
             s_task_list := s_task_list s @ [\<lparr>kernel_stack = stack_end, task_cpu_state = regs\<rparr>]\<rparr>))))"

definition task_yield :: "u32 \<Rightarrow> ('z) sched_state_scheme \<Rightarrow> u32 \<times> ('z) sched_state_scheme" where
  "task_yield frame s = scheduler_next frame s"

subsection \<open>System calls\<close>

definition Syscall_Yield :: u32 where "Syscall_Yield = 0"

definition syscall_handler :: "u32 \<Rightarrow> ('z) sched_state_scheme \<Rightarrow> u32 \<times> ('z) sched_state_scheme" where
  "syscall_handler frame s =
     (let no = r_eax (cpu_state_at (ram s) frame) in
      if no = Syscall_Yield then task_yield frame s
      else (frame, s\<lparr>irq_log := irq_log s @ [Debug (''syscall(%d)'' @ [CHR ''\<newline>'']) [no]]\<rparr>))"

definition syscall_init :: "u32 \<Rightarrow> ('z) sched_state_scheme \<Rightarrow> ('z) sched_state_scheme outcome" where
  "syscall_init handler_addr s = install_handler 3 handler_addr s"

text \<open>The two handlers of this theory at their addresses; \<^verbatim>\<open>int 0x23\<close> is vector 35, IRQ 3's.\<close>

definition task_handlers ::
    "u32 \<Rightarrow> u32 \<Rightarrow> u32 \<Rightarrow> u32 \<Rightarrow> ('z) sched_state_scheme \<Rightarrow> (u32 \<times> ('z) sched_state_scheme) outcome" where
  "task_handlers next_addr syscall_addr f r s =
     (if f = next_addr then Done (scheduler_next r s)
      else if f = syscall_addr then Done (syscall_handler r s)
      else Fault UndefinedBehaviour)"

subsection \<open>Words in memory\<close>

lemma read_write_u32: "read_u32 (write_u32 a v m) a = v"
proof -
  have "read_u32 (write_u32 a v m) a = ucast (ucast v :: u8) OR push_bit 8 (ucast (ucast (drop_bit 8 v) :: u8))
      OR push_bit 16 (ucast (ucast (drop_bit 16 v) :: u8)) OR push_bit 24 (ucast (ucast (drop_bit 24 v) :: u8))"
    by (simp add: read_u32_def write_u32_def)
  also have "\<dots> = v"
  proof (rule bit_word_eqI)
    fix n assume "n < LENGTH(32)"
    then consider "n < 8" | "8 \<le> n" "n < 16" | "16 \<le> n" "n < 24" | "24 \<le> n" "n < 32" by fastforce
    then show "bit (ucast (ucast v :: u8) OR push_bit 8 (ucast (ucast (drop_bit 8 v) :: u8))
      OR push_bit 16 (ucast (ucast (drop_bit 16 v) :: u8)) OR push_bit 24 (ucast (ucast (drop_bit 24 v) :: u8)) :: u32) n = bit v n"
      by cases (auto simp: bit_simps dest: bit_imp_le_length)
  qed
  finally show ?thesis .
qed

lemma write_u32_other: "4 \<le> unat (b - a) \<Longrightarrow> write_u32 a v m b = m b"
  by (auto simp: write_u32_def)

lemma read_write_u32_other:
  assumes "unat (b - a) \<le> 0xFFFFFFFC" and "4 \<le> unat (b - a)"
  shows "read_u32 (write_u32 a v m) b = read_u32 m b"
proof -
  have "4 \<le> unat (b + k - a)" if "unat k < 4" for k
  proof -
    have "unat (b - a + k) = unat (b - a) + unat k" using assms(1) that by (intro unat_u32_add) simp
    moreover have "b + k - a = b - a + k" by simp
    ultimately show ?thesis using assms(2) by (metis le_add1 le_trans)
  qed
  from this [of 0] this [of 1] this [of 2] this [of 3] show ?thesis
    by (simp add: read_u32_def write_u32_other)
qed

lemma read_write_field:
  "4 \<le> unat (j - i :: u32) \<Longrightarrow> unat (j - i) \<le> 0xFFFFFFFC \<Longrightarrow>
     read_u32 (write_u32 (a + i) v m) (a + j) = read_u32 m (a + j)"
  by (rule read_write_u32_other) simp_all

lemma memset_word: "snd (memset a 0 4 m) = write_u32 a 0 m"
proof -
  have "unat (4 :: u32) = Suc (Suc (Suc (Suc 0)))" by simp
  then have "snd (memset a 0 4 m) = memset_loop (Suc (Suc (Suc (Suc 0)))) a 0 m"
    by (simp only: memset_def snd_conv)
  also have "\<dots> = write_u32 a 0 m" by (simp add: write_u32_def ac_simps)
  finally show ?thesis .
qed

subsection \<open>Properties\<close>

text \<open>The frame a new task starts from: entry point, stacks, ring 3 selectors and flags are set, but
  the general registers, interrupt number and error code are what the stack page held before, because
  only four bytes are cleared.\<close>

theorem new_task_frame:
  "cpu_state_at (init_frame regs entry stack_end m) regs =
     (cpu_state_at m regs)\<lparr>r_gs := 0x23, r_fs := 0x23, r_es := 0x23, r_ds := 0x23, r_esp := regs,
       r_eip := entry, r_cs := 0x1B, r_eflags := 0x0202, r_useresp := stack_end, r_ss := 0x23\<rparr>"
  unfolding init_frame_def cpu_state_at_def memset_word
  by (simp add: read_write_u32 read_write_field read_write_field [of _ 0, simplified]
      read_write_field [of 0, simplified])

text \<open>Which task runs after a tick, and what it was given.\<close>

lemma scheduler_next_running:
  assumes "s_current_task s = Some i" and "i < length (s_task_list s)"
    and "scheduler_next regs s = (r, s')"
  shows "s_task_list s' = (s_task_list s)[i := (s_task_list s ! i)\<lparr>task_cpu_state := regs\<rparr>]"
    and "s_current_task s' = Some (Suc i mod length (s_task_list s))"
    and "r = task_cpu_state (s_task_list s' ! (Suc i mod length (s_task_list s)))"
    and "tss s' = (tss s)[1 := kernel_stack (s_task_list s ! (Suc i mod length (s_task_list s)))]"
proof -
  have n: "s_task_list s \<noteq> []" using assms(2) by auto
  have nx: "next_task s = Suc i mod length (s_task_list s)"
    using assms(1,2) by (auto simp: next_task_def)
  show "s_task_list s' = (s_task_list s)[i := (s_task_list s ! i)\<lparr>task_cpu_state := regs\<rparr>]"
    "s_current_task s' = Some (Suc i mod length (s_task_list s))"
    "r = task_cpu_state (s_task_list s' ! (Suc i mod length (s_task_list s)))"
    using assms(1,3) n nx by (auto simp: scheduler_next_def save_current_def Let_def)
  have "kernel_stack ((s_task_list s)[i := (s_task_list s ! i)\<lparr>task_cpu_state := regs\<rparr>] ! j) = kernel_stack (s_task_list s ! j)"
    if "j < length (s_task_list s)" for j
    using that by (cases "j = i") auto
  then show "tss s' = (tss s)[1 := kernel_stack (s_task_list s ! (Suc i mod length (s_task_list s)))]"
    using assms(1,3) n nx by (auto simp: scheduler_next_def save_current_def Let_def update_tss_esp0_def)
qed

text \<open>A run of timer ticks, the interrupted states given: the resumed states and the final state.\<close>

fun ticks :: "u32 list \<Rightarrow> ('z) sched_state_scheme \<Rightarrow> u32 list \<times> ('z) sched_state_scheme" where
  "ticks [] s = ([], s)"
| "ticks (regs # rs) s =
     (case scheduler_next regs s of (r, s') \<Rightarrow> case ticks rs s' of (out, s'') \<Rightarrow> (r # out, s''))"

lemma ticks_append:
  "ticks (rs @ rs') s = (case ticks rs s of (out, s') \<Rightarrow> case ticks rs' s' of (out', s'') \<Rightarrow> (out @ out', s''))"
  by (induction rs arbitrary: s) (auto split: prod.splits)

lemma ticks_state:
  assumes "s_current_task s = Some i" and "i < length (s_task_list s)" and "length rs \<le> length (s_task_list s)"
    and "ticks rs s = (out, s')"
  shows "s_current_task s' = Some ((i + length rs) mod length (s_task_list s)) \<and>
     length (s_task_list s') = length (s_task_list s) \<and>
     (rs \<noteq> [] \<longrightarrow> task_cpu_state (s_task_list s' ! i) = hd rs \<and>
       last out = task_cpu_state (s_task_list s' ! ((i + length rs) mod length (s_task_list s))))"
  using assms(3,4)
proof (induction rs arbitrary: out s' rule: rev_induct)
  case Nil
  then show ?case using assms(1,2) by simp
next
  case (snoc r rs)
  let ?n = "length (s_task_list s)"
  obtain out1 s1 where t1: "ticks rs s = (out1, s1)" by fastforce
  obtain r' s2 where t2: "scheduler_next r s1 = (r', s2)" by fastforce
  have eq: "s' = s2" "out = out1 @ [r']" using snoc.prems(2) t1 t2 by (auto simp: ticks_append)
  let ?c = "(i + length rs) mod ?n"
  have c: "?c < ?n" using assms(2) by (intro mod_less_divisor) auto
  have IH: "s_current_task s1 = Some ?c" "length (s_task_list s1) = ?n"
    "rs \<noteq> [] \<Longrightarrow> task_cpu_state (s_task_list s1 ! i) = hd rs"
    using snoc.IH [OF _ t1] snoc.prems(1) by auto
  have "?c < length (s_task_list s1)" using c IH(2) by simp
  note nx = scheduler_next_running [OF IH(1) this t2, unfolded IH(2)]
  have idx: "Suc ?c mod ?n = (i + length (rs @ [r])) mod ?n" by (simp add: mod_Suc_eq)
  have "task_cpu_state (s_task_list s2 ! i) = hd (rs @ [r])"
  proof (cases "rs = []")
    case True
    then show ?thesis using nx(1) assms(2) IH(2) by simp
  next
    case False
    have "?c \<noteq> i"
    proof
      assume "?c = i"
      then have "?n dvd length rs" using assms(2) by (metis add_diff_cancel_left' mod_eq_dvd_iff_nat mod_less le_add1)
      then show False using False snoc.prems(1) by (auto dest: dvd_imp_le)
    qed
    then show ?thesis using nx(1) IH(3) False by simp
  qed
  then show ?case using nx(1,2,3) IH(2) unfolding eq idx by simp
qed

text \<open>C21: The scheduler is a round robin that loses no state: with \<open>n\<close> tasks, \<open>n\<close> timer ticks resume
  every task exactly once in turn, and the task that was running is resumed at the last tick with the
  state saved when it was interrupted at the first.\<close>

theorem scheduler_round_robin:
  assumes "s_current_task s = Some i" and "i < length (s_task_list s)"
    and "length rs = length (s_task_list s)" and "ticks rs s = (out, s')"
  shows "last out = hd rs \<and> s_current_task s' = Some i \<and>
    (\<lambda>k. s_current_task (snd (ticks (take k rs) s))) ` {1..length rs} = Some ` {..<length (s_task_list s)}"
proof -
  let ?n = "length (s_task_list s)"
  have ne: "rs \<noteq> []" using assms(2,3) by auto
  have full: "(i + ?n) mod ?n = i" using assms(2) by simp
  have "s_current_task (snd (ticks (take k rs) s)) = Some ((i + k) mod ?n)" if "k \<le> ?n" for k
    using ticks_state [OF assms(1,2), of "take k rs"] that assms(3)
    by (cases "ticks (take k rs) s") (auto simp: min_def)
  then have "(\<lambda>k. s_current_task (snd (ticks (take k rs) s))) ` {1..?n} = (\<lambda>k. Some ((i + k) mod ?n)) ` {1..?n}"
    by (intro image_cong) auto
  also have "\<dots> = Some ` {..<?n}"
  proof -
    have "\<exists>k \<in> {1..?n}. (i + k) mod ?n = j" if "j < ?n" for j
    proof (cases "i < j")
      case True
      then show ?thesis using that by (intro bexI [of _ "j - i"]) auto
    next
      case False
      then show ?thesis using that assms(2) by (intro bexI [of _ "j + ?n - i"]) auto
    qed
    then have "{..<?n} \<subseteq> (\<lambda>k. (i + k) mod ?n) ` {1..?n}" by (metis (no_types, lifting) imageI lessThan_iff subsetI)
    then have "(\<lambda>k. (i + k) mod ?n) ` {1..?n} = {..<?n}"
      using assms(2) by (auto intro!: mod_less_divisor)
    then show ?thesis by (metis (no_types) image_image)
  qed
  finally show ?thesis
    using ticks_state [OF assms(1,2) _ assms(4)] assms(3) ne assms(2) by (simp add: full)
qed

definition two_tasks :: sched_state where
  "two_tasks = \<lparr>irq_routines = replicate 16 0, ram = (\<lambda>a. 0), irq_ports = [], irq_log = [],
     s_task_list = [\<lparr>kernel_stack = 0xC1001000, task_cpu_state = 0xC1000FB4\<rparr>,
                    \<lparr>kernel_stack = 0xC1003000, task_cpu_state = 0xC1002FB4\<rparr>],
     s_current_task = Some 0, tss = replicate 32 0\<rparr>"

theorem scheduler_round_robin_witness:
  "\<exists>out s'. ticks [0xC1000F00, 0xC1002F00] two_tasks = (out, s') \<and> last out = 0xC1000F00"
proof -
  obtain out s' where t: "ticks [0xC1000F00, 0xC1002F00] two_tasks = (out, s')" by fastforce
  then show ?thesis using scheduler_round_robin [OF _ _ _ t, of 0] by (auto simp: two_tasks_def)
qed

text \<open>A yield system call from the running task, through the interrupt path: the task's state is
  saved, the next task is resumed on its own kernel stack, and the interrupt controller is sent an end
  of interrupt although no hardware interrupt is being served; which controllers get one depends on
  the interrupt number in the resumed frame.\<close>

theorem yield_switches_task:
  assumes "s_current_task s = Some i" and "i < length (s_task_list s)" and "length (irq_routines s) = 16"
    and "irq_routines s ! 3 = syscall_addr" and "syscall_addr \<noteq> 0" and "syscall_addr \<noteq> next_addr"
    and "frame_int_no frame s = 0x23" and "r_eax (cpu_state_at (ram s) frame) = Syscall_Yield"
  shows "\<exists>s'. irq_handler (task_handlers next_addr syscall_addr) frame s =
      Done (task_cpu_state (s_task_list s' ! (Suc i mod length (s_task_list s))), s') \<and>
    s_task_list s' = (s_task_list s)[i := (s_task_list s ! i)\<lparr>task_cpu_state := frame\<rparr>] \<and>
    s_current_task s' = Some (Suc i mod length (s_task_list s)) \<and>
    irq_ports s' = irq_ports s @ end_of_interrupt
      (frame_int_no (task_cpu_state (s_task_list s' ! (Suc i mod length (s_task_list s)))) s)"
proof -
  obtain r s1 where n: "scheduler_next frame s = (r, s1)" by fastforce
  note nx = scheduler_next_running [OF assms(1,2) n]
  have keep: "ram s1 = ram s" "irq_ports s1 = irq_ports s"
    using n by (auto simp: scheduler_next_def Let_def split: if_splits)
  have "unat (frame_int_no frame s - 32) = 3" using assms(7) by simp
  then have "irq_handler (task_handlers next_addr syscall_addr) frame s =
      Done (r, s1\<lparr>irq_ports := irq_ports s1 @ end_of_interrupt (frame_int_no r s1)\<rparr>)"
    using assms(3-6,8) n by (simp add: irq_handler_def task_handlers_def syscall_handler_def task_yield_def Let_def)
  then show ?thesis using nx keep
    by (intro exI [of _ "s1\<lparr>irq_ports := irq_ports s1 @ end_of_interrupt (frame_int_no r s1)\<rparr>"])
      (simp add: frame_int_no_def)
qed

text \<open>A yield frame: only the interrupt number, 0x23, is not zero.\<close>

definition yielding_tasks :: sched_state where
  "yielding_tasks = two_tasks\<lparr>irq_routines := (replicate 16 0)[3 := 0xC0100200],
     ram := write_u32 (0xC1000F00 + 48) 0x23 (\<lambda>a. 0)\<rparr>"

theorem yield_switches_task_witness:
  "\<exists>s'. irq_handler (task_handlers 0xC0100100 0xC0100200) 0xC1000F00 yielding_tasks = Done (0xC1002FB4, s') \<and>
     s_current_task s' = Some 1"
proof -
  let ?s = yielding_tasks
  have i: "frame_int_no 0xC1000F00 ?s = 0x23"
    unfolding frame_int_no_def cpu_state_at_def by (simp add: yielding_tasks_def read_write_u32 [of "0xC1000F30", simplified])
  have e: "r_eax (cpu_state_at (ram ?s) 0xC1000F00) = Syscall_Yield"
    using read_write_field [of 44 48 "0xC1000F00" "0x23" "\<lambda>a. 0"]
    by (simp add: yielding_tasks_def cpu_state_at_def Syscall_Yield_def read_u32_def)
  show ?thesis
    using yield_switches_task [of ?s 0 "0xC0100200" "0xC0100100" "0xC1000F00"] i e
    by (auto simp: yielding_tasks_def two_tasks_def)
qed

end
