(* ===== verification/Keyboard.thy ===== *)
theory Keyboard
  imports Interrupts
begin

text \<open>
  The keyboard driver, \<^verbatim>\<open>src/kb.cpp\<close>. Ports are hardware, a parameter over a device state. The driver's
  flags, the device and the messages it prints form its state; a character goes to the console as
  \<open>Print\<close> with the format \<^verbatim>\<open>%c\<close>. The wait for the controller's input buffer may never end.

  The tables are the bytes of the source file (Latin-1); entries the source leaves out are 0.
\<close>

definition SCROLL_LED :: u8 where "SCROLL_LED = 1"
definition NUM_LED :: u8 where "NUM_LED = 2"
definition CAPS_LED :: u8 where "CAPS_LED = 4"

definition kbdus :: "u8 list" where
  "kbdus =
     [0, 0x1B, 0x31, 0x32, 0x33, 0x34, 0x35, 0x36, 0x37, 0x38, 0x39, 0x30, 0x2D, 0x3D, 0x08,
      0x09, 0x71, 0x77, 0x65, 0x72, 0x74, 0x79, 0x75, 0x69, 0x6F, 0x70, 0x5B, 0x5D, 0x0A, 0,
      0x61, 0x73, 0x64, 0x66, 0x67, 0x68, 0x6A, 0x6B, 0x6C, 0x3B, 0x27, 0x60, 0, 0x5C, 0x7A,
      0x78, 0x63, 0x76, 0x62, 0x6E, 0x6D, 0x2C, 0x2E, 0x2F, 0, 0x2A, 0, 0x20, 0, 0,
      0, 0, 0, 0, 0, 0, 0, 0, 0, 0, 0, 0, 0, 0, 0x2D,
      0, 0, 0, 0x2B, 0, 0, 0, 0, 0, 0, 0, 0, 0, 0, 0] @
     replicate 38 0"

definition kbdus_upper :: "u8 list" where
  "kbdus_upper =
     [0, 0x1B, 0x21, 0x40, 0x23, 0x24, 0x25, 0x5E, 0x26, 0x2A, 0x28, 0x29, 0x5F, 0x2B, 0x08,
      0x09, 0x51, 0x57, 0x45, 0x52, 0x54, 0x59, 0x55, 0x49, 0x4F, 0x50, 0x5B, 0x5D, 0x0A, 0,
      0x41, 0x53, 0x44, 0x46, 0x47, 0x48, 0x4A, 0x4B, 0x4C, 0x3A, 0x27, 0x7E, 0, 0x5C, 0x5A,
      0x58, 0x43, 0x56, 0x42, 0x4E, 0x4D, 0x3C, 0x3E, 0x3F, 0, 0x2A, 0, 0x20, 0, 0,
      0, 0, 0, 0, 0, 0, 0, 0, 0, 0, 0, 0, 0, 0, 0x2D,
      0, 0, 0, 0x2B, 0, 0, 0, 0, 0, 0, 0, 0, 0, 0, 0] @
     replicate 38 0"

definition kbdger :: "u8 list" where
  "kbdger =
     [0, 0x1B, 0x31, 0x32, 0x33, 0x34, 0x35, 0x36, 0x37, 0x38, 0x39, 0x30, 0xDF, 0xB4, 0x08,
      0x09, 0x71, 0x77, 0x65, 0x72, 0x74, 0x7A, 0x75, 0x69, 0x6F, 0x70, 0xFC, 0x2B, 0x0A, 0,
      0x61, 0x73, 0x64, 0x66, 0x67, 0x68, 0x6A, 0x6B, 0x6C, 0xF6, 0x27, 0xE4, 0, 0x5C, 0x79,
      0x78, 0x63, 0x76, 0x62, 0x6E, 0x6D, 0x2C, 0x2E, 0x2D, 0, 0x2A, 0, 0x20, 0, 0,
      0, 0, 0, 0, 0, 0, 0, 0, 0, 0, 0, 0, 0, 0, 0x2D,
      0, 0, 0, 0x2B, 0, 0, 0, 0, 0, 0, 0, 0, 0, 0, 0] @
     replicate 38 0"

definition kbdger_upper :: "u8 list" where
  "kbdger_upper =
     [0, 0x1B, 0x21, 0x22, 0xA7, 0x24, 0x25, 0x26, 0x2F, 0x28, 0x29, 0x3D, 0x3F, 0x60, 0x08,
      0x09, 0x51, 0x57, 0x45, 0x52, 0x54, 0x5A, 0x55, 0x49, 0x4F, 0x50, 0xDC, 0x2A, 0x0A, 0,
      0x41, 0x53, 0x44, 0x46, 0x47, 0x48, 0x4A, 0x4B, 0x4C, 0xD6, 0x27, 0xC4, 0, 0x5C, 0x59,
      0x58, 0x43, 0x56, 0x42, 0x4E, 0x4D, 0x3B, 0x3A, 0x5F, 0, 0x2A, 0, 0x20, 0, 0,
      0, 0, 0, 0, 0, 0, 0, 0, 0, 0, 0, 0, 0, 0, 0x2D,
      0, 0, 0, 0x2B, 0, 0, 0, 0, 0, 0, 0, 0, 0, 0, 0] @
     replicate 38 0"

record 'd keyboard_state =
  kb_device :: 'd
  kb_shift :: bool
  numlock :: bool
  capslock :: bool
  kb_log :: log

text \<open>\<^verbatim>\<open>while((inportb(0x64)&2)!=0){}\<close>.\<close>

partial_function (option) wait_input_clear :: "('d, 'z) hardware_scheme \<Rightarrow> 'd \<Rightarrow> 'd option" where
  "wait_input_clear hw d =
     (case inportb hw 0x64 d of (v, d') \<Rightarrow> if v AND 2 \<noteq> 0 then wait_input_clear hw d' else Some d')"

definition kbd_update_leds :: "('d, 'z) hardware_scheme \<Rightarrow> u8 \<Rightarrow> 'd \<Rightarrow> 'd outcome" where
  "kbd_update_leds hw leds d =
     (case wait_input_clear hw d of
        None \<Rightarrow> Diverges
      | Some d1 \<Rightarrow>
          (case wait_input_clear hw (outportb hw 0x60 0xED d1) of
             None \<Rightarrow> Diverges
           | Some d2 \<Rightarrow> Done (outportb hw 0x60 leds d2)))"

definition handle_lock_flags :: "u8 \<Rightarrow> 'd keyboard_state \<Rightarrow> 'd keyboard_state" where
  "handle_lock_flags scancode s =
     (let s1 = (if scancode = 69 then s\<lparr>numlock := \<not> numlock s\<rparr> else s) in
      if scancode = 58 then s1\<lparr>capslock := \<not> capslock s1\<rparr> else s1)"

definition handle_kbdleds :: "('d, 'z) hardware_scheme \<Rightarrow> 'd keyboard_state \<Rightarrow> 'd keyboard_state outcome" where
  "handle_kbdleds hw s =
     outcome_bind
       (if numlock s \<and> \<not> capslock s then kbd_update_leds hw NUM_LED (kb_device s)
        else if numlock s \<and> capslock s then kbd_update_leds hw (NUM_LED OR CAPS_LED) (kb_device s)
        else if \<not> numlock s \<and> capslock s then kbd_update_leds hw CAPS_LED (kb_device s)
        else kbd_update_leds hw 0 (kb_device s))
       (\<lambda>d. Done (s\<lparr>kb_device := d\<rparr>))"

text \<open>The integer a \<^verbatim>\<open>char\<close> is passed as: sign extended.\<close>

definition char_arg :: "u8 \<Rightarrow> u32" where "char_arg ch = scast ch"

definition key_released :: "u8 \<Rightarrow> 'd keyboard_state \<Rightarrow> 'd keyboard_state" where
  "key_released scancode s =
     (if scancode = 0x2A \<or> scancode = 0x36 then s\<lparr>kb_shift := False\<rparr> else s)"

definition key_pressed :: "('d, 'z) hardware_scheme \<Rightarrow> u8 \<Rightarrow> 'd keyboard_state \<Rightarrow> 'd keyboard_state outcome" where
  "key_pressed hw scancode s =
     (let s1 = (if scancode = 0x2A \<or> scancode = 0x36 then s\<lparr>kb_shift := True\<rparr> else s) in
      outcome_bind (handle_kbdleds hw (handle_lock_flags scancode s1)) (\<lambda>s2.
        let i = unat scancode;
            ch = (if kb_shift s2 then kbdger_upper ! i else kbdger ! i);
            s3 = s2\<lparr>kb_log := kb_log s2 @
              [Debug (''key event: scancode = %d, (0x%02X '' @ [CHR 0x27] @ ''%c'' @ [CHR 0x27] @ '')'' @ [CHR ''\<newline>''])
                [ucast scancode, char_arg ch, char_arg ch]]\<rparr> in
        Done (if kbdger ! i \<noteq> 0 then s3\<lparr>kb_log := kb_log s3 @ [Print ''%c'' [char_arg ch]]\<rparr> else s3)))"

definition keyboard_event :: "('d, 'z) hardware_scheme \<Rightarrow> u8 \<Rightarrow> 'd keyboard_state \<Rightarrow> 'd keyboard_state outcome" where
  "keyboard_event hw scancode s =
     (if scancode AND 0x80 \<noteq> 0 then Done (key_released (scancode AND NOT 0x80) s)
      else key_pressed hw scancode s)"

text \<open>The interrupt handler returns the frame it got.\<close>

definition keyboard_handler ::
    "('d, 'z) hardware_scheme \<Rightarrow> u32 \<Rightarrow> 'd keyboard_state \<Rightarrow> (u32 \<times> 'd keyboard_state) outcome" where
  "keyboard_handler hw r s =
     (case inportb hw 0x60 (kb_device s) of (scancode, d) \<Rightarrow>
        outcome_bind (keyboard_event hw scancode (s\<lparr>kb_device := d\<rparr>)) (\<lambda>s2. Done (r, s2)))"

definition keyboard_init :: "u32 \<Rightarrow> ('y) irq_state_scheme \<Rightarrow> ('y) irq_state_scheme outcome" where
  "keyboard_init handler_addr s =
     outcome_bind (install_handler 1 handler_addr (s\<lparr>irq_log := irq_log s @ [Debug ''keyboard_install...'' []]\<rparr>)) (\<lambda>s'.
       Done (s'\<lparr>irq_log := irq_log s' @ [Debug (''done'' @ [CHR ''\<newline>'']) []]\<rparr>))"

subsection \<open>What the keyboard types\<close>

text \<open>
  The keys of a keyboard and what they mean: keys go down, again and again while they are held, and up. A key
  that has a character gives it when it goes down, the shifted one while a shift key is held. The keyboard
  sends the code of the key, with bit 7 set when it goes up.
\<close>

datatype key_move = Down u8 | Up u8

primrec scancode :: "key_move \<Rightarrow> u8" where
  "scancode (Down k) = k"
| "scancode (Up k) = k OR 0x80"

primrec key_code :: "key_move \<Rightarrow> u8" where
  "key_code (Down k) = k"
| "key_code (Up k) = k"

definition shift_keys :: "u8 set" where
  "shift_keys = {0x2A, 0x36}"

fun typed :: "u8 set \<Rightarrow> key_move list \<Rightarrow> u8 list" where
  "typed held [] = []"
| "typed held (Up k # es) = typed (held - {k}) es"
| "typed held (Down k # es) =
     (if kbdger ! unat k = 0 then []
      else [(if insert k held \<inter> shift_keys \<noteq> {} then kbdger_upper else kbdger) ! unat k]) @ typed (insert k held) es"

text \<open>No shift key goes up while the other one is held.\<close>

fun shifts_alone :: "u8 set \<Rightarrow> key_move list \<Rightarrow> bool" where
  "shifts_alone held [] \<longleftrightarrow> True"
| "shifts_alone held (Up k # es) \<longleftrightarrow> (k \<in> shift_keys \<longrightarrow> held \<inter> shift_keys \<subseteq> {k}) \<and> shifts_alone (held - {k}) es"
| "shifts_alone held (Down k # es) \<longleftrightarrow> shifts_alone (insert k held) es"

text \<open>A controller is ready when its input buffer is clear.\<close>

definition printed :: "log \<Rightarrow> u32 list" where
  "printed l = concat (map (\<lambda>msg. case msg of Print fmt args \<Rightarrow> args | Debug fmt args \<Rightarrow> []) l)"

definition ready_controller :: "('d, 'z) hardware_scheme \<Rightarrow> bool" where
  "ready_controller hw \<longleftrightarrow> (\<forall>d. fst (inportb hw 0x64 d) AND 2 = 0)"

fun keyboard_events :: "('d, 'z) hardware_scheme \<Rightarrow> u8 list \<Rightarrow> 'd keyboard_state \<Rightarrow> 'd keyboard_state outcome" where
  "keyboard_events hw [] s = Done s"
| "keyboard_events hw (c # cs) s = outcome_bind (keyboard_event hw c s) (keyboard_events hw cs)"

lemma printed_append [simp]: "printed (l @ l') = printed l @ printed l'"
  by (simp add: printed_def)

lemma printed_simps [simp]: "printed [] = []" "printed (Debug f a # l) = printed l" "printed (Print f a # l) = a @ printed l"
  by (simp_all add: printed_def)

lemma wait_ready: "ready_controller hw \<Longrightarrow> wait_input_clear hw d = Some (snd (inportb hw 0x64 d))"
  by (subst wait_input_clear.simps) (auto simp: ready_controller_def split: prod.splits, metis fst_conv)

definition lock_leds :: "bool \<Rightarrow> bool \<Rightarrow> u8" where
  "lock_leds num caps = (if num then NUM_LED else 0) OR (if caps then CAPS_LED else 0)"

lemma leds_ready:
  assumes "ready_controller hw"
  shows "\<exists>d d'. handle_kbdleds hw s = Done (s\<lparr>kb_device := outportb hw 0x60 (lock_leds (numlock s) (capslock s)) d\<rparr>) \<and>
    d = snd (inportb hw 0x64 (outportb hw 0x60 0xED d'))"
proof -
  have "kbd_update_leds hw l d = Done (outportb hw 0x60 l (snd (inportb hw 0x64 (outportb hw 0x60 0xED (snd (inportb hw 0x64 d))))))" for l d
    by (simp add: kbd_update_leds_def wait_ready [OF assms])
  then show ?thesis by (auto simp: handle_kbdleds_def lock_leds_def)
qed

text \<open>The two kinds of scancodes.\<close>

lemma high_bit: "(0x80 :: u8) = push_bit 7 1"
  by (simp add: push_bit_eq_mult)

lemma code_bit: "(k :: u8) < 0x80 \<Longrightarrow> \<not> bit k 7"
proof -
  assume "k < 0x80"
  then have "unat k < 2 ^ 7" by (simp add: word_less_nat_alt)
  then have "\<not> bit (unat k) 7" by (simp add: bit_iff_odd)
  then show ?thesis by (simp add: bit_unsigned_iff)
qed

lemma down_code: "(k :: u8) < 0x80 \<Longrightarrow> k AND 0x80 = 0"
  using code_bit by (metis high_bit bit_iff_and_push_bit_not_eq_0)

lemma up_code:
  fixes k :: u8
  assumes "k < 0x80"
  shows "(k OR 0x80) AND 0x80 \<noteq> 0" and "(k OR 0x80) AND NOT 0x80 = k"
proof -
  have "bit (k OR push_bit 7 1) 7" by (simp add: bit_or_iff bit_push_bit_iff)
  then show "(k OR 0x80) AND 0x80 \<noteq> 0" by (simp only: high_bit flip: bit_iff_and_push_bit_not_eq_0)
  show "(k OR 0x80) AND NOT 0x80 = k"
  proof (rule bit_word_eqI)
    fix n assume "n < LENGTH(8)"
    then show "bit ((k OR 0x80) AND NOT 0x80) n = bit k n"
      using code_bit [OF assms] unfolding high_bit bit_and_iff bit_or_iff bit_not_iff_eq bit_push_bit_iff bit_1_iff
      by (cases "n = 7") auto
  qed
qed

lemma key_up:
  assumes "k < 0x80" and "kb_shift s \<longleftrightarrow> held \<inter> shift_keys \<noteq> {}" and "k \<in> shift_keys \<Longrightarrow> held \<inter> shift_keys \<subseteq> {k}"
  shows "\<exists>s1. keyboard_event hw (k OR 0x80) s = Done s1 \<and> kb_log s1 = kb_log s \<and> capslock s1 = capslock s \<and>
    numlock s1 = numlock s \<and> (kb_shift s1 \<longleftrightarrow> (held - {k}) \<inter> shift_keys \<noteq> {})"
proof -
  have "keyboard_event hw (k OR 0x80) s = Done (key_released k s)"
    using up_code [OF assms(1)] by (simp add: keyboard_event_def)
  moreover have "kb_shift (key_released k s) \<longleftrightarrow> (held - {k}) \<inter> shift_keys \<noteq> {}"
  proof (cases "k \<in> shift_keys")
    case True
    then have "(held - {k}) \<inter> shift_keys = {}" using assms(3) by blast
    then show ?thesis using True by (auto simp: key_released_def shift_keys_def)
  next
    case False
    then have "(held - {k}) \<inter> shift_keys = held \<inter> shift_keys" by blast
    then show ?thesis using False assms(2) by (simp add: key_released_def shift_keys_def)
  qed
  ultimately show ?thesis by (simp add: key_released_def)
qed

lemma key_down:
  assumes "ready_controller hw" and "k < 0x80" and "kb_shift s \<longleftrightarrow> held \<inter> shift_keys \<noteq> {}"
  shows "\<exists>s1. keyboard_event hw k s = Done s1 \<and>
    printed (kb_log s1) = printed (kb_log s) @ map char_arg (typed held [Down k]) \<and>
    capslock s1 = (capslock s \<noteq> (k = 58)) \<and> numlock s1 = (numlock s \<noteq> (k = 69)) \<and>
    (kb_shift s1 \<longleftrightarrow> insert k held \<inter> shift_keys \<noteq> {})"
proof -
  let ?s2 = "handle_lock_flags k (if k = 0x2A \<or> k = 0x36 then s\<lparr>kb_shift := True\<rparr> else s)"
  have f: "kb_shift ?s2 \<longleftrightarrow> insert k held \<inter> shift_keys \<noteq> {}" "kb_log ?s2 = kb_log s"
    "capslock ?s2 = (capslock s \<noteq> (k = 58))" "numlock ?s2 = (numlock s \<noteq> (k = 69))"
    using assms(3) by (auto simp: handle_lock_flags_def Let_def shift_keys_def)
  obtain d where leds: "handle_kbdleds hw ?s2 = Done (?s2\<lparr>kb_device := d\<rparr>)" using leds_ready [OF assms(1)] by blast
  have "\<exists>s3. keyboard_event hw k s = Done s3 \<and> kb_shift s3 = kb_shift ?s2 \<and>
      printed (kb_log s3) = printed (kb_log s) @ map char_arg (typed held [Down k]) \<and>
      capslock s3 = capslock ?s2 \<and> numlock s3 = numlock ?s2"
    unfolding keyboard_event_def key_pressed_def Let_def leds using down_code [OF assms(2)] f(1,2) by simp
  then show ?thesis unfolding f by blast
qed

lemma typed_append: "typed held (Down k # es) = typed held [Down k] @ typed (insert k held) es"
  by simp

text \<open>C29: With a ready controller every sequence of key moves is handled and prints the text it stands for,
  from the shifted table exactly while a shift key is held, provided that no shift key goes up while the other one
  is held; the lock keys toggle their flags whenever they go down, and do not change what is typed.\<close>

theorem keyboard_types:
  assumes "ready_controller hw" and "\<forall>e\<in>set es. key_code e < 0x80" and "shifts_alone held es"
    and "kb_shift s \<longleftrightarrow> held \<inter> shift_keys \<noteq> {}"
  shows "\<exists>s'. keyboard_events hw (map scancode es) s = Done s' \<and>
    printed (kb_log s') = printed (kb_log s) @ map char_arg (typed held es) \<and>
    capslock s' = (capslock s \<noteq> odd (length (filter (\<lambda>e. e = Down 58) es))) \<and>
    numlock s' = (numlock s \<noteq> odd (length (filter (\<lambda>e. e = Down 69) es)))"
  using assms(2-4)
proof (induction es arbitrary: s held)
  case (Cons e es)
  show ?case
  proof (cases e)
    case (Up k)
    have "k < 0x80" "k \<in> shift_keys \<Longrightarrow> held \<inter> shift_keys \<subseteq> {k}" using Cons.prems(1,2) Up by simp_all
    from key_up [OF this(1) Cons.prems(3) this(2)] obtain s1 where s1: "keyboard_event hw (k OR 0x80) s = Done s1"
      "kb_log s1 = kb_log s" "capslock s1 = capslock s" "numlock s1 = numlock s"
      "kb_shift s1 \<longleftrightarrow> (held - {k}) \<inter> shift_keys \<noteq> {}" by blast
    have "\<forall>e\<in>set es. key_code e < 0x80" "shifts_alone (held - {k}) es" using Cons.prems(1,2) Up by simp_all
    from Cons.IH [OF this s1(5)] show ?thesis using Up s1(1-4) by simp
  next
    case (Down k)
    have "k < 0x80" using Cons.prems(1) Down by simp
    from key_down [OF assms(1) this Cons.prems(3)] obtain s1 where s1: "keyboard_event hw k s = Done s1"
      "printed (kb_log s1) = printed (kb_log s) @ map char_arg (typed held [Down k])"
      "capslock s1 = (capslock s \<noteq> (k = 58))" "numlock s1 = (numlock s \<noteq> (k = 69))"
      "kb_shift s1 \<longleftrightarrow> insert k held \<inter> shift_keys \<noteq> {}" by blast
    have "\<forall>e\<in>set es. key_code e < 0x80" "shifts_alone (insert k held) es" using Cons.prems(1,2) Down by simp_all
    from Cons.IH [OF this s1(5)] obtain s' where s': "keyboard_events hw (map scancode es) s1 = Done s'"
      "printed (kb_log s') = printed (kb_log s1) @ map char_arg (typed (insert k held) es)"
      "capslock s' = (capslock s1 \<noteq> odd (length (filter (\<lambda>e. e = Down 58) es)))"
      "numlock s' = (numlock s1 \<noteq> odd (length (filter (\<lambda>e. e = Down 69) es)))" by blast
    have "printed (kb_log s') = printed (kb_log s) @ map char_arg (typed held (Down k # es))"
      unfolding s'(2) s1(2) typed_append [of held k es] by simp
    moreover have "capslock s' = (capslock s \<noteq> odd (length (filter (\<lambda>e. e = Down 58) (e # es))))"
      using s'(3) s1(3) Down by (cases "k = 58"; cases "capslock s") simp_all
    moreover have "numlock s' = (numlock s \<noteq> odd (length (filter (\<lambda>e. e = Down 69) (e # es))))"
      using s'(4) s1(4) Down by (cases "k = 69"; cases "numlock s") simp_all
    ultimately show ?thesis using Down s1(1) s'(1) by simp
  qed
qed simp

definition quiet_ports :: "unit hardware" where
  "quiet_ports = \<lparr>inportb = (\<lambda>p d. (0, d)), outportb = (\<lambda>p v d. d)\<rparr>"

definition idle_keyboard :: "unit keyboard_state" where
  "idle_keyboard = \<lparr>kb_device = (), kb_shift = False, numlock = False, capslock = False, kb_log = []\<rparr>"

lemma quiet_ports_ready: "ready_controller quiet_ports"
  by (simp add: ready_controller_def quiet_ports_def)

text \<open>Shift down, A, shift up, caps lock, A.\<close>

theorem keyboard_types_witness:
  "\<exists>s'. keyboard_events quiet_ports [0x2A, 0x1E, 0x9E, 0xAA, 0x3A, 0x1E] idle_keyboard = Done s' \<and>
     printed (kb_log s') = map char_arg [0x41, 0x61] \<and> capslock s'"
proof -
  let ?es = "[Down 0x2A, Down 0x1E, Up 0x1E, Up 0x2A, Down 0x3A, Down 0x1E]"
  have t: "typed {} ?es = [0x41, 0x61]"
    by (simp add: shift_keys_def kbdger_def kbdger_upper_def nth_append)
  have "shifts_alone {} ?es" "map scancode ?es = [0x2A, 0x1E, 0x9E, 0xAA, 0x3A, 0x1E]" by (simp_all add: shift_keys_def)
  then show ?thesis
    using keyboard_types [OF quiet_ports_ready, of ?es "{}" idle_keyboard] unfolding t
    by (auto simp: idle_keyboard_def)
qed

text \<open>The condition on the shift keys is needed: with both held, letting go of one ends the effect of the
  other. Left shift, right shift, left shift up, A types a small letter although right shift is held.\<close>

theorem second_shift_forgotten:
  "typed {} [Down 0x2A, Down 0x36, Up 0x2A, Down 0x1E] = [0x41] \<and>
   (\<exists>s'. keyboard_events quiet_ports (map scancode [Down 0x2A, Down 0x36, Up 0x2A, Down 0x1E]) idle_keyboard = Done s' \<and>
      printed (kb_log s') = map char_arg [0x61])"
proof -
  have leds: "handle_kbdleds quiet_ports s = Done s" for s :: "unit keyboard_state"
    by (simp add: handle_kbdleds_def kbd_update_leds_def wait_ready [OF quiet_ports_ready])
  show ?thesis
    by (simp add: shift_keys_def kbdger_def kbdger_upper_def nth_append keyboard_event_def key_pressed_def
      key_released_def leds handle_lock_flags_def idle_keyboard_def Let_def)
qed

text \<open>A controller that stays busy keeps a key press in the interrupt handler forever.\<close>

lemma busy_controller_hangs:
  assumes "\<And>d. fst (inportb hw 0x64 d) AND 2 \<noteq> 0"
  shows "wait_input_clear hw d = None"
proof (cases "wait_input_clear hw d")
  case (Some r)
  let ?P = "\<lambda>(hw :: ('a, 'b) hardware_scheme) d r. \<not> (\<forall>d. fst (inportb hw 0x64 d) AND 2 \<noteq> 0)"
  have "?P hw d r"
  proof (rule wait_input_clear.raw_induct [where P = ?P, OF _ Some], goal_cases)
    case (1 rec hw d r)
    then show ?case by (auto split: prod.splits if_splits) (metis fst_conv)
  qed
  then show ?thesis using assms by blast
qed

end
