(* ===== verification/Interlocked.thy ===== *)
theory Interlocked
  imports Scheduler
begin

text \<open>
  The atomic operations and the spin lock of \<^verbatim>\<open>src/interlocked.h\<close>, with the effect of the assembly
  routines of \<^verbatim>\<open>src/interlocked_.s\<close> on memory: each is one atomic step. In the kernel's C library
  \<^verbatim>\<open>uint64_t\<close> is \<^verbatim>\<open>unsigned long\<close>, which has 32 bits on this target, while the 64-bit routine reads two
  words per operand from the stack; the model takes its arguments from the stack as they are passed.

  The lock is a step relation over any number of tasks: a task that wants the lock exchanges 1 into
  the lock word until it gets a 0 back.
\<close>

subsection \<open>Atomic operations\<close>

definition interlocked_exchange :: "u32 \<Rightarrow> u32 \<Rightarrow> memory \<Rightarrow> u32 \<times> memory" where
  "interlocked_exchange p x m = (read_u32 m p, write_u32 p x m)"

definition interlocked_compare_exchange :: "u32 \<Rightarrow> u32 \<Rightarrow> u32 \<Rightarrow> memory \<Rightarrow> u32 \<times> memory" where
  "interlocked_compare_exchange p expected exch m =
     (if read_u32 m p = expected then (expected, write_u32 p exch m) else (read_u32 m p, m))"

text \<open>\<^verbatim>\<open>cmpxchg8b\<close> on the five words above the return address; the result is the low word.\<close>

definition interlocked_compare_exchange_64_stack ::
    "u32 \<Rightarrow> u32 \<Rightarrow> u32 \<Rightarrow> u32 \<Rightarrow> u32 \<Rightarrow> memory \<Rightarrow> u32 \<times> memory" where
  "interlocked_compare_exchange_64_stack p expected_lo expected_hi exch_lo exch_hi m =
     (if read_u32 m p = expected_lo \<and> read_u32 m (p + 4) = expected_hi
      then (expected_lo, write_u32 (p + 4) exch_hi (write_u32 p exch_lo m))
      else (read_u32 m p, m))"

text \<open>The call as compiled: three words are pushed, \<open>x\<close> and \<open>y\<close> are what lies above them.\<close>

definition interlocked_compare_exchange_64 :: "u32 \<Rightarrow> u32 \<Rightarrow> u32 \<Rightarrow> u32 \<times> u32 \<Rightarrow> memory \<Rightarrow> u32 \<times> memory" where
  "interlocked_compare_exchange_64 p expected exch = (\<lambda>(x, y).
     interlocked_compare_exchange_64_stack p expected exch x y)"

definition interlocked_increment :: "u32 \<Rightarrow> memory \<Rightarrow> u32 \<times> memory" where
  "interlocked_increment p m = (read_u32 m p + 1, write_u32 p (read_u32 m p + 1) m)"

definition interlocked_decrement :: "u32 \<Rightarrow> memory \<Rightarrow> u32 \<times> memory" where
  "interlocked_decrement p m = (read_u32 m p - 1, write_u32 p (read_u32 m p - 1) m)"

definition compare_exchange :: "u32 \<Rightarrow> u32 \<Rightarrow> u32 \<Rightarrow> memory \<Rightarrow> bool \<times> memory" where
  "compare_exchange p expected exch m =
     (case interlocked_compare_exchange p expected exch m of (r, m') \<Rightarrow> (r = expected, m'))"

definition compare_exchange_64 :: "u32 \<Rightarrow> u32 \<Rightarrow> u32 \<Rightarrow> u32 \<times> u32 \<Rightarrow> memory \<Rightarrow> bool \<times> memory" where
  "compare_exchange_64 p expected exch st m =
     (case interlocked_compare_exchange_64 p expected exch st m of (r, m') \<Rightarrow> (r = expected, m'))"

partial_function (option) increment_64 :: "u32 \<Rightarrow> u32 \<times> u32 \<Rightarrow> memory \<Rightarrow> (u32 \<times> memory) option" where
  "increment_64 p st m =
     (let old = read_u32 m p in
      case compare_exchange_64 p old (old + 1) st m of
        (ok, m') \<Rightarrow> if \<not> ok then increment_64 p st m' else Some (old + 1, m'))"

partial_function (option) decrement_64 :: "u32 \<Rightarrow> u32 \<times> u32 \<Rightarrow> memory \<Rightarrow> (u32 \<times> memory) option" where
  "decrement_64 p st m =
     (let old = read_u32 m p in
      case compare_exchange_64 p old (old - 1) st m of
        (ok, m') \<Rightarrow> if \<not> ok then decrement_64 p st m' else Some (old - 1, m'))"

subsection \<open>The spin lock\<close>

text \<open>One round of the loop of \<^verbatim>\<open>enter\<close>: whether the lock was taken.\<close>

definition enter_round :: "u32 \<Rightarrow> memory \<Rightarrow> bool \<times> memory" where
  "enter_round cs m = (case interlocked_exchange cs 1 m of (old, m') \<Rightarrow> (\<not> old > 0, m'))"

definition leave :: "u32 \<Rightarrow> memory \<Rightarrow> memory" where
  "leave cs m = snd (interlocked_exchange cs 0 m)"

text \<open>Without other tasks \<^verbatim>\<open>enter\<close> is this loop.\<close>

partial_function (option) enter :: "u32 \<Rightarrow> memory \<Rightarrow> memory option" where
  "enter cs m = (case enter_round cs m of (ok, m') \<Rightarrow> if ok then Some m' else enter cs m')"

datatype lock_pc = Outside | Spinning | Inside

record lock_state =
  lock_ram :: memory
  task_pc :: "nat \<Rightarrow> lock_pc"

datatype lock_event = Calls nat | Exchanges nat | Leaves nat | Writes

text \<open>A step of the tasks with what happens in it: a task calls \<^verbatim>\<open>enter\<close>, does a round of its loop, or
  calls \<^verbatim>\<open>leave\<close>; or memory other than the lock word is written.\<close>

inductive lock_step :: "u32 \<Rightarrow> lock_event \<Rightarrow> lock_state \<Rightarrow> lock_state \<Rightarrow> bool" for lock where
  call_enter: "task_pc s i = Outside \<Longrightarrow>
     lock_step lock (Calls i) s (s\<lparr>task_pc := (task_pc s)(i := Spinning)\<rparr>)"
| try_enter: "task_pc s i = Spinning \<Longrightarrow> enter_round lock (lock_ram s) = (ok, m) \<Longrightarrow>
     lock_step lock (Exchanges i) s (s\<lparr>lock_ram := m, task_pc := (task_pc s)(i := if ok then Inside else Spinning)\<rparr>)"
| call_leave: "task_pc s i = Inside \<Longrightarrow>
     lock_step lock (Leaves i) s (s\<lparr>lock_ram := leave lock (lock_ram s), task_pc := (task_pc s)(i := Outside)\<rparr>)"
| other_memory: "read_u32 m lock = read_u32 (lock_ram s) lock \<Longrightarrow>
     lock_step lock Writes s (s\<lparr>lock_ram := m\<rparr>)"

inductive_cases lock_exchangeE: "lock_step lock (Exchanges i) s t"
inductive_cases lock_leaveE: "lock_step lock (Leaves i) s t"

inductive lock_reachable :: "u32 \<Rightarrow> lock_state \<Rightarrow> bool" for lock where
  lock_start: "read_u32 (lock_ram s) lock = 0 \<Longrightarrow> (\<And>i. task_pc s i = Outside) \<Longrightarrow> lock_reachable lock s"
| lock_next: "lock_reachable lock s \<Longrightarrow> lock_step lock e s t \<Longrightarrow> lock_reachable lock t"

lemma enter_round_eq: "enter_round lock m = (read_u32 m lock = 0, write_u32 lock 1 m)"
  by (simp add: enter_round_def interlocked_exchange_def word_gt_0)

lemma leave_eq: "leave lock m = write_u32 lock 0 m"
  by (simp add: leave_def interlocked_exchange_def)

text \<open>The invariant: the lock word is 0 with nobody inside, or 1 with exactly one task inside.\<close>

definition lock_inv :: "u32 \<Rightarrow> lock_state \<Rightarrow> bool" where
  "lock_inv lock s \<longleftrightarrow>
     (read_u32 (lock_ram s) lock = 0 \<and> (\<forall>i. task_pc s i \<noteq> Inside)) \<or>
     (read_u32 (lock_ram s) lock = 1 \<and> (\<exists>!i. task_pc s i = Inside))"

lemma lock_step_inv: "lock_step lock e s t \<Longrightarrow> lock_inv lock s \<Longrightarrow> lock_inv lock t"
proof (induction rule: lock_step.induct)
  case (call_enter s i)
  then show ?case unfolding lock_inv_def by (auto split: if_splits) (metis lock_pc.distinct)+
next
  case (try_enter s i ok m)
  then have "ok \<longleftrightarrow> read_u32 (lock_ram s) lock = 0" "read_u32 m lock = 1"
    by (auto simp: enter_round_eq read_write_u32)
  then show ?case using try_enter.hyps(1) try_enter.prems unfolding lock_inv_def
    by (auto split: if_splits) (metis lock_pc.distinct)+
next
  case (call_leave s i)
  then have "\<And>j. task_pc s j = Inside \<Longrightarrow> j = i" unfolding lock_inv_def by auto
  then show ?case unfolding lock_inv_def by (auto simp: leave_eq read_write_u32)
next
  case (other_memory m s)
  then show ?case unfolding lock_inv_def by auto
qed

lemma lock_reachable_inv: "lock_reachable lock s \<Longrightarrow> lock_inv lock s"
proof (induction rule: lock_reachable.induct)
  case (lock_start s)
  then show ?case by (simp add: lock_inv_def)
next
  case (lock_next s e t)
  then show ?case by (blast intro: lock_step_inv)
qed

text \<open>C14: In every reachable state at most one task is between \<^verbatim>\<open>enter\<close> and \<^verbatim>\<open>leave\<close>.\<close>

theorem lock_mutual_exclusion:
  assumes "lock_reachable lock s" and "task_pc s i = Inside" and "task_pc s j = Inside"
  shows "i = j"
  using lock_reachable_inv [OF assms(1)] assms(2,3) unfolding lock_inv_def by auto

lemma exchange_effect:
  assumes "lock_inv lock s" and "lock_step lock (Exchanges i) s t"
  shows "read_u32 (lock_ram t) lock = 1 \<and>
    task_pc t = (if \<exists>j. task_pc s j = Inside then task_pc s else (task_pc s)(i := Inside))"
proof -
  let ?ok = "read_u32 (lock_ram s) lock = 0"
  have t: "t = s\<lparr>lock_ram := write_u32 lock 1 (lock_ram s), task_pc := (task_pc s)(i := if ?ok then Inside else Spinning)\<rparr>"
    "task_pc s i = Spinning"
    using assms(2) by (auto elim!: lock_exchangeE simp: enter_round_eq)
  have "?ok \<longleftrightarrow> (\<nexists>j. task_pc s j = Inside)" using assms(1) unfolding lock_inv_def by auto
  then show ?thesis using t by (auto simp: read_write_u32 fun_upd_idem)
qed

lemma leave_effect:
  assumes "lock_inv lock s" and "lock_step lock (Leaves j) s t"
  shows "read_u32 (lock_ram t) lock = 0 \<and> (\<forall>k. task_pc t k \<noteq> Inside)"
proof -
  have t: "t = s\<lparr>lock_ram := write_u32 lock 0 (lock_ram s), task_pc := (task_pc s)(j := Outside)\<rparr>" "task_pc s j = Inside"
    using assms(2) by (auto elim!: lock_leaveE simp: leave_eq)
  have only: "task_pc s k = Inside \<Longrightarrow> k = j" for k using assms(1) t(2) unfolding lock_inv_def by auto
  have "task_pc t k \<noteq> Inside" for k using only by (cases "k = j") (auto simp: t(1))
  then show ?thesis by (simp add: t(1) read_write_u32)
qed

lemma holder_stays:
  assumes "lock_inv lock s" and "lock_step lock e s t" and "task_pc s j = Inside" and "e \<noteq> Leaves j"
  shows "task_pc t j = Inside \<and> read_u32 (lock_ram t) lock = 1"
proof -
  have "task_pc t j = Inside"
    using assms(2-4)
  proof (cases rule: lock_step.cases)
    case (call_leave i)
    then show ?thesis using assms(3,4) by auto
  qed auto
  then show ?thesis using lock_step_inv [OF assms(2,1)] unfolding lock_inv_def by auto
qed

text \<open>C36: The lock is never lost and never stolen. In every reachable state: each exchange of a waiting task
  takes a lock nobody holds, and otherwise changes nothing but to store the 1 that is there; no step of any task
  but the holder's \<^verbatim>\<open>leave\<close> takes the lock from its holder; that step frees it; and a waiting task can
  always exchange, a holder always leave.\<close>

theorem lock_progress:
  assumes "lock_reachable lock s"
  shows "(\<forall>i t. lock_step lock (Exchanges i) s t \<longrightarrow> read_u32 (lock_ram t) lock = 1 \<and>
       task_pc t = (if \<exists>j. task_pc s j = Inside then task_pc s else (task_pc s)(i := Inside))) \<and>
    (\<forall>e t j. lock_step lock e s t \<and> task_pc s j = Inside \<and> e \<noteq> Leaves j \<longrightarrow>
       task_pc t j = Inside \<and> read_u32 (lock_ram t) lock = 1) \<and>
    (\<forall>t j. lock_step lock (Leaves j) s t \<longrightarrow> read_u32 (lock_ram t) lock = 0 \<and> (\<forall>k. task_pc t k \<noteq> Inside)) \<and>
    (\<forall>i. (task_pc s i = Spinning \<longrightarrow> (\<exists>t. lock_step lock (Exchanges i) s t)) \<and>
       (task_pc s i = Inside \<longrightarrow> (\<exists>t. lock_step lock (Leaves i) s t)))"
proof (intro conjI allI impI)
  fix i assume "task_pc s i = Spinning"
  then show "\<exists>t. lock_step lock (Exchanges i) s t" using lock_step.try_enter [OF _ enter_round_eq] by blast
qed (use exchange_effect leave_effect holder_stays lock_step.call_leave lock_reachable_inv [OF assms] in blast)+

definition lock_free_state :: lock_state where
  "lock_free_state = \<lparr>lock_ram = (\<lambda>a. 0), task_pc = (\<lambda>i. Outside)\<rparr>"

lemma lock_waiting_reachable:
  "lock_reachable lock (lock_free_state\<lparr>task_pc := (\<lambda>i. Outside)(7 := Spinning)\<rparr>)"
proof (rule lock_reachable.lock_next)
  show "lock_reachable lock lock_free_state"
    by (rule lock_reachable.lock_start) (simp_all add: lock_free_state_def read_u32_def)
  show "lock_step lock (Calls 7) lock_free_state (lock_free_state\<lparr>task_pc := (\<lambda>i. Outside)(7 := Spinning)\<rparr>)"
    using lock_step.call_enter [of lock_free_state 7 lock] by (simp add: lock_free_state_def)
qed

lemma lock_inside_reachable: "\<exists>s. lock_reachable 0x1000 s \<and> task_pc s 7 = Inside"
proof -
  let ?s = "lock_free_state\<lparr>task_pc := (\<lambda>i. Outside)(7 := Spinning)\<rparr>"
  have "read_u32 (lock_ram ?s) 0x1000 = 0" by (simp add: lock_free_state_def read_u32_def)
  then have "enter_round 0x1000 (lock_ram ?s) = (True, write_u32 0x1000 1 (lock_ram ?s))"
    by (simp add: enter_round_eq)
  then have "lock_step 0x1000 (Exchanges 7) ?s (?s\<lparr>lock_ram := write_u32 0x1000 1 (lock_ram ?s),
      task_pc := (task_pc ?s)(7 := if True then Inside else Spinning)\<rparr>)"
    by (intro lock_step.try_enter) simp_all
  then show ?thesis using lock_reachable.lock_next [OF lock_waiting_reachable] by fastforce
qed

theorem lock_mutual_exclusion_witness:
  "\<exists>s. lock_reachable 0x1000 s \<and> task_pc s 7 = Inside \<and> task_pc s 8 \<noteq> Inside"
proof -
  obtain s where s: "lock_reachable 0x1000 s" "task_pc s 7 = Inside" using lock_inside_reachable by blast
  have "task_pc s 8 \<noteq> Inside" using lock_mutual_exclusion [OF s(1,2), of 8] by auto
  then show ?thesis using s by blast
qed

text \<open>Task 7 waits for the free lock and gets it; while it is inside, task 8 calls \<^verbatim>\<open>enter\<close> and waits.\<close>

theorem lock_progress_witness:
  "\<exists>s t u. lock_reachable 0x1000 s \<and> lock_step 0x1000 (Exchanges 7) s t \<and> task_pc s 7 = Spinning \<and> task_pc t 7 = Inside \<and>
     lock_step 0x1000 (Calls 8) t u \<and> task_pc u 7 = Inside"
proof -
  let ?s = "lock_free_state\<lparr>task_pc := (\<lambda>i. Outside)(7 := Spinning)\<rparr>"
  have pc: "task_pc ?s 7 = Spinning" "\<nexists>j. task_pc ?s j = Inside" by auto
  obtain t where t: "lock_step 0x1000 (Exchanges 7) ?s t" "task_pc t = (task_pc ?s)(7 := Inside)"
    using lock_progress [OF lock_waiting_reachable, of "0x1000"] pc by (metis (no_types, lifting))
  have r: "lock_reachable 0x1000 t" by (rule lock_reachable.lock_next [OF lock_waiting_reachable t(1)])
  have "task_pc t 8 = Outside" using t(2) by simp
  then have u: "lock_step 0x1000 (Calls 8) t (t\<lparr>task_pc := (task_pc t)(8 := Spinning)\<rparr>)" by (rule lock_step.call_enter)
  have "task_pc t 7 = Inside" "Calls 8 \<noteq> Leaves 7" using t(2) by simp_all
  then have "task_pc (t\<lparr>task_pc := (task_pc t)(8 := Spinning)\<rparr>) 7 = Inside" using lock_progress [OF r] u by blast
  then show ?thesis
    using lock_waiting_reachable [of "0x1000"] pc(1) t u by (intro exI [of _ ?s] exI [of _ t] exI) auto
qed

text \<open>The 64-bit increment and decrement return the changed value but store nothing, unless the word
  after the counter happens to hold that value; then both words are overwritten with what lies above
  the arguments on the stack.\<close>

theorem increment_64_stores_nothing:
  "increment_64 p (x, y) m = Some (read_u32 m p + 1,
     if read_u32 m (p + 4) = read_u32 m p + 1 then write_u32 (p + 4) y (write_u32 p x m) else m) \<and>
   decrement_64 p (x, y) m = Some (read_u32 m p - 1,
     if read_u32 m (p + 4) = read_u32 m p - 1 then write_u32 (p + 4) y (write_u32 p x m) else m)"
  by (subst increment_64.simps, subst decrement_64.simps)
    (simp add: compare_exchange_64_def interlocked_compare_exchange_64_def
      interlocked_compare_exchange_64_stack_def Let_def)

text \<open>The other atomic operations do what their names say.\<close>

lemma interlocked_word_operations:
  "fst (interlocked_increment p m) = read_u32 m p + 1 \<and> read_u32 (snd (interlocked_increment p m)) p = read_u32 m p + 1"
  "fst (interlocked_decrement p m) = read_u32 m p - 1 \<and> read_u32 (snd (interlocked_decrement p m)) p = read_u32 m p - 1"
  "fst (compare_exchange p a b m) \<longleftrightarrow> read_u32 m p = a"
  "read_u32 (snd (compare_exchange p a b m)) p = (if read_u32 m p = a then b else read_u32 m p)"
  by (simp_all add: interlocked_increment_def interlocked_decrement_def compare_exchange_def
      interlocked_compare_exchange_def read_write_u32)

end
