(* ===== verification/Kernel.thy ===== *)
theory Kernel
  imports Memory_Init Fat12_Volume Devices Scheduler Keyboard Interlocked
begin

text \<open>
  Parts of \<^verbatim>\<open>src/kernel.cpp\<close>: the directory listing \<^verbatim>\<open>dirtree\<close>, the start messages, the start of the components
  and the listing of the disk in the first floppy drive. \<open>Kernel_Main\<close> puts them together.
\<close>

subsection \<open>The directory listing\<close>

text \<open>
  A line is the indentation, the name and a newline. \<open>put\<close> is what \<^verbatim>\<open>console.printf\<close> does with the
  characters of a line, on a console of any type. The recursion
  over a directory that contains itself never ends. The names \<^verbatim>\<open>.\<close> and \<^verbatim>\<open>..\<close> are not followed.
  The second \<^verbatim>\<open>%s\<close> is given a \<^verbatim>\<open>std::string_view\<close> object, whose first member is the pointer to the characters
  (the repository's libc++ lays it out as pointer and size), so the name is what is printed.
\<close>

definition dirtree_line :: "nat \<Rightarrow> u8 list \<Rightarrow> u8 list" where
  "dirtree_line indent name = replicate indent 0x20 @ name @ [0x0A]"

definition dot_name :: "u8 list \<Rightarrow> bool" where
  "dot_name name \<longleftrightarrow> name = [0x2E] \<or> name = [0x2E, 0x2E]"

definition listed_children :: "fat12_fs \<Rightarrow> fs_entry \<Rightarrow> dir_enum option outcome" where
  "listed_children fs file = (if dot_name (fs_entry_name file) then Done None else children fs file)"

partial_function (option) dirtree ::
    "(u8 list \<Rightarrow> 'c \<Rightarrow> 'c outcome) \<Rightarrow> 'd IBlockDevice \<Rightarrow> u8 list \<Rightarrow> fat12_fs \<Rightarrow> nat \<Rightarrow> dir_enum \<Rightarrow> 'd \<Rightarrow> 'c \<Rightarrow>
     ('d \<times> 'c) outcome option" where
  "dirtree put dev junk fs indent dir d con =
     (case enum_next dev junk dir d of
        Fault e \<Rightarrow> Some (Fault e)
      | Diverges \<Rightarrow> Some Diverges
      | Done (found, dir', d') \<Rightarrow>
          (case found of
             None \<Rightarrow> Some (Done (d', con))
           | Some file \<Rightarrow>
               (case outcome_bind (put (dirtree_line indent (fs_entry_name file)) con)
                       (\<lambda>con'. outcome_bind (listed_children fs file) (\<lambda>sub. Done (con', sub))) of
                  Fault e \<Rightarrow> Some (Fault e)
                | Diverges \<Rightarrow> Some Diverges
                | Done (con', sub) \<Rightarrow>
                    (case sub of
                       None \<Rightarrow> dirtree put dev junk fs indent dir' d' con'
                     | Some c \<Rightarrow>
                         Option.bind (dirtree put dev junk fs (indent + 2) c d' con') (\<lambda>r.
                           case r of
                             Done (d2, con2) \<Rightarrow> dirtree put dev junk fs indent dir' d2 con2
                           | Fault e \<Rightarrow> Some (Fault e)
                           | Diverges \<Rightarrow> Some Diverges)))))"

text \<open>
  What the listing relies on: a console that shows \<open>out\<close> takes a line and shows it behind \<open>out\<close>, as long as
  the text fits. The simplest such console is the text itself.
\<close>

definition prints_lines :: "(u8 list \<Rightarrow> 'c \<Rightarrow> 'c outcome) \<Rightarrow> (u8 list \<Rightarrow> 'c \<Rightarrow> bool) \<Rightarrow> (u8 list \<Rightarrow> bool) \<Rightarrow> bool" where
  "prints_lines put R fits \<longleftrightarrow>
     (\<forall>out con l. R out con \<longrightarrow> fits (out @ l) \<longrightarrow> (\<exists>con'. put l con = Done con' \<and> R (out @ l) con')) \<and>
     (\<forall>out l. fits (out @ l) \<longrightarrow> fits out)"

locale line_printer =
  fixes put :: "u8 list \<Rightarrow> 'c \<Rightarrow> 'c outcome" and R :: "u8 list \<Rightarrow> 'c \<Rightarrow> bool" and fits :: "u8 list \<Rightarrow> bool"
  assumes prints: "prints_lines put R fits"
begin

lemma put_shows:
  assumes "R out con" and "fits (out @ l)"
  obtains con' where "put l con = Done con'" "R (out @ l) con'"
  using prints assms unfolding prints_lines_def by blast

lemma fits_prefix: "fits (out @ l) \<Longrightarrow> fits out"
  using prints unfolding prints_lines_def by blast

lemma fits_part: "fits (out @ l @ us) \<Longrightarrow> fits (out @ l)"
  using fits_prefix [of "out @ l" us] by simp

end

definition text_put :: "u8 list \<Rightarrow> u8 list \<Rightarrow> u8 list outcome" where
  "text_put l out = Done (out @ l)"

lemma text_prints_lines: "prints_lines text_put (=) (\<lambda>_. True)"
  by (simp add: prints_lines_def text_put_def)

interpretation text_printer: line_printer text_put "(=)" "\<lambda>_. True"
  by unfold_locales (rule text_prints_lines)

text \<open>
  The specification: how a tree of named entries is printed, and when the entries of a directory on the disk
  are the roots of a list of trees.
\<close>

fun render :: "nat \<Rightarrow> entry_tree \<Rightarrow> u8 list" where
  "render indent (EntryTree name ts) = dirtree_line indent name @ concat (map (render (indent + 2)) ts)"

definition leaf_entry :: "fs_entry \<Rightarrow> bool" where
  "leaf_entry x \<longleftrightarrow> dot_name (fs_entry_name x) \<or> (case x of FAT12File _ _ _ \<Rightarrow> True | FAT12Directory _ _ \<Rightarrow> False)"

definition directory_sectors :: "fat12_fs \<Rightarrow> u16 list \<Rightarrow> u16 list" where
  "directory_sectors fs cs = concat (map (cluster_sectors fs) cs)"

inductive disk_trees :: "image \<Rightarrow> nat \<Rightarrow> fat12_fs \<Rightarrow> fs_entry list \<Rightarrow> entry_tree list \<Rightarrow> bool" for img n fs where
  trees_nil: "disk_trees img n fs [] []"
| trees_leaf: "leaf_entry x \<Longrightarrow> disk_trees img n fs xs ts \<Longrightarrow>
     disk_trees img n fs (x # xs) (EntryTree (fs_entry_name x) [] # ts)"
| trees_dir: "\<not> dot_name name \<Longrightarrow> cluster_chain fs c cs \<Longrightarrow>
     enum_ok n \<lparr>de_sectors = directory_sectors fs cs, de_index = 0\<rparr> \<Longrightarrow>
     disk_trees img n fs (visible (all_entries img (directory_sectors fs cs))) us \<Longrightarrow>
     disk_trees img n fs xs ts \<Longrightarrow>
     disk_trees img n fs (FAT12Directory name c # xs) (EntryTree name us # ts)"

lemma chain_opens:
  "cluster_chain fs c cs \<Longrightarrow> FAT12DirectoryEnum fs c = Done \<lparr>de_sectors = directory_sectors fs cs, de_index = 0\<rparr>"
  by (simp add: FAT12DirectoryEnum_def collect_clusters_chain directory_sectors_def)

lemma leaf_children: "leaf_entry x \<Longrightarrow> listed_children fs x = Done None"
  by (cases x) (auto simp: leaf_entry_def listed_children_def)

context block_device
begin

lemma dirtree_next:
  assumes "I d" and "length junk = 512" and "enum_ok n e"
  shows "\<exists>e' d'. I d' \<and> enum_ok n e' \<and>
     (case remaining img e of
        [] \<Rightarrow> enum_next dev junk e d = Done (None, e', d')
      | x # xs \<Rightarrow> enum_next dev junk e d = Done (Some x, e', d') \<and> remaining img e' = xs)"
proof -
  obtain r e' d' where n: "enum_next dev junk e d = Done (r, e', d')" "I d'" "de_sectors e' = de_sectors e"
    "(r, remaining img e') = (case remaining img e of [] \<Rightarrow> (None, []) | x # xs \<Rightarrow> (Some x, xs))"
    using enum_next_remaining [OF assms] by blast
  then have "enum_ok n e'" using assms(3) by (simp add: enum_ok_def)
  then show ?thesis using n by (auto split: list.splits)
qed

end

text \<open>A listing reads from a block device and prints on a line printer.\<close>

locale disk_listing = block_device dev n img I + line_printer put R fits
  for dev :: "'d IBlockDevice" and n img I and put :: "u8 list \<Rightarrow> 'c \<Rightarrow> 'c outcome" and R fits
begin

lemma dirtree_trees:
  assumes junk: "length junk = 512"
    and trees: "disk_trees img n fs xs ts"
  shows "I d \<Longrightarrow> enum_ok n e \<Longrightarrow> remaining img e = xs \<Longrightarrow> R out con \<Longrightarrow>
     fits (out @ concat (map (render indent) ts)) \<Longrightarrow>
     \<exists>d' con'. dirtree put dev junk fs indent e d con = Some (Done (d', con')) \<and> I d' \<and>
       R (out @ concat (map (render indent) ts)) con'"
  using trees
proof (induction arbitrary: d e indent out con rule: disk_trees.induct)
  case trees_nil
  then obtain e' d' where "I d'" "enum_next dev junk e d = Done (None, e', d')"
    using dirtree_next [OF trees_nil(1) junk trees_nil(2)] by auto
  then show ?case using trees_nil.prems(4) by (subst dirtree.simps) simp
next
  case (trees_leaf x xs ts)
  let ?l = "dirtree_line indent (fs_entry_name x)"
  obtain e' d' where n: "I d'" "enum_ok n e'" "enum_next dev junk e d = Done (Some x, e', d')" "remaining img e' = xs"
    using dirtree_next [OF trees_leaf.prems(1) junk trees_leaf.prems(2)] trees_leaf.prems(3) by auto
  have f: "fits (out @ ?l @ concat (map (render indent) ts))" using trees_leaf.prems(5) by simp
  obtain con1 where c: "put ?l con = Done con1" "R (out @ ?l) con1"
    using put_shows [OF trees_leaf.prems(4) fits_part [OF f]] .
  show ?case
    using trees_leaf.IH [OF n(1,2,4) c(2)] f
    by (subst dirtree.simps) (simp add: n(3) leaf_children [OF trees_leaf.hyps(1)] c(1))
next
  case (trees_dir name c cs us xs ts)
  let ?c = "\<lparr>de_sectors = directory_sectors fs cs, de_index = 0\<rparr>" and ?l = "dirtree_line indent name"
  let ?us = "concat (map (render (indent + 2)) us)" and ?ts = "concat (map (render indent) ts)"
  obtain e' d' where n: "I d'" "enum_ok n e'" "enum_next dev junk e d = Done (Some (FAT12Directory name c), e', d')"
    "remaining img e' = xs"
    using dirtree_next [OF trees_dir.prems(1) junk trees_dir.prems(2)] trees_dir.prems(3) by auto
  have ch: "listed_children fs (FAT12Directory name c) = Done (Some ?c)"
    using trees_dir.hyps(1,2) by (simp add: listed_children_def chain_opens)
  have rem: "remaining img ?c = visible (all_entries img (directory_sectors fs cs))"
    by (simp add: remaining_def)
  have f: "fits (out @ ?l @ ?us @ ?ts)" using trees_dir.prems(5) by simp
  have f1: "fits ((out @ ?l) @ ?us)" using fits_part [of "out @ ?l" ?us ?ts] f by simp
  obtain con1 where p: "put ?l con = Done con1" "R (out @ ?l) con1"
    using put_shows [OF trees_dir.prems(4) fits_part [OF f]] .
  obtain d2 con2 where d2: "dirtree put dev junk fs (indent + 2) ?c d' con1 = Some (Done (d2, con2))" "I d2"
    "R ((out @ ?l) @ ?us) con2"
    using trees_dir.IH(1) [OF n(1) trees_dir.hyps(3) rem p(2) f1] by blast
  have "fits (((out @ ?l) @ ?us) @ ?ts)" using f by simp
  from trees_dir.IH(2) [OF d2(2) n(2,4) d2(3) this] show ?case
    by (subst dirtree.simps) (simp add: n(3) ch p(1) d2(1)[simplified])
qed

end

interpretation image_listing: disk_listing "image_device (sector_image img)" n "sector_image img" "\<lambda>_. True"
    text_put "(=)" "\<lambda>_. True" for img n ..

text \<open>C8: On a device that serves a disk image and a console that prints lines, \<^verbatim>\<open>dirtree\<close> prints the tree of
  the directory it is given: a line for every entry, indented by its depth, each subdirectory followed by
  its own entries. It returns whenever that tree is finite, its sectors are on the disk and its text fits.\<close>

theorem dirtree_prints_tree:
  assumes "serves_image dev n img I" and "prints_lines put R fits" and "I d" and "length junk = 512" and "enum_ok n e"
    and "disk_trees img n fs (remaining img e) ts"
    and "R out con" and "fits (out @ concat (map (render indent) ts))"
  shows "\<exists>d' con'. dirtree put dev junk fs indent e d con = Some (Done (d', con')) \<and> I d' \<and>
     R (out @ concat (map (render indent) ts)) con'"
  by (rule disk_listing.dirtree_trees [OF disk_listing.intro, OF block_device.intro line_printer.intro,
    OF assms(1,2,4,6,3,5) refl assms(7,8)])

text \<open>The line is what \<^verbatim>\<open>console.printf( "%s%s\n", ... )\<close> emits for the indentation and the name.\<close>

lemma cstring_chars:
  "cstring_at m p bs \<Longrightarrow> format_chars collect m p acc = Done (acc @ map (\<lambda>b. char_of (unat b)) bs)"
proof -
  have "cstring_at m p bs \<Longrightarrow> format_chars_loop collect m p acc = Some (Done (acc @ map (\<lambda>b. char_of (unat b)) bs))" for acc
    by (induction bs arbitrary: p acc)
      (subst format_chars_loop.simps, simp add: char_at_def collect_def)+
  then show "cstring_at m p bs \<Longrightarrow> ?thesis" by (simp add: format_chars_def)
qed

lemma dirtree_line_printed:
  assumes "cstring_at m p (replicate indent 0x20)" and "cstring_at m q name"
  shows "format_string_varg collect m (''%s%s'' @ [CHR ''\<newline>'']) [p, q] [] = Done (map (\<lambda>b. char_of (unat b)) (dirtree_line indent name))"
proof -
  have "char_of (10 :: nat) = CHR ''\<newline>''" by (simp add: char_of_def bit_0)
  then show ?thesis
  by (simp add: format_string_varg.simps parse_spec_def skip_zero_def parse_width_def parse_long_def
    isdigit_def char_code_def format_directive_def va_arg_u32_def keep_args_def
    cstring_chars [OF assms(1)] cstring_chars [OF assms(2)] collect_def dirtree_line_def)
qed

subsection \<open>Start messages\<close>

text \<open>The banner: what each call prints. \<open>Fill\<close> is \<^verbatim>\<open>printn\<close>.\<close>

datatype banner = Txt string | Fill char u32

definition shade :: string where
  "shade = replicate 3 (CHR 0xB0) @ replicate 3 (CHR 0xB1) @ replicate 3 (CHR 0xB2)"

definition sparta_banner :: "banner list list" where
  "sparta_banner =
     [[Txt [CHR 0xC9], Fill (CHR 0xCD) 30, Txt [CHR 0xCB], Fill (CHR 0xCD) 16, Txt [CHR 0xCB],
       Fill (CHR 0xCD) 30, Txt [CHR 0xBB]],
      [Txt (CHR 0xBA # shade), Fill (CHR 0xDB) 12, Txt (rev shade @ [CHR 0xBA]),
       Txt ([CHR 0xAF] @ ''This is TimbOS'' @ [CHR 0xAE]),
       Txt (CHR 0xBA # shade), Fill (CHR 0xDB) 12, Txt (rev shade @ [CHR 0xBA])],
      [Txt [CHR 0xC8], Fill (CHR 0xCD) 30, Txt [CHR 0xCA], Fill (CHR 0xCD) 16, Txt [CHR 0xCA],
       Fill (CHR 0xCD) 30, Txt [CHR 0xBC], Txt [CHR ''\<newline>'']]]"

fun show_banner :: "memory \<Rightarrow> banner list \<Rightarrow> CONSOLE \<Rightarrow> CONSOLE outcome" where
  "show_banner m [] con = Done con"
| "show_banner m (Txt txt # bs) con = outcome_bind (console_printf m txt [] con) (show_banner m bs)"
| "show_banner m (Fill ch count # bs) con = outcome_bind (console_printn ch count con) (show_banner m bs)"

definition sparta :: "memory \<Rightarrow> CONSOLE \<Rightarrow> CONSOLE outcome" where
  "sparta m con = show_banner m (concat sparta_banner) con"

definition parse_command_line :: "multiboot_info \<Rightarrow> log" where
  "parse_command_line mbt =
     (if mbi_flags mbt AND MULTIBOOT_INFO_BOOT_LOADER_NAME \<noteq> 0
      then [Print (''MultiBoot boot loader detected: %s'' @ [CHR ''\<newline>'']) [boot_loader_name mbt]] else []) @
     (if mbi_flags mbt AND MULTIBOOT_INFO_CMDLINE \<noteq> 0
      then [Print (''MultiBoot command line: '' @ [CHR 0x27] @ ''%s'' @ [CHR 0x27, CHR ''\<newline>'']) [cmdline mbt]] else [])"

text \<open>\<open>cpuid n\<close> gives the registers EAX, EBX, ECX, EDX; \<open>buf\<close> is the address of the local name buffer.\<close>

definition check_cpu :: "(u32 \<Rightarrow> u32 \<times> u32 \<times> u32 \<times> u32) \<Rightarrow> u32 \<Rightarrow> memory \<Rightarrow> memory \<times> log" where
  "check_cpu cpuid name_buffer m =
     (case cpuid 0 of (a, b, c, d) \<Rightarrow>
        (write_u32 (name_buffer + 12) 0 (write_u32 (name_buffer + 8) c (write_u32 (name_buffer + 4) d (write_u32 name_buffer b m))),
         [Print ''CPU: %s '' [name_buffer],
          (let r1 = fst (cpuid 1) in
           Print (''Family %d Model %d Stepping %d'' @ [CHR ''\<newline>''])
             [drop_bit 8 (r1 AND 0xF00), drop_bit 4 (r1 AND 0xF0), r1 AND 0xF]),
          Print [CHR ''\<newline>''] []]))"

fun banner_text :: "banner \<Rightarrow> string" where
  "banner_text (Txt txt) = txt"
| "banner_text (Fill ch count) = replicate (unat count) ch"

text \<open>The banner is three lines of exactly the 80 columns of the screen, and keeps the console's
  invariant.\<close>

lemma sparta_lines:
  "map (\<lambda>l. length (filter (\<lambda>c. c \<noteq> CHR ''\<newline>'') (concat (map banner_text l)))) sparta_banner = [SCREEN_WIDTH, SCREEN_WIDTH, SCREEN_WIDTH]"
  by (simp add: sparta_banner_def shade_def SCREEN_WIDTH_def)

lemma show_banner_inv: "show_banner m bs con = Done con' \<Longrightarrow> console_inv con \<Longrightarrow> console_inv con'"
  by (induction m bs con rule: show_banner.induct)
    (auto elim!: bind_DoneE dest: console_printf_inv console_printn_inv)

subsection \<open>Starting the components\<close>

definition floppy_init :: "u32 \<Rightarrow> ('z) irq_state_scheme \<Rightarrow> ('z) irq_state_scheme outcome" where
  "floppy_init handler_addr s = install_handler DEFAULT_FLOPPY_IRQ handler_addr s"

text \<open>Where the linker put the statics and the handlers.\<close>

record kernel_addresses =
  a_page_directory :: u32
  a_tss :: u32
  a_stub :: "nat \<Rightarrow> u32"
  a_keyboard :: u32
  a_scheduler :: u32
  a_syscall :: u32
  a_floppy :: u32

record kernel_state =
  k_memory :: "machine \<times> physical heap"
  k_gdt :: "gdt_entry list"
  k_idt :: "idt_entry list"
  k_sched :: sched_state

definition kernel_init :: "kernel_addresses \<Rightarrow> memory \<Rightarrow> multiboot_info \<Rightarrow> kernel_state \<Rightarrow> kernel_state outcome" where
  "kernel_init a bm mbt s =
     outcome_bind (mm_init bm mbt (a_page_directory a) (k_memory s)) (\<lambda>mem.
     outcome_bind (gdt_init (a_tss a) (k_gdt s)) (\<lambda>gdt.
     case irq_init (a_stub a) (isr_init (a_stub a) (k_idt s)) of (idt, ws) \<Rightarrow>
     outcome_bind (keyboard_init (a_keyboard a) ((k_sched s)\<lparr>irq_ports := irq_ports (k_sched s) @ ws\<rparr>)) (\<lambda>s1.
     outcome_bind (scheduler_init (a_scheduler a) s1) (\<lambda>s2.
     outcome_bind (syscall_init (a_syscall a) s2) (\<lambda>s3.
     outcome_bind (floppy_init (a_floppy a) s3) (\<lambda>s4.
       Done \<lparr>k_memory = mem, k_gdt = gdt, k_idt = idt, k_sched = s4\<rparr>))))))"

text \<open>After the start of the components: memory is ready, the vectors lead to their stubs, and the timer,
  the keyboard, the system call and the floppy controller have their handlers.\<close>

definition kernel_ready :: "kernel_addresses \<Rightarrow> u32 \<Rightarrow> kernel_state \<Rightarrow> bool" where
  "kernel_ready a memory_end k \<longleftrightarrow> memory_ready memory_end (k_memory k) \<and>
     segment_base (k_gdt k ! 5) = a_tss a \<and>
     (\<forall>v < 48. present_gate (a_stub a v) (k_idt k ! v)) \<and>
     irq_routines (k_sched k) ! 0 = a_scheduler a \<and> irq_routines (k_sched k) ! 1 = a_keyboard a \<and>
     irq_routines (k_sched k) ! 3 = a_syscall a \<and> irq_routines (k_sched k) ! 6 = a_floppy a"

lemma handlers_installed:
  assumes "length (irq_routines s) = 16"
  shows "\<exists>s4. outcome_bind (keyboard_init kb s) (\<lambda>s1. outcome_bind (scheduler_init sch s1) (\<lambda>s2.
      outcome_bind (syscall_init sys s2) (\<lambda>s3. outcome_bind (floppy_init fl s3) f))) = f s4 \<and>
     irq_routines s4 = (irq_routines s)[1 := kb, 0 := sch, 3 := sys, 6 := fl]"
proof -
  have "irq_routines s \<noteq> []" using assms by auto
  then show ?thesis
    using assms
    by (intro exI [of _ "s\<lparr>irq_log := irq_log s @ [Debug ''keyboard_install...'' [], Debug (''done'' @ [CHR ''\<newline>'']) []],
        irq_routines := (irq_routines s)[1 := kb, 0 := sch, 3 := sys, 6 := fl]\<rparr>"])
      (simp add: keyboard_init_def scheduler_init_def syscall_init_def floppy_init_def install_handler_def
        DEFAULT_FLOPPY_IRQ_def)
qed

lemma kernel_init_ok:
  assumes "mbi_flags mbt AND MULTIBOOT_INFO_MEM_MAP \<noteq> 0"
    and "mmap_stored bm (mmap_addr mbt) (mmap_addr mbt + mmap_length mbt) es" and "short_reserved es"
    and "memory_end = Max (insert 0 (memory_ends es))" and "KERNEL_VIRTUAL_SIZE_MAX \<le> memory_end"
    and "static_end = snd (init_pools (find_kernel_static_end bm mbt) KERNEL_VIRTUAL_SIZE_MAX memory_end (pages h))"
    and "static_end \<noteq> 0" and "static_end \<le> 0xFFFFF000"
    and "take_bit 12 (cr3 m) = 0" and "virtual_to_physical m (a_page_directory a) = Done (cr3 m)"
    and "groups h = replicate 17 heap_chunk_group_new"
    and "k_memory s = (m, h)" and "length (k_gdt s) = 6" and "length (k_idt s) = 256"
    and "length (irq_routines (k_sched s)) = 16"
  shows "\<exists>k. kernel_init a bm mbt s = Done k \<and> kernel_ready a memory_end k \<and> memory_free es static_end (snd (k_memory k))"
proof -
  obtain mem where mem: "mm_init bm mbt (a_page_directory a) (m, h) = Done mem" "memory_ready memory_end mem"
    "memory_free es static_end (snd mem)"
    using mm_init_ok [OF assms(1-11)] by blast
  obtain gdt where gdt: "gdt_init (a_tss a) (k_gdt s) = Done gdt" "segment_base (gdt ! 5) = a_tss a"
    using gdt_init_ok [OF assms(13)] by blast
  obtain idt ws where idt: "irq_init (a_stub a) (isr_init (a_stub a) (k_idt s)) = (idt, ws)" by (rule prod.exhaust)
  have gates: "present_gate (a_stub a v) (idt ! v)" if "v < 48" for v
    using idt_vectors_ok [OF assms(14), of v "a_stub a"] that idt by simp
  let ?s = "(k_sched s)\<lparr>irq_ports := irq_ports (k_sched s) @ ws\<rparr>"
  obtain s4 where s4: "outcome_bind (keyboard_init (a_keyboard a) ?s) (\<lambda>s1. outcome_bind (scheduler_init (a_scheduler a) s1) (\<lambda>s2.
      outcome_bind (syscall_init (a_syscall a) s2) (\<lambda>s3. outcome_bind (floppy_init (a_floppy a) s3) (\<lambda>s4.
        Done \<lparr>k_memory = mem, k_gdt = gdt, k_idt = idt, k_sched = s4\<rparr>)))) =
      Done \<lparr>k_memory = mem, k_gdt = gdt, k_idt = idt, k_sched = s4\<rparr>"
    "irq_routines s4 = (irq_routines (k_sched s))[1 := a_keyboard a, 0 := a_scheduler a, 3 := a_syscall a, 6 := a_floppy a]"
    using handlers_installed [of ?s "a_keyboard a" "a_scheduler a" "a_syscall a" "a_floppy a"
        "\<lambda>s4. Done \<lparr>k_memory = mem, k_gdt = gdt, k_idt = idt, k_sched = s4\<rparr>"] assms(15) by auto
  have "kernel_init a bm mbt s = Done \<lparr>k_memory = mem, k_gdt = gdt, k_idt = idt, k_sched = s4\<rparr>"
    by (simp add: kernel_init_def assms(12) mem(1) gdt(1) idt s4(1))
  moreover have "kernel_ready a memory_end \<lparr>k_memory = mem, k_gdt = gdt, k_idt = idt, k_sched = s4\<rparr>"
    using mem(2) gdt(2) gates s4(2) assms(15) by (simp add: kernel_ready_def)
  ultimately show ?thesis using mem(3) by fastforce
qed

text \<open>C6: On a machine with at least 64 MiB, the kernel starts all components and each is in place.\<close>

theorem kernel_init_ready:
  assumes "mbi_flags mbt AND MULTIBOOT_INFO_MEM_MAP \<noteq> 0"
    and "mmap_stored bm (mmap_addr mbt) (mmap_addr mbt + mmap_length mbt) es" and "short_reserved es"
    and "memory_end = Max (insert 0 (memory_ends es))" and "KERNEL_VIRTUAL_SIZE_MAX \<le> memory_end"
    and "static_end = snd (init_pools (find_kernel_static_end bm mbt) KERNEL_VIRTUAL_SIZE_MAX memory_end (pages h))"
    and "static_end \<noteq> 0" and "static_end \<le> 0xFFFFF000"
    and "take_bit 12 (cr3 m) = 0" and "virtual_to_physical m (a_page_directory a) = Done (cr3 m)"
    and "groups h = replicate 17 heap_chunk_group_new"
    and "k_memory s = (m, h)" and "length (k_gdt s) = 6" and "length (k_idt s) = 256"
    and "length (irq_routines (k_sched s)) = 16"
  shows "\<exists>k. kernel_init a bm mbt s = Done k \<and> kernel_ready a memory_end k"
  using kernel_init_ok [OF assms] by blast

definition boot_addresses :: kernel_addresses where
  "boot_addresses = \<lparr>a_page_directory = 0xC0001000, a_tss = 0xC0105000, a_stub = (\<lambda>v. 0xC0100000 + word_of_nat v),
     a_keyboard = 0xC0101000, a_scheduler = 0xC0101100, a_syscall = 0xC0101200, a_floppy = 0xC0101300\<rparr>"

definition boot_kernel :: kernel_state where
  "boot_kernel = \<lparr>k_memory = (sample_machine, heap_start sample_physical), k_gdt = empty_gdt, k_idt = empty_idt,
     k_sched = \<lparr>irq_routines = replicate 16 0, ram = (\<lambda>a. 0), irq_ports = [], irq_log = [],
       s_task_list = [], s_current_task = None, tss = replicate 32 0\<rparr>\<rparr>"

lemma boot_kernel_facts:
  "mbi_flags boot_mbi AND MULTIBOOT_INFO_MEM_MAP \<noteq> 0"
  "mmap_stored boot_bytes (mmap_addr boot_mbi) (mmap_addr boot_mbi + mmap_length boot_mbi) boot_entries"
  "short_reserved boot_entries" "(0x8000000 :: u32) = Max (insert 0 (memory_ends boot_entries))"
  "KERNEL_VIRTUAL_SIZE_MAX \<le> 0x8000000"
  "(0x220000 :: u32) = snd (init_pools (find_kernel_static_end boot_bytes boot_mbi) KERNEL_VIRTUAL_SIZE_MAX
      0x8000000 (pages (heap_start sample_physical)))"
  "(0x220000 :: u32) \<noteq> 0" "(0x220000 :: u32) \<le> 0xFFFFF000"
  "take_bit 12 (cr3 sample_machine) = 0"
  "virtual_to_physical sample_machine (a_page_directory boot_addresses) = Done (cr3 sample_machine)"
  "groups (heap_start sample_physical) = replicate 17 heap_chunk_group_new"
  "k_memory boot_kernel = (sample_machine, heap_start sample_physical)"
  "length (k_gdt boot_kernel) = 6" "length (k_idt boot_kernel) = 256" "length (irq_routines (k_sched boot_kernel)) = 16"
proof -
  show "(0x220000 :: u32) = snd (init_pools (find_kernel_static_end boot_bytes boot_mbi) KERNEL_VIRTUAL_SIZE_MAX
      0x8000000 (pages (heap_start sample_physical)))"
    unfolding boot_facts by (simp add: init_pools_def linear_alloc_def Let_def mmdef_defs align_pos.simps)
  show "(0x8000000 :: u32) = Max (insert 0 (memory_ends boot_entries))" by (simp only: boot_facts)
  show "short_reserved boot_entries"
    by (simp add: boot_entries_def short_reserved_def multiboot_flag_defs)
  show "virtual_to_physical sample_machine (a_page_directory boot_addresses) = Done (cr3 sample_machine)"
    using sample_machine_facts(4) by (simp add: sample_machine_def boot_addresses_def)
qed (use boot_facts sample_machine_facts in \<open>simp_all add: boot_mbi_def multiboot_flag_defs mmdef_defs
  heap_start_def word_le_nat_alt boot_kernel_def empty_gdt_def empty_idt_def\<close>)

theorem kernel_init_ready_witness:
  "\<exists>k. kernel_init boot_addresses boot_bytes boot_mbi boot_kernel = Done k \<and> kernel_ready boot_addresses 0x8000000 k"
  by (rule kernel_init_ready [OF boot_kernel_facts])

subsection \<open>Listing the floppy disk\<close>

definition store_bytes :: "u32 \<Rightarrow> u8 list \<Rightarrow> memory \<Rightarrow> memory" where
  "store_bytes a bs m = (\<lambda>x. if unat (x - a) < length bs then bs ! unat (x - a) else m x)"

text \<open>
  The last step of \<^verbatim>\<open>kmain\<close>. \<open>sector_addr\<close> is the address of the local boot sector, \<open>boot_junk\<close> what it
  held before; the result of reading it is ignored. \<open>literal\<close> is the address of the string FAT12.
\<close>

definition list_floppy ::
    "(u8 list \<Rightarrow> 'c \<Rightarrow> 'c outcome) \<Rightarrow> ('d, 'z) floppy_hardware_scheme \<Rightarrow> u8 list \<Rightarrow> u8 list \<Rightarrow> memory \<Rightarrow> u32 \<Rightarrow> u32 \<Rightarrow>
     device_manager \<Rightarrow> 'd floppy_state \<Rightarrow> 'c \<Rightarrow> ((FloppyDrive \<times> 'd floppy_state) \<times> 'c) outcome" where
  "list_floppy put hw junk boot_junk m sector_addr literal mgr f con =
     (let dev = floppy_device hw in
      outcome_bind (as_block_device (device_get ''/floppy/0'' mgr)) (\<lambda>dr.
      outcome_bind (bd_read dev 0 1 boot_junk (dr, f)) (\<lambda>(ok, sector, d1).
      outcome_bind (tryCreate dev (store_bytes sector_addr sector m) sector_addr literal d1) (\<lambda>(created, d2).
        case created of
          None \<Rightarrow> Fault UndefinedBehaviour
        | Some fs \<Rightarrow>
            outcome_bind (root_directory fs) (\<lambda>root.
              outcome_of_loop (dirtree put dev junk fs 0 root d2 con))))))"

definition kernel_probes :: "('d, 'z) floppy_hardware_scheme \<Rightarrow> 'd device_state probe_table outcome" where
  "kernel_probes hw = reg_probe (floppy_probe hw) no_probes"

definition devices_start :: "physical heap \<Rightarrow> 'd floppy_state \<Rightarrow> 'd device_state" where
  "devices_start h f = \<lparr>ds_heap = h, ds_floppy = f, ds_manager = \<lparr>devices = [], dm_console = []\<rparr>, ds_floppy0 = None\<rparr>"

text \<open>The sectors of the root directory of a disk.\<close>

definition root_sectors :: "FAT12_BootSector \<Rightarrow> u16 list" where
  "root_sectors b = push_sectors (unat (ucast (RootEntityCount b) * 32 div 512 :: u32)) (root_sector b) []"

lemma stored_sector:
  assumes "length bs = 512" and "i < 512"
  shows "store_bytes a bs m (a + word_of_nat i) = bs ! i"
  using assms unat_u32_of_nat [of i] by (simp add: store_bytes_def)

lemma tryCreate_stored:
  assumes "length bs = 512" and "a \<noteq> 0" and "512 \<le> unat (literal - a)" and "m literal = 0x46" and "bs ! 54 = 0x46"
  shows "tryCreate dev (store_bytes a bs m) a literal d =
     outcome_bind (FAT12FileSystem dev (boot_sector bs) d) (\<lambda>(fs, d'). Done (Some fs, d'))"
proof -
  let ?m = "store_bytes a bs m"
  have "?m (a + 54) = 0x46" using stored_sector [OF assms(1), of 54 a m] assms(5) by simp
  moreover have "?m literal = 0x46" using assms(1,3,4) by (simp add: store_bytes_def)
  ultimately have "strncmp ?m (a + 54) literal 5 = 0"
    by (auto simp: strncmp_def strncmp_loop_zero)
  moreover have "map (\<lambda>i. ?m (a + word_of_nat i)) [0..<512] = bs"
    using assms(1) by (intro nth_equalityI) (auto simp: stored_sector [OF assms(1)])
  ultimately show ?thesis using assms(2) by (simp add: tryCreate_def)
qed

text \<open>The trees of a FAT12 volume, as the listing meets them.\<close>

lemma make_entry_name: "fs_entry_name (make_entry e) = entry_name (Name e)"
  by (simp add: make_entry_def)

lemma make_entry_format:
  assumes "entry_named img p name"
  shows "make_entry (decoded img p) = (if entry_is_directory img p then FAT12Directory name (FileSystemClusterLogical (decoded img p))
    else FAT12File name (FileSize (decoded img p)) (FileSystemClusterLogical (decoded img p)))"
  by (simp add: make_entry_def directory_bit entry_name_format [OF assms])

lemma concat_length_le: "\<forall>x\<in>set xs. length (f x) = k \<Longrightarrow> length (concat (map f xs)) = k * length xs"
  by (induction xs) auto

lemma directory_chain_enum_ok:
  assumes "directory_chain img c cs" and "\<forall>s\<in>set (concat (map (cluster_region img) cs)). s < n" and "n \<le> 65536"
  shows "enum_ok n \<lparr>de_sectors = region_sectors img cs, de_index = 0\<rparr>"
proof -
  have "set cs \<subseteq> {..<0xFF0}" "distinct cs" using assms(1) by (auto simp: directory_chain_def)
  then have "length cs \<le> 0xFF0" using card_mono [of "{..<0xFF0 :: nat}" "set cs"] distinct_card [of cs] by simp
  then have "bpb_sec_per_clus img * length cs \<le> 255 * 0xFF0"
    using field_bounds(1) [of img] by (intro mult_le_mono) simp_all
  then have "length (region_sectors img cs) < 2 ^ 28"
    using concat_length_le [of cs "cluster_region img" "bpb_sec_per_clus img"]
    by (simp add: region_sectors_def cluster_region_def)
  moreover have "unat (word_of_nat s :: u16) < n" if "s < n" for s
    using that assms(3) by (simp add: unat_of_nat)
  ultimately show ?thesis using assms(2) by (simp add: enum_ok_def region_sectors_def)
qed

lemma volume_entries:
  assumes "readable_volume img" and "\<forall>s\<in>set ss. s < n" and "n \<le> 65536"
    and "\<forall>p\<in>set (used_entries img ss). volume_byte img p \<noteq> 0x0E"
  shows "visible (all_entries img (map word_of_nat ss)) = map (\<lambda>p. make_entry (decoded img p)) (used_entries img ss)"
  using assms by (intro visible_used) (auto simp: readable_volume_def)

lemma volume_disk_trees:
  assumes "readable_volume img" and "n \<le> 65536"
  shows "volume_trees img n ps ts \<Longrightarrow> (\<forall>p\<in>set ps. volume_byte img p \<noteq> 0x0E) \<and>
    disk_trees img n (disk_fs img) (map (\<lambda>p. make_entry (decoded img p)) ps) ts"
proof (induction rule: volume_trees.induct)
  case (volume_leaf p name ps ts)
  have l: "leaf_entry (make_entry (decoded img p))" "fs_entry_name (make_entry (decoded img p)) = name"
    using volume_leaf.hyps(3) by (auto simp: make_entry_format [OF volume_leaf.hyps(1)] leaf_entry_def dot_name_def dot_entry_def)
  then show ?case using volume_leaf.hyps(2) volume_leaf.IH trees_leaf [OF l(1)] by simp
next
  case (volume_dir p name cs us ps ts)
  let ?c = "FileSystemClusterLogical (decoded img p)" and ?ss = "concat (map (cluster_region img) cs)"
  have "fat_chain img code_ends (unat ?c) cs"
    using directory_chain_code [OF volume_dir.hyps(5)] by (simp add: decoded_fields)
  then obtain ws where ws: "cluster_chain (disk_fs img) ?c ws" "cs = map unat ws"
    using format_cluster_chain [OF assms(1)] by blast
  then have sec: "directory_sectors (disk_fs img) ws = region_sectors img cs"
    using cluster_chain_format [OF assms(1)] by (simp add: directory_sectors_def)
  have "visible (all_entries img (region_sectors img cs)) = map (\<lambda>p. make_entry (decoded img p)) (used_entries img ?ss)"
    unfolding region_sectors_def
    using volume_entries [OF assms(1) volume_dir.hyps(6) assms(2)] volume_dir.IH(1) by blast
  then have "disk_trees img n (disk_fs img)
      (FAT12Directory name ?c # map (\<lambda>p. make_entry (decoded img p)) ps) (EntryTree name us # ts)"
    using directory_chain_enum_ok [OF volume_dir.hyps(5,6) assms(2)] volume_dir.IH volume_dir.hyps(4)
    by (intro trees_dir [OF _ ws(1)]) (simp_all add: sec dot_name_def dot_entry_def)
  then show ?case
    using volume_dir.hyps(2,3) volume_dir.IH(2) by (simp add: make_entry_format [OF volume_dir.hyps(1)])
qed (auto intro: trees_nil)

lemma root_sectors_format:
  assumes "16 dvd bpb_root_ent_cnt img"
  shows "root_sectors (boot_sector (img 0)) = map word_of_nat [root_dir_start img ..< data_start img]"
proof -
  have "root_dir_start img + root_dir_sectors img < 4294967296"
    using data_start_bound [of img] by (simp add: data_start_def)
  then show ?thesis
    unfolding root_sectors_def root_sectors_count [OF assms]
    by (subst push_sectors_upt) (simp_all add: root_sector_start data_start_def)
qed

lemma fat12_volume_facts:
  assumes "fat12_volume img n ts" and "n \<le> 65536" and "\<And>s. length (img s) = 512"
  shows "img 0 ! 54 = 0x46" "BytesPerSector (boot_sector (img 0)) = 512" "FATSize (boot_sector (img 0)) mod 3 = 0"
    "unat (ReservedSectorCount (boot_sector (img 0))) + unat (FATSize (boot_sector (img 0))) \<le> n"
    "disk_trees img n (disk_fs img) (visible (all_entries img (root_sectors (boot_sector (img 0))))) ts"
    "enum_ok n \<lparr>de_sectors = root_sectors (boot_sector (img 0)), de_index = 0\<rparr>"
proof -
  let ?ss = "[root_dir_start img ..< data_start img]"
  have V: "volume_byte img 54 = 0x46" "bpb_byts_per_sec img = 512" "3 dvd bpb_fat_sz img" "16 dvd bpb_root_ent_cnt img"
    "bpb_rsvd_sec_cnt img + bpb_fat_sz img \<le> n" "data_start img \<le> n" "volume_trees img n (used_entries img ?ss) ts"
    using assms(1) by (auto simp: fat12_volume_def volume_bytes_def upt_rec)
  have "unat (img 0 ! 54) = unat (0x46 :: u8)" using V(1) by (simp add: volume_byte_0)
  then show "img 0 ! 54 = 0x46" by (simp only: word_unat_eq_iff)
  have "unat (BytesPerSector (boot_sector (img 0))) = unat (512 :: u16)" using V(2) by (simp add: boot_fields)
  then show "BytesPerSector (boot_sector (img 0)) = 512" by (simp only: word_unat_eq_iff)
  show "FATSize (boot_sector (img 0)) mod 3 = 0"
    using V(3) by (simp add: word_unat_eq_iff unat_mod boot_fields dvd_eq_mod_eq_0)
  show "unat (ReservedSectorCount (boot_sector (img 0))) + unat (FATSize (boot_sector (img 0))) \<le> n"
    using V(5) by (simp add: boot_fields)
  have rv: "readable_volume img" using V(3,4) assms(3) by (simp add: readable_volume_def)
  have "\<forall>s\<in>set ?ss. s < n" using V(6) by auto
  then show "disk_trees img n (disk_fs img) (visible (all_entries img (root_sectors (boot_sector (img 0))))) ts"
    using volume_disk_trees [OF rv assms(2) V(7)] volume_entries [OF rv _ assms(2)]
    by (simp add: root_sectors_format [OF V(4)])
  have "unat (word_of_nat s :: u16) < n" if "s < n" for s
    using that assms(2) by (simp add: unat_of_nat)
  then show "enum_ok n \<lparr>de_sectors = root_sectors (boot_sector (img 0)), de_index = 0\<rparr>"
    using V(6) assms(2) by (auto simp: enum_ok_def root_sectors_format [OF V(4)])
qed

lemma root_directory_disk:
  assumes "BytesPerSector (boot_sector (img 0)) = 512"
  shows "root_directory (disk_fs img) = Done \<lparr>de_sectors = root_sectors (boot_sector (img 0)), de_index = 0\<rparr>"
  by (simp add: root_directory_def disk_fs_def num_root_directory_sectors_def assms sector_from_cluster_def
    FAT12RootDirectoryEnum_def root_sectors_def Let_def)

lemma volume_serves:
  assumes "serves_image (floppy_device hw) 2880 img I" and "I (dr, f)" and "fat12_volume img 2880 ts"
    and "device_get ''/floppy/0'' mgr = Some (FloppyDriveDevice dr)"
    and "length junk = 512" and "length boot_junk = 512"
    and "sector_addr \<noteq> 0" and "512 \<le> unat (literal - sector_addr)" and "m literal = 0x46"
    and "prints_lines put R fits" and "R [] con" and "fits (concat (map (render 0) ts))"
  shows "\<exists>d con'. list_floppy put hw junk boot_junk m sector_addr literal mgr f con = Done (d, con') \<and> I d \<and>
    R (concat (map (render 0) ts)) con'"
proof -
  let ?dev = "floppy_device hw" and ?b = "boot_sector (img 0)"
  have "(2880 :: nat) \<le> 65536" by simp
  note D = fat12_volume_facts [OF assms(3) this serves_image_length [OF assms(1)]]
  have "unat (0 :: u32) < 2880" by simp
  then obtain d1 where d1: "bd_read ?dev 0 1 boot_junk (dr, f) = Done (True, img 0, d1)" "I d1"
    using block_device.read_one [OF block_device.intro, OF assms(1,2,6)] by blast
  obtain d2 where d2: "FAT12FileSystem ?dev ?b d1 = Done (disk_fs img, d2)" "I d2"
    using block_device.mount_ok [OF block_device.intro, OF assms(1) d1(2) D(2,4)] D(3) by (auto simp: disk_fs_def Let_def)
  have create: "tryCreate ?dev (store_bytes sector_addr (img 0) m) sector_addr literal d1 = Done (Some (disk_fs img), d2)"
    by (simp add: tryCreate_stored [of "img 0" sector_addr literal m, OF serves_image_length [OF assms(1)] assms(7-9) D(1)] d2(1))
  let ?root = "\<lparr>de_sectors = root_sectors ?b, de_index = 0\<rparr>"
  have rem: "remaining img ?root = visible (all_entries img (root_sectors ?b))" by (simp add: remaining_def)
  have f: "fits ([] @ concat (map (render 0) ts))" using assms(12) by simp
  obtain d3 con3 where "dirtree put ?dev junk (disk_fs img) 0 ?root d2 con = Some (Done (d3, con3))" "I d3"
    "R (concat (map (render 0) ts)) con3"
    using disk_listing.dirtree_trees [OF disk_listing.intro, OF block_device.intro line_printer.intro,
      OF assms(1,10,5) D(5) d2(2) D(6) rem assms(11) f]
    by auto
  then show ?thesis
    by (simp add: list_floppy_def Let_def assms(4) as_block_device_def d1(1) create root_directory_disk [of img, OF D(2)])
qed

subsection \<open>A disk with a subdirectory\<close>

theorem dirtree_prints_tree_witness:
  "\<exists>d. dirtree text_put (image_device listing_image) (replicate 512 0) (disk_fs listing_image) 0
      \<lparr>de_sectors = [7], de_index = 0\<rparr> () [] = Some (Done (d, concat (map (render 0) listing_trees)))"
proof -
  have "[7..<8] = [7 :: nat]" "(2880 :: nat) \<le> 65536" by (simp_all add: upt_rec)
  then have "root_sectors (boot_sector (listing_image 0)) = [7]"
    by (subst root_sectors_format) (simp_all add: listing_layout listing_regions)
  then have t: "disk_trees listing_image 2880 (disk_fs listing_image)
      (remaining listing_image \<lparr>de_sectors = [7], de_index = 0\<rparr>) listing_trees"
    using fat12_volume_facts(5) [OF listing_volume \<open>_ \<le> _\<close> length_listing_image] by (simp add: remaining_def)
  have k: "enum_ok 2880 \<lparr>de_sectors = [7], de_index = 0\<rparr>" by (simp add: enum_ok_def)
  from dirtree_prints_tree [where d = "()" and junk = "replicate 512 0" and indent = 0 and out = "[]" and con = "[]",
      OF listing_served text_prints_lines _ _ k t] show ?thesis by auto
qed

end
