(* ===== verification/Paging_Build.thy ===== *)
theory Paging_Build
  imports Paging
begin

text \<open>
  \<^verbatim>\<open>paging_build_kernel_table\<close> of \<^verbatim>\<open>src/paging.cpp\<close>: a page table for the sections of the kernel image,
  which \<^verbatim>\<open>kmain\<close> no longer calls. The static \<^verbatim>\<open>kernel_page_table\<close> is a list of 1024 entries; it is not
  one of the tables the address translation uses until the directory entry is written at the end.
\<close>

definition SHF_WRITE :: u32 where "SHF_WRITE = push_bit 0 1"

definition set_pte_writable :: "u32 \<Rightarrow> u32 \<Rightarrow> u32" where "set_pte_writable = set_field 1 1"
definition set_pte_user :: "u32 \<Rightarrow> u32 \<Rightarrow> u32" where "set_pte_user = set_field 2 1"

definition section_pte :: "bool \<Rightarrow> u32 \<Rightarrow> u32 \<Rightarrow> u32" where
  "section_pte w physical_address pte =
     set_pte_writable (if w then 1 else 0) (set_pte_user 1 (set_pte_present 1
       (set_pte_page_addr (drop_bit 12 physical_address) pte)))"

definition page_step :: "u32 \<Rightarrow> u32 \<Rightarrow> u32" where
  "page_step virtual_addr sz = (let n = 0x1000 - virtual_addr mod 0x1000 in if sz < n then sz else n)"

lemma page_step_bounds: "0 < sz \<Longrightarrow> 0 < unat (page_step va sz) \<and> unat (page_step va sz) \<le> unat sz"
proof -
  assume sz: "0 < sz"
  have "va mod 0x1000 < 0x1000" by (simp add: word_mod_less_divisor)
  then have "unat (va mod 0x1000) < 0x1000" by (simp add: word_less_nat_alt)
  then have "unat (0x1000 - va mod 0x1000) = 0x1000 - unat (va mod 0x1000)"
    by (subst unat_sub) (simp_all add: word_le_nat_alt)
  then show ?thesis
    using sz \<open>unat (va mod 0x1000) < 0x1000\<close> by (simp add: page_step_def Let_def word_less_nat_alt)
qed

text \<open>The loop over the pages of a section, and the addresses it visits.\<close>

function map_section :: "machine \<Rightarrow> bool \<Rightarrow> u32 \<Rightarrow> nat \<Rightarrow> u32 \<Rightarrow> u32 list \<Rightarrow> u32 list outcome" where
  "map_section m w sz ptindex virtual_addr t =
     (if 0 < sz then
        outcome_bind (virtual_to_physical m virtual_addr) (\<lambda>physical_address.
          if ptindex < length t then
            map_section m w (sz - page_step virtual_addr sz) (ptindex + 1) (virtual_addr + page_step virtual_addr sz)
              (t[ptindex := section_pte w physical_address (t ! ptindex)])
          else Fault OutOfBounds)
      else Done t)"
  by auto

function section_pages :: "u32 \<Rightarrow> u32 \<Rightarrow> u32 list" where
  "section_pages sz virtual_addr =
     (if 0 < sz then virtual_addr # section_pages (sz - page_step virtual_addr sz) (virtual_addr + page_step virtual_addr sz)
      else [])"
  by auto

lemma page_step_less: "0 < sz \<Longrightarrow> unat (sz - page_step va sz) < unat sz"
  using page_step_bounds [of sz va] by (subst unat_sub) (auto simp: word_le_nat_alt word_less_nat_alt)

termination map_section
  by (relation "measure (\<lambda>(m, w, sz, i, va, t). unat sz)") (simp_all add: page_step_less)

termination section_pages
  by (relation "measure (\<lambda>(sz, va). unat sz)") (simp_all add: page_step_less)

declare map_section.simps [simp del] section_pages.simps [simp del]

fun map_sections :: "machine \<Rightarrow> memory \<Rightarrow> nat \<Rightarrow> u32 \<Rightarrow> u32 list \<Rightarrow> u32 list outcome" where
  "map_sections m bm 0 esh t = Done t"
| "map_sections m bm (Suc n) esh t =
     (let h = read_shdr bm esh in
      outcome_bind
        (if sh_flags h AND SHF_ALLOC \<noteq> 0
         then map_section m (sh_flags h AND SHF_WRITE \<noteq> 0) (sh_size h)
                (unat (drop_bit PAGE_SHIFT (sh_addr h) AND 0x3FF)) (sh_addr h) t
         else Done t)
        (map_sections m bm n (esh + 40)))"

text \<open>The video memory and the boot header; the latter stays a supervisor page.\<close>

definition map_fixed :: "u32 list \<Rightarrow> u32 list" where
  "map_fixed t =
     (let t1 = t[0x0B8 := set_pte_page_addr 0x0B8 (set_pte_user 1 (set_pte_present 1 (set_pte_writable 1 (t ! 0x0B8))))] in
      t1[0x02B := set_pte_page_addr 0x02B (set_pte_present 1 (set_pte_writable 1 (t1 ! 0x02B)))])"

text \<open>\<open>junk\<close> is what the uninitialised local entry holds, \<open>table_addr\<close> the address of the table.\<close>

definition paging_build_kernel_table ::
    "u32 \<Rightarrow> memory \<Rightarrow> u32 \<Rightarrow> multiboot_elf_section_header_table \<Rightarrow> u32 \<Rightarrow> machine \<Rightarrow> (u32 list \<times> machine) outcome" where
  "paging_build_kernel_table junk bm table_addr esht kernel_base m =
     outcome_bind (map_sections m bm (unat (esht_num esht)) (esht_addr esht) (replicate 0x400 0)) (\<lambda>t.
     outcome_bind (virtual_to_physical m table_addr) (\<lambda>physical_address.
       let pde = set_pde_page_table_addr (drop_bit 12 physical_address) (set_pde_user 1 (set_pde_enable4m 0
                   (set_pde_present 1 (set_pde_writable 1 junk))));
           m1 = update_dir_entry (drop_bit 22 kernel_base) (\<lambda>_. pde) m in
       Done (map_fixed t, fold (\<lambda>i. invlpg (kernel_base + word_of_nat i * 0x1000)) [0..<0x400] m1)))"

subsection \<open>What the table maps\<close>

text \<open>A page of a section is mapped: present, for user mode, to the frame the address has now.\<close>

definition maps_page :: "bool \<Rightarrow> u32 \<Rightarrow> u32 \<Rightarrow> bool" where
  "maps_page w physical_address pte \<longleftrightarrow> pte_present pte = 1 \<and> pte_page_addr pte = drop_bit 12 physical_address \<and>
     get_field 1 1 pte = (if w then 1 else 0) \<and> get_field 2 1 pte = 1"

lemma section_pte_maps: "maps_page w p (section_pte w p e)"
proof -
  have "take_bit 20 (drop_bit 12 p) = drop_bit 12 p"
    by (rule bit_eqI) (auto simp: bit_simps dest: bit_imp_le_length)
  then show ?thesis
    by (auto simp: maps_page_def section_pte_def set_pte_writable_def set_pte_user_def pte_defs)
qed

lemma map_section_result:
  assumes "\<And>v. v \<in> set (section_pages sz va) \<Longrightarrow> virtual_to_physical m v = Done (p v)"
  shows "if i + length (section_pages sz va) \<le> length t
     then \<exists>t'. map_section m w sz i va t = Done t' \<and> length t' = length t \<and>
       (\<forall>j. j < i \<or> i + length (section_pages sz va) \<le> j \<longrightarrow> t' ! j = t ! j) \<and>
       (\<forall>k < length (section_pages sz va). maps_page w (p (section_pages sz va ! k)) (t' ! (i + k)))
     else map_section m w sz i va t = Fault OutOfBounds \<or> length t < i"
  using assms
proof (induction m w sz i va t rule: map_section.induct)
  case (1 m w sz i va t)
  show ?case
  proof (cases "0 < sz")
    case False
    then show ?thesis by (simp add: map_section.simps [of m w sz] section_pages.simps [of sz])
  next
    case True
    let ?sz = "sz - page_step va sz" and ?va = "va + page_step va sz"
    let ?t = "t[i := section_pte w (p va) (t ! i)]"
    have vs: "section_pages sz va = va # section_pages ?sz ?va" using True by (simp add: section_pages.simps [of sz])
    have tr: "virtual_to_physical m va = Done (p va)" using "1.prems" vs by simp
    show ?thesis
    proof (cases "i < length t")
      case False
      then show ?thesis using True tr by (auto simp: vs map_section.simps [of m w sz])
    next
      case i: True
      have run: "map_section m w sz i va t = map_section m w ?sz (i + 1) ?va ?t"
        using True tr i by (simp add: map_section.simps [of m w sz])
      have IH: "if (i + 1) + length (section_pages ?sz ?va) \<le> length ?t
         then \<exists>t'. map_section m w ?sz (i + 1) ?va ?t = Done t' \<and> length t' = length ?t \<and>
           (\<forall>j. j < i + 1 \<or> (i + 1) + length (section_pages ?sz ?va) \<le> j \<longrightarrow> t' ! j = ?t ! j) \<and>
           (\<forall>k < length (section_pages ?sz ?va). maps_page w (p (section_pages ?sz ?va ! k)) (t' ! ((i + 1) + k)))
         else map_section m w ?sz (i + 1) ?va ?t = Fault OutOfBounds \<or> length ?t < i + 1"
        using "1.IH" [of "p va", OF True i] "1.prems" vs by simp
      show ?thesis
      proof (cases "i + length (section_pages sz va) \<le> length t")
        case False
        then show ?thesis using IH i run by (simp add: vs)
      next
        case fits: True
        then have c: "(i + 1) + length (section_pages ?sz ?va) \<le> length ?t" by (simp add: vs)
        obtain t' where t': "map_section m w ?sz (i + 1) ?va ?t = Done t'" "length t' = length ?t"
          "\<And>j. j < i + 1 \<or> (i + 1) + length (section_pages ?sz ?va) \<le> j \<Longrightarrow> t' ! j = ?t ! j"
          "\<And>k. k < length (section_pages ?sz ?va) \<Longrightarrow> maps_page w (p (section_pages ?sz ?va ! k)) (t' ! ((i + 1) + k))"
          using IH [unfolded if_P [OF c]] by blast
        have "maps_page w (p (section_pages sz va ! k)) (t' ! (i + k))" if "k < length (section_pages sz va)" for k
        proof (cases k)
          case 0
          then show ?thesis using t'(3) [of i] i by (simp add: vs section_pte_maps)
        next
          case (Suc l)
          then show ?thesis using t'(4) [of l] that by (simp add: vs)
        qed
        moreover have "t' ! j = t ! j" if "j < i \<or> i + length (section_pages sz va) \<le> j" for j
          using t'(3) [of j] that by (auto simp: vs)
        ultimately show ?thesis using fits run t'(1,2) by auto
      qed
    qed
  qed
qed

text \<open>A section whose pages all have a translation is mapped page by page from its first table entry on,
  writable exactly when its flag says so; a section that runs past the last entry of the table is
  written behind it.\<close>

theorem map_section_maps:
  assumes "\<And>v. v \<in> set (section_pages sz va) \<Longrightarrow> virtual_to_physical m v = Done (p v)"
    and "length t = 0x400" and "i < 0x400"
  shows "if i + length (section_pages sz va) \<le> 0x400
     then \<exists>t'. map_section m w sz i va t = Done t' \<and> length t' = 0x400 \<and>
       (\<forall>k < length (section_pages sz va). maps_page w (p (section_pages sz va ! k)) (t' ! (i + k)))
     else map_section m w sz i va t = Fault OutOfBounds"
  using map_section_result [of sz va m p i t w] assms by (auto split: if_splits)

end
