(* ===== verification/Processor.thy ===== *)
theory Processor
  imports Scheduler
begin

text \<open>
  The part of the i686 that the assembly files of the kernel use: registers, the instructions that
  occur in \<^verbatim>\<open>src/*.s\<close>, the delivery of interrupts through the descriptor tables of theory \<open>Interrupts\<close>,
  and calls to C functions. It has the role \<open>mmu_walk\<close> has for paging: the meaning of the language the
  code is written in. A C function at an address is a parameter. The checks the processor makes when a
  segment register is loaded pass for the flat descriptors of \<^verbatim>\<open>gdt::init\<close> and are left out.
\<close>

subsection \<open>Registers and environment\<close>

datatype gpr = EAX | ECX | EDX | EBX | ESP | EBP | ESI | EDI
datatype sreg = CS | SS | DS | ES | FS | GS
datatype creg = CR0 | CR2 | CR3 | CR4

record processor =
  gpr :: "gpr \<Rightarrow> u32"
  sreg :: "sreg \<Rightarrow> u16"
  creg :: "creg \<Rightarrow> u32"
  eip :: u32
  eflags :: u32
  gdtr :: "gdt_entry list"
  idtr :: "idt_entry list"

text \<open>
  What the code cannot know: what the C function at an address does with its first argument; what it
  leaves in the registers and in the stack below its argument, which the calling convention gives to
  it; what reading a port returns; whether pushing a segment register clears the upper half of the
  stack word, which differs between processors; and the tables behind the operands of \<^verbatim>\<open>lgdt\<close>, \<^verbatim>\<open>lidt\<close>.
\<close>

record 's environment =
  c_function :: "u32 \<Rightarrow> u32 \<Rightarrow> 's \<Rightarrow> (u32 \<times> 's) outcome"
  left_ecx :: u32
  left_edx :: u32
  left_eflags :: u32
  left_stack :: memory
  stack_use :: u32
  port_in :: "u16 \<Rightarrow> 's \<Rightarrow> u8 \<times> 's"
  clears_upper :: bool
  gdt_at :: "u32 \<Rightarrow> gdt_entry list"
  idt_at :: "u32 \<Rightarrow> idt_entry list"

type_synonym 'z config = "processor \<times> ('z) sched_state_scheme"

subsection \<open>Stack and privilege\<close>

definition push32 :: "u32 \<Rightarrow> ('z) config \<Rightarrow> ('z) config" where
  "push32 v = (\<lambda>(c, s). let a = gpr c ESP - 4 in
     (c\<lparr>gpr := (gpr c)(ESP := a)\<rparr>, s\<lparr>ram := write_u32 a v (ram s)\<rparr>))"

definition pop32 :: "('z) config \<Rightarrow> u32 \<times> ('z) config" where
  "pop32 = (\<lambda>(c, s). (read_u32 (ram s) (gpr c ESP), c\<lparr>gpr := (gpr c)(ESP := gpr c ESP + 4)\<rparr>, s))"

text \<open>A pushed selector takes the lower half of the word; the upper half is cleared or keeps what it was.\<close>

definition selector_word :: "bool \<Rightarrow> u16 \<Rightarrow> u32 \<Rightarrow> u32" where
  "selector_word clears sel old = (if clears then ucast sel else (old AND 0xFFFF0000) OR ucast sel)"

definition push_sreg :: "bool \<Rightarrow> sreg \<Rightarrow> ('z) config \<Rightarrow> ('z) config" where
  "push_sreg clears r = (\<lambda>(c, s).
     push32 (selector_word clears (sreg c r) (read_u32 (ram s) (gpr c ESP - 4))) (c, s))"

definition pop_sreg :: "sreg \<Rightarrow> ('z) config \<Rightarrow> ('z) config" where
  "pop_sreg r cs = (case pop32 cs of (v, c, s) \<Rightarrow> (c\<lparr>sreg := (sreg c)(r := ucast v)\<rparr>, s))"

definition pop_gpr :: "gpr \<Rightarrow> ('z) config \<Rightarrow> ('z) config" where
  "pop_gpr r cs = (case pop32 cs of (v, c, s) \<Rightarrow> (c\<lparr>gpr := (gpr c)(r := v)\<rparr>, s))"

definition cpl :: "processor \<Rightarrow> u16" where
  "cpl c = sreg c CS AND 3"

text \<open>\<^verbatim>\<open>pusha\<close> stores the stack pointer as it was before; \<^verbatim>\<open>popa\<close> skips that word.\<close>

definition push_all :: "('z) config \<Rightarrow> ('z) config" where
  "push_all = (\<lambda>(c, s).
     push32 (gpr c EDI) (push32 (gpr c ESI) (push32 (gpr c EBP) (push32 (gpr c ESP)
     (push32 (gpr c EBX) (push32 (gpr c EDX) (push32 (gpr c ECX) (push32 (gpr c EAX) (c, s)))))))))"

definition pop_all :: "('z) config \<Rightarrow> ('z) config" where
  "pop_all cs =
     pop_gpr EAX (pop_gpr ECX (pop_gpr EDX (pop_gpr EBX (snd (pop32
     (pop_gpr EBP (pop_gpr ESI (pop_gpr EDI cs))))))))"

text \<open>\<^verbatim>\<open>iret\<close> also reloads the stack when it returns to a less privileged ring.\<close>

definition iret :: "('z) config \<Rightarrow> ('z) config" where
  "iret cs0 =
     (case pop32 cs0 of (ip, cs1) \<Rightarrow> case pop32 cs1 of (code, cs2) \<Rightarrow> case pop32 cs2 of (flags, cs3) \<Rightarrow>
      let outward = cpl (fst cs3) < (ucast code :: u16) AND 3 in
      case (if outward
            then case pop32 cs3 of (sp, cs4) \<Rightarrow> case pop32 cs4 of (st, c, s) \<Rightarrow>
              (c\<lparr>gpr := (gpr c)(ESP := sp), sreg := (sreg c)(SS := ucast st)\<rparr>, s)
            else cs3) of (c, s) \<Rightarrow>
        (c\<lparr>sreg := (sreg c)(CS := ucast code), eip := ip, eflags := flags\<rparr>, s))"

subsection \<open>Interrupts\<close>

definition gate_present :: "idt_entry \<Rightarrow> bool" where
  "gate_present g \<longleftrightarrow> bit (gate_flags g) 7"

definition gate_dpl :: "idt_entry \<Rightarrow> u16" where
  "gate_dpl g = ucast (drop_bit 5 (gate_flags g) AND 3)"

definition selector_ring :: "gdt_entry list \<Rightarrow> u16 \<Rightarrow> u16" where
  "selector_ring table sel = ucast (segment_ring (table ! unat (drop_bit 3 sel)))"

text \<open>
  Through an interrupt gate: when the handler is more privileged the stack is taken from the task state
  segment and the old one is pushed first; then flags, code segment and instruction pointer, and the
  error code if the exception has one. The flags TF, IF, NT, RF and VM are cleared.
\<close>

definition switch_stack :: "bool \<Rightarrow> ('z) config \<Rightarrow> ('z) config" where
  "switch_stack inward = (\<lambda>(c, s).
     if inward then
       push32 (gpr c ESP) (push32 (ucast (sreg c SS))
         (c\<lparr>gpr := (gpr c)(ESP := tss s ! 1), sreg := (sreg c)(SS := ucast (tss s ! 2))\<rparr>, s))
     else (c, s))"

definition enter_gate :: "u8 \<Rightarrow> u32 option \<Rightarrow> ('z) config \<Rightarrow> ('z) config" where
  "enter_gate v err = (\<lambda>(c, s).
     let g = idtr c ! unat v;
         ring = selector_ring (gdtr c) (gate_sel g);
         cs1 = push32 (eip c) (push32 (ucast (sreg c CS)) (push32 (eflags c) (switch_stack (ring < cpl c) (c, s))));
         cs2 = (case err of None \<Rightarrow> cs1 | Some e \<Rightarrow> push32 e cs1) in
     ((fst cs2)\<lparr>sreg := (sreg (fst cs2))(CS := (gate_sel g AND 0xFFFC) OR ring),
        eip := gate_offset g, eflags := eflags c AND NOT 0x34300\<rparr>, snd cs2))"

text \<open>An exception whose gate is missing leads to further exceptions, which are not modelled.\<close>

definition raise_exception :: "u8 \<Rightarrow> u32 option \<Rightarrow> ('z) config \<Rightarrow> ('z) config outcome" where
  "raise_exception v err cs =
     (if unat v < length (idtr (fst cs)) \<and> gate_present (idtr (fst cs) ! unat v) then Done (enter_gate v err cs)
      else Fault UndefinedBehaviour)"

text \<open>A device interrupt waits while IF is clear: then nothing happens.\<close>

definition hardware_interrupt :: "u8 \<Rightarrow> ('z) config \<Rightarrow> ('z) config outcome" where
  "hardware_interrupt v cs =
     (if bit (eflags (fst cs)) 9 then raise_exception v None cs else Done cs)"

text \<open>
  \<^verbatim>\<open>int v\<close> is refused with a general protection fault (vector 13, the error code names the gate) when the
  gate is more privileged than the code; \<open>cs\<close> has the instruction pointer behind the instruction, \<open>at\<close> is
  that of the instruction itself, to which a fault returns.
\<close>

definition software_interrupt :: "u8 \<Rightarrow> u32 \<Rightarrow> ('z) config \<Rightarrow> ('z) config outcome" where
  "software_interrupt v at = (\<lambda>(c, s).
     if unat v < length (idtr c) \<and> cpl c \<le> gate_dpl (idtr c ! unat v)
     then (if gate_present (idtr c ! unat v) then Done (enter_gate v None (c, s))
           else raise_exception 11 (Some (push_bit 3 (ucast v) OR 2)) (c\<lparr>eip := at\<rparr>, s))
     else raise_exception 13 (Some (push_bit 3 (ucast v) OR 2)) (c\<lparr>eip := at\<rparr>, s))"

subsection \<open>Instructions\<close>

datatype operand = Reg gpr | Seg sreg | Ctl creg | Imm u32 | Stack nat

datatype instr =
    Push gpr | PushByte u8 | PushSeg sreg | PushFlags | Pop gpr | PopSeg sreg
  | PushAll | PopAll
  | Mov operand operand
  | MovAX u16
  | Add gpr u32 | Or gpr u32
  | Call u32 | CallReg gpr | CallMem gpr
  | JmpReg gpr | JmpFar u16
  | Ret | Iret | Cli | Sti
  | OutByte | OutWord | InByte
  | Lgdt u32 | Lidt gpr

text \<open>A C function owns the stack below its arguments and the \<open>n\<close> bytes of arguments themselves.\<close>

definition left_ram :: "('s) environment \<Rightarrow> nat \<Rightarrow> u32 \<Rightarrow> memory \<Rightarrow> memory" where
  "left_ram env n sp m = (\<lambda>a. if unat (a - (sp - stack_use env)) < unat (stack_use env) + n then left_stack env a else m a)"

definition call_c :: "(('z) sched_state_scheme) environment \<Rightarrow> nat \<Rightarrow> u32 \<Rightarrow> ('z) config \<Rightarrow> ('z) config outcome" where
  "call_c env n f = (\<lambda>(c, s).
     outcome_bind (c_function env f (read_u32 (ram s) (gpr c ESP)) s) (\<lambda>(r, s').
       Done (c\<lparr>gpr := (gpr c)(EAX := r, ECX := left_ecx env, EDX := left_edx env), eflags := left_eflags env\<rparr>,
         s'\<lparr>ram := left_ram env n (gpr c ESP) (ram s')\<rparr>)))"

fun operand_value :: "operand \<Rightarrow> ('z) config \<Rightarrow> u32" where
  "operand_value (Reg r) (c, s) = gpr c r"
| "operand_value (Seg r) (c, s) = ucast (sreg c r)"
| "operand_value (Ctl r) (c, s) = creg c r"
| "operand_value (Imm v) (c, s) = v"
| "operand_value (Stack n) (c, s) = read_u32 (ram s) (gpr c ESP + word_of_nat n)"

fun write_operand :: "operand \<Rightarrow> u32 \<Rightarrow> ('z) config \<Rightarrow> ('z) config outcome" where
  "write_operand (Reg r) v (c, s) = Done (c\<lparr>gpr := (gpr c)(r := v)\<rparr>, s)"
| "write_operand (Seg r) v (c, s) = Done (c\<lparr>sreg := (sreg c)(r := ucast v)\<rparr>, s)"
| "write_operand (Ctl r) v (c, s) = Done (c\<lparr>creg := (creg c)(r := v)\<rparr>, s)"
| "write_operand (Imm w) v cs = Fault UndefinedBehaviour"
| "write_operand (Stack n) v (c, s) = Done (c, s\<lparr>ram := write_u32 (gpr c ESP + word_of_nat n) v (ram s)\<rparr>)"

definition add_port :: "u16 \<Rightarrow> u8 \<Rightarrow> ('z) config \<Rightarrow> ('z) config" where
  "add_port p v = (\<lambda>(c, s). (c, s\<lparr>irq_ports := irq_ports s @ [(p, v)]\<rparr>))"

text \<open>
  The functions the stubs call take one word; those called through a table, by the loader, none.
  A word written to a port goes to the devices as two bytes. The return address of \<^verbatim>\<open>call\<close> is pushed and
  popped again by the callee, in the part of the stack the callee may use. \<^verbatim>\<open>ret\<close> pops it. The flags
  that \<^verbatim>\<open>add\<close> and \<^verbatim>\<open>or\<close> set are never read by the stubs and are not modelled.
\<close>

fun exec :: "(('z) sched_state_scheme) environment \<Rightarrow> instr \<Rightarrow> ('z) config \<Rightarrow> ('z) config outcome" where
  "exec env (Push r) (c, s) = Done (push32 (gpr c r) (c, s))"
| "exec env (PushByte b) cs = Done (push32 (scast b) cs)"
| "exec env (PushSeg r) cs = Done (push_sreg (clears_upper env) r cs)"
| "exec env PushFlags (c, s) = Done (push32 (eflags c AND NOT 0x30000) (c, s))"
| "exec env (Pop r) cs = Done (pop_gpr r cs)"
| "exec env (PopSeg r) cs = Done (pop_sreg r cs)"
| "exec env PushAll cs = Done (push_all cs)"
| "exec env PopAll cs = Done (pop_all cs)"
| "exec env (Mov d x) cs = write_operand d (operand_value x cs) cs"
| "exec env (MovAX v) (c, s) = Done (c\<lparr>gpr := (gpr c)(EAX := (gpr c EAX AND 0xFFFF0000) OR ucast v)\<rparr>, s)"
| "exec env (Add r v) (c, s) = Done (c\<lparr>gpr := (gpr c)(r := gpr c r + v)\<rparr>, s)"
| "exec env (Or r v) (c, s) = Done (c\<lparr>gpr := (gpr c)(r := gpr c r OR v)\<rparr>, s)"
| "exec env (Call f) cs = call_c env 4 f cs"
| "exec env (CallReg r) (c, s) = call_c env 4 (gpr c r) (c, s)"
| "exec env (CallMem r) (c, s) = call_c env 0 (read_u32 (ram s) (gpr c r)) (c, s)"
| "exec env (JmpReg r) (c, s) = Done (c\<lparr>eip := gpr c r\<rparr>, s)"
| "exec env (JmpFar sel) (c, s) = Done (c\<lparr>sreg := (sreg c)(CS := sel)\<rparr>, s)"
| "exec env Ret cs = (case pop32 cs of (a, c, s) \<Rightarrow> Done (c\<lparr>eip := a\<rparr>, s))"
| "exec env Iret cs = Done (iret cs)"
| "exec env Cli (c, s) = Done (c\<lparr>eflags := eflags c AND NOT 0x200\<rparr>, s)"
| "exec env Sti (c, s) = Done (c\<lparr>eflags := eflags c OR 0x200\<rparr>, s)"
| "exec env OutByte (c, s) = Done (add_port (ucast (gpr c EDX)) (ucast (gpr c EAX)) (c, s))"
| "exec env OutWord (c, s) =
     Done (add_port (ucast (gpr c EDX) + 1) (ucast (drop_bit 8 (gpr c EAX)))
       (add_port (ucast (gpr c EDX)) (ucast (gpr c EAX)) (c, s)))"
| "exec env InByte (c, s) =
     (case port_in env (ucast (gpr c EDX)) s of (v, s') \<Rightarrow>
        Done (c\<lparr>gpr := (gpr c)(EAX := (gpr c EAX AND 0xFFFFFF00) OR ucast v)\<rparr>, s'))"
| "exec env (Lgdt p) (c, s) = Done (c\<lparr>gdtr := gdt_at env p\<rparr>, s)"
| "exec env (Lidt r) (c, s) = Done (c\<lparr>idtr := idt_at env (gpr c r)\<rparr>, s)"

fun exec_all :: "(('z) sched_state_scheme) environment \<Rightarrow> instr list \<Rightarrow> ('z) config \<Rightarrow> ('z) config outcome" where
  "exec_all env [] cs = Done cs"
| "exec_all env (i # is) cs = outcome_bind (exec env i cs) (exec_all env is)"

lemma exec_all_append:
  "exec_all env (is @ js) cs = outcome_bind (exec_all env is cs) (exec_all env js)"
proof (induction "is" arbitrary: cs)
  case (Cons i "is")
  then show ?case by (cases "exec env i cs") simp_all
qed simp

end
