(* ===== verification/Stubs.thy ===== *)
theory Stubs
  imports Processor
begin

text \<open>
  The assembly entry points: the interrupt stubs \<^verbatim>\<open>src/irq_.s\<close> and \<^verbatim>\<open>src/isr_.s\<close>, the system call
  \<^verbatim>\<open>src/syscall_.s\<close>, and the leaf routines \<^verbatim>\<open>src/processor.s\<close>, \<^verbatim>\<open>src/io_.s\<close>, \<^verbatim>\<open>src/gdt_.s\<close> and \<^verbatim>\<open>src/idt_.s\<close>,
  instruction by instruction. The addresses of the C functions are parameters. A stub falls through to
  the common part where the code jumps.
\<close>

subsection \<open>The stubs\<close>

definition irq_stub :: "u8 \<Rightarrow> instr list" where
  "irq_stub n = [Cli, PushByte 0, PushByte (n + 32)]"

definition save_registers :: "instr list" where
  "save_registers = [PushAll, PushSeg DS, PushSeg ES, PushSeg FS, PushSeg GS]"

definition kernel_segments :: "instr list" where
  "kernel_segments = [MovAX 0x10, Mov (Seg DS) (Reg EAX), Mov (Seg ES) (Reg EAX), Mov (Seg FS) (Reg EAX),
     Mov (Seg GS) (Reg EAX)]"

definition restore_registers :: "instr list" where
  "restore_registers = [PopSeg GS, PopSeg FS, PopSeg ES, PopSeg DS, PopAll, Add ESP 8, Iret]"

definition irq_common_stub :: "u32 \<Rightarrow> instr list" where
  "irq_common_stub irq_handler_addr =
     save_registers @ kernel_segments @ [Push ESP, Call irq_handler_addr, Mov (Reg ESP) (Reg EAX)] @ restore_registers"

definition isr_stub :: "u8 \<Rightarrow> instr list" where
  "isr_stub n = [Cli, PushByte 0, PushByte n]"

definition isr_stub_e :: "u8 \<Rightarrow> instr list" where
  "isr_stub_e n = [Cli, PushByte n]"

definition isr_common_stub :: "u32 \<Rightarrow> instr list" where
  "isr_common_stub fault_handler_addr =
     save_registers @ kernel_segments @
     [Mov (Reg EAX) (Reg ESP), Push EAX, Mov (Reg EAX) (Imm fault_handler_addr), CallReg EAX, Pop EAX] @
     restore_registers"

text \<open>Which of the 32 exception stubs expect an error code from the processor.\<close>

definition isr_with_code :: "u8 set" where
  "isr_with_code = {8, 10, 11, 12, 13, 14}"

definition isr_entry :: "u8 \<Rightarrow> instr list" where
  "isr_entry n = (if n \<in> isr_with_code then isr_stub_e n else isr_stub n)"

definition stub_code :: "u32 \<Rightarrow> u32 \<Rightarrow> u8 \<Rightarrow> instr list" where
  "stub_code irq_handler_addr fault_handler_addr v =
     (if v < 32 then isr_entry v @ isr_common_stub fault_handler_addr
      else irq_stub (v - 32) @ irq_common_stub irq_handler_addr)"

subsection \<open>Other routines\<close>

text \<open>\<^verbatim>\<open>int 0x23\<close> is taken out of the list: it leads through the descriptor table.\<close>

definition int23_0 :: "u32 \<Rightarrow> (('z) sched_state_scheme) environment \<Rightarrow> ('z) config \<Rightarrow> ('z) config outcome" where
  "int23_0 at env cs =
     outcome_bind (exec_all env [Mov (Reg EAX) (Stack 4)] cs) (\<lambda>(c, s).
       software_interrupt 0x23 at (c\<lparr>eip := at + 2\<rparr>, s))"

definition interrupts_enable :: "instr list" where "interrupts_enable = [Sti, Ret]"
definition interrupts_disable :: "instr list" where "interrupts_disable = [Cli, Ret]"
definition read_cr0 :: "instr list" where "read_cr0 = [Mov (Reg EAX) (Ctl CR0), Ret]"
definition read_cr2 :: "instr list" where "read_cr2 = [Mov (Reg EAX) (Ctl CR2), Ret]"
definition read_cr3 :: "instr list" where "read_cr3 = [Mov (Reg EAX) (Ctl CR3), Ret]"
definition read_flags :: "instr list" where "read_flags = [PushFlags, Pop EAX, Ret]"

definition outportb_code :: "instr list" where
  "outportb_code = [Mov (Reg EAX) (Stack 8), Mov (Reg EDX) (Stack 4), OutByte, Ret]"

definition outportw_code :: "instr list" where
  "outportw_code = [Mov (Reg EAX) (Stack 8), Mov (Reg EDX) (Stack 4), OutWord, Ret]"

definition inportb_code :: "instr list" where
  "inportb_code = [Mov (Reg EDX) (Stack 4), InByte, Ret]"

definition gdt_flush :: "u32 \<Rightarrow> instr list" where
  "gdt_flush gp = [Lgdt gp, MovAX 0x10, Mov (Seg DS) (Reg EAX), Mov (Seg ES) (Reg EAX), Mov (Seg FS) (Reg EAX),
     Mov (Seg GS) (Reg EAX), Mov (Seg SS) (Reg EAX), JmpFar 0x08, Ret]"

definition idt_load :: "instr list" where
  "idt_load = [Mov (Reg EAX) (Stack 4), Lidt EAX, Ret]"

subsection \<open>Saving and restoring\<close>

lemmas push_defs = push32_def push_sreg_def push_all_def Let_def
lemmas pop_defs = pop32_def pop_sreg_def pop_gpr_def pop_all_def

lemma read_write_offset:
  "4 \<le> unat (j - i :: u32) \<Longrightarrow> unat (j - i) \<le> 0xFFFFFFFC \<Longrightarrow>
     read_u32 (write_u32 (i + a) v m) (j + a) = read_u32 m (j + a)"
  by (rule read_write_u32_other) simp_all

lemmas stack_simps = read_write_u32 read_write_field read_write_offset
  read_write_field [of _ 0, simplified] read_write_field [of 0, simplified]
  read_write_offset [of _ 0, simplified] read_write_offset [of 0, simplified]

text \<open>The memory after \<^verbatim>\<open>pusha\<close> and the four pushes of selectors, and what it says as a \<^verbatim>\<open>cpu_state\<close>.\<close>

definition saved_ram :: "bool \<Rightarrow> processor \<Rightarrow> u32 \<Rightarrow> memory \<Rightarrow> memory" where
  "saved_ram clears c p m =
     (let sel = (\<lambda>r i. selector_word clears (sreg c r) (read_u32 m (p + i))) in
      write_u32 p (sel GS 0) (write_u32 (p + 4) (sel FS 4) (write_u32 (p + 8) (sel ES 8) (write_u32 (p + 12) (sel DS 12)
     (write_u32 (p + 16) (gpr c EDI) (write_u32 (p + 20) (gpr c ESI) (write_u32 (p + 24) (gpr c EBP)
     (write_u32 (p + 28) (p + 48) (write_u32 (p + 32) (gpr c EBX) (write_u32 (p + 36) (gpr c EDX)
     (write_u32 (p + 40) (gpr c ECX) (write_u32 (p + 44) (gpr c EAX) m))))))))))))"

lemma saved_frame:
  "cpu_state_at (saved_ram clears c p m) p = (cpu_state_at m p)\<lparr>
     r_gs := selector_word clears (sreg c GS) (read_u32 m p), r_fs := selector_word clears (sreg c FS) (read_u32 m (p + 4)),
     r_es := selector_word clears (sreg c ES) (read_u32 m (p + 8)), r_ds := selector_word clears (sreg c DS) (read_u32 m (p + 12)),
     r_edi := gpr c EDI, r_esi := gpr c ESI, r_ebp := gpr c EBP, r_esp := p + 48, r_ebx := gpr c EBX,
     r_edx := gpr c EDX, r_ecx := gpr c ECX, r_eax := gpr c EAX\<rparr>"
  unfolding saved_ram_def cpu_state_at_def Let_def
  by (simp add: stack_simps)

lemma save_registers_exec:
  assumes "gpr c ESP = p + 48"
  shows "exec_all env save_registers (c, s) =
    Done (c\<lparr>gpr := (gpr c)(ESP := p)\<rparr>, s\<lparr>ram := saved_ram (clears_upper env) c p (ram s)\<rparr>)"
  using assms
  by (simp add: save_registers_def push_defs saved_ram_def stack_simps add.commute [of _ p])

definition in_kernel_segments :: "processor \<Rightarrow> processor" where
  "in_kernel_segments c = c\<lparr>gpr := (gpr c)(EAX := (gpr c EAX AND 0xFFFF0000) OR 0x10),
     sreg := (sreg c)(DS := 0x10, ES := 0x10, FS := 0x10, GS := 0x10)\<rparr>"

lemma ucast_low_half: "ucast ((x AND 0xFFFF0000) OR ucast y) = (y :: u16)" for x :: u32
proof (rule bit_word_eqI)
  fix n assume "n < LENGTH(16)"
  then have n: "n < 16" by simp
  have h: "(0xFFFF0000 :: u32) = push_bit 16 (mask 16)" by (simp add: mask_eq_exp_minus_1)
  show "bit (ucast ((x AND 0xFFFF0000) OR ucast y) :: u16) n = bit y n"
    unfolding h using n by (auto simp: bit_simps)
qed

lemma kernel_segments_exec: "exec_all env kernel_segments (c, s) = Done (in_kernel_segments c, s)"
  using ucast_low_half [of "gpr c EAX" "0x10"] by (simp add: kernel_segments_def in_kernel_segments_def)

text \<open>The processor state a saved state stands for, given the registers that are not saved.\<close>

definition leaves_ring0 :: "cpu_state \<Rightarrow> bool" where
  "leaves_ring0 f \<longleftrightarrow> (ucast (r_cs f) :: u16) AND 3 \<noteq> 0"

definition load_state :: "u32 \<Rightarrow> cpu_state \<Rightarrow> processor \<Rightarrow> processor" where
  "load_state r f c = c\<lparr>
     gpr := (\<lambda>x. case x of EAX \<Rightarrow> r_eax f | ECX \<Rightarrow> r_ecx f | EDX \<Rightarrow> r_edx f | EBX \<Rightarrow> r_ebx f
       | ESP \<Rightarrow> (if leaves_ring0 f then r_useresp f else r + 68)
       | EBP \<Rightarrow> r_ebp f | ESI \<Rightarrow> r_esi f | EDI \<Rightarrow> r_edi f),
     sreg := (\<lambda>x. case x of CS \<Rightarrow> ucast (r_cs f) | SS \<Rightarrow> (if leaves_ring0 f then ucast (r_ss f) else sreg c SS)
       | DS \<Rightarrow> ucast (r_ds f) | ES \<Rightarrow> ucast (r_es f) | FS \<Rightarrow> ucast (r_fs f) | GS \<Rightarrow> ucast (r_gs f)),
     eip := r_eip f, eflags := r_eflags f\<rparr>"

lemma gpr_eq_iff:
  "f = g \<longleftrightarrow> f EAX = g EAX \<and> f ECX = g ECX \<and> f EDX = g EDX \<and> f EBX = g EBX \<and> f ESP = g ESP \<and> f EBP = g EBP \<and>
     f ESI = g ESI \<and> f EDI = g EDI"
proof
  assume eq: "f EAX = g EAX \<and> f ECX = g ECX \<and> f EDX = g EDX \<and> f EBX = g EBX \<and> f ESP = g ESP \<and> f EBP = g EBP \<and>
     f ESI = g ESI \<and> f EDI = g EDI"
  show "f = g"
  proof
    fix x show "f x = g x" using eq by (cases x) simp_all
  qed
qed simp

lemma sreg_eq_iff:
  "f = g \<longleftrightarrow> f CS = g CS \<and> f SS = g SS \<and> f DS = g DS \<and> f ES = g ES \<and> f FS = g FS \<and> f GS = g GS"
proof
  assume eq: "f CS = g CS \<and> f SS = g SS \<and> f DS = g DS \<and> f ES = g ES \<and> f FS = g FS \<and> f GS = g GS"
  show "f = g"
  proof
    fix x show "f x = g x" using eq by (cases x) simp_all
  qed
qed simp

lemma pops_exec:
  assumes "gpr c ESP = r" and "f = cpu_state_at (ram s) r"
  shows "exec_all env [PopSeg GS, PopSeg FS, PopSeg ES, PopSeg DS, PopAll, Add ESP 8] (c, s) =
    Done (c\<lparr>gpr := (gpr c)(EDI := r_edi f, ESI := r_esi f, EBP := r_ebp f, EBX := r_ebx f, EDX := r_edx f,
        ECX := r_ecx f, EAX := r_eax f, ESP := r + 56),
      sreg := (sreg c)(GS := ucast (r_gs f), FS := ucast (r_fs f), ES := ucast (r_es f), DS := ucast (r_ds f))\<rparr>, s)"
  using assms(1) unfolding assms(2) by (simp add: pop_defs cpu_state_at_def fun_eq_iff add.commute [of _ r])

lemma restore_registers_exec:
  assumes "gpr c ESP = r" and "cpl c = 0"
  shows "exec_all env restore_registers (c, s) = Done (load_state r (cpu_state_at (ram s) r) c, s)"
proof -
  let ?f = "cpu_state_at (ram s) r"
  let ?c = "c\<lparr>gpr := (gpr c)(EDI := r_edi ?f, ESI := r_esi ?f, EBP := r_ebp ?f, EBX := r_ebx ?f, EDX := r_edx ?f,
        ECX := r_ecx ?f, EAX := r_eax ?f, ESP := r + 56),
      sreg := (sreg c)(GS := ucast (r_gs ?f), FS := ucast (r_fs ?f), ES := ucast (r_es ?f), DS := ucast (r_ds ?f))\<rparr>"
  have z: "(0 :: u16) < x \<longleftrightarrow> x \<noteq> 0" for x :: u16 by (simp add: word_gt_0)
  have "cpl ?c = 0" using assms(2) by (simp add: cpl_def)
  then have i: "iret (?c, s) = (load_state r ?f c, s)"
    using z by (simp add: iret_def pop_defs cpl_def leaves_ring0_def load_state_def cpu_state_at_def
        gpr_eq_iff sreg_eq_iff add.commute [of _ r])
  have r: "restore_registers = [PopSeg GS, PopSeg FS, PopSeg ES, PopSeg DS, PopAll, Add ESP 8] @ [Iret]"
    by (simp add: restore_registers_def)
  show ?thesis
    unfolding r exec_all_append pops_exec [OF assms(1) refl]
    by (simp only: outcome_bind.simps exec_all.simps exec.simps i)
qed

subsection \<open>Entering a stub\<close>

text \<open>Where the saved state of interrupted code begins, and the memory when the handler is called.\<close>

definition frame_address :: "processor \<Rightarrow> ('z) sched_state_scheme \<Rightarrow> u32" where
  "frame_address c s = (if cpl c = 0 then gpr c ESP - 68 else tss s ! 1 - 76)"

definition frame_size :: "processor \<Rightarrow> nat" where
  "frame_size c = (if cpl c = 0 then 68 else 76)"

definition trap_ram :: "processor \<Rightarrow> u32 \<Rightarrow> memory \<Rightarrow> memory" where
  "trap_ram c p m =
     write_u32 (p + 56) (eip c) (write_u32 (p + 60) (ucast (sreg c CS)) (write_u32 (p + 64) (eflags c)
       (if cpl c = 0 then m
        else write_u32 (p + 68) (gpr c ESP) (write_u32 (p + 72) (ucast (sreg c SS)) m))))"

definition interrupt_ram :: "bool \<Rightarrow> processor \<Rightarrow> u32 \<Rightarrow> u32 \<Rightarrow> u32 \<Rightarrow> memory \<Rightarrow> memory" where
  "interrupt_ram clears c p v e m =
     saved_ram clears c p (write_u32 (p + 48) v (write_u32 (p + 52) e (trap_ram c p m)))"

text \<open>The processor when a stub begins.\<close>

definition trapped :: "processor \<Rightarrow> u32 \<Rightarrow> u16 \<Rightarrow> u32 \<Rightarrow> u32 \<Rightarrow> processor" where
  "trapped c sp kernel_ss addr flags = c\<lparr>gpr := (gpr c)(ESP := sp),
     sreg := (if cpl c = 0 then sreg c else (sreg c)(SS := kernel_ss))(CS := 0x08),
     eip := addr, eflags := flags\<rparr>"

lemma cpl_pos: "(0 :: u16) < cpl c \<longleftrightarrow> cpl c \<noteq> 0"
  by (simp add: word_gt_0)

lemma enter_gate_frame:
  assumes "present_gate addr (idtr c ! unat v)" and "selector_ring (gdtr c) 0x08 = 0"
  shows "enter_gate v None (c, s) =
     (trapped c (frame_address c s + 56) (ucast (tss s ! 2)) addr (eflags c AND NOT 0x34300),
      s\<lparr>ram := trap_ram c (frame_address c s) (ram s)\<rparr>)"
  using assms
  by (cases "cpl c = 0")
    (simp_all add: enter_gate_def switch_stack_def push32_def present_gate_def Let_def frame_address_def trap_ram_def
      trapped_def cpl_pos fun_upd_def cong: if_cong)

lemma enter_gate_code:
  "enter_gate v (Some e) (c, s) =
     (let cs = enter_gate v None (c, s) in push32 e cs)"
  by (simp add: enter_gate_def Let_def push32_def split_beta fun_upd_def cong: if_cong)

lemma interrupt_frame:
  "cpu_state_at (interrupt_ram clears c p v e m) p = (let old = trap_ram c p m in \<lparr>
     r_gs = selector_word clears (sreg c GS) (read_u32 m p), r_fs = selector_word clears (sreg c FS) (read_u32 m (p + 4)),
     r_es = selector_word clears (sreg c ES) (read_u32 m (p + 8)), r_ds = selector_word clears (sreg c DS) (read_u32 m (p + 12)),
     r_edi = gpr c EDI, r_esi = gpr c ESI, r_ebp = gpr c EBP, r_esp = p + 48, r_ebx = gpr c EBX,
     r_edx = gpr c EDX, r_ecx = gpr c ECX, r_eax = gpr c EAX, int_no = v, err_code = e,
     r_eip = eip c, r_cs = ucast (sreg c CS), r_eflags = eflags c,
     r_useresp = (if cpl c = 0 then read_u32 m (p + 68) else gpr c ESP),
     r_ss = (if cpl c = 0 then read_u32 m (p + 72) else ucast (sreg c SS))\<rparr>)"
  unfolding interrupt_ram_def saved_frame Let_def
  by (simp add: cpu_state_at_def trap_ram_def stack_simps)

text \<open>A selector survives the push in either form.\<close>

lemma ucast_u32_selector [simp]: "ucast (ucast (sel :: u16) :: u32) = sel"
  by (rule bit_word_eqI) (simp add: bit_simps)

lemma ucast_selector_word [simp]: "ucast (selector_word clears sel old) = sel"
  by (simp add: selector_word_def ucast_low_half)

text \<open>The saved state stands for the interrupted processor.\<close>

lemma load_interrupt_frame:
  assumes "creg c0 = creg c" and "gdtr c0 = gdtr c" and "idtr c0 = idtr c" and "cpl c = 0 \<Longrightarrow> sreg c0 SS = sreg c SS"
    and "cpl c = 0 \<Longrightarrow> p = gpr c ESP - 68"
  shows "load_state p (cpu_state_at (interrupt_ram clears c p v e m) p) c0 = c"
proof -
  have "leaves_ring0 (cpu_state_at (interrupt_ram clears c p v e m) p) \<longleftrightarrow> cpl c \<noteq> 0"
    by (simp add: leaves_ring0_def interrupt_frame cpl_def)
  then show ?thesis
    using assms by (simp add: load_state_def interrupt_frame gpr_eq_iff sreg_eq_iff processor.equality)
qed

subsection \<open>From the interrupt to the handler and back\<close>

record stub_addresses =
  sa_irq_handler :: u32
  sa_fault_handler :: u32
  sa_stub :: "nat \<Rightarrow> u32"

text \<open>The stub at the instruction pointer runs.\<close>

definition run_stub :: "(('z) sched_state_scheme) environment \<Rightarrow> stub_addresses \<Rightarrow> ('z) config \<Rightarrow> ('z) config outcome" where
  "run_stub env a cs =
     (case find (\<lambda>v. sa_stub a v = eip (fst cs)) [0..<48] of
        None \<Rightarrow> Fault UndefinedBehaviour
      | Some v \<Rightarrow> exec_all env (stub_code (sa_irq_handler a) (sa_fault_handler a) (word_of_nat v)) cs)"

definition device_interrupt :: "(('z) sched_state_scheme) environment \<Rightarrow> stub_addresses \<Rightarrow> u8 \<Rightarrow> ('z) config \<Rightarrow> ('z) config outcome" where
  "device_interrupt env a v cs =
     (if bit (eflags (fst cs)) 9 then outcome_bind (raise_exception v None cs) (run_stub env a) else Done cs)"

text \<open>The exceptions for which an i686 pushes an error code.\<close>

definition cpu_pushes_code :: "u8 set" where
  "cpu_pushes_code = {8, 10, 11, 12, 13, 14, 17}"

definition processor_exception ::
    "(('z) sched_state_scheme) environment \<Rightarrow> stub_addresses \<Rightarrow> u8 \<Rightarrow> u32 \<Rightarrow> ('z) config \<Rightarrow> ('z) config outcome" where
  "processor_exception env a v e cs =
     outcome_bind (raise_exception v (if v \<in> cpu_pushes_code then Some e else None) cs) (run_stub env a)"

definition system_call :: "(('z) sched_state_scheme) environment \<Rightarrow> stub_addresses \<Rightarrow> u32 \<Rightarrow> ('z) config \<Rightarrow> ('z) config outcome" where
  "system_call env a at cs = outcome_bind (int23_0 at env cs) (run_stub env a)"

text \<open>The tables as \<^verbatim>\<open>gdt::init\<close>, \<^verbatim>\<open>isr::init\<close> and \<^verbatim>\<open>irq::init\<close> leave them, with stubs at different addresses.\<close>

definition tables_ready :: "stub_addresses \<Rightarrow> processor \<Rightarrow> bool" where
  "tables_ready a c \<longleftrightarrow> length (idtr c) = 256 \<and> (\<forall>v < 48. present_gate (sa_stub a v) (idtr c ! v)) \<and>
     selector_ring (gdtr c) 0x08 = 0 \<and> distinct (map (sa_stub a) [0..<48])"

lemma find_stub:
  assumes "distinct (map f [0..<n])" and "v < n"
  shows "find (\<lambda>w. f w = f v) [0..<n] = Some v"
proof -
  have inj: "f w = f v \<Longrightarrow> w < n \<Longrightarrow> w = v" for w
    using assms by (auto simp: distinct_map inj_on_def)
  have "find (\<lambda>w. f w = f v) [0..<n] \<noteq> None" using assms(2) by (auto simp: find_None_iff)
  then obtain w where w: "find (\<lambda>w. f w = f v) [0..<n] = Some w" by blast
  then have "f w = f v \<and> w < n" by (auto simp: find_Some_iff)
  then show ?thesis using w inj by auto
qed

lemma enter_tables:
  assumes "tables_ready a c" and "unat v < 48"
  shows "raise_exception v err (c, s) = Done (enter_gate v err (c, s))"
    and "present_gate (sa_stub a (unat v)) (idtr c ! unat v)" and "selector_ring (gdtr c) 0x08 = 0"
    and "eip c' = sa_stub a (unat v) \<Longrightarrow>
      run_stub env a (c', s') = exec_all env (stub_code (sa_irq_handler a) (sa_fault_handler a) v) (c', s')"
proof -
  show p: "present_gate (sa_stub a (unat v)) (idtr c ! unat v)" "selector_ring (gdtr c) 0x08 = 0"
    using assms by (simp_all add: tables_ready_def)
  have "bit (0x8E :: u8) 7" by simp
  then have "gate_present (idtr c ! unat v)" using p(1) by (simp add: gate_present_def present_gate_def)
  then show "raise_exception v err (c, s) = Done (enter_gate v err (c, s))"
    using assms by (simp add: raise_exception_def tables_ready_def)
  show "run_stub env a (c', s') = exec_all env (stub_code (sa_irq_handler a) (sa_fault_handler a) v) (c', s')"
    if "eip c' = sa_stub a (unat v)"
    using find_stub [of "sa_stub a" 48 "unat v"] assms that by (simp add: run_stub_def tables_ready_def)
qed

text \<open>The state in which a stub calls its C handler, and what is left when the handler has returned.\<close>

definition handler_entry :: "bool \<Rightarrow> u32 \<Rightarrow> u32 \<Rightarrow> ('z) config \<Rightarrow> ('z) sched_state_scheme" where
  "handler_entry clears v e = (\<lambda>(c, s). let p = frame_address c s in
     s\<lparr>ram := write_u32 (p - 4) p (interrupt_ram clears c p v e (ram s))\<rparr>)"

lemma irq_common_exec:
  assumes "gpr c ESP = p + 48" and "cpl c = 0"
  shows "exec_all env (irq_common_stub h) (c, s) =
    outcome_bind (c_function env h p (s\<lparr>ram := write_u32 (p - 4) p (saved_ram (clears_upper env) c p (ram s))\<rparr>))
      (\<lambda>(r, s'). let m = left_ram env 4 (p - 4) (ram s') in
         Done (load_state r (cpu_state_at m r) c, s'\<lparr>ram := m\<rparr>))"
proof -
  let ?c1 = "in_kernel_segments (c\<lparr>gpr := (gpr c)(ESP := p)\<rparr>)"
  let ?s1 = "s\<lparr>ram := saved_ram (clears_upper env) c p (ram s)\<rparr>"
  let ?s2 = "s\<lparr>ram := write_u32 (p - 4) p (saved_ram (clears_upper env) c p (ram s))\<rparr>"
  have sp: "gpr ?c1 ESP = p" "cpl ?c1 = 0" using assms(2) by (simp_all add: in_kernel_segments_def cpl_def)
  let ?c2 = "\<lambda>r. ?c1\<lparr>gpr := (gpr ?c1)(ESP := r, EAX := r, ECX := left_ecx env, EDX := left_edx env),
      eflags := left_eflags env\<rparr>"
  have mid: "exec_all env [Push ESP, Call h, Mov (Reg ESP) (Reg EAX)] (?c1, ?s1) =
      outcome_bind (c_function env h p ?s2) (\<lambda>(r, s'). Done (?c2 r, s'\<lparr>ram := left_ram env 4 (p - 4) (ram s')\<rparr>))"
  proof (cases "c_function env h p ?s2")
    case (Done x)
    then show ?thesis
      by (cases x) (simp add: sp push32_def call_c_def read_write_u32 gpr_eq_iff Let_def)
  qed (simp_all add: sp push32_def call_c_def read_write_u32 Let_def)
  have post: "exec_all env restore_registers (?c2 r, s') = Done (load_state r (cpu_state_at (ram s') r) c, s')" for r s'
  proof -
    have "gpr (?c2 r) ESP = r" "cpl (?c2 r) = 0" using sp by (simp_all add: cpl_def)
    moreover have "load_state r f (?c2 r) = load_state r f c" for f
      by (simp add: load_state_def in_kernel_segments_def sreg_eq_iff processor.equality)
    ultimately show ?thesis by (simp only: restore_registers_exec)
  qed
  have "irq_common_stub h = (save_registers @ kernel_segments) @ [Push ESP, Call h, Mov (Reg ESP) (Reg EAX)] @ restore_registers"
    by (simp add: irq_common_stub_def)
  then have "exec_all env (irq_common_stub h) (c, s) =
      outcome_bind (outcome_bind (c_function env h p ?s2)
        (\<lambda>(r, s'). Done (?c2 r, s'\<lparr>ram := left_ram env 4 (p - 4) (ram s')\<rparr>))) (exec_all env restore_registers)"
    by (simp only: exec_all_append save_registers_exec [OF assms(1)] kernel_segments_exec mid outcome_bind.simps)
  then show ?thesis by (simp only: outcome_bind_assoc) (simp add: case_prod_unfold post Let_def)
qed

text \<open>The exception stub drops the result of its handler and goes on with the frame it saved.\<close>

lemma isr_common_exec:
  assumes "gpr c ESP = p + 48" and "cpl c = 0"
  shows "exec_all env (isr_common_stub h) (c, s) =
    outcome_bind (c_function env h p (s\<lparr>ram := write_u32 (p - 4) p (saved_ram (clears_upper env) c p (ram s))\<rparr>))
      (\<lambda>(r, s'). let m = left_ram env 4 (p - 4) (ram s') in
         Done (load_state p (cpu_state_at m p) c, s'\<lparr>ram := m\<rparr>))"
proof -
  let ?c1 = "in_kernel_segments (c\<lparr>gpr := (gpr c)(ESP := p)\<rparr>)"
  let ?s1 = "s\<lparr>ram := saved_ram (clears_upper env) c p (ram s)\<rparr>"
  let ?s2 = "s\<lparr>ram := write_u32 (p - 4) p (saved_ram (clears_upper env) c p (ram s))\<rparr>"
  let ?code = "[Mov (Reg EAX) (Reg ESP), Push EAX, Mov (Reg EAX) (Imm h), CallReg EAX, Pop EAX]"
  have sp: "gpr ?c1 ESP = p" "cpl ?c1 = 0" using assms(2) by (simp_all add: in_kernel_segments_def cpl_def)
  let ?c2 = "\<lambda>x. ?c1\<lparr>gpr := (gpr ?c1)(ESP := p, EAX := x, ECX := left_ecx env, EDX := left_edx env),
      eflags := left_eflags env\<rparr>"
  have mid: "exec_all env ?code (?c1, ?s1) = outcome_bind (c_function env h p ?s2) (\<lambda>(r, s').
      let m = left_ram env 4 (p - 4) (ram s') in Done (?c2 (read_u32 m (p - 4)), s'\<lparr>ram := m\<rparr>))"
  proof (cases "c_function env h p ?s2")
    case (Done x)
    then show ?thesis
      by (cases x) (simp add: sp push32_def pop_gpr_def pop32_def call_c_def read_write_u32 gpr_eq_iff Let_def)
  qed (simp_all add: sp push32_def call_c_def read_write_u32 Let_def)
  have post: "exec_all env restore_registers (?c2 x, s') = Done (load_state p (cpu_state_at (ram s') p) c, s')" for x s'
  proof -
    have "gpr (?c2 x) ESP = p" "cpl (?c2 x) = 0" using sp by (simp_all add: cpl_def)
    moreover have "load_state p f (?c2 x) = load_state p f c" for f
      by (simp add: load_state_def in_kernel_segments_def sreg_eq_iff processor.equality)
    ultimately show ?thesis by (simp only: restore_registers_exec)
  qed
  have "isr_common_stub h = (save_registers @ kernel_segments) @ ?code @ restore_registers"
    by (simp add: isr_common_stub_def)
  then have "exec_all env (isr_common_stub h) (c, s) =
      outcome_bind (outcome_bind (c_function env h p ?s2) (\<lambda>(r, s').
        let m = left_ram env 4 (p - 4) (ram s') in Done (?c2 (read_u32 m (p - 4)), s'\<lparr>ram := m\<rparr>)))
        (exec_all env restore_registers)"
    by (simp only: exec_all_append save_registers_exec [OF assms(1)] kernel_segments_exec mid outcome_bind.simps)
  then show ?thesis by (simp only: outcome_bind_assoc) (simp add: case_prod_unfold post Let_def)
qed

text \<open>The two ways into the kernel: the handler is called with the address of the saved state.\<close>

lemma stub_entry_state:
  assumes "present_gate addr (idtr c ! unat v)" and "selector_ring (gdtr c) 0x08 = 0"
    and "enter_gate v None (c, s) = (c1, s1)" and "p = frame_address c s"
  shows "\<exists>c2. cpl c2 = 0 \<and> gpr c2 ESP = p + 48 \<and> creg c2 = creg c \<and> gdtr c2 = gdtr c \<and> idtr c2 = idtr c \<and>
      (cpl c = 0 \<longrightarrow> sreg c2 SS = sreg c SS) \<and>
      exec_all env [Cli, PushByte 0, PushByte n] (c1, s1) =
        Done (c2, s1\<lparr>ram := write_u32 (p + 48) (scast n) (write_u32 (p + 52) 0 (ram s1))\<rparr>) \<and>
      (\<forall>m. saved_ram clears c2 p m = saved_ram clears c p m)"
proof -
  have e: "c1 = trapped c (p + 56) (ucast (tss s ! 2)) addr (eflags c AND NOT 0x34300)"
    using enter_gate_frame [OF assms(1,2), of s] assms(3,4) by simp
  have z: "(8 :: u16) AND 3 = 0" by simp
  show ?thesis unfolding e
    by (intro exI [of _ "trapped c (p + 48) (ucast (tss s ! 2)) addr ((eflags c AND NOT 0x34300) AND NOT 0x200)"])
      (simp add: trapped_def push32_def cpl_def saved_ram_def Let_def z gpr_eq_iff add.commute [of _ p] and.assoc)
qed

lemma scast_small: "unat (v :: u8) < 128 \<Longrightarrow> scast v = (ucast v :: u32)"
proof (rule bit_word_eqI)
  fix n assume v: "unat v < 128" and n: "n < LENGTH(32)"
  have t: "take_bit 7 v = v"
    using v by (intro word_unat_eq_iff [THEN iffD2]) (simp add: unsigned_take_bit_eq take_bit_nat_eq_self)
  have b: "\<not> bit v k" if "7 \<le> k" for k
  proof -
    have "bit v k = bit (take_bit 7 v) k" by (simp only: t)
    then show ?thesis using that by (simp add: bit_take_bit_iff)
  qed
  show "bit (scast v :: u32) n = bit (ucast v :: u32) n"
    using n b [of 7] b [of n] by (cases "n < 7") (simp_all add: bit_simps min_def)
qed

lemma irq_vector_exec:
  assumes "tables_ready a c" and "32 \<le> v" and "v < 48" and "p = frame_address c s"
  shows "\<exists>c2. cpl c2 = 0 \<and> creg c2 = creg c \<and> gdtr c2 = gdtr c \<and> idtr c2 = idtr c \<and>
      (cpl c = 0 \<longrightarrow> sreg c2 SS = sreg c SS) \<and>
      outcome_bind (raise_exception v None (c, s)) (run_stub env a) =
        outcome_bind (c_function env (sa_irq_handler a) p
          (s\<lparr>ram := write_u32 (p - 4) p (interrupt_ram (clears_upper env) c p (ucast v) 0 (ram s))\<rparr>))
        (\<lambda>(r, s'). let m = left_ram env 4 (p - 4) (ram s') in
           Done (load_state r (cpu_state_at m r) c2, s'\<lparr>ram := m\<rparr>))"
proof -
  have v: "unat v < 48" "32 \<le> unat v" using assms(2,3) by (simp_all add: word_less_nat_alt word_le_nat_alt)
  note tab = enter_tables [OF assms(1) v(1)]
  let ?s1 = "s\<lparr>ram := trap_ram c p (ram s)\<rparr>"
  let ?c1 = "trapped c (p + 56) (ucast (tss s ! 2)) (sa_stub a (unat v)) (eflags c AND NOT 0x34300)"
  have e: "enter_gate v None (c, s) = (?c1, ?s1)" using enter_gate_frame [OF tab(2,3)] assms(4) by simp
  have sc: "scast v = (ucast v :: u32)" using v(1) by (intro scast_small) simp
  obtain c2 where c2: "cpl c2 = 0" "gpr c2 ESP = p + 48" "creg c2 = creg c" "gdtr c2 = gdtr c" "idtr c2 = idtr c"
    "cpl c = 0 \<Longrightarrow> sreg c2 SS = sreg c SS"
    "exec_all env [Cli, PushByte 0, PushByte v] (?c1, ?s1) =
        Done (c2, ?s1\<lparr>ram := write_u32 (p + 48) (scast v) (write_u32 (p + 52) 0 (ram ?s1))\<rparr>)"
    "\<And>m. saved_ram (clears_upper env) c2 p m = saved_ram (clears_upper env) c p m"
    using stub_entry_state [OF tab(2,3) e assms(4), of env v "clears_upper env"] by auto
  have code: "stub_code (sa_irq_handler a) (sa_fault_handler a) v =
      [Cli, PushByte 0, PushByte v] @ irq_common_stub (sa_irq_handler a)"
    using assms(2) by (simp add: stub_code_def irq_stub_def not_less [symmetric])
  have "outcome_bind (raise_exception v None (c, s)) (run_stub env a) =
      exec_all env (stub_code (sa_irq_handler a) (sa_fault_handler a) v) (?c1, ?s1)"
    by (simp add: tab(1) e tab(4) trapped_def)
  also have "\<dots> = outcome_bind (c_function env (sa_irq_handler a) p
          (s\<lparr>ram := write_u32 (p - 4) p (interrupt_ram (clears_upper env) c p (ucast v) 0 (ram s))\<rparr>))
        (\<lambda>(r, s'). let m = left_ram env 4 (p - 4) (ram s') in
           Done (load_state r (cpu_state_at m r) c2, s'\<lparr>ram := m\<rparr>))"
    unfolding code exec_all_append c2(7) outcome_bind.simps irq_common_exec [OF c2(2,1)]
    by (simp add: c2(8) interrupt_ram_def sc)
  finally show ?thesis using c2 by blast
qed

lemma device_interrupt_exec:
  assumes "tables_ready a c" and "32 \<le> v" and "v < 48" and "bit (eflags c) 9" and "p = frame_address c s"
  shows "\<exists>c2. cpl c2 = 0 \<and> creg c2 = creg c \<and> gdtr c2 = gdtr c \<and> idtr c2 = idtr c \<and>
      (cpl c = 0 \<longrightarrow> sreg c2 SS = sreg c SS) \<and>
      device_interrupt env a v (c, s) =
        outcome_bind (c_function env (sa_irq_handler a) p
          (s\<lparr>ram := write_u32 (p - 4) p (interrupt_ram (clears_upper env) c p (ucast v) 0 (ram s))\<rparr>))
        (\<lambda>(r, s'). let m = left_ram env 4 (p - 4) (ram s') in
           Done (load_state r (cpu_state_at m r) c2, s'\<lparr>ram := m\<rparr>))"
  using irq_vector_exec [OF assms(1-3,5)] assms(4) by (simp add: device_interrupt_def)

text \<open>Exceptions: the error code, or the 0 the stub pushes in its place, ends up in the saved state.\<close>

lemma code_stub_entry_state:
  assumes "present_gate addr (idtr c ! unat v)" and "selector_ring (gdtr c) 0x08 = 0" and "p = frame_address c s"
  shows "\<exists>c2. cpl c2 = 0 \<and> gpr c2 ESP = p + 48 \<and> creg c2 = creg c \<and> gdtr c2 = gdtr c \<and> idtr c2 = idtr c \<and>
      (cpl c = 0 \<longrightarrow> sreg c2 SS = sreg c SS) \<and>
      exec_all env [Cli, PushByte n] (enter_gate v (Some e) (c, s)) =
        Done (c2, s\<lparr>ram := write_u32 (p + 48) (scast n) (write_u32 (p + 52) e (trap_ram c p (ram s)))\<rparr>) \<and>
      (\<forall>m. saved_ram clears c2 p m = saved_ram clears c p m)"
proof -
  have z: "(8 :: u16) AND 3 = 0" by simp
  show ?thesis unfolding enter_gate_code enter_gate_frame [OF assms(1,2)] assms(3) [symmetric]
    by (intro exI [of _ "trapped c (p + 48) (ucast (tss s ! 2)) addr ((eflags c AND NOT 0x34300) AND NOT 0x200)"])
      (simp add: trapped_def push32_def cpl_def saved_ram_def Let_def z gpr_eq_iff add.commute [of _ p] and.assoc)
qed

lemma exception_exec:
  assumes "tables_ready a c" and "v < 32" and "v \<noteq> 17" and "p = frame_address c s"
  shows "\<exists>c2. cpl c2 = 0 \<and> creg c2 = creg c \<and> gdtr c2 = gdtr c \<and> idtr c2 = idtr c \<and>
      (cpl c = 0 \<longrightarrow> sreg c2 SS = sreg c SS) \<and>
      processor_exception env a v e (c, s) =
        outcome_bind (c_function env (sa_fault_handler a) p
          (s\<lparr>ram := write_u32 (p - 4) p
            (interrupt_ram (clears_upper env) c p (ucast v) (if v \<in> cpu_pushes_code then e else 0) (ram s))\<rparr>))
        (\<lambda>(r, s'). let m = left_ram env 4 (p - 4) (ram s') in
           Done (load_state p (cpu_state_at m p) c2, s'\<lparr>ram := m\<rparr>))"
proof -
  have v: "unat v < 48" "unat v < 128" using assms(2) by (simp_all add: word_less_nat_alt)
  note tab = enter_tables [OF assms(1) v(1)]
  have sc: "scast v = (ucast v :: u32)" using v(2) by (rule scast_small)
  let ?err = "if v \<in> cpu_pushes_code then Some e else None"
  let ?m = "write_u32 (p + 52) (if v \<in> cpu_pushes_code then e else 0) (trap_ram c p (ram s))"
  let ?stub = "isr_entry v"
  have code: "stub_code (sa_irq_handler a) (sa_fault_handler a) v = ?stub @ isr_common_stub (sa_fault_handler a)"
    using assms(2) by (simp add: stub_code_def)
  have "\<exists>c2. cpl c2 = 0 \<and> gpr c2 ESP = p + 48 \<and> creg c2 = creg c \<and> gdtr c2 = gdtr c \<and> idtr c2 = idtr c \<and>
      (cpl c = 0 \<longrightarrow> sreg c2 SS = sreg c SS) \<and>
      exec_all env ?stub (enter_gate v ?err (c, s)) = Done (c2, s\<lparr>ram := write_u32 (p + 48) (ucast v) ?m\<rparr>) \<and>
      (\<forall>m. saved_ram (clears_upper env) c2 p m = saved_ram (clears_upper env) c p m)"
  proof (cases "v \<in> cpu_pushes_code")
    case True
    then have "isr_entry v = [Cli, PushByte v]" using assms(3)
      by (auto simp: isr_entry_def isr_with_code_def cpu_pushes_code_def isr_stub_e_def)
    then show ?thesis using code_stub_entry_state [OF tab(2,3) assms(4), of env v e] True by (simp add: sc)
  next
    case False
    then have "isr_entry v = [Cli, PushByte 0, PushByte v]"
      by (auto simp: isr_entry_def isr_with_code_def cpu_pushes_code_def isr_stub_def)
    then show ?thesis
      using stub_entry_state [OF tab(2,3) enter_gate_frame [OF tab(2,3)] assms(4), of env v "clears_upper env"] False assms(4)
      by (simp add: sc enter_gate_frame [OF tab(2,3)])
  qed
  then obtain c2 where c2: "cpl c2 = 0" "gpr c2 ESP = p + 48" "creg c2 = creg c" "gdtr c2 = gdtr c" "idtr c2 = idtr c"
    "cpl c = 0 \<Longrightarrow> sreg c2 SS = sreg c SS"
    "exec_all env ?stub (enter_gate v ?err (c, s)) = Done (c2, s\<lparr>ram := write_u32 (p + 48) (ucast v) ?m\<rparr>)"
    "\<And>m. saved_ram (clears_upper env) c2 p m = saved_ram (clears_upper env) c p m" by blast
  have ip: "eip (fst (enter_gate v ?err (c, s))) = sa_stub a (unat v)"
    by (simp add: enter_gate_code enter_gate_frame [OF tab(2,3)] push32_def trapped_def Let_def)
  have "processor_exception env a v e (c, s) =
      exec_all env (?stub @ isr_common_stub (sa_fault_handler a)) (enter_gate v ?err (c, s))"
    using tab(4) [OF ip, of env "snd (enter_gate v ?err (c, s))"]
    by (simp only: processor_exception_def tab(1) outcome_bind.simps prod.collapse code)
  also have "\<dots> = outcome_bind (c_function env (sa_fault_handler a) p
          (s\<lparr>ram := write_u32 (p - 4) p
            (interrupt_ram (clears_upper env) c p (ucast v) (if v \<in> cpu_pushes_code then e else 0) (ram s))\<rparr>))
        (\<lambda>(r, s'). let m = left_ram env 4 (p - 4) (ram s') in
           Done (load_state p (cpu_state_at m p) c2, s'\<lparr>ram := m\<rparr>))"
    unfolding exec_all_append c2(7) outcome_bind.simps isr_common_exec [OF c2(2,1)]
    by (simp add: c2(8) interrupt_ram_def)
  finally show ?thesis using c2 by blast
qed

text \<open>Byte ranges.\<close>

definition same_bytes :: "u32 \<Rightarrow> nat \<Rightarrow> memory \<Rightarrow> memory \<Rightarrow> bool" where
  "same_bytes p n m m' \<longleftrightarrow> (\<forall>x. unat (x - p) < n \<longrightarrow> m x = m' x)"

lemma same_bytes_refl [simp]: "same_bytes p n m m"
  by (simp add: same_bytes_def)

lemma same_bytes_trans: "same_bytes p n m m' \<Longrightarrow> same_bytes p n m' m'' \<Longrightarrow> same_bytes p n m m''"
  by (simp add: same_bytes_def)

lemma same_bytes_less: "same_bytes p n m m' \<Longrightarrow> k \<le> n \<Longrightarrow> same_bytes p k m m'"
  by (simp add: same_bytes_def)

lemma same_bytes_read:
  assumes "same_bytes p n m m'" and "unat k + 4 \<le> n" and "unat k < 0x1000"
  shows "read_u32 m (p + k) = read_u32 m' (p + k)"
proof -
  have "m (p + k + i) = m' (p + k + i)" if "unat i < 4" for i
  proof -
    have "unat (k + i) = unat k + unat i" using assms(3) that by (intro unat_u32_add) simp
    then have "unat (p + k + i - p) < n" using assms(2) that by (simp add: add.assoc)
    then show ?thesis using assms(1) by (simp add: same_bytes_def)
  qed
  from this [of 0] this [of 1] this [of 2] this [of 3] show ?thesis by (simp add: read_u32_def)
qed

lemma load_state_same_bytes:
  assumes "same_bytes p (if leaves_ring0 (cpu_state_at m p) then 76 else 68) m m'"
  shows "load_state p (cpu_state_at m' p) c = load_state p (cpu_state_at m p) c"
    and "leaves_ring0 (cpu_state_at m' p) = leaves_ring0 (cpu_state_at m p)"
proof -
  have b: "same_bytes p 68 m m'" using assms by (rule same_bytes_less) simp
  note rd = same_bytes_read [OF b, symmetric]
  show l: "leaves_ring0 (cpu_state_at m' p) = leaves_ring0 (cpu_state_at m p)"
    using rd [of 60] by (simp add: leaves_ring0_def cpu_state_at_def)
  have "r_useresp (cpu_state_at m' p) = r_useresp (cpu_state_at m p) \<and> r_ss (cpu_state_at m' p) = r_ss (cpu_state_at m p)"
    if "leaves_ring0 (cpu_state_at m p)"
    using same_bytes_read [of p 76 m m'] assms that by (simp add: cpu_state_at_def)
  then show "load_state p (cpu_state_at m' p) c = load_state p (cpu_state_at m p) c"
    using rd [of 0] rd [of 4] rd [of 8] rd [of 12] rd [of 16] rd [of 20] rd [of 24] rd [of 28] rd [of 32] rd [of 36]
      rd [of 40] rd [of 44] rd [of 56] rd [of 60] rd [of 64]
    by (simp add: load_state_def l) (simp add: cpu_state_at_def)
qed

lemma left_ram_same_bytes:
  assumes "unat (stack_use env) \<le> 0xFFFF0000" and "n \<le> 0xF000"
  shows "same_bytes p n m (left_ram env 4 (p - 4) m)"
proof -
  have "unat (x - (p - 4 - stack_use env)) = unat (x - p) + (unat (stack_use env) + 4)" if "unat (x - p) < n" for x
  proof -
    have u: "unat (stack_use env + 4) = unat (stack_use env) + 4" using assms(1) by (subst unat_u32_add) simp_all
    then have "unat (x - p + (stack_use env + 4)) = unat (x - p) + (unat (stack_use env) + 4)"
      using assms that by (subst unat_u32_add) simp_all
    moreover have "x - (p - 4 - stack_use env) = x - p + (stack_use env + 4)" by (simp add: algebra_simps)
    ultimately show ?thesis by (simp only:)
  qed
  then show ?thesis by (simp add: same_bytes_def left_ram_def)
qed

lemma arg_push_same_bytes: "n \<le> 0xF000 \<Longrightarrow> same_bytes p n m (write_u32 (p - 4) v m)"
proof -
  assume n: "n \<le> 0xF000"
  have "4 \<le> unat (x - (p - 4))" if "unat (x - p) < n" for x
  proof -
    have "unat (x - p + 4) = unat (x - p) + 4" using that n by (subst unat_u32_add) simp_all
    moreover have "x - (p - 4) = x - p + 4" by (simp add: algebra_simps)
    ultimately show ?thesis by (simp only: le_add2)
  qed
  then show ?thesis by (simp add: same_bytes_def write_u32_other)
qed

lemma arg_push_state [simp]: "cpu_state_at (write_u32 (p - 4) v m) p = cpu_state_at m p"
proof -
  have "read_u32 (write_u32 (p - 4) v m) (p + k) = read_u32 m (p + k)" if "unat k < 76" for k
    using same_bytes_read [OF arg_push_same_bytes [of 80 p m v], of k] that by simp
  from this [of 0] this show ?thesis by (simp add: cpu_state_at_def)
qed

lemma resume_interrupted:
  assumes "creg c2 = creg c" and "gdtr c2 = gdtr c" and "idtr c2 = idtr c" and "cpl c = 0 \<longrightarrow> sreg c2 SS = sreg c SS"
    and "p = frame_address c s"
    and "same_bytes p (frame_size c) (write_u32 (p - 4) p (interrupt_ram clears c p v e m)) m2"
    and "unat (stack_use env) \<le> 0xFFFF0000"
  shows "load_state p (cpu_state_at (left_ram env 4 (p - 4) m2) p) c2 = c"
proof -
  let ?m1 = "interrupt_ram clears c p v e m" and ?m3 = "left_ram env 4 (p - 4) m2"
  have "same_bytes p (frame_size c) ?m1 (write_u32 (p - 4) p ?m1)"
    by (rule arg_push_same_bytes) (simp add: frame_size_def)
  moreover have "same_bytes p (frame_size c) m2 ?m3"
    using assms(7) by (intro left_ram_same_bytes) (simp_all add: frame_size_def)
  ultimately have b: "same_bytes p (frame_size c) ?m1 ?m3"
    using assms(6) by (blast intro: same_bytes_trans)
  have "frame_size c = (if leaves_ring0 (cpu_state_at ?m1 p) then 76 else 68)"
    by (simp add: frame_size_def interrupt_frame leaves_ring0_def cpl_def)
  then have "load_state p (cpu_state_at ?m3 p) c2 = load_state p (cpu_state_at ?m1 p) c2"
    using b by (intro load_state_same_bytes(1)) simp
  also have "\<dots> = c" using assms(1-5) by (intro load_interrupt_frame) (simp_all add: frame_address_def)
  finally show ?thesis .
qed

text \<open>C22: An interrupt is invisible to the code it interrupts: when the handler returns the state it was given,
  with its bytes unchanged, the processor is exactly as it was, whether the code ran in ring 0 or in ring 3.\<close>

theorem interrupt_transparent:
  assumes "tables_ready a c" and "32 \<le> v" and "v < 48" and "bit (eflags c) 9"
    and "c_function env (sa_irq_handler a) (frame_address c s) (handler_entry (clears_upper env) (ucast v) 0 (c, s)) =
      Done (frame_address c s, s2)"
    and "same_bytes (frame_address c s) (frame_size c) (ram (handler_entry (clears_upper env) (ucast v) 0 (c, s))) (ram s2)"
    and "unat (stack_use env) \<le> 0xFFFF0000"
  shows "\<exists>s'. device_interrupt env a v (c, s) = Done (c, s')"
proof -
  obtain c2 where c2: "creg c2 = creg c" "gdtr c2 = gdtr c" "idtr c2 = idtr c" "cpl c = 0 \<longrightarrow> sreg c2 SS = sreg c SS"
    and d: "device_interrupt env a v (c, s) = outcome_bind (c_function env (sa_irq_handler a) (frame_address c s)
          (handler_entry (clears_upper env) (ucast v) 0 (c, s)))
        (\<lambda>(r, s'). let m = left_ram env 4 (frame_address c s - 4) (ram s') in
           Done (load_state r (cpu_state_at m r) c2, s'\<lparr>ram := m\<rparr>))"
    using device_interrupt_exec [OF assms(1-4) refl, of env s] by (auto simp: handler_entry_def Let_def)
  have "load_state (frame_address c s) (cpu_state_at (left_ram env 4 (frame_address c s - 4) (ram s2)) (frame_address c s)) c2 = c"
    using c2 assms(6,7) by (intro resume_interrupted [OF _ _ _ _ refl]) (simp_all add: handler_entry_def Let_def)
  then show ?thesis using d assms(5) by (simp add: Let_def)
qed

subsection \<open>Exceptions and system calls\<close>

text \<open>
  The C function \<^verbatim>\<open>fault_handler\<close> on the state of the kernel: it reads the faulting address with \<^verbatim>\<open>read_cr2\<close>,
  and where it halts it never returns. Its result is whatever \<open>eax\<close> holds.
\<close>

record trap_state = sched_state +
  trap_cr2 :: u32
  trap_machine :: machine
  trap_physical :: physical

definition fault_function :: "u32 \<Rightarrow> u32 \<Rightarrow> trap_state \<Rightarrow> (u32 \<times> trap_state) outcome" where
  "fault_function result r s =
     outcome_bind (fault_handler (cpu_state_at (ram s) r) (trap_cr2 s) (trap_machine s, trap_physical s)) (\<lambda>e.
       case e of
         Halted msgs dump \<Rightarrow> Diverges
       | Resumed (m, p) \<Rightarrow> Done (result, s\<lparr>trap_machine := m, trap_physical := p\<rparr>))"

text \<open>Exceptions are as invisible as interrupts when their handler returns: the stub of every vector pairs
  with the processor's pushing of an error code, except vector 17. For a page fault the pager handled this
  means that the faulting instruction is executed again with all registers as they were.\<close>

lemma exception_transparent:
  assumes "tables_ready a c" and "v < 32" and "v \<noteq> 17"
    and "c_function env (sa_fault_handler a) (frame_address c s)
        (handler_entry (clears_upper env) (ucast v) (if v \<in> cpu_pushes_code then e else 0) (c, s)) = Done (r, s2)"
    and "same_bytes (frame_address c s) (frame_size c)
        (ram (handler_entry (clears_upper env) (ucast v) (if v \<in> cpu_pushes_code then e else 0) (c, s))) (ram s2)"
    and "unat (stack_use env) \<le> 0xFFFF0000"
  shows "\<exists>m. processor_exception env a v e (c, s) = Done (c, s2\<lparr>ram := m\<rparr>)"
proof -
  obtain c2 where c2: "creg c2 = creg c" "gdtr c2 = gdtr c" "idtr c2 = idtr c" "cpl c = 0 \<longrightarrow> sreg c2 SS = sreg c SS"
    and d: "processor_exception env a v e (c, s) = outcome_bind (c_function env (sa_fault_handler a) (frame_address c s)
          (handler_entry (clears_upper env) (ucast v) (if v \<in> cpu_pushes_code then e else 0) (c, s)))
        (\<lambda>(r, s'). let m = left_ram env 4 (frame_address c s - 4) (ram s') in
           Done (load_state (frame_address c s) (cpu_state_at m (frame_address c s)) c2, s'\<lparr>ram := m\<rparr>))"
    using exception_exec [OF assms(1-3) refl, of env e s] unfolding handler_entry_def Let_def prod.case by blast
  have "load_state (frame_address c s) (cpu_state_at (left_ram env 4 (frame_address c s - 4) (ram s2)) (frame_address c s)) c2 = c"
    using c2 assms(5,6) unfolding handler_entry_def Let_def prod.case
    by (intro resume_interrupted [OF _ _ _ _ refl]) simp_all
  then show ?thesis using d assms(4) by (simp add: Let_def) (rule exI, rule refl)
qed

text \<open>C23: Demand paging is invisible: when a task touches a reserved page, the fault handler maps a page for it and
  the instruction is executed again with every register as it was.\<close>

theorem page_fault_resumes:
  assumes "tables_ready a c" and "c_function env (sa_fault_handler a) = fault_function r"
    and "unat (stack_use env) \<le> 0xFFFF0000" and "trap_cr2 s = va"
    and "self_mapped (trap_machine s)" and "take_bit 12 (cr3 (trap_machine s)) = 0" and "own_table (trap_machine s) va"
    and "err AND 0x8 = 0" and "err AND 0x1 = 0"
    and "pte_reserved_flag (table_entry (trap_machine s) (drop_bit 22 va) (take_bit 10 (drop_bit 12 va))) \<noteq> 0"
    and "mm_alloc_pages_himem 1 1 (trap_physical s) = Done (phys, ps')"
  shows "\<exists>s'. processor_exception env a 14 err (c, s) = Done (c, s') \<and>
    mmu_walk (trap_machine s') va = Some (push_bit 12 (drop_bit 12 phys) OR take_bit 12 va)"
proof -
  obtain m' where m': "paging_handle_fault err va (trap_machine s, trap_physical s) = Done (True, m', ps')"
    "mmu_walk m' va = Some (push_bit 12 (drop_bit 12 phys) OR take_bit 12 va)"
    using handle_fault_ok [OF assms(5-11)] by blast
  let ?p = "frame_address c s"
  let ?s1 = "handler_entry (clears_upper env) 14 err (c, s)"
  have code: "(if (14 :: u8) \<in> cpu_pushes_code then err else 0) = err" by (simp add: cpu_pushes_code_def)
  have f: "int_no (cpu_state_at (ram ?s1) ?p) = 14" "err_code (cpu_state_at (ram ?s1) ?p) = err"
    by (simp_all add: handler_entry_def Let_def interrupt_frame)
  have t: "trap_cr2 ?s1 = va" "trap_machine ?s1 = trap_machine s" "trap_physical ?s1 = trap_physical s"
    using assms(4) by (simp_all add: handler_entry_def Let_def)
  let ?s2 = "?s1\<lparr>trap_machine := m', trap_physical := ps'\<rparr>"
  have "c_function env (sa_fault_handler a) ?p ?s1 = Done (r, ?s2)"
    by (simp add: assms(2) fault_function_def fault_handler_def f t m')
  then have "\<exists>m. processor_exception env a 14 err (c, s) = Done (c, ?s2\<lparr>ram := m\<rparr>)"
    using exception_transparent [OF assms(1), of 14 env s err r ?s2] assms(3) by (simp add: code)
  then show ?thesis using m'(2) by auto
qed

text \<open>For an alignment check the processor pushes an error code and the stub another 0: the saved state is shifted by
  one word, so the handler reports the error code as the instruction pointer.\<close>

theorem alignment_check_frame_shifted:
  assumes "tables_ready a c"
  shows "\<exists>s1 f. processor_exception env a 17 e (c, s) = outcome_bind (c_function env (sa_fault_handler a)
        (frame_address c s - 4) s1) f \<and>
      r_eip (cpu_state_at (ram s1) (frame_address c s - 4)) = e \<and> int_no (cpu_state_at (ram s1) (frame_address c s - 4)) = 17"
proof -
  define q where "q = frame_address c s - 4"
  have v: "unat (17 :: u8) < 48" by simp
  note tab = enter_tables [OF assms v]
  let ?c1 = "(trapped c (q + 60) (ucast (tss s ! 2)) (sa_stub a 17) (eflags c AND NOT 0x34300))\<lparr>
      gpr := (gpr (trapped c (q + 60) (ucast (tss s ! 2)) (sa_stub a 17) (eflags c AND NOT 0x34300)))(ESP := q + 56)\<rparr>"
  let ?s1 = "s\<lparr>ram := write_u32 (q + 56) e (trap_ram c (q + 4) (ram s))\<rparr>"
  have e: "enter_gate 17 (Some e) (c, s) = (?c1, ?s1)"
    using enter_gate_frame [OF tab(2,3), of s]
    by (simp add: enter_gate_code push32_def Let_def q_def trapped_def)
  let ?c2 = "?c1\<lparr>gpr := (gpr ?c1)(ESP := q + 48), eflags := eflags ?c1 AND NOT 0x200\<rparr>"
  let ?m = "write_u32 (q + 48) 17 (write_u32 (q + 52) 0 (ram ?s1))"
  have st: "exec_all env (isr_stub 17) (?c1, ?s1) = Done (?c2, ?s1\<lparr>ram := ?m\<rparr>)"
    by (simp add: isr_stub_def push32_def Let_def gpr_eq_iff add.commute [of _ q])
  have z: "(8 :: u16) AND 3 = 0" by simp
  have k: "gpr ?c2 ESP = q + 48" "cpl ?c2 = 0" by (simp_all add: trapped_def cpl_def z)
  have code: "stub_code (sa_irq_handler a) (sa_fault_handler a) 17 = isr_stub 17 @ isr_common_stub (sa_fault_handler a)"
    by (simp add: stub_code_def isr_entry_def isr_with_code_def)
  have ip: "eip ?c1 = sa_stub a (unat (17 :: u8))" by (simp add: trapped_def)
  have "processor_exception env a 17 e (c, s) =
      exec_all env (isr_stub 17 @ isr_common_stub (sa_fault_handler a)) (?c1, ?s1)"
    unfolding processor_exception_def using tab(1) [of "Some e" s] tab(4) [OF ip, of env ?s1] code
    by (simp add: cpu_pushes_code_def e)
  also have "\<dots> = exec_all env (isr_common_stub (sa_fault_handler a)) (?c2, ?s1\<lparr>ram := ?m\<rparr>)"
    unfolding exec_all_append st outcome_bind.simps by (rule refl)
  finally have eq: "processor_exception env a 17 e (c, s) =
      exec_all env (isr_common_stub (sa_fault_handler a)) (?c2, ?s1\<lparr>ram := ?m\<rparr>)" .
  let ?m1 = "write_u32 (q - 4) q (saved_ram (clears_upper env) ?c2 q ?m)"
  have "r_eip (cpu_state_at ?m1 q) = e" "int_no (cpu_state_at ?m1 q) = 17"
    by (simp_all add: saved_frame) (simp_all add: cpu_state_at_def stack_simps)
  then show ?thesis unfolding q_def [symmetric] eq isr_common_exec [OF k]
    by (intro exI [of _ "?s1\<lparr>ram := ?m1\<rparr>"] exI conjI) (rule arg_cong2 [where f = outcome_bind], simp_all)
qed

text \<open>
  \<^verbatim>\<open>syscall::execute\<close> pushes the number of the call and the return address \<open>ret\<close> and calls \<^verbatim>\<open>int23_0\<close>, whose
  \<^verbatim>\<open>int\<close> is at \<open>at\<close>; \<^verbatim>\<open>scheduler::yield\<close> of \<^verbatim>\<open>src/timbos.cpp\<close> executes the call \<^verbatim>\<open>Yield\<close>.
\<close>

definition syscall_execute ::
    "(('z) sched_state_scheme) environment \<Rightarrow> stub_addresses \<Rightarrow> u32 \<Rightarrow> u32 \<Rightarrow> u32 \<Rightarrow> ('z) config \<Rightarrow> ('z) config outcome" where
  "syscall_execute env a ret at no cs = system_call env a at (push32 ret (push32 no cs))"

definition scheduler_yield ::
    "(('z) sched_state_scheme) environment \<Rightarrow> stub_addresses \<Rightarrow> u32 \<Rightarrow> u32 \<Rightarrow> ('z) config \<Rightarrow> ('z) config outcome" where
  "scheduler_yield env a ret at cs = syscall_execute env a ret at Syscall_Yield cs"

lemma user_system_call_halts:
  assumes "tables_ready a c" and "cpl c \<noteq> 0" and "c_function env (sa_fault_handler a) = fault_function r"
  shows "system_call env a at (c, s) = Diverges"
proof -
  let ?c1 = "c\<lparr>gpr := (gpr c)(EAX := read_u32 (ram s) (gpr c ESP + 4)), eip := at\<rparr>"
  let ?e = "push_bit 3 (ucast (0x23 :: u8)) OR 2 :: u32"
  have tab: "tables_ready a ?c1" using assms(1) by (simp add: tables_ready_def)
  have "present_gate (sa_stub a 35) (idtr c ! 35)" "length (idtr c) = 256"
    using assms(1) by (simp_all add: tables_ready_def)
  moreover have "drop_bit 5 (0x8E :: u8) AND 3 = 0" by simp
  ultimately have "gate_dpl (idtr c ! 35) = 0" by (simp add: gate_dpl_def present_gate_def)
  then have "\<not> cpl c \<le> gate_dpl (idtr c ! 35)" using assms(2) by simp
  then have "int23_0 at env (c, s) = raise_exception 13 (Some ?e) (?c1, s)"
    by (simp add: int23_0_def software_interrupt_def cpl_def)
  then have "system_call env a at (c, s) = processor_exception env a 13 ?e (?c1, s)"
    by (simp only: system_call_def processor_exception_def cpu_pushes_code_def) simp
  also have "\<dots> = Diverges"
    using exception_exec [OF tab, of 13 _ s env ?e] assms(3)
    by (auto simp: fault_function_def fault_handler_def interrupt_frame)
  finally show ?thesis .
qed

text \<open>C24: A task that runs outside ring 0 cannot make a system call: the gate of vector 0x23 belongs to ring 0, so
  \<^verbatim>\<open>int 0x23\<close> raises a general protection fault, whose handler halts the kernel. A task that yields stops
  the machine.\<close>

theorem system_call_from_user_halts:
  assumes "tables_ready a c" and "cpl c \<noteq> 0" and "c_function env (sa_fault_handler a) = fault_function r"
  shows "syscall_execute env a ret at no (c, s) = Diverges \<and> scheduler_yield env a ret at (c, s) = Diverges"
proof -
  have k: "tables_ready a (c\<lparr>gpr := g\<rparr>)" "cpl (c\<lparr>gpr := g\<rparr>) \<noteq> 0" for g
    using assms(1,2) by (simp_all add: tables_ready_def cpl_def)
  have "syscall_execute env a ret at n (c, s) = Diverges" for n
    using user_system_call_halts [OF k assms(3)] by (simp add: syscall_execute_def push32_def Let_def)
  then show ?thesis by (simp add: scheduler_yield_def)
qed

text \<open>From ring 0 the system call reaches \<^verbatim>\<open>irq_handler\<close> with the number of IRQ 3 and the call number in \<open>eax\<close>.\<close>

lemma system_call_from_kernel:
  assumes "tables_ready a c" and "cpl c = 0"
  shows "\<exists>s1 f. system_call env a at (c, s) = outcome_bind (c_function env (sa_irq_handler a) (gpr c ESP - 68) s1) f \<and>
      frame_int_no (gpr c ESP - 68) s1 = 0x23 \<and>
      r_eax (cpu_state_at (ram s1) (gpr c ESP - 68)) = read_u32 (ram s) (gpr c ESP + 4)"
proof -
  let ?c1 = "c\<lparr>gpr := (gpr c)(EAX := read_u32 (ram s) (gpr c ESP + 4)), eip := at + 2\<rparr>"
  have tab: "tables_ready a ?c1" using assms(1) by (simp add: tables_ready_def)
  have "present_gate (sa_stub a 35) (idtr c ! 35)" "length (idtr c) = 256"
    using assms(1) by (simp_all add: tables_ready_def)
  moreover have "bit (0x8E :: u8) 7" by simp
  ultimately have "gate_present (idtr c ! 35)" by (simp add: gate_present_def present_gate_def)
  then have "int23_0 at env (c, s) = raise_exception 0x23 None (?c1, s)"
    using assms(2) \<open>length (idtr c) = 256\<close>
    by (simp add: int23_0_def software_interrupt_def raise_exception_def cpl_def)
  then have "system_call env a at (c, s) = outcome_bind (raise_exception 0x23 None (?c1, s)) (run_stub env a)"
    by (simp only: system_call_def)
  then have call: "system_call env a at (c, s) = outcome_bind (raise_exception 0x23 None (?c1, s)) (run_stub env a)" .
  define p where "p = gpr c ESP - 68"
  have p: "p = frame_address ?c1 s" using assms(2) by (simp add: frame_address_def cpl_def p_def)
  let ?s1 = "s\<lparr>ram := write_u32 (p - 4) p (interrupt_ram (clears_upper env) ?c1 p 0x23 0 (ram s))\<rparr>"
  obtain c2 where "outcome_bind (raise_exception 0x23 None (?c1, s)) (run_stub env a) =
      outcome_bind (c_function env (sa_irq_handler a) p ?s1)
      (\<lambda>(r, s'). let m = left_ram env 4 (p - 4) (ram s') in
         Done (load_state r (cpu_state_at m r) c2, s'\<lparr>ram := m\<rparr>))"
    using irq_vector_exec [OF tab _ _ p, of "0x23" env] by auto
  moreover have "frame_int_no p ?s1 = 0x23" "r_eax (cpu_state_at (ram ?s1) p) = read_u32 (ram s) (gpr c ESP + 4)"
    by (simp_all add: frame_int_no_def interrupt_frame)
  ultimately show ?thesis unfolding p_def [symmetric] call by (intro exI conjI) assumption+
qed

subsection \<open>A processor to run the stubs on\<close>

definition sample_stubs :: stub_addresses where
  "sample_stubs = \<lparr>sa_irq_handler = 0xC0102000, sa_fault_handler = 0xC0103000,
     sa_stub = (\<lambda>v. 0xC0100000 + word_of_nat v)\<rparr>"

definition sample_gdt :: "gdt_entry list" where
  "sample_gdt = (case gdt_init 0xC0105000 empty_gdt of Done t \<Rightarrow> t | _ \<Rightarrow> [])"

definition sample_idt :: "idt_entry list" where
  "sample_idt = fst (irq_init (sa_stub sample_stubs) (isr_init (sa_stub sample_stubs) empty_idt))"

definition sample_processor :: processor where
  "sample_processor = \<lparr>gpr = (\<lambda>r. 0x400F00), sreg = (\<lambda>r. if r = CS then 0x1B else 0x23), creg = (\<lambda>r. 0),
     eip = 0x400000, eflags = 0x202, gdtr = sample_gdt, idtr = sample_idt\<rparr>"

definition sample_trap_state :: trap_state where
  "sample_trap_state = sched_state.extend
     (two_tasks\<lparr>tss := (replicate 32 0)[1 := 0xC1001000, 2 := 0x10]\<rparr>)
     \<lparr>trap_cr2 = 0x1000, trap_machine = sample_machine, trap_physical = sample_physical\<lparr>pools := \<lambda>_. pool_init 0 0 0\<rparr>\<rparr>"

definition sample_environment :: "trap_state environment" where
  "sample_environment = \<lparr>
     c_function = (\<lambda>f. if f = sa_irq_handler sample_stubs then irq_handler (task_handlers 0xC0100100 0xC0100200)
       else fault_function 0),
     left_ecx = 1, left_edx = 2, left_eflags = 0, left_stack = (\<lambda>a. 0xCC), stack_use = 0x100,
     port_in = (\<lambda>p s. (0, s)), clears_upper = False, gdt_at = (\<lambda>p. sample_gdt), idt_at = (\<lambda>p. sample_idt)\<rparr>"

lemma sample_selector_ring: "selector_ring sample_gdt 0x08 = 0"
proof -
  obtain t where t: "gdt_init 0xC0105000 empty_gdt = Done t" "length t = 6"
    "map (\<lambda>e. (segment_base e, segment_limit e, segment_ring e, segment_code e)) (take 4 (tl t)) =
       [(0, 0xFFFFFFFF, 0, True), (0, 0xFFFFFFFF, 0, False), (0, 0xFFFFFFFF, 3, True), (0, 0xFFFFFFFF, 3, False)]"
    using gdt_init_ok [of empty_gdt "0xC0105000"] by (auto simp: empty_gdt_def)
  then have "segment_ring (t ! 1) = 0" by (auto simp: length_Suc_conv numeral_eq_Suc)
  then show ?thesis using t(1) by (simp add: selector_ring_def sample_gdt_def)
qed

lemma stubs_distinct: "distinct (map (\<lambda>v. b + word_of_nat v :: u32) [0..<48])"
proof (simp add: distinct_map, rule inj_onI)
  fix v w :: nat assume "v \<in> {0..<48}" "w \<in> {0..<48}" "b + word_of_nat v = b + (word_of_nat w :: u32)"
  then have "unat (word_of_nat v :: u32) = unat (word_of_nat w :: u32)" "v < 48" "w < 48" by simp_all
  then show "v = w" by (simp add: unat_u32_of_nat)
qed

lemma sample_tables: "tables_ready sample_stubs sample_processor"
proof -
  have d: "distinct (map (sa_stub sample_stubs) [0..<48])"
    using stubs_distinct [of "0xC0100000"] by (simp add: sample_stubs_def)
  have "present_gate (sa_stub sample_stubs v) (sample_idt ! v)" if "v < 48" for v
    using idt_vectors_ok [of empty_idt v "sa_stub sample_stubs"] that by (simp add: sample_idt_def empty_idt_def)
  then show ?thesis using sample_selector_ring d
    by (simp add: tables_ready_def sample_processor_def) (simp add: sample_idt_def irq_init_def isr_init_def empty_idt_def)
qed

theorem page_fault_resumes_witness:
  "\<exists>s'. processor_exception sample_environment sample_stubs 14 0 (sample_processor, sample_trap_state) =
      Done (sample_processor, s') \<and> mmu_walk (trap_machine s') 0x1000 = Some 0"
proof -
  have "pool_try 1 1 (pool_init 0 0 0) = Done None"
    unfolding pool_try_def by (subst scan.simps) (simp add: pool_init_def)
  then obtain ps' where "mm_alloc_pages_himem 1 1 (trap_physical sample_trap_state) = Done (0, ps')"
    by (simp add: mm_alloc_pages_himem_def physical_alloc_himem_def pool_alloc_none log_if_zero_def
        sample_trap_state_def sched_state.defs)
  then show ?thesis
    using page_fault_resumes [of sample_stubs sample_processor sample_environment 0 sample_trap_state "0x1000" 0 0 ps']
      sample_tables sample_machine_facts
    by (simp add: sample_environment_def sample_stubs_def) (auto simp: sample_trap_state_def sched_state.defs)
qed

theorem system_call_from_user_halts_witness:
  "scheduler_yield sample_environment sample_stubs 0x400020 0x400010 (sample_processor, sample_trap_state) = Diverges"
proof -
  have "(0x1B :: u16) AND 3 \<noteq> 0" by simp
  then have "cpl sample_processor \<noteq> 0" by (simp add: cpl_def sample_processor_def)
  moreover have "c_function sample_environment (sa_fault_handler sample_stubs) = fault_function 0"
    by (simp add: sample_environment_def sample_stubs_def)
  ultimately show ?thesis using system_call_from_user_halts [OF sample_tables, where r = 0] by blast
qed

text \<open>IRQ 1 has no handler here, so \<^verbatim>\<open>irq_handler\<close> returns the state it got.\<close>

theorem interrupt_transparent_witness:
  "\<exists>s'. device_interrupt sample_environment sample_stubs 33 (sample_processor, sample_trap_state) =
     Done (sample_processor, s')"
proof -
  let ?p = "frame_address sample_processor sample_trap_state"
  let ?s1 = "handler_entry False 33 0 (sample_processor, sample_trap_state)"
  have clears: "clears_upper sample_environment = False" and use: "stack_use sample_environment = 0x100"
    and flag: "bit (eflags sample_processor) 9"
    by (simp_all add: sample_environment_def sample_processor_def bit_numeral_rec)
  have no: "frame_int_no ?p ?s1 = 33" by (simp add: frame_int_no_def handler_entry_def Let_def interrupt_frame)
  have r: "irq_routines ?s1 = replicate 16 0"
    by (simp add: handler_entry_def Let_def sample_trap_state_def sched_state.defs two_tasks_def)
  have "\<exists>s2. c_function sample_environment (sa_irq_handler sample_stubs) ?p ?s1 = Done (?p, s2) \<and> ram s2 = ram ?s1"
    by (simp add: sample_environment_def irq_handler_def no r Let_def)
  then obtain s2 where "c_function sample_environment (sa_irq_handler sample_stubs) ?p ?s1 = Done (?p, s2)" "ram s2 = ram ?s1"
    by blast
  then show ?thesis
    using interrupt_transparent [of sample_stubs sample_processor 33 sample_environment sample_trap_state s2] sample_tables
      clears use flag by simp
qed

end
