(* ===== verification/Multitasking.thy ===== *)
theory Multitasking
  imports Stubs
begin

text \<open>
  What the assembly stubs (theory \<open>Stubs\<close>) and the scheduler (theory \<open>Scheduler\<close>) do together: each task has a
  virtual processor of its own. A timer tick only changes which of them is the real one. The abstract
  machine \<open>vp_step\<close> has one processor per task; the kernel implements it.
\<close>

subsection \<open>What a tick does to memory\<close>

definition apart :: "u32 \<Rightarrow> u32 \<Rightarrow> bool" where
  "apart x y \<longleftrightarrow> 4096 \<le> unat (x - y) \<and> 4096 \<le> unat (y - x)"

lemma apart_sym: "apart x y \<Longrightarrow> apart y x"
  by (simp add: apart_def)

lemma apart_bound:
  assumes "apart x y"
  shows "unat (x - y) \<le> 4294967296 - 4096"
proof -
  have "unat (x - y + (y - x)) = (unat (x - y) + unat (y - x)) mod 4294967296"
    by (simp only: unat_word_ariths) simp
  then have "(unat (x - y) + unat (y - x)) mod 4294967296 = 0" by simp
  then obtain k where k: "unat (x - y) + unat (y - x) = 4294967296 * k" by (auto simp: dvd_def)
  moreover have "unat (x - y) < 4294967296" "unat (y - x) < 4294967296" by simp_all
  ultimately have "k < 2" by linarith
  then have "unat (x - y) + unat (y - x) \<le> 4294967296" using k by (cases k) auto
  then show ?thesis using assms by (simp add: apart_def)
qed

lemma unat_sub_ge: "unat k \<le> unat x \<Longrightarrow> unat (x - k :: u32) = unat x - unat k"
  by (simp add: unat_sub word_le_nat_alt)

lemma write_u32_outside:
  assumes "76 \<le> unat (x - p)" and "unat k \<le> 72"
  shows "write_u32 (p + k) v m x = m x"
proof -
  have "x - (p + k) = x - p - k" by (simp add: algebra_simps)
  moreover have "unat (x - p - k) = unat (x - p) - unat k" using assms by (intro unat_sub_ge) simp
  ultimately have "4 \<le> unat (x - (p + k))" using assms by (simp only:)
  then show ?thesis by (rule write_u32_other)
qed

lemma interrupt_ram_outside:
  assumes "76 \<le> unat (x - p)"
  shows "interrupt_ram clears c p v e m x = m x"
  using write_u32_outside [OF assms, of 0] write_u32_outside [OF assms]
  by (simp add: interrupt_ram_def saved_ram_def trap_ram_def Let_def)

lemma frames_apart:
  assumes "apart q (p + 76)" and "unat (x - (q - 76)) < 76"
  shows "76 \<le> unat (x - p)"
proof -
  have "unat (q - (p + 76) + (x - (q - 76))) = unat (q - (p + 76)) + unat (x - (q - 76))"
    using assms(2) apart_bound [OF assms(1)] by (intro unat_u32_add) linarith
  moreover have "x - p = q - (p + 76) + (x - (q - 76))" by (simp add: algebra_simps)
  ultimately have "unat (x - p) = unat (q - (p + 76)) + unat (x - (q - 76))" by (simp only:)
  then show ?thesis using assms(1) by (simp add: apart_def)
qed

text \<open>The saved states of other tasks are not touched by the pushes on one task's kernel stack, nor by the C
  code that runs on it, as long as that stays within its page.\<close>

lemma tick_keeps_frames:
  assumes "apart q (p + 76)" and "unat (stack_use env) \<le> 4000"
  shows "same_bytes (q - 76) 76 m (left_ram env 4 (p - 4) (write_u32 (p - 4) v (interrupt_ram clears c p no e m)))"
  unfolding same_bytes_def
proof (intro allI impI)
  fix x assume x: "unat (x - (q - 76)) < 76"
  let ?u = "stack_use env"
  let ?d = "q - (p + 76)" and ?k = "x - (q - 76)"
  have d: "4096 \<le> unat ?d" "unat ?d \<le> 4294967296 - 4096"
    using assms(1) apart_bound [OF assms(1)] by (simp_all add: apart_def)
  have e1: "unat (?d + ?k) = unat ?d + unat ?k" using d x by (intro unat_u32_add) linarith
  have e2: "unat (?d + ?k + (?u + 4)) = unat ?d + unat ?k + (unat ?u + 4)"
  proof -
    have "unat (?u + 4) = unat ?u + 4" using assms(2) by (subst unat_u32_add) simp_all
    then show ?thesis using d x assms(2) e1 by (subst unat_u32_add) linarith+
  qed
  have y: "x - p = ?d + ?k" "x - (p - 4 - ?u) = ?d + ?k + (?u + 4)" by (simp_all add: algebra_simps)
  have "76 \<le> unat (x - p)" using assms(1) x by (rule frames_apart)
  then have "interrupt_ram clears c p no e m x = m x" by (rule interrupt_ram_outside)
  moreover have "write_u32 (p - 4) v m' x = m' x" for m'
  proof (rule write_u32_other)
    have "unat (?d + ?k + 4) = unat ?d + unat ?k + 4" using e1 d x by (subst unat_u32_add) simp_all
    moreover have "x - (p - 4) = ?d + ?k + 4" by (simp add: algebra_simps)
    ultimately show "4 \<le> unat (x - (p - 4))" by (simp only: le_add2)
  qed
  moreover have "\<not> unat (x - (p - 4 - ?u)) < unat ?u + 4" unfolding y e2 using d by simp
  ultimately show "m x = left_ram env 4 (p - 4) (write_u32 (p - 4) v (interrupt_ram clears c p no e m)) x"
    by (simp add: left_ram_def)
qed

subsection \<open>The state of the tasks\<close>

definition user_mode :: "processor \<Rightarrow> bool" where
  "user_mode c \<longleftrightarrow> cpl c \<noteq> 0 \<and> bit (eflags c) 9"

text \<open>A task that waits has its processor \<open>ctx\<close> saved at the top of its kernel stack. The registers that are
  not saved, such as the page directory, are common to all tasks and taken from \<open>k\<close>.\<close>

definition suspended :: "memory \<Rightarrow> processor \<Rightarrow> Task \<Rightarrow> processor \<Rightarrow> bool" where
  "suspended m k t ctx \<longleftrightarrow> task_cpu_state t = kernel_stack t - 76 \<and>
     leaves_ring0 (cpu_state_at m (task_cpu_state t)) \<and>
     load_state (task_cpu_state t) (cpu_state_at m (task_cpu_state t)) k = ctx"

definition common_registers :: "processor \<Rightarrow> processor \<Rightarrow> bool" where
  "common_registers k k' \<longleftrightarrow> creg k = creg k' \<and> gdtr k = gdtr k' \<and> idtr k = idtr k'"

lemma load_state_common:
  "leaves_ring0 f \<Longrightarrow> common_registers k k' \<Longrightarrow> load_state r f k = load_state r f k'"
  by (simp add: load_state_def common_registers_def processor.equality)

lemma load_state_keeps: "common_registers (load_state r f k) k"
  by (simp add: load_state_def common_registers_def)

lemma suspended_common: "suspended m k t ctx \<Longrightarrow> common_registers k k' \<Longrightarrow> suspended m k' t ctx"
  using load_state_common [where k = k and k' = k'] by (auto simp: suspended_def)

lemma suspended_same_bytes:
  assumes "suspended m k t ctx" and "same_bytes (kernel_stack t - 76) 76 m m'"
  shows "suspended m' k t ctx"
  using load_state_same_bytes(1) [of "kernel_stack t - 76" m m' k] load_state_same_bytes(2) [of "kernel_stack t - 76" m m'] assms
  by (auto simp: suspended_def)

lemma tables_common: "tables_ready a k \<Longrightarrow> common_registers k k' \<Longrightarrow> tables_ready a k'"
  by (simp add: tables_ready_def common_registers_def)

text \<open>The kernel with its timer handler, and the tasks' processors \<open>vp\<close>. Before the first tick the boot code
  runs, on a stack of its own.\<close>

definition timer_installed :: "(('z) sched_state_scheme) environment \<Rightarrow> stub_addresses \<Rightarrow> ('z) sched_state_scheme \<Rightarrow> bool" where
  "timer_installed env a s \<longleftrightarrow> length (irq_routines s) = 16 \<and> irq_routines s ! 0 \<noteq> 0 \<and> length (tss s) = 32 \<and>
     unat (stack_use env) \<le> 4000 \<and>
     (\<exists>syscall_addr. c_function env (sa_irq_handler a) = irq_handler (task_handlers (irq_routines s ! 0) syscall_addr))"

definition stacks_apart :: "Task list \<Rightarrow> bool" where
  "stacks_apart ts \<longleftrightarrow> (\<forall>i < length ts. \<forall>j < length ts. i \<noteq> j \<longrightarrow> apart (kernel_stack (ts ! i)) (kernel_stack (ts ! j)))"

definition tasks_suspended :: "(nat \<Rightarrow> processor) \<Rightarrow> ('z) config \<Rightarrow> bool" where
  "tasks_suspended vp = (\<lambda>(c, s). \<forall>j < length (s_task_list s). s_current_task s \<noteq> Some j \<longrightarrow>
     user_mode (vp j) \<and> suspended (ram s) c (s_task_list s ! j) (vp j))"

definition running_stack :: "('z) config \<Rightarrow> u32" where
  "running_stack = (\<lambda>(c, s). frame_address c s + 76)"

definition tasks_inv :: "(('z) sched_state_scheme) environment \<Rightarrow> stub_addresses \<Rightarrow> (nat \<Rightarrow> processor) \<Rightarrow> ('z) config \<Rightarrow> bool" where
  "tasks_inv env a vp = (\<lambda>(c, s). tables_ready a c \<and> timer_installed env a s \<and> stacks_apart (s_task_list s) \<and>
     tasks_suspended vp (c, s) \<and> bit (eflags c) 9 \<and>
     (case s_current_task s of
        None \<Rightarrow> \<forall>t \<in> set (s_task_list s). apart (kernel_stack t) (running_stack (c, s))
      | Some i \<Rightarrow> i < length (s_task_list s) \<and> cpl c \<noteq> 0 \<and> tss s ! 1 = kernel_stack (s_task_list s ! i) \<and> vp i = c))"

subsection \<open>The timer tick\<close>

lemma scheduler_next_ram:
  "scheduler_next p (s\<lparr>ram := m\<rparr>) = (case scheduler_next p s of (r, s') \<Rightarrow> (r, s'\<lparr>ram := m\<rparr>))"
  by (cases "s_current_task s") (simp_all add: scheduler_next_def save_current_def next_task_def Let_def)

lemma scheduler_next_keeps:
  assumes "scheduler_next p s = (r, s')"
  shows "ram s' = ram s" and "irq_routines s' = irq_routines s"
  using assms by (auto simp: scheduler_next_def Let_def split: if_splits)

lemma timer_tick:
  assumes "tables_ready a c" and "timer_installed env a s" and "bit (eflags c) 9"
    and "scheduler_next (frame_address c s) s = (r, s1)"
  shows "\<exists>c2 m ports. common_registers c2 c \<and>
      (cpl c = 0 \<longrightarrow> sreg c2 SS = sreg c SS) \<and>
      device_interrupt env a 32 (c, s) = Done (load_state r (cpu_state_at m r) c2, s1\<lparr>ram := m, irq_ports := ports\<rparr>) \<and>
      load_state (frame_address c s) (cpu_state_at m (frame_address c s)) c2 = c \<and>
      (leaves_ring0 (cpu_state_at m (frame_address c s)) \<longleftrightarrow> cpl c \<noteq> 0) \<and>
      (\<forall>q. apart q (frame_address c s + 76) \<longrightarrow> same_bytes (q - 76) 76 (ram s) m)"
proof -
  let ?p = "frame_address c s"
  let ?mi = "interrupt_ram (clears_upper env) c ?p 32 0 (ram s)"
  let ?m1 = "write_u32 (?p - 4) ?p ?mi"
  let ?m = "left_ram env 4 (?p - 4) ?m1"
  obtain syscall_addr where inst: "length (irq_routines s) = 16" "irq_routines s ! 0 \<noteq> 0" "unat (stack_use env) \<le> 4000"
    "c_function env (sa_irq_handler a) = irq_handler (task_handlers (irq_routines s ! 0) syscall_addr)"
    using assms(2) by (auto simp: timer_installed_def)
  obtain c2 where c2: "creg c2 = creg c" "gdtr c2 = gdtr c" "idtr c2 = idtr c" "cpl c = 0 \<longrightarrow> sreg c2 SS = sreg c SS"
    and d: "device_interrupt env a 32 (c, s) =
        outcome_bind (c_function env (sa_irq_handler a) ?p (s\<lparr>ram := ?m1\<rparr>))
        (\<lambda>(r, s'). let m = left_ram env 4 (?p - 4) (ram s') in
           Done (load_state r (cpu_state_at m r) c2, s'\<lparr>ram := m\<rparr>))"
    using device_interrupt_exec [OF assms(1) _ _ assms(3) refl, of 32 env s] by auto
  have no: "frame_int_no ?p (s\<lparr>ram := ?m1\<rparr>) = 32" by (simp add: frame_int_no_def interrupt_frame)
  have "\<exists>ports. c_function env (sa_irq_handler a) ?p (s\<lparr>ram := ?m1\<rparr>) = Done (r, s1\<lparr>ram := ?m1, irq_ports := ports\<rparr>)"
    by (simp add: inst irq_handler_def no task_handlers_def scheduler_next_ram assms(4) Let_def) (rule exI, rule refl)
  then obtain ports where h: "c_function env (sa_irq_handler a) ?p (s\<lparr>ram := ?m1\<rparr>) =
      Done (r, s1\<lparr>ram := ?m1, irq_ports := ports\<rparr>)" by blast
  have same: "load_state ?p (cpu_state_at ?m ?p) c2 = c"
    using c2 inst(3) by (intro resume_interrupted [OF _ _ _ _ refl same_bytes_refl]) simp_all
  have "same_bytes ?p (frame_size c) ?mi ?m"
  proof (rule same_bytes_trans [where m' = ?m1])
    show "same_bytes ?p (frame_size c) ?mi ?m1" by (rule arg_push_same_bytes) (simp add: frame_size_def)
    show "same_bytes ?p (frame_size c) ?m1 ?m" using inst(3) by (intro left_ram_same_bytes) (simp_all add: frame_size_def)
  qed
  moreover have l: "leaves_ring0 (cpu_state_at ?mi ?p) \<longleftrightarrow> cpl c \<noteq> 0"
    by (simp add: interrupt_frame leaves_ring0_def cpl_def)
  ultimately have "leaves_ring0 (cpu_state_at ?m ?p) \<longleftrightarrow> cpl c \<noteq> 0"
    using load_state_same_bytes(2) [of ?p ?mi ?m] by (simp add: frame_size_def split: if_splits)
  moreover have "same_bytes (q - 76) 76 (ram s) ?m" if "apart q (?p + 76)" for q
    using that inst(3) by (rule tick_keeps_frames)
  moreover have "device_interrupt env a 32 (c, s) = Done (load_state r (cpu_state_at ?m r) c2, s1\<lparr>ram := ?m, irq_ports := ports\<rparr>)"
    by (simp add: d h Let_def)
  ultimately show ?thesis using c2 same unfolding common_registers_def by blast
qed

text \<open>The first tick starts the first task: the boot code is interrupted for good, and the task's saved
  processor becomes the real one.\<close>

lemma first_tick:
  assumes "tasks_inv env a vp (c, s)" and "s_current_task s = None" and "s_task_list s \<noteq> []"
  shows "\<exists>s'. device_interrupt env a 32 (c, s) = Done (vp 0, s') \<and> tasks_inv env a vp (vp 0, s') \<and>
    s_current_task s' = Some 0 \<and> length (s_task_list s') = length (s_task_list s)"
proof -
  let ?ts = "s_task_list s" and ?p = "frame_address c s"
  have inv: "tables_ready a c" "timer_installed env a s" "stacks_apart ?ts" "bit (eflags c) 9" "0 < length ?ts"
    "\<And>j. j < length ?ts \<Longrightarrow> user_mode (vp j) \<and> suspended (ram s) c (?ts ! j) (vp j)"
    "\<And>j. j < length ?ts \<Longrightarrow> apart (kernel_stack (?ts ! j)) (?p + 76)"
    using assms by (auto simp: tasks_inv_def tasks_suspended_def running_stack_def)
  let ?s1 = "s\<lparr>s_current_task := Some 0, tss := (tss s)[1 := kernel_stack (?ts ! 0)]\<rparr>"
  have nx: "scheduler_next ?p s = (task_cpu_state (?ts ! 0), ?s1)"
    using assms(2,3) by (simp add: scheduler_next_def save_current_def next_task_def Let_def update_tss_esp0_def)
  obtain c2 m ports where t: "common_registers c2 c"
    "device_interrupt env a 32 (c, s) = Done (load_state (task_cpu_state (?ts ! 0)) (cpu_state_at m (task_cpu_state (?ts ! 0))) c2,
       ?s1\<lparr>ram := m, irq_ports := ports\<rparr>)"
    "\<And>q. apart q (?p + 76) \<Longrightarrow> same_bytes (q - 76) 76 (ram s) m"
    using timer_tick [OF inv(1,2,4) nx] by blast
  have sus: "suspended m k (?ts ! j) (vp j)" if "j < length ?ts" "common_registers c k" for j k
    using suspended_same_bytes [OF suspended_common [OF conjunct2 [OF inv(6) [OF that(1)]] that(2)]] t(3) [OF inv(7) [OF that(1)]]
    by blast
  have c: "common_registers c c2" using t(1) by (simp add: common_registers_def)
  have r: "load_state (task_cpu_state (?ts ! 0)) (cpu_state_at m (task_cpu_state (?ts ! 0))) c2 = vp 0"
    using sus [OF inv(5) c] unfolding suspended_def by blast
  have c0: "common_registers c (vp 0)"
    using load_state_keeps [of "task_cpu_state (?ts ! 0)" "cpu_state_at m (task_cpu_state (?ts ! 0))" c2] t(1)
    unfolding r by (simp add: common_registers_def)
  let ?s2 = "?s1\<lparr>ram := m, irq_ports := ports\<rparr>"
  have "tasks_inv env a vp (vp 0, ?s2)"
    using inv sus [OF _ c0] tables_common [OF inv(1) c0] inv(6) [OF inv(5)]
    by (auto simp: tasks_inv_def tasks_suspended_def timer_installed_def user_mode_def)
  then show ?thesis using t(2) unfolding r by (intro exI [of _ ?s2]) simp
qed

lemma switch_tick:
  assumes "tasks_inv env a vp (c, s)" and "s_current_task s = Some i" and "j = Suc i mod length (s_task_list s)"
  shows "\<exists>s'. device_interrupt env a 32 (c, s) = Done (vp j, s') \<and> tasks_inv env a vp (vp j, s') \<and>
    s_current_task s' = Some j \<and> length (s_task_list s') = length (s_task_list s)"
proof -
  let ?ts = "s_task_list s" and ?p = "frame_address c s"
  have inv: "tables_ready a c" "timer_installed env a s" "stacks_apart ?ts" "bit (eflags c) 9" "i < length ?ts"
    "cpl c \<noteq> 0" "tss s ! 1 = kernel_stack (?ts ! i)" "vp i = c"
    "\<And>k. k < length ?ts \<Longrightarrow> k \<noteq> i \<Longrightarrow> user_mode (vp k) \<and> suspended (ram s) c (?ts ! k) (vp k)"
    using assms(1,2) by (auto simp: tasks_inv_def tasks_suspended_def)
  have p: "?p = kernel_stack (?ts ! i) - 76" using inv(6,7) by (simp add: frame_address_def)
  have j: "j < length ?ts" unfolding assms(3) using inv(5) by (intro mod_less_divisor) auto
  obtain r s1 where nx: "scheduler_next ?p s = (r, s1)" by fastforce
  note n = scheduler_next_running [OF assms(2) inv(5) nx, folded assms(3)]
  note keep = scheduler_next_keeps [OF nx]
  obtain c2 m ports where t: "common_registers c2 c"
    "device_interrupt env a 32 (c, s) = Done (load_state r (cpu_state_at m r) c2, s1\<lparr>ram := m, irq_ports := ports\<rparr>)"
    "load_state ?p (cpu_state_at m ?p) c2 = c" "leaves_ring0 (cpu_state_at m ?p)"
    "\<And>q. apart q (?p + 76) \<Longrightarrow> same_bytes (q - 76) 76 (ram s) m"
    using timer_tick [OF inv(1,2,4) nx] inv(6) by blast
  have stk: "kernel_stack (s_task_list s1 ! k) = kernel_stack (?ts ! k)" if "k < length ?ts" for k
    using n(1) that by (cases "k = i") auto
  have c: "common_registers c c2" using t(1) by (simp add: common_registers_def)
  have sus2: "user_mode (vp k) \<and> suspended m c2 (s_task_list s1 ! k) (vp k)" if k: "k < length ?ts" for k
  proof (cases "k = i")
    case True
    then show ?thesis using n(1) inv(4-6,8) t(3,4) p by (simp add: suspended_def user_mode_def)
  next
    case False
    then have "apart (kernel_stack (?ts ! k)) (?p + 76)" using inv(3,5) k p by (simp add: stacks_apart_def)
    then have "suspended m c (?ts ! k) (vp k)"
      using inv(9) [OF k False] t(5) by (blast intro: suspended_same_bytes)
    then show ?thesis using False inv(9) [OF k False] n(1) k suspended_common [OF _ c] by auto
  qed
  have r: "load_state r (cpu_state_at m r) c2 = vp j" using sus2 [OF j] unfolding n(3) suspended_def by blast
  have cj: "common_registers c2 (vp j)"
    using load_state_keeps [of r "cpu_state_at m r" c2] unfolding r by (simp add: common_registers_def)
  have cj': "common_registers c (vp j)" using c cj by (simp add: common_registers_def)
  let ?s2 = "s1\<lparr>ram := m, irq_ports := ports\<rparr>"
  have len: "length (s_task_list s1) = length ?ts" using n(1) by simp
  have "timer_installed env a ?s2" using inv(2) keep n(4) by (simp add: timer_installed_def)
  moreover have "stacks_apart (s_task_list ?s2)" using inv(3) len stk by (simp add: stacks_apart_def)
  moreover have "tasks_suspended vp (vp j, ?s2)"
    using sus2 suspended_common [OF _ cj] len by (simp add: tasks_suspended_def)
  moreover have "tss ?s2 ! 1 = kernel_stack (s_task_list ?s2 ! j)"
    using n(4) stk [OF j] inv(2) by (simp add: timer_installed_def)
  ultimately have "tasks_inv env a vp (vp j, ?s2)"
    using tables_common [OF inv(1) cj'] sus2 [OF j] n(2) j len by (simp add: tasks_inv_def user_mode_def)
  then show ?thesis using t(2) n(2) len unfolding r by (intro exI [of _ ?s2]) simp
qed

text \<open>C18: A tick between tasks: the next task's processor becomes the real one and the interrupted one is kept.\<close>

theorem tick_switches_processor:
  assumes "tasks_inv env a vp (c, s)" and "s_current_task s = Some i" and "j = Suc i mod length (s_task_list s)"
  shows "\<exists>s'. device_interrupt env a 32 (c, s) = Done (vp j, s') \<and> tasks_inv env a vp (vp j, s') \<and>
    s_current_task s' = Some j \<and> length (s_task_list s') = length (s_task_list s)"
  by (rule switch_tick [OF assms])

subsection \<open>Virtual processors\<close>

text \<open>
  What happens, as the labels of the steps of both machines: the running task computes, which takes the
  processor from one state to another, or the timer ticks.
\<close>

datatype task_event = Computes processor processor | Tick

text \<open>
  The abstract machine has \<open>n\<close> processors, one of which runs; a tick starts the next one. It is deterministic,
  and a computation that does not start in the state of the running processor is impossible.
\<close>

fun vp_step :: "nat \<Rightarrow> task_event \<Rightarrow> (nat \<Rightarrow> processor) \<times> nat \<Rightarrow> ((nat \<Rightarrow> processor) \<times> nat) option" where
  "vp_step n (Computes c c') (vp, i) = (if vp i = c then Some (vp(i := c'), i) else None)"
| "vp_step n Tick (vp, i) = Some (vp, Suc i mod n)"

primrec vp_trace :: "nat \<Rightarrow> task_event list \<Rightarrow> (nat \<Rightarrow> processor) \<times> nat \<Rightarrow> ((nat \<Rightarrow> processor) \<times> nat) option" where
  "vp_trace n [] v = Some v"
| "vp_trace n (e # es) v = Option.bind (vp_step n e v) (vp_trace n es)"

text \<open>The kernel: the running task computes, which leaves the kernel stacks and the registers only ring 0 can
  change as they are; or the timer interrupts it.\<close>

inductive task_step ::
    "(('z) sched_state_scheme) environment \<Rightarrow> stub_addresses \<Rightarrow> ('z) config \<Rightarrow> task_event \<Rightarrow> ('z) config \<Rightarrow> bool" for env a where
  user_runs: "user_mode c' \<Longrightarrow> common_registers c c' \<Longrightarrow>
     (\<And>t. t \<in> set (s_task_list s) \<Longrightarrow> same_bytes (kernel_stack t - 76) 76 (ram s) m) \<Longrightarrow>
     task_step env a (c, s) (Computes c c') (c', s\<lparr>ram := m\<rparr>)"
| timer: "device_interrupt env a 32 cs = Done cs' \<Longrightarrow> task_step env a cs Tick cs'"

inductive task_trace ::
    "(('z) sched_state_scheme) environment \<Rightarrow> stub_addresses \<Rightarrow> ('z) config \<Rightarrow> task_event list \<Rightarrow> ('z) config \<Rightarrow> bool" for env a where
  trace_nil: "task_trace env a cs [] cs"
| trace_cons: "task_step env a cs e cs1 \<Longrightarrow> task_trace env a cs1 es cs' \<Longrightarrow> task_trace env a cs (e # es) cs'"

lemma user_step_inv:
  assumes "tasks_inv env a vp (c, s)" and "s_current_task s = Some i" and "user_mode c'" and "common_registers c c'"
    and "\<And>t. t \<in> set (s_task_list s) \<Longrightarrow> same_bytes (kernel_stack t - 76) 76 (ram s) m"
  shows "tasks_inv env a (vp(i := c')) (c', s\<lparr>ram := m\<rparr>)"
proof -
  have inv: "tables_ready a c" "timer_installed env a s" "stacks_apart (s_task_list s)" "i < length (s_task_list s)"
    "tss s ! 1 = kernel_stack (s_task_list s ! i)"
    "\<And>j. j < length (s_task_list s) \<Longrightarrow> j \<noteq> i \<Longrightarrow> user_mode (vp j) \<and> suspended (ram s) c (s_task_list s ! j) (vp j)"
    using assms(1,2) by (auto simp: tasks_inv_def tasks_suspended_def)
  have sus: "suspended m c' (s_task_list s ! j) (vp j)" if "j < length (s_task_list s)" "j \<noteq> i" for j
  proof (rule suspended_same_bytes)
    show "suspended (ram s) c' (s_task_list s ! j) (vp j)"
      by (rule suspended_common [OF conjunct2 [OF inv(6) [OF that]] assms(4)])
    show "same_bytes (kernel_stack (s_task_list s ! j) - 76) 76 (ram s) m" using that(1) by (intro assms(5)) simp
  qed
  have "tasks_suspended (vp(i := c')) (c', s\<lparr>ram := m\<rparr>)"
    using sus inv(6) assms(2) by (simp add: tasks_suspended_def)
  moreover have "timer_installed env a (s\<lparr>ram := m\<rparr>)" using inv(2) by (simp add: timer_installed_def)
  ultimately show ?thesis
    using inv(3-5) assms(2,3) tables_common [OF inv(1) assms(4)] by (simp add: tasks_inv_def user_mode_def)
qed

lemma task_step_simulated:
  assumes "task_step env a cs e cs'" and "tasks_inv env a vp cs" and "s_current_task (snd cs) = Some i"
    and "n = length (s_task_list (snd cs))"
  shows "\<exists>vp' i'. vp_step n e (vp, i) = Some (vp', i') \<and> tasks_inv env a vp' cs' \<and>
    s_current_task (snd cs') = Some i' \<and> n = length (s_task_list (snd cs'))"
  using assms(1)
proof (cases rule: task_step.cases)
  case (user_runs c' c s m)
  then have "tasks_inv env a (vp(i := c')) cs'" using assms(2,3) user_step_inv [of env a vp c s i c' m] by simp
  moreover have "vp i = c" using user_runs assms(2,3) by (simp add: tasks_inv_def)
  ultimately show ?thesis using user_runs assms(3,4) by simp
next
  case timer
  obtain c s where cs: "cs = (c, s)" by fastforce
  show ?thesis using switch_tick [of env a vp c s i, OF _ _ refl] assms(2-4) timer unfolding cs by fastforce
qed

lemma task_trace_simulated:
  assumes "task_trace env a cs es cs'" and "tasks_inv env a vp cs" and "s_current_task (snd cs) = Some i"
    and "n = length (s_task_list (snd cs))"
  shows "\<exists>vp' i'. vp_trace n es (vp, i) = Some (vp', i') \<and> tasks_inv env a vp' cs' \<and>
    s_current_task (snd cs') = Some i'"
  using assms
proof (induction arbitrary: vp i rule: task_trace.induct)
  case (trace_cons cs e cs1 es cs')
  obtain vp1 i1 where v: "vp_step n e (vp, i) = Some (vp1, i1)" "tasks_inv env a vp1 cs1"
    "s_current_task (snd cs1) = Some i1" "n = length (s_task_list (snd cs1))"
    using task_step_simulated [OF trace_cons.hyps(1) trace_cons.prems] by blast
  show ?case using trace_cons.IH [OF v(2-4)] v(1) by simp
qed simp

text \<open>C3: The kernel implements one processor per task: whatever the tasks compute and whenever the timer
  interrupts them, the same sequence of events takes the abstract machine, where a computation changes the
  running processor only and a tick changes none, to the processor the current task really has; and the next
  tick is served.\<close>

theorem kernel_implements_processors:
  assumes "task_trace env a cs es cs'" and "tasks_inv env a vp cs" and "s_current_task (snd cs) = Some i"
    and "n = length (s_task_list (snd cs))"
  shows "\<exists>vp' i'. vp_trace n es (vp, i) = Some (vp', i') \<and> tasks_inv env a vp' cs' \<and>
    s_current_task (snd cs') = Some i' \<and> fst cs' = vp' i' \<and> (\<exists>cs''. task_step env a cs' Tick cs'')"
proof -
  obtain vp' i' where v: "vp_trace n es (vp, i) = Some (vp', i')" "tasks_inv env a vp' cs'"
    "s_current_task (snd cs') = Some i'" using task_trace_simulated [OF assms] by blast
  obtain c' s' where cs: "cs' = (c', s')" by fastforce
  have "fst cs' = vp' i'" using v(2,3) by (simp add: cs tasks_inv_def)
  moreover have "\<exists>cs''. task_step env a cs' Tick cs''"
    using switch_tick [of env a vp' c' s' i', OF _ _ refl] v(2,3) task_step.timer unfolding cs by fastforce
  ultimately show ?thesis using v by blast
qed

subsection \<open>New tasks\<close>

lemma init_frame_outside: "76 \<le> unat (x - p) \<Longrightarrow> init_frame p entry se m x = m x"
  using write_u32_outside [of x p] write_u32_outside [of x p 0]
  by (simp add: init_frame_def memset_word)

lemma new_task_exec:
  assumes "new_task us entry (h, s) = Done (h', s')"
  shows "\<exists>stk. s' = s\<lparr>ram := init_frame (stk - 76) entry (us + 4096) (ram s),
      s_task_list := s_task_list s @ [\<lparr>kernel_stack = stk, task_cpu_state = stk - 76\<rparr>]\<rparr>"
proof -
  have "\<exists>stack. s' = s\<lparr>ram := init_frame (stack + 4096 - 76) entry (us + 4096) (ram s),
      s_task_list := s_task_list s @ [\<lparr>kernel_stack = stack + 4096, task_cpu_state = stack + 4096 - 76\<rparr>]\<rparr>"
    using assms by (auto simp: new_task_def Let_def sizeof_cpu_state_def split: if_splits intro!: exI)
  then show ?thesis by blast
qed

text \<open>The processor a new task begins with: \<open>junk\<close> is what the stack page held.\<close>

definition start_processor :: "u32 \<Rightarrow> u32 \<Rightarrow> processor \<Rightarrow> processor \<Rightarrow> bool" where
  "start_processor entry user_stack_end k c \<longleftrightarrow> eip c = entry \<and> gpr c ESP = user_stack_end \<and> eflags c = 0x202 \<and>
     sreg c CS = 0x1B \<and> (\<forall>r. r \<noteq> CS \<longrightarrow> sreg c r = 0x23) \<and> common_registers c k"

lemma load_new_frame:
  "start_processor entry se k (load_state p (cpu_state_at (init_frame p entry se m) p) k)"
  "leaves_ring0 (cpu_state_at (init_frame p entry se m) p)"
proof -
  have z: "(0x1B :: u16) AND 3 \<noteq> 0" by simp
  then show l: "leaves_ring0 (cpu_state_at (init_frame p entry se m) p)"
    by (simp add: leaves_ring0_def new_task_frame)
  have "x = CS \<or> x = SS \<or> x = DS \<or> x = ES \<or> x = FS \<or> x = GS" for x by (cases x) simp_all
  then show "start_processor entry se k (load_state p (cpu_state_at (init_frame p entry se m) p) k)"
    using l by (auto simp: start_processor_def load_state_def new_task_frame common_registers_def split: sreg.splits)
qed

lemma new_task_inv:
  assumes inv: "tasks_inv env a vp (c, s)" and boot: "s_current_task s = None"
    and new: "new_task us entry (h, s) = Done (h', s')"
    and stk: "stk = kernel_stack (last (s_task_list s'))"
    and free: "apart stk (running_stack (c, s))" "\<And>t. t \<in> set (s_task_list s) \<Longrightarrow> apart stk (kernel_stack t)"
  shows "\<exists>p. start_processor entry (us + 4096) c p \<and> length (s_task_list s') = Suc (length (s_task_list s)) \<and>
    s_current_task s' = None \<and> tasks_inv env a (vp(length (s_task_list s) := p)) (c, s')"
proof -
  let ?ts = "s_task_list s"
  obtain stk' where "s' = s\<lparr>ram := init_frame (stk' - 76) entry (us + 4096) (ram s),
      s_task_list := ?ts @ [\<lparr>kernel_stack = stk', task_cpu_state = stk' - 76\<rparr>]\<rparr>"
    using new_task_exec [OF new] by blast
  then have s': "s' = s\<lparr>ram := init_frame (stk - 76) entry (us + 4096) (ram s),
      s_task_list := ?ts @ [\<lparr>kernel_stack = stk, task_cpu_state = stk - 76\<rparr>]\<rparr>"
    using stk by simp
  let ?m = "init_frame (stk - 76) entry (us + 4096) (ram s)"
  let ?p = "load_state (stk - 76) (cpu_state_at ?m (stk - 76)) c"
  note ld = load_new_frame(1) [where entry = entry and se = "us + 4096" and k = c and p = "stk - 76" and m = "ram s"]
    load_new_frame(2) [where entry = entry and se = "us + 4096" and p = "stk - 76" and m = "ram s"]
  have keep: "same_bytes (kernel_stack t - 76) 76 (ram s) ?m" if "t \<in> set ?ts" for t
  proof -
    have "apart (kernel_stack t) (stk - 76 + 76)" using apart_sym [OF free(2) [OF that]] by simp
    from frames_apart [OF this] show ?thesis by (simp add: same_bytes_def init_frame_outside)
  qed
  have i: "tables_ready a c" "timer_installed env a s" "stacks_apart ?ts" "bit (eflags c) 9"
    "\<And>j. j < length ?ts \<Longrightarrow> user_mode (vp j) \<and> suspended (ram s) c (?ts ! j) (vp j)"
    "\<And>t. t \<in> set ?ts \<Longrightarrow> apart (kernel_stack t) (running_stack (c, s))"
    using inv boot by (simp_all add: tasks_inv_def tasks_suspended_def)
  have z: "(0x1B :: u16) AND 3 \<noteq> 0" "bit (0x202 :: u32) 9" by (simp_all add: bit_numeral_rec)
  have um: "user_mode ?p" using ld(1) z by (simp add: start_processor_def user_mode_def cpl_def)
  have "user_mode ((vp(length ?ts := ?p)) j) \<and> suspended ?m c (s_task_list s' ! j) ((vp(length ?ts := ?p)) j)"
    if "j < Suc (length ?ts)" for j
  proof (cases "j = length ?ts")
    case True
    then show ?thesis using um ld(2) by (simp add: s' suspended_def)
  next
    case False
    then have j: "j < length ?ts" using that by simp
    have "suspended ?m c (?ts ! j) (vp j)"
      by (rule suspended_same_bytes [OF conjunct2 [OF i(5) [OF j]] keep [OF nth_mem [OF j]]])
    then show ?thesis using False j i(5) [OF j] by (simp add: s' nth_append)
  qed
  then have "tasks_suspended (vp(length ?ts := ?p)) (c, s')" using boot by (simp add: tasks_suspended_def s')
  moreover have "stacks_apart (s_task_list s')"
    using i(3) free(2) apart_sym [OF free(2)] by (simp add: stacks_apart_def s' nth_append less_Suc_eq all_conj_distrib)
  moreover have "running_stack (c, s') = running_stack (c, s)"
    by (simp add: running_stack_def frame_address_def s')
  ultimately have "tasks_inv env a (vp(length ?ts := ?p)) (c, s')"
    using i(1,2,4,6) free(1) boot by (simp add: tasks_inv_def timer_installed_def s')
  then show ?thesis using ld(1) boot by (intro exI [of _ ?p]) (simp add: s')
qed

lemma first_task_runs:
  assumes "tasks_inv env a vp (c, s)" and "s_current_task s = None" and "s_task_list s = []"
    and "new_task us entry (h, s) = Done (h', s')"
    and "apart (kernel_stack (last (s_task_list s'))) (running_stack (c, s))"
  shows "\<exists>p s''. device_interrupt env a 32 (c, s') = Done (p, s'') \<and> start_processor entry (us + 4096) c p \<and>
    s_current_task s'' = Some 0 \<and> tasks_inv env a (vp(0 := p)) (p, s'')"
proof -
  obtain p where p: "start_processor entry (us + 4096) c p" "length (s_task_list s') = 1" "s_current_task s' = None"
    "tasks_inv env a (vp(0 := p)) (c, s')"
    using new_task_inv [OF assms(1,2,4) refl assms(5)] assms(3) by auto
  then have "s_task_list s' \<noteq> []" by auto
  from first_tick [OF p(4,3) this] show ?thesis using p(1) by auto
qed

text \<open>C20: A new task starts: after \<^verbatim>\<open>new_task\<close> the next tick leaves the boot code and enters the task at its
  entry point, in ring 3, on its user stack and with interrupts enabled.\<close>

theorem first_task_starts:
  assumes "tasks_inv env a vp (c, s)" and "s_current_task s = None" and "s_task_list s = []"
    and "new_task us entry (h, s) = Done (h', s')"
    and "apart (kernel_stack (last (s_task_list s'))) (running_stack (c, s))"
  shows "\<exists>p s''. device_interrupt env a 32 (c, s') = Done (p, s'') \<and> start_processor entry (us + 4096) c p \<and>
    s_current_task s'' = Some 0 \<and> tasks_inv env a (vp(0 := p)) (p, s'')"
  by (rule first_task_runs [OF assms])

subsection \<open>Two tasks, and a first one\<close>

definition sample_tasks :: trap_state where
  "sample_tasks = sample_trap_state\<lparr>irq_routines := (replicate 16 0)[0 := 0xC0100100],
     ram := init_frame 0xC1002FB4 0x500000 0x502000 (\<lambda>a. 0)\<rparr>"

definition second_processor :: processor where
  "second_processor = load_state 0xC1002FB4 (cpu_state_at (ram sample_tasks) 0xC1002FB4) sample_processor"

lemma start_user_mode: "start_processor entry se k p \<Longrightarrow> user_mode p"
proof -
  have "(0x1B :: u16) AND 3 \<noteq> 0" "bit (0x202 :: u32) 9" by (simp_all add: bit_numeral_rec)
  then show "start_processor entry se k p \<Longrightarrow> user_mode p"
    by (simp add: start_processor_def user_mode_def cpl_def)
qed

lemma second_processor_starts: "start_processor 0x500000 0x502000 sample_processor second_processor"
  using load_new_frame(1) [of "0x500000" "0x502000" sample_processor "0xC1002FB4"]
  by (simp add: second_processor_def sample_tasks_def)

lemma sample_timer: "length (irq_routines s) = 16 \<Longrightarrow> irq_routines s ! 0 = 0xC0100100 \<Longrightarrow> length (tss s) = 32 \<Longrightarrow>
    timer_installed sample_environment sample_stubs s"
  by (auto simp: timer_installed_def sample_environment_def)

lemma sample_tasks_inv:
  "tasks_inv sample_environment sample_stubs ((\<lambda>j. sample_processor)(1 := second_processor)) (sample_processor, sample_tasks)"
proof -
  have f: "s_task_list sample_tasks = s_task_list two_tasks" "s_current_task sample_tasks = Some 0"
    "tss sample_tasks ! 1 = 0xC1001000" "timer_installed sample_environment sample_stubs sample_tasks"
    by (simp_all add: sample_tasks_def sample_trap_state_def sched_state.defs two_tasks_def sample_timer)
  have "stacks_apart (s_task_list two_tasks)"
    by (auto simp: stacks_apart_def two_tasks_def apart_def less_Suc_eq nth_Cons split: nat.splits)
  moreover have "tasks_suspended ((\<lambda>j. sample_processor)(1 := second_processor)) (sample_processor, sample_tasks)"
    using start_user_mode [OF second_processor_starts] load_new_frame(2) [of "0xC1002FB4"] f(2)
    by (auto simp: tasks_suspended_def f(1) suspended_def second_processor_def)
      (auto simp: two_tasks_def less_Suc_eq sample_tasks_def)
  moreover have "cpl sample_processor \<noteq> 0" "bit (eflags sample_processor) 9"
  proof -
    have "(0x1B :: u16) AND 3 \<noteq> 0" by simp
    then show "cpl sample_processor \<noteq> 0" by (simp add: cpl_def sample_processor_def)
    show "bit (eflags sample_processor) 9" by (simp add: sample_processor_def bit_numeral_rec)
  qed
  ultimately show ?thesis using f sample_tables by (simp add: tasks_inv_def) (simp add: two_tasks_def)
qed

theorem tick_switches_processor_witness:
  "\<exists>c' s'. device_interrupt sample_environment sample_stubs 32 (sample_processor, sample_tasks) = Done (c', s') \<and>
     eip c' = 0x500000 \<and> s_current_task s' = Some 1"
proof -
  have "s_current_task sample_tasks = Some 0" "length (s_task_list sample_tasks) = 2"
    by (simp_all add: sample_tasks_def sample_trap_state_def sched_state.defs two_tasks_def)
  then show ?thesis
    using tick_switches_processor [OF sample_tasks_inv _ refl, of 0] second_processor_starts
    by (auto simp: start_processor_def)
qed

text \<open>The first task changes its \<open>eip\<close>, then the timer fires twice: it goes on where it was.\<close>

theorem kernel_implements_processors_witness:
  "\<exists>cs1 cs'. task_trace sample_environment sample_stubs (sample_processor, sample_tasks)
       [Computes sample_processor (sample_processor\<lparr>eip := 0x400002\<rparr>), Tick] cs1 \<and>
     fst cs1 = second_processor \<and> task_trace sample_environment sample_stubs cs1 [Tick] cs' \<and>
     fst cs' = sample_processor\<lparr>eip := 0x400002\<rparr>"
proof -
  let ?cs = "(sample_processor, sample_tasks)"
  let ?c = "sample_processor\<lparr>eip := 0x400002\<rparr>"
  let ?vp = "(\<lambda>j. sample_processor)(1 := second_processor)"
  let ?e = "sample_environment" and ?a = sample_stubs
  have f: "s_current_task sample_tasks = Some 0" "length (s_task_list sample_tasks) = 2"
    by (simp_all add: sample_tasks_def sample_trap_state_def sched_state.defs two_tasks_def)
  have "user_mode ?c" using sample_tasks_inv f(1) by (simp add: tasks_inv_def user_mode_def cpl_def)
  then have u: "user_mode ?c" "common_registers sample_processor ?c" by (simp_all add: common_registers_def)
  then have s1: "task_step ?e ?a ?cs (Computes sample_processor ?c) (?c, sample_tasks\<lparr>ram := ram sample_tasks\<rparr>)"
    by (rule task_step.user_runs) simp
  then have t1: "task_trace ?e ?a ?cs [Computes sample_processor ?c] (?c, sample_tasks\<lparr>ram := ram sample_tasks\<rparr>)"
    by (auto intro: task_trace.intros)
  obtain cs1 where k1: "task_step ?e ?a (?c, sample_tasks\<lparr>ram := ram sample_tasks\<rparr>) Tick cs1"
    using kernel_implements_processors [OF t1 sample_tasks_inv, of 0 2] f by auto
  have t2: "task_trace ?e ?a ?cs [Computes sample_processor ?c, Tick] cs1"
    using s1 k1 by (auto intro: task_trace.intros)
  note r2 = kernel_implements_processors [OF t2 sample_tasks_inv, of 0 2]
  obtain cs2 where k2: "task_step ?e ?a cs1 Tick cs2" using r2 f by auto
  have t3: "task_trace ?e ?a ?cs [Computes sample_processor ?c, Tick, Tick] cs2"
    using s1 k1 k2 by (auto intro: task_trace.intros)
  have "fst cs1 = second_processor" using r2 f by auto
  moreover have "fst cs2 = ?c" using kernel_implements_processors [OF t3 sample_tasks_inv, of 0 2] f by auto
  moreover have "task_trace ?e ?a cs1 [Tick] cs2" using k2 by (auto intro: task_trace.intros)
  ultimately show ?thesis using t2 by blast
qed

text \<open>The boot code in ring 0, before there are tasks.\<close>

definition boot_processor :: processor where
  "boot_processor = sample_processor\<lparr>gpr := (\<lambda>r. 0xC0300000), sreg := (\<lambda>r. if r = CS then 0x08 else 0x10)\<rparr>"

definition boot_trap_state :: trap_state where
  "boot_trap_state = sample_tasks\<lparr>s_task_list := [], s_current_task := None\<rparr>"

lemma sample_page:
  "\<exists>p1. mm_alloc_pages 1 1 sample_physical = Done (0xC0005000, p1) \<and> mm_inv p1 \<and>
     1 \<notin> used_pages p1 \<and> frames (pools p1 DMAPool) = 4 \<and> total_pages p1 = 6"
proof -
  obtain p' where t: "pool_try 1 1 (pools sample_physical DefaultPool) = Done (Some (0x5000, p'))"
    using sample_pool_try by blast
  define p1 where "p1 = set_pool DefaultPool p' sample_physical"
  have pa: "pool_alloc 1 1 DefaultPool sample_physical = Done (0x5000, p1)"
    unfolding p1_def using t by (rule pool_alloc_some)
  then have m1: "mm_alloc_pages 1 1 sample_physical = Done (0xC0005000, p1)"
    by (simp add: mm_alloc_pages_def physical_alloc_def log_if_zero_def kernel_physical_to_virtual_def KERNEL_VIRTUAL_BASE_def)
  have s: "frames (pools sample_physical DMAPool) = 4" "total_pages sample_physical = 6"
    by (simp_all add: sample_physical_def frames_def total_pages_def)
  have "1 \<notin> used_pages sample_physical"
    using mem_used_pages [of 1 sample_physical DMAPool] by (simp add: sample_physical_def frames_def)
  moreover have "marks sample_physical (block_pages 0x5000 1) p1"
    using pool_alloc_cases [OF sample_physical_inv _ _ _ pa] by (auto simp: allocates_def)
  ultimately have "1 \<notin> used_pages p1 \<and> frames (pools p1 DMAPool) = 4 \<and> total_pages p1 = 6"
    using s by (auto simp: marks_def block_pages_def page_of_def)
  moreover have "mm_inv p1" using mm_pages.palloc_block [OF sample_mm_inv _ m1] by simp
  ultimately show ?thesis using m1 by blast
qed

lemma second_page:
  assumes "mm_inv p1" and "1 \<notin> used_pages p1" and "frames (pools p1 DMAPool) = 4" and "total_pages p1 = 6"
  shows "\<exists>a p2. mm_alloc_pages 1 1 p1 = Done (a, p2) \<and> a \<noteq> 0"
proof -
  have inv: "phys_inv p1" "0 \<in> used_pages p1" using assms(1) by (simp_all add: mm_inv_def)
  obtain addr p2 where p: "pool_alloc 1 1 DefaultPool p1 = Done (addr, p2)"
    and r: "if \<forall>q \<le> DefaultPool. pool_full p1 q then addr = 0 \<and> p2 = p1 else allocates p1 1 addr p2"
    using pool_alloc_single [OF inv(1), of DefaultPool] unfolding single_result_def by blast
  have "DMAPool \<le> DefaultPool" by (simp add: less_eq_pool_id_def)
  moreover have "\<not> pool_full p1 DMAPool" using assms(2,3) by (auto simp: pool_full_def intro!: exI [of _ 1])
  ultimately have "allocates p1 1 addr p2" using r by (auto split: if_splits)
  then have "unat addr = 4096 * page_of addr" "page_of addr < 6" "page_of addr \<noteq> 0"
    using inv(2) assms(4) by (auto simp: allocates_def block_pages_def intro!: gr0I)
  then have "addr \<noteq> 0" "unat addr < 0x6000" by auto
  moreover from this have "unat (0xC0000000 + addr) = 0xC0000000 + unat addr" by (subst unat_u32_add) simp_all
  then have "0xC0000000 + addr \<noteq> 0" by auto
  ultimately show ?thesis using p
    by (simp add: mm_alloc_pages_def physical_alloc_def log_if_zero_def kernel_physical_to_virtual_def KERNEL_VIRTUAL_BASE_def
        add.commute)
qed

lemma sample_new_task:
  "\<exists>h' s'. new_task us entry (heap_start sample_physical, s) = Done (h', s') \<and>
     kernel_stack (last (s_task_list s')) = 0xC0006000"
proof -
  obtain p1 where m1: "mm_alloc_pages 1 1 sample_physical = Done (0xC0005000, p1)" and i1: "mm_inv p1"
    and u: "1 \<notin> used_pages p1" "frames (pools p1 DMAPool) = 4" "total_pages p1 = 6"
    using sample_page by blast
  obtain a p2 where a2: "mm_alloc_pages 1 1 p1 = Done (a, p2)" "a \<noteq> 0"
    using second_page [OF i1 u] by blast
  have h: "heap_inv mm_inv mm_used (heap_start p1) (\<lambda>_. {})" by (rule mm_pages.heap_start_inv [OF i1])
  have "mm_alloc_pages (word_of_nat (page_count 0)) 1 (pages (heap_start p1)) = Done (a, p2)"
    using a2(1) by (simp add: page_count_def group_params_def heap_start_def)
  from mm_pages.alloc_from_new_ok [OF h _ _ this] a2(2) obtain q h' where
    "alloc_from_new (\<lambda>n. mm_alloc_pages n 1) 0 (heap_start p1) = Done (q, h')" "q \<noteq> 0"
    by (auto simp: heap_start_def group_first_def heap_chunk_group_new_def)
  moreover have "find_chunk_group 8 = Some 0" by (simp add: find_chunk_group_def group_params_def)
  moreover have "group_first (heap_start p1) 0 = 0"
    by (simp add: heap_start_def group_first_def heap_chunk_group_new_def)
  ultimately have "operator_new (\<lambda>n. mm_alloc_pages n 1) 8 (heap_start p1) = Done (q, h')" "q \<noteq> 0"
    by (simp_all add: operator_new_def heap_alloc_def group_alloc_def)
  moreover have "(heap_start sample_physical)\<lparr>pages := p1\<rparr> = heap_start p1" "pages (heap_start sample_physical) = sample_physical"
    by (simp_all add: heap_start_def)
  ultimately show ?thesis using m1 by (simp add: new_task_def Let_def)
qed

theorem first_task_starts_witness:
  "\<exists>s' p s''. device_interrupt sample_environment sample_stubs 32 (boot_processor, s') = Done (p, s'') \<and>
     eip p = 0x500000 \<and> sreg p CS = 0x1B"
proof -
  have z: "(0x08 :: u16) AND 3 = 0" by simp
  have inv: "tasks_inv sample_environment sample_stubs vp (boot_processor, boot_trap_state)" for vp
    using sample_tasks_inv
    by (simp add: tasks_inv_def boot_processor_def boot_trap_state_def tables_ready_def timer_installed_def stacks_apart_def
        tasks_suspended_def)
  have b: "s_current_task boot_trap_state = None" "s_task_list boot_trap_state = []" by (simp_all add: boot_trap_state_def)
  obtain h' s' where n: "new_task 0x600000 0x500000 (heap_start sample_physical, boot_trap_state) = Done (h', s')"
    "kernel_stack (last (s_task_list s')) = 0xC0006000" using sample_new_task by blast
  have "running_stack (boot_processor, boot_trap_state) = 0xC0300008"
    by (simp add: running_stack_def frame_address_def cpl_def boot_processor_def z)
  then have "apart (kernel_stack (last (s_task_list s'))) (running_stack (boot_processor, boot_trap_state))"
    by (simp add: apart_def n(2))
  from first_task_starts [OF inv [of "\<lambda>j. boot_processor"] b n(1) this] show ?thesis
    unfolding start_processor_def by blast
qed

end
