(* ===== verification/Loader.thy ===== *)
theory Loader
  imports Stubs
begin

text \<open>
  The entry point \<^verbatim>\<open>src/loader.s\<close>: the Multiboot header, the page directory the kernel starts with, the code
  that enables paging and jumps to the kernel's half of the address space, and the loops that call the
  static constructors before \<^verbatim>\<open>kmain\<close> and the static destructors after it.
\<close>

subsection \<open>Data\<close>

definition MB_MODULEALIGN :: u32 where "MB_MODULEALIGN = 1"
definition MB_MEMINFO :: u32 where "MB_MEMINFO = 2"
definition MB_FLAGS :: u32 where "MB_FLAGS = MB_MODULEALIGN OR MB_MEMINFO"
definition MB_MAGIC :: u32 where "MB_MAGIC = 0x1BADB002"
definition MB_CHECKSUM :: u32 where "MB_CHECKSUM = - (MB_MAGIC + MB_FLAGS)"

definition MultiBootHeader :: "u32 list" where
  "MultiBootHeader = [MB_MAGIC, MB_FLAGS, MB_CHECKSUM]"

definition KERNEL_PAGE_NUMBER :: nat where
  "KERNEL_PAGE_NUMBER = unat (drop_bit 22 KERNEL_VIRTUAL_BASE)"

definition boot_page_directory :: "u32 list" where
  "boot_page_directory =
     0x83 # replicate (KERNEL_PAGE_NUMBER - 1) 0 @ 0x83 # replicate (1024 - KERNEL_PAGE_NUMBER - 1) 0"

definition STACKSIZE :: u32 where "STACKSIZE = 0x8000"

subsection \<open>Code\<close>

record loader_addresses =
  la_directory :: u32
  la_higher_half :: u32
  la_stack :: u32
  la_start_ctors :: u32
  la_end_ctors :: u32
  la_start_dtors :: u32
  la_end_dtors :: u32
  la_kmain :: u32

definition loader_paging :: "loader_addresses \<Rightarrow> instr list" where
  "loader_paging l =
     [Mov (Reg ECX) (Imm (la_directory l - KERNEL_VIRTUAL_BASE)), Mov (Ctl CR3) (Reg ECX),
      Mov (Reg ECX) (Ctl CR4), Or ECX 0x10, Mov (Ctl CR4) (Reg ECX),
      Mov (Reg ECX) (Ctl CR0), Or ECX 0x80000000, Mov (Ctl CR0) (Reg ECX),
      Mov (Reg ECX) (Imm (la_higher_half l)), JmpReg ECX]"

definition loader_stack :: "loader_addresses \<Rightarrow> instr list" where
  "loader_stack l = [Mov (Reg ESP) (Imm (la_stack l + STACKSIZE)), Push EAX, Push EBX]"

text \<open>The loop over a table of functions; it goes on while \<open>ebx\<close> is below the end, compared as unsigned.\<close>

partial_function (option) run_table ::
    "(('z) sched_state_scheme) environment \<Rightarrow> u32 \<Rightarrow> ('z) config \<Rightarrow> ('z) config outcome option" where
  "run_table env last_entry cs =
     (if gpr (fst cs) EBX < last_entry then
        (case exec_all env [CallMem EBX, Add EBX 4] cs of
           Done cs' \<Rightarrow> run_table env last_entry cs'
         | Fault e \<Rightarrow> Some (Fault e)
         | Diverges \<Rightarrow> Some Diverges)
      else Some (Done cs))"

definition call_table :: "(('z) sched_state_scheme) environment \<Rightarrow> u32 \<Rightarrow> u32 \<Rightarrow> ('z) config \<Rightarrow> ('z) config outcome" where
  "call_table env first_entry last_entry = (\<lambda>(c, s).
     outcome_of_loop (run_table env last_entry (c\<lparr>gpr := (gpr c)(EBX := first_entry)\<rparr>, s)))"

definition set_pagedir :: "loader_addresses \<Rightarrow> instr list" where
  "set_pagedir l = [Push EAX, Mov (Reg EAX) (Imm (la_directory l - KERNEL_VIRTUAL_BASE)), Mov (Ctl CR3) (Reg EAX), Pop EAX, Ret]"

text \<open>Up to the \<^verbatim>\<open>hlt\<close> after the destructors.\<close>

definition loader :: "(('z) sched_state_scheme) environment \<Rightarrow> loader_addresses \<Rightarrow> ('z) config \<Rightarrow> ('z) config outcome" where
  "loader env l cs =
     outcome_bind (exec_all env (loader_paging l @ loader_stack l) cs) (\<lambda>cs1.
     outcome_bind (call_table env (la_start_ctors l) (la_end_ctors l) cs1) (\<lambda>cs2.
     outcome_bind (exec_all env [Call (la_kmain l)] cs2) (\<lambda>cs3.
       call_table env (la_start_dtors l) (la_end_dtors l) cs3)))"

subsection \<open>Properties\<close>

lemma header_checksum: "sum_list MultiBootHeader = 0"
  by (simp add: MultiBootHeader_def MB_MAGIC_def MB_FLAGS_def MB_CHECKSUM_def MB_MODULEALIGN_def MB_MEMINFO_def)

lemma kernel_page_number: "KERNEL_PAGE_NUMBER = 768"
  by (simp add: KERNEL_PAGE_NUMBER_def KERNEL_VIRTUAL_BASE_def)

lemma boot_directory_entry:
  "i < 1024 \<Longrightarrow> boot_page_directory ! i = (if i = 0 \<or> i = 768 then 0x83 else 0)"
  by (auto simp: boot_page_directory_def kernel_page_number nth_Cons' nth_append)

definition directory_stored :: "machine \<Rightarrow> bool" where
  "directory_stored m \<longleftrightarrow> (\<forall>i < 1024. dir_entry m (word_of_nat i) = boot_page_directory ! i)"

lemma unat_drop_22: "unat (drop_bit 22 (va :: u32)) = unat va div 4194304"
  unfolding unsigned_drop_bit_eq by (simp add: drop_bit_eq_div take_bit_nat_eq_self)

text \<open>The table an address belongs to.\<close>

lemma table_number:
  fixes va :: u32
  shows "va < LARGE_PAGE_SIZE \<longleftrightarrow> drop_bit 22 va = 0"
    and "KERNEL_VIRTUAL_BASE \<le> va \<and> va < KERNEL_VIRTUAL_BASE + LARGE_PAGE_SIZE \<longleftrightarrow> drop_bit 22 va = 768"
    and "drop_bit 22 va = 0 \<Longrightarrow> take_bit 22 va = va"
    and "drop_bit 22 va = 768 \<Longrightarrow> take_bit 22 va = va - KERNEL_VIRTUAL_BASE"
proof -
  have d: "unat (drop_bit 22 va) = unat va div 4194304" by (rule unat_drop_22)
  have m: "unat (take_bit 22 va) = unat va mod 4194304"
    unfolding unsigned_take_bit_eq by (simp add: take_bit_eq_mod)
  have z: "drop_bit 22 va = 0 \<longleftrightarrow> unat va div 4194304 = 0" and k: "drop_bit 22 va = 768 \<longleftrightarrow> unat va div 4194304 = 768"
    using d by (simp_all add: word_unat_eq_iff)
  show "va < LARGE_PAGE_SIZE \<longleftrightarrow> drop_bit 22 va = 0"
    unfolding z by (simp add: LARGE_PAGE_SIZE_def word_less_nat_alt) linarith
  show "KERNEL_VIRTUAL_BASE \<le> va \<and> va < KERNEL_VIRTUAL_BASE + LARGE_PAGE_SIZE \<longleftrightarrow> drop_bit 22 va = 768"
    unfolding k by (simp add: LARGE_PAGE_SIZE_def KERNEL_VIRTUAL_BASE_def word_less_nat_alt word_le_nat_alt) linarith
  show "take_bit 22 va = va" if "drop_bit 22 va = 0"
    using that m unfolding z by (intro word_unat_eq_iff [THEN iffD2]) (simp add: div_eq_0_iff)
  show "take_bit 22 va = va - KERNEL_VIRTUAL_BASE" if "drop_bit 22 va = 768"
  proof (rule word_unat_eq_iff [THEN iffD2])
    have v: "unat va div 4194304 = 768" using that unfolding k .
    then have "KERNEL_VIRTUAL_BASE \<le> va" by (simp add: KERNEL_VIRTUAL_BASE_def word_le_nat_alt)
    then have "unat (va - KERNEL_VIRTUAL_BASE) = unat va - 3221225472"
      by (simp add: unat_sub) (simp add: KERNEL_VIRTUAL_BASE_def)
    moreover have "unat va mod 4194304 = unat va - 3221225472" using v by (simp add: minus_div_mult_eq_mod [symmetric])
    ultimately show "unat (take_bit 22 va) = unat (va - KERNEL_VIRTUAL_BASE)" using m by simp
  qed
qed

text \<open>C40: With the loader's page directory the processor maps the first 4 MiB both where they are and at the
  kernel's base, and nothing else; and the directory's own address translates to \<^verbatim>\<open>cr3\<close>, which is what
  \<^verbatim>\<open>mm::init\<close> relies on.\<close>

theorem boot_directory_maps:
  assumes "directory_stored m" and "cr3 m = la_directory l - KERNEL_VIRTUAL_BASE"
    and "KERNEL_VIRTUAL_BASE \<le> la_directory l \<and> la_directory l < KERNEL_VIRTUAL_BASE + LARGE_PAGE_SIZE"
  shows "mmu_walk m va =
      (if va < LARGE_PAGE_SIZE then Some va
       else if KERNEL_VIRTUAL_BASE \<le> va \<and> va < KERNEL_VIRTUAL_BASE + LARGE_PAGE_SIZE then Some (va - KERNEL_VIRTUAL_BASE)
       else None) \<and>
    virtual_to_physical m (la_directory l) = Done (cr3 m)"
proof
  have e: "dir_entry m (drop_bit 22 v) = (if drop_bit 22 v = 0 \<or> drop_bit 22 v = 768 then 0x83 else 0)" for v :: u32
  proof -
    have "unat v < 4194304 * 1024" by simp
    then have "unat (drop_bit 22 v) < 1024" unfolding unat_drop_22 by (simp only: less_mult_imp_div_less mult.commute)
    moreover from this have "dir_entry m (word_of_nat (unat (drop_bit 22 v))) = boot_page_directory ! unat (drop_bit 22 v)"
      using assms(1) by (simp only: directory_stored_def)
    ultimately have "dir_entry m (drop_bit 22 v) = (if unat (drop_bit 22 v) = 0 \<or> unat (drop_bit 22 v) = 768 then 0x83 else 0)"
      by (simp only: boot_directory_entry of_nat_unat ucast_id)
    then show ?thesis by (simp only: word_unat_eq_iff [of "drop_bit 22 v"]) simp
  qed
  have f: "pde_present 0x83 = 1" "pde_enable4m 0x83 = 1" "pde_page_frame_addr 0x83 = 0" "pde_present 0 = 0"
    by (simp_all add: pde_defs get_field_def)
  show "mmu_walk m va =
      (if va < LARGE_PAGE_SIZE then Some va
       else if KERNEL_VIRTUAL_BASE \<le> va \<and> va < KERNEL_VIRTUAL_BASE + LARGE_PAGE_SIZE then Some (va - KERNEL_VIRTUAL_BASE)
       else None)"
    unfolding table_number(1,2) mmu_walk_entries Let_def e using table_number(3,4) [of va] by (simp add: f)
  have "drop_bit 22 (la_directory l) = 768" using assms(3) table_number(2) by simp
  then show "virtual_to_physical m (la_directory l) = Done (cr3 m)"
    using e [of "la_directory l"] split_22 [of 0 "la_directory l"] table_number(4) [of "la_directory l"] assms(2)
    by (simp add: virtual_to_physical_def f Let_def)
qed

text \<open>The sequence of calls a table of functions stands for.\<close>

fun calls :: "(('z) sched_state_scheme) environment \<Rightarrow> u32 list \<Rightarrow> ('z) config \<Rightarrow> ('z) config outcome" where
  "calls env [] cs = Done cs"
| "calls env (f # fs) cs = outcome_bind (call_c env 0 f cs) (\<lambda>cs'. calls env fs cs')"

definition table_stored :: "u32 \<Rightarrow> u32 list \<Rightarrow> memory \<Rightarrow> bool" where
  "table_stored a fs m \<longleftrightarrow> (\<forall>i < length fs. read_u32 m (a + 4 * word_of_nat i) = fs ! i)"

lemma table_stored_same_bytes:
  assumes "table_stored a fs m" and "same_bytes a (4 * length fs) m m'" and "4 * length fs \<le> 4096"
  shows "table_stored a fs m'"
  unfolding table_stored_def
proof (intro allI impI)
  fix i assume i: "i < length fs"
  have "unat (word_of_nat i :: u32) = i" using i assms(3) by (intro unat_u32_of_nat) simp
  then have "unat (4 * word_of_nat i :: u32) = 4 * i" using i assms(3) by (subst unat_u32_mult) simp_all
  then show "read_u32 m' (a + 4 * word_of_nat i) = fs ! i"
    using same_bytes_read [OF assms(2), of "4 * word_of_nat i"] assms(1,3) i by (simp add: table_stored_def)
qed

definition with_ebx :: "u32 \<Rightarrow> ('z) config \<Rightarrow> ('z) config" where
  "with_ebx v = (\<lambda>(c, s). (c\<lparr>gpr := (gpr c)(EBX := v)\<rparr>, s))"

lemma with_ebx_with_ebx [simp]: "with_ebx v (with_ebx w cs) = with_ebx v cs"
  by (cases cs) (simp add: with_ebx_def)

text \<open>C functions preserve \<open>ebx\<close> and do not depend on it.\<close>

lemma call_c_ebx:
  "call_c env n f (with_ebx v cs) = outcome_bind (call_c env n f cs) (\<lambda>cs'. Done (with_ebx v cs'))"
proof (cases cs)
  case (Pair c s)
  then show ?thesis
    by (cases "c_function env f (read_u32 (ram s) (gpr c ESP)) s") (auto simp: with_ebx_def call_c_def gpr_eq_iff)
qed

lemma call_c_esp: "call_c env n f cs = Done cs' \<Longrightarrow> gpr (fst cs') ESP = gpr (fst cs) ESP"
  by (cases cs) (auto simp: call_c_def)

lemma run_table_calls:
  assumes "unat a + 4 * length fs < 2 ^ 32" and "gpr (fst cs) ESP = sp" and "k \<le> length fs"
    and keeps: "\<And>f arg s r s'. f \<in> set fs \<Longrightarrow> table_stored a fs (ram s) \<Longrightarrow> c_function env f arg s = Done (r, s') \<Longrightarrow>
      table_stored a fs (left_ram env 0 sp (ram s'))"
    and "table_stored a fs (ram (snd cs))"
  shows "run_table env (a + 4 * word_of_nat (length fs)) (with_ebx (a + 4 * word_of_nat k) cs) =
    Some (outcome_bind (calls env (drop k fs) cs) (\<lambda>cs'. Done (with_ebx (a + 4 * word_of_nat (length fs)) cs')))"
  using assms(2,3,5)
proof (induction "length fs - k" arbitrary: k cs)
  case 0
  then show ?case by (subst run_table.simps) (simp add: with_ebx_def split_beta)
next
  case (Suc d)
  then have k: "k < length fs" by simp
  let ?last = "a + 4 * word_of_nat (length fs) :: u32" and ?x = "a + 4 * word_of_nat k :: u32"
  have u: "unat (a + 4 * word_of_nat i :: u32) = unat a + 4 * i" if "i \<le> length fs" for i
  proof -
    have "unat (word_of_nat i :: u32) = i" using assms(1) that by (intro unat_u32_of_nat) simp
    then have "unat (4 * word_of_nat i :: u32) = 4 * i" using assms(1) that by (subst unat_u32_mult) simp_all
    then show ?thesis using assms(1) that by (subst unat_u32_add) simp_all
  qed
  have lt: "?x < ?last" unfolding word_less_nat_alt using u [of k] u [of "length fs"] k by simp
  have f: "read_u32 (ram (snd cs)) ?x = fs ! k" using Suc.prems(3) k by (simp add: table_stored_def)
  have dr: "drop k fs = fs ! k # drop (Suc k) fs" using k by (simp add: Cons_nth_drop_Suc)
  have step: "exec_all env [CallMem EBX, Add EBX 4] (with_ebx ?x cs) =
      outcome_bind (call_c env 0 (fs ! k) cs) (\<lambda>cs'. Done (with_ebx (a + 4 * word_of_nat (Suc k)) cs'))"
  proof -
    obtain c s where cs: "cs = (c, s)" by fastforce
    have "exec env (CallMem EBX) (with_ebx ?x cs) = call_c env 0 (fs ! k) (with_ebx ?x cs)"
      using f by (simp add: with_ebx_def cs)
    moreover have "exec env (Add EBX 4) (with_ebx ?x cs') = Done (with_ebx (a + 4 * word_of_nat (Suc k)) cs')" for cs'
      by (cases cs') (simp add: with_ebx_def algebra_simps)
    ultimately show ?thesis by (simp add: call_c_ebx outcome_bind_assoc)
  qed
  have ebx: "gpr (fst (with_ebx ?x cs)) EBX = ?x" by (simp add: with_ebx_def split_beta)
  have unfold: "run_table env ?last (with_ebx ?x cs) =
      (case exec_all env [CallMem EBX, Add EBX 4] (with_ebx ?x cs) of
         Done cs' \<Rightarrow> run_table env ?last cs' | Fault e \<Rightarrow> Some (Fault e) | Diverges \<Rightarrow> Some Diverges)"
    by (subst run_table.simps) (simp only: ebx lt if_True)
  show ?case
  proof (cases "call_c env 0 (fs ! k) cs")
    case (Done cs')
    obtain c s where cs: "cs = (c, s)" by fastforce
    have "table_stored a fs (ram (snd cs'))"
      using Done keeps [of "fs ! k" s] Suc.prems(1,3) k by (auto simp: cs call_c_def)
    moreover have "gpr (fst cs') ESP = sp" using call_c_esp [OF Done] Suc.prems(1) by simp
    ultimately have "run_table env ?last (with_ebx (a + 4 * word_of_nat (Suc k)) cs') =
        Some (outcome_bind (calls env (drop (Suc k) fs) cs') (\<lambda>cs'. Done (with_ebx ?last cs')))"
      using Suc.hyps(2) k by (intro Suc.hyps(1)) simp_all
    then show ?thesis unfolding unfold step Done dr by (simp add: Done)
  qed (unfold unfold step dr, simp_all)
qed

text \<open>The constructors are called one after the other in the order of their table, and the loop over the table
  ends whenever they return, unless the table reaches the end of the address space.\<close>

theorem constructors_run_in_order:
  assumes "unat a + 4 * length fs < 2 ^ 32" and "table_stored a fs (ram s)"
    and "\<And>f arg s r s'. f \<in> set fs \<Longrightarrow> table_stored a fs (ram s) \<Longrightarrow> c_function env f arg s = Done (r, s') \<Longrightarrow>
      table_stored a fs (left_ram env 0 (gpr c ESP) (ram s'))"
  shows "call_table env a (a + 4 * word_of_nat (length fs)) (c, s) =
    outcome_bind (calls env fs (c, s)) (\<lambda>cs'. Done (with_ebx (a + 4 * word_of_nat (length fs)) cs'))"
proof -
  have "run_table env (a + 4 * word_of_nat (length fs)) (with_ebx (a + 4 * word_of_nat 0) (c, s)) =
    Some (outcome_bind (calls env (drop 0 fs) (c, s)) (\<lambda>cs'. Done (with_ebx (a + 4 * word_of_nat (length fs)) cs')))"
    by (rule run_table_calls [OF assms(1) _ _ assms(3)]) (simp_all add: assms(2))
  then show ?thesis by (simp add: call_table_def with_ebx_def)
qed

text \<open>The whole entry: paging is on before the constructors run, and \<^verbatim>\<open>kmain\<close> is called with the pointer to the
  boot information, which the boot loader left in \<open>ebx\<close>.\<close>

lemma loader_prologue:
  "exec_all env (loader_paging l @ loader_stack l) (c, s) =
    Done (c\<lparr>creg := (creg c)(CR3 := la_directory l - KERNEL_VIRTUAL_BASE, CR4 := creg c CR4 OR 0x10,
          CR0 := creg c CR0 OR 0x80000000),
        gpr := (gpr c)(ECX := la_higher_half l, ESP := la_stack l + 0x7FF8), eip := la_higher_half l\<rparr>,
      s\<lparr>ram := write_u32 (la_stack l + 0x7FF8) (gpr c EBX) (write_u32 (la_stack l + 0x7FFC) (gpr c EAX) (ram s))\<rparr>)"
  by (simp add: loader_paging_def loader_stack_def push32_def STACKSIZE_def gpr_eq_iff fun_eq_iff Let_def add.commute [of _ "la_stack l"])

definition sample_loader :: loader_addresses where
  "sample_loader = \<lparr>la_directory = 0xC0101000, la_higher_half = 0xC0100030, la_stack = 0xC0110000,
     la_start_ctors = 0xC0109000, la_end_ctors = 0xC0109008, la_start_dtors = 0xC0109008, la_end_dtors = 0xC0109008,
     la_kmain = 0xC0100400\<rparr>"

definition loaded_machine :: machine where
  "loaded_machine = \<lparr>cr3 = 0x101000, mem = (\<lambda>a. if a = 0x101000 \<or> a = 0x101C00 then 0x83 else 0), flushed = []\<rparr>"

theorem boot_directory_maps_witness:
  "mmu_walk loaded_machine 0xC0123456 = Some 0x123456 \<and> mmu_walk loaded_machine 0x123456 = Some 0x123456 \<and>
    mmu_walk loaded_machine 0x80000000 = None"
proof -
  have "directory_stored loaded_machine"
    unfolding directory_stored_def
  proof (intro allI impI)
    fix i :: nat assume i: "i < 1024"
    have "pt_entry_addr 0x101000 (word_of_nat i) = 0x101000 + 4 * (word_of_nat i :: u32)"
    proof -
      have "(0x101000 :: u32) OR push_bit 2 (word_of_nat i) = 0x101000 + push_bit 2 (word_of_nat i)"
      proof (rule disjunctive_add [symmetric])
        fix n
        have "bit (push_bit 2 (word_of_nat i) :: u32) n \<Longrightarrow> n < 12"
          using bit_index [OF small_index [OF i], of "n - 2"] by (auto simp: bit_simps)
        moreover have "bit (0x101000 :: u32) n \<Longrightarrow> 12 \<le> n"
        proof -
          assume "bit (0x101000 :: u32) n"
          moreover have "(0x101000 :: u32) = push_bit 12 0x101" by simp
          ultimately have "bit (push_bit 12 0x101 :: u32) n" by (simp only:)
          then show "12 \<le> n" by (simp only: bit_push_bit_iff)
        qed
        ultimately show "\<not> bit (0x101000 :: u32) n \<or> \<not> bit (push_bit 2 (word_of_nat i) :: u32) n" by auto
      qed
      then show ?thesis by (simp add: pt_entry_addr_def times_4)
    qed
    then have e: "dir_entry loaded_machine (word_of_nat i) =
        (if (4 * word_of_nat i :: u32) = 0 \<or> (4 * word_of_nat i :: u32) = 0xC00 then 0x83 else 0)"
      by (simp add: dir_entry_def loaded_machine_def)
    have "unat (word_of_nat i :: u32) = i" using i by (intro unat_u32_of_nat) simp
    then have "unat (4 * word_of_nat i :: u32) = 4 * i" using i by (subst unat_u32_mult) simp_all
    then have "(4 * word_of_nat i :: u32) = 0 \<longleftrightarrow> i = 0" "(4 * word_of_nat i :: u32) = 0xC00 \<longleftrightarrow> i = 768"
      by (auto simp: word_unat_eq_iff)
    then show "dir_entry loaded_machine (word_of_nat i) = boot_page_directory ! i"
      using i e by (simp add: boot_directory_entry)
  qed
  then show ?thesis
    using boot_directory_maps [of loaded_machine sample_loader]
    by (simp add: loaded_machine_def sample_loader_def KERNEL_VIRTUAL_BASE_def LARGE_PAGE_SIZE_def)
qed

text \<open>Two constructors that only log.\<close>

definition logging_environment :: "sched_state environment" where
  "logging_environment = \<lparr>c_function = (\<lambda>f r s. Done (0, s\<lparr>irq_log := irq_log s @ [Debug ''constructor %x'' [f]]\<rparr>)),
     left_ecx = 0, left_edx = 0, left_eflags = 0, left_stack = (\<lambda>a. 0), stack_use = 0x100,
     port_in = (\<lambda>p s. (0, s)), clears_upper = True, gdt_at = (\<lambda>p. []), idt_at = (\<lambda>p. [])\<rparr>"

theorem constructors_run_in_order_witness:
  "\<exists>c' s'. call_table logging_environment 0xC0109000 0xC0109008
      (sample_processor, two_tasks\<lparr>ram := write_u32 0xC0109000 0xC0100500 (write_u32 0xC0109004 0xC0100600 (\<lambda>a. 0))\<rparr>) = Done (c', s') \<and>
    irq_log s' = [Debug ''constructor %x'' [0xC0100500], Debug ''constructor %x'' [0xC0100600]]"
proof -
  let ?m = "write_u32 0xC0109000 0xC0100500 (write_u32 0xC0109004 0xC0100600 (\<lambda>a. 0))"
  let ?fs = "[0xC0100500, 0xC0100600] :: u32 list"
  have "table_stored 0xC0109000 ?fs ?m"
    by (auto simp: table_stored_def less_Suc_eq read_write_u32 read_write_u32_other)
  moreover have "same_bytes 0xC0109000 8 m (left_ram logging_environment 0 (gpr sample_processor ESP) m)" for m
  proof -
    have "\<not> unat (x - 0x400E00) < 0x100" if "unat (x - 0xC0109000) < 8" for x :: u32
    proof -
      have "x - 0x400E00 = (x - 0xC0109000) + 0xBFD08200" by simp
      moreover have "unat ((x - 0xC0109000) + 0xBFD08200) = unat (x - 0xC0109000) + 0xBFD08200"
        using that by (subst unat_u32_add) simp_all
      ultimately have "unat (x - 0x400E00) = unat (x - 0xC0109000) + 0xBFD08200" by (simp only:)
      then show ?thesis by simp
    qed
    then show ?thesis by (simp add: same_bytes_def left_ram_def logging_environment_def sample_processor_def)
  qed
  ultimately have "call_table logging_environment 0xC0109000 (0xC0109000 + 4 * word_of_nat (length ?fs)) (sample_processor, two_tasks\<lparr>ram := ?m\<rparr>) =
    outcome_bind (calls logging_environment ?fs (sample_processor, two_tasks\<lparr>ram := ?m\<rparr>))
      (\<lambda>cs'. Done (with_ebx (0xC0109000 + 4 * word_of_nat (length ?fs)) cs'))"
    by (intro constructors_run_in_order)
      (auto simp: logging_environment_def intro: table_stored_same_bytes)
  then show ?thesis
    by (simp add: call_c_def logging_environment_def with_ebx_def two_tasks_def)
qed

end
