(* ===== verification/Terminal.thy ===== *)
theory Terminal
  imports Log
begin

text \<open>
  What the user sees: a specification of the console as a terminal whose only state is the text
  printed so far, and the refinement of \<^verbatim>\<open>console.cpp\<close> to it. The text is laid out in rows of 80
  columns; the screen shows the last 25 of them.
\<close>

subsection \<open>The terminal\<close>

text \<open>The finished rows and the row of the cursor.\<close>

type_synonym rows = "char list list \<times> char list"

definition type_char :: "char \<Rightarrow> rows \<Rightarrow> rows" where
  "type_char c = (\<lambda>(above, row).
     if c = CHR ''\<newline>'' then (above @ [row], [])
     else if Suc (length row) = SCREEN_WIDTH then (above @ [row @ [c]], [])
     else (above, row @ [c]))"

definition layout :: "string \<Rightarrow> rows" where
  "layout str = fold type_char str ([], [])"

definition cell_of :: "char option \<Rightarrow> VIDEO_CHAR" where
  "cell_of x = \<lparr>vc_ch = (case x of None \<Rightarrow> CHR '' '' | Some c \<Rightarrow> c), vc_color = 0x07\<rparr>"

definition char_in :: "rows \<Rightarrow> nat \<Rightarrow> nat \<Rightarrow> char option" where
  "char_in t r c = (let ls = fst t @ [snd t] in
     if r < length ls \<and> c < length (ls ! r) then Some (ls ! r ! c) else None)"

text \<open>The buffer has 2500 rows; a text fits when the cursor is still in one of them after it.\<close>

definition text_fits :: "string \<Rightarrow> bool" where
  "text_fits str \<longleftrightarrow> length (fst (layout str)) < 2500"

definition shows_text :: "string \<Rightarrow> CONSOLE \<Rightarrow> bool" where
  "shows_text str s \<longleftrightarrow> console_inv s \<and> unat (cursor_row s) = length (fst (layout str)) \<and>
     unat (cursor_column s) = length (snd (layout str)) \<and>
     (\<forall>r c. r < 2500 \<longrightarrow> c < SCREEN_WIDTH \<longrightarrow> buffer s (SCREEN_WIDTH * r + c) = cell_of (char_in (layout str) r c))"

text \<open>The video memory shows the last rows.\<close>

definition on_screen :: "string \<Rightarrow> CONSOLE \<Rightarrow> bool" where
  "on_screen str s \<longleftrightarrow> (\<forall>r c. r < SCREEN_HEIGHT \<longrightarrow> c < SCREEN_WIDTH \<longrightarrow>
     video_ram s (SCREEN_WIDTH * r + c) = cell_of (char_in (layout str) (length (fst (layout str)) - 24 + r) c))"

lemma layout_snoc: "layout (str @ [c]) = type_char c (layout str)"
  by (simp add: layout_def)

lemma layout_append: "layout (str @ us) = fold type_char us (layout str)"
  by (simp add: layout_def)

lemma type_char_grows: "length (fst t) \<le> length (fst (type_char c t))"
  by (simp add: type_char_def split: prod.split)

lemma fold_type_grows: "length (fst t) \<le> length (fst (fold type_char us t))"
proof (induction us arbitrary: t)
  case (Cons c us)
  show ?case using type_char_grows [of t c] Cons.IH [of "type_char c t"] by simp
qed simp

lemma text_fits_prefix: "text_fits (str @ us) \<Longrightarrow> text_fits str"
  using fold_type_grows [of "layout str" us] by (simp add: text_fits_def layout_append)

lemma rows_bound: "length (fst (layout str)) \<le> length str"
proof (induction str rule: rev_induct)
  case (snoc c str)
  then show ?case by (auto simp: layout_snoc type_char_def split: prod.split)
qed (simp add: layout_def)

lemma short_text_fits: "length str < 2500 \<Longrightarrow> text_fits str"
  using rows_bound [of str] by (simp add: text_fits_def)

lemma row_short: "length (snd (layout str)) < SCREEN_WIDTH"
proof (induction str rule: rev_induct)
  case (snoc c str)
  then show ?case by (auto simp: layout_snoc type_char_def SCREEN_WIDTH_def split: prod.split)
qed (simp add: layout_def SCREEN_WIDTH_def)

text \<open>Typing a character changes the cell of the cursor and no other.\<close>

lemma char_in_type:
  assumes "length (snd t) < SCREEN_WIDTH"
  shows "char_in (type_char ch t) r c =
     (if ch \<noteq> CHR ''\<newline>'' \<and> r = length (fst t) \<and> c = length (snd t) then Some ch else char_in t r c)"
  using assms
  by (cases t) (auto simp: char_in_def type_char_def nth_append Let_def less_Suc_eq)

lemma cell_position_unique:
  "c < SCREEN_WIDTH \<Longrightarrow> d < SCREEN_WIDTH \<Longrightarrow> SCREEN_WIDTH * r + c = SCREEN_WIDTH * q + d \<longleftrightarrow> r = q \<and> c = d"
proof
  assume a: "c < SCREEN_WIDTH" "d < SCREEN_WIDTH" "SCREEN_WIDTH * r + c = SCREEN_WIDTH * q + d"
  have "(SCREEN_WIDTH * r + c) div SCREEN_WIDTH = r" using a(1) by simp
  moreover have "(SCREEN_WIDTH * q + d) div SCREEN_WIDTH = q" using a(2) by simp
  ultimately have "r = q" using a(3) by simp
  then show "r = q \<and> c = d" using a(3) by simp
qed simp

subsection \<open>The console implements it\<close>

lemma CONSOLE_init_shows: "shows_text [] (CONSOLE_init vram)"
proof -
  have "char_in ([], []) r c = None" for r c by (auto simp: char_in_def Let_def)
  then show ?thesis
    by (simp add: shows_text_def layout_def console_inv_init) (simp add: CONSOLE_init_def cell_of_def)
qed

lemma advance_cursor_pos:
  assumes "buffer_width s = 80" and "unat (cursor_column s) < 80" and "unat (cursor_row s) < 2500"
  shows "unat (cursor_row (advance_cursor s)) =
       (if Suc (unat (cursor_column s)) = 80 then Suc (unat (cursor_row s)) else unat (cursor_row s))"
    and "unat (cursor_column (advance_cursor s)) =
       (if Suc (unat (cursor_column s)) = 80 then 0 else Suc (unat (cursor_column s)))"
proof -
  have c: "unat (cursor_column s + 1) = Suc (unat (cursor_column s))"
    using assms(2) by (subst unat_u32_add) simp_all
  have r: "unat (cursor_row s + 1) = Suc (unat (cursor_row s))"
    using assms(3) by (subst unat_u32_add) simp_all
  have le: "80 \<le> cursor_column s + 1 \<longleftrightarrow> Suc (unat (cursor_column s)) = 80"
    using assms(2) c by (simp add: word_le_nat_alt) linarith
  show "unat (cursor_row (advance_cursor s)) =
       (if Suc (unat (cursor_column s)) = 80 then Suc (unat (cursor_row s)) else unat (cursor_row s))"
    and "unat (cursor_column (advance_cursor s)) =
       (if Suc (unat (cursor_column s)) = 80 then 0 else Suc (unat (cursor_column s)))"
    using c r le assms(1) by (simp_all add: advance_cursor_def Let_def)
qed

lemma scroll_window_cells [simp]:
  "cursor_row (scroll_window s) = cursor_row s" "cursor_column (scroll_window s) = cursor_column s"
  "buffer (scroll_window s) = buffer s" "visible (scroll_window s) = visible s"
  by (simp_all add: scroll_window_def)

lemma advance_cursor_buffer [simp]: "buffer (advance_cursor s) = buffer s"
  by (simp add: advance_cursor_def Let_def)

lemma write_char_shows:
  assumes "shows_text str s" and "text_fits str"
  shows "\<exists>s'. write_char_to_console ch s = Done s' \<and> shows_text (str @ [ch]) s'"
proof -
  let ?t = "layout str"
  have inv: "console_inv s" and row: "unat (cursor_row s) = length (fst ?t)" "unat (cursor_row s) < 2500"
    and col: "unat (cursor_column s) = length (snd ?t)" "unat (cursor_column s) < SCREEN_WIDTH"
    and buf: "\<And>r c. r < 2500 \<Longrightarrow> c < SCREEN_WIDTH \<Longrightarrow> buffer s (SCREEN_WIDTH * r + c) = cell_of (char_in ?t r c)"
    using assms row_short [of str] by (auto simp: shows_text_def text_fits_def)
  have in_type: "char_in (layout (str @ [ch])) r c =
      (if ch \<noteq> CHR ''\<newline>'' \<and> r = unat (cursor_row s) \<and> c = unat (cursor_column s) then Some ch else char_in ?t r c)" for r c
    unfolding layout_snoc row(1) col(1) by (rule char_in_type [OF row_short])
  show ?thesis
  proof (cases "ch = CHR ''\<newline>''")
    case True
    let ?s = "scroll_window (s\<lparr>cursor_column := 0, cursor_row := cursor_row s + 1\<rparr>)"
    have w: "write_char_to_console ch s = Done ?s" using True by (simp add: write_char_to_console_def)
    have "unat (cursor_row s + 1) = Suc (unat (cursor_row s))" using row(2) by (subst unat_u32_add) simp_all
    then have "shows_text (str @ [ch]) ?s"
      using True write_char_inv [OF inv w] row col buf in_type
      by (simp add: shows_text_def layout_snoc type_char_def split: prod.splits)
    then show ?thesis using w by blast
  next
    case False
    let ?d = "SCREEN_WIDTH * unat (cursor_row s) + unat (cursor_column s)"
    let ?b = "s\<lparr>buffer := (buffer s)(?d := \<lparr>vc_ch = ch, vc_color = 0x07\<rparr>)\<rparr>"
    have d: "unat (buffer_width s * cursor_row s + cursor_column s) = ?d"
      using cell_index [OF inv] row(2) by (simp add: SCREEN_WIDTH_def)
    have bound: "?d < buffer_cells" using row(2) col(2) by (simp add: SCREEN_WIDTH_def buffer_cells_def)
    have w: "write_char_to_console ch s = Done (scroll_window (advance_cursor ?b))"
      using False bound by (simp add: write_char_to_console_def put_cell_def d)
    have a: "buffer_width ?b = 80" "unat (cursor_column ?b) < 80" "unat (cursor_row ?b) < 2500"
      using inv col(2) row(2) by (simp_all add: console_inv_def SCREEN_WIDTH_def)
    have "shows_text (str @ [ch]) (scroll_window (advance_cursor ?b))"
      unfolding shows_text_def
    proof (intro conjI allI impI)
      show "console_inv (scroll_window (advance_cursor ?b))" by (rule write_char_inv [OF inv w])
      show "unat (cursor_row (scroll_window (advance_cursor ?b))) = length (fst (layout (str @ [ch])))"
        using False row(1) col(1) advance_cursor_pos(1) [OF a]
        by (simp add: layout_snoc type_char_def SCREEN_WIDTH_def split: prod.splits)
      show "unat (cursor_column (scroll_window (advance_cursor ?b))) = length (snd (layout (str @ [ch])))"
        using False row(1) col(1) advance_cursor_pos(2) [OF a]
        by (simp add: layout_snoc type_char_def SCREEN_WIDTH_def split: prod.splits)
      fix r c :: nat
      assume "r < 2500" "c < SCREEN_WIDTH"
      then show "buffer (scroll_window (advance_cursor ?b)) (SCREEN_WIDTH * r + c) = cell_of (char_in (layout (str @ [ch])) r c)"
        using False buf col(2) by (simp add: in_type cell_position_unique) (simp add: cell_of_def)
    qed
    then show ?thesis using w by blast
  qed
qed

lemma out_all_shows:
  assumes "shows_text str s" and "text_fits (str @ us)"
  shows "\<exists>s'. out_all write_char_to_console us s = Done s' \<and> shows_text (str @ us) s'"
  using assms
proof (induction us arbitrary: str s)
  case (Cons ch us)
  obtain s1 where s1: "write_char_to_console ch s = Done s1" "shows_text (str @ [ch]) s1"
    using write_char_shows [OF Cons.prems(1)] text_fits_prefix [OF Cons.prems(2)] by blast
  then show ?case using Cons.IH [OF s1(2)] Cons.prems(2) by simp
qed simp

lemma refresh_shows:
  assumes "shows_text str s" and "text_fits str"
  shows "shows_text str (refresh s)" and "visible s \<noteq> 0 \<Longrightarrow> on_screen str (refresh s)"
proof -
  show "shows_text str (refresh s)" using assms(1) refresh_inv by (simp add: shows_text_def)
  assume v: "visible s \<noteq> 0"
  let ?n = "length (fst (layout str))"
  have inv: "console_inv s" and row: "unat (cursor_row s) = ?n"
    and buf: "\<And>r c. r < 2500 \<Longrightarrow> c < SCREEN_WIDTH \<Longrightarrow> buffer s (SCREEN_WIDTH * r + c) = cell_of (char_in (layout str) r c)"
    using assms(1) by (auto simp: shows_text_def)
  have n: "?n < 2500" using assms(2) by (simp add: text_fits_def)
  have win: "buffer_width s = 80" "window_ok (cursor_row s) (top_row s)"
    using inv by (simp_all add: console_inv_window)
  then have tp: "unat (top_row s) = ?n - 24" using row by (auto simp: window_ok_nat)
  then have "unat (top_row s * buffer_width s) = SCREEN_WIDTH * (?n - 24)"
    using n by (simp add: win(1) SCREEN_WIDTH_def unat_u32_mult)
  moreover have "buffer s (SCREEN_WIDTH * (?n - 24) + (SCREEN_WIDTH * r + c)) = cell_of (char_in (layout str) (?n - 24 + r) c)"
    if "r < SCREEN_HEIGHT" "c < SCREEN_WIDTH" for r c
  proof (cases "?n - 24 + r < 2500")
    case True
    from buf [OF True that(2)] show ?thesis by (simp only: distrib_left add.assoc)
  next
    case False
    then show ?thesis using that(1) n by (simp add: SCREEN_HEIGHT_def)
  qed
  moreover have "SCREEN_WIDTH * r + c < SCREEN_SIZE" if "r < SCREEN_HEIGHT" "c < SCREEN_WIDTH" for r c
    using that by (simp add: SCREEN_SIZE_def SCREEN_WIDTH_def SCREEN_HEIGHT_def)
  ultimately show "on_screen str (refresh s)"
    using v by (simp add: on_screen_def refresh_def video_display_def)
qed

subsection \<open>Printing\<close>

lemma out_all_visible: "out_all write_char_to_console us s = Done s' \<Longrightarrow> visible s' = visible s"
  by (induction us arbitrary: s) (auto dest: write_char_visible)

text \<open>What \<^verbatim>\<open>printf\<close> and \<^verbatim>\<open>printn\<close> do once the characters are known.\<close>

definition print_chars :: "string \<Rightarrow> CONSOLE \<Rightarrow> CONSOLE outcome" where
  "print_chars us s = outcome_bind (out_all write_char_to_console us s) (\<lambda>s'. Done (refresh s'))"

lemma console_printf_chars:
  "format_string_varg collect m fmt ap [] = Done us \<Longrightarrow> console_printf m fmt ap s = print_chars us s"
  using format_string_varg_emits [where snk = collect and out = write_char_to_console and acc = "[]" and acc' = us]
  by (fastforce simp: console_printf_def print_chars_def)

lemma printn_loop_out_all: "printn_loop n ch = out_all write_char_to_console (replicate n ch)"
proof (induction n)
  case (Suc n)
  show ?case by (rule ext) (simp add: Suc.IH)
qed (rule ext, simp)

lemma console_printn_chars: "console_printn ch count s = print_chars (replicate (unat count) ch) s"
  by (simp add: console_printn_def print_chars_def printn_loop_out_all)

text \<open>A visible console that shows a text, in the buffer and on the screen.\<close>

definition terminal_shows :: "string \<Rightarrow> CONSOLE \<Rightarrow> bool" where
  "terminal_shows str s \<longleftrightarrow> shows_text str s \<and> visible s \<noteq> 0 \<and> on_screen str s"

lemma print_chars_shows:
  assumes "shows_text str s" and "visible s \<noteq> 0" and "text_fits (str @ us)"
  shows "\<exists>s'. print_chars us s = Done s' \<and> terminal_shows (str @ us) s'"
proof -
  obtain s1 where s1: "out_all write_char_to_console us s = Done s1" "shows_text (str @ us) s1"
    using out_all_shows [OF assms(1,3)] by blast
  have v: "visible s1 \<noteq> 0" using out_all_visible [OF s1(1)] assms(2) by simp
  show ?thesis using refresh_shows [OF s1(2) assms(3)] v by (simp add: print_chars_def s1(1) terminal_shows_def)
qed

lemma out_all_bochs: "\<exists>ws'. out_all output_bochs_char us ws = Done ws'"
  by (induction us arbitrary: ws) (simp_all add: output_bochs_char_def)

text \<open>A format without percent signs stands for itself.\<close>

lemma plain_prefix:
  "CHR 0x25 \<notin> set us \<Longrightarrow> format_string_varg collect m (us @ fmt) ap acc = format_string_varg collect m fmt ap (acc @ us)"
proof (induction us arbitrary: acc)
  case (Cons c us)
  then show ?case by (subst format_string_varg.simps) (auto simp: collect_apply [of c acc])
qed simp

lemma plain_text: "CHR 0x25 \<notin> set us \<Longrightarrow> format_string_varg collect m us ap acc = Done (acc @ us)"
  using plain_prefix [of us m "[]" ap acc] by (simp add: format_string_varg.simps)

lemma number_directive:
  "format_string_varg collect m (CHR 0x25 # CHR ''d'' # fmt) (n # ap) acc =
     format_string_varg collect m fmt ap (acc @ dec_digits (unat n))"
  by (subst format_string_varg.simps)
    (simp add: parse_spec_def skip_zero_def parse_width_def parse_long_def isdigit_def char_code_def
      format_directive_def va_arg_u32_def keep_args_def format_number_digits)

lemma char_directive:
  "format_string_varg collect m (CHR 0x25 # CHR ''c'' # fmt) (n # ap) acc =
     format_string_varg collect m fmt ap (acc @ [char_of (unat n)])"
  by (subst format_string_varg.simps)
    (simp add: parse_spec_def skip_zero_def parse_width_def parse_long_def isdigit_def char_code_def
      format_directive_def va_arg_u32_def keep_args_def collect_apply)

text \<open>The texts a log puts on the console and on the debug port.\<close>

fun log_text :: "memory \<Rightarrow> log \<Rightarrow> (string \<times> string) outcome" where
  "log_text m [] = Done ([], [])"
| "log_text m (Debug fmt args # ms) =
     outcome_bind (format_string_varg collect m fmt args []) (\<lambda>us.
     outcome_bind (log_text m ms) (\<lambda>(con, dbg). Done (con, us @ dbg)))"
| "log_text m (Print fmt args # ms) =
     outcome_bind (format_string_varg collect m fmt args []) (\<lambda>us.
     outcome_bind (log_text m ms) (\<lambda>(con, dbg). Done (us @ con, dbg)))"

lemma deliver_log:
  "log_text m ms = Done (us, ds) \<Longrightarrow> terminal_shows str s \<Longrightarrow> text_fits (str @ us) \<Longrightarrow>
     \<exists>ws' s'. deliver m ms (ws, s) = Done (ws', s') \<and> terminal_shows (str @ us) s' \<and>
       debug_text ws' = debug_text ws @ ds"
proof (induction m ms arbitrary: us ds str s ws rule: log_text.induct)
  case (2 m fmt args ms)
  obtain u v where t: "format_string_varg collect m fmt args [] = Done u" "log_text m ms = Done (us, v)" "ds = u @ v"
    using "2.prems"(1) by auto
  obtain ws1 where ws1: "debug_bochs_printf m fmt args ws = Done ws1" "debug_text ws1 = debug_text ws @ u"
    using bochs_sink.format_logs [OF t(1)] format_string_varg_emits [OF t(1), where out = output_bochs_char]
      out_all_bochs by (fastforce simp: debug_bochs_printf_def format_string_def)
  show ?case using "2.IH" [OF t(2) "2.prems"(2,3), of ws1] ws1 t(3) by auto
next
  case (3 m fmt args ms)
  obtain u v where t: "format_string_varg collect m fmt args [] = Done u" "log_text m ms = Done (v, ds)" "us = u @ v"
    using "3.prems"(1) by auto
  have f: "text_fits (str @ u)" "text_fits ((str @ u) @ v)"
    using "3.prems"(3) text_fits_prefix [of "str @ u" v] by (simp_all add: t(3))
  obtain s1 where s1: "console_printf m fmt args s = Done s1" "terminal_shows (str @ u) s1"
    using print_chars_shows [OF _ _ f(1)] "3.prems"(2) console_printf_chars [OF t(1)] by (auto simp: terminal_shows_def)
  then show ?case using "3.IH" [OF t(2) s1(2) f(2), of ws] t(3) by auto
qed auto

text \<open>C11: The console is a terminal: when a format renders to some characters, \<^verbatim>\<open>printf\<close> returns with a console
  that shows the text printed so far followed by them, in rows of 80 columns with the last 25 rows on the
  screen. The text must fit into the 2500 rows of the buffer.\<close>

theorem printf_extends_screen:
  assumes "shows_text str s" and "visible s \<noteq> 0" and "format_string_varg collect m fmt ap [] = Done us"
    and "text_fits (str @ us)"
  shows "\<exists>s'. console_printf m fmt ap s = Done s' \<and> terminal_shows (str @ us) s'"
  using print_chars_shows [OF assms(1,2,4)] console_printf_chars [OF assms(3)] by simp

theorem printf_extends_screen_witness:
  "\<exists>s'. console_printf (\<lambda>_. 0) [CHR ''A'', CHR ''\<newline>'', CHR ''B''] [] (CONSOLE_init (\<lambda>_. \<lparr>vc_ch = CHR 0x00, vc_color = 0\<rparr>)) = Done s' \<and>
     vc_ch (video_ram s' 0) = CHR ''A'' \<and> vc_ch (video_ram s' 80) = CHR ''B''"
proof -
  let ?us = "[CHR ''A'', CHR ''\<newline>'', CHR ''B'']"
  have l: "layout ?us = ([''A''], ''B'')" by (simp add: layout_def type_char_def SCREEN_WIDTH_def)
  have "format_string_varg collect (\<lambda>_. 0) ?us [] [] = Done ?us" by (simp add: format_string_varg.simps collect_def)
  from printf_extends_screen [OF CONSOLE_init_shows CONSOLE_init_visible this, of "\<lambda>_. \<lparr>vc_ch = CHR 0x00, vc_color = 0\<rparr>"]
  obtain s' where s': "console_printf (\<lambda>_. 0) ?us [] (CONSOLE_init (\<lambda>_. \<lparr>vc_ch = CHR 0x00, vc_color = 0\<rparr>)) = Done s'"
    "terminal_shows ?us s'" using l by (auto simp: text_fits_def)
  have "video_ram s' (SCREEN_WIDTH * r + c) = cell_of (char_in ([''A''], ''B'') r c)" if "r < 25" "c < 80" for r c
    using s'(2) l that by (simp add: terminal_shows_def on_screen_def SCREEN_HEIGHT_def SCREEN_WIDTH_def)
  from this [of 0 0] this [of 1 0] s'(1) show ?thesis
    by (simp add: SCREEN_WIDTH_def cell_of_def char_in_def)
qed

end
