(* ===== verification/Start_Screen.thy ===== *)
theory Start_Screen
  imports Kernel Terminal
begin

text \<open>
  What is on the screen when \<^verbatim>\<open>kmain\<close> enables interrupts: the banner, what \<^verbatim>\<open>parse_command_line\<close> says about
  the boot loader, the memory line of \<^verbatim>\<open>mm::init\<close> and the processor line of \<^verbatim>\<open>check_cpu\<close>. The other components
  of the start print to the debug port only.
\<close>

subsection \<open>The start with its console\<close>

fun is_print :: "message \<Rightarrow> bool" where
  "is_print (Print fmt args) = True"
| "is_print (Debug fmt args) = False"

definition print_log :: "memory \<Rightarrow> log \<Rightarrow> CONSOLE \<Rightarrow> CONSOLE outcome" where
  "print_log m ms con = outcome_bind (deliver m (filter is_print ms) ([], con)) (\<lambda>(ws, con'). Done con')"

text \<open>
  \<^verbatim>\<open>kmain\<close> up to \<^verbatim>\<open>interrupts_enable\<close>, with the console. The messages of the start sequence that go to the
  console are those of \<^verbatim>\<open>mm::init\<close>, at its beginning; \<open>cpuid\<close> and \<open>name_buffer\<close> are the parameters of
  \<open>check_cpu\<close>, whose text does not depend on what is started after it.
\<close>

definition kernel_start ::
    "kernel_addresses \<Rightarrow> (u32 \<Rightarrow> u32 \<times> u32 \<times> u32 \<times> u32) \<Rightarrow> u32 \<Rightarrow> memory \<Rightarrow> multiboot_info \<Rightarrow> kernel_state \<Rightarrow> CONSOLE \<Rightarrow>
     (kernel_state \<times> CONSOLE) outcome" where
  "kernel_start a cpuid name_buffer bm mbt s con =
     outcome_bind (sparta bm con) (\<lambda>con1.
     outcome_bind (print_log bm (parse_command_line mbt) con1) (\<lambda>con2.
     outcome_bind (kernel_init a bm mbt s) (\<lambda>k.
     outcome_bind (print_log bm (drop (length (hlog (snd (k_memory s)))) (hlog (snd (k_memory k)))) con2) (\<lambda>con3.
     case check_cpu cpuid name_buffer bm of (m, ms) \<Rightarrow>
     outcome_bind (print_log m ms con3) (\<lambda>con4. Done (k, con4))))))"

subsection \<open>The text\<close>

lemma string_directive:
  "cstring_at m p bs \<Longrightarrow> format_string_varg collect m (CHR 0x25 # CHR ''s'' # fmt) (p # ap) acc =
     format_string_varg collect m fmt ap (acc @ map (\<lambda>b. char_of (unat b)) bs)"
  by (subst format_string_varg.simps)
    (simp add: parse_spec_def skip_zero_def parse_width_def parse_long_def isdigit_def char_code_def
      format_directive_def va_arg_u32_def keep_args_def cstring_chars)

fun plain_banner :: "banner \<Rightarrow> bool" where
  "plain_banner (Txt str) \<longleftrightarrow> CHR 0x25 \<notin> set str"
| "plain_banner (Fill ch count) \<longleftrightarrow> True"

lemma show_banner_shows:
  "list_all plain_banner bs \<Longrightarrow> shows_text str con \<Longrightarrow> CONSOLE.visible con \<noteq> 0 \<Longrightarrow> bs \<noteq> [] \<or> on_screen str con \<Longrightarrow>
     text_fits (str @ concat (map banner_text bs)) \<Longrightarrow>
     \<exists>con'. show_banner m bs con = Done con' \<and> terminal_shows (str @ concat (map banner_text bs)) con'"
proof (induction bs arbitrary: str con)
  case Nil
  then show ?case by (simp add: terminal_shows_def)
next
  case (Cons b bs)
  have f: "text_fits (str @ banner_text b)" "text_fits ((str @ banner_text b) @ concat (map banner_text bs))"
    using Cons.prems(5) text_fits_prefix [of "str @ banner_text b" "concat (map banner_text bs)"] by simp_all
  obtain con1 where c: "print_chars (banner_text b) con = Done con1" "terminal_shows (str @ banner_text b) con1"
    using print_chars_shows [OF Cons.prems(2,3) f(1)] by blast
  have "show_banner m (b # bs) con = show_banner m bs con1"
    using Cons.prems(1) c(1) plain_text [where acc = "[]"]
    by (cases b) (simp_all add: console_printf_chars console_printn_chars)
  then show ?case using Cons.IH [OF _ _ _ _ f(2), of con1] Cons.prems(1) c(2) by (auto simp: terminal_shows_def)
qed

definition sparta_text :: string where
  "sparta_text = concat (map banner_text (concat sparta_banner))"

lemma sparta_plain: "list_all plain_banner (concat sparta_banner)"
  by (simp add: sparta_banner_def shade_def)

lemma print_log_shows:
  assumes "log_text m (filter is_print ms) = Done (us, ds)" and "terminal_shows str con" and "text_fits (str @ us)"
  shows "\<exists>con'. print_log m ms con = Done con' \<and> terminal_shows (str @ us) con'"
  using deliver_log [OF assms, of "[]"] by (auto simp: print_log_def)

lemma kernel_init_log:
  assumes "kernel_init a bm mbt s = Done k"
  shows "\<exists>x y z. hlog (snd (k_memory k)) = hlog (snd (k_memory s)) @ memory_messages mbt @ range_messages x y z"
proof -
  obtain idt ws where "irq_init (a_stub a) (isr_init (a_stub a) (k_idt s)) = (idt, ws)" by (rule prod.exhaust)
  then obtain mem where mem: "mm_init bm mbt (a_page_directory a) (k_memory s) = Done mem" "k_memory k = mem"
    using assms by (auto simp: kernel_init_def)
  have "\<exists>x y z. hlog (snd mem) = hlog (snd (k_memory s)) @ memory_messages mbt @ range_messages x y z"
    using mem(1) by (cases mem) (auto simp: mm_init_def heap_init_def Let_def; blast)
  then show ?thesis by (simp add: mem(2))
qed

lemma memory_messages_print: "filter is_print (memory_messages mbt @ range_messages x y z) = memory_messages mbt"
  by (simp add: memory_messages_def range_messages_def)

lemma parse_command_line_print: "filter is_print (parse_command_line mbt) = parse_command_line mbt"
  by (simp add: parse_command_line_def)

lemma check_cpu_print: "check_cpu cpuid name_buffer m = (m', ms) \<Longrightarrow> filter is_print ms = ms"
  by (auto simp: check_cpu_def Let_def split: prod.splits)

lemma start_shows:
  assumes "kernel_init a bm mbt s = Done k" and "shows_text [] con" and "CONSOLE.visible con \<noteq> 0"
    and "log_text bm (parse_command_line mbt) = Done (loader_lines, d1)"
    and "log_text bm (memory_messages mbt) = Done (memory_line, d2)"
    and "check_cpu cpuid name_buffer bm = (m, ms)" and "log_text m ms = Done (cpu_lines, d3)"
    and "text_fits (sparta_text @ loader_lines @ memory_line @ cpu_lines)"
  shows "\<exists>con'. kernel_start a cpuid name_buffer bm mbt s con = Done (k, con') \<and>
    terminal_shows (sparta_text @ loader_lines @ memory_line @ cpu_lines) con'"
proof -
  have f: "text_fits sparta_text" "text_fits (sparta_text @ loader_lines)"
    "text_fits ((sparta_text @ loader_lines) @ memory_line)"
    "text_fits (((sparta_text @ loader_lines) @ memory_line) @ cpu_lines)"
    using assms(8) text_fits_prefix [of sparta_text] text_fits_prefix [of "sparta_text @ loader_lines"]
      text_fits_prefix [of "sparta_text @ loader_lines @ memory_line"] by simp_all
  have "concat sparta_banner \<noteq> []" by (simp add: sparta_banner_def)
  then obtain con1 where 1: "sparta bm con = Done con1" "terminal_shows sparta_text con1"
    using show_banner_shows [OF sparta_plain assms(2,3), of bm] f(1) by (auto simp: sparta_def sparta_text_def)
  obtain con2 where 2: "print_log bm (parse_command_line mbt) con1 = Done con2" "terminal_shows (sparta_text @ loader_lines) con2"
    using print_log_shows [OF _ 1(2) f(2)] assms(4) parse_command_line_print by metis
  obtain x y z where l: "drop (length (hlog (snd (k_memory s)))) (hlog (snd (k_memory k))) =
      memory_messages mbt @ range_messages x y z"
    using kernel_init_log [OF assms(1)] by auto
  obtain con3 where 3: "print_log bm (memory_messages mbt @ range_messages x y z) con2 = Done con3"
    "terminal_shows ((sparta_text @ loader_lines) @ memory_line) con3"
    using print_log_shows [OF _ 2(2) f(3)] assms(5) memory_messages_print by metis
  obtain con4 where 4: "print_log m ms con3 = Done con4"
    "terminal_shows (((sparta_text @ loader_lines) @ memory_line) @ cpu_lines) con4"
    using print_log_shows [OF _ 3(2) f(4)] assms(7) check_cpu_print [OF assms(6)] by metis
  show ?thesis using 4(2) by (simp add: kernel_start_def 1(1) 2(1) assms(1,6) l 3(1) 4(1))
qed

text \<open>C7: When \<^verbatim>\<open>kmain\<close> enables interrupts the console shows the banner, the lines about the boot loader, the
  memory and the processor, and nothing else.\<close>

theorem start_screen:
  assumes "kernel_init a bm mbt s = Done k" and "shows_text [] con" and "CONSOLE.visible con \<noteq> 0"
    and "log_text bm (parse_command_line mbt) = Done (loader_lines, d1)"
    and "log_text bm (memory_messages mbt) = Done (memory_line, d2)"
    and "check_cpu cpuid name_buffer bm = (m, ms)" and "log_text m ms = Done (cpu_lines, d3)"
    and "text_fits (sparta_text @ loader_lines @ memory_line @ cpu_lines)"
  shows "\<exists>con'. kernel_start a cpuid name_buffer bm mbt s con = Done (k, con') \<and>
    terminal_shows (sparta_text @ loader_lines @ memory_line @ cpu_lines) con'"
  by (rule start_shows [OF assms])

subsection \<open>A machine that starts\<close>

definition intel_cpuid :: "u32 \<Rightarrow> u32 \<times> u32 \<times> u32 \<times> u32" where
  "intel_cpuid n = (if n = 0 then (2, 0x756E6547, 0x6C65746E, 0x49656E69) else (0x0673, 0, 0, 0))"

definition intel_name :: string where
  "intel_name = ''GenuineIntel''"

lemma intel_cpu_lines:
  assumes "check_cpu intel_cpuid 0x3000 boot_bytes = (m, ms)"
  shows "log_text m ms = Done (''CPU: '' @ intel_name @ '' Family 6 Model 7 Stepping 3'' @ [CHR ''\<newline>'', CHR ''\<newline>''], [])"
proof -
  let ?m = "write_u32 0x300C 0 (write_u32 0x3008 0x6C65746E (write_u32 0x3004 0x49656E69 (write_u32 0x3000 0x756E6547 boot_bytes)))"
  have ms: "m = ?m" "ms = [Print ''CPU: %s '' [0x3000],
      Print (''Family %d Model %d Stepping %d'' @ [CHR ''\<newline>'']) [6, 7, 3], Print [CHR ''\<newline>''] []]"
    using assms by (auto simp: check_cpu_def intel_cpuid_def)
  have c: "cstring_at ?m 0x3000 [0x47, 0x65, 0x6E, 0x75, 0x69, 0x6E, 0x65, 0x49, 0x6E, 0x74, 0x65, 0x6C]"
    by (simp add: write_u32_def char_at_def)
  have n: "map (\<lambda>b :: u8. char_of (unat b)) [0x47, 0x65, 0x6E, 0x75, 0x69, 0x6E, 0x65, 0x49, 0x6E, 0x74, 0x65, 0x6C] = intel_name"
    by (simp add: intel_name_def char_of_def bit_numeral_rec bit_0)
  have 1: "format_string_varg collect ?m (''CPU: '' @ CHR 0x25 # CHR ''s'' # '' '') [0x3000] [] = Done (''CPU: '' @ intel_name @ '' '')"
    by (subst plain_prefix, simp, subst string_directive [OF c], subst n, simp add: plain_text)
  have d: "dec_digits 6 = ''6''" "dec_digits 7 = ''7''" "dec_digits 3 = ''3''"
    by (simp_all add: dec_digits.simps digit_chars_def)
  have 2: "format_string_varg collect ?m (''Family '' @ CHR 0x25 # CHR ''d'' # '' Model '' @ CHR 0x25 # CHR ''d'' #
        '' Stepping '' @ CHR 0x25 # CHR ''d'' # [CHR ''\<newline>'']) [6, 7, 3] [] =
      Done (''Family 6 Model 7 Stepping 3'' @ [CHR ''\<newline>''])"
    by (subst plain_prefix, simp, subst number_directive, subst plain_prefix, simp, subst number_directive,
      subst plain_prefix, simp, subst number_directive, simp add: plain_text d)
  show ?thesis unfolding ms using 1 2 by (simp add: plain_text)
qed

lemma intel_lines_fit:
  "text_fits (sparta_text @ [] @ (''WARNING: MultiBoot header did not specify memory'' @ [CHR ''\<newline>'']) @
     ''CPU: '' @ intel_name @ '' Family 6 Model 7 Stepping 3'' @ [CHR ''\<newline>'', CHR ''\<newline>''])"
  by (rule short_text_fits) (simp add: sparta_text_def sparta_banner_def shade_def intel_name_def)

theorem start_screen_witness:
  "\<exists>k con'. kernel_start boot_addresses intel_cpuid 0x3000 boot_bytes boot_mbi boot_kernel
       (CONSOLE_init (\<lambda>_. \<lparr>vc_ch = CHR 0x00, vc_color = 0\<rparr>)) = Done (k, con') \<and>
     terminal_shows (sparta_text @ [] @ (''WARNING: MultiBoot header did not specify memory'' @ [CHR ''\<newline>'']) @
       ''CPU: '' @ intel_name @ '' Family 6 Model 7 Stepping 3'' @ [CHR ''\<newline>'', CHR ''\<newline>'']) con'"
proof -
  obtain k where k: "kernel_init boot_addresses boot_bytes boot_mbi boot_kernel = Done k"
    using kernel_init_ok [OF boot_kernel_facts] by blast
  obtain m ms where c: "check_cpu intel_cpuid 0x3000 boot_bytes = (m, ms)" by (rule prod.exhaust)
  have p: "log_text boot_bytes (parse_command_line boot_mbi) = Done ([], [])"
    by (simp add: parse_command_line_def boot_mbi_def multiboot_flag_defs)
  have w: "log_text boot_bytes (memory_messages boot_mbi) = Done (''WARNING: MultiBoot header did not specify memory'' @ [CHR ''\<newline>''], [])"
    by (simp add: memory_messages_def boot_mbi_def multiboot_flag_defs plain_text)
  from start_screen [OF k CONSOLE_init_shows CONSOLE_init_visible p w c intel_cpu_lines [OF c] intel_lines_fit] show ?thesis by blast
qed

end
