(* ===== verification/Boot_Devices.thy ===== *)
theory Boot_Devices
  imports Kernel
begin

text \<open>
  What the devices need from the memory \<^verbatim>\<open>mm::init\<close> leaves: with an unused 64 KiB block below 16 MiB the floppy
  probe of \<^verbatim>\<open>kmain\<close> gets its two objects and its cylinder buffer, and registers the drive.
\<close>

subsection \<open>A free aligned run is found\<close>

lemma align_index_le:
  "i \<le> j \<Longrightarrow> (j + prev) mod a = 0 \<Longrightarrow> align_index a prev i \<le> j"
proof (induction a prev i rule: align_index.induct)
  case (1 a prev i)
  show ?case
  proof (cases "(i + prev) mod a = 0")
    case True
    then show ?thesis using "1.prems"(1) by (subst align_index.simps) simp
  next
    case False
    then have "i < j" using "1.prems" by (metis order_le_less)
    then have "i + 1 \<le> j" by (simp add: inc_le)
    then show ?thesis using "1.IH" False "1.prems"(2) by (subst align_index.simps) simp
  qed
qed

lemma unat_take_bit_4: "unat (take_bit 4 (w :: u32)) = unat w mod 16"
  by (simp only: unsigned_take_bit_eq) (simp add: take_bit_eq_mod)

lemma unat_mod_16: "unat ((w :: u32) mod 16) = unat w mod 16"
proof -
  have "unat (16 :: u32) = 16" by simp
  then show ?thesis by (simp only: unat_mod)
qed

lemma unat_add_mod_16: "unat ((v :: u32) + w) mod 16 = (unat v + unat w) mod 16"
  by (simp add: unat_word_ariths mod_mod_cancel)

lemma align_index_16: "unat (align_index 16 prev 0) < 16"
proof -
  have "unat ((take_bit 4 (- prev) + prev) mod 16) = unat (- prev + prev) mod 16"
    unfolding unat_mod_16 unat_add_mod_16 unat_take_bit_4 by (simp only: mod_add_left_eq)
  then have "unat ((take_bit 4 (- prev) + prev) mod 16) = 0" by simp
  then have z: "(take_bit 4 (- prev) + prev) mod 16 = 0" by (simp only: unat_eq_0)
  have "align_index 16 prev 0 \<le> take_bit 4 (- prev)" by (rule align_index_le [OF _ z]) simp
  moreover have "unat (take_bit 4 (- prev)) < 16" unfolding unat_take_bit_4 by simp
  ultimately show ?thesis by (simp add: word_le_nat_alt)
qed

lemma prev_aligned:
  assumes "pool_wf p" and "frames p = 0x1000"
  shows "16 dvd unat (prev_idx p) + unat (align_index 16 (prev_idx p) 0)"
proof -
  have "unat ((align_index 16 (prev_idx p) 0 + prev_idx p) mod 16) = 0" by (simp only: align_index_aligned unsigned_0)
  then show ?thesis unfolding unat_mod_16 unat_add_mod_16 by (simp only: add.commute dvd_eq_mod_eq_0)
qed

lemma ring_offset:
  assumes "r < 0x200" and "t < (0x100 :: nat)"
  shows "(r + (t + 0x200 - r) mod 0x100) mod 0x100 = t"
proof -
  have "(r + (t + 0x200 - r) mod 0x100) mod 0x100 = (r + (t + 0x200 - r)) mod 0x100" by (rule mod_add_right_eq)
  also have "r + (t + 0x200 - r) = t + 0x200" using assms(1) by linarith
  also have "(t + 0x200) mod 0x100 = t"
    using mod_mult_self2 [of t "0x100" 2] assms(2) by simp
  finally show ?thesis .
qed

lemma aligned_candidate:
  assumes "pool_wf p" and "frames p = 0x1000" and "t < 0x100"
  obtains c where "candidate p 16 (unat (align_index 16 (prev_idx p) 0)) c"
    and "(unat (prev_idx p) + c) mod frames p = 16 * t"
proof -
  define i where "i = unat (align_index 16 (prev_idx p) 0)"
  define v where "v = unat (prev_idx p)"
  have v: "v < 0x1000" using assms(1,2) by (simp add: v_def pool_wf_def)
  have i: "i < 16" unfolding i_def by (rule align_index_16)
  obtain r where r: "v + i = 16 * r" using prev_aligned [OF assms(1,2)] by (auto simp: v_def i_def elim: dvdE)
  have "r < 0x200" using r i v by linarith
  define k where "k = (t + 0x200 - r) mod 0x100"
  have k: "k < 0x100" "(r + k) mod 0x100 = t" using ring_offset [OF \<open>r < 0x200\<close> assms(3)] by (simp_all add: k_def)
  have "candidate p 16 i (i + k * 16)"
    unfolding candidate_def assms(2) using i k(1) by (intro conjI exI [of _ k]) simp_all
  moreover have e: "v + (i + k * 16) = 16 * (r + k)" using r by simp
  have "(16 * (r + k)) mod (16 * 0x100) = 16 * t" unfolding mod_mult_mult1 k(2) ..
  then have "(v + (i + k * 16)) mod frames p = 16 * t" unfolding e assms(2) by simp
  ultimately show ?thesis using that by (simp add: v_def i_def)
qed

text \<open>The DMA pool of 16 MiB serves an aligned request of at most 16 pages when there is room in some aligned block.\<close>

lemma dma_pool_serves:
  assumes "phys_inv s" and "frames (pools s DMAPool) = 0x1000" and "t < 0x100" and "unat n \<le> 16"
    and "{16 * t ..< 16 * t + unat n} \<inter> used_pages s = {}"
  shows "\<exists>b q. pool_try n 16 (pools s DMAPool) = Done (Some (b, q))"
proof -
  let ?p = "pools s DMAPool"
  have wf: "pool_wf ?p" by (rule phys_inv_pool [OF assms(1)])
  have "bitmap ?p ! (16 * t + k) = 0" if "k < unat n" for k
  proof -
    have "16 * t + k \<in> {16 * t ..< 16 * t + unat n}" "16 * t + k < frames ?p" using that assms(2-4) by auto
    moreover have "first_page s DMAPool + (16 * t + k) = 16 * t + k" by simp
    ultimately show ?thesis using mem_used_pages [of "16 * t + k" s DMAPool] assms(5) by (metis disjoint_iff)
  qed
  moreover have "16 * t + k < 0x1000" if "k < unat n" for k using assms(3,4) that by linarith
  ultimately have free: "run_is_free ?p (16 * t) (unat n)" by (simp add: run_is_free_def assms(2))
  obtain c where c: "candidate ?p 16 (unat (align_index 16 (prev_idx ?p) 0)) c"
    "(unat (prev_idx ?p) + c) mod frames ?p = 16 * t"
    using aligned_candidate [OF wf assms(2,3)] by blast
  then have busy: "run_is_free ?p (unat (prev_idx ?p) + c) (unat n)" using free run_is_free_mod by metis
  have "scan_result ?p n 16 (unat (align_index 16 (prev_idx ?p) 0)) (pool_try n 16 ?p)"
    using pool_try_result [OF wf, of n 16] assms(4) by simp
  then obtain c' x where x: "candidate ?p 16 (unat (align_index 16 (prev_idx ?p) 0)) c'"
    "x = (unat (prev_idx ?p) + c') mod frames ?p"
    "if x + unat n \<le> frames ?p then pool_try n 16 ?p = Done (Some (address_of ?p (word_of_nat x), taken_pool ?p x n))
      else pool_try n 16 ?p = Fault OutOfBounds"
    unfolding scan_result_def using c(1) busy by blast
  obtain k where "c' = unat (align_index 16 (prev_idx ?p) 0) + k * 16" using x(1) by (auto simp: candidate_def)
  then have "16 dvd unat (prev_idx ?p) + c'" using prev_aligned [OF wf assms(2)] by (simp add: add.assoc [symmetric])
  then have "16 dvd x" unfolding x(2) assms(2) by (intro dvd_mod) simp_all
  moreover have "x < 0x1000" unfolding x(2) assms(2) by simp
  ultimately have "x + unat n \<le> frames ?p" using assms(2,4) by (auto elim!: dvdE)
  then show ?thesis using x(3) by auto
qed

subsection \<open>Pages for the devices\<close>

lemma default_page_serves:
  assumes "phys_inv s" and "i < frames (pools s DefaultPool)" and "first_page s DefaultPool + i \<notin> used_pages s"
    and "first_page s HiMemPool \<le> 0x30000" and "0 < first_page s DefaultPool"
  shows "\<exists>x a s'. x < frames (pools s DefaultPool) \<and> mm_alloc_pages 1 1 s = Done (a, s') \<and>
    (\<forall>d < 32. a + word_of_nat d \<noteq> 0) \<and>
    phys_inv s' \<and> pools s' DMAPool = pools s DMAPool \<and> frames (pools s' DefaultPool) = frames (pools s DefaultPool) \<and>
    used_pages s' = insert (first_page s DefaultPool + x) (used_pages s)"
proof -
  let ?p = "pools s DefaultPool"
  have wf: "pool_wf ?p" by (rule phys_inv_pool [OF assms(1)])
  have "bitmap ?p ! i = 0" using mem_used_pages [OF assms(2)] assms(3) by blast
  then obtain x where x: "x < frames ?p" "bitmap ?p ! x = 0"
    "pool_try 1 1 ?p = Done (Some (address_of ?p (word_of_nat x), taken_pool ?p x 1))"
    using pool_try_single [OF wf] assms(2) by blast
  let ?a = "address_of ?p (word_of_nat x)" and ?s = "set_pool DefaultPool (taken_pool ?p x 1) s"
  have a: "unat ?a = 4096 * (first_page s DefaultPool + x)" by (rule page_of_address [OF assms(1) x(1)])
  have small: "first_page s DefaultPool + x < 0x30000" using assms(4) x(1) by simp
  have "unat ?a \<noteq> 0" unfolding a using assms(5) by simp
  then have nz: "?a \<noteq> 0" by auto
  have v: "unat (kernel_physical_to_virtual ?a) = 4096 * (first_page s DefaultPool + x) + 0xC0000000"
    unfolding kernel_physical_to_virtual_def KERNEL_VIRTUAL_BASE_def using a small by (subst unat_u32_add) simp_all
  have nonzero: "kernel_physical_to_virtual ?a + word_of_nat d \<noteq> 0" if "d < 32" for d
  proof -
    have "unat (kernel_physical_to_virtual ?a + word_of_nat d) = 4096 * (first_page s DefaultPool + x) + 0xC0000000 + d"
      using v small that unat_u32_of_nat [of d] by (subst unat_u32_add) simp_all
    then show ?thesis by auto
  qed
  have "mm_alloc_pages 1 1 s = Done (kernel_physical_to_virtual ?a, ?s)"
    using nz by (simp add: mm_alloc_pages_def physical_alloc_def log_if_zero_def pool_alloc_some [OF x(3)])
  moreover have "marks s {first_page s DefaultPool + x ..< first_page s DefaultPool + x + 1} ?s"
    using take_pages(2) [OF assms(1) x(1), of 1] x(1,2) by (auto simp: less_Suc_eq_le)
  moreover have "first_page s DefaultPool + x < total_pages s" using first_page_total [of s DefaultPool] x(1) by linarith
  ultimately show ?thesis
    using nonzero x(1) by (intro exI [of _ x] exI [of _ "kernel_physical_to_virtual ?a"] exI [of _ ?s])
      (auto simp: marks_def set_pool_def)
qed

lemma device_page_serves:
  assumes "phys_inv s" and "frames (pools s DMAPool) = 0x1000" and "frames (pools s DefaultPool) = 0x3000"
    and "j \<in> {0x1000..<0x4000}" and "j \<notin> used_pages s"
  obtains y a s' where "y \<in> {0x1000..<0x4000}" and "mm_alloc_pages 1 1 s = Done (a, s')"
    and "\<And>d. d < 32 \<Longrightarrow> a + word_of_nat d \<noteq> 0" and "phys_inv s'" and "frames (pools s' DMAPool) = 0x1000"
    and "frames (pools s' DefaultPool) = 0x3000" and "used_pages s' = insert y (used_pages s)"
proof -
  have f: "first_page s DefaultPool = 0x1000" "first_page s HiMemPool = 0x4000" using assms(2,3) by simp_all
  have "j - 0x1000 < 0x3000" "0x1000 + (j - 0x1000) = j" using assms(4) by auto
  then obtain x a s' where x: "x < 0x3000" "mm_alloc_pages 1 1 s = Done (a, s')" "\<forall>d<32. a + word_of_nat d \<noteq> 0"
    "phys_inv s'" "pools s' DMAPool = pools s DMAPool" "frames (pools s' DefaultPool) = 0x3000"
    "used_pages s' = insert (0x1000 + x) (used_pages s)"
    using default_page_serves [OF assms(1), of "j - 0x1000"] assms(5) unfolding f assms(3) by auto
  show thesis by (rule that [of "0x1000 + x" a s']) (use x assms(2) in auto)
qed

lemma dma_buffer_serves:
  assumes "mm_inv s" and "frames (pools s DMAPool) = 0x1000" and "t < 0x100"
    and "{16 * t ..< 16 * t + 5} \<inter> used_pages s = {}"
  shows "\<exists>a s'. mm_alloc_pages_dma 5 16 s = Done (kernel_physical_to_virtual a, s') \<and> dma_block a"
proof -
  have inv: "phys_inv s" using assms(1) by (simp add: mm_inv_def)
  obtain b q where b: "pool_try 5 16 (pools s DMAPool) = Done (Some (b, q))"
    using dma_pool_serves [OF inv assms(2,3), of 5] assms(4) by auto
  have al: "allocates s 5 b (set_pool DMAPool q s)" by (rule pool_try_allocates [OF inv _ _ _ b]) simp_all
  have "page_of b \<in> block_pages b (unat (5 :: u32))" by (simp add: block_pages_def)
  then have "page_of b \<noteq> 0" using al assms(1) unfolding allocates_def mm_inv_def by (metis disjoint_iff)
  then have "b \<noteq> 0" by (auto simp: page_of_def)
  then have run: "physical_alloc_dma 5 16 s = Done (b, set_pool DMAPool q s)"
    by (simp add: physical_alloc_dma_def pool_alloc_some [OF b] log_if_zero_def)
  have "16 dvd page_of b" and "page_of b + unat (5 :: u32) \<le> 0x1000"
    using dma_alloc_aligned(1,2) [OF inv _ _ run \<open>b \<noteq> 0\<close>] assms(2) by simp_all
  moreover have u: "unat b = 4096 * page_of b" using al by (simp add: allocates_def)
  ultimately have "unat b < 2 ^ 24" "unat b mod 0x10000 = 0" by (auto elim!: dvdE)
  then have "dma_block b" by (simp add: dma_block_def)
  then show ?thesis using run \<open>b \<noteq> 0\<close> by (auto simp: mm_alloc_pages_dma_def)
qed

subsection \<open>The probe on a started kernel\<close>

text \<open>The heap of a started kernel with the memory between the kernel and 64 MiB unused, from 15 MiB on.\<close>

definition room_for_drive :: "physical heap \<Rightarrow> bool" where
  "room_for_drive h \<longleftrightarrow> groups h = replicate 17 heap_chunk_group_new \<and> mm_inv (pages h) \<and>
     frames (pools (pages h) DMAPool) = 0x1000 \<and> frames (pools (pages h) DefaultPool) = 0x3000 \<and>
     {0xF00..<0x4000} \<inter> used_pages (pages h) = {}"

definition boot_drive :: "u32 \<Rightarrow> FloppyDrive" where
  "boot_drive a = \<lparr>drive_idx = 0, drive_type = FloppyDrive1_44M, controller_base = 0x3F0,
     cyl_cache = kernel_physical_to_virtual a, cyl_cache_physical = a, cached_cyl_index = - 1\<rparr>"

text \<open>The two lines the probe prints.\<close>

definition probe_lines :: "string list" where
  "probe_lines = [added_line ''/floppy'' ''Floppy Drive Controller'',
     added_line ''/floppy/0'' (FloppyDriveTypeNames ! 4)]"

lemma objects_for_drive:
  assumes "room_for_drive h"
  shows "\<exists>p1 p2 h1 h2. group_alloc (\<lambda>n. mm_alloc_pages n 1) 0 h = Done (p1, h1) \<and> p1 \<noteq> 0 \<and>
    group_alloc (\<lambda>n. mm_alloc_pages n 1) 2 h1 = Done (p2, h2) \<and> p2 \<noteq> 0 \<and> mm_inv (pages h2) \<and>
    frames (pools (pages h2) DMAPool) = 0x1000 \<and> {0xF00..<0x1000} \<inter> used_pages (pages h2) = {}"
proof -
  let ?al = "\<lambda>n. mm_alloc_pages n 1" and ?s = "pages h"
  have r: "phys_inv ?s" "0 \<in> used_pages ?s" "frames (pools ?s DMAPool) = 0x1000" "frames (pools ?s DefaultPool) = 0x3000"
    "\<And>j. j \<in> {0xF00..<0x4000} \<Longrightarrow> j \<notin> used_pages ?s" and g: "groups h = replicate 17 heap_chunk_group_new"
    using assms by (auto simp: room_for_drive_def mm_inv_def)
  obtain y1 a1 s1 where 1: "y1 \<in> {0x1000..<0x4000}" "mm_alloc_pages 1 1 ?s = Done (a1, s1)"
    "\<And>d. d < 32 \<Longrightarrow> a1 + word_of_nat d \<noteq> 0" "phys_inv s1" "frames (pools s1 DMAPool) = 0x1000"
    "frames (pools s1 DefaultPool) = 0x3000" "used_pages s1 = insert y1 (used_pages ?s)"
    by (rule device_page_serves [where j = "0x1000", OF r(1,3,4)]) (use r(5) in auto)
  obtain j where j: "j \<in> {0x1000..<0x4000}" "j \<noteq> y1"
    by (rule that [of "if y1 = 0x1000 then 0x1001 else 0x1000"]) (auto split: if_splits)
  obtain y2 a2 s2 where 2: "y2 \<in> {0x1000..<0x4000}" "mm_alloc_pages 1 1 s1 = Done (a2, s2)"
    "\<And>d. d < 32 \<Longrightarrow> a2 + word_of_nat d \<noteq> 0" "phys_inv s2" "frames (pools s2 DMAPool) = 0x1000"
    "frames (pools s2 DefaultPool) = 0x3000" "used_pages s2 = insert y2 (used_pages s1)"
    by (rule device_page_serves [OF 1(4-6) j(1)]) (use r(5) j 1(7) in auto)
  obtain h1 where h1: "group_alloc ?al 0 h = Done (a1 + 20, h1)" "pages h1 = s1"
    "\<forall>k. k \<noteq> 0 \<longrightarrow> group_first h1 k = group_first h k"
    using first_allocation [of ?al 0 h a1 s1] 1(2) 1(3) [of 0] 1(3) [of 12] probe_groups g
    by (auto simp: group_first_def heap_chunk_group_new_def)
  have "group_first h1 2 = 0" using h1(3) g by (simp add: group_first_def heap_chunk_group_new_def)
  then obtain h2 where h2: "group_alloc ?al 2 h1 = Done (a2 + 20, h2)" "pages h2 = s2"
    using first_allocation [of ?al 2 h1 a2 s2] 2(2) 2(3) [of 0] 2(3) [of 12] h1(2) probe_groups by auto
  have "{0xF00..<0x1000} \<inter> used_pages s2 = {}" using r(5) 1(1,7) 2(1,7) by auto
  moreover have "mm_inv s2" using 2(4-7) 1(7) r(2) by (simp add: mm_inv_def)
  ultimately show ?thesis using h1(1) h2 2(5) 1(3) [of 20] 2(3) [of 20] by auto
qed

lemma probe_boots:
  assumes "room_for_drive h" and "floppy_in hw 0x71 (floppy_out hw 0x70 0x10 f) = (0x40, f1)"
  shows "\<exists>ds a. floppy_probe hw (devices_start h f) = Done ds \<and> dma_block a \<and> ds_floppy ds = f1 \<and>
    device_get ''/floppy/0'' (ds_manager ds) = Some (FloppyDriveDevice (boot_drive a)) \<and>
    dm_console (ds_manager ds) = probe_lines"
proof -
  obtain p1 p2 h1 h2 where o: "group_alloc (\<lambda>n. mm_alloc_pages n 1) 0 h = Done (p1, h1)" "p1 \<noteq> 0"
    "group_alloc (\<lambda>n. mm_alloc_pages n 1) 2 h1 = Done (p2, h2)" "p2 \<noteq> 0" "mm_inv (pages h2)"
    "frames (pools (pages h2) DMAPool) = 0x1000" "{0xF00..<0x1000} \<inter> used_pages (pages h2) = {}"
    using objects_for_drive [OF assms(1)] by blast
  have "{16 * 0xF0 ..< 16 * 0xF0 + 5} \<inter> used_pages (pages h2) = {}"
    using o(7) by (auto simp: disjoint_iff)
  then obtain a s3 where d: "mm_alloc_pages_dma 5 16 (pages h2) = Done (kernel_physical_to_virtual a, s3)" "dma_block a"
    using dma_buffer_serves [OF o(5,6), of "0xF0"] by auto
  have n1: "new_object 8 s = Done (s\<lparr>ds_heap := h1\<rparr>)" if "ds_heap s = h" for s :: "'a device_state"
    using that o(1,2) probe_groups by (simp add: new_object_def operator_new_def heap_alloc_def)
  have n2: "new_object 28 s = Done (s\<lparr>ds_heap := h2\<rparr>)" if "ds_heap s = h1" for s :: "'a device_state"
    using that o(3,4) probe_groups by (simp add: new_object_def operator_new_def heap_alloc_def)
  have c: "calc_required_page_count (cyl_size 4) = 5"
    by (simp add: calc_required_page_count_def PAGE_SIZE_def cyl_size_def sectors_per_cyl_def floppy_block_size_def
      FloppyDrive1_44M_def FloppyDrive1_2M_def)
  have v: "kernel_virtual_to_physical (kernel_physical_to_virtual a) = a"
    by (simp add: kernel_virtual_to_physical_def kernel_physical_to_virtual_def)
  have r: "read_drive_types hw (devices_start h f) = (0x40, devices_start h f1)"
    using assms(2) by (simp add: read_drive_types_def devices_start_def)
  have start: "ds_heap (devices_start h f1) = h" "ds_floppy (devices_start h f1) = f1"
    "ds_manager (devices_start h f1) = \<lparr>devices = [], dm_console = []\<rparr>" by (simp_all add: devices_start_def)
  have b: "drop_bit 4 (0x40 :: u8) = 4" "(0x40 :: u8) AND 0xF = 0" by simp_all
  show ?thesis
    using d(2)
    by (auto simp: floppy_probe_def r b n1 n2 Let_def register_device_def add_device_def new_drive_def start
      new_FloppyDrive_def c d(1) v floppy_description_def probe_lines_def device_get_def boot_drive_def
      FloppyDrive1_44M_def)
qed

end
