(* ===== verification/Kernel_Main.thy ===== *)
theory Kernel_Main
  imports Start_Screen Boot_Devices
begin

text \<open>
  The whole of \<^verbatim>\<open>kmain\<close> of \<^verbatim>\<open>src/kernel.cpp\<close> up to its endless loop, with the console: the start, the probe of the
  drivers, the line \<^verbatim>\<open>idle\<close> and the listing of the floppy disk. The lines of the device manager are printed
  when the probes have returned, which is where they appear, since the probe prints nothing else. What the
  floppy driver reports about errors stays in its own log \<open>flog\<close>.
\<close>

subsection \<open>The console as a line printer\<close>

abbreviation chars :: "u8 list \<Rightarrow> string" where
  "chars bs \<equiv> map (\<lambda>b. char_of (unat b)) bs"

definition console_line :: "u8 list \<Rightarrow> CONSOLE \<Rightarrow> CONSOLE outcome" where
  "console_line l con = print_chars (chars l) con"

text \<open>This is the call of \<^verbatim>\<open>console.printf\<close> in \<^verbatim>\<open>dirtree\<close>, wherever the two strings are stored.\<close>

lemma console_line_printf:
  assumes "cstring_at m p (replicate indent 0x20)" and "cstring_at m q name"
  shows "console_printf m (''%s%s'' @ [CHR ''\<newline>'']) [p, q] con = console_line (dirtree_line indent name) con"
  unfolding console_line_def by (rule console_printf_chars [OF dirtree_line_printed [OF assms]])

lemma console_prints_lines:
  "prints_lines console_line (\<lambda>out con. terminal_shows (str @ chars out) con) (\<lambda>out. text_fits (str @ chars out))"
  unfolding prints_lines_def console_line_def
proof (intro conjI allI impI)
  fix out l :: "u8 list" and con
  assume "terminal_shows (str @ chars out) con" and "text_fits (str @ chars (out @ l))"
  then show "\<exists>con'. print_chars (chars l) con = Done con' \<and> terminal_shows (str @ chars (out @ l)) con'"
    using print_chars_shows [of "str @ chars out" con "chars l"] by (simp add: terminal_shows_def)
next
  fix out l :: "u8 list"
  assume "text_fits (str @ chars (out @ l))"
  then show "text_fits (str @ chars out)" using text_fits_prefix [of "str @ chars out" "chars l"] by simp
qed

interpretation console_printer: line_printer console_line "\<lambda>out con. terminal_shows (str @ chars out) con"
    "\<lambda>out. text_fits (str @ chars out)" for str
  by unfold_locales (rule console_prints_lines)

interpretation floppy_listing: disk_listing "floppy_device (disk_hardware (sector_image img))" 2880 "sector_image img"
    "floppy_ready (disk_hardware (sector_image img)) (sector_image img) (quiet id) sample_drive"
    console_line "\<lambda>out con. terminal_shows (str @ chars out) con" "\<lambda>out. text_fits (str @ chars out)" for img str ..

fun print_lines :: "string list \<Rightarrow> CONSOLE \<Rightarrow> CONSOLE outcome" where
  "print_lines [] con = Done con"
| "print_lines (l # ls) con = outcome_bind (print_chars l con) (print_lines ls)"

lemma print_lines_show:
  "terminal_shows str con \<Longrightarrow> text_fits (str @ concat ls) \<Longrightarrow>
     \<exists>con'. print_lines ls con = Done con' \<and> terminal_shows (str @ concat ls) con'"
proof (induction ls arbitrary: str con)
  case (Cons l ls)
  have f: "text_fits (str @ l)" "text_fits ((str @ l) @ concat ls)"
    using Cons.prems(2) text_fits_prefix [of "str @ l" "concat ls"] by simp_all
  obtain con1 where "print_chars l con = Done con1" "terminal_shows (str @ l) con1"
    using print_chars_shows [OF _ _ f(1)] Cons.prems(1) by (auto simp: terminal_shows_def)
  then show ?case using Cons.IH [OF _ f(2)] by auto
qed simp

subsection \<open>kmain\<close>

definition idle_line :: string where
  "idle_line = ''idle'' @ [CHR ''\<newline>'']"

definition kmain ::
    "kernel_addresses \<Rightarrow> (u32 \<Rightarrow> u32 \<times> u32 \<times> u32 \<times> u32) \<Rightarrow> u32 \<Rightarrow> ('d, 'z) floppy_hardware_scheme \<Rightarrow> u8 list \<Rightarrow> u8 list \<Rightarrow>
     memory \<Rightarrow> u32 \<Rightarrow> u32 \<Rightarrow> multiboot_info \<Rightarrow> kernel_state \<Rightarrow> 'd floppy_state \<Rightarrow> CONSOLE \<Rightarrow>
     (kernel_state \<times> 'd device_state \<times> (FloppyDrive \<times> 'd floppy_state) \<times> CONSOLE) outcome" where
  "kmain a cpuid name_buffer hw junk boot_junk bm sector_addr literal mbt s f con =
     outcome_bind (kernel_probes hw) (\<lambda>probes.
     outcome_bind (kernel_start a cpuid name_buffer bm mbt s con) (\<lambda>(k, con1).
     outcome_bind (probe_all probes (devices_start (snd (k_memory k)) f)) (\<lambda>ds.
     outcome_bind (print_lines (dm_console (ds_manager ds)) con1) (\<lambda>con2.
     outcome_bind (console_printf bm idle_line [] con2) (\<lambda>con3.
     outcome_bind
       (list_floppy console_line hw junk boot_junk bm sector_addr literal (ds_manager ds) (ds_floppy ds) con3) (\<lambda>(d, con4).
       Done (k\<lparr>k_memory := (fst (k_memory k), ds_heap ds)\<rparr>, ds, d, con4)))))))"

text \<open>The only probe the static constructors register is the floppy driver's.\<close>

lemma kmain_steps:
  assumes "kernel_start a cpuid name_buffer bm mbt s con = Done (k, con1)"
    and "floppy_probe hw (devices_start (snd (k_memory k)) f) = Done ds"
    and "print_lines (dm_console (ds_manager ds)) con1 = Done con2" and "console_printf bm idle_line [] con2 = Done con3"
    and "list_floppy console_line hw junk boot_junk bm sector_addr literal (ds_manager ds) (ds_floppy ds) con3 = Done (d, con4)"
  shows "kmain a cpuid name_buffer hw junk boot_junk bm sector_addr literal mbt s f con =
     Done (k\<lparr>k_memory := (fst (k_memory k), ds_heap ds)\<rparr>, ds, d, con4)"
proof -
  have "kernel_probes hw = Done \<lparr>s_probe_funcs = Some (floppy_probe hw) # replicate 15 None, s_probe_func_count = 1\<rparr>"
    by (simp add: kernel_probes_def reg_probe_def no_probes_def numeral_eq_Suc)
  then show ?thesis using assms by (simp add: kmain_def probe_all_def call_probe_def)
qed

lemma print_idle:
  "terminal_shows str con \<Longrightarrow> text_fits (str @ idle_line) \<Longrightarrow>
     \<exists>con'. console_printf m idle_line [] con = Done con' \<and> terminal_shows (str @ idle_line) con'"
  using print_chars_shows [of str con idle_line] console_printf_chars [of m idle_line "[]" idle_line con]
    plain_text [of idle_line m "[]" "[]"] by (simp add: terminal_shows_def idle_line_def)

subsection \<open>A machine that boots\<close>

text \<open>
  What the boot loader must hand over: a memory map of at least 64 MiB whose reserved blocks lie below 4 GiB,
  none of them with a byte between 15 and 64 MiB, a kernel image with its bitmaps below 15 MiB, a page directory that is mapped, and the kernel's
  tables and heap as the loader left them.
\<close>

definition bootable ::
    "kernel_addresses \<Rightarrow> memory \<Rightarrow> multiboot_info \<Rightarrow> multiboot_mmap_entry list \<Rightarrow> u32 \<Rightarrow> u32 \<Rightarrow> kernel_state \<Rightarrow> bool" where
  "bootable a bm mbt es memory_end static_end s \<longleftrightarrow> (let m = fst (k_memory s); h = snd (k_memory s) in
     mbi_flags mbt AND MULTIBOOT_INFO_MEM_MAP \<noteq> 0 \<and>
     mmap_stored bm (mmap_addr mbt) (mmap_addr mbt + mmap_length mbt) es \<and> short_reserved es \<and>
     (\<forall>e\<in>set es. entry_type e \<noteq> MULTIBOOT_MEMORY_AVAILABLE \<longrightarrow> below_4g e) \<and>
     memory_end = Max (insert 0 (memory_ends es)) \<and> KERNEL_VIRTUAL_SIZE_MAX \<le> memory_end \<and>
     reserved_pages es \<inter> {0xF00..<0x4000} = {} \<and>
     static_end = snd (init_pools (find_kernel_static_end bm mbt) KERNEL_VIRTUAL_SIZE_MAX memory_end (pages h)) \<and>
     static_end \<noteq> 0 \<and> static_end \<le> 0xF00000 \<and>
     take_bit 12 (cr3 m) = 0 \<and> virtual_to_physical m (a_page_directory a) = Done (cr3 m) \<and>
     groups h = replicate 17 heap_chunk_group_new \<and>
     length (k_gdt s) = 6 \<and> length (k_idt s) = 256 \<and> length (irq_routines (k_sched s)) = 16)"

lemma bootable_starts:
  assumes "bootable a bm mbt es memory_end static_end s"
  shows "\<exists>k. kernel_init a bm mbt s = Done k \<and> kernel_ready a memory_end k \<and> room_for_drive (snd (k_memory k))"
proof -
  obtain m h where s: "k_memory s = (m, h)" by (rule prod.exhaust)
  have b: "static_end \<le> 0xF00000" "reserved_pages es \<inter> {0xF00..<0x4000} = {}"
    and low: "\<forall>e\<in>set es. entry_type e \<noteq> MULTIBOOT_MEMORY_AVAILABLE \<longrightarrow> below_4g e"
    using assms unfolding bootable_def Let_def by blast+
  have "marked_pages es \<subseteq> reserved_pages es" using low by (intro marked_pages_subset) blast
  then have m: "marked_pages es \<inter> {0xF00..<0x4000} = {}" using b(2) by blast
  have "static_end \<le> 0xFFFFF000" using b(1) by (rule order_trans) simp
  then obtain k where k: "kernel_init a bm mbt s = Done k" "kernel_ready a memory_end k" "memory_free es static_end (snd (k_memory k))"
    using kernel_init_ok [where a = a and bm = bm and mbt = mbt and es = es and memory_end = memory_end and static_end = static_end
      and m = m and h = h and s = s] assms s by (simp add: bootable_def Let_def) blast
  have "unat static_end \<le> 0xF00000" using b(1) by (simp add: word_le_nat_alt)
  then have "j \<notin> marked_pages es \<union> {k. 4096 * k < unat static_end}" if "j \<in> {0xF00..<0x4000}" for j
    using that m by (auto simp: disjoint_iff)
  then have "j \<notin> used_pages (pages (snd (k_memory k)))" if "j \<in> {0xF00..<0x4000}" for j
    using that k(3) unfolding memory_free_def by blast
  moreover have "mm_inv (pages (snd (k_memory k)))"
    using k(2) by (simp add: kernel_ready_def memory_ready_def heap_inv_def)
  ultimately show ?thesis using k by (auto simp: room_for_drive_def memory_free_def)
qed

text \<open>A controller with one 1.44 MB drive that holds a disk: it behaves as its data sheet says, is idle at the start,
  out of reset with DMA on, and the CMOS names the drive.\<close>

definition floppy_holds ::
    "('d, 'z) floppy_hardware_scheme \<Rightarrow> ('d \<Rightarrow> fdc) \<Rightarrow> 'd floppy_state \<Rightarrow> image \<Rightarrow> bool" where
  "floppy_holds hw view f img \<longleftrightarrow> controller_obeys hw view img \<and> quiet view f \<and> (\<forall>s. length (img s) = 512) \<and>
     fst (floppy_in hw 0x71 (floppy_out hw 0x70 0x10 f)) = 0x40"

lemma cmos_read:
  assumes "floppy_holds hw view f img"
  obtains f1 where "floppy_in hw 0x71 (floppy_out hw 0x70 0x10 f) = (0x40, f1)" "quiet view f1"
proof -
  obtain v d where p: "inportb hw 0x71 (outportb hw 0x70 0x10 (device f)) = (v, d)" by (rule prod.exhaust)
  have c: "floppy_controller hw view img" using assms by (simp add: floppy_controller_def floppy_holds_def)
  have "view (outportb hw 0x70 0x10 (device f)) = view (device f)"
    by (rule floppy_controller.view_cmos [OF c])
  then have "view d = view (device f)"
    using floppy_controller.view_in [OF c, of "0x71" "outportb hw 0x70 0x10 (device f)"] by (simp add: p)
  moreover have "floppy_in hw 0x71 (floppy_out hw 0x70 0x10 f) = (v, f\<lparr>device := d\<rparr>)"
    by (simp add: floppy_in_def floppy_out_def p)
  ultimately show thesis using assms by (intro that [of "f\<lparr>device := d\<rparr>"]) (simp_all add: floppy_holds_def quiet_def)
qed

lemma probed_drive_lists:
  assumes "room_for_drive h" and "floppy_holds hw view f img" and "fat12_volume img 2880 ts"
    and "length junk = 512" and "length boot_junk = 512"
    and "sector_addr \<noteq> 0" and "512 \<le> unat (literal - sector_addr)" and "bm literal = 0x46"
  shows "\<exists>ds. floppy_probe hw (devices_start h f) = Done ds \<and> dm_console (ds_manager ds) = probe_lines \<and>
    (\<forall>str con. terminal_shows str con \<longrightarrow> text_fits (str @ chars (concat (map (render 0) ts))) \<longrightarrow>
      (\<exists>d con'. list_floppy console_line hw junk boot_junk bm sector_addr literal (ds_manager ds) (ds_floppy ds) con = Done (d, con') \<and>
        terminal_shows (str @ chars (concat (map (render 0) ts))) con' \<and> flog (snd d) = []))"
proof -
  obtain f1 where f1: "floppy_in hw 0x71 (floppy_out hw 0x70 0x10 f) = (0x40, f1)" "quiet view f1"
    by (rule cmos_read [OF assms(2)])
  obtain ds a where ds: "floppy_probe hw (devices_start h f) = Done ds" "dma_block a" "ds_floppy ds = f1"
    "device_get ''/floppy/0'' (ds_manager ds) = Some (FloppyDriveDevice (boot_drive a))"
    "dm_console (ds_manager ds) = probe_lines"
    using probe_boots [OF assms(1) f1(1)] by blast
  have "drive_ready (boot_drive a)" using ds(2) by (simp add: drive_ready_def boot_drive_def)
  then have s: "serves_image (floppy_device hw) 2880 img (floppy_ready hw img (quiet view) (boot_drive a))"
    using controller_serves [of hw view img "boot_drive a"] assms(2) by (simp add: floppy_holds_def)
  have i: "floppy_ready hw img (quiet view) (boot_drive a) (boot_drive a, ds_floppy ds)"
    using f1(2) ds(3) by (simp add: floppy_ready_def boot_drive_def)
  have "\<exists>d con'. list_floppy console_line hw junk boot_junk bm sector_addr literal (ds_manager ds) (ds_floppy ds) con = Done (d, con') \<and>
      terminal_shows (str @ chars (concat (map (render 0) ts))) con' \<and> flog (snd d) = []"
    if "terminal_shows str con" "text_fits (str @ chars (concat (map (render 0) ts)))" for str con
  proof -
    note shown = that
    obtain d con' where l: "list_floppy console_line hw junk boot_junk bm sector_addr literal (ds_manager ds) (ds_floppy ds) con = Done (d, con')"
      "floppy_ready hw img (quiet view) (boot_drive a) d" "terminal_shows (str @ chars (concat (map (render 0) ts))) con'"
      using volume_serves [where m = bm and con = con, OF s i assms(3) ds(4) assms(4-8) console_prints_lines [of str]] shown by auto
    have "quiet view (snd d)" using l(2) by (cases d) (simp add: floppy_ready_def)
    then show ?thesis using l(1,3) by (auto simp: quiet_def)
  qed
  then show ?thesis using ds(1,5) by blast
qed

subsection \<open>Property\<close>

text \<open>C1: On a machine that boots, with a controller that behaves as its data sheet says and a FAT12 disk in its
  1.44 MB drive, \<^verbatim>\<open>kmain\<close> reaches its endless loop and the screen shows the start text, the two devices, the line
  \<^verbatim>\<open>idle\<close> and exactly the directory tree of the disk, each entry indented by its depth. The driver has reported no
  error. The tree is that of the format; it must be finite, the FAT a multiple of three sectors, the root directory
  of whole sectors, and the whole text must fit on the rows the terminal counts.\<close>

theorem kmain_shows_disk:
  assumes "bootable a bm mbt es memory_end static_end s" and "floppy_holds hw view f img" and "fat12_volume img 2880 ts"
    and "shows_text [] con" and "CONSOLE.visible con \<noteq> 0"
    and "log_text bm (parse_command_line mbt) = Done (loader_lines, d1)"
    and "log_text bm (memory_messages mbt) = Done (memory_line, d2)"
    and "check_cpu cpuid name_buffer bm = (m, ms)" and "log_text m ms = Done (cpu_lines, d3)"
    and "length junk = 512" and "length boot_junk = 512"
    and "sector_addr \<noteq> 0" and "512 \<le> unat (literal - sector_addr)" and "bm literal = 0x46"
    and "text_fits ((sparta_text @ loader_lines @ memory_line @ cpu_lines) @ concat probe_lines @ idle_line @
      chars (concat (map (render 0) ts)))"
  shows "\<exists>k ds d con'. kmain a cpuid name_buffer hw junk boot_junk bm sector_addr literal mbt s f con = Done (k, ds, d, con') \<and>
    flog (snd d) = [] \<and>
    terminal_shows ((sparta_text @ loader_lines @ memory_line @ cpu_lines) @ concat probe_lines @ idle_line @
      chars (concat (map (render 0) ts))) con'"
proof -
  let ?start = "sparta_text @ loader_lines @ memory_line @ cpu_lines" and ?tree = "chars (concat (map (render 0) ts))"
  have f: "text_fits ?start" "text_fits (?start @ concat probe_lines)" "text_fits ((?start @ concat probe_lines) @ idle_line)"
    "text_fits (((?start @ concat probe_lines) @ idle_line) @ ?tree)"
    using assms(15) text_fits_prefix [of ?start] text_fits_prefix [of "?start @ concat probe_lines"]
      text_fits_prefix [of "(?start @ concat probe_lines) @ idle_line"] by simp_all
  obtain k where k: "kernel_init a bm mbt s = Done k" "room_for_drive (snd (k_memory k))"
    using bootable_starts [OF assms(1)] by blast
  obtain con1 where c1: "kernel_start a cpuid name_buffer bm mbt s con = Done (k, con1)" "terminal_shows ?start con1"
    using start_shows [OF k(1) assms(4-9) f(1)] by blast
  obtain ds where ds: "floppy_probe hw (devices_start (snd (k_memory k)) f) = Done ds" "dm_console (ds_manager ds) = probe_lines"
    "\<And>str con. terminal_shows str con \<Longrightarrow> text_fits (str @ ?tree) \<Longrightarrow>
      \<exists>d con'. list_floppy console_line hw junk boot_junk bm sector_addr literal (ds_manager ds) (ds_floppy ds) con = Done (d, con') \<and>
        terminal_shows (str @ ?tree) con' \<and> flog (snd d) = []"
    using probed_drive_lists [where bm = bm and literal = literal, OF k(2) assms(2,3,10-14)] by blast
  obtain con2 where c2: "print_lines probe_lines con1 = Done con2" "terminal_shows (?start @ concat probe_lines) con2"
    using print_lines_show [OF c1(2) f(2)] by blast
  obtain con3 where c3: "console_printf bm idle_line [] con2 = Done con3" "terminal_shows ((?start @ concat probe_lines) @ idle_line) con3"
    using print_idle [OF c2(2) f(3)] by blast
  obtain d con4 where l: "list_floppy console_line hw junk boot_junk bm sector_addr literal (ds_manager ds) (ds_floppy ds) con3 = Done (d, con4)"
    "terminal_shows (((?start @ concat probe_lines) @ idle_line) @ ?tree) con4" "flog (snd d) = []"
    using ds(3) [OF c3(2) f(4)] by blast
  show ?thesis using l(2,3) by (simp add: kmain_steps [OF c1(1) ds(1) _ c3(1) l(1)] ds(2) c2(1))
qed

subsection \<open>The sample machine with the sample disk\<close>

lemma boot_machine: "bootable boot_addresses boot_bytes boot_mbi boot_entries 0x8000000 0x220000 boot_kernel"
proof -
  have r: "reserved_pages boot_entries = {}"
    by (simp add: reserved_pages_def boot_entries_def MULTIBOOT_MEMORY_AVAILABLE_def)
  have le: "(0x220000 :: u32) \<le> 0xF00000" by simp
  have low: "\<forall>e\<in>set boot_entries. entry_type e \<noteq> MULTIBOOT_MEMORY_AVAILABLE \<longrightarrow> below_4g e"
    by (simp add: boot_entries_def MULTIBOOT_MEMORY_AVAILABLE_def)
  have m: "fst (k_memory boot_kernel) = sample_machine" "snd (k_memory boot_kernel) = heap_start sample_physical"
    using boot_kernel_facts(12) by simp_all
  show ?thesis unfolding bootable_def Let_def m r using boot_kernel_facts(1-7,9-11,13-15) le low by blast
qed

lemma listing_disk_held: "floppy_holds (disk_hardware listing_image) id sample_fdc listing_image"
  unfolding floppy_holds_def using disk_obeys sample_quiet length_listing_image
  by (simp add: floppy_in_def floppy_out_def) (simp add: disk_hardware_def)

text \<open>What the sample machine shows behind its start text.\<close>

definition sample_screen :: string where
  "sample_screen = ''DeviceManager: Added device /floppy - (Floppy Drive Controller)'' @ [CHR ''\<newline>''] @
     ''DeviceManager: Added device /floppy/0 - (1.44MB 3.5'' @ [CHR 0x22] @ '')'' @ [CHR ''\<newline>''] @
     ''idle'' @ [CHR ''\<newline>''] @
     ''AB.C'' @ [CHR ''\<newline>''] @ ''  DB.C'' @ [CHR ''\<newline>''] @ ''DB.C'' @ [CHR ''\<newline>'']"

lemma sample_screen_text:
  "concat probe_lines @ idle_line @ chars (concat (map (render 0) listing_trees)) = sample_screen"
proof -
  have "concat (map (render 0) listing_trees) = [0x41, 0x42, 0x2E, 0x43, 0x0A, 0x20, 0x20, 0x44, 0x42, 0x2E, 0x43, 0x0A,
      0x44, 0x42, 0x2E, 0x43, 0x0A]"
    by (simp add: listing_trees_def dirtree_line_def numeral_2_eq_2)
  then have "chars (concat (map (render 0) listing_trees)) =
      ''AB.C'' @ [CHR ''\<newline>''] @ ''  DB.C'' @ [CHR ''\<newline>''] @ ''DB.C'' @ [CHR ''\<newline>'']"
    by (simp add: char_of_def bit_numeral_rec bit_0)
  then show ?thesis
    by (simp add: sample_screen_def probe_lines_def added_line_def idle_line_def FloppyDriveTypeNames_def)
qed

theorem kmain_shows_disk_witness:
  "\<exists>k ds d con'. kmain boot_addresses intel_cpuid 0x3000 (disk_hardware listing_image) (replicate 512 0) (replicate 512 0)
       boot_bytes 0x4000 0x5000 boot_mbi boot_kernel sample_fdc (CONSOLE_init (\<lambda>_. \<lparr>vc_ch = CHR 0x00, vc_color = 0\<rparr>)) =
       Done (k, ds, d, con') \<and>
     terminal_shows ((sparta_text @ [] @ (''WARNING: MultiBoot header did not specify memory'' @ [CHR ''\<newline>'']) @
       ''CPU: '' @ intel_name @ '' Family 6 Model 7 Stepping 3'' @ [CHR ''\<newline>'', CHR ''\<newline>'']) @ sample_screen) con'"
proof -
  obtain m ms where c: "check_cpu intel_cpuid 0x3000 boot_bytes = (m, ms)" by (rule prod.exhaust)
  have p: "log_text boot_bytes (parse_command_line boot_mbi) = Done ([], [])"
    by (simp add: parse_command_line_def boot_mbi_def multiboot_flag_defs)
  have w: "log_text boot_bytes (memory_messages boot_mbi) = Done (''WARNING: MultiBoot header did not specify memory'' @ [CHR ''\<newline>''], [])"
    by (simp add: memory_messages_def boot_mbi_def multiboot_flag_defs plain_text)
  have f: "text_fits ((sparta_text @ [] @ (''WARNING: MultiBoot header did not specify memory'' @ [CHR ''\<newline>'']) @
       ''CPU: '' @ intel_name @ '' Family 6 Model 7 Stepping 3'' @ [CHR ''\<newline>'', CHR ''\<newline>'']) @ sample_screen)"
    by (rule short_text_fits) (simp add: sparta_text_def sparta_banner_def shade_def intel_name_def sample_screen_def)
  have j: "length (replicate 512 (0 :: u8)) = 512" by simp
  have l: "boot_bytes 0x5000 = 0x46" "(0x4000 :: u32) \<noteq> 0" "512 \<le> unat ((0x5000 :: u32) - 0x4000)" by (simp_all add: boot_bytes_def)
  from kmain_shows_disk [OF boot_machine listing_disk_held listing_volume CONSOLE_init_shows CONSOLE_init_visible p w c
    intel_cpu_lines [OF c] j j l(2,3,1)] show ?thesis
    unfolding sample_screen_text using f by blast
qed

end
