(* ===== verification/Counting.thy ===== *)
theory Counting
  imports Interlocked Terminal
begin

text \<open>
  The demonstration tasks of \<^verbatim>\<open>src/kernel.cpp\<close>: \<^verbatim>\<open>taskX\<close>, which prints its letter at every 10000th round, and
  \<^verbatim>\<open>counting_test\<close>, of which two instances count in variables of their own and in a shared one and report
  under a lock. The instances run interleaved, one memory access or character at a time. Shown are
  what the counters hold in the end and that the reports are never mixed.
\<close>

subsection \<open>taskX\<close>

text \<open>One round of the loop: the static counter and what is printed.\<close>

definition taskX_round :: "char \<Rightarrow> u32 \<times> string \<Rightarrow> u32 \<times> string" where
  "taskX_round ch = (\<lambda>(skip, out). if skip + 1 = 10000 then (0, out @ [ch]) else (skip + 1, out))"

lemma taskX_rounds:
  "(taskX_round ch ^^ n) (0, []) = (word_of_nat (n mod 10000), replicate (n div 10000) ch)"
proof (induction n)
  case (Suc n)
  have u: "unat (word_of_nat (n mod 10000) + 1 :: u32) = Suc (n mod 10000)"
    by (subst unat_u32_add) (simp_all add: unat_u32_of_nat)
  have "(word_of_nat (n mod 10000) + 1 = (10000 :: u32)) = (unat (word_of_nat (n mod 10000) + 1 :: u32) = unat (10000 :: u32))"
    by (simp only: word_unat_eq_iff)
  then have e: "(word_of_nat (n mod 10000) + 1 = (10000 :: u32)) \<longleftrightarrow> Suc (n mod 10000) = 10000"
    unfolding u by simp
  show ?case
  proof (cases "Suc (n mod 10000) = 10000")
    case True
    then have "Suc n mod 10000 = 0" "Suc n div 10000 = Suc (n div 10000)" by (simp_all add: mod_Suc div_Suc)
    then show ?thesis using e True unfolding funpow.simps comp_def Suc.IH by (simp add: taskX_round_def replicate_append_same)
  next
    case False
    then have "Suc n mod 10000 = Suc (n mod 10000)" "Suc n div 10000 = n div 10000" by (simp_all add: mod_Suc div_Suc)
    then show ?thesis using e False unfolding funpow.simps comp_def Suc.IH by (simp add: taskX_round_def add.commute)
  qed
qed simp

subsection \<open>counting\_test\<close>

datatype task = TaskA | TaskB

text \<open>
  Where an instance is: at the test of its loop; before the load and before the store of
  \<^verbatim>\<open>global_counter += 1\<close>; at the lock; reading the arguments of its report, from the last to the first; printing
  the rest of it. The flag tells the report after the loop, which starts with DONE, from those inside.
\<close>

datatype counting_pc = AtLoop | Loading | Storing | Locking bool | Reading bool "u32 list" | Printing bool string | Finished

record counting_state =
  loop_i :: "task \<Rightarrow> u32"
  local_count :: "task \<Rightarrow> u32"
  global_counter :: u32
  loaded :: "task \<Rightarrow> u32"
  counting_ram :: memory
  counting_at :: "task \<Rightarrow> counting_pc"
  debug_out :: string

definition LOOP_COUNT :: u32 where "LOOP_COUNT = 100000000"
definition REPORT_INTERVAL :: u32 where "REPORT_INTERVAL = 1000000"

fun task_char :: "task \<Rightarrow> char" where
  "task_char TaskA = CHR ''A''"
| "task_char TaskB = CHR ''B''"

text \<open>What \<^verbatim>\<open>debug_bochs_printf\<close> emits for a report.\<close>

definition report :: "bool \<Rightarrow> task \<Rightarrow> u32 \<Rightarrow> u32 \<Rightarrow> u32 \<Rightarrow> string" where
  "report last_one t a b g = (if last_one then ''DONE '' else ''Task '') @ [task_char t] @ '': a = '' @ dec_digits (unat a) @
     '' b = '' @ dec_digits (unat b) @ '' global = '' @ dec_digits (unat g) @ [CHR ''\<newline>'']"

definition goto :: "task \<Rightarrow> counting_pc \<Rightarrow> counting_state \<Rightarrow> counting_state" where
  "goto t p s = s\<lparr>counting_at := (counting_at s)(t := p)\<rparr>"

text \<open>After a report, or when none is due: the next round, or the endless loop at the end.\<close>

definition continue :: "bool \<Rightarrow> task \<Rightarrow> counting_state \<Rightarrow> counting_state" where
  "continue last_one t s =
     (if last_one then goto t Finished s
      else goto t AtLoop (s\<lparr>loop_i := (loop_i s)(t := loop_i s t + 1)\<rparr>))"

inductive counting_step :: "u32 \<Rightarrow> task \<Rightarrow> counting_state \<Rightarrow> counting_state \<Rightarrow> bool" for printing_cs t where
  loop_round: "counting_at s t = AtLoop \<Longrightarrow> loop_i s t \<le> LOOP_COUNT \<Longrightarrow>
     counting_step printing_cs t s (goto t Loading (s\<lparr>local_count := (local_count s)(t := local_count s t + 1)\<rparr>))"
| loop_end: "counting_at s t = AtLoop \<Longrightarrow> \<not> loop_i s t \<le> LOOP_COUNT \<Longrightarrow>
     counting_step printing_cs t s (goto t (Locking True) s)"
| load_global: "counting_at s t = Loading \<Longrightarrow>
     counting_step printing_cs t s (goto t Storing (s\<lparr>loaded := (loaded s)(t := global_counter s)\<rparr>))"
| store_report: "counting_at s t = Storing \<Longrightarrow> loop_i s t mod REPORT_INTERVAL = 0 \<Longrightarrow>
     counting_step printing_cs t s (goto t (Locking False) (s\<lparr>global_counter := loaded s t + 1\<rparr>))"
| store_next: "counting_at s t = Storing \<Longrightarrow> loop_i s t mod REPORT_INTERVAL \<noteq> 0 \<Longrightarrow>
     counting_step printing_cs t s (continue False t (s\<lparr>global_counter := loaded s t + 1\<rparr>))"
| try_lock: "counting_at s t = Locking f \<Longrightarrow> enter_round printing_cs (counting_ram s) = (ok, m) \<Longrightarrow>
     counting_step printing_cs t s (goto t (if ok then Reading f [] else Locking f) (s\<lparr>counting_ram := m\<rparr>))"
| read_global: "counting_at s t = Reading f [] \<Longrightarrow>
     counting_step printing_cs t s (goto t (Reading f [global_counter s]) s)"
| read_b: "counting_at s t = Reading f [g] \<Longrightarrow>
     counting_step printing_cs t s (goto t (Reading f [local_count s TaskB, g]) s)"
| read_a: "counting_at s t = Reading f [b, g] \<Longrightarrow>
     counting_step printing_cs t s (goto t (Printing f (report f t (local_count s TaskA) b g)) s)"
| print_char: "counting_at s t = Printing f (c # cs) \<Longrightarrow>
     counting_step printing_cs t s (goto t (Printing f cs) (s\<lparr>debug_out := debug_out s @ [c]\<rparr>))"
| unlock: "counting_at s t = Printing f [] \<Longrightarrow>
     counting_step printing_cs t s (continue f t (s\<lparr>counting_ram := leave printing_cs (counting_ram s)\<rparr>))"

definition counting_start :: "u32 \<Rightarrow> counting_state \<Rightarrow> bool" where
  "counting_start printing_cs s \<longleftrightarrow> (\<forall>t. loop_i s t = 1 \<and> local_count s t = 0 \<and> counting_at s t = AtLoop) \<and>
     global_counter s = 0 \<and> read_u32 (counting_ram s) printing_cs = 0 \<and> debug_out s = []"

inductive counting_reachable :: "u32 \<Rightarrow> counting_state \<Rightarrow> bool" for printing_cs where
  counting_init: "counting_start printing_cs s \<Longrightarrow> counting_reachable printing_cs s"
| counting_next: "counting_reachable printing_cs s \<Longrightarrow> counting_step printing_cs t s s' \<Longrightarrow> counting_reachable printing_cs s'"

text \<open>A report is what the format string of the code renders to.\<close>

lemma report_printed:
  "format_string_varg collect m ((if f then ''DONE '' else ''Task '') @ CHR 0x25 # CHR ''c'' # '': a = '' @ CHR 0x25 # CHR ''d'' #
      '' b = '' @ CHR 0x25 # CHR ''d'' # '' global = '' @ CHR 0x25 # CHR ''d'' # [CHR ''\<newline>''])
    [word_of_nat (of_char (task_char t)), a, b, g] [] = Done (report f t a b g)"
proof -
  have p: "CHR 0x25 \<notin> set (if f then ''DONE '' else ''Task '')" by simp
  have c: "char_of (unat (word_of_nat (of_char (task_char t)) :: u32)) = task_char t"
    by (cases t) (simp_all add: char_of_def bit_numeral_rec bit_0)
  show ?thesis
    by (subst plain_prefix [OF p], subst char_directive, subst plain_prefix, simp, subst number_directive,
      subst plain_prefix, simp, subst number_directive, subst plain_prefix, simp, subst number_directive)
      (simp add: plain_text report_def c)
qed

subsection \<open>The counters\<close>

inductive_cases counting_stepE: "counting_step printing_cs t s s'"

definition rounds :: nat where
  "rounds = 100000000"

lemma LOOP_COUNT_rounds: "unat LOOP_COUNT = rounds"
  by (simp add: LOOP_COUNT_def rounds_def)

text \<open>The count of an instance follows its loop variable; \<open>stored\<close> is how often it has stored the shared counter.\<close>

fun counts_ok :: "counting_pc \<Rightarrow> nat \<Rightarrow> nat \<Rightarrow> bool" where
  "counts_ok AtLoop i n \<longleftrightarrow> i = Suc n \<and> n \<le> rounds"
| "counts_ok Loading i n \<longleftrightarrow> i = n \<and> 1 \<le> n \<and> n \<le> rounds"
| "counts_ok Storing i n \<longleftrightarrow> i = n \<and> 1 \<le> n \<and> n \<le> rounds"
| "counts_ok (Locking f) i n \<longleftrightarrow> (if f then n = rounds else i = n \<and> 1 \<le> n \<and> n \<le> rounds)"
| "counts_ok (Reading f args) i n \<longleftrightarrow> (if f then n = rounds else i = n \<and> 1 \<le> n \<and> n \<le> rounds)"
| "counts_ok (Printing f cs) i n \<longleftrightarrow> (if f then n = rounds else i = n \<and> 1 \<le> n \<and> n \<le> rounds)"
| "counts_ok Finished i n \<longleftrightarrow> n = rounds"

definition task_ok :: "counting_state \<Rightarrow> task \<Rightarrow> bool" where
  "task_ok s t \<longleftrightarrow> counts_ok (counting_at s t) (unat (loop_i s t)) (unat (local_count s t))"

definition stored :: "counting_state \<Rightarrow> task \<Rightarrow> nat" where
  "stored s t = (if counting_at s t = Loading \<or> counting_at s t = Storing then unat (local_count s t) - 1
     else unat (local_count s t))"

lemma unat_u32_Suc: "unat x \<le> 2 * rounds \<Longrightarrow> unat (x + 1 :: u32) = Suc (unat x)"
  by (subst unat_u32_add) (simp_all add: rounds_def)

lemma goto_simps [simp]:
  "counting_at (goto t p s) = (counting_at s)(t := p)" "loop_i (goto t p s) = loop_i s"
  "local_count (goto t p s) = local_count s" "global_counter (goto t p s) = global_counter s"
  "loaded (goto t p s) = loaded s" "counting_ram (goto t p s) = counting_ram s" "debug_out (goto t p s) = debug_out s"
  by (simp_all add: goto_def)

lemma continue_simps [simp]:
  "counting_at (continue f t s) = (counting_at s)(t := if f then Finished else AtLoop)"
  "loop_i (continue f t s) = (if f then loop_i s else (loop_i s)(t := loop_i s t + 1))"
  "local_count (continue f t s) = local_count s" "global_counter (continue f t s) = global_counter s"
  "loaded (continue f t s) = loaded s" "counting_ram (continue f t s) = counting_ram s" "debug_out (continue f t s) = debug_out s"
  by (simp_all add: continue_def)

lemma task_step_ok:
  assumes "counting_step printing_cs t s s'" and "task_ok s u"
  shows "task_ok s' u"
proof (cases "u = t")
  case True
  have i: "loop_i s t \<le> LOOP_COUNT \<longleftrightarrow> unat (loop_i s t) \<le> rounds"
    by (simp add: word_le_nat_alt LOOP_COUNT_rounds)
  show ?thesis using assms True i
    by (cases rule: counting_stepE) (auto simp: task_ok_def unat_u32_Suc rounds_def)
next
  case False
  then show ?thesis using assms by (cases rule: counting_stepE) (auto simp: task_ok_def)
qed

text \<open>A step loads the shared counter, stores it, or leaves it alone.\<close>

lemma step_effect:
  assumes "counting_step printing_cs t s s'" and "task_ok s t"
  shows "(global_counter s' = global_counter s \<and> stored s' = stored s \<and>
       (\<forall>u. counting_at s' u = Storing \<longrightarrow>
          (if u = t then loaded s' u = global_counter s else counting_at s u = Storing \<and> loaded s' u = loaded s u))) \<or>
     (counting_at s t = Storing \<and> global_counter s' = loaded s t + 1 \<and> stored s' = (stored s)(t := Suc (stored s t)) \<and>
       (\<forall>u. counting_at s' u = Storing \<longrightarrow> u \<noteq> t \<and> counting_at s u = Storing \<and> loaded s' u = loaded s u))"
  using assms(1)
proof (cases rule: counting_step.cases)
  case loop_round
  then have "unat (local_count s t + 1) = Suc (unat (local_count s t))"
    using assms(2) by (intro unat_u32_Suc) (auto simp: task_ok_def rounds_def)
  then show ?thesis using loop_round by (auto simp: stored_def fun_eq_iff)
next
  case store_report
  then show ?thesis using assms(2) by (auto simp: stored_def fun_eq_iff task_ok_def)
next
  case store_next
  then show ?thesis using assms(2) by (auto simp: stored_def fun_eq_iff task_ok_def)
qed (auto simp: stored_def fun_eq_iff)

definition global_ok :: "counting_state \<Rightarrow> bool" where
  "global_ok s \<longleftrightarrow> (let total = stored s TaskA + stored s TaskB in
     unat (global_counter s) \<le> total \<and> (1 \<le> total \<longrightarrow> 1 \<le> unat (global_counter s)) \<and>
     (\<forall>t. counting_at s t = Storing \<longrightarrow> unat (loaded s t) \<le> total \<and> (1 \<le> stored s t \<longrightarrow> 1 \<le> unat (loaded s t))) \<and>
     (stored s TaskA = rounds \<and> stored s TaskB = rounds \<longrightarrow> 2 \<le> unat (global_counter s)))"

lemma stored_bound: "task_ok s t \<Longrightarrow> stored s t \<le> rounds"
  by (cases "counting_at s t") (auto simp: task_ok_def stored_def split: if_splits)

lemma task_cases: "(\<forall>t. P t) \<longleftrightarrow> P TaskA \<and> P TaskB"
  by (metis task.exhaust)

lemma global_ok_step:
  assumes "counting_step printing_cs t s s'" and "\<And>u. task_ok s u" and "global_ok s"
  shows "global_ok s'"
proof -
  let ?total = "stored s TaskA + stored s TaskB"
  have le: "stored s u \<le> rounds" for u using stored_bound [OF assms(2)] .
  have g: "unat (global_counter s) \<le> ?total" "1 \<le> ?total \<Longrightarrow> 1 \<le> unat (global_counter s)"
    "stored s TaskA = rounds \<Longrightarrow> stored s TaskB = rounds \<Longrightarrow> 2 \<le> unat (global_counter s)"
    and l: "\<And>u. counting_at s u = Storing \<Longrightarrow> unat (loaded s u) \<le> ?total"
      "\<And>u. counting_at s u = Storing \<Longrightarrow> 1 \<le> stored s u \<Longrightarrow> 1 \<le> unat (loaded s u)"
    using assms(3) by (auto simp: global_ok_def Let_def)
  have part: "stored s u \<le> ?total" for u by (cases u) simp_all
  consider
      (other) "global_counter s' = global_counter s" "stored s' = stored s"
        "\<forall>u. counting_at s' u = Storing \<longrightarrow>
          (if u = t then loaded s' u = global_counter s else counting_at s u = Storing \<and> loaded s' u = loaded s u)"
    | (store) "counting_at s t = Storing" "global_counter s' = loaded s t + 1" "stored s' = (stored s)(t := Suc (stored s t))"
        "\<forall>u. counting_at s' u = Storing \<longrightarrow> u \<noteq> t \<and> counting_at s u = Storing \<and> loaded s' u = loaded s u"
    using step_effect [OF assms(1,2)] by blast
  then show ?thesis
  proof cases
    case other
    have "unat (loaded s' u) \<le> ?total \<and> (1 \<le> stored s u \<longrightarrow> 1 \<le> unat (loaded s' u))" if "counting_at s' u = Storing" for u
      using that other(3) g(1,2) l part [of u] by (cases "u = t") auto
    then show ?thesis using g unfolding global_ok_def Let_def other(1,2) by blast
  next
    case store
    have total: "stored s' TaskA + stored s' TaskB = Suc ?total" by (cases t) (simp_all add: store(3))
    have "unat (loaded s t) \<le> 2 * rounds" using l(1) [OF store(1)] le [of TaskA] le [of TaskB] by linarith
    then have u: "unat (loaded s t + 1) = Suc (unat (loaded s t))" by (rule unat_u32_Suc)
    have "unat (loaded s' u) \<le> Suc ?total \<and> (1 \<le> stored s' u \<longrightarrow> 1 \<le> unat (loaded s' u))" if "counting_at s' u = Storing" for u
      using that store(4) l [of u] by (auto simp: store(3) intro: le_SucI)
    moreover have "2 \<le> Suc (unat (loaded s t))" if "stored s' t = rounds"
      using l(2) [OF store(1)] that by (simp add: store(3) rounds_def)
    moreover have "stored s' t = rounds" if "stored s' TaskA = rounds" "stored s' TaskB = rounds" using that by (cases t) simp_all
    ultimately show ?thesis
      using l(1) [OF store(1)] unfolding global_ok_def Let_def store(2) u total by auto
  qed
qed

lemma counting_counts_ok:
  assumes "counting_reachable printing_cs s"
  shows "task_ok s t" and "global_ok s"
proof -
  have "(\<forall>t. task_ok s t) \<and> global_ok s"
    using assms
  proof (induction rule: counting_reachable.induct)
    case (counting_init s)
    then show ?case by (simp add: counting_start_def task_ok_def global_ok_def stored_def rounds_def)
  next
    case (counting_next s t s')
    then show ?case using task_step_ok [OF counting_next.hyps(2)] global_ok_step [OF counting_next.hyps(2)] by blast
  qed
  then show "task_ok s t" and "global_ok s" by simp_all
qed

text \<open>C16: When both instances are done each has counted all its rounds, while the shared counter, which they
  increment without a lock, has some value from 2 to the sum.\<close>

theorem counting_bounds:
  assumes "counting_reachable printing_cs s" and "\<And>t. counting_at s t = Finished"
  shows "local_count s t = LOOP_COUNT \<and> 2 \<le> unat (global_counter s) \<and> unat (global_counter s) \<le> 2 * unat LOOP_COUNT"
proof -
  have c: "unat (local_count s u) = rounds" for u
    using counting_counts_ok(1) [OF assms(1), of u] assms(2) by (simp add: task_ok_def)
  then have "stored s u = rounds" for u using assms(2) by (simp add: stored_def)
  then show ?thesis
    using counting_counts_ok(2) [OF assms(1)] c [of t]
    by (simp add: global_ok_def Let_def LOOP_COUNT_rounds word_unat_eq_iff)
qed

subsection \<open>The reports\<close>

text \<open>An instance reads and prints inside the lock: with that reading, a step is a step of the lock or none.\<close>

fun lock_position :: "counting_pc \<Rightarrow> lock_pc" where
  "lock_position (Locking f) = Spinning"
| "lock_position (Reading f args) = Inside"
| "lock_position (Printing f cs) = Inside"
| "lock_position p = Outside"

definition task_index :: "task \<Rightarrow> nat" where
  "task_index t = (case t of TaskA \<Rightarrow> 0 | TaskB \<Rightarrow> 1)"

definition lock_view :: "counting_state \<Rightarrow> lock_state" where
  "lock_view s = \<lparr>lock_ram = counting_ram s,
     task_pc = (\<lambda>n. if n = 0 then lock_position (counting_at s TaskA)
       else if n = 1 then lock_position (counting_at s TaskB) else Outside)\<rparr>"

lemma lock_view_pc: "task_pc (lock_view s) (task_index t) = lock_position (counting_at s t)"
  by (cases t) (simp_all add: lock_view_def task_index_def)

lemma lock_view_update:
  "counting_at s' = (counting_at s)(t := p) \<Longrightarrow>
     lock_view s' = (lock_view s)\<lparr>lock_ram := counting_ram s', task_pc := (task_pc (lock_view s))(task_index t := lock_position p)\<rparr>"
  by (cases t) (simp_all add: lock_view_def task_index_def fun_eq_iff)

lemma lock_view_same:
  assumes "counting_at s' = (counting_at s)(t := p)" and "lock_position p = lock_position (counting_at s t)"
    and "counting_ram s' = counting_ram s"
  shows "lock_view s' = lock_view s"
proof -
  have "(task_pc (lock_view s))(task_index t := lock_position p) = task_pc (lock_view s)"
    by (simp add: assms(2) lock_view_pc [symmetric])
  moreover have "lock_ram (lock_view s) = counting_ram s" by (simp add: lock_view_def)
  ultimately show ?thesis using assms(3) by (simp add: lock_view_update [OF assms(1)])
qed

lemma counting_step_locks:
  assumes "counting_step printing_cs t s s'"
  shows "lock_view s' = lock_view s \<or> (\<exists>e. lock_step printing_cs e (lock_view s) (lock_view s'))"
proof -
  have ram: "lock_ram (lock_view s) = counting_ram s" by (simp add: lock_view_def)
  have wait: "lock_step printing_cs (Calls (task_index t)) (lock_view s) (lock_view s')"
    if "counting_at s' = (counting_at s)(t := p)" "lock_position p = Spinning" "lock_position (counting_at s t) = Outside"
      "counting_ram s' = counting_ram s" for p
    using lock_step.call_enter [of "lock_view s" "task_index t" printing_cs] that
    by (simp add: lock_view_update [OF that(1)] lock_view_pc ram [symmetric])
  show ?thesis
    using assms
  proof (cases rule: counting_step.cases)
    case loop_end
    then show ?thesis using wait [of "Locking True"] by auto
  next
    case store_report
    then show ?thesis using wait [of "Locking False"] by auto
  next
    case (try_lock f ok m)
    then have "lock_step printing_cs (Exchanges (task_index t)) (lock_view s) ((lock_view s)\<lparr>lock_ram := m,
        task_pc := (task_pc (lock_view s))(task_index t := if ok then Inside else Spinning)\<rparr>)"
      by (intro lock_step.try_enter) (simp_all add: lock_view_pc ram)
    then show ?thesis
      using try_lock lock_view_update [of s' s t "if ok then Reading f [] else Locking f"] by (fastforce split: if_splits)
  next
    case (unlock f)
    then have "lock_step printing_cs (Leaves (task_index t)) (lock_view s) ((lock_view s)\<lparr>lock_ram := leave printing_cs (counting_ram s),
        task_pc := (task_pc (lock_view s))(task_index t := Outside)\<rparr>)"
      using lock_step.call_leave [of "lock_view s" "task_index t" printing_cs] by (simp add: lock_view_pc ram)
    then show ?thesis
      using unlock lock_view_update [of s' s t "if f then Finished else AtLoop"] by (fastforce split: if_splits)
  qed (simp_all add: lock_view_same [where t = t])
qed

lemma counting_lock_inv:
  assumes "counting_reachable printing_cs s"
  shows "lock_inv printing_cs (lock_view s)"
  using assms
proof (induction rule: counting_reachable.induct)
  case (counting_init s)
  then show ?case by (simp add: counting_start_def lock_inv_def lock_view_def)
next
  case (counting_next s t s')
  then show ?case using counting_step_locks [OF counting_next.hyps(2)] lock_step_inv by metis
qed

lemma one_inside:
  assumes "lock_inv printing_cs (lock_view s)"
    and "lock_position (counting_at s t) = Inside" and "lock_position (counting_at s u) = Inside"
  shows "t = u"
proof -
  have "task_index t = task_index u"
    using assms lock_view_pc [of s t] lock_view_pc [of s u] unfolding lock_inv_def by auto
  then show ?thesis by (cases t; cases u) (simp_all add: task_index_def)
qed

text \<open>Whole reports.\<close>

definition reports :: "string set" where
  "reports = {concat ls | ls. set ls \<subseteq> {report f t a b g | f t a b g. True}}"

lemma reports_Nil: "[] \<in> reports"
  unfolding reports_def by (intro CollectI exI [of _ "[]"]) simp

lemma reports_snoc: "w \<in> reports \<Longrightarrow> w @ report f t a b g \<in> reports"
proof -
  assume "w \<in> reports"
  then obtain ls where "w = concat ls" "set ls \<subseteq> {report f t a b g | f t a b g. True}" by (auto simp: reports_def)
  then show "w @ report f t a b g \<in> reports"
    unfolding reports_def by (intro CollectI exI [of _ "ls @ [report f t a b g]"]) (simp, blast)
qed

text \<open>The output is a sequence of whole reports, then the part of one that its instance has printed.\<close>

definition output_ok :: "counting_state \<Rightarrow> bool" where
  "output_ok s \<longleftrightarrow>
     (\<forall>t f rest. counting_at s t = Printing f rest \<longrightarrow>
        (\<exists>w pre a b g. debug_out s = w @ pre \<and> w \<in> reports \<and> pre @ rest = report f t a b g)) \<and>
     ((\<forall>t f rest. counting_at s t \<noteq> Printing f rest) \<longrightarrow> debug_out s \<in> reports)"

lemma output_ok_same:
  assumes "output_ok s" and "counting_at s' = (counting_at s)(t := p)" and "debug_out s' = debug_out s"
    and "\<And>f rest. p \<noteq> Printing f rest" and "\<And>f rest. counting_at s t \<noteq> Printing f rest"
  shows "output_ok s'"
  using assms unfolding output_ok_def by (metis fun_upd_apply)

lemma output_ok_alone:
  assumes "\<And>u f rest. u \<noteq> t \<Longrightarrow> counting_at s u \<noteq> Printing f rest" and "counting_at s' = (counting_at s)(t := p)"
    and "case p of Printing f rest \<Rightarrow> \<exists>w pre a b g. debug_out s' = w @ pre \<and> w \<in> reports \<and> pre @ rest = report f t a b g
      | _ \<Rightarrow> debug_out s' \<in> reports"
  shows "output_ok s'"
proof -
  have only: "u = t \<and> p = Printing f rest" if "counting_at s' u = Printing f rest" for u f rest
    using that assms(1,2) by (cases "u = t") auto
  have t: "counting_at s' t = p" by (simp add: assms(2))
  show ?thesis
    unfolding output_ok_def
  proof (intro conjI allI impI)
    fix u f rest
    assume "counting_at s' u = Printing f rest"
    from only [OF this] assms(3)
    show "\<exists>w pre a b g. debug_out s' = w @ pre \<and> w \<in> reports \<and> pre @ rest = report f u a b g" by simp
  next
    assume "\<forall>t f rest. counting_at s' t \<noteq> Printing f rest"
    then have "\<nexists>f rest. p = Printing f rest" using t by metis
    then show "debug_out s' \<in> reports" using assms(3) by (cases p) auto
  qed
qed

lemma output_ok_step:
  assumes "counting_step printing_cs t s s'" and "lock_inv printing_cs (lock_view s)" and "output_ok s"
  shows "output_ok s'"
proof -
  have alone: "counting_at s u \<noteq> Printing f rest" if "lock_position (counting_at s t) = Inside" "u \<noteq> t" for u f rest
    using one_inside [OF assms(2), of u t] that by auto
  show ?thesis
    using assms(1)
  proof (cases rule: counting_step.cases)
    case (read_a f b g)
    have "counting_at s u \<noteq> Printing f rest" for u f rest using alone [of u] read_a(2) by (cases "u = t") auto
    then have d: "debug_out s \<in> reports" using assms(3) by (simp add: output_ok_def)
    show ?thesis
    proof (rule output_ok_alone [where s = s and t = t, OF alone])
      show "counting_at s' = (counting_at s)(t := Printing f (report f t (local_count s TaskA) b g))"
        by (simp add: read_a(1))
      show "case Printing f (report f t (local_count s TaskA) b g) of
          Printing f rest \<Rightarrow> \<exists>w pre a b g. debug_out s' = w @ pre \<and> w \<in> reports \<and> pre @ rest = report f t a b g
        | _ \<Rightarrow> debug_out s' \<in> reports"
        unfolding counting_pc.case by (rule exI [of _ "debug_out s"], rule exI [of _ "[]"]) (use d read_a(1) in auto)
    qed (simp_all add: read_a(2))
  next
    case (print_char f c cs)
    obtain w pre a b g where w: "debug_out s = w @ pre" "w \<in> reports" "pre @ c # cs = report f t a b g"
      using assms(3) print_char(2) unfolding output_ok_def by blast
    show ?thesis
    proof (rule output_ok_alone [where s = s and t = t, OF alone])
      show "counting_at s' = (counting_at s)(t := Printing f cs)" by (simp add: print_char(1))
      have "debug_out s' = w @ (pre @ [c])" and "(pre @ [c]) @ cs = report f t a b g" using w by (simp_all add: print_char(1))
      then show "case Printing f cs of
          Printing f rest \<Rightarrow> \<exists>w pre a b g. debug_out s' = w @ pre \<and> w \<in> reports \<and> pre @ rest = report f t a b g
        | _ \<Rightarrow> debug_out s' \<in> reports"
        unfolding counting_pc.case using w(2) by (intro exI [of _ w] exI [of _ "pre @ [c]"]) blast
    qed (simp_all add: print_char(2))
  next
    case (unlock f)
    obtain w pre a b g where w: "debug_out s = w @ pre" "w \<in> reports" "pre @ [] = report f t a b g"
      using assms(3) unlock(2) unfolding output_ok_def by blast
    then have "debug_out s' \<in> reports" using reports_snoc by (simp add: unlock(1))
    then show ?thesis
      by (intro output_ok_alone [where s = s and t = t and p = "if f then Finished else AtLoop", OF alone])
        (simp_all add: unlock)
  qed (rule output_ok_same [OF assms(3), where t = t], simp, simp, simp, simp)+
qed

text \<open>C15: The reports are never mixed: what is on the debug port is a sequence of whole reports, followed by the part
  of one that the instance in the lock has printed.\<close>

theorem reports_unmixed:
  assumes "counting_reachable printing_cs s"
  shows "\<exists>w pre rest. debug_out s = w @ pre \<and> w \<in> reports \<and> pre @ rest \<in> reports \<and>
    ((\<forall>t f cs. counting_at s t \<noteq> Printing f cs) \<longrightarrow> pre = [])"
proof -
  have ok: "output_ok s"
    using assms
  proof (induction rule: counting_reachable.induct)
    case (counting_init s)
    then show ?case by (simp add: counting_start_def output_ok_def reports_Nil)
  next
    case (counting_next s t s')
    then show ?case using output_ok_step counting_lock_inv by blast
  qed
  show ?thesis
  proof (cases "\<exists>t f cs. counting_at s t = Printing f cs")
    case True
    then obtain t f cs w pre a b g where "counting_at s t = Printing f cs" "debug_out s = w @ pre" "w \<in> reports"
      "pre @ cs = report f t a b g" using ok unfolding output_ok_def by blast
    then show ?thesis using reports_snoc [OF reports_Nil, of f t a b g] by (intro exI [of _ w] exI [of _ pre] exI [of _ cs]) auto
  next
    case False
    then have "debug_out s \<in> reports" using ok by (auto simp: output_ok_def)
    then show ?thesis using reports_Nil by (intro exI [of _ "debug_out s"] exI [of _ "[]"]) simp
  qed
qed

subsection \<open>A schedule that loses updates\<close>

definition lock_is_free :: "u32 \<Rightarrow> counting_state \<Rightarrow> bool" where
  "lock_is_free printing_cs s \<longleftrightarrow> read_u32 (counting_ram s) printing_cs = 0"

text \<open>What an instance running alone leaves of the rest.\<close>

definition others_same :: "task \<Rightarrow> counting_state \<Rightarrow> counting_state \<Rightarrow> bool" where
  "others_same t s s' \<longleftrightarrow> (\<forall>u. u \<noteq> t \<longrightarrow> counting_at s' u = counting_at s u \<and> loop_i s' u = loop_i s u \<and>
     local_count s' u = local_count s u \<and> loaded s' u = loaded s u)"

lemma others_same_trans: "others_same t s s1 \<Longrightarrow> others_same t s1 s2 \<Longrightarrow> others_same t s s2"
  by (simp add: others_same_def)

lemma solo_print:
  "counting_at s t = Printing f cs \<Longrightarrow>
     (counting_step printing_cs t)\<^sup>*\<^sup>* s (goto t (Printing f []) (s\<lparr>debug_out := debug_out s @ cs\<rparr>))"
proof (induction cs arbitrary: s)
  case Nil
  then have "goto t (Printing f []) (s\<lparr>debug_out := debug_out s @ []\<rparr>) = s" by (simp add: goto_def fun_upd_idem)
  then show ?case by simp
next
  case (Cons c cs)
  let ?s = "goto t (Printing f cs) (s\<lparr>debug_out := debug_out s @ [c]\<rparr>)"
  have "counting_step printing_cs t s ?s" by (rule counting_step.print_char [OF Cons.prems])
  moreover have "(counting_step printing_cs t)\<^sup>*\<^sup>* ?s (goto t (Printing f []) (?s\<lparr>debug_out := debug_out ?s @ cs\<rparr>))"
    by (rule Cons.IH) simp
  moreover have "goto t (Printing f []) (?s\<lparr>debug_out := debug_out ?s @ cs\<rparr>) =
      goto t (Printing f []) (s\<lparr>debug_out := debug_out s @ c # cs\<rparr>)" by (simp add: goto_def)
  ultimately show ?case by (metis converse_rtranclp_into_rtranclp)
qed

lemma solo_report:
  assumes "counting_at s t = Locking f" and "lock_is_free printing_cs s"
  shows "\<exists>s'. (counting_step printing_cs t)\<^sup>*\<^sup>* s s' \<and> counting_at s' t = (if f then Finished else AtLoop) \<and>
    loop_i s' t = (if f then loop_i s t else loop_i s t + 1) \<and> local_count s' t = local_count s t \<and>
    global_counter s' = global_counter s \<and> lock_is_free printing_cs s' \<and> others_same t s s'"
proof -
  let ?m = "write_u32 printing_cs 1 (counting_ram s)"
  let ?s1 = "goto t (Reading f []) (s\<lparr>counting_ram := ?m\<rparr>)"
  let ?s2 = "goto t (Reading f [global_counter ?s1]) ?s1"
  let ?s3 = "goto t (Reading f [local_count ?s2 TaskB, global_counter ?s1]) ?s2"
  let ?r = "report f t (local_count ?s3 TaskA) (local_count ?s2 TaskB) (global_counter ?s1)"
  let ?s4 = "goto t (Printing f ?r) ?s3"
  let ?s5 = "goto t (Printing f []) (?s4\<lparr>debug_out := debug_out ?s4 @ ?r\<rparr>)"
  let ?s6 = "continue f t (?s5\<lparr>counting_ram := leave printing_cs (counting_ram ?s5)\<rparr>)"
  have e: "enter_round printing_cs (counting_ram s) = (True, ?m)"
    using assms(2) by (simp add: enter_round_eq lock_is_free_def)
  have "counting_step printing_cs t s ?s1" using counting_step.try_lock [OF assms(1) e] by simp
  moreover have "counting_step printing_cs t ?s1 ?s2" by (rule counting_step.read_global) simp
  moreover have "counting_step printing_cs t ?s2 ?s3" by (rule counting_step.read_b) simp
  moreover have "counting_step printing_cs t ?s3 ?s4" by (rule counting_step.read_a) simp
  moreover have "(counting_step printing_cs t)\<^sup>*\<^sup>* ?s4 ?s5" by (rule solo_print) simp
  moreover have "counting_step printing_cs t ?s5 ?s6" by (rule counting_step.unlock) simp
  ultimately have "(counting_step printing_cs t)\<^sup>*\<^sup>* s ?s6"
    by (meson converse_rtranclp_into_rtranclp rtranclp.rtrancl_into_rtrancl)
  moreover have "lock_is_free printing_cs ?s6" by (simp add: lock_is_free_def leave_eq read_write_u32)
  ultimately show ?thesis by (intro exI [of _ ?s6]) (simp add: others_same_def)
qed

text \<open>From the store of the shared counter to the next round.\<close>

lemma solo_store:
  assumes "counting_at s t = Storing" and "lock_is_free printing_cs s"
  shows "\<exists>s'. (counting_step printing_cs t)\<^sup>*\<^sup>* s s' \<and> counting_at s' t = AtLoop \<and>
    loop_i s' t = loop_i s t + 1 \<and> local_count s' t = local_count s t \<and>
    global_counter s' = loaded s t + 1 \<and> lock_is_free printing_cs s' \<and> others_same t s s'"
proof (cases "loop_i s t mod REPORT_INTERVAL = 0")
  case True
  let ?s1 = "goto t (Locking False) (s\<lparr>global_counter := loaded s t + 1\<rparr>)"
  have f: "counting_at ?s1 t = Locking False" "lock_is_free printing_cs ?s1" using assms(2) by (simp_all add: lock_is_free_def)
  have "counting_step printing_cs t s ?s1" by (rule counting_step.store_report [OF assms(1) True])
  moreover have "others_same t s ?s1" by (simp add: others_same_def)
  ultimately show ?thesis
    using solo_report [OF f] others_same_trans
    by simp (meson converse_rtranclp_into_rtranclp)
next
  case False
  let ?s1 = "continue False t (s\<lparr>global_counter := loaded s t + 1\<rparr>)"
  have "counting_step printing_cs t s ?s1" by (rule counting_step.store_next [OF assms(1) False])
  then show ?thesis using assms(2) by (intro exI [of _ ?s1]) (simp add: others_same_def lock_is_free_def)
qed

text \<open>From the test of the loop to the store.\<close>

lemma solo_load:
  assumes "counting_at s t = AtLoop" and "loop_i s t \<le> LOOP_COUNT"
  shows "\<exists>s'. (counting_step printing_cs t)\<^sup>*\<^sup>* s s' \<and> counting_at s' t = Storing \<and> loop_i s' t = loop_i s t \<and>
    local_count s' t = local_count s t + 1 \<and> loaded s' t = global_counter s \<and>
    global_counter s' = global_counter s \<and> counting_ram s' = counting_ram s \<and> others_same t s s'"
proof -
  let ?s1 = "goto t Loading (s\<lparr>local_count := (local_count s)(t := local_count s t + 1)\<rparr>)"
  let ?s2 = "goto t Storing (?s1\<lparr>loaded := (loaded ?s1)(t := global_counter ?s1)\<rparr>)"
  have "counting_step printing_cs t s ?s1" by (rule counting_step.loop_round [OF assms])
  moreover have "counting_step printing_cs t ?s1 ?s2" by (rule counting_step.load_global) simp
  ultimately have "(counting_step printing_cs t)\<^sup>*\<^sup>* s ?s2" by (meson converse_rtranclp_into_rtranclp rtranclp.rtrancl_refl)
  then show ?thesis by (intro exI [of _ ?s2]) (simp add: others_same_def)
qed

lemma solo_rounds:
  "counting_at s t = AtLoop \<Longrightarrow> lock_is_free printing_cs s \<Longrightarrow> unat (loop_i s t) + k \<le> Suc rounds \<Longrightarrow>
     \<exists>s'. (counting_step printing_cs t)\<^sup>*\<^sup>* s s' \<and> counting_at s' t = AtLoop \<and>
       unat (loop_i s' t) = unat (loop_i s t) + k \<and> lock_is_free printing_cs s' \<and> others_same t s s'"
proof (induction k arbitrary: s)
  case 0
  then show ?case by (intro exI [of _ s]) (simp add: others_same_def)
next
  case (Suc k)
  have i: "loop_i s t \<le> LOOP_COUNT" using Suc.prems(3) by (simp add: word_le_nat_alt LOOP_COUNT_rounds)
  obtain s1 where s1: "(counting_step printing_cs t)\<^sup>*\<^sup>* s s1" "counting_at s1 t = Storing" "loop_i s1 t = loop_i s t"
    "counting_ram s1 = counting_ram s" "others_same t s s1"
    using solo_load [OF Suc.prems(1) i] by blast
  have free: "lock_is_free printing_cs s1" using Suc.prems(2) s1(4) by (simp add: lock_is_free_def)
  obtain s2 where s2: "(counting_step printing_cs t)\<^sup>*\<^sup>* s1 s2" "counting_at s2 t = AtLoop" "loop_i s2 t = loop_i s1 t + 1"
    "lock_is_free printing_cs s2" "others_same t s1 s2"
    using solo_store [OF s1(2) free] by blast
  have u: "unat (loop_i s2 t) = Suc (unat (loop_i s t))"
    using Suc.prems(3) unfolding s2(3) s1(3) by (intro unat_u32_Suc) (simp add: rounds_def)
  then obtain s3 where s3: "(counting_step printing_cs t)\<^sup>*\<^sup>* s2 s3" "counting_at s3 t = AtLoop"
    "unat (loop_i s3 t) = Suc (unat (loop_i s t)) + k" "lock_is_free printing_cs s3" "others_same t s2 s3"
    using Suc.IH [OF s2(2,4)] Suc.prems(3) by auto
  then show ?case
    using s1(1,5) s2(1,5) by (intro exI [of _ s3]) (auto intro: others_same_trans rtranclp_trans)
qed

text \<open>From the test after the last round to the end.\<close>

lemma solo_finish:
  assumes "counting_at s t = AtLoop" and "unat (loop_i s t) = Suc rounds" and "lock_is_free printing_cs s"
  shows "\<exists>s'. (counting_step printing_cs t)\<^sup>*\<^sup>* s s' \<and> counting_at s' t = Finished \<and>
    global_counter s' = global_counter s \<and> lock_is_free printing_cs s' \<and> others_same t s s'"
proof -
  let ?s1 = "goto t (Locking True) s"
  have "\<not> loop_i s t \<le> LOOP_COUNT" using assms(2) by (simp add: word_le_nat_alt LOOP_COUNT_rounds)
  then have "counting_step printing_cs t s ?s1" by (rule counting_step.loop_end [OF assms(1)])
  moreover have "counting_at ?s1 t = Locking True" "lock_is_free printing_cs ?s1" "others_same t s ?s1"
    using assms(3) by (simp_all add: lock_is_free_def others_same_def)
  ultimately show ?thesis
    using solo_report [of ?s1 t True printing_cs] others_same_trans
    by simp (meson converse_rtranclp_into_rtranclp)
qed

lemma reachable_solo:
  "(counting_step printing_cs t)\<^sup>*\<^sup>* s s' \<Longrightarrow> counting_reachable printing_cs s \<Longrightarrow> counting_reachable printing_cs s'"
  by (induction rule: rtranclp_induct) (auto intro: counting_reachable.counting_next)

definition counting_initial :: counting_state where
  "counting_initial = \<lparr>loop_i = (\<lambda>t. 1), local_count = (\<lambda>t. 0), global_counter = 0, loaded = (\<lambda>t. 0),
     counting_ram = (\<lambda>a. 0), counting_at = (\<lambda>t. AtLoop), debug_out = []\<rparr>"

lemma counting_initial_start: "counting_start printing_cs counting_initial"
  by (simp add: counting_start_def counting_initial_def read_u32_def)

text \<open>A loads 0 and waits while B does all its rounds but one; A stores 1, B loads it and waits while A runs to its
  end; B stores 2.\<close>

lemma updates_lost:
  "\<exists>s. counting_reachable printing_cs s \<and> (\<forall>t. counting_at s t = Finished) \<and> global_counter s = 2"
proof -
  let ?s0 = counting_initial
  have one: "(1 :: u32) \<le> LOOP_COUNT" by (simp add: LOOP_COUNT_def)
  have free0: "lock_is_free printing_cs ?s0" by (simp add: lock_is_free_def counting_initial_def read_u32_def)
  have at0: "counting_at ?s0 u = AtLoop" "loop_i ?s0 u = 1" "global_counter ?s0 = 0" for u by (simp_all add: counting_initial_def)
  obtain s1 where s1: "(counting_step printing_cs TaskA)\<^sup>*\<^sup>* ?s0 s1" "counting_at s1 TaskA = Storing"
    "loop_i s1 TaskA = 1" "loaded s1 TaskA = 0" "counting_ram s1 = counting_ram ?s0" "others_same TaskA ?s0 s1"
    using solo_load [of ?s0 TaskA printing_cs] at0 one by auto
  have "lock_is_free printing_cs s1" using free0 s1(5) by (simp add: lock_is_free_def)
  then obtain s2 where s2: "(counting_step printing_cs TaskB)\<^sup>*\<^sup>* s1 s2" "counting_at s2 TaskB = AtLoop"
    "unat (loop_i s2 TaskB) = rounds" "lock_is_free printing_cs s2" "others_same TaskB s1 s2"
    using solo_rounds [of s1 TaskB printing_cs "rounds - 1"] s1(6) at0 by (auto simp: others_same_def rounds_def)
  obtain s3 where s3: "(counting_step printing_cs TaskA)\<^sup>*\<^sup>* s2 s3" "counting_at s3 TaskA = AtLoop"
    "loop_i s3 TaskA = 2" "global_counter s3 = 1" "lock_is_free printing_cs s3" "others_same TaskA s2 s3"
    using solo_store [of s2 TaskA printing_cs] s2(4,5) s1(2-4) by (auto simp: others_same_def)
  have b: "counting_at s3 TaskB = AtLoop" "unat (loop_i s3 TaskB) = rounds"
    using s3(6) s2(2,3) by (simp_all add: others_same_def)
  then have "loop_i s3 TaskB \<le> LOOP_COUNT" by (simp add: word_le_nat_alt LOOP_COUNT_rounds)
  then obtain s4 where s4: "(counting_step printing_cs TaskB)\<^sup>*\<^sup>* s3 s4" "counting_at s4 TaskB = Storing"
    "loop_i s4 TaskB = loop_i s3 TaskB" "loaded s4 TaskB = 1" "counting_ram s4 = counting_ram s3" "others_same TaskB s3 s4"
    using solo_load [OF b(1)] s3(4) by auto
  have "lock_is_free printing_cs s4" using s3(5) s4(5) by (simp add: lock_is_free_def)
  then obtain s5 where s5: "(counting_step printing_cs TaskA)\<^sup>*\<^sup>* s4 s5" "counting_at s5 TaskA = AtLoop"
    "unat (loop_i s5 TaskA) = Suc rounds" "lock_is_free printing_cs s5" "others_same TaskA s4 s5"
    using solo_rounds [of s4 TaskA printing_cs "rounds - 1"] s4(6) s3(2,3) by (auto simp: others_same_def rounds_def)
  obtain s6 where s6: "(counting_step printing_cs TaskA)\<^sup>*\<^sup>* s5 s6" "counting_at s6 TaskA = Finished"
    "lock_is_free printing_cs s6" "others_same TaskA s5 s6"
    using solo_finish [OF s5(2-4)] by blast
  have b6: "counting_at s6 TaskB = Storing" "loaded s6 TaskB = 1" "unat (loop_i s6 TaskB) = rounds"
    using s6(4) s5(5) s4(2-4) b(2) by (simp_all add: others_same_def)
  obtain s7 where s7: "(counting_step printing_cs TaskB)\<^sup>*\<^sup>* s6 s7" "counting_at s7 TaskB = AtLoop"
    "loop_i s7 TaskB = loop_i s6 TaskB + 1" "global_counter s7 = 2" "lock_is_free printing_cs s7" "others_same TaskB s6 s7"
    using solo_store [OF b6(1) s6(3)] b6(2) by auto
  have "unat (loop_i s7 TaskB) = Suc rounds" unfolding s7(3) using b6(3) by (subst unat_u32_Suc) (simp_all add: rounds_def)
  then obtain s8 where s8: "(counting_step printing_cs TaskB)\<^sup>*\<^sup>* s7 s8" "counting_at s8 TaskB = Finished"
    "global_counter s8 = 2" "others_same TaskB s7 s8"
    using solo_finish [OF s7(2) _ s7(5)] s7(4) by auto
  have "counting_reachable printing_cs ?s0" by (rule counting_reachable.counting_init [OF counting_initial_start])
  then have "counting_reachable printing_cs s8"
    using s1(1) s2(1) s3(1) s4(1) s5(1) s6(1) s7(1) s8(1) reachable_solo by metis
  moreover have "counting_at s8 t = Finished" for t
    using s8(2,4) s7(6) s6(2) by (cases t) (simp_all add: others_same_def)
  ultimately show ?thesis using s8(3) by blast
qed

theorem counting_bounds_witness:
  "\<exists>s. counting_reachable 0xC0100000 s \<and> global_counter s = 2 \<and> local_count s TaskA = LOOP_COUNT"
proof -
  obtain s where s: "counting_reachable 0xC0100000 s" "\<And>t. counting_at s t = Finished" "global_counter s = 2"
    using updates_lost by blast
  from counting_bounds [OF s(1,2), of TaskA] s(1,3) show ?thesis by blast
qed

theorem reports_unmixed_witness:
  "\<exists>s. counting_reachable 0xC0100000 s \<and> (\<exists>t. counting_at s t = Finished) \<and> debug_out s \<in> reports"
proof -
  obtain s where s: "counting_reachable 0xC0100000 s" "\<And>t. counting_at s t = Finished" using updates_lost by blast
  from reports_unmixed [OF s(1)] s show ?thesis by auto
qed

end
