(* ===== verification/Boot_Task.thy ===== *)
theory Boot_Task
  imports Multitasking Kernel
begin

text \<open>
  From the start sequence to the first task: \<^verbatim>\<open>gdt::init\<close> and \<^verbatim>\<open>idt::init\<close> give the processor the tables that
  the start sequence filled, \<^verbatim>\<open>interrupts_enable\<close> opens the interrupts, and a task made by
  \<^verbatim>\<open>scheduler::new_task\<close> runs at the next tick of the timer.
\<close>

subsection \<open>Loading the tables\<close>

text \<open>
  \<open>gp\<close> and \<open>idtp\<close> are the addresses of the operands of \<^verbatim>\<open>lgdt\<close> and \<^verbatim>\<open>lidt\<close>, \<open>ret\<close> is a return address. The
  descriptor registers hold addresses of tables; \<open>gdtr\<close> and \<open>idtr\<close> stand for what is in them, so that
  gates set after \<^verbatim>\<open>lidt\<close> count. \<^verbatim>\<open>ltr\<close> selects the only task state segment there is, whose words are \<open>tss\<close>.
\<close>

definition gdt_load :: "(('z) sched_state_scheme) environment \<Rightarrow> u32 \<Rightarrow> u32 \<Rightarrow> ('z) config \<Rightarrow> ('z) config outcome" where
  "gdt_load env gp ret cs = exec_all env (gdt_flush gp) (push32 ret cs)"

definition idt_init :: "(('z) sched_state_scheme) environment \<Rightarrow> u32 \<Rightarrow> u32 \<Rightarrow> ('z) config \<Rightarrow> ('z) config outcome" where
  "idt_init env idtp ret cs = exec_all env (idt_load @ [Add ESP 4]) (push32 ret (push32 idtp cs))"

definition cpu_start ::
    "(('z) sched_state_scheme) environment \<Rightarrow> u32 \<Rightarrow> u32 \<Rightarrow> u32 \<Rightarrow> ('z) config \<Rightarrow> ('z) config outcome" where
  "cpu_start env gp idtp ret cs =
     outcome_bind (gdt_load env gp ret cs) (\<lambda>cs1.
     outcome_bind (idt_init env idtp ret cs1) (\<lambda>cs2. exec_all env interrupts_enable (push32 ret cs2)))"

lemma cpu_start_exec:
  assumes "cpu_start env gp idtp ret (c0, s) = Done (c, s1)"
  shows "gdtr c = gdt_at env gp \<and> idtr c = idt_at env idtp \<and> cpl c = 0 \<and> bit (eflags c) 9 \<and>
    gpr c ESP = gpr c0 ESP \<and> (\<exists>m. s1 = s\<lparr>ram := m\<rparr>)"
proof -
  have z: "(0x08 :: u16) AND 3 = 0" by simp
  have b: "bit (x OR 0x200 :: u32) 9" for x by (simp add: bit_or_iff bit_numeral_rec)
  have r: "read_u32 (write_u32 (e - 8) ret (write_u32 (e - 4) idtp m)) (e - 4) = idtp" for e :: u32 and m
    by (subst read_write_u32_other) (simp_all add: read_write_u32)
  show ?thesis
    using assms
    by (auto simp: r cpu_start_def gdt_load_def gdt_flush_def idt_init_def idt_load_def interrupts_enable_def
        push32_def pop32_def Let_def cpl_def z b add.commute [of _ "gpr c0 ESP"])
qed

lemma cpu_start_returns: "\<exists>c s1. cpu_start env gp idtp ret (c0, s) = Done (c, s1)"
  by (simp add: cpu_start_def gdt_load_def gdt_flush_def idt_init_def idt_load_def interrupts_enable_def push32_def pop32_def Let_def)

subsection \<open>What the start sequence leaves for the tasks\<close>

lemma gdt_init_ring0: "length table = 6 \<Longrightarrow> gdt_init tss_addr table = Done t \<Longrightarrow> selector_ring t 0x08 = 0"
proof -
  assume "length table = 6" "gdt_init tss_addr table = Done t"
  then have "map (\<lambda>e. (segment_base e, segment_limit e, segment_ring e, segment_code e)) (take 4 (tl t)) =
       [(0, 0xFFFFFFFF, 0, True), (0, 0xFFFFFFFF, 0, False), (0, 0xFFFFFFFF, 3, True), (0, 0xFFFFFFFF, 3, False)]"
    "length t = 6" using gdt_init_ok [of table tss_addr] by auto
  then have "segment_ring (t ! 1) = 0" by (auto simp: length_Suc_conv numeral_eq_Suc)
  then show "selector_ring t 0x08 = 0" by (simp add: selector_ring_def)
qed

text \<open>The addresses the stubs are assembled with.\<close>

definition kernel_stubs :: "kernel_addresses \<Rightarrow> u32 \<Rightarrow> u32 \<Rightarrow> stub_addresses" where
  "kernel_stubs a irq_handler_addr fault_handler_addr =
     \<lparr>sa_irq_handler = irq_handler_addr, sa_fault_handler = fault_handler_addr, sa_stub = a_stub a\<rparr>"

lemma kernel_init_tables:
  assumes "kernel_init a bm mbt s = Done k" and "length (k_gdt s) = 6" and "length (k_idt s) = 256"
    and "distinct (map (a_stub a) [0..<48])" and "gdtr c = k_gdt k" and "idtr c = k_idt k"
  shows "tables_ready (kernel_stubs a h f) c"
proof -
  obtain idt ws where idt: "irq_init (a_stub a) (isr_init (a_stub a) (k_idt s)) = (idt, ws)" by (rule prod.exhaust)
  then obtain gdt where k: "gdt_init (a_tss a) (k_gdt s) = Done gdt" "k_gdt k = gdt" "k_idt k = idt"
    using assms(1) by (auto simp: kernel_init_def)
  have "present_gate (a_stub a v) (idt ! v)" if "v < 48" for v
    using idt_vectors_ok [OF assms(3), of v "a_stub a"] that idt by simp
  moreover have "length idt = 256" using idt assms(3) by (auto simp: irq_init_def isr_init_def Let_def)
  ultimately show ?thesis
    using gdt_init_ring0 [OF assms(2) k(1)] assms(4) by (simp add: tables_ready_def kernel_stubs_def assms(5,6) k(2,3))
qed

lemma kernel_init_sched:
  assumes "kernel_init a bm mbt s = Done k" and "length (irq_routines (k_sched s)) = 16"
  shows "length (irq_routines (k_sched k)) = 16 \<and> irq_routines (k_sched k) ! 0 = a_scheduler a \<and>
    tss (k_sched k) = tss (k_sched s) \<and> s_task_list (k_sched k) = s_task_list (k_sched s) \<and>
    s_current_task (k_sched k) = s_current_task (k_sched s)"
proof -
  obtain idt ws where "irq_init (a_stub a) (isr_init (a_stub a) (k_idt s)) = (idt, ws)" by (rule prod.exhaust)
  moreover have "irq_routines (k_sched s) \<noteq> []" using assms(2) by auto
  ultimately show ?thesis
    using assms
    by (auto simp: kernel_init_def keyboard_init_def scheduler_init_def syscall_init_def floppy_init_def install_handler_def
      DEFAULT_FLOPPY_IRQ_def)
qed

text \<open>C19: After the start sequence, with the tables loaded and the interrupts enabled, a new task starts at the next
  tick of the timer, at its entry point, in ring 3 and on its own stack.\<close>

theorem boot_starts_task:
  assumes "kernel_init a bm mbt s = Done k" and "length (k_gdt s) = 6" and "length (k_idt s) = 256"
    and "length (irq_routines (k_sched s)) = 16" and "length (tss (k_sched s)) = 32"
    and "s_task_list (k_sched s) = []" and "s_current_task (k_sched s) = None"
    and "distinct (map (a_stub a) [0..<48])" and "a_scheduler a \<noteq> 0"
    and "gdt_at env gp = k_gdt k" and "idt_at env idtp = k_idt k" and "unat (stack_use env) \<le> 4000"
    and "c_function env h_irq = irq_handler (task_handlers (a_scheduler a) (a_syscall a))"
    and "cpu_start env gp idtp ret (c0, k_sched k) = Done (c, s1)"
    and "new_task user_stack entry (h, s1) = Done (h', s2)"
    and "apart (kernel_stack (last (s_task_list s2))) (gpr c0 ESP + 8)"
  shows "\<exists>p s3. device_interrupt env (kernel_stubs a h_irq h_fault) 32 (c, s2) = Done (p, s3) \<and>
    start_processor entry (user_stack + 4096) c p \<and> s_current_task s3 = Some 0"
proof -
  let ?a = "kernel_stubs a h_irq h_fault"
  obtain m where c: "gdtr c = k_gdt k" "idtr c = k_idt k" "cpl c = 0" "bit (eflags c) 9" "gpr c ESP = gpr c0 ESP"
    "s1 = (k_sched k)\<lparr>ram := m\<rparr>"
    using cpu_start_exec [OF assms(14)] assms(10,11) by auto
  note k = kernel_init_sched [OF assms(1,4)]
  have "tables_ready ?a c" by (rule kernel_init_tables [OF assms(1-3,8) c(1,2)])
  moreover have "timer_installed env ?a s1"
    using k assms(5,9,12,13) by (auto simp: timer_installed_def c(6) kernel_stubs_def)
  ultimately have "tasks_inv env ?a (\<lambda>i. c) (c, s1)"
    using k c(4) assms(6,7) by (simp add: tasks_inv_def stacks_apart_def tasks_suspended_def c(6))
  moreover have "running_stack (c, s1) = gpr c0 ESP + 8"
    by (simp add: running_stack_def frame_address_def c(3,5))
  moreover have "s_current_task s1 = None" "s_task_list s1 = []" using k assms(6,7) by (simp_all add: c(6))
  ultimately show ?thesis using first_task_runs [OF _ _ _ assms(15)] assms(16) by metis
qed

subsection \<open>A machine that starts a task\<close>

definition boot_environment :: "kernel_state \<Rightarrow> sched_state environment" where
  "boot_environment k = \<lparr>
     c_function = (\<lambda>f. irq_handler (task_handlers (a_scheduler boot_addresses) (a_syscall boot_addresses))),
     left_ecx = 1, left_edx = 2, left_eflags = 0, left_stack = (\<lambda>a. 0xCC), stack_use = 0x100,
     port_in = (\<lambda>p s. (0, s)), clears_upper = True, gdt_at = (\<lambda>p. k_gdt k), idt_at = (\<lambda>p. k_idt k)\<rparr>"

theorem boot_starts_task_witness:
  "\<exists>k c s1 s2 p s3. kernel_init boot_addresses boot_bytes boot_mbi boot_kernel = Done k \<and>
     cpu_start (boot_environment k) 0xC0106000 0xC0300000 0xC0107000 (boot_processor, k_sched k) = Done (c, s1) \<and>
     device_interrupt (boot_environment k) (kernel_stubs boot_addresses 0xC0102000 0xC0103000) 32 (c, s2) = Done (p, s3) \<and>
     eip p = 0x500000 \<and> sreg p CS = 0x1B"
proof -
  obtain k where k: "kernel_init boot_addresses boot_bytes boot_mbi boot_kernel = Done k"
    using kernel_init_ok [OF boot_kernel_facts] by blast
  obtain c s1 where c: "cpu_start (boot_environment k) 0xC0106000 0xC0300000 0xC0107000 (boot_processor, k_sched k) = Done (c, s1)"
    using cpu_start_returns by blast
  obtain h' s2 where n: "new_task 0x600000 0x500000 (heap_start sample_physical, s1) = Done (h', s2)"
    "kernel_stack (last (s_task_list s2)) = 0xC0006000" using sample_new_task by blast
  have d: "distinct (map (a_stub boot_addresses) [0..<48])"
    using stubs_distinct [of "0xC0100000"] by (simp add: boot_addresses_def)
  have t: "length (tss (k_sched boot_kernel)) = 32" "s_task_list (k_sched boot_kernel) = []"
    "s_current_task (k_sched boot_kernel) = None" "a_scheduler boot_addresses \<noteq> 0"
    by (simp_all add: boot_kernel_def boot_addresses_def)
  have e: "gdt_at (boot_environment k) 0xC0106000 = k_gdt k" "idt_at (boot_environment k) 0xC0300000 = k_idt k"
    "unat (stack_use (boot_environment k)) \<le> 4000"
    "c_function (boot_environment k) 0xC0102000 = irq_handler (task_handlers (a_scheduler boot_addresses) (a_syscall boot_addresses))"
    by (simp_all add: boot_environment_def)
  have "apart (kernel_stack (last (s_task_list s2))) (gpr boot_processor ESP + 8)"
    by (simp add: apart_def n(2) boot_processor_def)
  from boot_starts_task [OF k boot_kernel_facts(13-15) t(1-3) d t(4) e c n(1) this]
  show ?thesis using k c unfolding start_processor_def by blast
qed

end
