(* ===== verification/Self_Test.thy ===== *)
theory Self_Test
  imports Paging_Build Kernel
begin

text \<open>
  The tests built into the kernel, which nothing calls: \<^verbatim>\<open>paging_test\<close> of \<^verbatim>\<open>src/paging.cpp\<close>, which maps two pages
  to one frame, and \<^verbatim>\<open>floppy_test\<close> of \<^verbatim>\<open>src/floppy.cpp\<close>, which reads the start of the disk and dumps it; and
  \<^verbatim>\<open>PageDirectory::map_page\<close>, which only checks its arguments.
\<close>

subsection \<open>paging\_test\<close>

text \<open>\<^verbatim>\<open>memset\<close> of \<open>n\<close> entries of a table from entry \<open>i\<close> on, word by word.\<close>

fun clear_entries :: "u32 \<Rightarrow> nat \<Rightarrow> nat \<Rightarrow> machine \<Rightarrow> machine outcome" where
  "clear_entries table i 0 m = Done m"
| "clear_entries table i (Suc n) m =
     outcome_bind (vwrite (table + 4 * word_of_nat i) 0 m) (clear_entries table (Suc i) n)"

text \<open>
  \<open>table\<close> is the address of \<^verbatim>\<open>test_page_table\<close>, the last two arguments are what the uninitialised entries
  hold. The result is what the last three lines print.
\<close>

definition test_pde :: "u32 \<Rightarrow> u32 \<Rightarrow> u32" where
  "test_pde vtp junk = set_pde_page_table_addr (drop_bit 12 vtp) (set_pde_enable4m 0 (set_pde_present 1 (set_pde_writable 1 junk)))"

definition test_pte :: "u32 \<Rightarrow> u32 \<Rightarrow> u32" where
  "test_pte physical_addr junk = set_pte_page_addr (drop_bit 12 physical_addr) (set_pte_writable 1 (set_pte_present 1 junk))"

definition paging_test :: "u32 \<Rightarrow> u32 \<Rightarrow> u32 \<Rightarrow> machine \<Rightarrow> (u32 list \<times> machine) outcome" where
  "paging_test table pde_junk pte_junk m =
     outcome_bind (virtual_to_physical m 0xFFF00000) (\<lambda>vtest.
     let virtual_addr = 0xB03FA000; physical_addr = 0x00400000; pte = test_pte physical_addr pte_junk;
         i = drop_bit 12 virtual_addr AND 0x3FF in
     outcome_bind (virtual_to_physical m table) (\<lambda>vtp.
     outcome_bind (clear_entries table 0 1024 m) (\<lambda>m1.
     outcome_bind (vwrite (table + 4 * i) pte m1) (\<lambda>m2.
     outcome_bind (vwrite (table + 4 * (i + 1)) pte m2) (\<lambda>m3.
     let m4 = invlpg virtual_addr (update_dir_entry (drop_bit 22 virtual_addr) (\<lambda>e. test_pde vtp pde_junk) m3) in
     outcome_bind (vread m4 0xB03FA000) (\<lambda>p1.
     outcome_bind (vwrite 0xB03FA000 0x12345678 m4) (\<lambda>m5.
     outcome_bind (vread m5 0xB03FA000) (\<lambda>p2.
     outcome_bind (vread m5 0xB03FB000) (\<lambda>q. Done ([p1, p2, q], m5))))))))))"

text \<open>A table inside a large page, apart from the directory.\<close>

definition table_at :: "machine \<Rightarrow> u32 \<Rightarrow> u32 \<Rightarrow> bool" where
  "table_at m table frame \<longleftrightarrow> take_bit 12 frame = 0 \<and> frame \<noteq> cr3 m \<and>
     (\<forall>i < 1024. mmu_walk m (table + 4 * word_of_nat i) = Some (pt_entry_addr frame (word_of_nat i))) \<and>
     pde_present (dir_entry m (drop_bit 22 table)) \<noteq> 0 \<and> pde_enable4m (dir_entry m (drop_bit 22 table)) \<noteq> 0 \<and>
     (\<forall>i < 1024. drop_bit 22 (table + 4 * word_of_nat i) = drop_bit 22 table)"

lemma frame_of_entry:
  assumes "take_bit 12 t = 0" and "take_bit 10 i = i"
  shows "push_bit 12 (drop_bit 12 (pt_entry_addr t i)) = t"
proof -
  have "bit t n \<Longrightarrow> 12 \<le> n" for n using assms(1) by (metis bit_take_bit_iff bit_0_eq bot_apply not_le bot_bool_def)
  moreover have "\<not> bit i n" if "10 \<le> n" for n using bit_index [OF assms(2), of n] that by auto
  ultimately show ?thesis by (intro bit_eqI) (auto simp: pt_entry_addr_def bit_simps dest: bit_imp_le_length)
qed

lemma entry_frames_distinct:
  "take_bit 12 t = 0 \<Longrightarrow> take_bit 12 u = 0 \<Longrightarrow> t \<noteq> u \<Longrightarrow> take_bit 10 i = i \<Longrightarrow> take_bit 10 j = j \<Longrightarrow>
     pt_entry_addr t i \<noteq> pt_entry_addr u j"
  using frame_of_entry by metis

text \<open>Writing an entry of the table keeps the directory, so the table stays where it is.\<close>

lemma vwrite_table:
  assumes "take_bit 12 (cr3 m) = 0" and "table_at m table frame" and "i < 1024"
  shows "vwrite (table + 4 * word_of_nat i) v m = Done (m\<lparr>mem := (mem m)(pt_entry_addr frame (word_of_nat i) := v)\<rparr>)"
    and "table_at (m\<lparr>mem := (mem m)(pt_entry_addr frame (word_of_nat i) := v)\<rparr>) table frame"
    and "dir_entry (m\<lparr>mem := (mem m)(pt_entry_addr frame (word_of_nat i) := v)\<rparr>) (drop_bit 22 va) = dir_entry m (drop_bit 22 va)"
proof -
  let ?m = "m\<lparr>mem := (mem m)(pt_entry_addr frame (word_of_nat i) := v)\<rparr>"
  have f: "take_bit 12 frame = 0" "frame \<noteq> cr3 m" using assms(2) by (simp_all add: table_at_def)
  show "vwrite (table + 4 * word_of_nat i) v m = Done ?m"
    using assms(2,3) by (simp add: vwrite_def table_at_def)
  have d: "dir_entry ?m (drop_bit 22 w) = dir_entry m (drop_bit 22 w)" for w
    using entry_frames_distinct [OF f(1) assms(1) f(2) small_index [OF assms(3)] drop_22_index, of w]
    by (auto simp: dir_entry_def)
  then show "dir_entry ?m (drop_bit 22 va) = dir_entry m (drop_bit 22 va)" .
  have "mmu_walk ?m (table + 4 * word_of_nat k) = mmu_walk m (table + 4 * word_of_nat k)" if "k < 1024" for k
    using assms(2) that d [of table] by (simp add: mmu_walk_entries table_at_def Let_def)
  then show "table_at ?m table frame" using assms(2) d [of table] by (simp add: table_at_def)
qed

lemma clear_entries_ok:
  "take_bit 12 (cr3 m) = 0 \<Longrightarrow> table_at m table frame \<Longrightarrow> i + n \<le> 1024 \<Longrightarrow>
     \<exists>m'. clear_entries table i n m = Done m' \<and> table_at m' table frame \<and> cr3 m' = cr3 m \<and>
       (\<forall>va. dir_entry m' (drop_bit 22 va) = dir_entry m (drop_bit 22 va))"
proof (induction n arbitrary: i m)
  case (Suc n)
  let ?m = "m\<lparr>mem := (mem m)(pt_entry_addr frame (word_of_nat i) := 0)\<rparr>"
  have i: "i < 1024" using Suc.prems(3) by simp
  note w = vwrite_table [OF Suc.prems(1,2) i, of 0]
  obtain m' where "clear_entries table (Suc i) n ?m = Done m'" "table_at m' table frame" "cr3 m' = cr3 ?m"
    "\<forall>va. dir_entry m' (drop_bit 22 va) = dir_entry ?m (drop_bit 22 va)"
    using Suc.IH [OF _ w(2), of "Suc i"] Suc.prems(1,3) by auto
  then show ?case using w(1,3) by simp
qed auto

text \<open>A page behind the test directory entry and an entry of the table.\<close>

lemma test_entry_walk:
  assumes "drop_bit 22 va = i" and "dir_entry m i = test_pde frame junk" and "take_bit 12 frame = 0"
    and "mem m (pt_entry_addr frame (take_bit 10 (drop_bit 12 va))) = test_pte pa junk'" and "take_bit 12 pa = 0"
    and "take_bit 12 va = 0"
  shows "mmu_walk m va = Some pa"
proof -
  have pages: "push_bit 12 (take_bit 20 (drop_bit 12 (a :: u32))) = a" if "take_bit 12 a = 0" for a
  proof -
    have "bit a n \<Longrightarrow> 12 \<le> n" for n using that by (metis bit_take_bit_iff bit_0_eq bot_apply not_le bot_bool_def)
    then show ?thesis by (intro bit_eqI) (auto simp: bit_simps dest: bit_imp_le_length)
  qed
  have e: "pde_present (test_pde frame junk) = 1" "pde_enable4m (test_pde frame junk) = 0"
    "push_bit 12 (pde_page_table_addr (test_pde frame junk)) = frame"
    "pte_present (test_pte pa junk') = 1" "push_bit 12 (pte_page_addr (test_pte pa junk')) = pa"
    using pages assms(3,5) by (simp_all add: test_pde_def test_pte_def pde_defs pte_defs set_pte_writable_def)
  have "table_entry m i (take_bit 10 (drop_bit 12 va)) = test_pte pa junk'"
    using assms(4) by (simp add: table_entry_def assms(2) e(3))
  then show ?thesis by (simp add: mmu_walk_entries assms(1,2,6) e Let_def)
qed

text \<open>Both pages are mapped to the same frame: what is written through one is read through the other.\<close>

theorem paging_test_aliases:
  assumes "self_mapped m" and "take_bit 12 (cr3 m) = 0" and "table_at m table frame"
    and "virtual_to_physical m table = Done frame" and "frame \<noteq> 0x400000" and "cr3 m \<noteq> 0x400000"
  shows "\<exists>p1 m'. paging_test table pde_junk pte_junk m = Done ([p1, 0x12345678, 0x12345678], m') \<and>
    mmu_walk m' 0xB03FA000 = Some 0x400000 \<and> mmu_walk m' 0xB03FB000 = Some 0x400000"
proof -
  have f: "take_bit 12 frame = 0" "frame \<noteq> cr3 m" using assms(3) by (simp_all add: table_at_def)
  have n: "(0x3FA :: u32) = word_of_nat 1018" "(0x3FB :: u32) = word_of_nat 1019" by simp_all
  have idx: "take_bit 10 (0x3FA :: u32) = 0x3FA" "take_bit 10 (0x3FB :: u32) = 0x3FB" "take_bit 10 (0x2C0 :: u32) = 0x2C0"
    by (simp_all add: take_bit_eq_mod)
  let ?pte = "test_pte 0x400000 pte_junk"
  obtain m1 where m1: "clear_entries table 0 1024 m = Done m1" "table_at m1 table frame" "cr3 m1 = cr3 m"
    using clear_entries_ok [OF assms(2,3), of 0 1024] by auto
  define m2 where "m2 = m1\<lparr>mem := (mem m1)(pt_entry_addr frame 0x3FA := ?pte)\<rparr>"
  define m3 where "m3 = m2\<lparr>mem := (mem m2)(pt_entry_addr frame 0x3FB := ?pte)\<rparr>"
  define m4 where "m4 = invlpg 0xB03FA000 (update_dir_entry 0x2C0 (\<lambda>e. test_pde frame pde_junk) m3)"
  define m5 where "m5 = m4\<lparr>mem := (mem m4)(0x400000 := 0x12345678)\<rparr>"
  have c: "cr3 m2 = cr3 m" "cr3 m3 = cr3 m" "cr3 m4 = cr3 m" "cr3 m5 = cr3 m"
    by (simp_all add: m2_def m3_def m4_def m5_def m1(3))
  have a1: "take_bit 12 (cr3 m1) = 0" "take_bit 12 (cr3 m2) = 0" by (simp_all add: m1(3) c assms(2))
  have w2: "vwrite (table + 4 * 0x3FA) ?pte m1 = Done m2" "table_at m2 table frame"
    using vwrite_table(1,2) [OF a1(1) m1(2), of 1018 ?pte] by (simp_all add: m2_def)
  have w3: "vwrite (table + 4 * 0x3FB) ?pte m2 = Done m3"
    using vwrite_table(1) [OF a1(2) w2(2), of 1019 ?pte] by (simp add: m3_def)
  have d: "pt_entry_addr frame 0x3FA \<noteq> pt_entry_addr frame 0x3FB" "pt_entry_addr frame 0x3FA \<noteq> pt_entry_addr (cr3 m) 0x2C0"
    "pt_entry_addr frame 0x3FB \<noteq> pt_entry_addr (cr3 m) 0x2C0"
    using entry_inj [OF f(1) idx(1,2)] entry_frames_distinct [OF f(1) assms(2) f(2)] idx by simp_all
  have page: "push_bit 12 (drop_bit 12 (0x400000 :: u32)) = 0x400000" by simp
  have e: "pt_entry_addr frame 0x3FA \<noteq> 0x400000" "pt_entry_addr frame 0x3FB \<noteq> 0x400000" "pt_entry_addr (cr3 m) 0x2C0 \<noteq> 0x400000"
    using frame_of_entry [OF f(1) idx(1)] frame_of_entry [OF f(1) idx(2)] frame_of_entry [OF assms(2) idx(3)] assms(5,6) page
    by metis+
  have walk: "mmu_walk x 0xB03FA000 = Some 0x400000" "mmu_walk x 0xB03FB000 = Some 0x400000" if "x = m4 \<or> x = m5" for x
  proof -
    have x: "dir_entry x 0x2C0 = test_pde frame pde_junk" "mem x (pt_entry_addr frame 0x3FA) = ?pte"
      "mem x (pt_entry_addr frame 0x3FB) = ?pte"
      using that d e by (auto simp: dir_entry_def c m5_def m4_def m3_def m2_def invlpg_def update_dir_entry_def m1(3))
    show "mmu_walk x 0xB03FA000 = Some 0x400000" "mmu_walk x 0xB03FB000 = Some 0x400000"
      using x f(1) by (intro test_entry_walk [where i = "0x2C0" and frame = frame and junk = pde_junk and junk' = pte_junk];
        simp add: take_bit_eq_mod)+
  qed
  obtain v where v: "virtual_to_physical m 0xFFF00000 = Done v" using virtual_to_physical_walk [OF assms(1)] by blast
  have m4: "invlpg 0xB03FA000 (update_dir_entry 704 (\<lambda>e. test_pde frame pde_junk) m3) = m4" by (simp add: m4_def)
  have "vread m4 0xB03FA000 = Done (mem m4 0x400000)" "vwrite 0xB03FA000 0x12345678 m4 = Done m5"
    "vread m5 0xB03FA000 = Done 0x12345678" "vread m5 0xB03FB000 = Done 0x12345678"
    by (simp_all add: vread_def vwrite_def walk) (simp_all add: m5_def)
  then have "paging_test table pde_junk pte_junk m = Done ([mem m4 0x400000, 0x12345678, 0x12345678], m5)"
    using v assms(4) m1(1) w2(1) w3 m4 by (simp add: paging_test_def Let_def)
  then show ?thesis using walk [of m5] by blast
qed

text \<open>The kernel's large page at its base, and a table in it.\<close>

lemma sample_table_at: "table_at sample_machine 0xC0006000 0x6000"
proof -
  have "mmu_walk sample_machine (0xC0006000 + 4 * word_of_nat i) = Some (pt_entry_addr 0x6000 (word_of_nat i)) \<and>
      drop_bit 22 (0xC0006000 + 4 * word_of_nat i :: u32) = 0x300" if "i < 1024" for i :: nat
  proof -
    define va where "va = (0xC0006000 + 4 * word_of_nat i :: u32)"
    have w: "unat (4 * word_of_nat i :: u32) = 4 * i"
      using that by (subst unat_u32_mult) (simp_all add: unat_u32_of_nat)
    then have u: "unat va = 0xC0006000 + 4 * i" using that unfolding va_def by (subst unat_u32_add) simp_all
    then have "unat (drop_bit 22 va) = 0x300" using that u unfolding unat_drop_bit_eq by (simp add: drop_bit_eq_div)
    then have d: "drop_bit 22 va = 0x300" by (simp add: word_unat_eq_iff)
    have "(0xC0006000 + 4 * i) mod 4194304 = ((24576 + 4 * i) + 768 * 4194304) mod 4194304" by (simp add: ac_simps)
    also have "\<dots> = 0x6000 + 4 * i" using that by (simp only: mod_mult_self1) simp
    finally have "unat (take_bit 22 va) = 0x6000 + 4 * i" using u unfolding unsigned_take_bit_eq by (simp add: take_bit_eq_mod)
    moreover have "unat (0x6000 + 4 * word_of_nat i :: u32) = 0x6000 + 4 * i" using that w by (subst unat_u32_add) simp_all
    ultimately have t: "take_bit 22 va = 0x6000 + 4 * word_of_nat i" by (simp add: word_unat_eq_iff)
    have "\<not> (bit (0x6000 :: u32) n \<and> bit (push_bit 2 (word_of_nat i) :: u32) n)" for n
      using bit_index [OF small_index [OF that], of "n - 2"] by (auto simp: bit_simps bit_numeral_rec split: nat.splits)
    then have "0x6000 + push_bit 2 (word_of_nat i) = (0x6000 OR push_bit 2 (word_of_nat i) :: u32)"
      by (intro disjunctive_add) blast
    then have "take_bit 22 va = pt_entry_addr 0x6000 (word_of_nat i)" using t by (simp add: pt_entry_addr_def times_4)
    moreover have "mmu_walk sample_machine va = Some (take_bit 22 va)"
      by (simp add: mmu_walk_def d sample_machine_def pt_entry_addr_def pde_defs get_field_def Let_def)
    ultimately show ?thesis using d by (simp add: va_def)
  qed
  then show ?thesis
    by (simp add: table_at_def) (simp add: sample_machine_def dir_entry_def pt_entry_addr_def pde_defs get_field_def)
qed

theorem paging_test_aliases_witness:
  "\<exists>p1 m'. paging_test 0xC0006000 0xFFFFFFFF 0xFFFFFFFF sample_machine = Done ([p1, 0x12345678, 0x12345678], m') \<and>
     mmu_walk m' 0xB03FB000 = Some 0x400000"
proof -
  have "virtual_to_physical sample_machine 0xC0006000 = Done 0x6000"
    using sample_table_at unfolding virtual_to_physical_walk [OF sample_machine_facts(1)] table_at_def
    by (auto dest!: spec [of _ 0] simp: pt_entry_addr_def)
  from paging_test_aliases [OF sample_machine_facts(1,2) sample_table_at this, of "0xFFFFFFFF" "0xFFFFFFFF"]
  show ?thesis by (auto simp: sample_machine_def)
qed

subsection \<open>PageDirectory::map\_page\<close>

text \<open>The function checks its arguments, with the wrong name in the second message, and maps nothing.\<close>

definition directory_map_page :: "u32 \<Rightarrow> u32 \<Rightarrow> u32 \<Rightarrow> machine \<Rightarrow> log \<times> machine" where
  "directory_map_page physical_addr virtual_addr flags m =
     (if physical_addr AND 0xFFF \<noteq> 0
      then ([Debug (''map_page: physical_addr not page-aligned (%x)'' @ [CHR ''\<newline>'']) [physical_addr]], m)
      else if virtual_addr AND 0xFFF \<noteq> 0
      then ([Debug (''map_page: physical_addr not page-aligned (%x)'' @ [CHR ''\<newline>'']) [virtual_addr]], m)
      else ([], m))"

subsection \<open>floppy\_test\<close>

text \<open>Up to its endless loop. \<open>junk\<close> is what the new buffer holds; the result of the read is ignored.\<close>

definition floppy_test ::
    "('d, 'z) floppy_hardware_scheme \<Rightarrow> u8 list \<Rightarrow> memory \<Rightarrow> physical heap \<Rightarrow> FloppyDrive \<times> 'd floppy_state \<Rightarrow> port_write list \<Rightarrow>
     (memory \<times> physical heap \<times> (FloppyDrive \<times> 'd floppy_state) \<times> port_write list) outcome" where
  "floppy_test hw junk m h d ws =
     outcome_bind (operator_new (\<lambda>n. mm_alloc_pages n 1) (1024 * 32) h) (\<lambda>(buf, h').
     outcome_bind (floppy_read hw 0 (2 * 32) junk d) (\<lambda>(ok, bytes, d').
     let m' = store_bytes buf bytes m in
     outcome_bind (debug_bochs_memdump m' buf 1024 ws) (\<lambda>ws'. Done (m', h', d', ws'))))"

end
