(* ===== verification/Libc_Stubs.thy ===== *)
theory Libc_Stubs
  imports Complex_Main Klibc
begin

text \<open>
  The functions that exist only for the C++ library to link: \<^verbatim>\<open>src/lib/klibc/wchar.cpp\<close>, \<^verbatim>\<open>stdio.cpp\<close>, the
  floating point parsers of \<^verbatim>\<open>stdlib.cpp\<close> and the threading glue \<^verbatim>\<open>src/lib/klibc++/external_threading.cpp\<close>.
  They ignore their arguments and read and write no memory. A floating point result is a real number,
  a pointer result of 0 is the null pointer.
\<close>

definition strtod :: "u32 \<Rightarrow> u32 \<Rightarrow> real" where "strtod str tailptr = 0"
definition strtof :: "u32 \<Rightarrow> u32 \<Rightarrow> real" where "strtof str tailptr = 0"
definition strtold :: "u32 \<Rightarrow> u32 \<Rightarrow> real" where "strtold str tailptr = 0"

definition wcstol :: "u32 \<Rightarrow> u32 \<Rightarrow> u32 \<Rightarrow> u32" where "wcstol nptr endptr b = 0"
definition wcstoll :: "u32 \<Rightarrow> u32 \<Rightarrow> u32 \<Rightarrow> u64" where "wcstoll nptr endptr b = 0"
definition wcstoul :: "u32 \<Rightarrow> u32 \<Rightarrow> u32 \<Rightarrow> u32" where "wcstoul nptr endptr b = 0"
definition wcstoull :: "u32 \<Rightarrow> u32 \<Rightarrow> u32 \<Rightarrow> u64" where "wcstoull nptr endptr b = 0"
definition wcstod :: "u32 \<Rightarrow> u32 \<Rightarrow> real" where "wcstod nptr endptr = 0"
definition wcstof :: "u32 \<Rightarrow> u32 \<Rightarrow> real" where "wcstof nptr endptr = 0"
definition wcstold :: "u32 \<Rightarrow> u32 \<Rightarrow> real" where "wcstold nptr endptr = 0"

definition swprintf :: "u32 \<Rightarrow> u32 \<Rightarrow> u32 \<Rightarrow> u32 list \<Rightarrow> u32" where "swprintf s n fmt args = 0"
definition snprintf :: "u32 \<Rightarrow> u32 \<Rightarrow> u32 \<Rightarrow> u32 list \<Rightarrow> u32" where "snprintf s n fmt args = 0"
definition fprintf :: "u32 \<Rightarrow> u32 \<Rightarrow> u32 list \<Rightarrow> u32" where "fprintf stream fmt args = 0"

text \<open>The wide copies do not copy, and return the null pointer instead of the destination.\<close>

definition wmemcpy :: "u32 \<Rightarrow> u32 \<Rightarrow> u32 \<Rightarrow> u32" where "wmemcpy s1 s2 n = 0"
definition wmemmove :: "u32 \<Rightarrow> u32 \<Rightarrow> u32 \<Rightarrow> u32" where "wmemmove s1 s2 n = 0"
definition wmemset :: "u32 \<Rightarrow> u32 \<Rightarrow> u32 \<Rightarrow> u32" where "wmemset s c n = 0"

text \<open>A mutex of the C++ library stops the kernel when it is used; yielding does nothing.\<close>

definition libcpp_mutex_trylock :: "u32 \<Rightarrow> bool outcome" where
  "libcpp_mutex_trylock m = Fault (Panic ''__libcpp_mutex_trylock not implemented'')"

definition libcpp_mutex_lock :: "u32 \<Rightarrow> bool outcome" where
  "libcpp_mutex_lock m = Fault (Panic ''__libcpp_mutex_lock not implemented'')"

definition libcpp_mutex_unlock :: "u32 \<Rightarrow> bool outcome" where
  "libcpp_mutex_unlock m = Fault (Panic ''__libcpp_mutex_unlock not implemented'')"

definition libcpp_thread_yield :: "'s \<Rightarrow> 's" where
  "libcpp_thread_yield s = s"

end
