(* ===== verification/Shared_Ptr.thy ===== *)
theory Shared_Ptr
  imports Prelude
begin

text \<open>
  The reference counts of \<^verbatim>\<open>shared_ptr\<close> and \<^verbatim>\<open>weak_ptr\<close>: \<^verbatim>\<open>src/lib/libc++/src/memory.cpp\<close> and the functions of
  \<^verbatim>\<open>src/lib/libc++/include/memory\<close> the kernel's test uses. Counts are stored minus one. A control block and
  the object it manages live in a heap; using one that is gone is undefined behaviour. The kernel is built with
  threads, so the counts are changed by atomic instructions: the step relation \<open>sharing_step\<close> has one step for
  each of them, by any number of threads that share one object.
\<close>

subsection \<open>Control blocks\<close>

record shared_weak_count =
  shared_owners :: u32
  shared_weak_owners :: u32
  managed_data :: u32

record sp_heap =
  blocks :: "u32 \<Rightarrow> shared_weak_count option"
  cells :: "u32 \<Rightarrow> u32 option"

definition refcount_increment :: "u32 \<Rightarrow> u32" where "refcount_increment t = t + 1"
definition refcount_decrement :: "u32 \<Rightarrow> u32" where "refcount_decrement t = t + (- 1)"

lemmas refcount_defs = refcount_increment_def refcount_decrement_def

definition block_at :: "u32 \<Rightarrow> sp_heap \<Rightarrow> (shared_weak_count \<Rightarrow> 'a outcome) \<Rightarrow> 'a outcome" where
  "block_at b h f = (case blocks h b of None \<Rightarrow> Fault UndefinedBehaviour | Some c \<Rightarrow> f c)"

definition set_block :: "u32 \<Rightarrow> shared_weak_count \<Rightarrow> sp_heap \<Rightarrow> sp_heap" where
  "set_block b c h = h\<lparr>blocks := (blocks h)(b := Some c)\<rparr>"

text \<open>The default deleter: the object is released, a second time is undefined.\<close>

definition on_zero_shared :: "u32 \<Rightarrow> sp_heap \<Rightarrow> sp_heap outcome" where
  "on_zero_shared b h = block_at b h (\<lambda>c.
     if cells h (managed_data c) = None then Fault UndefinedBehaviour
     else Done (h\<lparr>cells := (cells h)(managed_data c := None)\<rparr>))"

definition on_zero_shared_weak :: "u32 \<Rightarrow> sp_heap \<Rightarrow> sp_heap outcome" where
  "on_zero_shared_weak b h = block_at b h (\<lambda>c. Done (h\<lparr>blocks := (blocks h)(b := None)\<rparr>))"

definition add_shared :: "u32 \<Rightarrow> sp_heap \<Rightarrow> sp_heap outcome" where
  "add_shared b h = block_at b h (\<lambda>c. Done (set_block b (c\<lparr>shared_owners := refcount_increment (shared_owners c)\<rparr>) h))"

definition add_weak :: "u32 \<Rightarrow> sp_heap \<Rightarrow> sp_heap outcome" where
  "add_weak b h = block_at b h (\<lambda>c.
     Done (set_block b (c\<lparr>shared_weak_owners := refcount_increment (shared_weak_owners c)\<rparr>) h))"

definition release_shared_count :: "u32 \<Rightarrow> sp_heap \<Rightarrow> (bool \<times> sp_heap) outcome" where
  "release_shared_count b h = block_at b h (\<lambda>c.
     let c1 = c\<lparr>shared_owners := refcount_decrement (shared_owners c)\<rparr>; h1 = set_block b c1 h in
     if shared_owners c1 = - 1 then outcome_bind (on_zero_shared b h1) (\<lambda>h2. Done (True, h2)) else Done (False, h1))"

definition release_weak :: "u32 \<Rightarrow> sp_heap \<Rightarrow> sp_heap outcome" where
  "release_weak b h = block_at b h (\<lambda>c.
     if shared_weak_owners c = 0 then on_zero_shared_weak b h
     else let c1 = c\<lparr>shared_weak_owners := refcount_decrement (shared_weak_owners c)\<rparr>; h1 = set_block b c1 h in
       if shared_weak_owners c1 = - 1 then on_zero_shared_weak b h1 else Done h1)"

definition release_shared :: "u32 \<Rightarrow> sp_heap \<Rightarrow> sp_heap outcome" where
  "release_shared b h = outcome_bind (release_shared_count b h) (\<lambda>(z, h1). if z then release_weak b h1 else Done h1)"

definition use_count :: "u32 \<Rightarrow> sp_heap \<Rightarrow> u32 outcome" where
  "use_count b h = block_at b h (\<lambda>c. Done (shared_owners c + 1))"

text \<open>
  The loop of \<^verbatim>\<open>__shared_weak_count::lock\<close> when no other thread changes the count: a failed exchange loads
  the count again. The result is the block or the null pointer.
\<close>

partial_function (option) lock_loop :: "u32 \<Rightarrow> u32 \<Rightarrow> shared_weak_count \<Rightarrow> (u32 \<times> shared_weak_count) option" where
  "lock_loop b object_owners c =
     (if object_owners \<noteq> - 1 then
        if shared_owners c = object_owners then Some (b, c\<lparr>shared_owners := object_owners + 1\<rparr>)
        else lock_loop b (shared_owners c) c
      else Some (0, c))"

definition weak_count_lock :: "u32 \<Rightarrow> sp_heap \<Rightarrow> (u32 \<times> sp_heap) outcome" where
  "weak_count_lock b h = block_at b h (\<lambda>c.
     case lock_loop b (shared_owners c) c of None \<Rightarrow> Diverges | Some (r, c1) \<Rightarrow> Done (r, set_block b c1 h))"

lemma weak_count_lock_eq:
  "weak_count_lock b h = block_at b h (\<lambda>c.
     if shared_owners c = - 1 then Done (0, set_block b c h)
     else Done (b, set_block b (c\<lparr>shared_owners := shared_owners c + 1\<rparr>) h))"
  unfolding weak_count_lock_def by (subst lock_loop.simps) (simp add: block_at_def split: option.splits)

subsection \<open>Pointers\<close>

text \<open>Both kinds of pointer have an address and a control block; a null pointer has no block.\<close>

record pointer =
  sp_ptr :: u32
  cntrl :: u32

definition null_pointer :: pointer where "null_pointer = \<lparr>sp_ptr = 0, cntrl = 0\<rparr>"

definition new_shared :: "u32 \<Rightarrow> u32 \<Rightarrow> sp_heap \<Rightarrow> pointer \<times> sp_heap" where
  "new_shared p b h =
     (\<lparr>sp_ptr = p, cntrl = b\<rparr>, set_block b \<lparr>shared_owners = 0, shared_weak_owners = 0, managed_data = p\<rparr> h)"

definition copy_shared :: "pointer \<Rightarrow> sp_heap \<Rightarrow> (pointer \<times> sp_heap) outcome" where
  "copy_shared r h =
     (if cntrl r \<noteq> 0 then outcome_bind (add_shared (cntrl r) h) (\<lambda>h1. Done (r, h1)) else Done (r, h))"

definition destroy_shared :: "pointer \<Rightarrow> sp_heap \<Rightarrow> sp_heap outcome" where
  "destroy_shared p h = (if cntrl p \<noteq> 0 then release_shared (cntrl p) h else Done h)"

text \<open>Assignments build a temporary, swap with it and destroy it. The result is the new value of the left side.\<close>

definition assign_shared :: "pointer \<Rightarrow> pointer \<Rightarrow> sp_heap \<Rightarrow> (pointer \<times> sp_heap) outcome" where
  "assign_shared this r h = outcome_bind (copy_shared r h) (\<lambda>(tmp, h1).
     outcome_bind (destroy_shared this h1) (\<lambda>h2. Done (tmp, h2)))"

definition move_shared :: "pointer \<Rightarrow> pointer \<Rightarrow> sp_heap \<Rightarrow> (pointer \<times> pointer \<times> sp_heap) outcome" where
  "move_shared this r h = outcome_bind (destroy_shared this h) (\<lambda>h1. Done (r, null_pointer, h1))"

definition reset_shared :: "pointer \<Rightarrow> sp_heap \<Rightarrow> (pointer \<times> sp_heap) outcome" where
  "reset_shared this h = outcome_bind (destroy_shared this h) (\<lambda>h1. Done (null_pointer, h1))"

definition weak_of_shared :: "pointer \<Rightarrow> sp_heap \<Rightarrow> (pointer \<times> sp_heap) outcome" where
  "weak_of_shared r h =
     (if cntrl r \<noteq> 0 then outcome_bind (add_weak (cntrl r) h) (\<lambda>h1. Done (r, h1)) else Done (r, h))"

definition destroy_weak :: "pointer \<Rightarrow> sp_heap \<Rightarrow> sp_heap outcome" where
  "destroy_weak p h = (if cntrl p \<noteq> 0 then release_weak (cntrl p) h else Done h)"

definition weak_lock :: "pointer \<Rightarrow> sp_heap \<Rightarrow> (pointer \<times> sp_heap) outcome" where
  "weak_lock w h =
     outcome_bind (if cntrl w \<noteq> 0 then weak_count_lock (cntrl w) h else Done (cntrl w, h)) (\<lambda>(c, h1).
       Done (\<lparr>sp_ptr = (if c \<noteq> 0 then sp_ptr w else 0), cntrl = c\<rparr>, h1))"

definition deref_shared :: "pointer \<Rightarrow> sp_heap \<Rightarrow> u32 outcome" where
  "deref_shared p h = (case cells h (sp_ptr p) of None \<Rightarrow> Fault UndefinedBehaviour | Some v \<Rightarrow> Done v)"


subsection \<open>Threads that share an object\<close>

text \<open>
  Where a thread is in a call: between calls, about to delete the object, in \<^verbatim>\<open>__release_weak\<close> before its
  load and before its decrement, about to free the block (with the count still at 0, or decremented), and in
  \<^verbatim>\<open>lock\<close> before the exchange, with the count it expects.
\<close>

datatype owner_pc = Idle | OnZeroShared | ReleaseWeak | DecrementWeak | OnZeroSharedWeak bool | CompareExchange u32

record owner =
  shared_ptrs :: nat
  weak_ptrs :: nat
  owner_pc :: owner_pc

record sharing =
  shared_count :: u32
  weak_count :: u32
  object_live :: bool
  block_live :: bool
  owners :: "owner list"

definition sum_of :: "(owner \<Rightarrow> nat) \<Rightarrow> sharing \<Rightarrow> nat" where
  "sum_of f s = (\<Sum>ow \<leftarrow> owners s. f ow)"

text \<open>Every pointer takes 8 bytes of the address space, so there are fewer than 2^29 of them.\<close>

definition room :: "sharing \<Rightarrow> bool" where
  "room s \<longleftrightarrow> sum_of shared_ptrs s + sum_of weak_ptrs s < 2 ^ 29"

definition set_owner :: "nat \<Rightarrow> owner \<Rightarrow> sharing \<Rightarrow> sharing" where
  "set_owner i ow s = s\<lparr>owners := (owners s)[i := ow]\<rparr>"

definition idle :: "sharing \<Rightarrow> nat \<Rightarrow> bool" where
  "idle s i \<longleftrightarrow> i < length (owners s) \<and> owner_pc (owners s ! i) = Idle"

definition at_pc :: "sharing \<Rightarrow> nat \<Rightarrow> owner_pc \<Rightarrow> bool" where
  "at_pc s i pc \<longleftrightarrow> i < length (owners s) \<and> owner_pc (owners s ! i) = pc"

inductive sharing_step :: "nat \<Rightarrow> sharing \<Rightarrow> sharing \<Rightarrow> bool" where
  copy_s: "at_pc s i Idle \<Longrightarrow> shared_ptrs (owners s ! i) > 0 \<Longrightarrow> room s \<Longrightarrow>
     sharing_step i s (set_owner i ((owners s ! i)\<lparr>shared_ptrs := shared_ptrs (owners s ! i) + 1\<rparr>)
       (s\<lparr>shared_count := refcount_increment (shared_count s)\<rparr>))"
| copy_w: "at_pc s i Idle \<Longrightarrow> shared_ptrs (owners s ! i) > 0 \<or> weak_ptrs (owners s ! i) > 0 \<Longrightarrow> room s \<Longrightarrow>
     sharing_step i s (set_owner i ((owners s ! i)\<lparr>weak_ptrs := weak_ptrs (owners s ! i) + 1\<rparr>)
       (s\<lparr>weak_count := refcount_increment (weak_count s)\<rparr>))"
| release_s: "at_pc s i Idle \<Longrightarrow> shared_ptrs (owners s ! i) > 0 \<Longrightarrow>
     sharing_step i s (set_owner i ((owners s ! i)\<lparr>shared_ptrs := shared_ptrs (owners s ! i) - 1,
         owner_pc := if refcount_decrement (shared_count s) = - 1 then OnZeroShared else Idle\<rparr>)
       (s\<lparr>shared_count := refcount_decrement (shared_count s)\<rparr>))"
| delete_object: "at_pc s i OnZeroShared \<Longrightarrow>
     sharing_step i s (set_owner i ((owners s ! i)\<lparr>owner_pc := ReleaseWeak\<rparr>) (s\<lparr>object_live := False\<rparr>))"
| release_w: "at_pc s i Idle \<Longrightarrow> weak_ptrs (owners s ! i) > 0 \<Longrightarrow>
     sharing_step i s (set_owner i ((owners s ! i)\<lparr>weak_ptrs := weak_ptrs (owners s ! i) - 1, owner_pc := ReleaseWeak\<rparr>) s)"
| load_weak: "at_pc s i ReleaseWeak \<Longrightarrow>
     sharing_step i s (set_owner i ((owners s ! i)\<lparr>owner_pc := if weak_count s = 0 then OnZeroSharedWeak True else DecrementWeak\<rparr>) s)"
| decrement_weak: "at_pc s i DecrementWeak \<Longrightarrow>
     sharing_step i s (set_owner i ((owners s ! i)\<lparr>owner_pc :=
         if refcount_decrement (weak_count s) = - 1 then OnZeroSharedWeak False else Idle\<rparr>)
       (s\<lparr>weak_count := refcount_decrement (weak_count s)\<rparr>))"
| free_block: "at_pc s i (OnZeroSharedWeak counted) \<Longrightarrow>
     sharing_step i s (set_owner i ((owners s ! i)\<lparr>owner_pc := Idle\<rparr>) (s\<lparr>block_live := False\<rparr>))"
| load_shared: "at_pc s i Idle \<Longrightarrow> weak_ptrs (owners s ! i) > 0 \<Longrightarrow>
     sharing_step i s (set_owner i ((owners s ! i)\<lparr>owner_pc :=
         if shared_count s \<noteq> - 1 then CompareExchange (shared_count s) else Idle\<rparr>) s)"
| exchange: "at_pc s i (CompareExchange n) \<Longrightarrow> shared_count s = n \<Longrightarrow> room s \<Longrightarrow>
     sharing_step i s (set_owner i ((owners s ! i)\<lparr>shared_ptrs := shared_ptrs (owners s ! i) + 1, owner_pc := Idle\<rparr>)
       (s\<lparr>shared_count := n + 1\<rparr>))"
| exchange_fails: "at_pc s i (CompareExchange n) \<Longrightarrow>
     sharing_step i s (set_owner i ((owners s ! i)\<lparr>owner_pc :=
         if shared_count s \<noteq> - 1 then CompareExchange (shared_count s) else Idle\<rparr>) s)"
| move_s: "at_pc s i Idle \<Longrightarrow> shared_ptrs (owners s ! i) > 0 \<Longrightarrow> j < length (owners s) \<Longrightarrow> j \<noteq> i \<Longrightarrow>
     sharing_step i s (set_owner j ((owners s ! j)\<lparr>shared_ptrs := shared_ptrs (owners s ! j) + 1\<rparr>)
       (set_owner i ((owners s ! i)\<lparr>shared_ptrs := shared_ptrs (owners s ! i) - 1\<rparr>) s))"
| move_w: "at_pc s i Idle \<Longrightarrow> weak_ptrs (owners s ! i) > 0 \<Longrightarrow> j < length (owners s) \<Longrightarrow> j \<noteq> i \<Longrightarrow>
     sharing_step i s (set_owner j ((owners s ! j)\<lparr>weak_ptrs := weak_ptrs (owners s ! j) + 1\<rparr>)
       (set_owner i ((owners s ! i)\<lparr>weak_ptrs := weak_ptrs (owners s ! i) - 1\<rparr>) s))"

text \<open>A thread has built the first pointer, the others have none.\<close>

definition sharing_start :: "sharing \<Rightarrow> bool" where
  "sharing_start s \<longleftrightarrow> shared_count s = 0 \<and> weak_count s = 0 \<and> object_live s \<and> block_live s \<and>
     0 < length (owners s) \<and> length (owners s) < 2 ^ 29 \<and>
     owners s = \<lparr>shared_ptrs = 1, weak_ptrs = 0, owner_pc = Idle\<rparr> #
       replicate (length (owners s) - 1) \<lparr>shared_ptrs = 0, weak_ptrs = 0, owner_pc = Idle\<rparr>"

inductive sharing_reachable :: "sharing \<Rightarrow> bool" where
  sharing_init: "sharing_start s \<Longrightarrow> sharing_reachable s"
| sharing_next: "sharing_reachable s \<Longrightarrow> sharing_step i s t \<Longrightarrow> sharing_reachable t"

subsection \<open>The counts are right\<close>

text \<open>
  A reference to the block is a weak pointer, a release under way that has not given up its count, or the one
  reference that all shared pointers hold together.
\<close>

definition releasing :: "owner \<Rightarrow> nat" where
  "releasing ow = (if owner_pc ow \<in> {ReleaseWeak, DecrementWeak, OnZeroSharedWeak True} then 1 else 0)"

definition deleting :: "owner \<Rightarrow> nat" where
  "deleting ow = (if owner_pc ow = OnZeroShared then 1 else 0)"

definition freeing :: "bool \<Rightarrow> owner \<Rightarrow> nat" where
  "freeing counted ow = (if owner_pc ow = OnZeroSharedWeak counted then 1 else 0)"

definition block_refs :: "sharing \<Rightarrow> nat" where
  "block_refs s = sum_of weak_ptrs s + sum_of releasing s + (if object_live s then 1 else 0)"

definition exchange_ok :: "owner \<Rightarrow> bool" where
  "exchange_ok ow \<longleftrightarrow> (\<forall>n. owner_pc ow = CompareExchange n \<longrightarrow> n \<noteq> - 1 \<and> weak_ptrs ow > 0)"

definition sharing_inv :: "sharing \<Rightarrow> bool" where
  "sharing_inv s \<longleftrightarrow>
     shared_count s = word_of_nat (sum_of shared_ptrs s) - 1 \<and>
     sum_of deleting s + (if sum_of shared_ptrs s > 0 then 1 else 0) = (if object_live s then 1 else 0) \<and>
     (if block_live s
      then weak_count s = word_of_nat (block_refs s) - 1 \<and>
        (sum_of (freeing False) s = 0 \<and> sum_of (freeing True) s = 0 \<and> block_refs s > 0 \<or>
         sum_of (freeing False) s = 1 \<and> sum_of (freeing True) s = 0 \<and> block_refs s = 0 \<or>
         sum_of (freeing False) s = 0 \<and> sum_of (freeing True) s = 1 \<and> block_refs s = 1)
      else block_refs s = 0 \<and> sum_of (freeing False) s = 0 \<and> sum_of (freeing True) s = 0) \<and>
     list_all exchange_ok (owners s) \<and>
     sum_of shared_ptrs s + sum_of weak_ptrs s \<le> 2 ^ 29 \<and> length (owners s) < 2 ^ 29"

lemma total_set_owner:
  "i < length (owners s) \<Longrightarrow> sum_of f (set_owner i ow s) + f (owners s ! i) = sum_of f s + f ow"
  by (simp add: sum_of_def set_owner_def map_update sum_list_update elem_le_sum_list)
   (metis (no_types, lifting) add.commute elem_le_sum_list le_add_diff_inverse2 length_map nth_map trans_le_add2)

lemma total_ge: "i < length (owners s) \<Longrightarrow> f (owners s ! i) \<le> sum_of f s"
  using elem_le_sum_list [of i "map f (owners s)"] by (simp add: sum_of_def)

lemma total_fields [simp]:
  "sum_of f (s\<lparr>shared_count := c\<rparr>) = sum_of f s" "sum_of f (s\<lparr>weak_count := c\<rparr>) = sum_of f s"
  "sum_of f (s\<lparr>object_live := b\<rparr>) = sum_of f s" "sum_of f (s\<lparr>block_live := b\<rparr>) = sum_of f s"
  by (simp_all add: sum_of_def)

lemma set_owner_fields [simp]:
  "shared_count (set_owner i ow s) = shared_count s" "weak_count (set_owner i ow s) = weak_count s"
  "object_live (set_owner i ow s) = object_live s" "block_live (set_owner i ow s) = block_live s"
  "length (owners (set_owner i ow s)) = length (owners s)"
  by (simp_all add: set_owner_def)

lemma stored_count:
  assumes "n < 2 ^ 32"
  shows "(word_of_nat n = (0 :: u32)) = (n = 0)" and "(word_of_nat n = (1 :: u32)) = (n = 1)"
proof -
  have u: "unat (word_of_nat n :: u32) = n" using assms by (simp add: unsigned_of_nat take_bit_nat_eq_self)
  show "(word_of_nat n = (0 :: u32)) = (n = 0)" using u unat_eq_0 by metis
  show "(word_of_nat n = (1 :: u32)) = (n = 1)" using u by (metis of_nat_1 unsigned_1)
qed

lemma sum_of_Suc: "Suc n = sum_of f s \<Longrightarrow> sum_of f s = Suc n"
  by simp

lemma total_releasing_le: "sum_of releasing s \<le> length (owners s)"
proof -
  have "(\<Sum>ow \<leftarrow> xs. releasing ow) \<le> length xs" for xs
    by (induction xs) (auto simp: releasing_def)
  then show ?thesis by (simp add: sum_of_def)
qed

lemma sharing_bounds:
  assumes "sharing_inv s"
  shows "(word_of_nat (sum_of shared_ptrs s) = (0 :: u32)) = (sum_of shared_ptrs s = 0)"
    "(word_of_nat (sum_of shared_ptrs s) = (1 :: u32)) = (sum_of shared_ptrs s = 1)"
    "(word_of_nat (block_refs s) = (0 :: u32)) = (block_refs s = 0)"
    "(word_of_nat (block_refs s) = (1 :: u32)) = (block_refs s = 1)"
proof -
  have "sum_of weak_ptrs s \<le> 2 ^ 29" "sum_of shared_ptrs s \<le> 2 ^ 29" "length (owners s) < 2 ^ 29"
    using assms by (simp_all add: sharing_inv_def)
  then have "sum_of shared_ptrs s < 2 ^ 32" "block_refs s < 2 ^ 32"
    using total_releasing_le [of s] by (simp_all add: block_refs_def)
  then show "(word_of_nat (sum_of shared_ptrs s) = (0 :: u32)) = (sum_of shared_ptrs s = 0)"
    "(word_of_nat (sum_of shared_ptrs s) = (1 :: u32)) = (sum_of shared_ptrs s = 1)"
    "(word_of_nat (block_refs s) = (0 :: u32)) = (block_refs s = 0)"
    "(word_of_nat (block_refs s) = (1 :: u32)) = (block_refs s = 1)"
    by (simp_all only: stored_count)
qed

lemmas owner_indicators = releasing_def deleting_def freeing_def

lemma exchange_ok_update:
  "list_all exchange_ok (owners s) \<Longrightarrow> exchange_ok ow \<Longrightarrow> list_all exchange_ok (owners (set_owner i ow s))"
  by (cases "i < length (owners s)") (auto simp: set_owner_def list_all_length nth_list_update)

text \<open>What a step of thread \<open>i\<close> does to the sums.\<close>

lemma sharing_inv_set_owner:
  assumes "sharing_inv s" and "i < length (owners s)" and "owners s' = owners s" and "exchange_ok ow"
    and "\<And>sp wp re de ff ft br. sp + shared_ptrs (owners s ! i) = sum_of shared_ptrs s + shared_ptrs ow \<Longrightarrow>
      wp + weak_ptrs (owners s ! i) = sum_of weak_ptrs s + weak_ptrs ow \<Longrightarrow>
      re + releasing (owners s ! i) = sum_of releasing s + releasing ow \<Longrightarrow>
      de + deleting (owners s ! i) = sum_of deleting s + deleting ow \<Longrightarrow>
      ff + freeing False (owners s ! i) = sum_of (freeing False) s + freeing False ow \<Longrightarrow>
      ft + freeing True (owners s ! i) = sum_of (freeing True) s + freeing True ow \<Longrightarrow>
      br = wp + re + (if object_live s' then 1 else 0) \<Longrightarrow>
      shared_count s' = word_of_nat sp - 1 \<and> de + (if sp > 0 then 1 else 0) = (if object_live s' then 1 else 0) \<and>
      (if block_live s'
       then weak_count s' = word_of_nat br - 1 \<and>
         (ff = 0 \<and> ft = 0 \<and> br > 0 \<or> ff = 1 \<and> ft = 0 \<and> br = 0 \<or> ff = 0 \<and> ft = 1 \<and> br = 1)
       else br = 0 \<and> ff = 0 \<and> ft = 0) \<and> sp + wp \<le> 2 ^ 29"
  shows "sharing_inv (set_owner i ow s')"
proof -
  have i: "i < length (owners s')" by (simp add: assms(2,3))
  have "sum_of f s' = sum_of f s" for f by (simp add: sum_of_def assms(3))
  note t = total_set_owner [OF i, of _ ow, unfolded this assms(3)]
  have "list_all exchange_ok (owners (set_owner i ow s'))" using assms(1,2,4)
    by (auto simp: sharing_inv_def set_owner_def assms(3) list_all_length nth_list_update)
  moreover have "length (owners s) < 2 ^ 29" using assms(1) by (simp add: sharing_inv_def)
  ultimately show ?thesis
    using assms(5) [OF t t t t t t refl] unfolding sharing_inv_def block_refs_def set_owner_fields assms(3) by blast
qed

text \<open>A block about to be freed with its count still stored is held by the thread that frees it.\<close>

lemma freeing_releasing:
  assumes "i < length (owners s)"
  shows "sum_of (freeing True) s + releasing (owners s ! i) \<le> sum_of releasing s + freeing True (owners s ! i)"
proof -
  let ?g = "\<lambda>ow. releasing ow - freeing True ow"
  have "releasing ow = freeing True ow + ?g ow" for ow by (simp add: releasing_def freeing_def)
  then have "sum_of releasing s = sum_of (\<lambda>ow. freeing True ow + ?g ow) s" by presburger
  also have "\<dots> = sum_of (freeing True) s + sum_of ?g s" by (simp add: sum_of_def sum_list_addf)
  finally show ?thesis using total_ge [OF assms, of ?g] by simp
qed

lemma totals_ge:
  "at_pc s i pc \<Longrightarrow> shared_ptrs (owners s ! i) \<le> sum_of shared_ptrs s \<and> weak_ptrs (owners s ! i) \<le> sum_of weak_ptrs s \<and>
     releasing (owners s ! i) \<le> sum_of releasing s \<and> deleting (owners s ! i) \<le> sum_of deleting s \<and>
     freeing True (owners s ! i) \<le> sum_of (freeing True) s \<and> freeing False (owners s ! i) \<le> sum_of (freeing False) s \<and>
     sum_of (freeing True) s + releasing (owners s ! i) \<le> sum_of releasing s + freeing True (owners s ! i)"
  by (simp add: total_ge freeing_releasing at_pc_def)

lemma exchange_expects:
  "sharing_inv s \<Longrightarrow> at_pc s i (CompareExchange n) \<Longrightarrow> n \<noteq> - 1 \<and> weak_ptrs (owners s ! i) > 0"
  by (auto simp: sharing_inv_def at_pc_def list_all_length exchange_ok_def)

text \<open>Moving a pointer between threads keeps the sums.\<close>

lemma sharing_inv_move:
  assumes "sharing_inv s" and "i < length (owners s)" and "j < length (owners s)" and "j \<noteq> i"
    and "owner_pc oi = owner_pc (owners s ! i)" and "owner_pc oj = owner_pc (owners s ! j)"
    and "shared_ptrs oi + shared_ptrs oj = shared_ptrs (owners s ! i) + shared_ptrs (owners s ! j)"
    and "weak_ptrs oi + weak_ptrs oj = weak_ptrs (owners s ! i) + weak_ptrs (owners s ! j)"
    and "exchange_ok oi" and "exchange_ok oj"
  shows "sharing_inv (set_owner j oj (set_owner i oi s))"
proof -
  let ?t = "set_owner j oj (set_owner i oi s)"
  have j: "j < length (owners (set_owner i oi s))" "owners (set_owner i oi s) ! j = owners s ! j"
    using assms(2-4) by (simp_all add: set_owner_def)
  have sums: "sum_of f ?t = sum_of f s" if "f oi + f oj = f (owners s ! i) + f (owners s ! j)" for f
    using total_set_owner [OF assms(2), of f oi] total_set_owner [OF j(1), of f oj] that by (simp add: j(2))
  have x: "list_all exchange_ok (owners ?t)"
    using assms(1,2,3,9,10) by (auto simp: sharing_inv_def set_owner_def list_all_length nth_list_update)
  have eqs: "sum_of shared_ptrs ?t = sum_of shared_ptrs s" "sum_of weak_ptrs ?t = sum_of weak_ptrs s"
    "sum_of releasing ?t = sum_of releasing s" "sum_of deleting ?t = sum_of deleting s"
    "sum_of (freeing True) ?t = sum_of (freeing True) s" "sum_of (freeing False) ?t = sum_of (freeing False) s"
    using assms(5-8) by (auto intro!: sums simp: owner_indicators)
  show ?thesis unfolding sharing_inv_def block_refs_def eqs set_owner_fields
    using assms(1) [unfolded sharing_inv_def block_refs_def] x by blast
qed

lemma sharing_step_inv: "sharing_step i s t \<Longrightarrow> sharing_inv s \<Longrightarrow> sharing_inv t"
proof (induction rule: sharing_step.induct)
  case (copy_s s i)
  show ?case
    using copy_s totals_ge [OF copy_s.hyps(1)] sharing_bounds [OF copy_s.prems]
    by (intro sharing_inv_set_owner [OF copy_s.prems])
      (auto simp: at_pc_def exchange_ok_def owner_indicators sharing_inv_def block_refs_def room_def refcount_defs
        simp del: of_nat_add split: if_splits dest!: sum_of_Suc)
next
  case (copy_w s i)
  show ?case
    using copy_w totals_ge [OF copy_w.hyps(1)] sharing_bounds [OF copy_w.prems]
    by (intro sharing_inv_set_owner [OF copy_w.prems])
      (auto simp: at_pc_def exchange_ok_def owner_indicators sharing_inv_def block_refs_def room_def refcount_defs
        simp del: of_nat_add split: if_splits dest!: sum_of_Suc)
next
  case (release_s s i)
  obtain k where "shared_ptrs (owners s ! i) = Suc k" using release_s.hyps(2) gr0_conv_Suc by blast
  then show ?case
    using release_s totals_ge [OF release_s.hyps(1)] sharing_bounds [OF release_s.prems]
    by (intro sharing_inv_set_owner [OF release_s.prems])
      (auto simp: at_pc_def exchange_ok_def owner_indicators sharing_inv_def block_refs_def room_def refcount_defs
        simp del: of_nat_add split: if_splits dest!: sum_of_Suc)
next
  case (delete_object s i)
  show ?case
    using delete_object totals_ge [OF delete_object.hyps(1)] sharing_bounds [OF delete_object.prems]
    by (intro sharing_inv_set_owner [OF delete_object.prems])
      (auto simp: at_pc_def exchange_ok_def owner_indicators sharing_inv_def block_refs_def room_def refcount_defs
        simp del: of_nat_add split: if_splits dest!: sum_of_Suc)
next
  case (release_w s i)
  obtain k where "weak_ptrs (owners s ! i) = Suc k" using release_w.hyps(2) gr0_conv_Suc by blast
  then show ?case
    using release_w totals_ge [OF release_w.hyps(1)] sharing_bounds [OF release_w.prems]
    by (intro sharing_inv_set_owner [OF release_w.prems])
      (auto simp: at_pc_def exchange_ok_def owner_indicators sharing_inv_def block_refs_def room_def refcount_defs
        simp del: of_nat_add split: if_splits dest!: sum_of_Suc)
next
  case (load_weak s i)
  show ?case
    using load_weak totals_ge [OF load_weak.hyps(1)] sharing_bounds [OF load_weak.prems]
    by (intro sharing_inv_set_owner [OF load_weak.prems])
      (auto simp: at_pc_def exchange_ok_def owner_indicators sharing_inv_def block_refs_def room_def refcount_defs
        simp del: of_nat_add split: if_splits dest!: sum_of_Suc)
next
  case (decrement_weak s i)
  show ?case
    using decrement_weak totals_ge [OF decrement_weak.hyps(1)] sharing_bounds [OF decrement_weak.prems]
    by (intro sharing_inv_set_owner [OF decrement_weak.prems])
      (auto simp: at_pc_def exchange_ok_def owner_indicators sharing_inv_def block_refs_def room_def refcount_defs
        simp del: of_nat_add split: if_splits dest!: sum_of_Suc)
next
  case (free_block s i)
  show ?case
    using free_block totals_ge [OF free_block.hyps(1)] sharing_bounds [OF free_block.prems]
    by (intro sharing_inv_set_owner [OF free_block.prems])
      (auto simp: at_pc_def exchange_ok_def owner_indicators sharing_inv_def block_refs_def room_def refcount_defs
        simp del: of_nat_add split: if_splits dest!: sum_of_Suc)
next
  case (load_shared s i)
  show ?case
    using load_shared totals_ge [OF load_shared.hyps(1)] sharing_bounds [OF load_shared.prems]
    by (intro sharing_inv_set_owner [OF load_shared.prems])
      (auto simp: at_pc_def exchange_ok_def owner_indicators sharing_inv_def block_refs_def room_def refcount_defs
        simp del: of_nat_add split: if_splits dest!: sum_of_Suc)
next
  case (exchange s i)
  show ?case
    using exchange exchange_expects [OF exchange.prems exchange.hyps(1)] totals_ge [OF exchange.hyps(1)] sharing_bounds [OF exchange.prems]
    by (intro sharing_inv_set_owner [OF exchange.prems])
      (auto simp: at_pc_def exchange_ok_def owner_indicators sharing_inv_def block_refs_def room_def refcount_defs
        simp del: of_nat_add split: if_splits dest!: sum_of_Suc)
next
  case (exchange_fails s i)
  show ?case
    using exchange_fails exchange_expects [OF exchange_fails.prems exchange_fails.hyps(1)] totals_ge [OF exchange_fails.hyps(1)] sharing_bounds [OF exchange_fails.prems]
    by (intro sharing_inv_set_owner [OF exchange_fails.prems])
      (auto simp: at_pc_def exchange_ok_def owner_indicators sharing_inv_def block_refs_def room_def refcount_defs
        simp del: of_nat_add split: if_splits dest!: sum_of_Suc)
next
  case (move_s s i j)
  then show ?case by (intro sharing_inv_move [OF move_s.prems])
    (auto simp: at_pc_def exchange_ok_def sharing_inv_def list_all_length)
next
  case (move_w s i j)
  then show ?case by (intro sharing_inv_move [OF move_w.prems])
    (auto simp: at_pc_def exchange_ok_def sharing_inv_def list_all_length)
qed

lemma sum_of_0: "sum_of f s = 0 \<longleftrightarrow> (\<forall>ow \<in> set (owners s). f ow = 0)"
  by (simp add: sum_of_def)

lemma sharing_start_inv: "sharing_start s \<Longrightarrow> sharing_inv s"
proof -
  assume a: "sharing_start s"
  obtain n where o: "owners s = \<lparr>shared_ptrs = 1, weak_ptrs = 0, owner_pc = Idle\<rparr> #
      replicate n \<lparr>shared_ptrs = 0, weak_ptrs = 0, owner_pc = Idle\<rparr>" "n + 1 < 2 ^ 29"
    using a by (force simp: sharing_start_def)
  have "sum_of f s = f \<lparr>shared_ptrs = 1, weak_ptrs = 0, owner_pc = Idle\<rparr> +
      n * f \<lparr>shared_ptrs = 0, weak_ptrs = 0, owner_pc = Idle\<rparr>" for f
    by (simp add: sum_of_def o sum_list_replicate)
  then show ?thesis using a o(2)
    by (simp add: sharing_start_def sharing_inv_def block_refs_def owner_indicators o(1) list_all_iff exchange_ok_def)
qed

lemma sharing_reachable_inv: "sharing_reachable s \<Longrightarrow> sharing_inv s"
  by (induction rule: sharing_reachable.induct) (auto intro: sharing_start_inv sharing_step_inv)

text \<open>A thread uses the block while it holds a pointer or is inside one of the functions.\<close>

definition uses_block :: "owner \<Rightarrow> bool" where
  "uses_block ow \<longleftrightarrow> shared_ptrs ow > 0 \<or> weak_ptrs ow > 0 \<or> owner_pc ow \<noteq> Idle"

lemma inv_object_live:
  assumes "sharing_inv s" and "ow \<in> set (owners s)" and "shared_ptrs ow > 0 \<or> owner_pc ow = OnZeroShared"
  shows "object_live s"
proof (rule ccontr)
  assume "\<not> object_live s"
  then have "sum_of shared_ptrs s = 0" "sum_of deleting s = 0"
    using assms(1) by (auto simp: sharing_inv_def split: if_splits)
  then show False using assms(2,3) by (auto simp: sum_of_0 deleting_def split: if_splits)
qed

lemma inv_block_live:
  assumes "sharing_inv s" and "ow \<in> set (owners s)" and "uses_block ow"
  shows "block_live s"
proof (rule ccontr)
  assume n: "\<not> block_live s"
  then have z: "sum_of weak_ptrs s = 0" "sum_of releasing s = 0" "sum_of (freeing False) s = 0" "\<not> object_live s"
    using assms(1) by (auto simp: sharing_inv_def block_refs_def split: if_splits)
  have "weak_ptrs ow = 0" "releasing ow = 0" "freeing False ow = 0" using z(1-3) assms(2) by (simp_all add: sum_of_0)
  moreover have "\<not> (shared_ptrs ow > 0 \<or> owner_pc ow = OnZeroShared)" using inv_object_live [OF assms(1,2)] z(4) by blast
  moreover have "exchange_ok ow" using assms(1,2) by (auto simp: sharing_inv_def list_all_iff)
  ultimately show False using assms(3)
    by (cases "owner_pc ow") (auto simp: uses_block_def releasing_def freeing_def exchange_ok_def split: if_splits)
qed

text \<open>When a thread is about to free the block, no other uses it.\<close>

lemma sum_of_two:
  assumes "i < length (owners s)" and "j < length (owners s)" and "j \<noteq> i"
  shows "f (owners s ! i) + f (owners s ! j) \<le> sum_of f s"
proof -
  have "f (owners s ! j) \<le> (\<Sum>k \<in> {..<length (owners s)} - {i}. f (owners s ! k))"
    using assms by (intro member_le_sum) auto
  then show ?thesis
    using assms(1) by (simp add: sum_of_def sum_list_sum_nth atLeast0LessThan sum.remove [of _ i])
qed

lemma inv_frees_alone:
  assumes "sharing_inv s" and "i < length (owners s)" and "owner_pc (owners s ! i) = OnZeroSharedWeak c"
    and "j < length (owners s)" and "j \<noteq> i"
  shows "\<not> uses_block (owners s ! j)"
proof -
  note two = sum_of_two [OF assms(2,4,5)]
  have i: "freeing c (owners s ! i) = 1" "c \<Longrightarrow> releasing (owners s ! i) = 1"
    using assms(3) by (simp_all add: freeing_def releasing_def)
  have b: "block_live s" using inv_block_live [OF assms(1) nth_mem [OF assms(2)]] assms(3) by (simp add: uses_block_def)
  have "sum_of (freeing c) s \<ge> 1" using total_ge [OF assms(2), of "freeing c"] i(1) by simp
  then have z: "sum_of (freeing c) s = 1" "sum_of (freeing (\<not> c)) s = 0" "block_refs s = (if c then 1 else 0)"
    using assms(1) b by (cases c; auto simp: sharing_inv_def)+
  have "sum_of releasing s \<ge> (if c then 1 else 0)" using total_ge [OF assms(2), of releasing] i(2) by auto
  then have w: "sum_of weak_ptrs s = 0" "sum_of releasing s = (if c then 1 else 0)" "\<not> object_live s"
    using z(3) by (auto simp: block_refs_def split: if_splits)
  have "weak_ptrs (owners s ! j) = 0" "releasing (owners s ! j) = 0" "freeing c (owners s ! j) = 0" "freeing (\<not> c) (owners s ! j) = 0"
    using two [of releasing] two [of "freeing c"] i z(1) w(2) total_ge [OF assms(4), of weak_ptrs] w(1)
      total_ge [OF assms(4), of "freeing (\<not> c)"] z(2) by (auto split: if_splits)
  moreover have "\<not> (shared_ptrs (owners s ! j) > 0 \<or> owner_pc (owners s ! j) = OnZeroShared)"
    using inv_object_live [OF assms(1) nth_mem [OF assms(4)]] w(3) by blast
  moreover have "exchange_ok (owners s ! j)" using assms(1,4) by (simp add: sharing_inv_def list_all_length)
  ultimately show ?thesis
    by (cases "owner_pc (owners s ! j)"; cases c)
      (auto simp: uses_block_def releasing_def freeing_def exchange_ok_def split: if_splits)
qed

lemma inv_no_leak:
  assumes "sharing_inv s" and "\<not> (\<exists>ow \<in> set (owners s). uses_block ow)"
  shows "\<not> object_live s \<and> \<not> block_live s"
proof -
  have "sum_of f s = 0" if "\<And>ow. \<not> uses_block ow \<Longrightarrow> f ow = 0" for f using assms(2) that by (auto simp: sum_of_0)
  then have "sum_of shared_ptrs s = 0" "sum_of weak_ptrs s = 0" "sum_of releasing s = 0" "sum_of deleting s = 0"
    "sum_of (freeing True) s = 0" "sum_of (freeing False) s = 0" by (auto simp: uses_block_def owner_indicators)
  then show ?thesis using assms(1) by (auto simp: sharing_inv_def block_refs_def split: if_splits)
qed

subsection \<open>The functions as runs of one thread\<close>

definition represents :: "u32 \<Rightarrow> u32 \<Rightarrow> sp_heap \<Rightarrow> sharing \<Rightarrow> bool" where
  "represents b d h s \<longleftrightarrow>
     blocks h b = (if block_live s then Some \<lparr>shared_owners = shared_count s, shared_weak_owners = weak_count s, managed_data = d\<rparr>
       else None) \<and> (cells h d \<noteq> None \<longleftrightarrow> object_live s)"

lemma at_pc_set_owner [simp]:
  "at_pc (set_owner i ow s) i pc \<longleftrightarrow> i < length (owners s) \<and> owner_pc ow = pc"
  by (auto simp: at_pc_def set_owner_def)

lemma owner_set_owner [simp]: "i < length (owners s) \<Longrightarrow> owners (set_owner i ow s) ! i = ow"
  by (simp add: set_owner_def)

lemma release_weak_runs:
  assumes "sharing_inv s" and "represents b d h s" and "at_pc s i ReleaseWeak"
  shows "\<exists>h' s'. release_weak b h = Done h' \<and> (sharing_step i)\<^sup>*\<^sup>* s s' \<and> represents b d h' s' \<and>
    owners s' = (owners s)[i := (owners s ! i)\<lparr>owner_pc := Idle\<rparr>]"
proof -
  have i: "i < length (owners s)" "owner_pc (owners s ! i) = ReleaseWeak" using assms(3) by (simp_all add: at_pc_def)
  have live: "block_live s" using inv_block_live [OF assms(1) nth_mem [OF i(1)]] i(2) by (simp add: uses_block_def)
  let ?pc = "\<lambda>pc. (owners s ! i)\<lparr>owner_pc := pc\<rparr>"
  show ?thesis
  proof (cases "weak_count s = 0")
    case True
    let ?s1 = "set_owner i (?pc (OnZeroSharedWeak True)) s"
    let ?s2 = "set_owner i (?pc Idle) (?s1\<lparr>block_live := False\<rparr>)"
    have "sharing_step i s ?s1" using load_weak [OF assms(3)] True by simp
    moreover have "sharing_step i ?s1 ?s2" using free_block [of ?s1 i True] i(1) by simp
    ultimately have "(sharing_step i)\<^sup>*\<^sup>* s ?s2" by (rule converse_rtranclp_into_rtranclp [OF _ r_into_rtranclp])
    then show ?thesis using assms(2) live True
      by (intro exI [of _ "h\<lparr>blocks := (blocks h)(b := None)\<rparr>"] exI [of _ ?s2])
        (auto simp: release_weak_def on_zero_shared_weak_def block_at_def represents_def set_owner_def)
  next
    case False
    let ?s1 = "set_owner i (?pc DecrementWeak) s"
    have step1: "sharing_step i s ?s1" using load_weak [OF assms(3)] False by simp
    let ?w = "refcount_decrement (weak_count s)"
    let ?s2 = "set_owner i (?pc (if ?w = - 1 then OnZeroSharedWeak False else Idle)) (?s1\<lparr>weak_count := ?w\<rparr>)"
    have "sharing_step i ?s1 ?s2" using decrement_weak [of ?s1 i] i(1) by simp
    then have run2: "(sharing_step i)\<^sup>*\<^sup>* s ?s2"
      using step1 by (meson converse_rtranclp_into_rtranclp r_into_rtranclp)
    let ?h = "set_block b \<lparr>shared_owners = shared_count s, shared_weak_owners = ?w, managed_data = d\<rparr> h"
    show ?thesis
    proof (cases "?w = - 1")
      case True
      let ?s3 = "set_owner i (?pc Idle) (?s2\<lparr>block_live := False\<rparr>)"
      have "sharing_step i ?s2 ?s3" using free_block [of ?s2 i False] i(1) True by simp
      then have "(sharing_step i)\<^sup>*\<^sup>* s ?s3" by (rule rtranclp.rtrancl_into_rtrancl [OF run2])
      then show ?thesis using assms(2) live False True
        by (intro exI [of _ "?h\<lparr>blocks := (blocks ?h)(b := None)\<rparr>"] exI [of _ ?s3])
          (auto simp: release_weak_def on_zero_shared_weak_def block_at_def represents_def set_owner_def set_block_def Let_def)
    next
      case nz: False
      then show ?thesis using assms(2) live False run2
        by (intro exI [of _ ?h] exI [of _ ?s2])
          (auto simp: release_weak_def block_at_def represents_def set_owner_def set_block_def Let_def)
    qed
  qed
qed

lemma sharing_steps_inv: "(sharing_step i)\<^sup>*\<^sup>* s t \<Longrightarrow> sharing_inv s \<Longrightarrow> sharing_inv t"
  by (induction rule: rtranclp_induct) (auto intro: sharing_step_inv)

lemma stays_idle [simp]: "owner_pc ow = Idle \<Longrightarrow> ow\<lparr>shared_ptrs := k, owner_pc := Idle\<rparr> = ow\<lparr>shared_ptrs := k\<rparr>"
  by (cases ow) simp

text \<open>Destroying a shared pointer, in full.\<close>

lemma release_shared_runs:
  assumes "sharing_inv s" and "represents b d h s" and "at_pc s i Idle" and "shared_ptrs (owners s ! i) > 0"
  shows "\<exists>h' s'. release_shared b h = Done h' \<and> (sharing_step i)\<^sup>*\<^sup>* s s' \<and> represents b d h' s' \<and>
    owners s' = (owners s)[i := (owners s ! i)\<lparr>shared_ptrs := shared_ptrs (owners s ! i) - 1\<rparr>]"
proof -
  have i: "i < length (owners s)" "owner_pc (owners s ! i) = Idle" using assms(3) by (simp_all add: at_pc_def)
  have live: "block_live s" "object_live s"
    using inv_block_live [OF assms(1) nth_mem [OF i(1)]] inv_object_live [OF assms(1) nth_mem [OF i(1)]] assms(4)
    by (simp_all add: uses_block_def)
  let ?c = "refcount_decrement (shared_count s)"
  let ?pc = "\<lambda>pc. (owners s ! i)\<lparr>shared_ptrs := shared_ptrs (owners s ! i) - 1, owner_pc := pc\<rparr>"
  let ?s1 = "set_owner i (?pc (if ?c = - 1 then OnZeroShared else Idle)) (s\<lparr>shared_count := ?c\<rparr>)"
  have step1: "sharing_step i s ?s1" by (rule release_s [OF assms(3,4)])
  let ?h = "set_block b \<lparr>shared_owners = ?c, shared_weak_owners = weak_count s, managed_data = d\<rparr> h"
  show ?thesis
  proof (cases "?c = - 1")
    case False
    then show ?thesis using assms(2) live i step1
      by (intro exI [of _ ?h] exI [of _ ?s1])
        (auto simp: release_shared_def release_shared_count_def block_at_def represents_def set_owner_def set_block_def Let_def)
  next
    case True
    let ?s2 = "set_owner i (?pc ReleaseWeak) (?s1\<lparr>object_live := False\<rparr>)"
    let ?h2 = "?h\<lparr>cells := (cells ?h)(d := None)\<rparr>"
    have "sharing_step i ?s1 ?s2" using delete_object [of ?s1 i] i(1) True by simp
    then have run2: "(sharing_step i)\<^sup>*\<^sup>* s ?s2"
      using step1 by (meson converse_rtranclp_into_rtranclp r_into_rtranclp)
    have r2: "represents b d ?h2 ?s2" using assms(2) live by (simp add: represents_def set_block_def)
    have "at_pc ?s2 i ReleaseWeak" using i(1) by simp
    then obtain h3 s3 where 3: "release_weak b ?h2 = Done h3" "(sharing_step i)\<^sup>*\<^sup>* ?s2 s3" "represents b d h3 s3"
      "owners s3 = (owners ?s2)[i := (owners ?s2 ! i)\<lparr>owner_pc := Idle\<rparr>]"
      using release_weak_runs [OF sharing_steps_inv [OF run2 assms(1)] r2] by blast
    have "release_shared b h = Done h3" using assms(2) live 3(1) True
      by (auto simp: release_shared_def release_shared_count_def on_zero_shared_def block_at_def represents_def set_block_def Let_def)
    moreover have "owners s3 = (owners s)[i := (owners s ! i)\<lparr>shared_ptrs := shared_ptrs (owners s ! i) - 1\<rparr>]"
      using 3(4) i by (simp add: set_owner_def)
    ultimately show ?thesis using rtranclp_trans [OF run2 3(2)] 3(3) by blast
  qed
qed

text \<open>Destroying a weak pointer, taking another pointer, and \<^verbatim>\<open>lock\<close>.\<close>

lemma release_weak_pointer_runs:
  assumes "sharing_inv s" and "represents b d h s" and "at_pc s i Idle" and "weak_ptrs (owners s ! i) > 0"
  shows "\<exists>h' s'. release_weak b h = Done h' \<and> (sharing_step i)\<^sup>*\<^sup>* s s' \<and> represents b d h' s' \<and>
    owners s' = (owners s)[i := (owners s ! i)\<lparr>weak_ptrs := weak_ptrs (owners s ! i) - 1\<rparr>]"
proof -
  let ?s1 = "set_owner i ((owners s ! i)\<lparr>weak_ptrs := weak_ptrs (owners s ! i) - 1, owner_pc := ReleaseWeak\<rparr>) s"
  have i: "i < length (owners s)" "owner_pc (owners s ! i) = Idle" using assms(3) by (simp_all add: at_pc_def)
  have step1: "sharing_step i s ?s1" by (rule release_w [OF assms(3,4)])
  have "represents b d h ?s1" using assms(2) by (simp add: represents_def)
  then obtain h' s' where r: "release_weak b h = Done h'" "(sharing_step i)\<^sup>*\<^sup>* ?s1 s'" "represents b d h' s'"
    "owners s' = (owners ?s1)[i := (owners ?s1 ! i)\<lparr>owner_pc := Idle\<rparr>]"
    using release_weak_runs [OF sharing_step_inv [OF step1 assms(1)], of b d h i] i(1) by auto
  have "owners s' = (owners s)[i := (owners s ! i)\<lparr>weak_ptrs := weak_ptrs (owners s ! i) - 1\<rparr>]"
    using r(4) i by (cases "owners s ! i") (simp add: set_owner_def)
  then show ?thesis using r converse_rtranclp_into_rtranclp [OF step1 r(2)] by blast
qed

lemma add_shared_runs:
  assumes "sharing_inv s" and "represents b d h s" and "at_pc s i Idle" and "shared_ptrs (owners s ! i) > 0" and "room s"
  shows "\<exists>h' s'. add_shared b h = Done h' \<and> sharing_step i s s' \<and> represents b d h' s' \<and>
    owners s' = (owners s)[i := (owners s ! i)\<lparr>shared_ptrs := shared_ptrs (owners s ! i) + 1\<rparr>]"
proof -
  have "block_live s" using inv_block_live [OF assms(1), of "owners s ! i"] assms(3,4) by (simp add: at_pc_def uses_block_def)
  then show ?thesis using copy_s [OF assms(3-5)] assms(2)
    by (intro exI conjI) (auto simp: add_shared_def block_at_def represents_def set_owner_def set_block_def)
qed

lemma add_weak_runs:
  assumes "sharing_inv s" and "represents b d h s" and "at_pc s i Idle"
    and "shared_ptrs (owners s ! i) > 0 \<or> weak_ptrs (owners s ! i) > 0" and "room s"
  shows "\<exists>h' s'. add_weak b h = Done h' \<and> sharing_step i s s' \<and> represents b d h' s' \<and>
    owners s' = (owners s)[i := (owners s ! i)\<lparr>weak_ptrs := weak_ptrs (owners s ! i) + 1\<rparr>]"
proof -
  have "block_live s" using inv_block_live [OF assms(1), of "owners s ! i"] assms(3,4) by (auto simp: at_pc_def uses_block_def)
  then show ?thesis using copy_w [OF assms(3-5)] assms(2)
    by (intro exI conjI) (auto simp: add_weak_def block_at_def represents_def set_owner_def set_block_def)
qed

lemma lock_runs:
  assumes "sharing_inv s" and "represents b d h s" and "at_pc s i Idle" and "weak_ptrs (owners s ! i) > 0" and "room s"
  shows "\<exists>h' s'. weak_count_lock b h = Done (if shared_count s = - 1 then 0 else b, h') \<and> (sharing_step i)\<^sup>*\<^sup>* s s' \<and>
    represents b d h' s' \<and> owners s' = (if shared_count s = - 1 then owners s
      else (owners s)[i := (owners s ! i)\<lparr>shared_ptrs := shared_ptrs (owners s ! i) + 1\<rparr>])"
proof -
  have i: "i < length (owners s)" "owner_pc (owners s ! i) = Idle" using assms(3) by (simp_all add: at_pc_def)
  have live: "block_live s" using inv_block_live [OF assms(1) nth_mem [OF i(1)]] assms(4) by (simp add: uses_block_def)
  let ?h = "\<lambda>n. set_block b \<lparr>shared_owners = n, shared_weak_owners = weak_count s, managed_data = d\<rparr> h"
  show ?thesis
  proof (cases "shared_count s = - 1")
    case True
    then show ?thesis using assms(2) live
      by (intro exI [of _ "?h (- 1)"] exI [of _ s])
        (auto simp: weak_count_lock_eq block_at_def represents_def set_block_def)
  next
    case False
    let ?s1 = "set_owner i ((owners s ! i)\<lparr>owner_pc := CompareExchange (shared_count s)\<rparr>) s"
    let ?s2 = "set_owner i ((owners ?s1 ! i)\<lparr>shared_ptrs := shared_ptrs (owners ?s1 ! i) + 1, owner_pc := Idle\<rparr>)
        (?s1\<lparr>shared_count := shared_count s + 1\<rparr>)"
    have "sum_of f ?s1 = sum_of f s" if "f ((owners s ! i)\<lparr>owner_pc := CompareExchange (shared_count s)\<rparr>) = f (owners s ! i)" for f
      using total_set_owner [OF i(1), of f] that by (metis add_right_cancel)
    then have "room ?s1" using assms(5) by (simp add: room_def)
    then have "sharing_step i ?s1 ?s2" using i(1) by (intro exchange) simp_all
    moreover have "sharing_step i s ?s1" using load_shared [OF assms(3,4)] False by simp
    ultimately have "(sharing_step i)\<^sup>*\<^sup>* s ?s2" by (rule converse_rtranclp_into_rtranclp [OF _ r_into_rtranclp, rotated])
    moreover have "owners ?s2 = (owners s)[i := (owners s ! i)\<lparr>shared_ptrs := shared_ptrs (owners s ! i) + 1\<rparr>]"
      using i by (cases "owners s ! i") (simp add: set_owner_def)
    ultimately show ?thesis using assms(2) live False
      by (intro exI [of _ "?h (shared_count s + 1)"] exI [of _ ?s2])
        (auto simp: weak_count_lock_eq block_at_def represents_def set_block_def)
  qed
qed

subsection \<open>Safety\<close>

text \<open>C17: However the threads are scheduled: the object lives as long as a shared pointer does and is deleted once;
  the block lives as long as a thread uses it and is freed by a thread that is then alone; and when all pointers
  are gone both are released.\<close>

theorem shared_object_safe:
  assumes "sharing_reachable s" and "i < length (owners s)"
  shows "(shared_ptrs (owners s ! i) > 0 \<or> owner_pc (owners s ! i) = OnZeroShared \<longrightarrow> object_live s) \<and>
    (uses_block (owners s ! i) \<longrightarrow> block_live s) \<and>
    (\<forall>c. owner_pc (owners s ! i) = OnZeroSharedWeak c \<longrightarrow>
      (\<forall>j < length (owners s). j \<noteq> i \<longrightarrow> \<not> uses_block (owners s ! j))) \<and>
    (\<not> (\<exists>ow \<in> set (owners s). uses_block ow) \<longrightarrow> \<not> object_live s \<and> \<not> block_live s)"
  using sharing_reachable_inv [OF assms(1)] assms(2) inv_object_live inv_block_live inv_frees_alone inv_no_leak nth_mem
  by metis

text \<open>A thread makes a second pointer, gives it to another thread and destroys its own.\<close>

definition two_threads :: sharing where
  "two_threads = \<lparr>shared_count = 0, weak_count = 0, object_live = True, block_live = True,
     owners = [\<lparr>shared_ptrs = 1, weak_ptrs = 0, owner_pc = Idle\<rparr>, \<lparr>shared_ptrs = 0, weak_ptrs = 0, owner_pc = Idle\<rparr>]\<rparr>"

definition handed_over :: sharing where
  "handed_over = two_threads\<lparr>
     owners := [\<lparr>shared_ptrs = 0, weak_ptrs = 0, owner_pc = Idle\<rparr>, \<lparr>shared_ptrs = 1, weak_ptrs = 0, owner_pc = Idle\<rparr>]\<rparr>"

lemma handed_over_reachable: "sharing_reachable handed_over"
proof -
  let ?s1 = "set_owner 0 \<lparr>shared_ptrs = Suc 1, weak_ptrs = 0, owner_pc = Idle\<rparr> (two_threads\<lparr>shared_count := 1\<rparr>)"
  let ?s2 = "set_owner 1 \<lparr>shared_ptrs = 1, weak_ptrs = 0, owner_pc = Idle\<rparr>
    (set_owner 0 \<lparr>shared_ptrs = 1, weak_ptrs = 0, owner_pc = Idle\<rparr> (two_threads\<lparr>shared_count := 1\<rparr>))"
  have start: "sharing_reachable two_threads"
    by (rule sharing_init) (simp add: sharing_start_def two_threads_def)
  have "sharing_step 0 two_threads ?s1"
    using copy_s [of two_threads 0] by (simp add: at_pc_def room_def sum_of_def two_threads_def refcount_increment_def)
  moreover have "sharing_step 0 ?s1 ?s2"
    using move_s [of ?s1 0 1] by (simp add: at_pc_def set_owner_def two_threads_def)
  moreover have "sharing_step 0 ?s2 handed_over"
    using release_s [of ?s2 0] by (simp add: at_pc_def set_owner_def two_threads_def refcount_decrement_def handed_over_def)
  ultimately show ?thesis using start by (meson sharing_next)
qed

theorem shared_object_safe_witness: "object_live handed_over \<and> block_live handed_over"
  using shared_object_safe [OF handed_over_reachable, of 1] by (simp add: handed_over_def two_threads_def uses_block_def)

end
