(* ===== verification/Stl_Test.thy ===== *)
theory Stl_Test
  imports Shared_Ptr Start_Screen
begin

text \<open>
  The test of the C++ library in \<^verbatim>\<open>src/test/stl_test.cpp\<close>. Its lists and vectors are lists, its sets and maps are
  lists in ascending order of the keys, and \<^verbatim>\<open>shared_ptr\<close> and \<^verbatim>\<open>weak_ptr\<close> are those of \<open>Shared_Ptr\<close>. The output is
  a log; \<open>c_str\<close> gives the address of the characters of a key, and the addresses of allocated memory are a parameter.
\<close>

abbreviation newline :: char where "newline \<equiv> CHR ''\<newline>''"

primrec repeat_calls :: "('s \<Rightarrow> 's) \<Rightarrow> nat \<Rightarrow> 's \<Rightarrow> 's" where
  "repeat_calls f 0 s = s"
| "repeat_calls f (Suc count) s = repeat_calls f count (f s)"

definition repeat :: "('s \<Rightarrow> 's) \<Rightarrow> u32 \<Rightarrow> 's \<Rightarrow> 's" where
  "repeat f count = repeat_calls f (unat count)"

subsection \<open>Ordered containers\<close>

fun set_insert :: "('k \<Rightarrow> 'k \<Rightarrow> bool) \<Rightarrow> 'k \<Rightarrow> 'k list \<Rightarrow> 'k list" where
  "set_insert lt k [] = [k]"
| "set_insert lt k (x # xs) =
     (if lt k x then k # x # xs else if lt x k then x # set_insert lt k xs else x # xs)"

fun map_assign :: "('k \<Rightarrow> 'k \<Rightarrow> bool) \<Rightarrow> 'k \<Rightarrow> 'v \<Rightarrow> ('k \<times> 'v) list \<Rightarrow> ('k \<times> 'v) list" where
  "map_assign lt k v [] = [(k, v)]"
| "map_assign lt k v ((x, w) # m) =
     (if lt k x then (k, v) # (x, w) # m else if lt x k then (x, w) # map_assign lt k v m else (x, v) # m)"

text \<open>\<^verbatim>\<open>char_traits<char>\<close> compares characters as unsigned bytes.\<close>

fun string_less :: "u8 list \<Rightarrow> u8 list \<Rightarrow> bool" where
  "string_less xs [] = False"
| "string_less [] (y # ys) = True"
| "string_less (x # xs) (y # ys) = (x < y \<or> x = y \<and> string_less xs ys)"

definition bytes_of :: "string \<Rightarrow> u8 list" where
  "bytes_of str = map (\<lambda>c. of_char c) str"

subsection \<open>The tests\<close>

definition test_list :: "log \<Rightarrow> log" where
  "test_list out = (let lst = foldl (\<lambda>l i. l @ [i]) [] [0 ..< 10]; lst1 = take 0 lst in out)"

definition test_set :: "log \<Rightarrow> log" where
  "test_set out =
     (let s = foldl (\<lambda>s i. set_insert (<) i s) [] [0 ..< 10];
          out1 = out @ [Debug ''set: { '' []];
          out2 = foldl (\<lambda>out i. out @ [Debug ''%d '' [word_of_nat i]]) out1 s in
      out2 @ [Debug (''}'' @ [newline]) []])"

definition test_vector :: "log \<Rightarrow> log" where
  "test_vector out = (let v = foldl (\<lambda>v i. v @ [i]) [] [0 ..< 1000]; v1 = take 0 v in out)"

definition test_map :: "log \<Rightarrow> log" where
  "test_map out =
     (let m = foldl (\<lambda>m i. map_assign (<) i (10 - i) m) [] [0 ..< 10] in
      foldl (\<lambda>out (k, v). out @ [Debug (''%d -> %d'' @ [newline]) [word_of_nat k, word_of_nat v]]) out m)"

definition test_tuple :: "log \<Rightarrow> log" where
  "test_tuple out = (case (1, 0) of (x, y) \<Rightarrow> out @ [Debug (''tuple: (%d %d)'' @ [newline]) [x, y]])"

definition test_iterator :: "log \<Rightarrow> log" where
  "test_iterator out =
     (let out1 = out @ [Debug (''test_iterator:'' @ [newline]) []];
          (v, n) = repeat_calls (\<lambda>(v, n). (v @ [n + 1], n + 1)) 10 ([], 0);
          out2 = foldl (\<lambda>out i. out @ [Debug ''%d '' [i]]) out1 v;
          out3 = foldl (\<lambda>out i. out @ [Debug ''%d '' [i]]) out2 v in
      out3 @ [Debug [newline] []])"

definition test_pair :: "log \<Rightarrow> log" where
  "test_pair out = (let p = (1, 2) in out @ [Debug (''pair: %d-%d'' @ [newline]) [fst p, snd p]])"

definition test_string :: "(u8 list \<Rightarrow> u32) \<Rightarrow> log \<Rightarrow> log" where
  "test_string c_str out =
     (let out1 = out @ [Debug ([newline] @ ''<<BEGIN test_string'' @ [newline]) []];
          m = foldl (\<lambda>m (k, v). map_assign string_less (bytes_of k) v m) []
            [(''ddd'', 4), (''Aaa'', 1), (''bbbb'', 2), (''cc'', 3)];
          out2 = foldl (\<lambda>out (k, v). out @ [Debug (''%s -> %d'' @ [newline]) [c_str k, v]]) out1 m in
      out2 @ [Debug ([newline] @ ''>>END test_string'' @ [newline, newline]) []])"

text \<open>The addresses of the two integers and of their control blocks.\<close>

record test_addresses =
  int_p :: u32
  block_p :: u32
  int_q :: u32
  block_q :: u32

definition new_int :: "u32 \<Rightarrow> u32 \<Rightarrow> sp_heap \<Rightarrow> sp_heap" where
  "new_int p v h = h\<lparr>cells := (cells h)(p := Some v)\<rparr>"

definition present :: "pointer \<Rightarrow> u32" where
  "present s = (if sp_ptr s \<noteq> 0 then 1 else 0)"

definition test_shared_ptr :: "test_addresses \<Rightarrow> sp_heap \<times> log \<Rightarrow> (sp_heap \<times> log) outcome" where
  "test_shared_ptr a = (\<lambda>(h0, out).
     let out1 = out @ [Debug ([newline] @ ''<<BEGIN test_shared_ptr'' @ [newline]) []];
         (p, h1) = new_shared (int_p a) (block_p a) (new_int (int_p a) 1 h0);
         (q, h2) = new_shared (int_q a) (block_q a) (new_int (int_q a) 2 h1) in
     outcome_bind (deref_shared p h2) (\<lambda>x1. outcome_bind (deref_shared q h2) (\<lambda>y1.
     let out2 = out1 @ [Debug (''*p = %d, *q = %d'' @ [newline]) [x1, y1]] in
     outcome_bind (assign_shared q p h2) (\<lambda>(q, h3).
     outcome_bind (deref_shared p h3) (\<lambda>x2. outcome_bind (deref_shared q h3) (\<lambda>y2.
     let out3 = out2 @ [Debug (''*p = %d, *q = %d'' @ [newline]) [x2, y2]] in
     outcome_bind (reset_shared p h3) (\<lambda>(p, h4).
     outcome_bind (weak_of_shared q h4) (\<lambda>(w, h5).
     outcome_bind (weak_lock w h5) (\<lambda>(s, h6).
     let out4 = out3 @ [Debug (''s present = %d'' @ [newline]) [present s]] in
     outcome_bind (deref_shared q h6) (\<lambda>y3. outcome_bind (deref_shared s h6) (\<lambda>z3.
     let out5 = out4 @ [Debug (''*q = %d, *s = %d'' @ [newline]) [y3, z3]] in
     outcome_bind (reset_shared s h6) (\<lambda>(s, h7).
     outcome_bind (reset_shared q h7) (\<lambda>(q, h8).
     outcome_bind (weak_lock w h8) (\<lambda>(t, h9).
     outcome_bind (move_shared s t h9) (\<lambda>(s, t, h10).
     outcome_bind (destroy_shared t h10) (\<lambda>h11.
     let out6 = out5 @ [Debug (''s present = %d'' @ [newline]) [present s],
         Debug ([newline] @ ''>>END test_shared_ptr'' @ [newline, newline]) []] in
     outcome_bind (destroy_shared s h11) (\<lambda>h12.
     outcome_bind (destroy_weak w h12) (\<lambda>h13.
     outcome_bind (destroy_shared q h13) (\<lambda>h14.
     outcome_bind (destroy_shared p h14) (\<lambda>h15. Done (h15, out6)))))))))))))))))))))"

definition test_stl :: "(u8 list \<Rightarrow> u32) \<Rightarrow> test_addresses \<Rightarrow> sp_heap \<times> log \<Rightarrow> (sp_heap \<times> log) outcome" where
  "test_stl c_str a = (\<lambda>(h, out).
     let out1 = repeat test_list 1 out; out2 = repeat test_set 1 out1; out3 = repeat test_vector 1 out2;
         out4 = repeat test_map 1 out3; out5 = repeat test_tuple 10 out4; out6 = repeat test_iterator 10 out5;
         out7 = repeat test_pair 10 out6; out8 = test_string c_str out7 in
     test_shared_ptr a (h, out8))"

subsection \<open>The containers\<close>

lemma set_insert_ordered:
  fixes k :: "'k :: linorder"
  shows "set (set_insert (<) k xs) = insert k (set xs)"
    and "sorted_wrt (<) xs \<Longrightarrow> sorted_wrt (<) (set_insert (<) k xs)"
proof -
  show s: "set (set_insert (<) k xs) = insert k (set xs)" for xs by (induction xs) auto
  show "sorted_wrt (<) xs \<Longrightarrow> sorted_wrt (<) (set_insert (<) k xs)" by (induction xs) (auto simp: s)
qed

lemma map_assign_keys: "map fst (map_assign lt k v m) = set_insert lt k (map fst m)"
  by (induction m) auto

lemma map_assign_ordered:
  fixes k :: "'k :: linorder"
  shows "map_of (map_assign (<) k v m) = (map_of m)(k \<mapsto> v)"
    and "sorted_wrt (<) (map fst m) \<Longrightarrow> sorted_wrt (<) (map fst (map_assign (<) k v m))"
  by (induction m) (auto simp: map_assign_keys set_insert_ordered)

subsection \<open>The transcript\<close>

lemma repeat_appends: "(\<And>out. f out = out @ ms) \<Longrightarrow> repeat f count out = out @ concat (replicate (unat count) ms)"
proof -
  assume f: "\<And>out. f out = out @ ms"
  have "repeat_calls f n out = out @ concat (replicate n ms)" for n
    by (induction n arbitrary: out) (simp_all add: f)
  then show ?thesis by (simp add: repeat_def)
qed

lemma print_each: "foldl (\<lambda>out i. out @ [g i]) out xs = out @ map g xs"
  by (induction xs arbitrary: out) simp_all

lemma print_each_pair: "foldl (\<lambda>out (k, v). out @ [g k v]) out m = out @ map (\<lambda>(k, v). g k v) m"
  by (induction m arbitrary: out) auto

text \<open>What a log puts on the debug port.\<close>

definition debug_prints :: "memory \<Rightarrow> log \<Rightarrow> string \<Rightarrow> bool" where
  "debug_prints m ms str \<longleftrightarrow> log_text m ms = Done ([], str)"

lemma debug_prints_Nil [intro]: "debug_prints m [] []"
  by (simp add: debug_prints_def)

lemma debug_prints_append [intro]:
  "debug_prints m as u \<Longrightarrow> debug_prints m bs v \<Longrightarrow> debug_prints m (as @ bs) (u @ v)"
  unfolding debug_prints_def
proof (induction m as arbitrary: u rule: log_text.induct)
  case (2 m fmt args ms)
  then show ?case by force
qed auto

lemma debug_prints_repeat:
  "debug_prints m ms u \<Longrightarrow> debug_prints m (concat (replicate n ms)) (concat (replicate n u))"
  by (induction n) auto

lemma debug_prints_one: "format_string_varg collect m fmt args [] = Done u \<Longrightarrow> debug_prints m [Debug fmt args] u"
  by (simp add: debug_prints_def)

lemma debug_prints_plain: "CHR 0x25 \<notin> set us \<Longrightarrow> debug_prints m [Debug us []] us"
  by (rule debug_prints_one) (simp add: plain_text)

lemma debug_prints_map:
  "(\<And>x. x \<in> set xs \<Longrightarrow> debug_prints m [g x] (t x)) \<Longrightarrow> debug_prints m (map g xs) (concat (map t xs))"
proof (induction xs)
  case (Cons x xs)
  then show ?case using debug_prints_append [of m "[g x]" "t x" "map g xs"] by simp
qed auto

lemma debug_prints_number:
  "CHR 0x25 \<notin> set a \<Longrightarrow> CHR 0x25 \<notin> set b \<Longrightarrow>
     debug_prints m [Debug (a @ CHR 0x25 # CHR ''d'' # b) [i]] (a @ dec_digits (unat i) @ b)"
  by (rule debug_prints_one) (simp add: plain_prefix number_directive plain_text)

lemma debug_prints_numbers:
  "CHR 0x25 \<notin> set a \<Longrightarrow> CHR 0x25 \<notin> set b \<Longrightarrow> CHR 0x25 \<notin> set c \<Longrightarrow>
     debug_prints m [Debug (a @ CHR 0x25 # CHR ''d'' # b @ CHR 0x25 # CHR ''d'' # c) [i, j]]
      (a @ dec_digits (unat i) @ b @ dec_digits (unat j) @ c)"
  by (rule debug_prints_one) (simp add: plain_prefix number_directive plain_text)

lemma debug_prints_string_number:
  "CHR 0x25 \<notin> set b \<Longrightarrow> CHR 0x25 \<notin> set c \<Longrightarrow> cstring_at m p bs \<Longrightarrow>
     debug_prints m [Debug (CHR 0x25 # CHR ''s'' # b @ CHR 0x25 # CHR ''d'' # c) [p, j]]
      (map (\<lambda>b. char_of (unat b)) bs @ b @ dec_digits (unat j) @ c)"
  by (rule debug_prints_one) (simp add: plain_prefix number_directive string_directive plain_text)

definition text_line :: "string \<Rightarrow> string" where "text_line str = str @ [newline]"

definition set_text :: string where
  "set_text = text_line ''set: { 0 1 2 3 4 5 6 7 8 9 }''"

definition map_text :: string where
  "map_text = concat (map text_line [''0 -> 10'', ''1 -> 9'', ''2 -> 8'', ''3 -> 7'', ''4 -> 6'', ''5 -> 5'', ''6 -> 4'',
     ''7 -> 3'', ''8 -> 2'', ''9 -> 1''])"

definition iterator_text :: string where
  "iterator_text = text_line ''test_iterator:'' @ text_line ''1 2 3 4 5 6 7 8 9 10 1 2 3 4 5 6 7 8 9 10 ''"

definition string_text :: string where
  "string_text = concat (map text_line [[], ''<<BEGIN test_string'', ''Aaa -> 1'', ''bbbb -> 2'', ''cc -> 3'', ''ddd -> 4'',
     [], ''>>END test_string'', []])"

definition shared_ptr_text :: string where
  "shared_ptr_text = concat (map text_line [[], ''<<BEGIN test_shared_ptr'', ''*p = 1, *q = 2'', ''*p = 1, *q = 1'',
     ''s present = 1'', ''*q = 1, *s = 1'', ''s present = 0'', [], ''>>END test_shared_ptr'', []])"

lemmas transcript_defs = text_line_def set_text_def map_text_def iterator_text_def string_text_def shared_ptr_text_def

lemma digits_small [simp]:
  "dec_digits 0 = ''0''" "dec_digits 1 = ''1''" "dec_digits (Suc 0) = ''1''" "dec_digits 2 = ''2''" "dec_digits 3 = ''3''"
  "dec_digits 4 = ''4''" "dec_digits 5 = ''5''" "dec_digits 6 = ''6''" "dec_digits 7 = ''7''" "dec_digits 8 = ''8''"
  "dec_digits 9 = ''9''" "dec_digits 10 = ''10''"
  by (simp_all add: dec_digits.simps digit_chars_def)

lemma number_line: "debug_prints m [Debug ''%d '' [i]] (dec_digits (unat i) @ '' '')"
  using debug_prints_number [of "[]" "'' ''"] by simp

lemma up_to_10: "[0 ..< 10] = [0, 1, 2, 3, 4, 5, 6, 7, 8, 9 :: nat]"
  by (simp add: upt_rec)

lemma test_set_prints:
  "\<exists>ms. (\<forall>out. test_set out = out @ ms) \<and> debug_prints m ms set_text"
proof -
  have s: "foldl (\<lambda>s i. set_insert (<) i s) [] [0 ..< 10] = [0 ..< 10 :: nat]" by (simp add: up_to_10)
  have "debug_prints m ([Debug ''set: { '' []] @ map (\<lambda>i. Debug ''%d '' [word_of_nat i]) [0 ..< 10] @ [Debug (''}'' @ [newline]) []])
     (''set: { '' @ concat (map (\<lambda>i. dec_digits (unat (word_of_nat i :: u32)) @ '' '') [0 ..< 10]) @ (''}'' @ [newline]))"
    by (intro debug_prints_append debug_prints_map number_line debug_prints_plain) auto
  then have "debug_prints m ([Debug ''set: { '' []] @ map (\<lambda>i. Debug ''%d '' [word_of_nat i]) [0 ..< 10] @ [Debug (''}'' @ [newline]) []]) set_text"
    by (simp add: set_text_def text_line_def up_to_10)
  moreover have "test_set out = out @ ([Debug ''set: { '' []] @ map (\<lambda>i. Debug ''%d '' [word_of_nat i]) [0 ..< 10] @
      [Debug (''}'' @ [newline]) []])" for out
    by (simp only: test_set_def Let_def s print_each append_assoc)
  ultimately show ?thesis by blast
qed

lemma test_map_prints:
  "\<exists>ms. (\<forall>out. test_map out = out @ ms) \<and> debug_prints m ms map_text"
proof -
  let ?g = "\<lambda>i. Debug (''%d -> %d'' @ [newline]) [word_of_nat i, word_of_nat (10 - i)]"
  have s: "foldl (\<lambda>m i. map_assign (<) i (10 - i) m) [] [0 ..< 10] = map (\<lambda>i. (i, 10 - i)) [0 ..< 10 :: nat]"
    by (simp add: up_to_10)
  have line: "debug_prints m [?g i] (dec_digits (unat (word_of_nat i :: u32)) @ '' -> '' @
      dec_digits (unat (word_of_nat (10 - i) :: u32)) @ [newline])" for i
    using debug_prints_numbers [of "[]" "'' -> ''" "[newline]"] by simp
  have "debug_prints m (map ?g [0 ..< 10]) map_text"
    using debug_prints_map [where m = m and g = ?g and xs = "[0 ..< 10]", OF line] by (simp add: map_text_def text_line_def up_to_10)
  moreover have "test_map out = out @ map ?g [0 ..< 10]" for out
    by (simp add: test_map_def s print_each_pair comp_def)
  ultimately show ?thesis by blast
qed

lemma test_tuple_prints: "debug_prints m [Debug (''tuple: (%d %d)'' @ [newline]) [1, 0]] (text_line ''tuple: (1 0)'')"
  using debug_prints_numbers [of "''tuple: (''" "'' ''" "'')'' @ [newline]" m 1 0] by (simp add: text_line_def)

lemma test_pair_prints: "debug_prints m [Debug (''pair: %d-%d'' @ [newline]) [1, 2]] (text_line ''pair: 1-2'')"
  using debug_prints_numbers [of "''pair: ''" "''-''" "[newline]" m 1 2] by (simp add: text_line_def)

lemma test_iterator_prints:
  "\<exists>ms. (\<forall>out. test_iterator out = out @ ms) \<and> debug_prints m ms iterator_text"
proof -
  let ?v = "[1, 2, 3, 4, 5, 6, 7, 8, 9, 10] :: u32 list"
  let ?g = "\<lambda>i. Debug ''%d '' [i]"
  have s: "repeat_calls (\<lambda>(v, n). (v @ [n + 1], n + 1)) 10 ([], 0) = (?v, 10)"
    by (simp add: eval_nat_numeral)
  have "debug_prints m ([Debug (''test_iterator:'' @ [newline]) []] @ map ?g ?v @ map ?g ?v @ [Debug [newline] []])
     ((''test_iterator:'' @ [newline]) @ concat (map (\<lambda>i. dec_digits (unat i) @ '' '') ?v) @
       concat (map (\<lambda>i. dec_digits (unat i) @ '' '') ?v) @ [newline])"
    by (intro debug_prints_append debug_prints_map number_line debug_prints_plain) auto
  then have "debug_prints m ([Debug (''test_iterator:'' @ [newline]) []] @ map ?g ?v @ map ?g ?v @ [Debug [newline] []]) iterator_text"
    by (simp add: iterator_text_def text_line_def)
  moreover have "test_iterator out = out @ [Debug (''test_iterator:'' @ [newline]) []] @ map ?g ?v @ map ?g ?v @ [Debug [newline] []]" for out
    by (simp only: test_iterator_def Let_def s prod.case print_each append_assoc)
  ultimately show ?thesis by blast
qed

text \<open>The four keys and where their characters are.\<close>

definition test_keys :: "u8 list list" where
  "test_keys = map bytes_of [''Aaa'', ''bbbb'', ''cc'', ''ddd'']"

lemma key_text [simp]: "map (\<lambda>b. char_of (unat b)) (bytes_of str) = str"
proof -
  have "unat (of_char c :: u8) = of_char c" for c
    using of_nat_of_char [of c, where 'a = u8, symmetric] by (simp add: unsigned_of_nat take_bit_eq_mod)
  then show ?thesis by (simp add: bytes_of_def comp_def)
qed

lemma test_string_prints:
  assumes "\<And>k. k \<in> set test_keys \<Longrightarrow> cstring_at m (c_str k) k"
  shows "\<exists>ms. (\<forall>out. test_string c_str out = out @ ms) \<and> debug_prints m ms string_text"
proof -
  let ?m = "zip test_keys [1, 2, 3, 4] :: (u8 list \<times> u32) list"
  let ?g = "\<lambda>k v. Debug (''%s -> %d'' @ [newline]) [c_str k, v]"
  have s: "foldl (\<lambda>m (k, v). map_assign string_less (bytes_of k) v m) []
      [(''ddd'', 4), (''Aaa'', 1), (''bbbb'', 2), (''cc'', 3)] = ?m"
    by (simp add: bytes_of_def test_keys_def)
  have line: "debug_prints m [?g k v] (map (\<lambda>b. char_of (unat b)) k @ '' -> '' @ dec_digits (unat v) @ [newline])"
    if "k \<in> set test_keys" for k v
    using debug_prints_string_number [of "'' -> ''" "[newline]", OF _ _ assms [OF that]] by simp
  have "debug_prints m (map (\<lambda>(k, v). ?g k v) ?m)
      (concat (map (\<lambda>(k, v). map (\<lambda>b. char_of (unat b)) k @ '' -> '' @ dec_digits (unat v) @ [newline]) ?m))"
    by (rule debug_prints_map) (clarsimp simp only: prod.case, erule line [OF set_zip_leftD])
  then have "debug_prints m ([Debug ([newline] @ ''<<BEGIN test_string'' @ [newline]) []] @ map (\<lambda>(k, v). ?g k v) ?m @
      [Debug ([newline] @ ''>>END test_string'' @ [newline, newline]) []])
      (([newline] @ ''<<BEGIN test_string'' @ [newline]) @
       concat (map (\<lambda>(k, v). map (\<lambda>b. char_of (unat b)) k @ '' -> '' @ dec_digits (unat v) @ [newline]) ?m) @
       ([newline] @ ''>>END test_string'' @ [newline, newline]))"
    by (intro debug_prints_append debug_prints_plain) auto
  then have "debug_prints m ([Debug ([newline] @ ''<<BEGIN test_string'' @ [newline]) []] @ map (\<lambda>(k, v). ?g k v) ?m @
      [Debug ([newline] @ ''>>END test_string'' @ [newline, newline]) []]) string_text"
    by (simp add: string_text_def text_line_def test_keys_def key_text)
  moreover have "test_string c_str out = out @ ([Debug ([newline] @ ''<<BEGIN test_string'' @ [newline]) []] @
      map (\<lambda>(k, v). ?g k v) ?m @ [Debug ([newline] @ ''>>END test_string'' @ [newline, newline]) []])" for out
    by (simp only: test_string_def Let_def s print_each_pair append_assoc)
  ultimately show ?thesis by blast
qed

definition fresh_addresses :: "test_addresses \<Rightarrow> sp_heap \<Rightarrow> bool" where
  "fresh_addresses a h \<longleftrightarrow> int_p a \<noteq> 0 \<and> int_q a \<noteq> 0 \<and> block_p a \<noteq> 0 \<and> block_q a \<noteq> 0 \<and> int_p a \<noteq> int_q a \<and> block_p a \<noteq> block_q a \<and>
     cells h (int_p a) = None \<and> cells h (int_q a) = None \<and> blocks h (block_p a) = None \<and> blocks h (block_q a) = None"

definition shared_ptr_log :: log where
  "shared_ptr_log = [Debug ([newline] @ ''<<BEGIN test_shared_ptr'' @ [newline]) [],
     Debug (''*p = %d, *q = %d'' @ [newline]) [1, 2], Debug (''*p = %d, *q = %d'' @ [newline]) [1, 1],
     Debug (''s present = %d'' @ [newline]) [1], Debug (''*q = %d, *s = %d'' @ [newline]) [1, 1],
     Debug (''s present = %d'' @ [newline]) [0], Debug ([newline] @ ''>>END test_shared_ptr'' @ [newline, newline]) []]"

text \<open>The heap with some contents at the test's addresses.\<close>

definition test_heap :: "test_addresses \<Rightarrow> sp_heap \<Rightarrow> u32 option \<Rightarrow> u32 option \<Rightarrow> shared_weak_count option \<Rightarrow>
    shared_weak_count option \<Rightarrow> sp_heap" where
  "test_heap a h x y c d = h\<lparr>cells := (cells h)(int_p a := x, int_q a := y), blocks := (blocks h)(block_p a := c, block_q a := d)\<rparr>"

lemma test_heap_simps:
  assumes "fresh_addresses a h"
  shows "cells (test_heap a h x y c d) (int_p a) = x" "cells (test_heap a h x y c d) (int_q a) = y"
    "blocks (test_heap a h x y c d) (block_p a) = c" "blocks (test_heap a h x y c d) (block_q a) = d"
    "new_int (int_p a) i (test_heap a h x y c d) = test_heap a h (Some i) y c d"
    "new_int (int_q a) i (test_heap a h x y c d) = test_heap a h x (Some i) c d"
    "set_block (block_p a) e (test_heap a h x y c d) = test_heap a h x y (Some e) d"
    "set_block (block_q a) e (test_heap a h x y c d) = test_heap a h x y c (Some e)"
    "test_heap a h x y c d\<lparr>cells := (cells (test_heap a h x y c d))(int_p a := None)\<rparr> = test_heap a h None y c d"
    "test_heap a h x y c d\<lparr>cells := (cells (test_heap a h x y c d))(int_q a := None)\<rparr> = test_heap a h x None c d"
    "test_heap a h x y c d\<lparr>blocks := (blocks (test_heap a h x y c d))(block_p a := None)\<rparr> = test_heap a h x y None d"
    "test_heap a h x y c d\<lparr>blocks := (blocks (test_heap a h x y c d))(block_q a := None)\<rparr> = test_heap a h x y c None"
  using assms by (auto simp: test_heap_def fresh_addresses_def new_int_def set_block_def fun_upd_twist)

lemma test_heap_empty: "fresh_addresses a h \<Longrightarrow> test_heap a h None None None None = h"
  by (simp add: test_heap_def fresh_addresses_def fun_upd_idem)

lemmas pointer_operations = new_shared_def deref_shared_def assign_shared_def copy_shared_def destroy_shared_def
  reset_shared_def weak_of_shared_def weak_lock_def move_shared_def destroy_weak_def null_pointer_def present_def
  add_shared_def add_weak_def release_shared_def release_shared_count_def release_weak_def on_zero_shared_def
  on_zero_shared_weak_def weak_count_lock_eq block_at_def refcount_defs

lemma test_shared_ptr_returns:
  assumes "fresh_addresses a h"
  shows "test_shared_ptr a (h, out) = Done (h, out @ shared_ptr_log)"
proof -
  have n: "block_p a \<noteq> 0" "block_q a \<noteq> 0" "int_p a \<noteq> 0" using assms by (simp_all add: fresh_addresses_def)
  have "test_shared_ptr a (test_heap a h None None None None, out) = Done (test_heap a h None None None None, out @ shared_ptr_log)"
    by (simp add: test_shared_ptr_def pointer_operations test_heap_simps [OF assms] n Let_def shared_ptr_log_def
      del: outcome_bind_Done_iff)
  then show ?thesis by (simp only: test_heap_empty [OF assms])
qed

lemma shared_ptr_log_prints: "debug_prints m shared_ptr_log shared_ptr_text"
proof -
  have pq: "debug_prints m [Debug (''*p = %d, *q = %d'' @ [newline]) [i, j]]
      (''*p = '' @ dec_digits (unat i) @ '', *q = '' @ dec_digits (unat j) @ [newline])"
    and qs: "debug_prints m [Debug (''*q = %d, *s = %d'' @ [newline]) [i, j]]
      (''*q = '' @ dec_digits (unat i) @ '', *s = '' @ dec_digits (unat j) @ [newline])"
    and s: "debug_prints m [Debug (''s present = %d'' @ [newline]) [i]] (''s present = '' @ dec_digits (unat i) @ [newline])" for i j
    using debug_prints_numbers [of "''*p = ''" "'', *q = ''" "[newline]"]
      debug_prints_numbers [of "''*q = ''" "'', *s = ''" "[newline]"] debug_prints_number [of "''s present = ''" "[newline]"] by simp_all
  have e: "shared_ptr_log = [Debug ([newline] @ ''<<BEGIN test_shared_ptr'' @ [newline]) []] @
     [Debug (''*p = %d, *q = %d'' @ [newline]) [1, 2]] @ [Debug (''*p = %d, *q = %d'' @ [newline]) [1, 1]] @
     [Debug (''s present = %d'' @ [newline]) [1]] @ [Debug (''*q = %d, *s = %d'' @ [newline]) [1, 1]] @
     [Debug (''s present = %d'' @ [newline]) [0]] @ [Debug ([newline] @ ''>>END test_shared_ptr'' @ [newline, newline]) []]"
    by (simp add: shared_ptr_log_def)
  have t: "shared_ptr_text = ([newline] @ ''<<BEGIN test_shared_ptr'' @ [newline]) @
     (''*p = '' @ dec_digits (unat (1 :: u32)) @ '', *q = '' @ dec_digits (unat (2 :: u32)) @ [newline]) @
     (''*p = '' @ dec_digits (unat (1 :: u32)) @ '', *q = '' @ dec_digits (unat (1 :: u32)) @ [newline]) @
     (''s present = '' @ dec_digits (unat (1 :: u32)) @ [newline]) @
     (''*q = '' @ dec_digits (unat (1 :: u32)) @ '', *s = '' @ dec_digits (unat (1 :: u32)) @ [newline]) @
     (''s present = '' @ dec_digits (unat (0 :: u32)) @ [newline]) @
     ([newline] @ ''>>END test_shared_ptr'' @ [newline, newline])"
    by (simp add: shared_ptr_text_def text_line_def)
  show ?thesis unfolding e t by (intro debug_prints_append pq qs s debug_prints_plain) auto
qed

definition stl_transcript :: string where
  "stl_transcript = set_text @ map_text @ concat (replicate 10 (text_line ''tuple: (1 0)'')) @
     concat (replicate 10 iterator_text) @ concat (replicate 10 (text_line ''pair: 1-2'')) @ string_text @ shared_ptr_text"

text \<open>The test prints a fixed text on the debug port and gives all memory back.\<close>

theorem test_stl_transcript:
  assumes "fresh_addresses a h" and "\<And>k. k \<in> set test_keys \<Longrightarrow> cstring_at m (c_str k) k"
  shows "\<exists>ms. test_stl c_str a (h, out) = Done (h, out @ ms) \<and> log_text m ms = Done ([], stl_transcript)"
proof -
  obtain s where s: "\<And>out. test_set out = out @ s" "debug_prints m s set_text" using test_set_prints by metis
  obtain mp where mp: "\<And>out. test_map out = out @ mp" "debug_prints m mp map_text" using test_map_prints by metis
  obtain it where it: "\<And>out. test_iterator out = out @ it" "debug_prints m it iterator_text" using test_iterator_prints by metis
  obtain st where st: "\<And>out. test_string c_str out = out @ st" "debug_prints m st string_text"
    using test_string_prints [OF assms(2)] by metis
  let ?t = "[Debug (''tuple: (%d %d)'' @ [newline]) [1, 0]]" and ?p = "[Debug (''pair: %d-%d'' @ [newline]) [1, 2]]"
  have t: "test_tuple out = out @ ?t" "test_pair out = out @ ?p" "test_list out = out @ []" "test_vector out = out @ []" for out
    by (simp_all add: test_tuple_def test_pair_def test_list_def test_vector_def Let_def)
  let ?ms = "s @ mp @ concat (replicate 10 ?t) @ concat (replicate 10 it) @ concat (replicate 10 ?p) @ st @ shared_ptr_log"
  have n: "unat (1 :: u32) = 1" "unat (10 :: u32) = 10" by simp_all
  have "test_stl c_str a (h, out) = Done (h, out @ ?ms)"
    unfolding test_stl_def Let_def prod.case repeat_appends [OF s(1)] repeat_appends [OF mp(1)] repeat_appends [OF it(1)]
      repeat_appends [of test_tuple, OF t(1)] repeat_appends [of test_pair, OF t(2)] repeat_appends [of test_list, OF t(3)]
      repeat_appends [of test_vector, OF t(4)] st(1) test_shared_ptr_returns [OF assms(1)] n
    by (simp add: concat_replicate_trivial)
  moreover have "debug_prints m ?ms stl_transcript"
    unfolding stl_transcript_def
    by (intro debug_prints_append debug_prints_repeat s mp it st test_tuple_prints test_pair_prints shared_ptr_log_prints)
  ultimately show ?thesis unfolding debug_prints_def by blast
qed

definition keys_memory :: memory where
  "keys_memory p = (let bs = 0 # concat (map (\<lambda>k. k @ [0]) test_keys) in if unat p < length bs then bs ! unat p else 0)"

definition keys_at :: "u8 list \<Rightarrow> u32" where
  "keys_at k = the (map_of (zip test_keys [1, 5, 10, 13]) k)"

theorem test_stl_transcript_witness:
  "\<exists>ms. test_stl keys_at \<lparr>int_p = 0x1000, block_p = 0x1010, int_q = 0x1020, block_q = 0x1030\<rparr>
     (\<lparr>blocks = (\<lambda>b. None), cells = (\<lambda>p. None)\<rparr>, []) = Done (\<lparr>blocks = (\<lambda>b. None), cells = (\<lambda>p. None)\<rparr>, ms) \<and>
     log_text keys_memory ms = Done ([], stl_transcript)"
proof -
  have "\<forall>k \<in> set test_keys. cstring_at keys_memory (keys_at k) k"
    by (simp add: keys_memory_def keys_at_def test_keys_def bytes_of_def Let_def)
  moreover have "fresh_addresses \<lparr>int_p = 0x1000, block_p = 0x1010, int_q = 0x1020, block_q = 0x1030\<rparr>
      \<lparr>blocks = (\<lambda>b. None), cells = (\<lambda>p. None)\<rparr>" by (simp add: fresh_addresses_def)
  ultimately show ?thesis using test_stl_transcript [where out = "[]"] by fastforce
qed

end
