(* ===== verification/Spec2Isabelle.thy ===== *)
theory Spec2Isabelle
  imports DiskCache Kernel Paging_Build Multitasking Loader Kernel_Main Counting Boot_Task Self_Test Libc_Stubs Stl_Test
begin

text \<open>
  \<^bold>\<open>TimbOS\<close> is a hobby kernel for the i686 in C++. This development models the kernel proper, the files
  directly under \<^verbatim>\<open>src/\<close>, with the parts of its C library \<^verbatim>\<open>src/lib/klibc\<close> it runs on.

  \<^bold>\<open>The program.\<close> The boot loader enters \<^verbatim>\<open>loader.s\<close>, which turns paging on, runs the static constructors and
  calls \<^verbatim>\<open>kmain\<close>. \<^verbatim>\<open>kmain\<close> (\<^verbatim>\<open>kernel.cpp\<close>) prints a banner, lets \<^verbatim>\<open>mm::init\<close> find the memory in the boot
  information (\<^verbatim>\<open>multiboot.h\<close>, \<^verbatim>\<open>mbtutil.h\<close>, \<^verbatim>\<open>elf.h\<close>), map the kernel (\<^verbatim>\<open>paging.cpp\<close>, \<^verbatim>\<open>pagedir.cpp\<close>) and start
  the page allocator (\<^verbatim>\<open>physical.cpp\<close>) and the heap (\<^verbatim>\<open>kheap.cpp\<close>). It sets up descriptor tables and interrupt
  dispatch (\<^verbatim>\<open>gdt.cpp\<close>, \<^verbatim>\<open>idt.cpp\<close>, \<^verbatim>\<open>isr.cpp\<close>, \<^verbatim>\<open>irq.cpp\<close>), the keyboard (\<^verbatim>\<open>kb.cpp\<close>), the task switcher and its
  system call (\<^verbatim>\<open>scheduler.cpp\<close>, \<^verbatim>\<open>syscall.cpp\<close>). Then the registered driver probes (\<^verbatim>\<open>drvmanager.cpp\<close>) run;
  the floppy driver (\<^verbatim>\<open>floppy.cpp\<close>) adds its drive to the device manager (\<^verbatim>\<open>devmanager.cpp\<close>). \<^verbatim>\<open>kmain\<close> looks
  the drive up, mounts its FAT12 file system (\<^verbatim>\<open>FAT12*.h\<close>, \<^verbatim>\<open>FAT12*.cpp\<close>) and prints its directory tree.
  Output goes through \<^verbatim>\<open>format.cpp\<close> to the console (\<^verbatim>\<open>console.cpp\<close>, \<^verbatim>\<open>video.cpp\<close>) or the debug port
  (\<^verbatim>\<open>debug.cpp\<close>). \<^verbatim>\<open>diskcacheimpl.cpp\<close>, \<^verbatim>\<open>interlocked.h\<close> and \<^verbatim>\<open>cppsupp.cpp\<close> are services beside that path.

  \<^bold>\<open>Conventions\<close> (theory \<open>Prelude\<close>). An operation that can fail returns an \<^typ>\<open>'a outcome\<close>: \<open>Done\<close>, a
  \<open>Fault\<close> (division trap, access outside an object, undefined behaviour, kernel panic) or \<open>Diverges\<close>.
  Machine integers are words of their width and wrap. State is passed explicitly. Loops bounded by the
  code are structural recursions or functions with a measure; a loop the code does not bound is a
  \<^theory_text>\<open>partial_function (option)\<close>, and its termination is a theorem or its non-termination is.
  Hardware (ports, interrupts, DMA, \<^verbatim>\<open>cpuid\<close>), the addresses the linker chose and the contents of
  uninitialised memory are parameters.

  \<^bold>\<open>Theories.\<close>

  \<^item> \<open>Klibc\<close>: \<^verbatim>\<open>string.cpp\<close>, \<^verbatim>\<open>stdlib.cpp\<close> over a byte store. \<open>Format\<close>: the formatter, with its output
    callback as a parameter; the locales \<open>char_sink\<close> and \<open>invariant_sink\<close> state what a callback may promise
    and are interpreted on the console and the debug port in \<open>Console\<close>.
  \<^item> \<open>Ports\<close>, \<open>Console\<close>, \<open>Log\<close>, \<open>Terminal\<close>: port access; video, console and debug output; the message log of
    the other components and its delivery; the terminal the console implements.
  \<^item> \<open>Multiboot\<close>, \<open>Physical\<close>, \<open>Mm\<close>, \<open>Heap\<close>, \<open>Paging\<close>, \<open>Memory_Init\<close>, \<open>Paging_Build\<close>: memory. The locale
    \<open>page_provider\<close> of \<open>Mm\<close> is the contract between the page allocator and the heap. It is interpreted on
    \<^verbatim>\<open>mm::alloc_pages\<close> and \<^verbatim>\<open>mm::free_pages\<close>; the heap lemmas are proved inside it. Invariants: \<open>phys_inv\<close> and \<open>mm_inv\<close>
    (pools are adjacent, every status word belongs to a frame), \<open>heap_inv\<close> (chunks lie in used pages, free
    lists are duplicate-free, counts agree). Abstractions: \<open>used_pages\<close>, the set of pages in use, and
    \<open>live_objects\<close>, the objects handed out; allocation and release are shown to implement insertion and
    removal on them. Paging is related to the page walk \<open>mmu_walk\<close> of the processor.
  \<^item> \<open>Interrupts\<close>, \<open>Scheduler\<close>, \<open>Keyboard\<close>: tables, dispatch, exceptions; round robin switching and the
    yield system call; what a sequence of keys going down and up types.
  \<^item> \<open>Processor\<close>, \<open>Stubs\<close>, \<open>Multitasking\<close>, \<open>Loader\<close>: the instructions the assembly files use, with their
    meaning over registers, stack and descriptor tables; the interrupt, exception and system call stubs
    around the C handlers (\<^verbatim>\<open>irq_.s\<close>, \<^verbatim>\<open>isr_.s\<close>, \<^verbatim>\<open>syscall_.s\<close>) and the leaf routines; tasks as virtual processors,
    with the step relation \<open>task_step\<close> of the kernel and the deterministic machine \<open>vp_step\<close> it implements, over the same
    computations and ticks; \<^verbatim>\<open>loader.s\<close>.
  \<^item> \<open>Interlocked\<close>: the atomic operations on memory words, and the spin lock as the step relation
    \<open>lock_step\<close>, labelled by the operations, of any number of tasks over one memory, with its invariant by rule induction.
  \<^item> \<open>Block_Device\<close>: \<^verbatim>\<open>IBlockDevice\<close> as a record of methods. The locale \<open>block_device\<close> says that a device
    serves a disk image. \<open>Floppy\<close> is the driver; the locale \<open>fdc_protocol\<close> is the protocol of the controller under which
    its transfers end. \<open>Fdc\<close> describes the hardware from its data sheets, the floppy controller with its command bytes,
    phases and registers and the DMA channel, as an abstract controller \<open>fdc\<close>, and \<open>controller_obeys\<close> says that hardware
    behaves like it. In the locale \<open>floppy_controller\<close> of \<open>Controller\<close> every
    transfer is shown to succeed, so that the drive provides \<open>block_device\<close> (interpretation \<open>floppy_disk\<close>);
    \<open>Fat12\<close>, \<open>DiskCache\<close> and \<open>Kernel\<close> use it.
  \<^item> \<open>Fat12\<close> is the reader of FAT12 volumes. \<open>Fat12_Format\<close> defines the format on its own, byte by byte on natural
    numbers: boot sector, regions, 12-bit entries, chains, names, trees (\<open>fat12_volume\<close>). \<open>Fat12_Volume\<close> relates the two:
    the reader's words, chains, sectors and names are those of the format.
  \<^item> \<open>Devices\<close>: device list, probe table, floppy probe, static destructors. \<open>Kernel\<close>: banner, start sequence,
    and \<^verbatim>\<open>dirtree\<close>. The locale \<open>line_printer\<close> says what the listing needs of a console, \<open>disk_listing\<close> joins it with
    \<open>block_device\<close>. \<open>Start_Screen\<close>: the start sequence with its console. \<open>Boot_Devices\<close>: the floppy probe on the memory
    \<^verbatim>\<open>mm::init\<close> leaves. \<open>Kernel_Main\<close>: the whole of \<^verbatim>\<open>kmain\<close> and what is on the screen when it is done. \<open>Counting\<close>: the demonstration
    tasks of \<^verbatim>\<open>kernel.cpp\<close>, \<open>counting_step\<close> being one memory access or character of one task. \<open>Boot_Task\<close>: the start
    sequence on the processor, up to the first tick. \<open>Self_Test\<close>: \<^verbatim>\<open>paging_test\<close> and \<^verbatim>\<open>floppy_test\<close>. \<open>Libc_Stubs\<close>: the
    functions the C++ library links against, which do nothing. \<open>Shared_Ptr\<close>: the reference counts of the C++
    library, as functions on a heap and as the step relation \<open>sharing_step\<close> of threads that share an object, which
    the functions are shown to run. \<open>Stl_Test\<close>: \<^verbatim>\<open>test_stl\<close> and what it prints.

  \<^bold>\<open>What is shown.\<close> The properties are the theorems whose text starts with C and a number. Refinements:
  the heap and the page allocator implement sets of objects and pages; opening a directory follows the
  chain of the format, and its enumeration yields the visible entries; the kernel implements one processor per task; the console
  implements a terminal; the drive serves the disk through its one-cylinder cache and its commands to the controller; \<^verbatim>\<open>dirtree\<close>
  prints the tree on the disk, and, for any FAT12 volume of the format, \<^verbatim>\<open>kmain\<close> shows it on the screen, from the boot information through the
  whole stack. Invariants and safety:
  mutual exclusion, the life time of shared objects, disjoint heap objects, exclusive pages, DMA buffers within their limits, released
  motors, the state after the start sequence. Reports printed under the lock are not mixed. Round trips: an interrupt leaves every
  register as it was. Liveness: a waiting task gets a free lock, every task
  gets its turn, a new task starts at its entry point. Bounds: what a counter incremented without a lock may hold. Termination: transfers end on a controller that follows its protocol. Further theorems, without a
  number, state errors: which exceptions halt, stale data after a failed read, 64-bit increments that do
  not store. Theorems with hypotheses are followed by a witness at a concrete input.

  \<^bold>\<open>Bounds.\<close> The floppy driver polls at most 600 times and retries 10 or 20 times; these counts are the
  fuel of its loops, and running out is the code's own panic or error return. The tables have the
  sizes of the code: 16 IRQ routines, 16 probes, 32 destructors, 256 gates, 17 heap groups. Loops over memory
  run over 32-bit words. No other fuel is used.

  \<^bold>\<open>Not modelled.\<close> \<^verbatim>\<open>loader.low\<close>, an older loader the build does not use. The vendored \<^verbatim>\<open>src/lib/libc++\<close> apart from \<^verbatim>\<open>shared_ptr\<close>: vectors, strings, lists and maps are
  HOL lists and maps, and the nodes they take from the heap are left out. The headers of \<^verbatim>\<open>klibc\<close>
  that only declare. \<^verbatim>\<open>objectmanager\<close>, \<^verbatim>\<open>objectdirectory.h\<close>, \<^verbatim>\<open>rtl.h\<close>, which hold no code. Debug and trace output is a log up to the heap and is left out in the
  paging, disk and start components, where it has no effect on the state. Interrupts between two steps
  of a driver are modelled where a driver waits for them, not elsewhere; the kernel stack is not bounded.
\<close>

end
